(* ===== verification/Savfox_Prelude.thy ===== *)
theory Savfox_Prelude
  imports Main "HOL-Library.List_Lexorder" "HOL-Library.Sublist"
begin

text \<open>
  Shared vocabulary of the development: Rust results, Rust's fixed-width arithmetic, Rust
  strings, and the vector operations that the modelled crates use from the standard library,
  with the lemmas the component theories share.

  A Rust \<^verbatim>\<open>char\<close> is a Unicode scalar value, here its code point as a \<^typ>\<open>nat\<close>; a Rust
  \<^verbatim>\<open>String\<close> or \<^verbatim>\<open>&str\<close> is the list of its scalar values.  \<open>byte_len\<close> is the length in UTF-8
  bytes, which is what \<^verbatim>\<open>str::len\<close> returns.  A literal of the source is written
  \<open>lit ''...''\<close>; the literals the sources use outside ASCII are written by code point.
\<close>

section \<open>Results\<close>

type_synonym ('e, 'a) result = "'e + 'a"

abbreviation Ok :: "'a \<Rightarrow> ('e, 'a) result" where
  "Ok \<equiv> Inr"

abbreviation Err :: "'e \<Rightarrow> ('e, 'a) result" where
  "Err \<equiv> Inl"

definition and_then :: "('e, 'a) result \<Rightarrow> ('a \<Rightarrow> ('e, 'b) result) \<Rightarrow> ('e, 'b) result" where
  "and_then r f = (case r of Inl e \<Rightarrow> Inl e | Inr a \<Rightarrow> f a)"

definition map_err :: "('e \<Rightarrow> 'f) \<Rightarrow> ('e, 'a) result \<Rightarrow> ('f, 'a) result" where
  "map_err f r = (case r of Inl e \<Rightarrow> Inl (f e) | Inr a \<Rightarrow> Inr a)"

definition is_ok :: "('e, 'a) result \<Rightarrow> bool" where
  "is_ok r = (case r of Inl _ \<Rightarrow> False | Inr _ \<Rightarrow> True)"

text \<open>\<^verbatim>\<open>iter.map(f).collect::<Result<Vec<_>, _>>()\<close>: the first error wins.\<close>

fun collect_results :: "('a \<Rightarrow> ('e, 'b) result) \<Rightarrow> 'a list \<Rightarrow> ('e, 'b list) result" where
  "collect_results f [] = Ok []"
| "collect_results f (x # xs) =
     (case f x of Inl e \<Rightarrow> Err e
      | Inr y \<Rightarrow> (case collect_results f xs of Inl e \<Rightarrow> Err e | Inr ys \<Rightarrow> Ok (y # ys)))"

named_theorems rust_simps \<open>unfolding rules for the Rust library model\<close>

lemma and_then_simps [simp]:
  "and_then (Inl e) f = Inl e"
  "and_then (Inr a) f = f a"
  by (simp_all add: and_then_def)

lemma and_then_eq_Inr: "and_then r f = Inr b \<longleftrightarrow> (\<exists>a. r = Inr a \<and> f a = Inr b)"
  by (cases r) auto

lemma is_ok_simps [simp]:
  "\<not> is_ok (Inl e)"
  "is_ok (Inr a)"
  by (simp_all add: is_ok_def)

lemma collect_results_Cons:
  "collect_results f (x # xs) = Inr ys \<longleftrightarrow>
     (\<exists>z zs. ys = z # zs \<and> f x = Inr z \<and> collect_results f xs = Inr zs)"
  by (auto split: sum.splits)

lemma collect_results_Inr:
  "collect_results f xs = Inr ys \<longleftrightarrow> list_all2 (\<lambda>x y. f x = Inr y) xs ys"
proof (induction xs arbitrary: ys)
  case Nil
  then show ?case by auto
next
  case (Cons x xs)
  show ?case
    unfolding collect_results_Cons Cons.IH by (auto simp: list_all2_Cons1)
qed

lemma collect_results_length: "collect_results f xs = Inr ys \<Longrightarrow> length ys = length xs"
  by (auto simp: collect_results_Inr dest: list_all2_lengthD)

section \<open>Fixed-width arithmetic\<close>

text \<open>
  The build targets are 64-bit, so \<^verbatim>\<open>usize\<close> and \<^verbatim>\<open>u64\<close> range over \<open>0..2^64-1\<close>.  Saturating
  operations are written out; plain \<^verbatim>\<open>+\<close> on lengths of live vectors cannot overflow because
  Rust allocations are bounded by \<^verbatim>\<open>isize::MAX\<close> bytes.
\<close>

definition usize_max :: nat where
  "usize_max = 2 ^ 64 - 1"

definition sat_add :: "nat \<Rightarrow> nat \<Rightarrow> nat" where
  "sat_add a b = min (a + b) usize_max"

definition sat_mul :: "nat \<Rightarrow> nat \<Rightarrow> nat" where
  "sat_mul a b = min (a * b) usize_max"

definition i64_max :: int where
  "i64_max = 2 ^ 63 - 1"

definition i64_min :: int where
  "i64_min = - (2 ^ 63)"

definition sat_add_i64 :: "int \<Rightarrow> int \<Rightarrow> int" where
  "sat_add_i64 a b = max i64_min (min (a + b) i64_max)"

text \<open>\<^verbatim>\<open>i64::try_from(n).unwrap_or(i64::MAX)\<close> on an unsigned value.\<close>

definition i64_of_nat :: "nat \<Rightarrow> int" where
  "i64_of_nat n = (if int n \<le> i64_max then int n else i64_max)"

lemma sat_add_le [simp]: "sat_add a b \<le> usize_max"
  by (simp add: sat_add_def)

lemma sat_add_exact: "a + b \<le> usize_max \<Longrightarrow> sat_add a b = a + b"
  by (simp add: sat_add_def)

lemma sat_mul_exact: "a * b \<le> usize_max \<Longrightarrow> sat_mul a b = a * b"
  by (simp add: sat_mul_def)

lemma sat_add_i64_range: "i64_min \<le> sat_add_i64 a b \<and> sat_add_i64 a b \<le> i64_max"
  by (auto simp: sat_add_i64_def i64_min_def i64_max_def)

lemma i64_of_nat_range: "0 \<le> i64_of_nat n \<and> i64_of_nat n \<le> i64_max"
  by (auto simp: i64_of_nat_def i64_max_def)

lemma sat_add_i64_nonneg: "0 \<le> a \<Longrightarrow> 0 \<le> b \<Longrightarrow> 0 \<le> sat_add_i64 a b"
  by (auto simp: sat_add_i64_def i64_max_def)

section \<open>Strings\<close>

type_synonym rchar = nat
type_synonym rstring = "rchar list"

definition lit :: "string \<Rightarrow> rstring" where
  "lit s = map of_char s"

abbreviation nl_char :: rchar where
  "nl_char \<equiv> 10"

abbreviation cr_char :: rchar where
  "cr_char \<equiv> 13"

abbreviation space_char :: rchar where
  "space_char \<equiv> 32"

text \<open>\<^verbatim>\<open>char::len_utf8\<close> and \<^verbatim>\<open>str::len\<close>.\<close>

definition len_utf8 :: "rchar \<Rightarrow> nat" where
  "len_utf8 c = (if c < 128 then 1 else if c < 2048 then 2 else if c < 65536 then 3 else 4)"

definition byte_len :: "rstring \<Rightarrow> nat" where
  "byte_len s = sum_list (map len_utf8 s)"

text \<open>\<^verbatim>\<open>char::is_whitespace\<close>: the Unicode \<open>White_Space\<close> property.\<close>

definition is_whitespace :: "rchar \<Rightarrow> bool" where
  "is_whitespace c \<longleftrightarrow>
     (9 \<le> c \<and> c \<le> 13) \<or> c = 32 \<or> c = 133 \<or> c = 160 \<or> c = 5760 \<or>
     (8192 \<le> c \<and> c \<le> 8202) \<or> c = 8232 \<or> c = 8233 \<or> c = 8239 \<or> c = 8287 \<or> c = 12288"

definition trim_start :: "rstring \<Rightarrow> rstring" where
  "trim_start s = dropWhile is_whitespace s"

definition trim_end :: "rstring \<Rightarrow> rstring" where
  "trim_end s = rev (dropWhile is_whitespace (rev s))"

definition trim :: "rstring \<Rightarrow> rstring" where
  "trim s = trim_end (trim_start s)"

fun strip_prefix :: "rstring \<Rightarrow> rstring \<Rightarrow> rstring option" where
  "strip_prefix [] s = Some s"
| "strip_prefix (p # ps) [] = None"
| "strip_prefix (p # ps) (c # s) = (if p = c then strip_prefix ps s else None)"

definition starts_with :: "rstring \<Rightarrow> rstring \<Rightarrow> bool" where
  "starts_with p s = (strip_prefix p s \<noteq> None)"

fun split_once :: "rstring \<Rightarrow> rstring \<Rightarrow> (rstring \<times> rstring) option" where
  "split_once sep [] = (if sep = [] then Some ([], []) else None)"
| "split_once sep (c # s) =
     (case strip_prefix sep (c # s) of
        Some rest \<Rightarrow> Some ([], rest)
      | None \<Rightarrow> map_option (\<lambda>(a, b). (c # a, b)) (split_once sep s))"

definition strip_suffix :: "rstring \<Rightarrow> rstring \<Rightarrow> rstring option" where
  "strip_suffix p s = map_option rev (strip_prefix (rev p) (rev s))"

definition ends_with :: "rstring \<Rightarrow> rstring \<Rightarrow> bool" where
  "ends_with p s = (strip_suffix p s \<noteq> None)"

text \<open>\<^verbatim>\<open>str::split(pred)\<close>: always one part more than there are separators.\<close>

fun split_by :: "(rchar \<Rightarrow> bool) \<Rightarrow> rstring \<Rightarrow> rstring list" where
  "split_by p [] = [[]]"
| "split_by p (c # s) =
     (if p c then [] # split_by p s
      else (case split_by p s of [] \<Rightarrow> [[c]] | w # ws \<Rightarrow> (c # w) # ws))"

abbreviation split_on :: "rchar \<Rightarrow> rstring \<Rightarrow> rstring list" where
  "split_on c \<equiv> split_by (\<lambda>x. x = c)"

text \<open>\<^verbatim>\<open>[String]::join(sep)\<close>.\<close>

fun join_str :: "rstring \<Rightarrow> rstring list \<Rightarrow> rstring" where
  "join_str sep [] = []"
| "join_str sep [w] = w"
| "join_str sep (w # v # ws) = w @ sep @ join_str sep (v # ws)"

text \<open>
  \<^verbatim>\<open>str::lines\<close>: split after each newline, drop the newline and one carriage return before it;
  an unterminated last line keeps its carriage return, and a final newline starts no line.
\<close>

definition strip_cr :: "rstring \<Rightarrow> rstring" where
  "strip_cr s = (case strip_suffix [cr_char] s of Some t \<Rightarrow> t | None \<Rightarrow> s)"

definition str_lines :: "rstring \<Rightarrow> rstring list" where
  "str_lines s =
     (let parts = split_on nl_char s
      in map strip_cr (butlast parts) @ (if last parts = [] then [] else [last parts]))"

text \<open>Decimal rendering of an unsigned integer, as \<^verbatim>\<open>format!("{n}")\<close> prints it.\<close>

fun show_nat :: "nat \<Rightarrow> rstring" where
  "show_nat n = (if n < 10 then [48 + n] else show_nat (n div 10) @ [48 + n mod 10])"

declare show_nat.simps [simp del]

definition is_ascii_digit :: "rchar \<Rightarrow> bool" where
  "is_ascii_digit c \<longleftrightarrow> 48 \<le> c \<and> c \<le> 57"

definition to_ascii_lowercase_char :: "rchar \<Rightarrow> rchar" where
  "to_ascii_lowercase_char c = (if 65 \<le> c \<and> c \<le> 90 then c + 32 else c)"

definition to_ascii_lowercase :: "rstring \<Rightarrow> rstring" where
  "to_ascii_lowercase s = map to_ascii_lowercase_char s"

definition eq_ignore_ascii_case :: "rstring \<Rightarrow> rstring \<Rightarrow> bool" where
  "eq_ignore_ascii_case s t \<longleftrightarrow> to_ascii_lowercase s = to_ascii_lowercase t"

text \<open>\<^verbatim>\<open>str::trim_matches\<close> with a set of characters.\<close>

definition trim_matches :: "(rchar \<Rightarrow> bool) \<Rightarrow> rstring \<Rightarrow> rstring" where
  "trim_matches p s = rev (dropWhile p (rev (dropWhile p s)))"

subsection \<open>Lemmas on strings\<close>

lemma lit_Nil [simp]: "lit [] = []"
  by (simp add: lit_def)

lemma lit_Cons [simp]: "lit (c # s) = of_char c # lit s"
  by (simp add: lit_def)

lemma strip_prefix_Some: "strip_prefix p s = Some t \<longleftrightarrow> s = p @ t"
  by (induction p s rule: strip_prefix.induct) auto

lemma strip_prefix_append [simp]: "strip_prefix p (p @ t) = Some t"
  by (simp add: strip_prefix_Some)

lemma starts_with_iff: "starts_with p s \<longleftrightarrow> prefix p s"
  by (auto simp: starts_with_def strip_prefix_Some prefix_def)

lemma strip_suffix_Some: "strip_suffix p s = Some t \<longleftrightarrow> s = t @ p"
proof -
  have "strip_suffix p s = Some t \<longleftrightarrow> (\<exists>u. rev s = rev p @ u \<and> t = rev u)"
    by (auto simp: strip_suffix_def strip_prefix_Some)
  also have "\<dots> \<longleftrightarrow> s = t @ p"
    by (metis rev_append rev_rev_ident)
  finally show ?thesis .
qed

lemma ends_with_iff: "ends_with p s \<longleftrightarrow> suffix p s"
  by (auto simp: ends_with_def strip_suffix_Some suffix_def)

lemma split_by_neq_Nil [simp]: "split_by p s \<noteq> []"
  by (induction s) (auto split: list.splits)

lemma split_by_Cons_neg:
  "\<not> p c \<Longrightarrow> split_by p (c # s) = (c # hd (split_by p s)) # tl (split_by p s)"
  by (auto split: list.splits)

lemma join_str_Cons:
  "join_str sep (w # ws) = w @ (if ws = [] then [] else sep @ join_str sep ws)"
  by (cases ws) auto

lemma join_split: "join_str [c] (split_on c s) = s"
proof (induction s)
  case Nil
  then show ?case by simp
next
  case (Cons x s)
  then show ?case
    by (cases "split_on c s") (auto simp: join_str_Cons)
qed

lemma split_on_no_sep: "c \<notin> set s \<Longrightarrow> split_on c s = [s]"
  by (induction s) auto

lemma split_on_append_sep:
  "c \<notin> set w \<Longrightarrow> split_on c (w @ c # s) = w # split_on c s"
  by (induction w) auto

lemma split_join:
  "ws \<noteq> [] \<Longrightarrow> \<forall>w \<in> set ws. c \<notin> set w \<Longrightarrow> split_on c (join_str [c] ws) = ws"
proof (induction ws)
  case Nil
  then show ?case by simp
next
  case (Cons w ws)
  then show ?case
    by (cases "ws = []") (auto simp: join_str_Cons split_on_no_sep split_on_append_sep)
qed

lemma split_on_parts: "w \<in> set (split_on c s) \<Longrightarrow> c \<notin> set w"
proof (induction s arbitrary: w)
  case Nil
  then show ?case by simp
next
  case (Cons x s)
  then show ?case
    by (cases "split_on c s") (auto split: if_splits)
qed

lemma split_on_append: "split_on c (a @ c # b) = split_on c a @ split_on c b"
proof (induction a)
  case (Cons x a)
  then show ?case by (cases "split_on c a") auto
qed simp

lemma split_on_subset: "w \<in> set (split_on c s) \<Longrightarrow> set w \<subseteq> set s"
proof (induction s arbitrary: w)
  case (Cons x s)
  obtain v vs where sp: "split_on c s = v # vs"
    by (cases "split_on c s") auto
  have sub: "set u \<subseteq> set s" if "u \<in> set (v # vs)" for u
    using Cons.IH [of u] that by (simp add: sp)
  have "w = [] \<or> w \<in> set (v # vs) \<or> w = x # v"
    using Cons.prems by (cases "x = c") (auto simp: sp)
  then show ?case using sub [of v] sub [of w] by auto
qed simp

lemma strip_cr_id: "cr_char \<notin> set w \<Longrightarrow> strip_cr w = w"
  by (cases "strip_suffix [cr_char] w") (simp_all add: strip_cr_def strip_suffix_Some)

lemma split_on_length: "w \<in> set (split_on c s) \<Longrightarrow> length w + length (filter (\<lambda>x. x = c) s) \<le> length s"
proof (induction s arbitrary: w)
  case (Cons x s)
  obtain v vs where sp: "split_on c s = v # vs"
    by (cases "split_on c s") auto
  have IH: "length u + length (filter (\<lambda>x. x = c) s) \<le> length s" if "u \<in> set (v # vs)" for u
    using Cons.IH [of u] that by (simp add: sp)
  have "w = [] \<and> x = c \<or> w \<in> set (v # vs) \<or> w = x # v \<and> x \<noteq> c"
    using Cons.prems by (cases "x = c") (auto simp: sp)
  then show ?case
    using IH [of v] IH [of w] length_filter_le [of "\<lambda>x. x = c" s] by auto
qed simp

lemma split_by_none: "\<forall>x \<in> set s. \<not> p x \<Longrightarrow> split_by p s = [s]"
  by (induction s) auto

lemma split_by_some: "x \<in> set s \<Longrightarrow> p x \<Longrightarrow> tl (split_by p s) \<noteq> []"
proof (induction s)
  case (Cons c s)
  then show ?case by (cases "split_by p s") auto
qed simp

lemma last_split_by: "last (split_by p s) = rev (takeWhile (\<lambda>c. \<not> p c) (rev s))"
proof (induction s)
  case (Cons c s)
  show ?case
  proof (cases "\<exists>x \<in> set s. p x")
    case True
    then obtain w ws where sp: "split_by p s = w # ws" "ws \<noteq> []"
      using split_by_some [of _ s p] by (cases "split_by p s") auto
    with True Cons.IH show ?thesis by (auto simp: takeWhile_append)
  next
    case False
    then show ?thesis by (auto simp: split_by_none takeWhile_append)
  qed
qed simp

lemma takeWhile_stronger: "(\<And>x. p x \<Longrightarrow> q x) \<Longrightarrow> takeWhile p (takeWhile q xs) = takeWhile p xs"
  by (induction xs) auto

lemma trim_fixpoint:
  assumes "\<not> is_whitespace (hd s)" "s \<noteq> []" "\<not> is_whitespace (last s)"
  shows "trim s = s"
proof -
  have "dropWhile is_whitespace s = s" using assms by (cases s) auto
  moreover have "dropWhile is_whitespace (rev s) = rev s"
    using assms by (metis dropWhile_eq_self_iff hd_rev)
  ultimately show ?thesis by (simp add: trim_def trim_start_def trim_end_def)
qed

lemma byte_len_Nil [simp]: "byte_len [] = 0"
  by (simp add: byte_len_def)

lemma byte_len_Cons [simp]: "byte_len (c # s) = len_utf8 c + byte_len s"
  by (simp add: byte_len_def)

lemma byte_len_append [simp]: "byte_len (s @ t) = byte_len s + byte_len t"
  by (simp add: byte_len_def)

lemma len_utf8_range: "1 \<le> len_utf8 c \<and> len_utf8 c \<le> 4"
  by (simp add: len_utf8_def)

lemma len_utf8_pos [simp]: "0 < len_utf8 c"
  by (simp add: len_utf8_def)

lemma length_le_byte_len: "length s \<le> byte_len s"
  by (induction s) (auto simp: len_utf8_def)

lemma byte_len_eq_0 [simp]: "byte_len s = 0 \<longleftrightarrow> s = []"
  by (cases s) auto

section \<open>Vectors\<close>

text \<open>\<^verbatim>\<open>Vec::insert\<close> and \<^verbatim>\<open>Vec::remove\<close>; both panic out of range, which is \<open>None\<close>.\<close>

definition vec_insert :: "nat \<Rightarrow> 'a \<Rightarrow> 'a list \<Rightarrow> 'a list option" where
  "vec_insert i x xs = (if i \<le> length xs then Some (take i xs @ x # drop i xs) else None)"

definition vec_remove :: "nat \<Rightarrow> 'a list \<Rightarrow> 'a list option" where
  "vec_remove i xs = (if i < length xs then Some (take i xs @ drop (Suc i) xs) else None)"

text \<open>Slicing \<^verbatim>\<open>&xs[a..b]\<close> and \<^verbatim>\<open>&xs[a..]\<close>; out of range they panic, which is \<open>None\<close>.\<close>

definition slice :: "nat \<Rightarrow> nat \<Rightarrow> 'a list \<Rightarrow> 'a list option" where
  "slice a b xs = (if a \<le> b \<and> b \<le> length xs then Some (take (b - a) (drop a xs)) else None)"

definition slice_from :: "nat \<Rightarrow> 'a list \<Rightarrow> 'a list option" where
  "slice_from a xs = (if a \<le> length xs then Some (drop a xs) else None)"

text \<open>\<^verbatim>\<open>Iterator::position\<close> and \<^verbatim>\<open>rposition\<close>.\<close>

fun position :: "('a \<Rightarrow> bool) \<Rightarrow> 'a list \<Rightarrow> nat option" where
  "position p [] = None"
| "position p (x # xs) = (if p x then Some 0 else map_option Suc (position p xs))"

definition rposition :: "('a \<Rightarrow> bool) \<Rightarrow> 'a list \<Rightarrow> nat option" where
  "rposition p xs = map_option (\<lambda>i. length xs - 1 - i) (position p (rev xs))"

text \<open>\<^verbatim>\<open>slice.last().is_some_and(p)\<close>.\<close>

definition last_is :: "('a \<Rightarrow> bool) \<Rightarrow> 'a list \<Rightarrow> bool" where
  "last_is p xs = (xs \<noteq> [] \<and> p (last xs))"

fun filter_map :: "('a \<Rightarrow> 'b option) \<Rightarrow> 'a list \<Rightarrow> 'b list" where
  "filter_map f [] = []"
| "filter_map f (x # xs) =
     (case f x of None \<Rightarrow> filter_map f xs | Some y \<Rightarrow> y # filter_map f xs)"

fun find_map :: "('a \<Rightarrow> 'b option) \<Rightarrow> 'a list \<Rightarrow> 'b option" where
  "find_map f [] = None"
| "find_map f (x # xs) = (case f x of None \<Rightarrow> find_map f xs | Some y \<Rightarrow> Some y)"

lemma slice_from_Some: "slice_from a xs = Some ys \<longleftrightarrow> a \<le> length xs \<and> ys = drop a xs"
  by (auto simp: slice_from_def)

lemma slice_Some: "slice a b xs = Some ys \<longleftrightarrow> a \<le> b \<and> b \<le> length xs \<and> ys = take (b - a) (drop a xs)"
  by (auto simp: slice_def)

lemma position_None: "position p xs = None \<longleftrightarrow> (\<forall>x \<in> set xs. \<not> p x)"
  by (induction xs) auto

lemma position_Some:
  "position p xs = Some i \<longleftrightarrow> i < length xs \<and> p (xs ! i) \<and> (\<forall>j < i. \<not> p (xs ! j))"
proof (induction xs arbitrary: i)
  case Nil
  then show ?case by simp
next
  case (Cons x xs)
  show ?case
  proof (cases i)
    case 0
    then show ?thesis by auto
  next
    case (Suc k)
    then show ?thesis
      using Cons.IH [of k] by (auto simp: nth_Cons' less_Suc_eq_0_disj)
  qed
qed

lemma set_filter_map: "set (filter_map f xs) = {y. \<exists>x \<in> set xs. f x = Some y}"
  by (induction xs) (auto split: option.splits)

lemma filter_map_eq_Nil: "filter_map f xs = [] \<longleftrightarrow> (\<forall>x \<in> set xs. f x = None)"
  by (induction xs) (auto split: option.splits)

lemma filter_map_append: "filter_map f (xs @ ys) = filter_map f xs @ filter_map f ys"
  by (induction xs) (auto split: option.splits)

lemma set_filter_map_if: "set (filter_map (\<lambda>r. if c r then None else Some (g r)) rs) = g ` {r \<in> set rs. \<not> c r}"
  by (induction rs) auto

lemma find_map_Some: "find_map f xs = Some y \<Longrightarrow> \<exists>x \<in> set xs. f x = Some y"
  by (induction xs) (auto split: option.splits)

lemma find_map_None: "find_map f xs = None \<longleftrightarrow> (\<forall>x \<in> set xs. f x = None)"
  by (induction xs) (auto split: option.splits)

lemma last_is_Nil [simp]: "\<not> last_is p []"
  by (simp add: last_is_def)

lemma last_is_snoc [simp]: "last_is p (xs @ [x]) = p x"
  by (simp add: last_is_def)

end
