(* ===== verification/Patch_Parser.thy ===== *)
theory Patch_Parser
  imports Savfox_Prelude
begin

text \<open>
  The patch parser of \<^verbatim>\<open>crates/apply-patch/src/parser.rs\<close>.  The parser works on the lines of the
  trimmed patch text; every loop of the source is a recursive function that carries the number of
  lines consumed so far, as the source does.  A panic of the source (a slice out of range) is the
  value \<open>None\<close>; \<open>parse_patch_no_panic\<close> shows that it does not happen.
\<close>

section \<open>Data\<close>

type_synonym rpath = rstring

datatype parse_error =
    InvalidPatchError rstring
  | InvalidHunkError rstring nat

record update_chunk =
  change_context :: "rstring option"
  old_lines :: "rstring list"
  new_lines :: "rstring list"
  is_end_of_file :: bool

datatype hunk =
    AddFile rpath rstring
  | DeleteFile rpath
  | UpdateFile rpath "rpath option" "update_chunk list"

record apply_patch_args =
  args_patch :: rstring
  args_hunks :: "hunk list"
  args_workdir :: "rstring option"

datatype parse_mode = Strict | Lenient

abbreviation quote_char :: rchar where
  "quote_char \<equiv> 39"

abbreviation dquote_char :: rchar where
  "dquote_char \<equiv> 34"

definition BEGIN_PATCH_MARKER :: rstring where
  "BEGIN_PATCH_MARKER = lit ''*** Begin Patch''"

definition END_PATCH_MARKER :: rstring where
  "END_PATCH_MARKER = lit ''*** End Patch''"

definition ADD_FILE_MARKER :: rstring where
  "ADD_FILE_MARKER = lit ''*** Add File: ''"

definition DELETE_FILE_MARKER :: rstring where
  "DELETE_FILE_MARKER = lit ''*** Delete File: ''"

definition UPDATE_FILE_MARKER :: rstring where
  "UPDATE_FILE_MARKER = lit ''*** Update File: ''"

definition MOVE_TO_MARKER :: rstring where
  "MOVE_TO_MARKER = lit ''*** Move to: ''"

definition EOF_MARKER :: rstring where
  "EOF_MARKER = lit ''*** End of File''"

definition CHANGE_CONTEXT_MARKER :: rstring where
  "CHANGE_CONTEXT_MARKER = lit ''@@ ''"

definition EMPTY_CHANGE_CONTEXT_MARKER :: rstring where
  "EMPTY_CHANGE_CONTEXT_MARKER = lit ''@@''"

lemmas patch_markers =
  BEGIN_PATCH_MARKER_def END_PATCH_MARKER_def ADD_FILE_MARKER_def DELETE_FILE_MARKER_def
  UPDATE_FILE_MARKER_def MOVE_TO_MARKER_def EOF_MARKER_def CHANGE_CONTEXT_MARKER_def
  EMPTY_CHANGE_CONTEXT_MARKER_def

section \<open>Chunks of an update hunk\<close>

definition no_lines_error :: "nat \<Rightarrow> parse_error" where
  "no_lines_error n = InvalidHunkError (lit ''Update hunk does not contain any lines'') n"

definition unexpected_line_error :: "rstring \<Rightarrow> nat \<Rightarrow> parse_error" where
  "unexpected_line_error l n =
     InvalidHunkError
       (lit ''Unexpected line found in update hunk: '' @ [quote_char] @ l @ [quote_char] @
        lit ''. Every line should start with '' @ [quote_char, 32, quote_char] @
        lit '' (context line), '' @ [quote_char, 43, quote_char] @ lit '' (added line), or '' @
        [quote_char, 45, quote_char] @ lit '' (removed line)'') n"

definition expected_context_error :: "rstring \<Rightarrow> nat \<Rightarrow> parse_error" where
  "expected_context_error l n =
     InvalidHunkError
       (lit ''Expected update hunk to start with a @@ context marker, got: '' @
        [quote_char] @ l @ [quote_char]) n"

text \<open>
  The loop over the lines after the context marker.  The line number is that of the chunk; \<open>n\<close>
  is the count \<^verbatim>\<open>parsed_lines\<close>.
\<close>

fun chunk_loop ::
  "nat \<Rightarrow> update_chunk \<Rightarrow> nat \<Rightarrow> rstring list \<Rightarrow> (parse_error, update_chunk \<times> nat) result" where
  "chunk_loop ln c n [] = Ok (c, n)"
| "chunk_loop ln c n (l # ls) =
     (if l = EOF_MARKER then
        (if n = 0 then Err (no_lines_error (ln + 1))
         else Ok (c\<lparr>is_end_of_file := True\<rparr>, n + 1))
      else case l of
        [] \<Rightarrow> chunk_loop ln (c\<lparr>old_lines := old_lines c @ [[]], new_lines := new_lines c @ [[]]\<rparr>)
                (n + 1) ls
      | ch # t \<Rightarrow>
          (if ch = 32 then
             chunk_loop ln (c\<lparr>old_lines := old_lines c @ [t], new_lines := new_lines c @ [t]\<rparr>)
               (n + 1) ls
           else if ch = 43 then chunk_loop ln (c\<lparr>new_lines := new_lines c @ [t]\<rparr>) (n + 1) ls
           else if ch = 45 then chunk_loop ln (c\<lparr>old_lines := old_lines c @ [t]\<rparr>) (n + 1) ls
           else if n = 0 then Err (unexpected_line_error l (ln + 1))
           else Ok (c, n)))"

text \<open>The context marker: the context and \<^verbatim>\<open>start_index\<close>.\<close>

definition chunk_header ::
  "rstring \<Rightarrow> nat \<Rightarrow> bool \<Rightarrow> (parse_error, rstring option \<times> nat) result" where
  "chunk_header l0 ln allow_missing_context =
     (if l0 = EMPTY_CHANGE_CONTEXT_MARKER then Ok (None, 1)
      else case strip_prefix CHANGE_CONTEXT_MARKER l0 of
        Some ctx \<Rightarrow> Ok (Some ctx, 1)
      | None \<Rightarrow> if \<not> allow_missing_context then Err (expected_context_error l0 ln)
                 else Ok (None, 0))"

definition parse_update_file_chunk ::
  "rstring list \<Rightarrow> nat \<Rightarrow> bool \<Rightarrow> (parse_error, update_chunk \<times> nat) result" where
  "parse_update_file_chunk ls ln allow_missing_context =
     (case ls of
        [] \<Rightarrow> Err (no_lines_error ln)
      | l0 # rest \<Rightarrow>
          and_then (chunk_header l0 ln allow_missing_context)
            (\<lambda>(ctx, start_index).
               if length ls \<le> start_index then Err (no_lines_error (ln + 1))
               else and_then
                 (chunk_loop ln
                    \<lparr>change_context = ctx, old_lines = [], new_lines = [], is_end_of_file = False\<rparr>
                    0 (drop start_index ls))
                 (\<lambda>(c, n). Ok (c, n + start_index))))"

lemma chunk_header_start: "chunk_header l0 ln b = Inr (ctx, start) \<Longrightarrow> start \<le> 1"
  by (auto simp: chunk_header_def split: if_splits option.splits)

lemma chunk_loop_count:
  "chunk_loop ln c n ls = Inr (c', m) \<Longrightarrow> n \<le> m \<and> m \<le> n + length ls"
proof (induction ln c n ls rule: chunk_loop.induct)
  case (1 ln c n)
  then show ?case by simp
next
  case (2 ln c n l ls)
  then show ?case
    by (cases l) (fastforce split: if_splits)+
qed

lemma chunk_loop_progress:
  "chunk_loop ln c 0 (l # ls) = Inr (c', m) \<Longrightarrow> 0 < m"
  by (auto split: if_splits list.splits dest!: chunk_loop_count)

lemma parse_update_file_chunk_count:
  assumes "parse_update_file_chunk ls ln b = Inr (c, k)"
  shows "0 < k \<and> k \<le> length ls"
proof (cases ls)
  case Nil
  then show ?thesis using assms by (simp add: parse_update_file_chunk_def)
next
  case (Cons l0 rest)
  then obtain start m cc where k: "k = m + start" and st: "start < length ls" "start \<le> 1"
    and loop: "chunk_loop ln cc 0 (drop start ls) = Inr (c, m)"
    using assms
    by (auto simp: parse_update_file_chunk_def and_then_eq_Inr split: if_splits
        dest!: chunk_header_start)
  obtain l ls' where dr: "drop start ls = l # ls'"
    using st(1) by (cases "drop start ls") auto
  have "0 < m" using loop chunk_loop_progress unfolding dr by blast
  moreover have "m \<le> length (drop start ls)" using chunk_loop_count [OF loop] by simp
  ultimately show ?thesis using k st by simp
qed

section \<open>Hunks\<close>

text \<open>The loop of an Add File hunk: \<open>n\<close> is \<^verbatim>\<open>parsed_lines\<close>.\<close>

fun add_file_loop :: "rstring \<Rightarrow> nat \<Rightarrow> rstring list \<Rightarrow> rstring \<times> nat" where
  "add_file_loop contents n [] = (contents, n)"
| "add_file_loop contents n (l # ls) =
     (case strip_prefix (lit ''+'') l of
        Some line_to_add \<Rightarrow> add_file_loop (contents @ line_to_add @ [nl_char]) (n + 1) ls
      | None \<Rightarrow> (contents, n))"

text \<open>
  The loop of an Update File hunk over \<^verbatim>\<open>remaining_lines\<close>; the outer \<open>option\<close> is the slice
  \<^verbatim>\<open>&remaining_lines[chunk_lines..]\<close>.
\<close>

function update_file_loop ::
  "nat \<Rightarrow> nat \<Rightarrow> update_chunk list \<Rightarrow> rstring list \<Rightarrow>
     (parse_error, update_chunk list \<times> nat) result option" where
  "update_file_loop ln parsed chunks [] = Some (Ok (chunks, parsed))"
| "update_file_loop ln parsed chunks (l # rest) =
     (if trim l = [] then update_file_loop ln (parsed + 1) chunks rest
      else if starts_with (lit ''***'') l then Some (Ok (chunks, parsed))
      else case parse_update_file_chunk (l # rest) (ln + parsed) (chunks = []) of
        Inl e \<Rightarrow> Some (Err e)
      | Inr (c, k) \<Rightarrow>
          (case slice_from k (l # rest) of
             None \<Rightarrow> None
           | Some rest' \<Rightarrow> update_file_loop ln (parsed + k) (chunks @ [c]) rest'))"
  by pat_completeness auto
termination
  by (relation "measure (\<lambda>(ln, parsed, chunks, ls). length ls)")
    (auto simp: slice_from_Some dest: parse_update_file_chunk_count)

declare update_file_loop.simps(2) [simp del]

lemmas update_file_loop_Cons = update_file_loop.simps(2)

definition empty_update_error :: "rstring \<Rightarrow> nat \<Rightarrow> parse_error" where
  "empty_update_error path n =
     InvalidHunkError
       (lit ''Update file hunk for path '' @ [quote_char] @ path @ [quote_char] @ lit '' is empty'') n"

definition hunk_header_error :: "rstring \<Rightarrow> nat \<Rightarrow> parse_error" where
  "hunk_header_error first_line n =
     InvalidHunkError
       ([quote_char] @ first_line @ [quote_char] @
        lit '' is not a valid hunk header. Valid hunk headers: '' @
        [quote_char] @ lit ''*** Add File: {path}'' @ [quote_char] @ lit '', '' @
        [quote_char] @ lit ''*** Delete File: {path}'' @ [quote_char] @ lit '', '' @
        [quote_char] @ lit ''*** Update File: {path}'' @ [quote_char]) n"

text \<open>\<^verbatim>\<open>parse_one_hunk\<close>, called on a non-empty slice: its first line and the rest.\<close>

definition parse_one_hunk ::
  "rstring \<Rightarrow> rstring list \<Rightarrow> nat \<Rightarrow> (parse_error, hunk \<times> nat) result option" where
  "parse_one_hunk l0 rest ln =
     (let first_line = trim l0 in
      case strip_prefix ADD_FILE_MARKER first_line of
        Some path \<Rightarrow>
          (case add_file_loop [] 1 rest of (contents, n) \<Rightarrow> Some (Ok (AddFile path contents, n)))
      | None \<Rightarrow>
      (case strip_prefix DELETE_FILE_MARKER first_line of
        Some path \<Rightarrow> Some (Ok (DeleteFile path, 1))
      | None \<Rightarrow>
      (case strip_prefix UPDATE_FILE_MARKER first_line of
        Some path \<Rightarrow>
          (let move_path = (case rest of [] \<Rightarrow> None | x # _ \<Rightarrow> strip_prefix MOVE_TO_MARKER x);
               remaining = (if move_path \<noteq> None then tl rest else rest);
               parsed = (if move_path \<noteq> None then 2 else 1)
           in case update_file_loop ln parsed [] remaining of
                None \<Rightarrow> None
              | Some (Inl e) \<Rightarrow> Some (Err e)
              | Some (Inr (chunks, n)) \<Rightarrow>
                  if chunks = [] then Some (Err (empty_update_error path ln))
                  else Some (Ok (UpdateFile path move_path chunks, n)))
      | None \<Rightarrow> Some (Err (hunk_header_error first_line ln)))))"

lemma add_file_loop_count:
  "add_file_loop contents n ls = (c, m) \<Longrightarrow> n \<le> m \<and> m \<le> n + length ls"
  by (induction contents n ls rule: add_file_loop.induct) (fastforce split: option.splits)+

lemma update_file_loop_count:
  "update_file_loop ln n chunks ls = Some (Inr (cs, m)) \<Longrightarrow> n \<le> m \<and> m \<le> n + length ls"
proof (induction ln n chunks ls rule: update_file_loop.induct)
  case (1 ln parsed chunks)
  then show ?case by simp
next
  case (2 ln parsed chunks l rest)
  show ?case
  proof (cases "trim l = [] \<or> starts_with (lit ''***'') l")
    case True
    then show ?thesis
      using "2.IH"(1) "2.prems" by (auto simp: update_file_loop_Cons split: if_splits)
  next
    case False
    then obtain c k rest' where
      p: "parse_update_file_chunk (l # rest) (ln + parsed) (chunks = []) = Inr (c, k)" and
      r: "slice_from k (l # rest) = Some rest'" and
      u: "update_file_loop ln (parsed + k) (chunks @ [c]) rest' = Some (Inr (cs, m))"
      using "2.prems" by (auto simp: update_file_loop_Cons split: sum.splits option.splits)
    from "2.IH"(2) [OF _ _ p _ r u] False r show ?thesis
      by (auto simp: slice_from_Some)
  qed
qed

lemma update_file_loop_no_panic: "update_file_loop ln n chunks ls \<noteq> None"
proof (induction ln n chunks ls rule: update_file_loop.induct)
  case (1 ln parsed chunks)
  then show ?case by simp
next
  case (2 ln parsed chunks l rest)
  then show ?case
    by (auto simp: slice_from_def update_file_loop_Cons split: sum.splits
        dest!: parse_update_file_chunk_count)
qed

lemma parse_one_hunk_count:
  assumes "parse_one_hunk l0 rest ln = Some (Inr (h, n))"
  shows "1 \<le> n \<and> n \<le> Suc (length rest)"
  using assms
  by (auto simp: parse_one_hunk_def Let_def neq_Nil_conv
      split: option.splits prod.splits if_splits sum.splits list.splits
      dest!: add_file_loop_count update_file_loop_count)

lemma parse_one_hunk_no_panic: "parse_one_hunk l0 rest ln \<noteq> None"
  by (auto simp: parse_one_hunk_def Let_def update_file_loop_no_panic
      split: option.splits sum.splits prod.splits)

section \<open>Whole patches\<close>

text \<open>The loop of \<^verbatim>\<open>parse_patch_text\<close> over \<^verbatim>\<open>remaining_lines\<close>.\<close>

function parse_hunks ::
  "nat \<Rightarrow> hunk list \<Rightarrow> rstring list \<Rightarrow> (parse_error, hunk list) result option" where
  "parse_hunks ln hs [] = Some (Ok hs)"
| "parse_hunks ln hs (l # rest) =
     (case parse_one_hunk l rest ln of
        None \<Rightarrow> None
      | Some (Inl e) \<Rightarrow> Some (Err e)
      | Some (Inr (h, n)) \<Rightarrow>
          (case slice_from n (l # rest) of
             None \<Rightarrow> None
           | Some rest' \<Rightarrow> parse_hunks (ln + n) (hs @ [h]) rest'))"
  by pat_completeness auto
termination
  by (relation "measure (\<lambda>(ln, hs, ls). length ls)")
    (auto simp: slice_from_Some dest!: parse_one_hunk_count)

declare parse_hunks.simps(2) [simp del]

lemmas parse_hunks_Cons = parse_hunks.simps(2)

definition first_line_error :: parse_error where
  "first_line_error =
     InvalidPatchError
       (lit ''The first line of the patch must be '' @ [quote_char] @ lit ''*** Begin Patch'' @
        [quote_char])"

definition last_line_error :: parse_error where
  "last_line_error =
     InvalidPatchError
       (lit ''The last line of the patch must be '' @ [quote_char] @ lit ''*** End Patch'' @
        [quote_char])"

definition check_start_and_end_lines_strict ::
  "rstring option \<Rightarrow> rstring option \<Rightarrow> (parse_error, unit) result" where
  "check_start_and_end_lines_strict first_line last_line =
     (case (map_option trim first_line, map_option trim last_line) of
        (Some first, l) \<Rightarrow>
          if first = BEGIN_PATCH_MARKER \<and> l = Some END_PATCH_MARKER then Ok ()
          else if first \<noteq> BEGIN_PATCH_MARKER then Err first_line_error
          else Err last_line_error
      | (None, _) \<Rightarrow> Err last_line_error)"

definition check_patch_boundaries_strict :: "rstring list \<Rightarrow> (parse_error, unit) result" where
  "check_patch_boundaries_strict ls =
     (case ls of
        [] \<Rightarrow> check_start_and_end_lines_strict None None
      | [first] \<Rightarrow> check_start_and_end_lines_strict (Some first) (Some first)
      | first # _ # _ \<Rightarrow> check_start_and_end_lines_strict (Some first) (Some (last ls)))"

definition heredoc_starts :: "rstring list" where
  "heredoc_starts =
     [lit ''<<EOF'', lit ''<<'' @ [quote_char] @ lit ''EOF'' @ [quote_char],
      lit ''<<'' @ [dquote_char] @ lit ''EOF'' @ [dquote_char]]"

definition check_patch_boundaries_lenient ::
  "rstring list \<Rightarrow> parse_error \<Rightarrow> (parse_error, rstring list) result" where
  "check_patch_boundaries_lenient original_lines original_parse_error =
     (case original_lines of
        first # _ # _ \<Rightarrow>
          if first \<in> set heredoc_starts \<and> ends_with (lit ''EOF'') (last original_lines) \<and>
             4 \<le> length original_lines
          then (let inner_lines = butlast (tl original_lines) in
                case check_patch_boundaries_strict inner_lines of
                  Inr _ \<Rightarrow> Ok inner_lines
                | Inl e \<Rightarrow> Err e)
          else Err original_parse_error
      | _ \<Rightarrow> Err original_parse_error)"

definition parse_patch_text ::
  "rstring \<Rightarrow> parse_mode \<Rightarrow> (parse_error, apply_patch_args) result option" where
  "parse_patch_text patch mode =
     (let all_lines = str_lines (trim patch) in
      case (case check_patch_boundaries_strict all_lines of
              Inr _ \<Rightarrow> Ok all_lines
            | Inl e \<Rightarrow> (case mode of Strict \<Rightarrow> Err e
                        | Lenient \<Rightarrow> check_patch_boundaries_lenient all_lines e)) of
        Inl e \<Rightarrow> Some (Err e)
      | Inr ls \<Rightarrow>
          (case slice 1 (length ls - 1) ls of
             None \<Rightarrow> None
           | Some remaining \<Rightarrow>
               (case parse_hunks 2 [] remaining of
                  None \<Rightarrow> None
                | Some (Inl e) \<Rightarrow> Some (Err e)
                | Some (Inr hs) \<Rightarrow>
                    Some (Ok \<lparr>args_patch = join_str [nl_char] ls, args_hunks = hs,
                              args_workdir = None\<rparr>))))"

definition PARSE_IN_STRICT_MODE :: bool where
  "PARSE_IN_STRICT_MODE = False"

definition parse_patch :: "rstring \<Rightarrow> (parse_error, apply_patch_args) result option" where
  "parse_patch patch = parse_patch_text patch (if PARSE_IN_STRICT_MODE then Strict else Lenient)"

section \<open>Totality\<close>

lemma parse_hunks_no_panic: "parse_hunks ln hs ls \<noteq> None"
proof (induction ln hs ls rule: parse_hunks.induct)
  case (1 ln hs)
  then show ?case by simp
next
  case (2 ln hs l rest)
  then show ?case
    by (auto simp: parse_hunks_Cons slice_from_def parse_one_hunk_no_panic
        split: option.splits sum.splits prod.splits dest!: parse_one_hunk_count)
qed

lemma begin_neq_end: "BEGIN_PATCH_MARKER \<noteq> END_PATCH_MARKER"
  by (simp add: patch_markers)

lemma boundaries_strict_Ok:
  "check_patch_boundaries_strict ls = Inr u \<longleftrightarrow>
     2 \<le> length ls \<and> trim (hd ls) = BEGIN_PATCH_MARKER \<and> trim (last ls) = END_PATCH_MARKER"
  using begin_neq_end
  by (auto simp: check_patch_boundaries_strict_def check_start_and_end_lines_strict_def
      split: list.splits)

lemma boundaries_lenient_Ok:
  assumes "check_patch_boundaries_lenient ls e = Inr inner"
  shows "2 \<le> length inner \<and> trim (hd inner) = BEGIN_PATCH_MARKER \<and>
         trim (last inner) = END_PATCH_MARKER"
proof -
  have "check_patch_boundaries_strict inner = Inr ()"
    using assms
    by (auto simp: check_patch_boundaries_lenient_def Let_def
        split: list.splits if_splits sum.splits)
  then show ?thesis by (simp add: boundaries_strict_Ok)
qed

text \<open>
  Parsing never panics, in either mode: the slice between the two markers and every slice
  after a parsed hunk or chunk is in range, for every input string.
\<close>

lemma parse_patch_no_panic: "parse_patch_text patch mode \<noteq> None"
proof -
  have sl: "length ls < 2" if "slice (Suc 0) (length ls - Suc 0) ls = None" for ls :: "rstring list"
    using that by (auto simp: slice_def split: if_splits)
  show ?thesis
    by (auto simp: parse_patch_text_def Let_def parse_hunks_no_panic boundaries_strict_Ok
        split: option.splits sum.splits parse_mode.splits
        dest!: sl boundaries_lenient_Ok)
qed

end
