(* ===== verification/Patch_Roundtrip.thy ===== *)
theory Patch_Roundtrip
  imports Patch_Parser
begin

text \<open>
  The patch format as a grammar: \<open>render_patch\<close> writes a list of hunks the way the format
  documented at the top of \<^verbatim>\<open>parser.rs\<close> prescribes, and parsing the rendered text returns the
  hunks.  The second part shows that a heredoc wrapper around a patch is transparent in lenient
  mode.
\<close>

section \<open>The format\<close>

text \<open>The lines of a change: what both sides start with as context, then removals, then additions.\<close>

fun diff_lines :: "rstring list \<Rightarrow> rstring list \<Rightarrow> rstring list" where
  "diff_lines (x # xs) (y # ys) =
     (if x = y then (32 # x) # diff_lines xs ys else map (Cons 45) (x # xs) @ map (Cons 43) (y # ys))"
| "diff_lines xs [] = map (Cons 45) xs"
| "diff_lines [] ys = map (Cons 43) ys"

definition render_chunk :: "update_chunk \<Rightarrow> rstring list" where
  "render_chunk c =
     (case change_context c of None \<Rightarrow> EMPTY_CHANGE_CONTEXT_MARKER
      | Some ctx \<Rightarrow> CHANGE_CONTEXT_MARKER @ ctx) #
     diff_lines (old_lines c) (new_lines c) @
     (if is_end_of_file c then [EOF_MARKER] else [])"

fun render_hunk :: "hunk \<Rightarrow> rstring list" where
  "render_hunk (AddFile p contents) =
     (ADD_FILE_MARKER @ p) # map (Cons 43) (butlast (split_on nl_char contents))"
| "render_hunk (DeleteFile p) = [DELETE_FILE_MARKER @ p]"
| "render_hunk (UpdateFile p mv chunks) =
     (UPDATE_FILE_MARKER @ p) #
     (case mv of None \<Rightarrow> [] | Some q \<Rightarrow> [MOVE_TO_MARKER @ q]) @
     concat (map render_chunk chunks)"

definition patch_lines :: "hunk list \<Rightarrow> rstring list" where
  "patch_lines hs = BEGIN_PATCH_MARKER # concat (map render_hunk hs) @ [END_PATCH_MARKER]"

definition render_patch :: "hunk list \<Rightarrow> rstring" where
  "render_patch hs = join_str [nl_char] (patch_lines hs)"

text \<open>
  Well-formed hunks: lines hold no newline and do not end in a carriage return, paths are not
  empty and do not end in white space, added contents are complete lines, every update has a
  chunk and every chunk changes something.
\<close>

definition line_ok :: "rstring \<Rightarrow> bool" where
  "line_ok l \<longleftrightarrow> nl_char \<notin> set l \<and> (l = [] \<or> last l \<noteq> cr_char)"

definition path_ok :: "rstring \<Rightarrow> bool" where
  "path_ok p \<longleftrightarrow> p \<noteq> [] \<and> nl_char \<notin> set p \<and> \<not> is_whitespace (last p)"

definition chunk_ok :: "update_chunk \<Rightarrow> bool" where
  "chunk_ok c \<longleftrightarrow>
     old_lines c @ new_lines c \<noteq> [] \<and> (\<forall>l \<in> set (old_lines c @ new_lines c). line_ok l) \<and>
     (case change_context c of None \<Rightarrow> True | Some ctx \<Rightarrow> line_ok ctx)"

fun hunk_ok :: "hunk \<Rightarrow> bool" where
  "hunk_ok (AddFile p contents) =
     (path_ok p \<and> last (split_on nl_char contents) = [] \<and>
      (\<forall>l \<in> set (butlast (split_on nl_char contents)). line_ok l))"
| "hunk_ok (DeleteFile p) = path_ok p"
| "hunk_ok (UpdateFile p mv chunks) =
     (path_ok p \<and> (case mv of None \<Rightarrow> True | Some q \<Rightarrow> line_ok q) \<and> chunks \<noteq> [] \<and>
      (\<forall>c \<in> set chunks. chunk_ok c))"

section \<open>Parsing rendered chunks\<close>

lemma chunk_loop_minus:
  "chunk_loop ln c n (map (Cons 45) os @ ls) =
     chunk_loop ln (c\<lparr>old_lines := old_lines c @ os\<rparr>) (n + length os) ls"
  by (induction os arbitrary: c n) (simp_all add: EOF_MARKER_def)

lemma chunk_loop_plus:
  "chunk_loop ln c n (map (Cons 43) ns @ ls) =
     chunk_loop ln (c\<lparr>new_lines := new_lines c @ ns\<rparr>) (n + length ns) ls"
  by (induction ns arbitrary: c n) (simp_all add: EOF_MARKER_def)

lemma chunk_loop_diff:
  "chunk_loop ln c n (diff_lines xs ys @ ls) =
     chunk_loop ln (c\<lparr>old_lines := old_lines c @ xs, new_lines := new_lines c @ ys\<rparr>)
       (n + length (diff_lines xs ys)) ls"
proof (induction xs ys arbitrary: c n rule: diff_lines.induct)
  case (1 x xs y ys)
  show ?case
  proof (cases "x = y")
    case True
    then show ?thesis
      by (simp add: 1 EOF_MARKER_def)
  next
    case False
    then have "diff_lines (x # xs) (y # ys) = map (Cons 45) (x # xs) @ map (Cons 43) (y # ys)"
      by simp
    then show ?thesis
      by (simp only: append_assoc chunk_loop_minus chunk_loop_plus) (simp add: ac_simps)
  qed
next
  case (2 xs)
  have "diff_lines xs [] = map (Cons 45) xs"
    by (cases xs) simp_all
  then show ?case
    by (simp only: chunk_loop_minus) simp
next
  case (3 y ys)
  show ?case
    using chunk_loop_plus [of ln c n "y # ys" ls] by simp
qed

lemma diff_lines_Nil [simp]: "diff_lines xs ys = [] \<longleftrightarrow> xs @ ys = []"
  by (cases xs; cases ys) auto

lemma set_diff_lines: "l \<in> set (diff_lines xs ys) \<Longrightarrow> \<exists>ch t. l = ch # t \<and> t \<in> set (xs @ ys) \<and> ch \<in> {32, 43, 45}"
  by (induction xs ys rule: diff_lines.induct) (auto split: if_splits)

text \<open>What may follow a chunk: nothing, or a line that no chunk continues with.\<close>

definition stops :: "rstring list \<Rightarrow> bool" where
  "stops ls \<longleftrightarrow>
     (case ls of [] \<Rightarrow> True
      | l # _ \<Rightarrow> l \<noteq> EOF_MARKER \<and> (case l of [] \<Rightarrow> False | ch # _ \<Rightarrow> ch \<notin> {32, 43, 45}))"

lemma chunk_loop_stops: "0 < n \<Longrightarrow> stops ls \<Longrightarrow> chunk_loop ln c n ls = Inr (c, n)"
  by (cases ls) (auto simp: stops_def split: list.splits)

lemma chunk_loop_render:
  assumes "chunk_ok c" "stops rest"
    and "start = \<lparr>change_context = change_context c, old_lines = [], new_lines = [],
                   is_end_of_file = False\<rparr>"
  shows "chunk_loop ln start 0 (tl (render_chunk c) @ rest) = Inr (c, length (tl (render_chunk c)))"
proof -
  have pos: "0 < length (old_lines c) + length (new_lines c)"
    using assms(1) by (cases "old_lines c") (auto simp: chunk_ok_def)
  show ?thesis
    using pos assms(2)
    by (auto simp: render_chunk_def assms(3) chunk_loop_diff chunk_loop_stops)
qed

lemma parse_rendered_chunk:
  assumes "chunk_ok c" "stops rest"
  shows "parse_update_file_chunk (render_chunk c @ rest) ln b = Inr (c, length (render_chunk c))"
proof -
  obtain h t where ht: "render_chunk c = h # t" "t \<noteq> []"
    using assms(1) by (auto simp: render_chunk_def chunk_ok_def)
  have head: "chunk_header h ln b = Inr (change_context c, 1)"
    using ht by (auto simp: render_chunk_def chunk_header_def patch_markers split: option.splits)
  show ?thesis
    using ht head chunk_loop_render [OF assms refl, of ln]
    by (simp add: parse_update_file_chunk_def)
qed

text \<open>What may follow an update hunk: the end, or a line that starts with three stars.\<close>

definition hunk_boundary :: "rstring list \<Rightarrow> bool" where
  "hunk_boundary ls \<longleftrightarrow>
     (case ls of [] \<Rightarrow> True
      | l # _ \<Rightarrow> l \<noteq> EOF_MARKER \<and> starts_with (lit ''***'') l)"

lemma hunk_boundary_stops: "hunk_boundary ls \<Longrightarrow> stops ls"
  by (auto simp: hunk_boundary_def stops_def starts_with_iff prefix_def split: list.splits)

lemma trim_Cons_nonspace: "\<not> is_whitespace ch \<Longrightarrow> trim (ch # t) \<noteq> []"
  by (auto simp: trim_def trim_start_def trim_end_def)

lemma render_chunk_head:
  "\<exists>t rest. render_chunk c = (64 # t) # rest"
  by (auto simp: render_chunk_def patch_markers split: option.splits)

lemma stops_chunks:
  "hunk_boundary rest \<Longrightarrow> stops (concat (map render_chunk cs) @ rest)"
proof (cases cs)
  case (Cons c cs')
  then show ?thesis
    using render_chunk_head [of c] by (auto simp: stops_def EOF_MARKER_def)
qed (simp add: hunk_boundary_stops)

lemma update_file_loop_boundary:
  "hunk_boundary ls \<Longrightarrow> update_file_loop ln n cs ls = Some (Inr (cs, n))"
proof (cases ls)
  case (Cons l rest)
  assume b: "hunk_boundary ls"
  then have "starts_with (lit ''***'') l" using Cons by (simp add: hunk_boundary_def)
  moreover from this obtain t where "l = 42 # t" by (auto simp: starts_with_iff prefix_def)
  then have "trim l \<noteq> []" by (simp add: trim_Cons_nonspace is_whitespace_def)
  ultimately show ?thesis using Cons by (simp add: update_file_loop_Cons)
qed simp

lemma update_file_loop_step:
  assumes "chunk_ok c" "stops rest"
  shows "update_file_loop ln n done (render_chunk c @ rest) =
           update_file_loop ln (n + length (render_chunk c)) (done @ [c]) rest"
proof -
  obtain t ls where r: "render_chunk c = (64 # t) # ls" using render_chunk_head by blast
  have h: "trim (64 # t) \<noteq> []" "\<not> starts_with (lit ''***'') (64 # t)"
    by (auto simp: trim_Cons_nonspace is_whitespace_def starts_with_iff)
  have p: "parse_update_file_chunk ((64 # t) # ls @ rest) (ln + n) (done = []) =
             Inr (c, length (render_chunk c))"
    using parse_rendered_chunk [OF assms, of "ln + n" "done = []"] r by simp
  have s: "slice_from (length (render_chunk c)) ((64 # t) # ls @ rest) = Some rest"
    using r by (simp add: slice_from_def)
  show ?thesis
    using h p s by (simp add: r update_file_loop_Cons)
qed

lemma update_file_loop_render:
  assumes "\<forall>c \<in> set cs. chunk_ok c" "hunk_boundary rest"
  shows "update_file_loop ln n done (concat (map render_chunk cs) @ rest) =
           Some (Inr (done @ cs, n + length (concat (map render_chunk cs))))"
  using assms
proof (induction cs arbitrary: n "done")
  case Nil
  then show ?case by (simp add: update_file_loop_boundary)
next
  case (Cons c cs)
  then show ?case
    using update_file_loop_step [of c "concat (map render_chunk cs) @ rest" ln n "done"]
    by (simp add: stops_chunks add.assoc)
qed

section \<open>Parsing rendered hunks\<close>

lemma add_file_loop_plus:
  "add_file_loop contents n (map (Cons 43) ws @ ls) =
     add_file_loop (contents @ concat (map (\<lambda>w. w @ [nl_char]) ws)) (n + length ws) ls"
  by (induction ws arbitrary: contents n) simp_all

lemma add_file_loop_boundary: "hunk_boundary ls \<Longrightarrow> add_file_loop contents n ls = (contents, n)"
  by (cases ls) (auto simp: hunk_boundary_def starts_with_iff prefix_def)

lemma concat_split_lines:
  assumes "last (split_on nl_char s) = []"
  shows "concat (map (\<lambda>w. w @ [nl_char]) (butlast (split_on nl_char s))) = s"
proof -
  have "concat (map (\<lambda>w. w @ [c]) ws) @ w = join_str [c] (ws @ [w])" for c and ws :: "rstring list" and w
    by (induction ws) (simp_all add: join_str_Cons)
  then have "concat (map (\<lambda>w. w @ [nl_char]) (butlast (split_on nl_char s))) @
      last (split_on nl_char s) = join_str [nl_char] (split_on nl_char s)"
    by simp
  then show ?thesis using assms by (simp add: join_split)
qed

lemma trim_header:
  "path_ok p \<Longrightarrow> m = 42 # t \<Longrightarrow> trim (m @ p) = m @ p"
  by (rule trim_fixpoint) (auto simp: path_ok_def is_whitespace_def)

lemma marker_heads:
  "\<exists>t. ADD_FILE_MARKER = 42 # t" "\<exists>t. DELETE_FILE_MARKER = 42 # t"
  "\<exists>t. UPDATE_FILE_MARKER = 42 # t"
  by (auto simp: patch_markers)

lemma markers_disjoint:
  "strip_prefix ADD_FILE_MARKER (DELETE_FILE_MARKER @ p) = None"
  "strip_prefix ADD_FILE_MARKER (UPDATE_FILE_MARKER @ p) = None"
  "strip_prefix DELETE_FILE_MARKER (UPDATE_FILE_MARKER @ p) = None"
  by (simp_all add: patch_markers)

lemma no_move_marker:
  "strip_prefix MOVE_TO_MARKER (hd (render_chunk c)) = None"
  using render_chunk_head [of c] by (auto simp: patch_markers)

lemma parse_rendered_hunk:
  assumes "hunk_ok h" "hunk_boundary rest"
  shows "\<exists>l0 ls. render_hunk h = l0 # ls \<and>
           parse_one_hunk l0 (ls @ rest) ln = Some (Inr (h, length (render_hunk h)))"
proof (cases h)
  case (AddFile p contents)
  then show ?thesis
    using assms trim_header [of p ADD_FILE_MARKER] marker_heads(1)
      add_file_loop_plus [of "[]" 1 "butlast (split_on nl_char contents)" rest]
    by (auto simp: parse_one_hunk_def Let_def concat_split_lines add_file_loop_boundary)
next
  case (DeleteFile p)
  then show ?thesis
    using assms trim_header [of p DELETE_FILE_MARKER] marker_heads(2)
    by (auto simp: parse_one_hunk_def Let_def markers_disjoint)
next
  case (UpdateFile p mv chunks)
  then have ok: "path_ok p" "chunks \<noteq> []" "\<forall>c \<in> set chunks. chunk_ok c" using assms by auto
  have t: "trim (UPDATE_FILE_MARKER @ p) = UPDATE_FILE_MARKER @ p"
    using ok(1) marker_heads(3) trim_header by blast
  obtain c cs where cs: "chunks = c # cs" using ok(2) by (cases chunks) auto
  note loop = update_file_loop_render [OF ok(3) assms(2), of ln _ "[]"]
  show ?thesis
  proof (cases mv)
    case None
    obtain x xs where x: "render_chunk c = x # xs" using render_chunk_head by blast
    then have "strip_prefix MOVE_TO_MARKER x = None" using no_move_marker [of c] by simp
    then show ?thesis
      using UpdateFile None t loop [of 1] cs x
      by (simp add: parse_one_hunk_def Let_def markers_disjoint)
  next
    case (Some q)
    then show ?thesis
      using UpdateFile t loop [of 2] cs
      by (simp add: parse_one_hunk_def Let_def markers_disjoint)
  qed
qed

lemma render_hunk_boundary:
  "hunk_boundary (concat (map render_hunk hs))"
proof (cases hs)
  case (Cons h hs')
  then show ?thesis
    by (cases h) (auto simp: hunk_boundary_def starts_with_iff patch_markers)
qed (simp add: hunk_boundary_def)

lemma parse_hunks_render:
  "\<forall>h \<in> set hs. hunk_ok h \<Longrightarrow>
     parse_hunks ln acc (concat (map render_hunk hs)) = Some (Inr (acc @ hs))"
proof (induction hs arbitrary: ln acc)
  case Nil
  then show ?case by simp
next
  case (Cons h hs)
  then obtain l0 ls where r: "render_hunk h = l0 # ls" and
    p: "parse_one_hunk l0 (ls @ concat (map render_hunk hs)) ln = Some (Inr (h, length (render_hunk h)))"
    using parse_rendered_hunk [of h "concat (map render_hunk hs)" ln] render_hunk_boundary [of hs]
    by auto
  have s: "slice_from (length (render_hunk h)) (l0 # ls @ concat (map render_hunk hs)) =
             Some (concat (map render_hunk hs))"
    by (simp add: r slice_from_def)
  show ?case
    using Cons p s by (simp add: r parse_hunks_Cons)
qed

section \<open>Whole patches\<close>

lemma strip_cr_line_ok: "line_ok l \<Longrightarrow> strip_cr l = l"
  by (auto simp: strip_cr_def line_ok_def strip_suffix_Some split: option.splits)

lemma str_lines_join:
  assumes "ls \<noteq> []" "\<forall>l \<in> set ls. line_ok l" "last ls \<noteq> []"
  shows "str_lines (join_str [nl_char] ls) = ls"
proof -
  have "split_on nl_char (join_str [nl_char] ls) = ls"
    using assms by (intro split_join) (auto simp: line_ok_def)
  moreover have "map strip_cr (butlast ls) = butlast ls"
    using assms(2) by (intro map_idI) (auto simp: strip_cr_line_ok dest: in_set_butlastD)
  ultimately show ?thesis
    using assms by (simp add: str_lines_def Let_def)
qed

lemma line_ok_Cons: "line_ok l \<Longrightarrow> c \<noteq> nl_char \<Longrightarrow> c \<noteq> cr_char \<Longrightarrow> line_ok (c # l)"
  by (auto simp: line_ok_def)

lemma line_ok_append: "line_ok m \<Longrightarrow> line_ok l \<Longrightarrow> line_ok (m @ l)"
  by (auto simp: line_ok_def last_append)

lemma path_ok_line: "path_ok p \<Longrightarrow> line_ok p"
  by (auto simp: path_ok_def line_ok_def is_whitespace_def)

lemma markers_line_ok:
  "line_ok BEGIN_PATCH_MARKER" "line_ok END_PATCH_MARKER" "line_ok ADD_FILE_MARKER"
  "line_ok DELETE_FILE_MARKER" "line_ok UPDATE_FILE_MARKER" "line_ok MOVE_TO_MARKER"
  "line_ok EOF_MARKER" "line_ok CHANGE_CONTEXT_MARKER" "line_ok EMPTY_CHANGE_CONTEXT_MARKER"
  by (simp_all add: line_ok_def patch_markers)

lemma render_chunk_lines_ok: "chunk_ok c \<Longrightarrow> l \<in> set (render_chunk c) \<Longrightarrow> line_ok l"
  by (auto simp: render_chunk_def chunk_ok_def markers_line_ok dest!: set_diff_lines
      intro: line_ok_Cons line_ok_append split: option.splits if_splits)

lemma render_hunk_lines_ok: "hunk_ok h \<Longrightarrow> l \<in> set (render_hunk h) \<Longrightarrow> line_ok l"
  by (cases h)
    (auto simp: markers_line_ok path_ok_line render_chunk_lines_ok
      intro: line_ok_Cons line_ok_append split: option.splits)

lemma end_marker_nonempty [simp]: "END_PATCH_MARKER \<noteq> []"
  by (simp add: END_PATCH_MARKER_def)

lemma eof_line_ok: "line_ok [69, 79, 70]"
  by (simp add: line_ok_def)

lemma trim_markers:
  "trim BEGIN_PATCH_MARKER = BEGIN_PATCH_MARKER" "trim END_PATCH_MARKER = END_PATCH_MARKER"
  by (rule trim_fixpoint; simp add: patch_markers is_whitespace_def)+

lemma join_last: "ls \<noteq> [] \<Longrightarrow> last ls \<noteq> [] \<Longrightarrow> last (join_str sep ls) = last (last ls) \<and> join_str sep ls \<noteq> []"
  by (induction ls) (auto simp: join_str_Cons)

lemma trim_render: "trim (render_patch hs) = render_patch hs"
proof (rule trim_fixpoint)
  have ne: "patch_lines hs \<noteq> []" "last (patch_lines hs) \<noteq> []"
    by (simp_all add: patch_lines_def patch_markers)
  show "render_patch hs \<noteq> []"
    using join_last [OF ne] by (simp add: render_patch_def)
  show "\<not> is_whitespace (last (render_patch hs))"
    using join_last [OF ne] by (simp add: render_patch_def patch_lines_def patch_markers is_whitespace_def)
  show "\<not> is_whitespace (hd (render_patch hs))"
    by (simp add: render_patch_def patch_lines_def join_str_Cons patch_markers is_whitespace_def)
qed

lemma lines_render:
  "\<forall>h \<in> set hs. hunk_ok h \<Longrightarrow> str_lines (trim (render_patch hs)) = patch_lines hs"
  unfolding trim_render unfolding render_patch_def
  by (rule str_lines_join)
    (auto simp: patch_lines_def markers_line_ok dest: render_hunk_lines_ok)

lemma patch_lines_boundaries: "check_patch_boundaries_strict (patch_lines hs) = Inr ()"
  by (simp add: boundaries_strict_Ok patch_lines_def trim_markers)

lemma patch_lines_slice:
  "slice 1 (length (patch_lines hs) - 1) (patch_lines hs) = Some (concat (map render_hunk hs))"
  by (simp add: slice_def patch_lines_def)

lemma parse_rendered:
  assumes "\<forall>h \<in> set hs. hunk_ok h"
  shows "parse_patch_text (render_patch hs) mode =
           Some (Ok \<lparr>args_patch = render_patch hs, args_hunks = hs, args_workdir = None\<rparr>)"
  using parse_hunks_render [OF assms, of 2 "[]"] patch_lines_slice [of hs]
  unfolding parse_patch_text_def Let_def lines_render [OF assms] render_patch_def [symmetric]
  by (simp add: patch_lines_boundaries flip: render_patch_def)

text \<open>
  C4.  Parsing a rendered patch returns exactly the hunks that were rendered, and the normalised
  patch text is the rendered text: the parser accepts the documented format and loses nothing.
\<close>

theorem parse_render_roundtrip:
  assumes "\<forall>h \<in> set hs. hunk_ok h"
  shows "parse_patch_text (render_patch hs) mode =
           Some (Ok \<lparr>args_patch = render_patch hs, args_hunks = hs, args_workdir = None\<rparr>)"
  using assms by (rule parse_rendered)

theorem parse_render_roundtrip_witness:
  "parse_patch_text
     (render_patch
        [AddFile (lit ''a.txt'') (lit ''hi'' @ [nl_char]),
         UpdateFile (lit ''b.rs'') (Some (lit ''c.rs''))
           [\<lparr>change_context = Some (lit ''fn f()''), old_lines = [lit ''k'', lit ''x''], new_lines = [lit ''k'', lit ''y''],
              is_end_of_file = True\<rparr>],
         DeleteFile (lit ''d'')]) Strict =
   Some (Ok \<lparr>args_patch =
       render_patch
        [AddFile (lit ''a.txt'') (lit ''hi'' @ [nl_char]),
         UpdateFile (lit ''b.rs'') (Some (lit ''c.rs''))
           [\<lparr>change_context = Some (lit ''fn f()''), old_lines = [lit ''k'', lit ''x''], new_lines = [lit ''k'', lit ''y''],
              is_end_of_file = True\<rparr>],
         DeleteFile (lit ''d'')],
     args_hunks =
        [AddFile (lit ''a.txt'') (lit ''hi'' @ [nl_char]),
         UpdateFile (lit ''b.rs'') (Some (lit ''c.rs''))
           [\<lparr>change_context = Some (lit ''fn f()''), old_lines = [lit ''k'', lit ''x''], new_lines = [lit ''k'', lit ''y''],
              is_end_of_file = True\<rparr>],
         DeleteFile (lit ''d'')],
     args_workdir = None\<rparr>)"
  by (rule parse_render_roundtrip)
    (simp add: path_ok_def line_ok_def chunk_ok_def is_whitespace_def)

text \<open>
  The text that is kept for the program to run is not always read as the same hunks: a line that ends in two
  carriage returns loses one of them each time it is parsed.
\<close>

definition patch_with_line :: "rstring \<Rightarrow> rstring" where
  "patch_with_line l =
     lit ''*** Begin Patch'' @ [nl_char] @ lit ''*** Add File: a'' @ [nl_char] @ l @ [nl_char] @ lit ''*** End Patch''"

lemmas parse_eval =
  patch_with_line_def parse_patch_def PARSE_IN_STRICT_MODE_def parse_patch_text_def str_lines_def strip_cr_def
  strip_suffix_def trim_def trim_start_def trim_end_def is_whitespace_def check_patch_boundaries_strict_def
  check_start_and_end_lines_strict_def patch_markers slice_def parse_hunks_Cons parse_one_hunk_def slice_from_def Let_def

lemma reread_drops_carriage_return:
  "parse_patch (patch_with_line (lit ''+x'' @ [cr_char, cr_char])) =
     Some (Ok \<lparr>args_patch = patch_with_line (lit ''+x'' @ [cr_char]),
               args_hunks = [AddFile (lit ''a'') (lit ''x'' @ [cr_char, nl_char])], args_workdir = None\<rparr>)"
  "parse_patch (patch_with_line (lit ''+x'' @ [cr_char])) =
     Some (Ok \<lparr>args_patch = patch_with_line (lit ''+x''),
               args_hunks = [AddFile (lit ''a'') (lit ''x'' @ [nl_char])], args_workdir = None\<rparr>)"
  by (simp_all add: parse_eval)

text \<open>The heredoc wrapper that lenient mode accepts, around the lines of a patch.\<close>

definition wrap_heredoc :: "rstring \<Rightarrow> rstring \<Rightarrow> rstring" where
  "wrap_heredoc open_line text = open_line @ [nl_char] @ text @ [nl_char] @ lit ''EOF''"

lemma heredoc_line:
  assumes "op \<in> set heredoc_starts"
  shows "line_ok op" "op \<noteq> []" "\<not> is_whitespace (hd op)" "trim op \<noteq> BEGIN_PATCH_MARKER"
  using assms
  by (auto simp: heredoc_starts_def line_ok_def is_whitespace_def patch_markers trim_def
      trim_start_def trim_end_def)

lemma wrap_heredoc_join:
  "wrap_heredoc op (join_str [nl_char] ls) = join_str [nl_char] (op # ls @ [lit ''EOF''])"
  if "ls \<noteq> []"
proof -
  have "join_str [nl_char] (ls @ [w]) = join_str [nl_char] ls @ [nl_char] @ w" for w
    using that by (induction ls) (auto simp: join_str_Cons)
  then show ?thesis by (simp add: wrap_heredoc_def join_str_Cons)
qed

text \<open>
  A patch wrapped in a heredoc (plain, single-quoted or double-quoted marker) is parsed as
  the patch without the wrapper in lenient mode, down to the recorded patch text; in strict mode
  it is rejected because its first line is not the begin marker.
\<close>

lemma heredoc_transparent:
  assumes "\<forall>h \<in> set hs. hunk_ok h" "op \<in> set heredoc_starts"
  shows "parse_patch (wrap_heredoc op (render_patch hs)) = parse_patch (render_patch hs) \<and>
         parse_patch_text (wrap_heredoc op (render_patch hs)) Strict = Some (Err first_line_error)"
proof -
  let ?ls = "op # patch_lines hs @ [lit ''EOF'']"
  let ?w = "wrap_heredoc op (render_patch hs)"
  have w: "?w = join_str [nl_char] ?ls"
    by (simp add: render_patch_def wrap_heredoc_join patch_lines_def)
  have "trim ?w = ?w"
    using heredoc_line [OF assms(2)]
    by (intro trim_fixpoint) (auto simp: wrap_heredoc_def is_whitespace_def)
  then have lines: "str_lines (trim ?w) = ?ls"
    unfolding w
    using assms heredoc_line [OF assms(2)]
    by (simp, intro str_lines_join)
      (auto simp: patch_lines_def markers_line_ok eof_line_ok dest: render_hunk_lines_ok)
  have strict: "check_patch_boundaries_strict ?ls = Inl first_line_error"
    using heredoc_line [OF assms(2)]
    by (cases "patch_lines hs")
      (auto simp: check_patch_boundaries_strict_def check_start_and_end_lines_strict_def)
  have lenient: "check_patch_boundaries_lenient ?ls e = Inr (patch_lines hs)" for e
    using assms(2) patch_lines_boundaries [of hs]
    by (auto simp: check_patch_boundaries_lenient_def Let_def ends_with_iff patch_lines_def
        butlast_append split: list.splits)
  have "parse_patch ?w = parse_patch (render_patch hs)"
    unfolding parse_patch_def PARSE_IN_STRICT_MODE_def parse_patch_text_def Let_def lines strict
      lenient lines_render [OF assms(1)] patch_lines_boundaries
    by (simp add: lenient del: lit_Cons)
  moreover have "parse_patch_text ?w Strict = Some (Err first_line_error)"
    unfolding parse_patch_text_def Let_def lines strict by simp
  ultimately show ?thesis ..
qed

end
