(* ===== verification/Seek_Sequence.thy ===== *)
theory Seek_Sequence
  imports Savfox_Prelude
begin

text \<open>
  The forgiving line search of \<^verbatim>\<open>crates/apply-patch/src/seek_sequence.rs\<close>.  The search makes
  four passes over the candidate positions, each comparing lines under a coarser key: the line
  itself, the line without trailing white space, the trimmed line, and the trimmed line with
  typographic punctuation mapped to ASCII.  The locale \<open>coarser_key\<close> states the interface
  between two consecutive passes and is interpreted for each of the three steps of the chain.
\<close>

section \<open>The search\<close>

text \<open>The character map of the inner function \<^verbatim>\<open>normalise\<close>.\<close>

definition normalise_char :: "rchar \<Rightarrow> rchar" where
  "normalise_char c =
     (if c \<in> set [8208, 8209, 8210, 8211, 8212, 8213, 8722] then 45
      else if c \<in> set [8216, 8217, 8218, 8219] then 39
      else if c \<in> set [8220, 8221, 8222, 8223] then 34
      else if c \<in> set [160, 8194, 8195, 8196, 8197, 8198, 8199, 8200, 8201, 8202, 8239, 8287,
                       12288] then 32
      else c)"

definition normalise :: "rstring \<Rightarrow> rstring" where
  "normalise s = map normalise_char (trim s)"

text \<open>
  The body of one pass at one position: the loop over the pattern with its \<^verbatim>\<open>ok\<close> flag and early
  \<^verbatim>\<open>break\<close>.  The first argument is the key under which two lines are compared.
\<close>

fun window_ok :: "(rstring \<Rightarrow> 'k) \<Rightarrow> rstring list \<Rightarrow> rstring list \<Rightarrow> bool" where
  "window_ok key ls [] = True"
| "window_ok key [] (p # ps) = False"
| "window_ok key (l # ls) (p # ps) = (if key l \<noteq> key p then False else window_ok key ls ps)"

text \<open>One pass: \<^verbatim>\<open>for i in search_start..=lines.len() - pattern.len()\<close>.\<close>

definition seek_pass ::
  "(rstring \<Rightarrow> 'k) \<Rightarrow> rstring list \<Rightarrow> rstring list \<Rightarrow> nat \<Rightarrow> nat option" where
  "seek_pass key ls pat start =
     find (\<lambda>i. window_ok key (drop i ls) pat) [start ..< Suc (length ls - length pat)]"

definition search_start_of :: "rstring list \<Rightarrow> rstring list \<Rightarrow> nat \<Rightarrow> bool \<Rightarrow> nat" where
  "search_start_of ls pat start eof =
     (if eof \<and> length pat \<le> length ls then length ls - length pat else start)"

definition seek_sequence :: "rstring list \<Rightarrow> rstring list \<Rightarrow> nat \<Rightarrow> bool \<Rightarrow> nat option" where
  "seek_sequence ls pat start eof =
     (if pat = [] then Some start
      else if length ls < length pat then None
      else let s = search_start_of ls pat start eof in
        case seek_pass (\<lambda>l. l) ls pat s of Some i \<Rightarrow> Some i
        | None \<Rightarrow> (case seek_pass trim_end ls pat s of Some i \<Rightarrow> Some i
        | None \<Rightarrow> (case seek_pass trim ls pat s of Some i \<Rightarrow> Some i
        | None \<Rightarrow> seek_pass normalise ls pat s)))"

section \<open>Windows\<close>

lemma window_ok_iff:
  "window_ok key ls pat \<longleftrightarrow>
     length pat \<le> length ls \<and> map key (take (length pat) ls) = map key pat"
  by (induction key ls pat rule: window_ok.induct) auto

lemma find_upt_Some:
  "find P [a ..< b] = Some i \<longleftrightarrow> a \<le> i \<and> i < b \<and> P i \<and> (\<forall>j. a \<le> j \<and> j < i \<longrightarrow> \<not> P j)"
proof (induction "b - a" arbitrary: a)
  case 0
  then show ?case by auto
next
  case (Suc n)
  then have ab: "a < b" by simp
  show ?case
  proof (cases "P a")
    case True
    then show ?thesis using ab by (auto simp: upt_conv_Cons)
  next
    case False
    have "find P [a ..< b] = find P [Suc a ..< b]"
      using ab False by (simp add: upt_conv_Cons)
    moreover have "n = b - Suc a" using Suc.hyps(2) by simp
    ultimately show ?thesis
      using Suc.hyps(1) [of "Suc a"] False by (auto simp: Suc_le_eq) (metis le_neq_implies_less)+
  qed
qed

lemma find_upt_None: "find P [a ..< b] = None \<longleftrightarrow> (\<forall>i. a \<le> i \<and> i < b \<longrightarrow> \<not> P i)"
  by (auto simp: find_None_iff)

text \<open>\<open>occurs key ls pat i\<close>: the lines at \<open>i\<close> agree with the pattern under \<open>key\<close>.\<close>

definition occurs :: "(rstring \<Rightarrow> 'k) \<Rightarrow> rstring list \<Rightarrow> rstring list \<Rightarrow> nat \<Rightarrow> bool" where
  "occurs key ls pat i \<longleftrightarrow>
     i + length pat \<le> length ls \<and> map key (take (length pat) (drop i ls)) = map key pat"

lemma seek_pass_Some:
  assumes "pat \<noteq> []" "length pat \<le> length ls"
  shows "seek_pass key ls pat start = Some i \<longleftrightarrow>
           start \<le> i \<and> occurs key ls pat i \<and> (\<forall>j. start \<le> j \<and> j < i \<longrightarrow> \<not> occurs key ls pat j)"
proof -
  have ok: "window_ok key (drop j ls) pat \<longleftrightarrow> occurs key ls pat j" for j
    using assms by (cases "j \<le> length ls") (auto simp: window_ok_iff occurs_def)
  show ?thesis
    using assms unfolding seek_pass_def find_upt_Some ok by (auto simp: occurs_def)
qed

lemma seek_pass_None:
  assumes "pat \<noteq> []" "length pat \<le> length ls"
  shows "seek_pass key ls pat start = None \<longleftrightarrow> (\<forall>i \<ge> start. \<not> occurs key ls pat i)"
proof -
  have ok: "window_ok key (drop j ls) pat \<longleftrightarrow> occurs key ls pat j" for j
    using assms by (cases "j \<le> length ls") (auto simp: window_ok_iff occurs_def)
  show ?thesis
    using assms unfolding seek_pass_def find_upt_None ok by (auto simp: occurs_def)
qed

section \<open>The chain of keys\<close>

text \<open>
  What a pass relies on from the pass before it: lines equal under the finer key are equal under
  the coarser one, so giving up strictness never loses a match.
\<close>

locale coarser_key =
  fixes fine :: "rstring \<Rightarrow> 'a" and coarse :: "rstring \<Rightarrow> 'b"
  assumes coarser: "fine x = fine y \<Longrightarrow> coarse x = coarse y"
begin

lemma map_mono: "map fine xs = map fine ys \<Longrightarrow> map coarse xs = map coarse ys"
  by (induction xs ys rule: list_induct2') (auto dest: coarser)

lemma occurs_mono: "occurs fine ls pat i \<Longrightarrow> occurs coarse ls pat i"
  by (auto simp: occurs_def dest: map_mono)

lemma pass_complete:
  assumes "pat \<noteq> []" "length pat \<le> length ls" "seek_pass coarse ls pat s = None"
  shows "seek_pass fine ls pat s = None"
  using assms by (auto simp: seek_pass_None dest: occurs_mono)

end

lemma dropWhile_rev_commute:
  "dropWhile P (rev (dropWhile P (rev s))) = rev (dropWhile P (rev (dropWhile P s)))"
proof (induction s)
  case Nil
  then show ?case by simp
next
  case (Cons c s)
  show ?case
  proof (cases "\<forall>x \<in> set s. P x")
    case True
    then show ?thesis by (auto simp: dropWhile_append dest: set_dropWhileD)
  next
    case False
    then have "dropWhile P (rev s @ [c]) = dropWhile P (rev s) @ [c]"
      by (simp add: dropWhile_append)
    then show ?thesis using Cons.IH by (simp add: dropWhile_append3)
  qed
qed

lemma trim_via_trim_end: "trim s = trim_start (trim_end s)"
  by (simp add: trim_def trim_start_def trim_end_def dropWhile_rev_commute)

interpretation exact_rstrip: coarser_key "\<lambda>l. l" trim_end
  by unfold_locales simp

interpretation rstrip_trim: coarser_key trim_end trim
  by unfold_locales (simp add: trim_via_trim_end)

interpretation trim_normalise: coarser_key trim normalise
  by unfold_locales (simp add: normalise_def)

lemmas occurs_chain = exact_rstrip.occurs_mono rstrip_trim.occurs_mono trim_normalise.occurs_mono

lemmas pass_chain =
  exact_rstrip.pass_complete rstrip_trim.pass_complete trim_normalise.pass_complete

section \<open>Correctness of the search\<close>

lemma seek_sequence_Nil [simp]: "seek_sequence ls [] start eof = Some start"
  by (simp add: seek_sequence_def)

lemma seek_sequence_passes:
  assumes "pat \<noteq> []" "length pat \<le> length ls" "s = search_start_of ls pat start eof"
  shows "seek_sequence ls pat start eof = None \<longleftrightarrow> seek_pass normalise ls pat s = None"
proof (cases "seek_pass normalise ls pat s")
  case None
  then show ?thesis
    using assms pass_chain [OF assms(1,2), of s] by (simp add: seek_sequence_def Let_def)
next
  case (Some i)
  then show ?thesis
    using assms by (auto simp: seek_sequence_def Let_def split: option.splits)
qed

lemma seek_sequence_occurs:
  assumes "seek_sequence ls pat start eof = Some i" "pat \<noteq> []"
  shows "search_start_of ls pat start eof \<le> i \<and> occurs normalise ls pat i"
proof -
  have len: "length pat \<le> length ls"
    using assms by (auto simp: seek_sequence_def split: if_splits)
  show ?thesis
    using assms len occurs_chain
    by (auto simp: seek_sequence_def Let_def seek_pass_Some split: option.splits)
qed

lemma seek_sequence_bound:
  assumes "seek_sequence ls pat start eof = Some i" "start \<le> length ls"
  shows "i + length pat \<le> length ls"
  using assms seek_sequence_occurs [of ls pat start eof i]
  by (cases "pat = []") (auto simp: occurs_def)

text \<open>The key of each pass, in the order the passes run.\<close>

fun key_level :: "nat \<Rightarrow> rstring \<Rightarrow> rstring" where
  "key_level 0 = (\<lambda>l. l)"
| "key_level (Suc 0) = trim_end"
| "key_level (Suc (Suc 0)) = trim"
| "key_level _ = normalise"

text \<open>\<open>first_at k ls pat s i\<close>: \<open>i\<close> is the first occurrence from \<open>s\<close> under the key of pass \<open>k\<close>.\<close>

definition first_at :: "nat \<Rightarrow> rstring list \<Rightarrow> rstring list \<Rightarrow> nat \<Rightarrow> nat \<Rightarrow> bool" where
  "first_at k ls pat s i \<longleftrightarrow>
     s \<le> i \<and> occurs (key_level k) ls pat i \<and>
     (\<forall>j. s \<le> j \<and> j < i \<longrightarrow> \<not> occurs (key_level k) ls pat j)"

lemma occurs_length: "occurs key ls pat i \<Longrightarrow> length pat \<le> length ls"
  by (auto simp: occurs_def)

lemma pass_level:
  assumes "pat \<noteq> []" "length pat \<le> length ls"
  shows "seek_pass (key_level k) ls pat s = Some i \<longleftrightarrow> first_at k ls pat s i"
    and "seek_pass (key_level k) ls pat s = None \<longleftrightarrow> (\<forall>j \<ge> s. \<not> occurs (key_level k) ls pat j)"
  using assms by (simp_all add: seek_pass_Some seek_pass_None first_at_def)

lemma seek_levels:
  assumes "pat \<noteq> []" "length pat \<le> length ls"
  shows "seek_sequence ls pat start eof =
           find_map (\<lambda>k. seek_pass (key_level k) ls pat (search_start_of ls pat start eof))
             [0, Suc 0, Suc (Suc 0), Suc (Suc (Suc 0))]"
  using assms by (auto simp: seek_sequence_def Let_def split: option.splits)

lemma find_map_upt:
  "find_map f [a ..< b] = Some y \<longleftrightarrow>
     (\<exists>k. a \<le> k \<and> k < b \<and> f k = Some y \<and> (\<forall>k'. a \<le> k' \<and> k' < k \<longrightarrow> f k' = None))"
proof (induction "b - a" arbitrary: a)
  case 0
  then show ?case by auto
next
  case (Suc n)
  then have ab: "a < b" and n: "n = b - Suc a" by auto
  have eq: "find_map f [a ..< b] = (case f a of None \<Rightarrow> find_map f [Suc a ..< b] | Some y \<Rightarrow> Some y)"
    using ab by (simp add: upt_conv_Cons)
  show ?case
  proof (cases "f a")
    case None
    then show ?thesis
      unfolding eq using Suc.hyps(1) [OF n] ab
      by (simp add: Suc_le_eq) (metis le_eq_less_or_eq option.distinct(1))
  next
    case (Some z)
    then show ?thesis
      unfolding eq using ab by (auto intro!: exI [of _ a]) (metis le_eq_less_or_eq option.distinct(1) option.inject)
  qed
qed

text \<open>
  The search returns position \<open>i\<close> exactly when some pass \<open>k\<close> has its first occurrence at
  \<open>i\<close> from the search start and no stricter pass has any: strictness is preferred to position,
  and within a pass the earliest position wins.
\<close>

lemma seek_sequence_spec:
  assumes "pat \<noteq> []"
  shows "seek_sequence ls pat start eof = Some i \<longleftrightarrow>
           (\<exists>k < 4. first_at k ls pat (search_start_of ls pat start eof) i \<and>
              (\<forall>k' < k. \<forall>j \<ge> search_start_of ls pat start eof. \<not> occurs (key_level k') ls pat j))"
proof (cases "length pat \<le> length ls")
  case True
  have four: "[0, Suc 0, Suc (Suc 0), Suc (Suc (Suc 0))] = [0 ..< 4]"
    by (simp add: upt_conv_Cons)
  show ?thesis
    unfolding seek_levels [OF assms True] four find_map_upt pass_level [OF assms True] by simp
next
  case False
  then have "seek_sequence ls pat start eof = None"
    using assms by (simp add: seek_sequence_def)
  then show ?thesis
    using False by (auto simp: first_at_def dest: occurs_length)
qed

text \<open>
  With the end-of-file flag a match always ends at the last line; the search does not fall
  back to earlier positions, unlike the comment above the function says: a pattern that occurs
  only before the end of the file is not found.
\<close>

lemma seek_sequence_eof_only_at_end:
  "(\<forall>ls pat start i. seek_sequence ls pat start True = Some i \<and> pat \<noteq> [] \<longrightarrow>
      i + length pat = length ls) \<and>
   seek_sequence [lit ''x'', lit ''y''] [lit ''x''] 0 False = Some 0 \<and>
   seek_sequence [lit ''x'', lit ''y''] [lit ''x''] 0 True = None"
proof (intro conjI allI impI)
  fix ls pat :: "rstring list" and start i
  assume "seek_sequence ls pat start True = Some i \<and> pat \<noteq> []"
  then show "i + length pat = length ls"
    using seek_sequence_occurs [of ls pat start True i]
    by (auto simp: occurs_def search_start_of_def split: if_splits)
qed (simp_all add: seek_sequence_def search_start_of_def seek_pass_def normalise_def
       normalise_char_def trim_def trim_start_def trim_end_def is_whitespace_def)

end
