(* ===== verification/Patch_Replace.thy ===== *)
theory Patch_Replace
  imports Seek_Sequence Patch_Parser
begin

text \<open>
  Turning the chunks of an update hunk into line replacements and applying them
  (\<^verbatim>\<open>compute_replacements\<close>, \<^verbatim>\<open>apply_replacements\<close> in \<^verbatim>\<open>crates/apply-patch/src/lib.rs\<close>).  The
  reference definition is \<open>splice\<close>, one left-to-right pass over the original lines; the source
  edits the vector in place, from the last replacement to the first.
\<close>

section \<open>Data and operations\<close>

type_synonym replacement = "nat \<times> nat \<times> rstring list"

datatype apply_patch_error =
    ParseErr parse_error
  | IoErr rstring rstring
  | ComputeReplacements rstring
  | ImplicitInvocation

definition context_not_found :: "rstring \<Rightarrow> rpath \<Rightarrow> apply_patch_error" where
  "context_not_found ctx path =
     ComputeReplacements
       (lit ''Failed to find context '' @ [quote_char] @ ctx @ [quote_char] @ lit '' in '' @ path)"

definition lines_not_found :: "rstring list \<Rightarrow> rpath \<Rightarrow> apply_patch_error" where
  "lines_not_found olds path =
     ComputeReplacements
       (lit ''Failed to find expected lines in '' @ path @ lit '':'' @ [nl_char] @
        join_str [nl_char] olds)"

text \<open>The change context moves \<^verbatim>\<open>line_index\<close> behind the line it names.\<close>

definition seek_context ::
  "rstring list \<Rightarrow> rpath \<Rightarrow> rstring option \<Rightarrow> nat \<Rightarrow> (apply_patch_error, nat) result" where
  "seek_context orig path ctx line_index =
     (case ctx of None \<Rightarrow> Ok line_index
      | Some ctx_line \<Rightarrow>
          (case seek_sequence orig [ctx_line] line_index False of
             Some idx \<Rightarrow> Ok (idx + 1)
           | None \<Rightarrow> Err (context_not_found ctx_line path)))"

text \<open>
  Locating the old lines: the pattern that was found, the new lines that go with it, and the
  position.  When the search fails and the pattern ends with an empty line, the search is retried
  without it.
\<close>

definition locate_chunk ::
  "rstring list \<Rightarrow> update_chunk \<Rightarrow> nat \<Rightarrow> rstring list \<times> rstring list \<times> nat option" where
  "locate_chunk orig chunk line_index =
     (let pattern = old_lines chunk;
          found = seek_sequence orig pattern line_index (is_end_of_file chunk);
          new_slice = new_lines chunk
      in if found = None \<and> last_is (\<lambda>l. l = []) pattern then
           (let pattern' = butlast pattern;
                new_slice' = (if last_is (\<lambda>l. l = []) new_slice then butlast new_slice else new_slice)
            in (pattern', new_slice',
                seek_sequence orig pattern' line_index (is_end_of_file chunk)))
         else (pattern, new_slice, found))"

fun replacements_loop ::
  "rstring list \<Rightarrow> rpath \<Rightarrow> nat \<Rightarrow> replacement list \<Rightarrow> update_chunk list \<Rightarrow>
     (apply_patch_error, replacement list) result" where
  "replacements_loop orig path line_index acc [] = Ok acc"
| "replacements_loop orig path line_index acc (chunk # chunks) =
     (case seek_context orig path (change_context chunk) line_index of
        Inl e \<Rightarrow> Err e
      | Inr idx \<Rightarrow>
          if old_lines chunk = [] then
            (let insertion_idx =
                   (if last_is (\<lambda>l. l = []) orig then length orig - 1 else length orig)
             in replacements_loop orig path idx (acc @ [(insertion_idx, 0, new_lines chunk)]) chunks)
          else
            (case locate_chunk orig chunk idx of
               (pattern, new_slice, Some start_idx) \<Rightarrow>
                 replacements_loop orig path (start_idx + length pattern)
                   (acc @ [(start_idx, length pattern, new_slice)]) chunks
             | (_, _, None) \<Rightarrow> Err (lines_not_found (old_lines chunk) path)))"

definition compute_replacements ::
  "rstring list \<Rightarrow> rpath \<Rightarrow> update_chunk list \<Rightarrow> (apply_patch_error, replacement list) result" where
  "compute_replacements orig path chunks =
     (case replacements_loop orig path 0 [] chunks of
        Inl e \<Rightarrow> Err e
      | Inr rs \<Rightarrow> Ok (sort_key fst rs))"

text \<open>The two inner loops of \<^verbatim>\<open>apply_replacements\<close>; \<^verbatim>\<open>Vec::insert\<close> may panic.\<close>

fun remove_loop :: "nat \<Rightarrow> nat \<Rightarrow> 'a list \<Rightarrow> 'a list" where
  "remove_loop start 0 ls = ls"
| "remove_loop start (Suc n) ls =
     remove_loop start n (case vec_remove start ls of Some ls' \<Rightarrow> ls' | None \<Rightarrow> ls)"

fun insert_loop :: "nat \<Rightarrow> nat \<Rightarrow> 'a list \<Rightarrow> 'a list \<Rightarrow> 'a list option" where
  "insert_loop start off [] ls = Some ls"
| "insert_loop start off (x # xs) ls =
     (case vec_insert (start + off) x ls of
        None \<Rightarrow> None
      | Some ls' \<Rightarrow> insert_loop start (Suc off) xs ls')"

fun replace_each :: "rstring list \<Rightarrow> replacement list \<Rightarrow> rstring list option" where
  "replace_each ls [] = Some ls"
| "replace_each ls ((start, old_len, new_segment) # rs) =
     (case insert_loop start 0 new_segment (remove_loop start old_len ls) of
        None \<Rightarrow> None
      | Some ls' \<Rightarrow> replace_each ls' rs)"

definition apply_replacements :: "rstring list \<Rightarrow> replacement list \<Rightarrow> rstring list option" where
  "apply_replacements ls rs = replace_each ls (rev rs)"

section \<open>The reference: one pass over the original lines\<close>

fun splice :: "nat \<Rightarrow> rstring list \<Rightarrow> replacement list \<Rightarrow> rstring list" where
  "splice pos ls [] = drop pos ls"
| "splice pos ls ((s, n, new) # rs) =
     take (s - pos) (drop pos ls) @ new @ splice (s + n) ls rs"

text \<open>The replaced ranges are in order, do not overlap, and lie inside the file.\<close>

fun ordered_from :: "nat \<Rightarrow> nat \<Rightarrow> replacement list \<Rightarrow> bool" where
  "ordered_from pos len [] = (pos \<le> len)"
| "ordered_from pos len ((s, n, new) # rs) = (pos \<le> s \<and> ordered_from (s + n) len rs)"

section \<open>Lemmas on the loops\<close>

lemma remove_loop_eq: "remove_loop s n ls = take s ls @ drop (s + n) ls"
proof (induction s n ls rule: remove_loop.induct)
  case (1 start ls)
  then show ?case by simp
next
  case (2 start n ls)
  then show ?case
    by (cases "start < length ls") (auto simp: vec_remove_def min_def add.commute)
qed

lemma insert_loop_eq:
  "s + off \<le> length ls \<Longrightarrow>
     insert_loop s off xs ls = Some (take (s + off) ls @ xs @ drop (s + off) ls)"
proof (induction s off xs ls rule: insert_loop.induct)
  case (1 start off ls)
  then show ?case by simp
next
  case (2 start off x xs ls)
  then show ?case by (simp add: vec_insert_def)
qed

lemma replace_one:
  "s \<le> length ls \<Longrightarrow>
     insert_loop s 0 new (remove_loop s n ls) = Some (take s ls @ new @ drop (s + n) ls)"
  by (simp add: remove_loop_eq insert_loop_eq min_def)

lemma replace_each_append:
  "replace_each ls (rs @ rs') =
     (case replace_each ls rs of None \<Rightarrow> None | Some ls' \<Rightarrow> replace_each ls' rs')"
  by (induction ls rs rule: replace_each.induct) (auto split: option.splits)

lemma apply_replacements_Nil [simp]: "apply_replacements ls [] = Some ls"
  by (simp add: apply_replacements_def)

lemma apply_replacements_Cons:
  "apply_replacements ls ((s, n, new) # rs) =
     (case apply_replacements ls rs of None \<Rightarrow> None
      | Some ls' \<Rightarrow> insert_loop s 0 new (remove_loop s n ls'))"
  by (auto simp: apply_replacements_def replace_each_append split: option.splits)

lemma ordered_from_le: "ordered_from pos len rs \<Longrightarrow> pos \<le> len"
  by (induction pos len rs rule: ordered_from.induct) auto

lemma apply_replacements_splice:
  "ordered_from pos (length ls) rs \<Longrightarrow>
     apply_replacements ls rs = Some (take pos ls @ splice pos ls rs)"
proof (induction rs arbitrary: pos)
  case Nil
  then show ?case by simp
next
  case (Cons r rs)
  obtain s n new where r: "r = (s, n, new)" by (cases r)
  from Cons.prems have ord: "pos \<le> s" "ordered_from (s + n) (length ls) rs" by (auto simp: r)
  have len: "s + n \<le> length ls" using ordered_from_le [OF ord(2)] .
  have "apply_replacements ls (r # rs) =
          Some (take s ls @ new @ splice (s + n) ls rs)"
    using len by (simp add: r apply_replacements_Cons Cons.IH [OF ord(2)] replace_one min_def)
  moreover have "take s ls = take pos ls @ take (s - pos) (drop pos ls)"
    using ord(1) by (metis le_add_diff_inverse take_add)
  ultimately show ?case by (simp add: r)
qed

text \<open>
  Without the ordering, starts that are sorted and inside the file are enough to rule out a
  panic: replacing at a later position never shortens the vector below it.
\<close>

lemma apply_replacements_total:
  "sorted (map fst rs) \<Longrightarrow> \<forall>r \<in> set rs. fst r \<le> length ls \<Longrightarrow>
     \<exists>ls'. apply_replacements ls rs = Some ls' \<and>
       (\<forall>s. s \<le> length ls \<longrightarrow> (\<forall>r \<in> set rs. s \<le> fst r) \<longrightarrow> s \<le> length ls')"
proof (induction rs)
  case Nil
  then show ?case by simp
next
  case (Cons r rs)
  obtain s n new where r: "r = (s, n, new)" by (cases r)
  obtain ls' where ls': "apply_replacements ls rs = Some ls'" and
    keep: "\<And>t. t \<le> length ls \<Longrightarrow> \<forall>r \<in> set rs. t \<le> fst r \<Longrightarrow> t \<le> length ls'"
    using Cons by auto
  have "s \<le> length ls'" using keep [of s] Cons.prems by (auto simp: r)
  then show ?case
    using ls' by (auto simp: r apply_replacements_Cons replace_one)
qed

section \<open>What the computed replacements look like\<close>

lemma locate_chunk_found:
  "locate_chunk orig chunk idx = (pattern, new_slice, Some i) \<Longrightarrow>
     seek_sequence orig pattern idx (is_end_of_file chunk) = Some i"
  by (auto simp: locate_chunk_def Let_def split: if_splits)

lemma locate_chunk_bound:
  "locate_chunk orig chunk idx = (pattern, new_slice, Some i) \<Longrightarrow> idx \<le> length orig \<Longrightarrow>
     i + length pattern \<le> length orig"
  by (rule seek_sequence_bound [OF locate_chunk_found])

lemma seek_context_bound:
  assumes "seek_context orig path ctx idx = Inr idx'" "idx \<le> length orig"
  shows "idx \<le> idx' \<and> idx' \<le> length orig"
proof (cases ctx)
  case None
  then show ?thesis using assms by (simp add: seek_context_def)
next
  case (Some c)
  then obtain i where i: "seek_sequence orig [c] idx False = Some i" "idx' = i + 1"
    using assms by (auto simp: seek_context_def split: option.splits)
  then show ?thesis
    using seek_sequence_bound [OF i(1) assms(2)] seek_sequence_occurs [OF i(1)]
    by (simp add: search_start_of_def)
qed

definition in_file :: "rstring list \<Rightarrow> replacement \<Rightarrow> bool" where
  "in_file orig r = (case r of (s, n, new) \<Rightarrow> s + n \<le> length orig)"

lemma replacements_loop_in_file:
  "replacements_loop orig path idx acc chunks = Inr rs \<Longrightarrow> idx \<le> length orig \<Longrightarrow>
     \<forall>r \<in> set acc. in_file orig r \<Longrightarrow> \<forall>r \<in> set rs. in_file orig r"
proof (induction orig path idx acc chunks rule: replacements_loop.induct)
  case (1 orig path line_index acc)
  then show ?case by simp
next
  case (2 orig path line_index acc chunk chunks)
  from "2.prems"(1) obtain idx where
    ctx: "seek_context orig path (change_context chunk) line_index = Inr idx"
    by (auto split: sum.splits)
  have idx: "idx \<le> length orig" using seek_context_bound [OF ctx "2.prems"(2)] by simp
  show ?case
  proof (cases "old_lines chunk = []")
    case True
    then show ?thesis
      using "2.prems" ctx "2.IH"(1) [OF ctx True refl _ idx] by (auto simp: Let_def in_file_def)
  next
    case False
    then obtain pattern new_slice i where
      loc: "locate_chunk orig chunk idx = (pattern, new_slice, Some i)"
      using "2.prems"(1) ctx by (auto split: option.splits prod.splits)
    note b = locate_chunk_bound [OF loc idx]
    then show ?thesis
      using "2.prems" ctx False loc "2.IH"(2) [OF ctx False loc [symmetric] refl refl]
      by (auto simp: in_file_def)
  qed
qed

lemma ordered_from_sorted: "ordered_from pos len rs \<Longrightarrow> sorted (map fst rs) \<and> (\<forall>r \<in> set rs. pos \<le> fst r)"
  by (induction pos len rs rule: ordered_from.induct) (auto intro: order_trans)

definition plain_chunk :: "update_chunk \<Rightarrow> bool" where
  "plain_chunk c \<longleftrightarrow> old_lines c \<noteq> [] \<and> \<not> is_end_of_file c"

lemma locate_plain:
  assumes "locate_chunk orig c idx = (pattern, new_slice, Some i)" "plain_chunk c"
  shows "idx \<le> i"
proof (cases "pattern = []")
  case True
  then show ?thesis using locate_chunk_found [OF assms(1)] by simp
next
  case False
  then show ?thesis
    using seek_sequence_occurs [OF locate_chunk_found [OF assms(1)]] assms(2)
    by (simp add: plain_chunk_def search_start_of_def)
qed

lemma replacements_loop_ordered:
  "replacements_loop orig path idx acc chunks = Inr rs \<Longrightarrow> idx \<le> length orig \<Longrightarrow>
     \<forall>c \<in> set chunks. plain_chunk c \<Longrightarrow>
     \<exists>new. rs = acc @ new \<and> length new = length chunks \<and> ordered_from idx (length orig) new"
proof (induction chunks arbitrary: idx acc)
  case Nil
  then show ?case by simp
next
  case (Cons c chunks)
  then have pc: "plain_chunk c" "old_lines c \<noteq> []" by (auto simp: plain_chunk_def)
  from Cons.prems(1) obtain idx' where ctx: "seek_context orig path (change_context c) idx = Inr idx'"
    by (auto split: sum.splits)
  note b = seek_context_bound [OF ctx Cons.prems(2)]
  obtain pattern new_slice i where loc: "locate_chunk orig c idx' = (pattern, new_slice, Some i)"
    and rest: "replacements_loop orig path (i + length pattern)
                 (acc @ [(i, length pattern, new_slice)]) chunks = Inr rs"
    using Cons.prems(1) ctx pc(2) by (auto split: option.splits prod.splits)
  have i: "idx' \<le> i" "i + length pattern \<le> length orig"
    using locate_plain [OF loc pc(1)] locate_chunk_bound [OF loc] b by auto
  from Cons.IH [OF rest i(2)] Cons.prems(3) obtain new where
    "rs = acc @ (i, length pattern, new_slice) # new" "length new = length chunks"
    "ordered_from (i + length pattern) (length orig) new"
    by auto
  then show ?case using b i by auto
qed

lemma computed_replacements:
  assumes "compute_replacements orig path chunks = Inr rs"
  shows "sorted (map fst rs)" "\<forall>r \<in> set rs. in_file orig r" "apply_replacements orig rs \<noteq> None"
proof -
  obtain rs0 where rs0: "replacements_loop orig path 0 [] chunks = Inr rs0" "rs = sort_key fst rs0"
    using assms by (auto simp: compute_replacements_def split: sum.splits)
  show srt: "sorted (map fst rs)" using rs0(2) by simp
  show inf: "\<forall>r \<in> set rs. in_file orig r"
    using replacements_loop_in_file [OF rs0(1)] rs0(2) by simp
  then have "\<forall>r \<in> set rs. fst r \<le> length orig" by (auto simp: in_file_def)
  from apply_replacements_total [OF srt this] show "apply_replacements orig rs \<noteq> None" by auto
qed

text \<open>
  Whatever the chunks are (end-of-file chunks and pure additions included), the computed
  replacements are sorted by position and lie inside the file, and applying them in place never
  panics.
\<close>

lemma compute_then_apply_total:
  assumes "compute_replacements orig path chunks = Ok rs"
  shows "sorted (map fst rs) \<and> (\<forall>(s, n, new) \<in> set rs. s + n \<le> length orig) \<and>
         apply_replacements orig rs \<noteq> None"
  using computed_replacements [OF assms] by (auto simp: in_file_def)

text \<open>
  For chunks that name the lines they replace and are not pinned to the end of the file, the
  in-place edits from last to first give the same lines as one left-to-right pass over the
  original that copies the text between the replaced ranges: there is one replacement per chunk,
  in chunk order, on disjoint ranges.
\<close>

lemma apply_replacements_is_splice:
  assumes "compute_replacements orig path chunks = Ok rs" "\<forall>c \<in> set chunks. plain_chunk c"
  shows "length rs = length chunks \<and> ordered_from 0 (length orig) rs \<and>
         apply_replacements orig rs = Some (splice 0 orig rs)"
proof -
  obtain rs0 where rs0: "replacements_loop orig path 0 [] chunks = Inr rs0" "rs = sort_key fst rs0"
    using assms by (auto simp: compute_replacements_def split: sum.splits)
  have ord: "length rs0 = length chunks" "ordered_from 0 (length orig) rs0"
    using replacements_loop_ordered [OF rs0(1) _ assms(2)] by auto
  then have "rs = rs0" using rs0(2) ordered_from_sorted sort_key_id_if_sorted by metis
  then show ?thesis
    using ord apply_replacements_splice [of 0 orig rs] by simp
qed

end
