(* ===== verification/File_System.thy ===== *)
theory File_System
  imports Savfox_Prelude
begin

text \<open>
  The file-system interface of the standard library that \<^verbatim>\<open>crates/apply-patch/src/lib.rs\<close> uses:
  \<^verbatim>\<open>std::fs::read_to_string\<close>, \<^verbatim>\<open>write\<close>, \<^verbatim>\<open>remove_file\<close> and \<^verbatim>\<open>create_dir_all\<close>, as a record of
  operations over a world.  The locale \<open>file_system\<close> states what the crate relies on; \<open>mem_fs\<close>
  is an executable file system (files and directories, the errors of a missing parent, a missing
  file and a path that is a directory) that satisfies it.  Paths are the path strings of the
  source; two strings name the same file when their components agree, as in Rust's \<^verbatim>\<open>Path\<close>
  equality on Unix.
\<close>

section \<open>Paths\<close>

datatype path_component = RootDir | CurDir | ParentDir | Normal rstring

definition component_of :: "rstring \<Rightarrow> path_component" where
  "component_of w = (if w = lit ''.'' then CurDir else if w = lit ''..'' then ParentDir else Normal w)"

text \<open>\<^verbatim>\<open>Path::components\<close>: empty parts and every \<^verbatim>\<open>.\<close> but a leading one disappear.\<close>

definition path_components :: "rstring \<Rightarrow> path_component list" where
  "path_components s =
     (let cs = map component_of (filter (\<lambda>w. w \<noteq> []) (split_on 47 s));
          absolute = (s \<noteq> [] \<and> hd s = 47)
      in if absolute then RootDir # filter (\<lambda>c. c \<noteq> CurDir) cs
         else (case cs of [] \<Rightarrow> [] | c # cs' \<Rightarrow> c # filter (\<lambda>c. c \<noteq> CurDir) cs'))"

fun component_str :: "path_component \<Rightarrow> rstring" where
  "component_str RootDir = []"
| "component_str CurDir = lit ''.''"
| "component_str ParentDir = lit ''..''"
| "component_str (Normal w) = w"

definition path_str :: "path_component list \<Rightarrow> rstring" where
  "path_str cs = (if cs = [RootDir] then [47] else join_str [47] (map component_str cs))"

text \<open>\<^verbatim>\<open>Path::parent\<close>.\<close>

definition path_parent :: "rstring \<Rightarrow> rstring option" where
  "path_parent p =
     (let cs = path_components p in
      if cs = [] \<or> last cs = RootDir then None else Some (path_str (butlast cs)))"

definition same_path :: "rstring \<Rightarrow> rstring \<Rightarrow> bool" where
  "same_path p q \<longleftrightarrow> path_components p = path_components q"

text \<open>\<^verbatim>\<open>Path::join\<close>: an absolute argument replaces the base.\<close>

definition path_join :: "rstring \<Rightarrow> rstring \<Rightarrow> rstring" where
  "path_join base p =
     (if p \<noteq> [] \<and> hd p = 47 then p
      else if base = [] then p
      else if last base = 47 then base @ p
      else base @ [47] @ p)"

section \<open>Operations\<close>

type_synonym io_error = rstring

record 'w fs_api =
  fs_read_to_string :: "'w \<Rightarrow> rstring \<Rightarrow> (io_error, rstring) result"
  fs_write :: "'w \<Rightarrow> rstring \<Rightarrow> rstring \<Rightarrow> 'w \<times> (io_error, unit) result"
  fs_remove_file :: "'w \<Rightarrow> rstring \<Rightarrow> 'w \<times> (io_error, unit) result"
  fs_create_dir_all :: "'w \<Rightarrow> rstring \<Rightarrow> 'w \<times> (io_error, unit) result"

text \<open>
  The laws: a successful write can be read back, a successful removal leaves no file, and no
  operation touches another file.  A failed write may have damaged its own target (the law says
  nothing about it); a failed removal and any directory creation change no file.
\<close>

locale file_system =
  fixes api :: "'w fs_api"
  assumes write_read:
      "fs_write api w p c = (w', Inr ()) \<Longrightarrow> same_path p q \<Longrightarrow> fs_read_to_string api w' q = Inr c"
    and write_frame:
      "fs_write api w p c = (w', r) \<Longrightarrow> \<not> same_path p q \<Longrightarrow>
         fs_read_to_string api w' q = fs_read_to_string api w q"
    and remove_read:
      "fs_remove_file api w p = (w', Inr ()) \<Longrightarrow> same_path p q \<Longrightarrow>
         \<not> is_ok (fs_read_to_string api w' q)"
    and remove_frame:
      "fs_remove_file api w p = (w', r) \<Longrightarrow> \<not> same_path p q \<or> \<not> is_ok r \<Longrightarrow>
         fs_read_to_string api w' q = fs_read_to_string api w q"
    and create_frame:
      "fs_create_dir_all api w p = (w', r) \<Longrightarrow>
         fs_read_to_string api w' q = fs_read_to_string api w q"

section \<open>An in-memory file system\<close>

record mem_world =
  files :: "path_component list \<Rightarrow> rstring option"
  dirs :: "path_component list list"

definition parent_key :: "path_component list \<Rightarrow> path_component list" where
  "parent_key cs = butlast cs"

definition mem_read :: "mem_world \<Rightarrow> rstring \<Rightarrow> (io_error, rstring) result" where
  "mem_read w p =
     (case files w (path_components p) of
        Some c \<Rightarrow> Ok c
      | None \<Rightarrow> Err (lit ''No such file or directory (os error 2)''))"

definition mem_write :: "mem_world \<Rightarrow> rstring \<Rightarrow> rstring \<Rightarrow> mem_world \<times> (io_error, unit) result" where
  "mem_write w p c =
     (let k = path_components p in
      if k \<in> set (dirs w) \<or> k = [] then (w, Err (lit ''Is a directory (os error 21)''))
      else if parent_key k = [] \<or> parent_key k \<in> set (dirs w)
      then (w\<lparr>files := (files w)(k \<mapsto> c)\<rparr>, Ok ())
      else (w, Err (lit ''No such file or directory (os error 2)'')))"

definition mem_remove :: "mem_world \<Rightarrow> rstring \<Rightarrow> mem_world \<times> (io_error, unit) result" where
  "mem_remove w p =
     (let k = path_components p in
      case files w k of
        Some _ \<Rightarrow> (w\<lparr>files := (files w)(k := None)\<rparr>, Ok ())
      | None \<Rightarrow> (w, Err (lit ''No such file or directory (os error 2)'')))"

definition mem_create_dir_all :: "mem_world \<Rightarrow> rstring \<Rightarrow> mem_world \<times> (io_error, unit) result" where
  "mem_create_dir_all w p =
     (let ks = filter (\<lambda>k. k \<noteq> []) (prefixes (path_components p)) in
      if list_ex (\<lambda>k. files w k \<noteq> None) ks then (w, Err (lit ''File exists (os error 17)''))
      else (w\<lparr>dirs := dirs w @ filter (\<lambda>k. k \<notin> set (dirs w)) ks\<rparr>, Ok ()))"

definition mem_fs :: "mem_world fs_api" where
  "mem_fs =
     \<lparr>fs_read_to_string = mem_read, fs_write = mem_write, fs_remove_file = mem_remove,
      fs_create_dir_all = mem_create_dir_all\<rparr>"

lemmas mem_fs_defs = mem_fs_def mem_read_def mem_write_def mem_remove_def mem_create_dir_all_def

interpretation mem: file_system mem_fs
  by unfold_locales
    (auto simp: mem_fs_defs Let_def same_path_def split: option.splits if_splits)

lemma same_path_refl [simp]: "same_path p p"
  by (simp add: same_path_def)

lemma same_path_sym: "same_path p q \<Longrightarrow> same_path q p"
  by (simp add: same_path_def)

end
