(* ===== verification/Patch_Apply.thy ===== *)
theory Patch_Apply
  imports Patch_Replace File_System
begin

text \<open>
  Applying parsed hunks to a file system (\<^verbatim>\<open>apply_hunks_to_files\<close>, \<^verbatim>\<open>apply_hunks\<close>, \<^verbatim>\<open>apply_patch\<close>
  and their helpers in \<^verbatim>\<open>crates/apply-patch/src/lib.rs\<close>).  The operations take the file-system
  interface as an argument; the general properties are proved once from the laws of the locale
  \<open>file_system\<close>.  The two writers of \<^verbatim>\<open>apply_patch\<close> are buffers that accept every line.
\<close>

section \<open>New contents of a file\<close>

record applied_patch =
  original_contents :: rstring
  new_contents :: rstring

definition io_read_error :: "rpath \<Rightarrow> io_error \<Rightarrow> apply_patch_error" where
  "io_read_error path err = IoErr (lit ''Failed to read file to update '' @ path) err"

definition file_lines :: "rstring \<Rightarrow> rstring list" where
  "file_lines contents =
     (let ls = split_on nl_char contents in if last_is (\<lambda>l. l = []) ls then butlast ls else ls)"

text \<open>The outer \<open>option\<close> is the panic of \<^verbatim>\<open>apply_replacements\<close>.\<close>

definition derive_new_contents_from_chunks ::
  "'w fs_api \<Rightarrow> 'w \<Rightarrow> rpath \<Rightarrow> update_chunk list \<Rightarrow>
     (apply_patch_error, applied_patch) result option" where
  "derive_new_contents_from_chunks api w path chunks =
     (case fs_read_to_string api w path of
        Inl err \<Rightarrow> Some (Err (io_read_error path err))
      | Inr contents \<Rightarrow>
          (let original_lines = file_lines contents in
           case compute_replacements original_lines path chunks of
             Inl e \<Rightarrow> Some (Err e)
           | Inr replacements \<Rightarrow>
               (case apply_replacements original_lines replacements of
                  None \<Rightarrow> None
                | Some ls \<Rightarrow>
                    (let ls' = (if \<not> last_is (\<lambda>l. l = []) ls then ls @ [[]] else ls)
                     in Some (Ok \<lparr>original_contents = contents,
                                  new_contents = join_str [nl_char] ls'\<rparr>)))))"

section \<open>Applying hunks\<close>

text \<open>
  The errors that \<^verbatim>\<open>anyhow\<close> carries: a plain message, an I/O error with its context, or an
  \<^verbatim>\<open>ApplyPatchError\<close>.
\<close>

datatype hunk_error =
    Bail rstring
  | WithContext rstring io_error
  | Derive apply_patch_error

record affected_paths =
  added :: "rpath list"
  modified :: "rpath list"
  deleted :: "rpath list"

definition with_context ::
  "rstring \<Rightarrow> 'w \<times> (io_error, unit) result \<Rightarrow> 'w \<times> (hunk_error, unit) result" where
  "with_context msg r = (case r of (w, Inl e) \<Rightarrow> (w, Err (WithContext msg e)) | (w, Inr u) \<Rightarrow> (w, Ok u))"

text \<open>Parent directories are created unless the parent is empty.\<close>

definition create_parent ::
  "'w fs_api \<Rightarrow> 'w \<Rightarrow> rpath \<Rightarrow> 'w \<times> (hunk_error, unit) result" where
  "create_parent api w path =
     (case path_parent path of
        Some parent \<Rightarrow>
          if parent \<noteq> [] then
            with_context (lit ''Failed to create parent directories for '' @ path)
              (fs_create_dir_all api w parent)
          else (w, Ok ())
      | None \<Rightarrow> (w, Ok ()))"

definition write_file ::
  "'w fs_api \<Rightarrow> 'w \<Rightarrow> rpath \<Rightarrow> rstring \<Rightarrow> 'w \<times> (hunk_error, unit) result" where
  "write_file api w path contents =
     with_context (lit ''Failed to write file '' @ path) (fs_write api w path contents)"

text \<open>One iteration of the loop over the hunks; \<open>None\<close> is a panic.\<close>

fun apply_hunk ::
  "'w fs_api \<Rightarrow> 'w \<Rightarrow> affected_paths \<Rightarrow> hunk \<Rightarrow>
     ('w \<times> (hunk_error, affected_paths) result) option" where
  "apply_hunk api w aff (AddFile path contents) =
     (case create_parent api w path of
        (w1, Inl e) \<Rightarrow> Some (w1, Err e)
      | (w1, Inr _) \<Rightarrow>
          (case write_file api w1 path contents of
             (w2, Inl e) \<Rightarrow> Some (w2, Err e)
           | (w2, Inr _) \<Rightarrow> Some (w2, Ok (aff\<lparr>added := added aff @ [path]\<rparr>))))"
| "apply_hunk api w aff (DeleteFile path) =
     (case with_context (lit ''Failed to delete file '' @ path) (fs_remove_file api w path) of
        (w1, Inl e) \<Rightarrow> Some (w1, Err e)
      | (w1, Inr _) \<Rightarrow> Some (w1, Ok (aff\<lparr>deleted := deleted aff @ [path]\<rparr>)))"
| "apply_hunk api w aff (UpdateFile path move_path chunks) =
     (case derive_new_contents_from_chunks api w path chunks of
        None \<Rightarrow> None
      | Some (Inl e) \<Rightarrow> Some (w, Err (Derive e))
      | Some (Inr ap) \<Rightarrow>
          (case move_path of
             Some dest \<Rightarrow>
               (case create_parent api w dest of
                  (w1, Inl e) \<Rightarrow> Some (w1, Err e)
                | (w1, Inr _) \<Rightarrow>
                    (case write_file api w1 dest (new_contents ap) of
                       (w2, Inl e) \<Rightarrow> Some (w2, Err e)
                     | (w2, Inr _) \<Rightarrow>
                         (case with_context (lit ''Failed to remove original '' @ path)
                                 (fs_remove_file api w2 path) of
                            (w3, Inl e) \<Rightarrow> Some (w3, Err e)
                          | (w3, Inr _) \<Rightarrow> Some (w3, Ok (aff\<lparr>modified := modified aff @ [dest]\<rparr>)))))
           | None \<Rightarrow>
               (case write_file api w path (new_contents ap) of
                  (w1, Inl e) \<Rightarrow> Some (w1, Err e)
                | (w1, Inr _) \<Rightarrow> Some (w1, Ok (aff\<lparr>modified := modified aff @ [path]\<rparr>)))))"

fun hunks_loop ::
  "'w fs_api \<Rightarrow> 'w \<Rightarrow> affected_paths \<Rightarrow> hunk list \<Rightarrow>
     ('w \<times> (hunk_error, affected_paths) result) option" where
  "hunks_loop api w aff [] = Some (w, Ok aff)"
| "hunks_loop api w aff (h # hs) =
     (case apply_hunk api w aff h of
        None \<Rightarrow> None
      | Some (w1, Inl e) \<Rightarrow> Some (w1, Err e)
      | Some (w1, Inr aff1) \<Rightarrow> hunks_loop api w1 aff1 hs)"

definition apply_hunks_to_files ::
  "'w fs_api \<Rightarrow> 'w \<Rightarrow> hunk list \<Rightarrow> ('w \<times> (hunk_error, affected_paths) result) option" where
  "apply_hunks_to_files api w hs =
     (if hs = [] then Some (w, Err (Bail (lit ''No files were modified.'')))
      else hunks_loop api w \<lparr>added = [], modified = [], deleted = []\<rparr> hs)"

section \<open>The command\<close>

definition print_summary :: "affected_paths \<Rightarrow> rstring" where
  "print_summary affected =
     lit ''Success. Updated the following files:'' @ [nl_char] @
     concat (map (\<lambda>p. lit ''A '' @ p @ [nl_char]) (added affected)) @
     concat (map (\<lambda>p. lit ''M '' @ p @ [nl_char]) (modified affected)) @
     concat (map (\<lambda>p. lit ''D '' @ p @ [nl_char]) (deleted affected))"

fun display_parse_error :: "parse_error \<Rightarrow> rstring" where
  "display_parse_error (InvalidPatchError m) = lit ''invalid patch: '' @ m"
| "display_parse_error (InvalidHunkError m n) =
     lit ''invalid hunk at line '' @ show_nat n @ lit '', '' @ m"

fun display_apply_patch_error :: "apply_patch_error \<Rightarrow> rstring" where
  "display_apply_patch_error (ParseErr e) = display_parse_error e"
| "display_apply_patch_error (IoErr ctx src) = ctx @ lit '': '' @ src"
| "display_apply_patch_error (ComputeReplacements m) = m"
| "display_apply_patch_error ImplicitInvocation =
     lit ''patch detected without explicit call to apply_patch. Rerun as ['' @ [dquote_char] @
     lit ''apply_patch'' @ [dquote_char] @ lit '', '' @ [dquote_char] @ lit ''<patch>'' @
     [dquote_char] @ lit '']''"

fun display_hunk_error :: "hunk_error \<Rightarrow> rstring" where
  "display_hunk_error (Bail m) = m"
| "display_hunk_error (WithContext m e) = m"
| "display_hunk_error (Derive e) = display_apply_patch_error e"

text \<open>
  \<^verbatim>\<open>apply_hunks\<close>: an I/O error under a context is found again by \<^verbatim>\<open>downcast_ref\<close>; everything
  else is wrapped with its message.  The result is the world, both output buffers and the result.
\<close>

definition apply_hunks ::
  "'w fs_api \<Rightarrow> 'w \<Rightarrow> hunk list \<Rightarrow>
     ('w \<times> rstring \<times> rstring \<times> (apply_patch_error, unit) result) option" where
  "apply_hunks api w hs =
     (case apply_hunks_to_files api w hs of
        None \<Rightarrow> None
      | Some (w', Inr affected) \<Rightarrow> Some (w', print_summary affected, [], Ok ())
      | Some (w', Inl err) \<Rightarrow>
          (let msg = display_hunk_error err in
           Some (w', [], msg @ [nl_char],
             Err (case err of
                    WithContext _ io \<Rightarrow> IoErr (lit ''I/O error'') io
                  | _ \<Rightarrow> IoErr msg msg))))"

fun parse_error_line :: "parse_error \<Rightarrow> rstring" where
  "parse_error_line (InvalidPatchError m) = lit ''Invalid patch: '' @ m @ [nl_char]"
| "parse_error_line (InvalidHunkError m n) =
     lit ''Invalid patch hunk on line '' @ show_nat n @ lit '': '' @ m @ [nl_char]"

definition apply_patch ::
  "'w fs_api \<Rightarrow> 'w \<Rightarrow> rstring \<Rightarrow>
     ('w \<times> rstring \<times> rstring \<times> (apply_patch_error, unit) result) option" where
  "apply_patch api w patch =
     (case parse_patch patch of
        None \<Rightarrow> None
      | Some (Inl e) \<Rightarrow> Some (w, [], parse_error_line e, Err (ParseErr e))
      | Some (Inr source) \<Rightarrow> apply_hunks api w (args_hunks source))"

section \<open>Totality and the shape of the new contents\<close>

lemma derive_no_panic: "derive_new_contents_from_chunks api w path chunks \<noteq> None"
  by (auto simp: derive_new_contents_from_chunks_def Let_def computed_replacements(3)
      split: sum.splits option.splits)

lemma apply_hunk_no_panic: "apply_hunk api w aff h \<noteq> None"
  using derive_no_panic
  by (cases h) (auto split: prod.splits sum.splits option.splits)

lemma hunks_loop_no_panic: "hunks_loop api w aff hs \<noteq> None"
  by (induction hs arbitrary: w aff)
    (auto split: option.splits sum.splits simp: apply_hunk_no_panic)

lemma join_ends_newline:
  "last_is (\<lambda>l. l = []) ls \<Longrightarrow> join_str [c] ls = [] \<or> last (join_str [c] ls) = c"
proof (induction ls)
  case Nil
  then show ?case by simp
next
  case (Cons l ls)
  then show ?case by (cases ls) (auto simp: last_is_def)
qed

lemma derive_result:
  assumes "derive_new_contents_from_chunks api w path chunks = Some (Inr ap)"
  shows "\<exists>rs ls. fs_read_to_string api w path = Inr (original_contents ap) \<and>
    compute_replacements (file_lines (original_contents ap)) path chunks = Inr rs \<and>
    apply_replacements (file_lines (original_contents ap)) rs = Some ls \<and>
    new_contents ap = join_str [nl_char] (if last_is (\<lambda>l. l = []) ls then ls else ls @ [[]])"
  using assms
  by (auto simp: derive_new_contents_from_chunks_def Let_def split: sum.splits option.splits)

section \<open>Effects on the file system\<close>

fun hunk_paths :: "hunk \<Rightarrow> rpath list" where
  "hunk_paths (AddFile p c) = [p]"
| "hunk_paths (DeleteFile p) = [p]"
| "hunk_paths (UpdateFile p mv cs) = p # (case mv of None \<Rightarrow> [] | Some d \<Rightarrow> [d])"

text \<open>What a hunk promises of the world \<open>w'\<close> after the whole patch, from the world \<open>w\<close> before it.\<close>

fun hunk_effect :: "'w fs_api \<Rightarrow> 'w \<Rightarrow> 'w \<Rightarrow> hunk \<Rightarrow> bool" where
  "hunk_effect api w w' (AddFile p c) = (fs_read_to_string api w' p = Ok c)"
| "hunk_effect api w w' (DeleteFile p) = (\<not> is_ok (fs_read_to_string api w' p))"
| "hunk_effect api w w' (UpdateFile p mv cs) =
     (case derive_new_contents_from_chunks api w p cs of
        Some (Inr ap) \<Rightarrow>
          (case mv of
             None \<Rightarrow> fs_read_to_string api w' p = Ok (new_contents ap)
           | Some d \<Rightarrow> fs_read_to_string api w' d = Ok (new_contents ap) \<and>
                        \<not> is_ok (fs_read_to_string api w' p))
      | _ \<Rightarrow> False)"

definition separate :: "hunk list \<Rightarrow> bool" where
  "separate hs \<longleftrightarrow>
     sorted_wrt (\<lambda>p q. \<not> same_path p q) (concat (map hunk_paths hs))"

lemma derive_cong:
  "fs_read_to_string api w p = fs_read_to_string api w' p \<Longrightarrow>
     derive_new_contents_from_chunks api w p cs = derive_new_contents_from_chunks api w' p cs"
  by (simp add: derive_new_contents_from_chunks_def)

lemma with_context_eq:
  "with_context m r = (w, Inr u) \<longleftrightarrow> r = (w, Inr u)"
  "with_context m r = (w, Inl e) \<longleftrightarrow> (\<exists>x. e = WithContext m x \<and> r = (w, Inl x))"
  by (auto simp: with_context_def split: prod.splits sum.splits)

context file_system
begin

lemma with_context_frame:
  "with_context m (fs_write api w p c) = (w', r) \<Longrightarrow> \<not> same_path p q \<Longrightarrow>
     fs_read_to_string api w' q = fs_read_to_string api w q"
  by (auto simp: with_context_def split: prod.splits sum.splits intro: write_frame)

lemma remove_context_frame:
  "with_context m (fs_remove_file api w p) = (w', r) \<Longrightarrow> \<not> same_path p q \<Longrightarrow>
     fs_read_to_string api w' q = fs_read_to_string api w q"
  by (auto simp: with_context_def split: prod.splits sum.splits intro: remove_frame)

lemma create_parent_frame:
  "create_parent api w p = (w', r) \<Longrightarrow> fs_read_to_string api w' q = fs_read_to_string api w q"
  by (auto simp: create_parent_def with_context_def
      split: option.splits if_splits prod.splits sum.splits intro: create_frame)

lemma apply_hunk_frame:
  assumes "apply_hunk api w aff h = Some (w', r)" "\<forall>p \<in> set (hunk_paths h). \<not> same_path p q"
  shows "fs_read_to_string api w' q = fs_read_to_string api w q"
  using assms
  by (cases h)
    (auto simp: write_file_def split: prod.splits sum.splits option.splits
      dest!: with_context_frame remove_context_frame create_parent_frame [where q = q])

lemma hunks_loop_frame:
  "hunks_loop api w aff hs = Some (w', r) \<Longrightarrow>
     \<forall>p \<in> set (concat (map hunk_paths hs)). \<not> same_path p q \<Longrightarrow>
     fs_read_to_string api w' q = fs_read_to_string api w q"
proof (induction hs arbitrary: w aff)
  case Nil
  then show ?case by simp
next
  case (Cons h hs)
  then obtain w1 r1 where h: "apply_hunk api w aff h = Some (w1, r1)"
    by (auto split: option.splits)
  have "fs_read_to_string api w1 q = fs_read_to_string api w q"
    using apply_hunk_frame [OF h] Cons.prems(2) by simp
  then show ?case
    using Cons.IH [of w1] Cons.prems h by (cases r1) auto
qed

lemma write_file_read: "write_file api w p c = (w', Inr u) \<Longrightarrow> fs_read_to_string api w' p = Inr c"
  by (auto simp: write_file_def with_context_eq intro: write_read)

lemma remove_read_ctx:
  "with_context m (fs_remove_file api w p) = (w', Inr u) \<Longrightarrow> \<not> is_ok (fs_read_to_string api w' p)"
  using remove_read [OF _ same_path_refl] by (auto simp: with_context_eq)

lemma write_then_remove:
  "write_file api w d c = (w1, Inr u) \<Longrightarrow> with_context m (fs_remove_file api w1 p) = (w', r) \<Longrightarrow>
     \<not> same_path p d \<Longrightarrow> fs_read_to_string api w' d = Inr c"
  by (simp add: remove_context_frame write_file_read)

lemma apply_hunk_effect:
  assumes "apply_hunk api w aff h = Some (w', Inr aff')"
    and "sorted_wrt (\<lambda>p q. \<not> same_path p q) (hunk_paths h)"
  shows "hunk_effect api w w' h"
proof (cases h)
  case (AddFile p c)
  then show ?thesis
    using assms(1) by (auto split: prod.splits sum.splits dest: write_file_read)
next
  case (DeleteFile p)
  then show ?thesis
    using assms(1) by (auto split: prod.splits sum.splits dest: remove_read_ctx)
next
  case (UpdateFile p mv cs)
  then show ?thesis
    using assms
    by (auto split: prod.splits sum.splits option.splits
        dest: write_file_read remove_read_ctx write_then_remove)
qed

lemma moved_onto_itself:
  assumes "apply_hunk api w aff (UpdateFile p (Some d) cs) = Some (w', Inr aff')" "same_path p d"
  shows "\<not> is_ok (fs_read_to_string api w' p)" "\<not> is_ok (fs_read_to_string api w' d)"
proof -
  obtain w2 m where rm: "with_context m (fs_remove_file api w2 p) = (w', Inr ())"
    using assms(1) by (auto split: prod.splits sum.splits option.splits)
  show "\<not> is_ok (fs_read_to_string api w' p)" using rm by (rule remove_read_ctx)
  show "\<not> is_ok (fs_read_to_string api w' d)"
    using rm assms(2) remove_read by (auto simp: with_context_eq)
qed

lemma effect_later:
  assumes "hunk_effect api w w1 h" "\<forall>p \<in> set (hunk_paths h). fs_read_to_string api w2 p = fs_read_to_string api w1 p"
  shows "hunk_effect api w w2 h"
  using assms by (cases h) (auto split: option.splits sum.splits)

lemma effect_earlier:
  assumes "hunk_effect api w1 w2 h" "\<forall>p \<in> set (hunk_paths h). fs_read_to_string api w1 p = fs_read_to_string api w p"
  shows "hunk_effect api w w2 h"
  using assms derive_cong [of api w1 _ w] by (cases h) (auto split: option.splits sum.splits)

lemma hunks_loop_effects:
  "hunks_loop api w aff hs = Some (w', Inr aff') \<Longrightarrow> separate hs \<Longrightarrow>
     \<forall>h \<in> set hs. hunk_effect api w w' h"
proof (induction hs arbitrary: w aff)
  case Nil
  then show ?case by simp
next
  case (Cons h hs)
  obtain w1 aff1 where h: "apply_hunk api w aff h = Some (w1, Inr aff1)"
    and rest: "hunks_loop api w1 aff1 hs = Some (w', Inr aff')"
    using Cons.prems(1) by (auto split: option.splits sum.splits)
  have sep: "sorted_wrt (\<lambda>p q. \<not> same_path p q) (hunk_paths h)" "separate hs"
    and apart: "\<forall>p \<in> set (hunk_paths h). \<forall>q \<in> set (concat (map hunk_paths hs)). \<not> same_path p q"
    using Cons.prems(2) by (auto simp: separate_def sorted_wrt_append)
  have "hunk_effect api w w' h"
    using apply_hunk_effect [OF h sep(1)]
  proof (rule effect_later)
    show "\<forall>p \<in> set (hunk_paths h). fs_read_to_string api w' p = fs_read_to_string api w1 p"
      using hunks_loop_frame [OF rest] apart same_path_sym by blast
  qed
  moreover have "hunk_effect api w w' g" if g: "g \<in> set hs" for g
  proof (rule effect_earlier)
    show "hunk_effect api w1 w' g" using Cons.IH [OF rest sep(2)] g by blast
    show "\<forall>p \<in> set (hunk_paths g). fs_read_to_string api w1 p = fs_read_to_string api w p"
      using apply_hunk_frame [OF h] apart g by auto
  qed
  ultimately show ?case by simp
qed

lemma apply_frame:
  assumes "\<forall>p \<in> set (concat (map hunk_paths hs)). \<not> same_path p q"
  shows "\<exists>w' r. apply_hunks_to_files api w hs = Some (w', r) \<and>
           fs_read_to_string api w' q = fs_read_to_string api w q"
proof -
  obtain w' r where run: "apply_hunks_to_files api w hs = Some (w', r)"
    using hunks_loop_no_panic [of api w _ hs] by (fastforce simp: apply_hunks_to_files_def)
  then have "fs_read_to_string api w' q = fs_read_to_string api w q"
    using hunks_loop_frame [OF _ assms] by (auto simp: apply_hunks_to_files_def split: if_splits)
  with run show ?thesis by blast
qed

end

text \<open>
  Applying a patch never changes a file that no hunk names (as its path or as its move
  target), whether the patch succeeds or fails half-way, and never panics.
\<close>

lemma apply_patch_frame:
  assumes "file_system api" "\<forall>p \<in> set (concat (map hunk_paths hs)). \<not> same_path p q"
  shows "\<exists>w' r. apply_hunks_to_files api w hs = Some (w', r) \<and>
           fs_read_to_string api w' q = fs_read_to_string api w q"
  using assms by (rule file_system.apply_frame)


text \<open>
  The contents written by an update are empty or end with a newline, whatever the file and
  the chunks were.
\<close>

lemma derived_contents_end_with_newline:
  assumes "derive_new_contents_from_chunks api w path chunks = Some (Ok ap)"
  shows "new_contents ap = [] \<or> last (new_contents ap) = nl_char"
proof -
  obtain ls where new:
    "new_contents ap =
       join_str [nl_char] (if last_is (\<lambda>l. l = []) ls then ls else ls @ [[]])"
    using derive_result [OF assms] by auto
  have "last_is (\<lambda>l. l = []) (if last_is (\<lambda>l. l = []) ls then ls else ls @ [[]])"
    by (simp add: last_is_def)
  from join_ends_newline [OF this, of nl_char] show ?thesis unfolding new .
qed

text \<open>
  An update hunk that moves a file onto itself reports success and leaves no file behind:
  the new contents are written and the path is removed afterwards.
\<close>

lemma move_onto_itself_loses_file:
  assumes "file_system api" "same_path p d"
    and "apply_hunks_to_files api w [UpdateFile p (Some d) cs] = Some (w', Ok aff)"
  shows "\<not> is_ok (fs_read_to_string api w' p) \<and> \<not> is_ok (fs_read_to_string api w' d)"
proof -
  obtain a where "apply_hunk api w a (UpdateFile p (Some d) cs) = Some (w', Ok aff)"
    using assms(3)
    by (auto simp: apply_hunks_to_files_def simp del: apply_hunk.simps
        split: option.splits sum.splits)
  from file_system.moved_onto_itself [OF assms(1) this assms(2)] show ?thesis by simp
qed

section \<open>Concrete runs\<close>

definition demo_world :: mem_world where
  "demo_world =
     \<lparr>files = [path_components (lit ''a'') \<mapsto> lit ''x'' @ [nl_char],
                path_components (lit ''b'') \<mapsto> lit ''k'' @ [nl_char]], dirs = []\<rparr>"

definition demo_chunk :: update_chunk where
  "demo_chunk =
     \<lparr>change_context = None, old_lines = [lit ''x''], new_lines = [lit ''y''],
      is_end_of_file = False\<rparr>"

lemmas demo_eval =
  demo_world_def demo_chunk_def apply_hunks_to_files_def derive_new_contents_from_chunks_def
  file_lines_def compute_replacements_def seek_context_def locate_chunk_def seek_sequence_def
  search_start_of_def seek_pass_def apply_replacements_def vec_remove_def vec_insert_def
  last_is_def create_parent_def path_parent_def write_file_def with_context_def mem_fs_defs
  path_components_def component_of_def path_str_def parent_key_def Let_def

lemma demo_comp:
  "path_components (lit ''a'') = [Normal [97]]" "path_components (lit ''b'') = [Normal [98]]"
  "path_components (lit ''c'') = [Normal [99]]" "path_components (lit ''n'') = [Normal [110]]"
  by (simp_all add: path_components_def component_of_def Let_def)


text \<open>
  Hunks are not applied transactionally, unlike the crate documentation says: a patch that
  adds a file and then deletes a missing one fails, and the added file stays.
\<close>

lemma apply_hunks_not_atomic:
  "\<exists>w' e.
     apply_hunks_to_files mem_fs demo_world [AddFile (lit ''n'') (lit ''new''), DeleteFile (lit ''c'')] =
       Some (w', Err e) \<and>
     \<not> is_ok (fs_read_to_string mem_fs demo_world (lit ''n'')) \<and>
     fs_read_to_string mem_fs w' (lit ''n'') = Ok (lit ''new'')"
  by (simp add: demo_eval)

end
