(* ===== verification/Exec_Policy.thy ===== *)
theory Exec_Policy
  imports Savfox_Prelude
begin

text \<open>
  The execution policy (\<^verbatim>\<open>crates/exec-policy\<close>): decisions, prefix rules, the policy as a
  multimap from program names to rules, and the evaluation of commands against it.

  \<^verbatim>\<open>PrefixRule\<close> is the only implementation of the trait \<^verbatim>\<open>Rule\<close>, so a \<^verbatim>\<open>RuleRef\<close> is a
  \<open>prefix_rule\<close> and the downcast of \<^verbatim>\<open>get_allowed_prefixes\<close> always succeeds.  The multimap is the
  list of its entries, one per key; its iteration order is unspecified in the source, and the
  only operation that iterates sorts its result.
\<close>

section \<open>Decisions\<close>

datatype decision = Allow | Prompt | Forbidden

text \<open>The derived order of the enum: the later variant is the stricter one.\<close>

fun strictness :: "decision \<Rightarrow> nat" where
  "strictness Allow = 0"
| "strictness Prompt = 1"
| "strictness Forbidden = 2"

lemma strictness_inject: "strictness a = strictness b \<longleftrightarrow> a = b"
  by (cases a; cases b) simp_all

instantiation decision :: linorder
begin

definition less_eq_decision :: "decision \<Rightarrow> decision \<Rightarrow> bool" where
  "a \<le> b \<longleftrightarrow> strictness a \<le> strictness b"

definition less_decision :: "decision \<Rightarrow> decision \<Rightarrow> bool" where
  "a < b \<longleftrightarrow> strictness a < strictness b"

instance
  by standard (auto simp: less_eq_decision_def less_decision_def strictness_inject)

end

lemma decision_le_simps [simp]:
  "Allow \<le> d" "d \<le> Forbidden" "\<not> Prompt \<le> Allow" "\<not> Forbidden \<le> Allow" "\<not> Forbidden \<le> Prompt"
  by (cases d; simp add: less_eq_decision_def)+

lemma decision_le_Allow [simp]: "d \<le> Allow \<longleftrightarrow> d = Allow"
  by (cases d) simp_all

lemma Forbidden_le [simp]: "Forbidden \<le> d \<longleftrightarrow> d = Forbidden"
  by (cases d) simp_all

section \<open>Rules\<close>

type_synonym command = "rstring list"

datatype pattern_token = Single rstring | Alts "rstring list"

fun token_matches :: "pattern_token \<Rightarrow> rstring \<Rightarrow> bool" where
  "token_matches (Single expected) token = (expected = token)"
| "token_matches (Alts alternatives) token = list_ex (\<lambda>alt. alt = token) alternatives"

fun alternatives :: "pattern_token \<Rightarrow> rstring list" where
  "alternatives (Single expected) = [expected]"
| "alternatives (Alts alts) = alts"

record prefix_pattern =
  first :: rstring
  rest :: "pattern_token list"

text \<open>The loop over the zipped tokens; a failed token returns early.\<close>

fun rest_matches :: "(pattern_token \<times> rstring) list \<Rightarrow> bool" where
  "rest_matches [] = True"
| "rest_matches ((p, t) # ps) = (if \<not> token_matches p t then False else rest_matches ps)"

definition matches_prefix :: "prefix_pattern \<Rightarrow> command \<Rightarrow> command option" where
  "matches_prefix pat cmd =
     (let pattern_length = length (rest pat) + 1 in
      if length cmd < pattern_length \<or> hd cmd \<noteq> first pat then None
      else if rest_matches (zip (rest pat) (take (pattern_length - 1) (drop 1 cmd)))
      then Some (take pattern_length cmd) else None)"

datatype rule_match =
    PrefixRuleMatch command decision "rstring option"
  | HeuristicsRuleMatch command decision

fun match_decision :: "rule_match \<Rightarrow> decision" where
  "match_decision (PrefixRuleMatch _ d _) = d"
| "match_decision (HeuristicsRuleMatch _ d) = d"

record prefix_rule =
  pattern :: prefix_pattern
  rule_decision :: decision
  justification :: "rstring option"

definition rule_program :: "prefix_rule \<Rightarrow> rstring" where
  "rule_program r = first (pattern r)"

definition rule_matches :: "prefix_rule \<Rightarrow> command \<Rightarrow> rule_match option" where
  "rule_matches r cmd =
     map_option (\<lambda>mp. PrefixRuleMatch mp (rule_decision r) (justification r))
       (matches_prefix (pattern r) cmd)"

section \<open>Errors\<close>

text \<open>
  The error type of the crate; the two example errors carry the rules where the source carries
  their \<^verbatim>\<open>Debug\<close> rendering.  The source's \<^verbatim>\<open>Starlark\<close> variant is two constructors: an error of the
  third-party evaluator itself, by its message, and an error a builtin handed to it.
\<close>

datatype policy_error =
    InvalidDecision rstring
  | InvalidPattern rstring
  | InvalidExample rstring
  | InvalidRule rstring
  | ExampleDidNotMatch "prefix_rule list" "rstring list"
  | ExampleDidMatch prefix_rule rstring
  | Starlark rstring
  | StarlarkCall policy_error

definition decision_parse :: "rstring \<Rightarrow> (policy_error, decision) result" where
  "decision_parse raw =
     (if raw = lit ''allow'' then Ok Allow
      else if raw = lit ''prompt'' then Ok Prompt
      else if raw = lit ''forbidden'' then Ok Forbidden
      else Err (InvalidDecision raw))"

section \<open>Policies\<close>

type_synonym rule_map = "(rstring \<times> prefix_rule list) list"

record policy =
  rules_by_program :: rule_map

fun mm_insert :: "rstring \<Rightarrow> 'v \<Rightarrow> (rstring \<times> 'v list) list \<Rightarrow> (rstring \<times> 'v list) list" where
  "mm_insert k v [] = [(k, [v])]"
| "mm_insert k v ((k', vs) # m) = (if k' = k then (k', vs @ [v]) # m else (k', vs) # mm_insert k v m)"

abbreviation get_vec :: "(rstring \<times> 'v list) list \<Rightarrow> rstring \<Rightarrow> 'v list option" where
  "get_vec \<equiv> map_of"

definition policy_empty :: policy where
  "policy_empty = \<lparr>rules_by_program = []\<rparr>"

definition render_pattern_token :: "pattern_token \<Rightarrow> rstring" where
  "render_pattern_token t =
     (case t of
        Single v \<Rightarrow> v
      | Alts alts \<Rightarrow> lit ''['' @ join_str (lit ''|'') alts @ lit '']'')"

definition allowed_prefix :: "prefix_rule \<Rightarrow> rstring list" where
  "allowed_prefix r = first (pattern r) # map render_pattern_token (rest (pattern r))"

definition get_allowed_prefixes :: "policy \<Rightarrow> rstring list list" where
  "get_allowed_prefixes p =
     remdups_adj (sort
       (concat (map (\<lambda>(_, rules).
          filter_map (\<lambda>r. if rule_decision r \<noteq> Allow then None else Some (allowed_prefix r)) rules)
        (rules_by_program p))))"

definition add_prefix_rule ::
  "policy \<Rightarrow> rstring list \<Rightarrow> decision \<Rightarrow> policy \<times> (policy_error, unit) result" where
  "add_prefix_rule p pre d =
     (case pre of
        [] \<Rightarrow> (p, Err (InvalidPattern (lit ''prefix cannot be empty'')))
      | first_token # rest_tokens \<Rightarrow>
          (let rule = \<lparr>pattern = \<lparr>first = first_token, rest = map Single rest_tokens\<rparr>,
                       rule_decision = d, justification = None\<rparr>
           in (p\<lparr>rules_by_program := mm_insert first_token rule (rules_by_program p)\<rparr>, Ok ())))"

text \<open>The part after the last separator of either platform.\<close>

definition is_path_sep :: "rchar \<Rightarrow> bool" where
  "is_path_sep c \<longleftrightarrow> c = 47 \<or> c = 92"

definition program_basename :: "rstring \<Rightarrow> rstring option" where
  "program_basename program =
     (let base = last (split_by is_path_sep program) in
      if base = [] then None else Some base)"

definition rule_hits :: "policy \<Rightarrow> command \<Rightarrow> rule_match list" where
  "rule_hits p cmd =
     (case cmd of
        [] \<Rightarrow> []
      | fst_tok # args \<Rightarrow>
          (case get_vec (rules_by_program p) fst_tok of
             Some rules \<Rightarrow> filter_map (\<lambda>r. rule_matches r cmd) rules
           | None \<Rightarrow>
               (case program_basename fst_tok of
                  None \<Rightarrow> []
                | Some base \<Rightarrow>
                    (if base = fst_tok then []
                     else
                       (case get_vec (rules_by_program p) base of
                          None \<Rightarrow> []
                        | Some rules \<Rightarrow>
                            filter_map (\<lambda>r. rule_matches r (cmd[0 := base])) rules)))))"

definition matches_for_command ::
  "policy \<Rightarrow> command \<Rightarrow> (command \<Rightarrow> decision) option \<Rightarrow> rule_match list" where
  "matches_for_command p cmd heuristics_fallback =
     (let matched_rules = rule_hits p cmd in
      case (matched_rules, heuristics_fallback) of
        ([], Some h) \<Rightarrow> [HeuristicsRuleMatch cmd (h cmd)]
      | _ \<Rightarrow> matched_rules)"

record evaluation =
  eval_decision :: decision
  matched_rules :: "rule_match list"

text \<open>\<^verbatim>\<open>Iterator::max\<close>, and the \<^verbatim>\<open>expect\<close> on it: \<open>None\<close> is the panic.\<close>

fun iter_max :: "decision list \<Rightarrow> decision option" where
  "iter_max [] = None"
| "iter_max (d # ds) = (case iter_max ds of None \<Rightarrow> Some d | Some m \<Rightarrow> Some (max d m))"

definition from_matches :: "rule_match list \<Rightarrow> evaluation option" where
  "from_matches ms =
     map_option (\<lambda>d. \<lparr>eval_decision = d, matched_rules = ms\<rparr>) (iter_max (map match_decision ms))"

definition check :: "policy \<Rightarrow> command \<Rightarrow> (command \<Rightarrow> decision) \<Rightarrow> evaluation option" where
  "check p cmd h = from_matches (matches_for_command p cmd (Some h))"

definition check_multiple ::
  "policy \<Rightarrow> command list \<Rightarrow> (command \<Rightarrow> decision) \<Rightarrow> evaluation option" where
  "check_multiple p cmds h =
     from_matches (concat (map (\<lambda>c. matches_for_command p c (Some h)) cmds))"

section \<open>Matching\<close>

lemma rest_matches_iff: "rest_matches ps \<longleftrightarrow> (\<forall>(p, t) \<in> set ps. token_matches p t)"
  by (induction ps rule: rest_matches.induct) auto

lemma rest_matches_zip:
  "length ps = length ts \<Longrightarrow> rest_matches (zip ps ts) \<longleftrightarrow> list_all2 token_matches ps ts"
  by (auto simp: rest_matches_iff list_all2_iff)

lemma matches_prefix_Some:
  "matches_prefix pat cmd = Some mp \<longleftrightarrow>
     prefix mp cmd \<and> (\<exists>ts. mp = first pat # ts \<and> list_all2 token_matches (rest pat) ts)"
    (is "?l \<longleftrightarrow> ?r")
proof
  assume ?l
  then obtain ts where cmd: "cmd = first pat # ts" and len: "length (rest pat) \<le> length ts"
    by (cases cmd) (auto simp: matches_prefix_def Let_def split: if_splits)
  with \<open>?l\<close> show ?r
    by (auto simp: matches_prefix_def Let_def rest_matches_zip take_is_prefix split: if_splits)
next
  assume ?r
  then obtain ts us where "cmd = first pat # ts @ us" "mp = first pat # ts"
    "list_all2 token_matches (rest pat) ts"
    by (auto simp: prefix_def)
  then show ?l
    using list_all2_lengthD [of token_matches "rest pat" ts]
    by (auto simp: matches_prefix_def Let_def rest_matches_zip)
qed

lemma rule_matches_Some:
  "rule_matches r cmd = Some m \<longleftrightarrow>
     (\<exists>mp. matches_prefix (pattern r) cmd = Some mp \<and>
        m = PrefixRuleMatch mp (rule_decision r) (justification r))"
  by (auto simp: rule_matches_def)

lemma token_matches_iff: "token_matches p t \<longleftrightarrow> t \<in> set (alternatives p)"
  by (cases p) (auto simp: list_ex_iff)

lemma matches_prefix_literal:
  "matches_prefix \<lparr>first = f, rest = map Single ts\<rparr> (f # ts @ us) = Some (f # ts)"
  by (simp add: matches_prefix_Some list_all2_conv_all_nth)

subsection \<open>The multimap\<close>

lemma get_vec_insert:
  "get_vec (mm_insert k v m) k' =
     (if k' = k then Some ((case get_vec m k of None \<Rightarrow> [] | Some vs \<Rightarrow> vs) @ [v]) else get_vec m k')"
  by (induction m) (auto split: option.splits)

subsection \<open>The largest decision\<close>

lemma iter_max_Some: "ds \<noteq> [] \<Longrightarrow> iter_max ds = Some (Max (set ds))"
proof (induction ds)
  case Nil
  then show ?case by simp
next
  case (Cons d ds)
  then show ?case
    by (cases "ds = []") (auto simp: Max_insert)
qed

section \<open>Evaluation of any matcher\<close>

text \<open>
  What the evaluation promises only depends on the matcher never returning an empty list; the
  policy with a heuristics fallback is such a matcher.
\<close>

locale rule_matcher =
  fixes matches :: "command \<Rightarrow> rule_match list"
  assumes matches_nonempty: "matches cmd \<noteq> []"
begin

definition verdict :: "command \<Rightarrow> decision" where
  "verdict cmd = Max (match_decision ` set (matches cmd))"

lemma from_matches_one:
  "from_matches (matches cmd) = Some \<lparr>eval_decision = verdict cmd, matched_rules = matches cmd\<rparr>"
  by (simp add: from_matches_def iter_max_Some matches_nonempty verdict_def)

lemma verdict_upper: "m \<in> set (matches cmd) \<Longrightarrow> match_decision m \<le> verdict cmd"
  by (simp add: verdict_def)

lemma verdict_attained: "\<exists>m \<in> set (matches cmd). match_decision m = verdict cmd"
proof -
  have "verdict cmd \<in> match_decision ` set (matches cmd)"
    unfolding verdict_def by (rule Max_in) (simp_all add: matches_nonempty)
  then show ?thesis by force
qed

lemma from_matches_many:
  assumes "cmds \<noteq> []"
  shows "\<exists>ev. from_matches (concat (map matches cmds)) = Some ev \<and>
    eval_decision ev = Max (verdict ` set cmds) \<and> matched_rules ev = concat (map matches cmds)"
proof -
  have ne: "concat (map matches cmds) \<noteq> []"
    using assms matches_nonempty by (cases cmds) auto
  have "Max (match_decision ` set (concat (map matches cmds))) = Max (verdict ` set cmds)"
  proof (rule antisym)
    show "Max (match_decision ` set (concat (map matches cmds))) \<le> Max (verdict ` set cmds)"
      using ne by (auto intro!: Max.boundedI intro: order_trans [OF verdict_upper])
    show "Max (verdict ` set cmds) \<le> Max (match_decision ` set (concat (map matches cmds)))"
    proof (rule Max.boundedI)
      fix d assume "d \<in> verdict ` set cmds"
      then obtain c m where "c \<in> set cmds" "m \<in> set (matches c)" "match_decision m = d"
        using verdict_attained by blast
      then show "d \<le> Max (match_decision ` set (concat (map matches cmds)))"
        by (intro Max_ge) auto
    qed (use assms in auto)
  qed
  with ne show ?thesis
    by (simp add: from_matches_def iter_max_Some)
qed

end

lemma matches_with_fallback: "matches_for_command p cmd (Some h) \<noteq> []"
  by (simp add: matches_for_command_def Let_def split: list.splits)

interpretation pol: rule_matcher "\<lambda>cmd. matches_for_command p cmd (Some h)" for p h
  by unfold_locales (rule matches_with_fallback)

lemma check_verdict:
  "check p cmd h =
     Some \<lparr>eval_decision = pol.verdict p h cmd, matched_rules = matches_for_command p cmd (Some h)\<rparr>"
  by (simp add: check_def pol.from_matches_one)

section \<open>Well-formed policies\<close>

text \<open>Every rule is filed under its own program, and every program has one entry.\<close>

definition policy_wf :: "policy \<Rightarrow> bool" where
  "policy_wf p \<longleftrightarrow>
     distinct (map fst (rules_by_program p)) \<and>
     (\<forall>(k, rs) \<in> set (rules_by_program p). \<forall>r \<in> set rs. rule_program r = k)"

definition policy_rules :: "policy \<Rightarrow> prefix_rule set" where
  "policy_rules p = (\<Union>(k, rs) \<in> set (rules_by_program p). set rs)"

text \<open>The command as the rules see it: an unlisted qualified program is spelled by its basename.\<close>

definition effective_command :: "policy \<Rightarrow> command \<Rightarrow> command" where
  "effective_command p cmd =
     (case cmd of
        [] \<Rightarrow> []
      | f # args \<Rightarrow>
          (if get_vec (rules_by_program p) f \<noteq> None then cmd
           else
             (case program_basename f of
                None \<Rightarrow> cmd
              | Some b \<Rightarrow> (if get_vec (rules_by_program p) b \<noteq> None then b # args else cmd))))"

lemma policy_wf_empty [simp]: "policy_wf policy_empty"
  by (simp add: policy_wf_def policy_empty_def)

lemma mm_insert_keys: "fst ` set (mm_insert k v m) = insert k (fst ` set m)"
proof (induction m)
  case (Cons e m)
  then show ?case by (cases e) (simp add: insert_commute)
qed simp

lemma mm_insert_distinct: "distinct (map fst m) \<Longrightarrow> distinct (map fst (mm_insert k v m))"
proof (induction m)
  case (Cons e m)
  then show ?case by (cases e) (auto simp: mm_insert_keys)
qed simp

lemma mm_insert_entries:
  "(k', vs) \<in> set (mm_insert k v m) \<Longrightarrow>
     (k', vs) \<in> set m \<or> (k' = k \<and> (\<exists>ws. vs = ws @ [v] \<and> (ws = [] \<or> (k, ws) \<in> set m)))"
  by (induction m) (auto split: if_splits)

lemma policy_wf_iff:
  "policy_wf p \<longleftrightarrow>
     distinct (map fst (rules_by_program p)) \<and>
     (\<forall>k rs r. (k, rs) \<in> set (rules_by_program p) \<longrightarrow> r \<in> set rs \<longrightarrow> rule_program r = k)"
  unfolding policy_wf_def by blast

lemma policy_rules_iff: "r \<in> policy_rules p \<longleftrightarrow> (\<exists>k rs. (k, rs) \<in> set (rules_by_program p) \<and> r \<in> set rs)"
  unfolding policy_rules_def by blast

lemma policy_wf_insert:
  assumes "policy_wf p" "rule_program r = k"
  shows "policy_wf (p\<lparr>rules_by_program := mm_insert k r (rules_by_program p)\<rparr>)"
proof -
  have "rule_program r' = k'"
    if "(k', rs) \<in> set (mm_insert k r (rules_by_program p))" "r' \<in> set rs" for k' rs r'
    using mm_insert_entries [OF that(1)] that(2) assms unfolding policy_wf_iff by force
  with assms(1) show ?thesis
    unfolding policy_wf_iff by (simp add: mm_insert_distinct)
qed

lemma rule_matches_hd: "rule_matches r (f # args) = Some m \<Longrightarrow> rule_program r = f"
  by (auto simp: rule_matches_Some matches_prefix_Some rule_program_def prefix_def)

lemma listed_rules:
  assumes "policy_wf p" "get_vec (rules_by_program p) k = Some rs"
  shows "set rs = {r \<in> policy_rules p. rule_program r = k}"
proof -
  have mem: "(k, rs) \<in> set (rules_by_program p)"
    using assms(2) by (rule map_of_SomeD)
  have only: "rs' = rs" if "(k, rs') \<in> set (rules_by_program p)" for rs'
    using assms that by (simp add: policy_wf_iff)
  have own: "rule_program r = k'" if "(k', rs') \<in> set (rules_by_program p)" "r \<in> set rs'" for r k' rs'
    using assms(1) that unfolding policy_wf_iff by blast
  have "r \<in> set rs" if r: "r \<in> policy_rules p" "rule_program r = k" for r
  proof -
    obtain k' rs' where e: "(k', rs') \<in> set (rules_by_program p)" "r \<in> set rs'"
      using r(1) unfolding policy_rules_iff by blast
    with own r(2) only show ?thesis by metis
  qed
  then show ?thesis
    using mem own unfolding policy_rules_iff set_eq_iff mem_Collect_eq by metis
qed

lemma unlisted_rules:
  assumes "policy_wf p" "get_vec (rules_by_program p) k = None" "r \<in> policy_rules p"
  shows "rule_program r \<noteq> k"
proof -
  obtain k' rs where e: "(k', rs) \<in> set (rules_by_program p)" "r \<in> set rs"
    using assms(3) by (auto simp: policy_rules_iff)
  then have "rule_program r = k'" using assms(1) unfolding policy_wf_iff by blast
  moreover have "k' \<noteq> k"
    using e assms(2) by (force simp: map_of_eq_None_iff)
  ultimately show ?thesis by simp
qed

lemma listed_hits:
  assumes "policy_wf p" "get_vec (rules_by_program p) k = Some rs"
  shows "set (filter_map (\<lambda>r. rule_matches r (k # args)) rs) =
    {m. \<exists>r \<in> policy_rules p. rule_matches r (k # args) = Some m}"
  unfolding set_filter_map listed_rules [OF assms] using rule_matches_hd by fastforce

lemma unlisted_hits:
  assumes "policy_wf p" "get_vec (rules_by_program p) k = None"
  shows "{m. \<exists>r \<in> policy_rules p. rule_matches r (k # args) = Some m} = {}"
  using unlisted_rules [OF assms] rule_matches_hd by fastforce

lemma rule_matches_Nil: "rule_matches r [] = None"
  by (simp add: rule_matches_def matches_prefix_def Let_def)

text \<open>
  Looking a command up by its program finds exactly the rules of the whole policy that
  match it, the program being spelled by its basename when only the basename is listed.
\<close>

lemma rule_hits_complete:
  assumes "policy_wf p"
  shows "set (rule_hits p cmd) =
    {m. \<exists>r \<in> policy_rules p. rule_matches r (effective_command p cmd) = Some m}"
proof (cases cmd)
  case Nil
  then show ?thesis by (simp add: rule_hits_def effective_command_def rule_matches_Nil)
next
  case (Cons f args)
  show ?thesis
  proof (cases "get_vec (rules_by_program p) f")
    case (Some rs)
    with Cons show ?thesis
      using listed_hits [OF assms Some] by (simp add: rule_hits_def effective_command_def)
  next
    case None
    show ?thesis
    proof (cases "\<exists>b rs. program_basename f = Some b \<and> get_vec (rules_by_program p) b = Some rs")
      case True
      then obtain b rs where b: "program_basename f = Some b" "get_vec (rules_by_program p) b = Some rs"
        by blast
      with None have "b \<noteq> f" by auto
      with b None Cons show ?thesis
        using listed_hits [OF assms b(2), of args] by (simp add: rule_hits_def effective_command_def)
    next
      case False
      with None Cons have "rule_hits p cmd = []" "effective_command p cmd = f # args"
        by (auto simp: rule_hits_def effective_command_def split: option.splits)
      then show ?thesis using unlisted_hits [OF assms None] by simp
    qed
  qed
qed

text \<open>
  C30.  Evaluating a non-empty sequence of commands never hits the \<^verbatim>\<open>expect\<close>, and the outcome is the
  strictest outcome of the single commands: it allows exactly when every rule or heuristic that
  matched any of them allows.  The empty sequence is the only one that panics.
\<close>

theorem check_multiple_is_strictest:
  "(cmds \<noteq> [] \<longrightarrow>
     (\<exists>ev. check_multiple p cmds h = Some ev \<and>
        eval_decision ev = Max ((\<lambda>c. eval_decision (the (check p c h))) ` set cmds) \<and>
        (eval_decision ev = Allow \<longleftrightarrow>
           (\<forall>c \<in> set cmds. \<forall>m \<in> set (matches_for_command p c (Some h)). match_decision m = Allow)))) \<and>
   (check_multiple p cmds h = None \<longleftrightarrow> cmds = [])"
proof (cases "cmds = []")
  case True
  then show ?thesis by (simp add: check_multiple_def from_matches_def)
next
  case False
  have allow: "pol.verdict p h c = Allow \<longleftrightarrow>
      (\<forall>m \<in> set (matches_for_command p c (Some h)). match_decision m = Allow)" for c
    using pol.verdict_upper [of _ p c h] pol.verdict_attained [of p c h]
    by (metis decision_le_Allow)
  have "Max (pol.verdict p h ` set cmds) = Allow \<longleftrightarrow> (\<forall>c \<in> set cmds. pol.verdict p h c = Allow)"
    using False Max_le_iff [of "pol.verdict p h ` set cmds" Allow] by simp
  then show ?thesis
    using pol.from_matches_many [OF False, of p h] False
    by (auto simp: check_multiple_def check_verdict allow)
qed

section \<open>Adding a rule\<close>

lemma add_prefix_rule_Cons:
  "add_prefix_rule p (f # ts) d =
     (p\<lparr>rules_by_program := mm_insert f
          \<lparr>pattern = \<lparr>first = f, rest = map Single ts\<rparr>, rule_decision = d, justification = None\<rparr>
          (rules_by_program p)\<rparr>, Ok ())"
  by (simp add: add_prefix_rule_def Let_def)

lemma literal_rule_matches:
  "rule_matches \<lparr>pattern = \<lparr>first = f, rest = map Single ts\<rparr>, rule_decision = d, justification = j\<rparr>
     cmd = (if prefix (f # ts) cmd then Some (PrefixRuleMatch (f # ts) d j) else None)"
proof (cases "prefix (f # ts) cmd")
  case True
  then show ?thesis
    by (auto simp: rule_matches_def matches_prefix_literal prefix_def)
next
  case False
  have "list_all2 token_matches (map Single ts) us \<Longrightarrow> us = ts" for us
    by (induction ts arbitrary: us) (auto simp: list_all2_Cons1)
  with False show ?thesis
    by (auto simp: rule_matches_def matches_prefix_Some simp flip: not_Some_eq)
qed

text \<open>The hits of a command whose program is the key of the new rule.\<close>

lemma hits_after_add:
  assumes "add_prefix_rule p (f # ts) d = (p', Ok ())"
  shows "rule_hits p' (f # args) =
    (case get_vec (rules_by_program p) f of None \<Rightarrow> [] | Some rs \<Rightarrow> rule_hits p (f # args)) @
    (if prefix ts args then [PrefixRuleMatch (f # ts) d None] else [])"
  using assms
  by (auto simp: add_prefix_rule_Cons rule_hits_def get_vec_insert filter_map_append
      literal_rule_matches split: option.splits)

lemma hits_of_others:
  assumes "add_prefix_rule p (f # ts) d = (p', Ok ())" "hd cmd \<noteq> f" "program_basename (hd cmd) \<noteq> Some f"
  shows "rule_hits p' cmd = rule_hits p cmd"
  using assms
  by (cases cmd) (auto simp: add_prefix_rule_Cons rule_hits_def get_vec_insert split: option.splits)

lemma verdict_ge_hit: "m \<in> set (rule_hits p cmd) \<Longrightarrow> match_decision m \<le> pol.verdict p h cmd"
  by (rule pol.verdict_upper) (auto simp: matches_for_command_def Let_def split: list.splits)

lemma matches_cong: "rule_hits p cmd = rule_hits p' cmd \<Longrightarrow> check p cmd h = check p' cmd h"
  by (simp add: check_def matches_for_command_def)

lemma allowed_prefixes_iff:
  "ts \<in> set (get_allowed_prefixes p) \<longleftrightarrow>
     (\<exists>r \<in> policy_rules p. rule_decision r = Allow \<and> ts = allowed_prefix r)"
  by (auto simp: get_allowed_prefixes_def policy_rules_def set_filter_map_if split_beta)

lemma policy_rules_insert:
  "policy_rules (p\<lparr>rules_by_program := mm_insert k r (rules_by_program p)\<rparr>) = insert r (policy_rules p)"
proof -
  have "(\<Union>(k, rs) \<in> set (mm_insert k r m). set rs) = insert r (\<Union>(k, rs) \<in> set m. set rs)" for m
  proof (induction m)
    case (Cons e m)
    then show ?case by (cases e) simp
  qed simp
  then show ?thesis by (simp add: policy_rules_def)
qed

text \<open>
  Adding a prefix rule keeps the policy well-formed, makes every command with that prefix at
  least as strict as the rule, leaves the evaluation of every other program unchanged, and an
  allowed prefix is listed among the allowed prefixes.
\<close>

lemma add_prefix_rule_effect:
  assumes "policy_wf p" "pre \<noteq> []"
  shows "\<exists>p'. add_prefix_rule p pre d = (p', Ok ()) \<and> policy_wf p' \<and>
    (\<forall>cmd h. prefix pre cmd \<longrightarrow> (\<exists>ev. check p' cmd h = Some ev \<and> d \<le> eval_decision ev)) \<and>
    (\<forall>cmd h. hd cmd \<noteq> hd pre \<and> program_basename (hd cmd) \<noteq> Some (hd pre) \<longrightarrow>
       check p' cmd h = check p cmd h) \<and>
    set (get_allowed_prefixes p') =
      set (get_allowed_prefixes p) \<union> (if d = Allow then {pre} else {})"
proof -
  obtain f ts where pre: "pre = f # ts" using assms(2) by (cases pre) auto
  obtain p' where add: "add_prefix_rule p pre d = (p', Ok ())"
    by (simp add: pre add_prefix_rule_Cons)
  have "\<exists>ev. check p' cmd h = Some ev \<and> d \<le> eval_decision ev" if c: "prefix pre cmd" for cmd h
  proof -
    obtain args where cmd: "cmd = f # args" "prefix ts args"
      using c by (auto simp: pre prefix_def)
    then have "PrefixRuleMatch (f # ts) d None \<in> set (rule_hits p' cmd)"
      using hits_after_add [of p f ts d p' args] add by (simp add: pre)
    from verdict_ge_hit [OF this] show ?thesis by (simp add: check_verdict)
  qed
  moreover have "policy_wf p'"
    using add assms(1) policy_wf_insert by (auto simp: pre add_prefix_rule_Cons rule_program_def)
  moreover have "set (get_allowed_prefixes p') =
      set (get_allowed_prefixes p) \<union> (if d = Allow then {pre} else {})"
    using add
    by (auto simp: allowed_prefixes_iff pre add_prefix_rule_Cons policy_rules_insert
        allowed_prefix_def render_pattern_token_def map_idI)
  moreover have "check p' cmd h = check p cmd h"
    if "hd cmd \<noteq> f" "program_basename (hd cmd) \<noteq> Some f" for cmd h
    using hits_of_others [OF add [unfolded pre] that] by (rule matches_cong)
  ultimately show ?thesis
    unfolding pre list.sel using add [unfolded pre] by blast
qed

text \<open>
  Rules keyed on the bare program name stop applying to a qualified path as soon as any rule
  for the qualified path exists: after such a rule is added, a command that does not match it is
  judged by the heuristics alone, whatever the rules for the bare name say.
\<close>

lemma qualified_rule_hides_basename_rules:
  assumes "get_vec (rules_by_program p) f = None"
    and "add_prefix_rule p (f # ts) d = (p', Ok ())" "\<not> prefix ts args"
  shows "map_option eval_decision (check p' (f # args) h) = Some (h (f # args))"
proof -
  have "rule_hits p' (f # args) = []"
    using hits_after_add [OF assms(2)] assms(1,3) by simp
  then show ?thesis
    by (simp add: check_def matches_for_command_def from_matches_def)
qed

section \<open>Concrete policies\<close>

definition rm_policy :: policy where
  "rm_policy = fst (add_prefix_rule policy_empty [lit ''rm''] Forbidden)"

lemmas policy_eval =
  rm_policy_def policy_empty_def add_prefix_rule_def check_def matches_for_command_def rule_hits_def
  rule_matches_def matches_prefix_def from_matches_def program_basename_def is_path_sep_def
  max_def Let_def

lemma rm_policy_wf: "policy_wf rm_policy"
  by (simp add: policy_wf_def policy_eval rule_program_def)

theorem check_multiple_is_strictest_witness:
  "\<exists>ev. check_multiple rm_policy [[lit ''ls''], [lit ''rm'', lit ''x'']] (\<lambda>_. Allow) = Some ev \<and>
     eval_decision ev = Forbidden"
  using check_multiple_is_strictest [of "[[lit ''ls''], [lit ''rm'', lit ''x'']]" rm_policy "\<lambda>_. Allow"]
  by (auto simp: policy_eval)

end
