(* ===== verification/Policy_Parser.thy ===== *)
theory Policy_Parser
  imports Exec_Policy
begin

text \<open>
  The policy language (\<^verbatim>\<open>crates/exec-policy/src/parser.rs\<close>): the builtin \<^verbatim>\<open>prefix_rule\<close>, its example
  checks, and the builder that collects the rules of a policy file.

  Starlark is a third-party evaluator.  A value is seen through the three questions the parser
  asks of it (\<^verbatim>\<open>unpack_str\<close>, \<^verbatim>\<open>ListRef::from_value\<close>, \<^verbatim>\<open>get_type\<close>).  A module is seen as the sequence of
  \<^verbatim>\<open>prefix_rule\<close> calls it makes: the builtin returns nothing to the script, so the calls of a run
  do not depend on their outcome until one of them fails and ends it.  The parameter \<open>run\<close> gives
  that sequence, or the syntax error, and the error that ends the run after its last call, if
  any.  \<open>split\<close> and \<open>join\<close> stand for \<^verbatim>\<open>shlex::split\<close> and \<^verbatim>\<open>shlex::try_join\<close>.
\<close>

datatype star_value = StrV rstring | ListV "star_value list" | OtherV rstring

fun unpack_str :: "star_value \<Rightarrow> rstring option" where
  "unpack_str (StrV s) = Some s"
| "unpack_str _ = None"

fun list_content :: "star_value \<Rightarrow> star_value list option" where
  "list_content (ListV vs) = Some vs"
| "list_content _ = None"

fun get_type :: "star_value \<Rightarrow> rstring" where
  "get_type (StrV _) = lit ''string''"
| "get_type (ListV _) = lit ''list''"
| "get_type (OtherV t) = t"

record prefix_rule_call =
  call_pattern :: "star_value list"
  call_decision :: "rstring option"
  call_match :: "star_value list option"
  call_not_match :: "star_value list option"
  call_justification :: "rstring option"

section \<open>Parsing the arguments\<close>

definition string_or :: "(rstring \<Rightarrow> policy_error) \<Rightarrow> rstring \<Rightarrow> star_value \<Rightarrow> (policy_error, rstring) result" where
  "string_or err msg v =
     (case unpack_str v of
        Some s \<Rightarrow> Ok s
      | None \<Rightarrow> Err (err (msg @ lit '' (got '' @ get_type v @ lit '')'')))"

definition parse_pattern_token :: "star_value \<Rightarrow> (policy_error, pattern_token) result" where
  "parse_pattern_token v =
     (case unpack_str v of
        Some s \<Rightarrow> Ok (Single s)
      | None \<Rightarrow>
          (case list_content v of
             Some vs \<Rightarrow>
               and_then (collect_results (string_or InvalidPattern (lit ''pattern alternative must be a string'')) vs)
                 (\<lambda>tokens. case tokens of
                     [] \<Rightarrow> Err (InvalidPattern (lit ''pattern alternatives cannot be empty''))
                   | [single] \<Rightarrow> Ok (Single single)
                   | _ \<Rightarrow> Ok (Alts tokens))
           | None \<Rightarrow>
               Err (InvalidPattern (lit ''pattern element must be a string or list of strings (got '' @
                 get_type v @ lit '')''))))"

definition parse_pattern :: "star_value list \<Rightarrow> (policy_error, pattern_token list) result" where
  "parse_pattern items =
     and_then (collect_results parse_pattern_token items)
       (\<lambda>tokens. if tokens = [] then Err (InvalidPattern (lit ''pattern cannot be empty'')) else Ok tokens)"

definition parse_string_example ::
  "(rstring \<Rightarrow> rstring list option) \<Rightarrow> rstring \<Rightarrow> (policy_error, command) result" where
  "parse_string_example split raw =
     (case split raw of
        None \<Rightarrow> Err (InvalidExample (lit ''example string has invalid shell syntax''))
      | Some tokens \<Rightarrow>
          (if tokens = [] then Err (InvalidExample (lit ''example cannot be an empty string''))
           else Ok tokens))"

definition parse_list_example :: "star_value list \<Rightarrow> (policy_error, command) result" where
  "parse_list_example vs =
     and_then (collect_results (string_or InvalidExample (lit ''example tokens must be strings'')) vs)
       (\<lambda>tokens.
          if tokens = [] then Err (InvalidExample (lit ''example cannot be an empty list''))
          else Ok tokens)"

definition parse_example ::
  "(rstring \<Rightarrow> rstring list option) \<Rightarrow> star_value \<Rightarrow> (policy_error, command) result" where
  "parse_example split v =
     (case unpack_str v of
        Some raw \<Rightarrow> parse_string_example split raw
      | None \<Rightarrow>
          (case list_content v of
             Some vs \<Rightarrow> parse_list_example vs
           | None \<Rightarrow>
               Err (InvalidExample (lit ''example must be a string or list of strings (got '' @
                 get_type v @ lit '')''))))"

definition parse_examples ::
  "(rstring \<Rightarrow> rstring list option) \<Rightarrow> star_value list \<Rightarrow> (policy_error, command list) result" where
  "parse_examples split vs = collect_results (parse_example split) vs"

text \<open>\<^verbatim>\<open>opt.map(parse_examples).transpose()?.unwrap_or_default()\<close>.\<close>

definition optional_examples ::
  "(rstring \<Rightarrow> rstring list option) \<Rightarrow> star_value list option \<Rightarrow> (policy_error, command list) result" where
  "optional_examples split o_vs =
     (case o_vs of None \<Rightarrow> Ok [] | Some vs \<Rightarrow> parse_examples split vs)"

section \<open>Checking the examples\<close>

definition render_example :: "(rstring list \<Rightarrow> rstring option) \<Rightarrow> command \<Rightarrow> rstring" where
  "render_example join example =
     (case join example of Some s \<Rightarrow> s | None \<Rightarrow> lit ''unable to render example'')"

definition validate_match_examples ::
  "(rstring list \<Rightarrow> rstring option) \<Rightarrow> prefix_rule list \<Rightarrow> command list \<Rightarrow> (policy_error, unit) result" where
  "validate_match_examples join rules examples =
     (let unmatched = map (render_example join)
            (filter (\<lambda>ex. \<not> list_ex (\<lambda>r. rule_matches r ex \<noteq> None) rules) examples)
      in if unmatched = [] then Ok () else Err (ExampleDidNotMatch rules unmatched))"

fun validate_not_match_examples ::
  "(rstring list \<Rightarrow> rstring option) \<Rightarrow> prefix_rule list \<Rightarrow> command list \<Rightarrow> (policy_error, unit) result" where
  "validate_not_match_examples join rules [] = Ok ()"
| "validate_not_match_examples join rules (ex # exs) =
     (case find (\<lambda>r. rule_matches r ex \<noteq> None) rules of
        Some r \<Rightarrow> Err (ExampleDidMatch r (render_example join ex))
      | None \<Rightarrow> validate_not_match_examples join rules exs)"

section \<open>The builder and the builtin\<close>

record policy_builder =
  builder_rules :: rule_map

definition builder_new :: policy_builder where
  "builder_new = \<lparr>builder_rules = []\<rparr>"

definition builder_add_rule :: "policy_builder \<Rightarrow> prefix_rule \<Rightarrow> policy_builder" where
  "builder_add_rule b r = b\<lparr>builder_rules := mm_insert (rule_program r) r (builder_rules b)\<rparr>"

definition builder_build :: "policy_builder \<Rightarrow> policy" where
  "builder_build b = \<lparr>rules_by_program = builder_rules b\<rparr>"

definition parse_justification :: "rstring option \<Rightarrow> (policy_error, rstring option) result" where
  "parse_justification j =
     (case j of
        None \<Rightarrow> Ok None
      | Some raw \<Rightarrow>
          (if trim raw = [] then Err (InvalidRule (lit ''justification cannot be empty''))
           else Ok (Some raw)))"

definition rules_of_pattern ::
  "pattern_token list \<Rightarrow> decision \<Rightarrow> rstring option \<Rightarrow> prefix_rule list" where
  "rules_of_pattern tokens d j =
     map (\<lambda>head. \<lparr>pattern = \<lparr>first = head, rest = tl tokens\<rparr>, rule_decision = d, justification = j\<rparr>)
       (alternatives (hd tokens))"

definition prefix_rule_builtin ::
  "(rstring \<Rightarrow> rstring list option) \<Rightarrow> (rstring list \<Rightarrow> rstring option) \<Rightarrow> prefix_rule_call \<Rightarrow>
     policy_builder \<Rightarrow> (policy_error, policy_builder) result" where
  "prefix_rule_builtin split join c b =
     and_then (case call_decision c of Some raw \<Rightarrow> decision_parse raw | None \<Rightarrow> Ok Allow) (\<lambda>d.
     and_then (parse_justification (call_justification c)) (\<lambda>j.
     and_then (parse_pattern (call_pattern c)) (\<lambda>tokens.
     and_then (optional_examples split (call_match c)) (\<lambda>positives.
     and_then (optional_examples split (call_not_match c)) (\<lambda>negatives.
     (if tokens = [] then Err (InvalidPattern (lit ''pattern cannot be empty''))
      else
        (let rules = rules_of_pattern tokens d j in
         and_then (validate_not_match_examples join rules negatives) (\<lambda>_.
         and_then (validate_match_examples join rules positives) (\<lambda>_.
         Ok (fold (\<lambda>r b. builder_add_rule b r) rules b))))))))))"

text \<open>One run of a module: the builder keeps the rules of the calls before a failing one.\<close>

fun run_calls ::
  "(rstring \<Rightarrow> rstring list option) \<Rightarrow> (rstring list \<Rightarrow> rstring option) \<Rightarrow> prefix_rule_call list \<Rightarrow>
     policy_builder \<Rightarrow> policy_builder \<times> (policy_error, unit) result" where
  "run_calls split join [] b = (b, Ok ())"
| "run_calls split join (c # cs) b =
     (case prefix_rule_builtin split join c b of
        Inl e \<Rightarrow> (b, Err e)
      | Inr b' \<Rightarrow> run_calls split join cs b')"

definition parse_policy ::
  "(rstring \<Rightarrow> rstring \<Rightarrow> (rstring, prefix_rule_call list \<times> rstring option) result) \<Rightarrow>
   (rstring \<Rightarrow> rstring list option) \<Rightarrow> (rstring list \<Rightarrow> rstring option) \<Rightarrow>
   rstring \<Rightarrow> rstring \<Rightarrow> policy_builder \<Rightarrow> policy_builder \<times> (policy_error, unit) result" where
  "parse_policy run split join identifier contents b =
     (case run identifier contents of
        Inl e \<Rightarrow> (b, Err (Starlark e))
      | Inr (calls, failure) \<Rightarrow>
          (case run_calls split join calls b of
             (b', Inl e) \<Rightarrow> (b', Err (StarlarkCall e))
           | (b', Inr _) \<Rightarrow>
               (b', case failure of None \<Rightarrow> Ok () | Some e \<Rightarrow> Err (Starlark e))))"

section \<open>What an accepted rule guarantees\<close>

lemma validate_not_match_Ok:
  "validate_not_match_examples join rules exs = Ok () \<longleftrightarrow>
     (\<forall>ex \<in> set exs. \<forall>r \<in> set rules. rule_matches r ex = None)"
  by (induction exs) (auto simp: find_None_iff find_Some_iff split: option.splits)

lemma validate_match_Ok:
  "validate_match_examples join rules exs = Ok () \<longleftrightarrow>
     (\<forall>ex \<in> set exs. \<exists>r \<in> set rules. rule_matches r ex \<noteq> None)"
  by (auto simp: validate_match_examples_def Let_def filter_empty_conv list_ex_iff)

lemma builder_add_wf: "policy_wf (builder_build b) \<Longrightarrow> policy_wf (builder_build (builder_add_rule b r))"
  using policy_wf_insert [of "builder_build b" r "rule_program r"]
  by (simp add: builder_build_def builder_add_rule_def)

lemma builder_add_rules:
  "policy_rules (builder_build (builder_add_rule b r)) = insert r (policy_rules (builder_build b))"
  using policy_rules_insert [where p = "builder_build b" and k = "rule_program r" and r = r]
  by (simp add: builder_build_def builder_add_rule_def)

lemma fold_add_rules:
  "policy_rules (builder_build (fold (\<lambda>r b. builder_add_rule b r) rs b)) =
     set rs \<union> policy_rules (builder_build b)"
  by (induction rs arbitrary: b) (auto simp: builder_add_rules)

lemma fold_add_wf:
  "policy_wf (builder_build b) \<Longrightarrow>
     policy_wf (builder_build (fold (\<lambda>r b. builder_add_rule b r) rs b))"
  by (induction rs arbitrary: b) (auto simp: builder_add_wf)

text \<open>A rule of the policy that matches a command is hit, and bounds the verdict.\<close>

lemma matching_rule_bounds_verdict:
  assumes "policy_wf p" "r \<in> policy_rules p" "rule_matches r cmd = Some m"
  shows "match_decision m \<le> pol.verdict p h cmd"
proof -
  obtain args where cmd: "cmd = rule_program r # args"
    using assms(3) rule_matches_hd by (cases cmd) (auto simp: rule_matches_Nil)
  obtain rs where rs: "get_vec (rules_by_program p) (rule_program r) = Some rs"
    using unlisted_rules [OF assms(1) _ assms(2)] by blast
  have "m \<in> set (rule_hits p cmd)"
    using listed_hits [OF assms(1) rs, of args] assms(2,3) rs by (auto simp: cmd rule_hits_def)
  then show ?thesis by (rule verdict_ge_hit)
qed

text \<open>The decision a call declares, and its positive and negative examples.\<close>

definition declared_decision :: "prefix_rule_call \<Rightarrow> decision" where
  "declared_decision c =
     (case call_decision c of
        None \<Rightarrow> Allow
      | Some raw \<Rightarrow> (case decision_parse raw of Inl _ \<Rightarrow> Allow | Inr d \<Rightarrow> d))"

definition examples_of ::
  "(rstring \<Rightarrow> rstring list option) \<Rightarrow> star_value list option \<Rightarrow> command set" where
  "examples_of split o_vs = (case optional_examples split o_vs of Inl _ \<Rightarrow> {} | Inr exs \<Rightarrow> set exs)"

lemma builtin_Ok:
  assumes "prefix_rule_builtin split join c b = Ok b'"
  obtains tokens j where
    "tokens \<noteq> []" "parse_pattern (call_pattern c) = Ok tokens"
    "b' = fold (\<lambda>r b. builder_add_rule b r) (rules_of_pattern tokens (declared_decision c) j) b"
    "\<forall>ex \<in> examples_of split (call_match c).
       \<exists>r \<in> set (rules_of_pattern tokens (declared_decision c) j). rule_matches r ex \<noteq> None"
    "\<forall>ex \<in> examples_of split (call_not_match c).
       \<forall>r \<in> set (rules_of_pattern tokens (declared_decision c) j). rule_matches r ex = None"
proof -
  obtain d j tokens pos neg where
    d: "(case call_decision c of Some raw \<Rightarrow> decision_parse raw | None \<Rightarrow> Ok Allow) = Ok d"
    and j: "parse_justification (call_justification c) = Ok j"
    and tokens: "parse_pattern (call_pattern c) = Ok tokens" "tokens \<noteq> []"
    and exs: "optional_examples split (call_match c) = Ok pos"
      "optional_examples split (call_not_match c) = Ok neg"
    and ok: "validate_not_match_examples join (rules_of_pattern tokens d j) neg = Ok ()"
      "validate_match_examples join (rules_of_pattern tokens d j) pos = Ok ()"
      "b' = fold (\<lambda>r b. builder_add_rule b r) (rules_of_pattern tokens d j) b"
    using assms
    by (auto simp: prefix_rule_builtin_def and_then_eq_Inr Let_def split: if_splits)
  have "declared_decision c = d"
    using d by (auto simp: declared_decision_def split: option.splits)
  with tokens exs ok show thesis
    by (intro that [of tokens j])
      (simp_all add: examples_of_def validate_match_Ok validate_not_match_Ok)
qed

lemma rules_of_pattern_decision: "r \<in> set (rules_of_pattern ts d j) \<Longrightarrow> rule_decision r = d"
  by (auto simp: rules_of_pattern_def)

lemma run_calls_grows:
  assumes "run_calls split join cs b = (b', r)"
  shows "policy_rules (builder_build b) \<subseteq> policy_rules (builder_build b')"
  using assms
proof (induction cs arbitrary: b)
  case (Cons c cs)
  show ?case
  proof (cases "prefix_rule_builtin split join c b")
    case (Inr b1)
    then have "policy_rules (builder_build b) \<subseteq> policy_rules (builder_build b1)"
      by (rule builtin_Ok) (auto simp: fold_add_rules)
    with Cons.IH [of b1] Cons.prems Inr show ?thesis by auto
  qed (use Cons.prems in simp)
qed simp

lemma run_calls_wf:
  "run_calls split join cs b = (b', r) \<Longrightarrow> policy_wf (builder_build b) \<Longrightarrow> policy_wf (builder_build b')"
proof (induction cs arbitrary: b)
  case (Cons c cs)
  show ?case
  proof (cases "prefix_rule_builtin split join c b")
    case (Inr b1)
    then have "policy_wf (builder_build b1)"
      by (rule builtin_Ok) (auto simp: fold_add_wf Cons.prems(2))
    with Cons Inr show ?thesis by auto
  qed (use Cons.prems in simp)
qed simp

lemma run_calls_examples:
  assumes "run_calls split join cs b = (b', Ok ())" "c \<in> set cs" "ex \<in> examples_of split (call_match c)"
  shows "\<exists>r \<in> policy_rules (builder_build b'). rule_decision r = declared_decision c \<and> rule_matches r ex \<noteq> None"
  using assms
proof (induction cs arbitrary: b)
  case (Cons c' cs)
  obtain b1 where b1: "prefix_rule_builtin split join c' b = Ok b1" "run_calls split join cs b1 = (b', Ok ())"
    using Cons.prems(1) by (auto split: sum.splits)
  show ?case
  proof (cases "c = c'")
    case True
    from b1(1) obtain r where "r \<in> policy_rules (builder_build b1)"
      "rule_decision r = declared_decision c" "rule_matches r ex \<noteq> None"
      using Cons.prems(3) unfolding True
      by (elim builtin_Ok) (simp add: fold_add_rules, metis rules_of_pattern_decision option.discI)
    then show ?thesis using run_calls_grows [OF b1(2)] by blast
  qed (use Cons b1 in auto)
qed simp

text \<open>
  When a policy file is accepted, the resulting policy is well-formed, and every example that a
  \<^verbatim>\<open>prefix_rule\<close> of the file lists under \<^verbatim>\<open>match\<close> is judged, by the policy built from this and any
  earlier file, at least as strictly as that rule declares, whatever the heuristics say.
\<close>

lemma accepted_policy_honours_examples:
  assumes "policy_wf (builder_build b)"
    and "run identifier contents = Ok (calls, None)"
    and "parse_policy run split join identifier contents b = (b', Ok ())"
  shows "policy_wf (builder_build b') \<and>
    (\<forall>c \<in> set calls. \<forall>ex \<in> examples_of split (call_match c). \<forall>h.
       \<exists>ev. check (builder_build b') ex h = Some ev \<and> declared_decision c \<le> eval_decision ev)"
proof -
  have run: "run_calls split join calls b = (b', Ok ())"
    using assms(2,3) by (auto simp: parse_policy_def split: prod.splits sum.splits)
  then have wf: "policy_wf (builder_build b')"
    using assms(1) by (rule run_calls_wf)
  have "\<exists>ev. check (builder_build b') ex h = Some ev \<and> declared_decision c \<le> eval_decision ev"
    if "c \<in> set calls" "ex \<in> examples_of split (call_match c)" for c ex h
  proof -
    from run_calls_examples [OF run that] obtain r m where
      r: "r \<in> policy_rules (builder_build b')" "rule_decision r = declared_decision c"
        "rule_matches r ex = Some m" by auto
    then have "match_decision m = declared_decision c" by (auto simp: rule_matches_Some)
    with matching_rule_bounds_verdict [OF wf r(1) r(3), of h] show ?thesis
      by (simp add: check_verdict)
  qed
  with wf show ?thesis by blast
qed

definition demo_call :: prefix_rule_call where
  "demo_call =
     \<lparr>call_pattern = [ListV [StrV (lit ''rm''), StrV (lit ''mv'')], StrV (lit ''-f'')],
      call_decision = Some (lit ''forbidden''),
      call_match = Some [ListV [StrV (lit ''mv''), StrV (lit ''-f''), StrV (lit ''x'')]],
      call_not_match = Some [ListV [StrV (lit ''mv''), StrV (lit ''x'')]],
      call_justification = None\<rparr>"

end
