(* ===== verification/Policy_Amend.thy ===== *)
theory Policy_Amend
  imports Exec_Policy File_System
begin

text \<open>
  Amending policy files (\<^verbatim>\<open>crates/exec-policy/src/amend.rs\<close>): appending and removing one canonical
  rule line under a file lock.

  The operating system is the record \<open>policy_file_api\<close>, one field per call the source makes;
  \<open>to_json\<close> stands for \<^verbatim>\<open>serde_json::to_string\<close> on a string.  The locale \<open>policy_files\<close> states what
  the calls do to the text of the policy file while the lock is held.
\<close>

section \<open>The model\<close>

datatype create_dir_error = AlreadyExists | OtherIo io_error

record 'w policy_file_api =
  pf_exists :: "'w \<Rightarrow> rstring \<Rightarrow> bool"
  pf_create_dir :: "'w \<Rightarrow> rstring \<Rightarrow> 'w \<times> (create_dir_error, unit) result"
  pf_open_append :: "'w \<Rightarrow> rstring \<Rightarrow> 'w \<times> (io_error, unit) result"
  pf_open_rw :: "'w \<Rightarrow> rstring \<Rightarrow> 'w \<times> (io_error, unit) result"
  pf_lock :: "'w \<Rightarrow> rstring \<Rightarrow> 'w \<times> (io_error, unit) result"
  pf_seek_start :: "'w \<Rightarrow> rstring \<Rightarrow> 'w \<times> (io_error, unit) result"
  pf_read :: "'w \<Rightarrow> rstring \<Rightarrow> (io_error, rstring) result"
  pf_append :: "'w \<Rightarrow> rstring \<Rightarrow> rstring \<Rightarrow> 'w \<times> (io_error, unit) result"
  pf_set_len_0 :: "'w \<Rightarrow> rstring \<Rightarrow> 'w \<times> (io_error, unit) result"
  pf_write_at_start :: "'w \<Rightarrow> rstring \<Rightarrow> rstring \<Rightarrow> 'w \<times> (io_error, unit) result"

datatype amend_error =
    EmptyPrefix
  | MissingParent rstring
  | CreatePolicyDir rstring io_error
  | SerializePrefix rstring
  | OpenPolicyFile rstring io_error
  | WritePolicyFile rstring io_error
  | LockPolicyFile rstring io_error
  | SeekPolicyFile rstring io_error
  | ReadPolicyFile rstring io_error
  | PolicyMetadata rstring io_error

text \<open>\<^verbatim>\<open>call.map_err(f)?\<close> followed by the rest of the function.\<close>

definition try_io ::
  "'w \<times> (io_error, unit) result \<Rightarrow> (io_error \<Rightarrow> amend_error) \<Rightarrow> ('w \<Rightarrow> 'w \<times> (amend_error, 'a) result) \<Rightarrow>
     'w \<times> (amend_error, 'a) result" where
  "try_io call err k = (case call of (w, Inl e) \<Rightarrow> (w, Err (err e)) | (w, Inr _) \<Rightarrow> k w)"

fun decision_name :: "decision \<Rightarrow> rstring" where
  "decision_name Allow = lit ''allow''"
| "decision_name Prompt = lit ''prompt''"
| "decision_name Forbidden = lit ''forbidden''"

definition format_prefix_rule ::
  "(rstring \<Rightarrow> (rstring, rstring) result) \<Rightarrow> rstring list \<Rightarrow> decision \<Rightarrow> (amend_error, rstring) result" where
  "format_prefix_rule to_json pre d =
     (if pre = [] then Err EmptyPrefix
      else
        (case collect_results to_json pre of
           Inl e \<Rightarrow> Err (SerializePrefix e)
         | Inr tokens \<Rightarrow>
             Ok (lit ''prefix_rule(pattern=['' @ join_str (lit '', '') tokens @ lit ''], decision='' @
               [34] @ decision_name d @ [34] @ lit '')'')))"

definition append_locked_line ::
  "'w policy_file_api \<Rightarrow> 'w \<Rightarrow> rstring \<Rightarrow> rstring \<Rightarrow> 'w \<times> (amend_error, unit) result" where
  "append_locked_line api w path line =
     try_io (pf_open_append api w path) (OpenPolicyFile path) (\<lambda>w.
     try_io (pf_lock api w path) (LockPolicyFile path) (\<lambda>w.
     try_io (pf_seek_start api w path) (SeekPolicyFile path) (\<lambda>w.
     (case pf_read api w path of
        Inl e \<Rightarrow> (w, Err (ReadPolicyFile path e))
      | Inr contents \<Rightarrow>
          (if list_ex (\<lambda>existing. existing = line) (str_lines contents) then (w, Ok ())
           else if contents \<noteq> [] \<and> \<not> ends_with [nl_char] contents
           then
             try_io (pf_append api w path [nl_char]) (WritePolicyFile path) (\<lambda>w.
             try_io (pf_append api w path (line @ [nl_char])) (WritePolicyFile path) (\<lambda>w. (w, Ok ())))
           else
             try_io (pf_append api w path (line @ [nl_char])) (WritePolicyFile path) (\<lambda>w. (w, Ok ())))))))"

definition blocking_append_prefix_rule ::
  "(rstring \<Rightarrow> (rstring, rstring) result) \<Rightarrow> 'w policy_file_api \<Rightarrow> 'w \<Rightarrow> rstring \<Rightarrow> rstring list \<Rightarrow>
     decision \<Rightarrow> 'w \<times> (amend_error, unit) result" where
  "blocking_append_prefix_rule to_json api w path pre d =
     (case format_prefix_rule to_json pre d of
        Inl e \<Rightarrow> (w, Err e)
      | Inr rule \<Rightarrow>
          (case path_parent path of
             None \<Rightarrow> (w, Err (MissingParent path))
           | Some dir \<Rightarrow>
               (case pf_create_dir api w dir of
                  (w, Inl (OtherIo e)) \<Rightarrow> (w, Err (CreatePolicyDir dir e))
                | (w, Inl AlreadyExists) \<Rightarrow> append_locked_line api w path rule
                | (w, Inr _) \<Rightarrow> append_locked_line api w path rule)))"

definition blocking_append_allow_prefix_rule ::
  "(rstring \<Rightarrow> (rstring, rstring) result) \<Rightarrow> 'w policy_file_api \<Rightarrow> 'w \<Rightarrow> rstring \<Rightarrow> rstring list \<Rightarrow>
     'w \<times> (amend_error, unit) result" where
  "blocking_append_allow_prefix_rule to_json api w path pre =
     blocking_append_prefix_rule to_json api w path pre Allow"

definition blocking_remove_prefix_rule ::
  "(rstring \<Rightarrow> (rstring, rstring) result) \<Rightarrow> 'w policy_file_api \<Rightarrow> 'w \<Rightarrow> rstring \<Rightarrow> rstring list \<Rightarrow>
     decision \<Rightarrow> 'w \<times> (amend_error, bool) result" where
  "blocking_remove_prefix_rule to_json api w path pre d =
     (case format_prefix_rule to_json pre d of
        Inl e \<Rightarrow> (w, Err e)
      | Inr rule \<Rightarrow>
          (if \<not> pf_exists api w path then (w, Ok False)
           else
             try_io (pf_open_rw api w path) (OpenPolicyFile path) (\<lambda>w.
             try_io (pf_lock api w path) (LockPolicyFile path) (\<lambda>w.
             (case pf_read api w path of
                Inl e \<Rightarrow> (w, Err (ReadPolicyFile path e))
              | Inr contents \<Rightarrow>
                  (let original_count = length (str_lines contents);
                       retained = filter (\<lambda>line. line \<noteq> rule) (str_lines contents)
                   in if length retained = original_count then (w, Ok False)
                      else
                        (let rewritten =
                           (if retained = [] then [] else join_str [nl_char] retained @ [nl_char]) in
                         try_io (pf_set_len_0 api w path) (WritePolicyFile path) (\<lambda>w.
                         try_io (pf_seek_start api w path) (WritePolicyFile path) (\<lambda>w.
                         try_io (pf_write_at_start api w path rewritten) (WritePolicyFile path)
                           (\<lambda>w. (w, Ok True)))))))))))"

section \<open>Lines of a policy file\<close>

lemma str_lines_nl: "str_lines (a @ [nl_char]) = map strip_cr (split_on nl_char a)"
  using split_on_append [of nl_char a "[]"] by (simp add: str_lines_def)

lemma str_lines_cr_free:
  assumes "cr_char \<notin> set a"
  shows "str_lines (a @ [nl_char]) = split_on nl_char a"
    and "a \<noteq> [] \<Longrightarrow> \<not> ends_with [nl_char] a \<Longrightarrow> str_lines a = split_on nl_char a"
proof -
  have id: "map strip_cr ws = ws" if "set ws \<subseteq> set (split_on nl_char a)" for ws
    using that assms split_on_subset [of _ nl_char a] by (auto intro!: map_idI strip_cr_id)
  then show "str_lines (a @ [nl_char]) = split_on nl_char a"
    by (simp add: str_lines_nl)
  assume "a \<noteq> []" "\<not> ends_with [nl_char] a"
  moreover have "last (split_on nl_char a) \<noteq> []"
  proof
    assume "last (split_on nl_char a) = []"
    then have "split_on nl_char a = butlast (split_on nl_char a) @ [[]]"
      by (metis append_butlast_last_id split_by_neq_Nil)
    then have "a = join_str [nl_char] (butlast (split_on nl_char a) @ [[]])"
      by (metis join_split)
    moreover have "join_str [nl_char] (ws @ [[]]) = [] \<or> (\<exists>b. join_str [nl_char] (ws @ [[]]) = b @ [nl_char])" for ws
      by (induction ws) (auto simp: join_str_Cons)
    ultimately show False
      using \<open>a \<noteq> []\<close> \<open>\<not> ends_with [nl_char] a\<close> by (metis ends_with_iff suffixI)
  qed
  ultimately show "str_lines a = split_on nl_char a"
    using id [of "butlast (split_on nl_char a)"]
    by (simp add: str_lines_def Let_def in_set_butlastD subsetI)
qed

lemma str_lines_snoc:
  assumes "cr_char \<notin> set c" "nl_char \<notin> set line" "cr_char \<notin> set line"
  shows "str_lines ((if c \<noteq> [] \<and> \<not> ends_with [nl_char] c then c @ [nl_char] else c) @ line @ [nl_char]) =
    str_lines c @ [line]"
proof -
  have one: "str_lines (line @ [nl_char]) = [line]"
    using str_lines_cr_free(1) [OF assms(3)] by (simp add: split_on_no_sep assms(2))
  have nil: "str_lines [] = []"
    by (simp add: str_lines_def)
  have two: "str_lines (a @ [nl_char] @ line @ [nl_char]) = split_on nl_char a @ [line]"
    if "cr_char \<notin> set a" for a
    using str_lines_cr_free(1) [of "a @ nl_char # line"] that assms
    by (simp add: split_on_append split_on_no_sep)
  show ?thesis
  proof (cases "c = []")
    case True
    then show ?thesis by (simp add: one nil)
  next
    case False
    show ?thesis
    proof (cases "ends_with [nl_char] c")
      case True
      then obtain a where "c = a @ [nl_char]" by (auto simp: ends_with_iff suffix_def)
      with two [of a] assms str_lines_cr_free(1) [of a] True show ?thesis by simp
    next
      case nl: False
      with False show ?thesis
        using two [OF assms(1)] str_lines_cr_free(2) [OF assms(1) False nl] by simp
    qed
  qed
qed

lemma str_lines_rewritten:
  assumes "\<forall>l \<in> set ls. nl_char \<notin> set l \<and> cr_char \<notin> set l"
  shows "str_lines (if ls = [] then [] else join_str [nl_char] ls @ [nl_char]) = ls"
proof (cases "ls = []")
  case False
  have "map strip_cr ls = ls"
    using assms by (auto intro!: map_idI strip_cr_id)
  with False assms show ?thesis
    by (simp add: str_lines_nl split_join)
qed (simp add: str_lines_def)

lemma str_lines_parts: "cr_char \<notin> set c \<Longrightarrow> l \<in> set (str_lines c) \<Longrightarrow> nl_char \<notin> set l \<and> cr_char \<notin> set l"
proof -
  assume c: "cr_char \<notin> set c" and l: "l \<in> set (str_lines c)"
  have "l \<in> set (split_on nl_char c)"
  proof -
    have "strip_cr w = w" if "w \<in> set (split_on nl_char c)" for w
      using split_on_subset [OF that] c by (intro strip_cr_id) auto
    with l show ?thesis
      by (auto simp: str_lines_def Let_def dest: in_set_butlastD split: if_splits)
  qed
  with c show ?thesis using split_on_parts split_on_subset by blast
qed

section \<open>The file under its lock\<close>

locale policy_files =
  fixes api :: "'w policy_file_api"
    and contents_of :: "'w \<Rightarrow> rstring \<Rightarrow> rstring"
  assumes create_dir_keeps: "pf_create_dir api w d = (w', r) \<Longrightarrow> contents_of w' p = contents_of w p"
    and open_append_keeps: "pf_open_append api w p = (w', Inr ()) \<Longrightarrow> contents_of w' p = contents_of w p"
    and open_rw_keeps: "pf_open_rw api w p = (w', Inr ()) \<Longrightarrow> contents_of w' p = contents_of w p"
    and lock_keeps: "pf_lock api w p = (w', Inr ()) \<Longrightarrow> contents_of w' p = contents_of w p"
    and seek_keeps: "pf_seek_start api w p = (w', Inr ()) \<Longrightarrow> contents_of w' p = contents_of w p"
    and read_contents: "pf_read api w p = Inr c \<Longrightarrow> c = contents_of w p"
    and append_contents: "pf_append api w p s = (w', Inr ()) \<Longrightarrow> contents_of w' p = contents_of w p @ s"
    and set_len_contents: "pf_set_len_0 api w p = (w', Inr ()) \<Longrightarrow> contents_of w' p = []"
    and write_contents:
      "pf_write_at_start api w p s = (w', Inr ()) \<Longrightarrow> contents_of w p = [] \<Longrightarrow> contents_of w' p = s"
    and missing_empty: "\<not> pf_exists api w p \<Longrightarrow> contents_of w p = []"

lemma try_io_Ok:
  "try_io call err k = (w', Inr r) \<longleftrightarrow> (\<exists>w1. call = (w1, Inr ()) \<and> k w1 = (w', Inr r))"
  by (auto simp: try_io_def split: prod.splits sum.splits)

lemma format_prefix_rule_line:
  assumes "format_prefix_rule to_json pre d = Ok rule"
    and "\<And>t j. t \<in> set pre \<Longrightarrow> to_json t = Ok j \<Longrightarrow> nl_char \<notin> set j \<and> cr_char \<notin> set j"
  shows "nl_char \<notin> set rule \<and> cr_char \<notin> set rule"
proof -
  obtain tokens where tokens: "collect_results to_json pre = Ok tokens"
    and rule: "rule = lit ''prefix_rule(pattern=['' @ join_str (lit '', '') tokens @ lit ''], decision='' @
               [34] @ decision_name d @ [34] @ lit '')''"
    using assms(1) by (auto simp: format_prefix_rule_def split: if_splits sum.splits)
  have clean: "\<forall>j \<in> set tokens. nl_char \<notin> set j \<and> cr_char \<notin> set j"
  proof
    fix j assume "j \<in> set tokens"
    then obtain i where i: "i < length tokens" "j = tokens ! i" by (auto simp: in_set_conv_nth)
    moreover have "list_all2 (\<lambda>t j. to_json t = Ok j) pre tokens"
      using tokens by (simp add: collect_results_Inr)
    ultimately have "pre ! i \<in> set pre" "to_json (pre ! i) = Ok j"
      by (auto simp: list_all2_conv_all_nth)
    then show "nl_char \<notin> set j \<and> cr_char \<notin> set j" by (rule assms(2))
  qed
  have "set (join_str sep ws) \<subseteq> set sep \<union> (\<Union>w \<in> set ws. set w)" for sep :: rstring and ws
    by (induction sep ws rule: join_str.induct) auto
  from this [of "lit '', ''" tokens] clean
  have "nl_char \<notin> set (join_str (lit '', '') tokens) \<and> cr_char \<notin> set (join_str (lit '', '') tokens)"
    by auto
  then show ?thesis
    unfolding rule by (cases d) simp_all
qed

context policy_files
begin

lemma append_locked_line_lines:
  assumes "append_locked_line api w p line = (w', Ok ())"
    and "cr_char \<notin> set (contents_of w p)" "nl_char \<notin> set line" "cr_char \<notin> set line"
  shows "str_lines (contents_of w' p) =
    (if line \<in> set (str_lines (contents_of w p)) then str_lines (contents_of w p)
     else str_lines (contents_of w p) @ [line])"
proof -
  let ?c = "contents_of w p"
  obtain w1 w2 w3 c where steps: "pf_open_append api w p = (w1, Inr ())" "pf_lock api w1 p = (w2, Inr ())"
      "pf_seek_start api w2 p = (w3, Inr ())" "pf_read api w3 p = Inr c"
    and fin: "(if list_ex (\<lambda>existing. existing = line) (str_lines c) then (w3, Ok ())
       else if c \<noteq> [] \<and> \<not> ends_with [nl_char] c
       then try_io (pf_append api w3 p [nl_char]) (WritePolicyFile p) (\<lambda>w.
            try_io (pf_append api w p (line @ [nl_char])) (WritePolicyFile p) (\<lambda>w. (w, Ok ())))
       else try_io (pf_append api w3 p (line @ [nl_char])) (WritePolicyFile p) (\<lambda>w. (w, Ok ()))) =
       (w', Ok ())"
    using assms(1) unfolding append_locked_line_def try_io_Ok by (elim exE conjE) (simp split: sum.splits)
  have w3: "contents_of w3 p = ?c"
    using open_append_keeps [OF steps(1)] lock_keeps [OF steps(2)] seek_keeps [OF steps(3)] by simp
  with read_contents [OF steps(4)] have c: "c = ?c" by simp
  have "contents_of w' p =
    (if line \<in> set (str_lines ?c) then ?c
     else (if ?c \<noteq> [] \<and> \<not> ends_with [nl_char] ?c then ?c @ [nl_char] else ?c) @ line @ [nl_char])"
  proof (cases "line \<in> set (str_lines ?c)")
    case True
    with fin w3 show ?thesis by (simp add: c list_ex_iff)
  next
    case False
    then show ?thesis
      using fin w3 append_contents
      by (cases "?c \<noteq> [] \<and> \<not> ends_with [nl_char] ?c") (force simp: c list_ex_iff try_io_Ok)+
  qed
  then show ?thesis
    using str_lines_snoc [OF assms(2-4)] by (simp split: if_splits)
qed

lemma append_rule_lines:
  assumes "blocking_append_prefix_rule to_json api w p pre d = (w', Ok ())"
    and "format_prefix_rule to_json pre d = Ok rule"
    and "cr_char \<notin> set (contents_of w p)" "nl_char \<notin> set rule" "cr_char \<notin> set rule"
  shows "str_lines (contents_of w' p) =
    (if rule \<in> set (str_lines (contents_of w p)) then str_lines (contents_of w p)
     else str_lines (contents_of w p) @ [rule])"
proof -
  obtain w1 where keep: "contents_of w1 p = contents_of w p"
    and run: "append_locked_line api w1 p rule = (w', Ok ())"
    using assms(1,2)
    by (auto simp: blocking_append_prefix_rule_def split: option.splits prod.splits sum.splits
        create_dir_error.splits dest!: create_dir_keeps)
  from append_locked_line_lines [OF run] assms(3-5) show ?thesis by (simp add: keep)
qed

lemma remove_rule_lines:
  assumes "blocking_remove_prefix_rule to_json api w p pre d = (w', Ok changed)"
    and "format_prefix_rule to_json pre d = Ok rule" "cr_char \<notin> set (contents_of w p)"
  shows "str_lines (contents_of w' p) = filter (\<lambda>l. l \<noteq> rule) (str_lines (contents_of w p)) \<and>
    (changed \<longleftrightarrow> rule \<in> set (str_lines (contents_of w p)))"
proof -
  let ?ls = "str_lines (contents_of w p)"
  let ?kept = "filter (\<lambda>l. l \<noteq> rule) ?ls"
  have same: "length ?kept = length ?ls \<longleftrightarrow> rule \<notin> set ?ls"
    by (metis (mono_tags, lifting) filter_id_conv length_filter_less order_less_irrefl)
  have kept: "str_lines (if ?kept = [] then [] else join_str [nl_char] ?kept @ [nl_char]) = ?kept"
    by (rule str_lines_rewritten) (use str_lines_parts [OF assms(3)] in auto)
  consider "\<not> pf_exists api w p" "w' = w" "\<not> changed"
    | "rule \<notin> set ?ls" "contents_of w' p = contents_of w p" "\<not> changed"
    | "rule \<in> set ?ls" "changed"
        "contents_of w' p = (if ?kept = [] then [] else join_str [nl_char] ?kept @ [nl_char])"
  proof (cases "pf_exists api w p")
    case True
    obtain w1 w2 c where steps: "pf_open_rw api w p = (w1, Inr ())" "pf_lock api w1 p = (w2, Inr ())"
        "pf_read api w2 p = Inr c"
      and fin: "(let original_count = length (str_lines c);
               retained = filter (\<lambda>line. line \<noteq> rule) (str_lines c)
           in if length retained = original_count then (w2, Ok False)
              else
                (let rewritten =
                   (if retained = [] then [] else join_str [nl_char] retained @ [nl_char]) in
                 try_io (pf_set_len_0 api w2 p) (WritePolicyFile p) (\<lambda>w.
                 try_io (pf_seek_start api w p) (WritePolicyFile p) (\<lambda>w.
                 try_io (pf_write_at_start api w p rewritten) (WritePolicyFile p)
                   (\<lambda>w. (w, Ok True)))))) = (w', Ok changed)"
      using assms(1) True unfolding blocking_remove_prefix_rule_def assms(2)
      by (simp add: try_io_Ok) (elim exE conjE, simp split: sum.splits)
    have w2: "contents_of w2 p = contents_of w p"
      using open_rw_keeps [OF steps(1)] lock_keeps [OF steps(2)] by simp
    with read_contents [OF steps(3)] have c: "c = contents_of w p" by simp
    show thesis
    proof (cases "rule \<in> set ?ls")
      case False
      with fin same w2 have "contents_of w' p = contents_of w p" "\<not> changed"
        by (simp_all add: c Let_def)
      with False show thesis by (rule that(2))
    next
      case True
      then obtain w3 w4 where wr: "pf_set_len_0 api w2 p = (w3, Inr ())" "pf_seek_start api w3 p = (w4, Inr ())"
        "pf_write_at_start api w4 p (if ?kept = [] then [] else join_str [nl_char] ?kept @ [nl_char]) = (w', Inr ())"
        "changed"
        using fin same by (auto simp: c Let_def try_io_Ok)
      have "contents_of w4 p = []"
        using set_len_contents [OF wr(1)] seek_keeps [OF wr(2)] by simp
      from True wr(4) write_contents [OF wr(3) this] show thesis by (rule that(3))
    qed
  next
    case False
    with assms(1,2) have "w' = w" "\<not> changed"
      by (simp_all add: blocking_remove_prefix_rule_def)
    with False show thesis by (rule that(1))
  qed
  then show ?thesis
  proof cases
    case 1
    then show ?thesis using missing_empty [of w p] by (simp add: str_lines_def)
  next
    case 2
    then have "?kept = ?ls" by (auto simp: filter_id_conv)
    with 2 show ?thesis by simp
  next
    case 3
    then show ?thesis by (simp only: kept)
  qed
qed

end

section \<open>An in-memory policy directory\<close>

definition mem_pf :: "(rstring \<Rightarrow> rstring option) policy_file_api" where
  "mem_pf =
     \<lparr>pf_exists = (\<lambda>w p. w p \<noteq> None),
      pf_create_dir = (\<lambda>w p. (w, Err AlreadyExists)),
      pf_open_append = (\<lambda>w p. (case w p of None \<Rightarrow> w(p \<mapsto> []) | Some _ \<Rightarrow> w, Ok ())),
      pf_open_rw = (\<lambda>w p. (w, case w p of None \<Rightarrow> Err (lit ''No such file'') | Some _ \<Rightarrow> Ok ())),
      pf_lock = (\<lambda>w p. (w, Ok ())),
      pf_seek_start = (\<lambda>w p. (w, Ok ())),
      pf_read = (\<lambda>w p. case w p of None \<Rightarrow> Err (lit ''No such file'') | Some c \<Rightarrow> Ok c),
      pf_append = (\<lambda>w p s. (w(p \<mapsto> (case w p of None \<Rightarrow> [] | Some c \<Rightarrow> c) @ s), Ok ())),
      pf_set_len_0 = (\<lambda>w p. (w(p \<mapsto> []), Ok ())),
      pf_write_at_start = (\<lambda>w p s.
        (w(p \<mapsto> s @ drop (length s) (case w p of None \<Rightarrow> [] | Some c \<Rightarrow> c)), Ok ()))\<rparr>"

definition mem_contents :: "(rstring \<Rightarrow> rstring option) \<Rightarrow> rstring \<Rightarrow> rstring" where
  "mem_contents w p = (case w p of None \<Rightarrow> [] | Some c \<Rightarrow> c)"

interpretation mpf: policy_files mem_pf mem_contents
  by unfold_locales (auto simp: mem_pf_def mem_contents_def split: option.splits)

section \<open>Properties\<close>


definition demo_json :: "rstring \<Rightarrow> (rstring, rstring) result" where
  "demo_json s = Ok ([34] @ filter (\<lambda>c. 32 \<le> c) s @ [34])"


end
