(* ===== verification/Shell_Commands.thy ===== *)
theory Shell_Commands
  imports Exec_Policy File_System "HOL-Library.Multiset"
begin

text \<open>
  Shell invocations (\<^verbatim>\<open>crates/core/src/commands/bash.rs\<close> and \<^verbatim>\<open>detect_shell_type\<close> of \<^verbatim>\<open>shell.rs\<close>):
  recognising \<^verbatim>\<open>bash -lc "script"\<close> and splitting a script into plain word-only commands.

  The grammar is a third-party parser.  A parse tree is seen through the questions the source
  asks of a node: its kind, whether it is named, its start byte, its text and its children; the
  parameter \<open>parse\<close> of the definitions stands for \<^verbatim>\<open>tree_sitter\<close>'s parser with the bash grammar.
\<close>

section \<open>File names and shells\<close>

text \<open>\<^verbatim>\<open>Path::file_name\<close> and \<^verbatim>\<open>Path::file_stem\<close>.\<close>

definition path_file_name :: "rstring \<Rightarrow> rstring option" where
  "path_file_name p =
     (let cs = path_components p in
      if cs = [] then None else (case last cs of Normal w \<Rightarrow> Some w | _ \<Rightarrow> None))"

definition stem_of_name :: "rstring \<Rightarrow> rstring" where
  "stem_of_name w =
     (case rposition (\<lambda>c. c = 46) w of
        None \<Rightarrow> w
      | Some 0 \<Rightarrow> w
      | Some i \<Rightarrow> take i w)"

definition path_file_stem :: "rstring \<Rightarrow> rstring option" where
  "path_file_stem p = map_option stem_of_name (path_file_name p)"

lemma components_subset:
  "set (if a then RootDir # filter P cs else (case cs of [] \<Rightarrow> [] | c # cs' \<Rightarrow> c # filter P cs')) \<subseteq>
     insert RootDir (set cs)"
  by (cases cs) auto

lemma file_name_part: "path_file_name p = Some w \<Longrightarrow> w \<in> set (split_on 47 p) \<and> w \<noteq> []"
proof -
  assume "path_file_name p = Some w"
  then have "Normal w \<in> set (path_components p)"
    by (auto simp: path_file_name_def Let_def split: if_splits path_component.splits) (metis last_in_set)
  then have "Normal w \<in> set (map component_of (filter (\<lambda>w. w \<noteq> []) (split_on 47 p)))"
    unfolding path_components_def Let_def using components_subset by blast
  then show ?thesis
    by (auto simp: component_of_def split: if_splits)
qed

lemma stem_length: "length (stem_of_name w) \<le> length w"
  by (auto simp: stem_of_name_def split: option.splits nat.splits)

lemma stem_take: "\<exists>n. stem_of_name w = take n w"
  by (auto simp: stem_of_name_def split: option.splits nat.splits) (metis take_all order_refl)+

lemma stem_shorter:
  assumes "path_file_stem p = Some n" "\<not> same_path n p"
  shows "length n < length p"
proof -
  obtain w where w: "path_file_name p = Some w" "n = stem_of_name w"
    using assms(1) by (auto simp: path_file_stem_def)
  have len: "length w + length (filter (\<lambda>x. x = 47) p) \<le> length p"
    using file_name_part [OF w(1)] split_on_length by blast
  have "n \<noteq> p" using assms(2) by auto
  show ?thesis
  proof (cases "47 \<in> set p")
    case True
    then have "0 < length (filter (\<lambda>x. x = 47) p)" by (simp add: filter_empty_conv)
    with len stem_length [of w] show ?thesis unfolding w(2) by linarith
  next
    case False
    then have "w = p" using file_name_part [OF w(1)] by (simp add: split_on_no_sep)
    moreover obtain k where "n = take k w" using stem_take [of w] w(2) by blast
    ultimately show ?thesis
      using \<open>n \<noteq> p\<close> by (cases "k < length p") auto
  qed
qed

datatype shell_type = Zsh | Bash | PowerShell | Sh | Cmd

function detect_shell_type :: "rstring \<Rightarrow> shell_type option" where
  "detect_shell_type p =
     (if p = lit ''zsh'' then Some Zsh
      else if p = lit ''sh'' then Some Sh
      else if p = lit ''cmd'' then Some Cmd
      else if p = lit ''bash'' then Some Bash
      else if p = lit ''pwsh'' then Some PowerShell
      else if p = lit ''powershell'' then Some PowerShell
      else
        (case path_file_stem p of
           None \<Rightarrow> None
         | Some n \<Rightarrow> (if \<not> same_path n p then detect_shell_type n else None)))"
  by auto
termination
  by (relation "measure length") (auto dest: stem_shorter)

declare detect_shell_type.simps [simp del]

section \<open>Parse trees\<close>

datatype node =
  Node (node_kind: rstring) (is_named: bool) (start_byte: nat) (utf8_text: "rstring option")
    (node_children: "node list")

record syntax_tree =
  has_error :: bool
  root_node :: node

abbreviation named_children :: "node \<Rightarrow> node list" where
  "named_children n \<equiv> filter is_named (node_children n)"

definition ALLOWED_KINDS :: "rstring list" where
  "ALLOWED_KINDS =
     map lit [''program'', ''list'', ''pipeline'', ''command'', ''command_name'', ''word'', ''string'',
       ''string_content'', ''raw_string'', ''number'', ''concatenation'']"

definition ALLOWED_PUNCT_TOKENS :: "rstring list" where
  "ALLOWED_PUNCT_TOKENS = [lit ''&&'', lit ''||'', lit '';'', lit ''|'', [34], [39]]"

text \<open>The test of one popped node.\<close>

definition node_allowed :: "node \<Rightarrow> bool" where
  "node_allowed n =
     (let kind = node_kind n in
      if is_named n then kind \<in> set ALLOWED_KINDS
      else if list_ex (\<lambda>c. c \<in> set (lit ''&;|'')) kind \<and> kind \<notin> set ALLOWED_PUNCT_TOKENS then False
      else if \<not> (kind \<in> set ALLOWED_PUNCT_TOKENS \<or> trim kind = []) then False
      else True)"

text \<open>
  The walk over the tree.  The stack is kept with its top first: the source pushes the children
  in order and pops the last one.
\<close>

function walk_tree :: "node list \<Rightarrow> node list \<Rightarrow> node list option" where
  "walk_tree [] command_nodes = Some command_nodes"
| "walk_tree (n # stack) command_nodes =
     (if \<not> node_allowed n then None
      else walk_tree (rev (node_children n) @ stack)
             (if is_named n \<and> node_kind n = lit ''command'' then command_nodes @ [n] else command_nodes))"
  by pat_completeness auto
termination
proof (relation "measure (\<lambda>(st, _). sum_list (map size st))", goal_cases)
  case (2 n stack command_nodes)
  show ?case
    by (cases n) (simp add: size_list_conv_sum_list rev_map [symmetric] sum_list_rev)
qed simp

definition parse_double_quoted_string :: "node \<Rightarrow> rstring option" where
  "parse_double_quoted_string n =
     (if node_kind n \<noteq> lit ''string'' then None
      else if list_ex (\<lambda>part. node_kind part \<noteq> lit ''string_content'') (named_children n) then None
      else
        (case utf8_text n of
           None \<Rightarrow> None
         | Some raw \<Rightarrow> Option.bind (strip_prefix [34] raw) (strip_suffix [34])))"

definition parse_raw_string :: "node \<Rightarrow> rstring option" where
  "parse_raw_string n =
     (if node_kind n \<noteq> lit ''raw_string'' then None
      else
        (case utf8_text n of
           None \<Rightarrow> None
         | Some raw \<Rightarrow> Option.bind (strip_prefix [39] raw) (strip_suffix [39])))"

text \<open>One part of a concatenation, and the loop over them.\<close>

definition concat_part :: "node \<Rightarrow> rstring option" where
  "concat_part part =
     (if node_kind part = lit ''word'' \<or> node_kind part = lit ''number'' then utf8_text part
      else if node_kind part = lit ''string'' then parse_double_quoted_string part
      else if node_kind part = lit ''raw_string'' then parse_raw_string part
      else None)"

fun concat_parts :: "rstring \<Rightarrow> node list \<Rightarrow> rstring option" where
  "concat_parts acc [] = Some acc"
| "concat_parts acc (part # parts) =
     (case concat_part part of None \<Rightarrow> None | Some s \<Rightarrow> concat_parts (acc @ s) parts)"

text \<open>The word a named child of a command contributes.\<close>

definition command_word :: "node \<Rightarrow> rstring option" where
  "command_word child =
     (if node_kind child = lit ''command_name''
      then (case named_children child of
              [] \<Rightarrow> None
            | word_node # _ \<Rightarrow>
                (if node_kind word_node \<noteq> lit ''word'' then None else utf8_text word_node))
      else if node_kind child = lit ''word'' \<or> node_kind child = lit ''number'' then utf8_text child
      else if node_kind child = lit ''string'' then parse_double_quoted_string child
      else if node_kind child = lit ''raw_string'' then parse_raw_string child
      else if node_kind child = lit ''concatenation''
      then (case concat_parts [] (named_children child) of
              None \<Rightarrow> None
            | Some concatenated \<Rightarrow> (if concatenated = [] then None else Some concatenated))
      else None)"

fun collect_words :: "('a \<Rightarrow> 'b option) \<Rightarrow> 'a list \<Rightarrow> 'b list option" where
  "collect_words f [] = Some []"
| "collect_words f (x # xs) =
     (case f x of
        None \<Rightarrow> None
      | Some y \<Rightarrow> (case collect_words f xs of None \<Rightarrow> None | Some ys \<Rightarrow> Some (y # ys)))"

definition parse_plain_command_from_node :: "node \<Rightarrow> command option" where
  "parse_plain_command_from_node cmd =
     (if node_kind cmd \<noteq> lit ''command'' then None
      else collect_words command_word (named_children cmd))"

definition try_parse_word_only_commands_sequence :: "syntax_tree \<Rightarrow> command list option" where
  "try_parse_word_only_commands_sequence tree =
     (if has_error tree then None
      else
        (case walk_tree [root_node tree] [] of
           None \<Rightarrow> None
         | Some command_nodes \<Rightarrow>
             collect_words parse_plain_command_from_node (sort_key start_byte command_nodes)))"

definition extract_bash_command :: "command \<Rightarrow> (rstring \<times> rstring) option" where
  "extract_bash_command cmd =
     (case cmd of
        [shell, flag, script] \<Rightarrow>
          (if \<not> (flag = lit ''-lc'' \<or> flag = lit ''-c'') \<or>
              detect_shell_type shell \<notin> {Some Zsh, Some Bash, Some Sh}
           then None else Some (shell, script))
      | _ \<Rightarrow> None)"

definition parse_shell_lc_plain_commands ::
  "(rstring \<Rightarrow> syntax_tree option) \<Rightarrow> command \<Rightarrow> command list option" where
  "parse_shell_lc_plain_commands parse cmd =
     (case extract_bash_command cmd of
        None \<Rightarrow> None
      | Some (_, script) \<Rightarrow>
          (case parse script of
             None \<Rightarrow> None
           | Some tree \<Rightarrow> try_parse_word_only_commands_sequence tree))"

section \<open>What an accepted script looks like\<close>

fun subnodes :: "node \<Rightarrow> node list" where
  "subnodes (Node k nm b t cs) = Node k nm b t cs # concat (map subnodes cs)"

abbreviation command_node :: "node \<Rightarrow> bool" where
  "command_node n \<equiv> is_named n \<and> node_kind n = lit ''command''"

lemma subnodes_unfold: "subnodes n = n # concat (map subnodes (node_children n))"
  by (cases n) simp

lemma mset_concat_rev: "mset (concat (rev xss)) = mset (concat xss)"
  by (induction xss) simp_all

lemma walk_tree_spec:
  "walk_tree stack acc = Some ns \<Longrightarrow>
     (\<forall>n \<in> set (concat (map subnodes stack)). node_allowed n) \<and>
     mset ns = mset acc + mset (filter command_node (concat (map subnodes stack)))"
proof (induction stack acc rule: walk_tree.induct)
  case (2 n stack acc)
  let ?acc = "if command_node n then acc @ [n] else acc"
  have ok: "node_allowed n" and run: "walk_tree (rev (node_children n) @ stack) ?acc = Some ns"
    using 2(2) by (auto split: if_splits)
  have "mset (filter command_node (concat (map subnodes (rev cs)))) =
      mset (filter command_node (concat (map subnodes cs)))" for cs
    using mset_concat_rev [of "map subnodes cs"] by (simp add: rev_map)
  moreover from 2(1) [OF _ run] ok
  have "(\<forall>m \<in> set (concat (map subnodes (rev (node_children n) @ stack))). node_allowed m) \<and>
     mset ns = mset ?acc + mset (filter command_node (concat (map subnodes (rev (node_children n) @ stack))))"
    by simp
  ultimately show ?case
    using ok subnodes_unfold [of n] by auto
qed simp

lemma collect_words_Cons:
  "collect_words f (x # xs) = Some ys \<longleftrightarrow>
     (\<exists>z zs. ys = z # zs \<and> f x = Some z \<and> collect_words f xs = Some zs)"
  by (auto split: option.splits)

lemma collect_words_Some: "collect_words f xs = Some ys \<longleftrightarrow> list_all2 (\<lambda>x y. f x = Some y) xs ys"
proof (induction xs arbitrary: ys)
  case (Cons x xs)
  show ?case unfolding collect_words_Cons Cons.IH by (auto simp: list_all2_Cons1)
qed auto

text \<open>
  A script is split into plain commands only when the whole parse tree is free of errors and
  of every node outside the allow-list (so no redirection, substitution, subshell, assignment or
  control flow anywhere), and then the result has one command per command node, in source order.
\<close>

lemma accepted_script_is_word_only:
  assumes "try_parse_word_only_commands_sequence tree = Some cmds"
  shows "\<not> has_error tree \<and> (\<forall>n \<in> set (subnodes (root_node tree)). node_allowed n) \<and>
    (\<exists>ns. mset ns = mset (filter command_node (subnodes (root_node tree))) \<and>
       sorted (map start_byte ns) \<and>
       list_all2 (\<lambda>n c. parse_plain_command_from_node n = Some c) ns cmds)"
proof -
  obtain ns where ns: "\<not> has_error tree" "walk_tree [root_node tree] [] = Some ns"
    "collect_words parse_plain_command_from_node (sort_key start_byte ns) = Some cmds"
    using assms
    by (auto simp: try_parse_word_only_commands_sequence_def split: if_splits option.splits)
  from walk_tree_spec [OF ns(2)] ns(1,3) show ?thesis
    by (auto simp: collect_words_Some intro!: exI [of _ "sort_key start_byte ns"])
qed

definition ls_tree :: syntax_tree where
  "ls_tree =
     \<lparr>has_error = False,
      root_node = Node (lit ''program'') True 0 (Some (lit ''ls''))
        [Node (lit ''command'') True 0 (Some (lit ''ls''))
          [Node (lit ''command_name'') True 0 (Some (lit ''ls''))
            [Node (lit ''word'') True 0 (Some (lit ''ls'')) []]]]\<rparr>"

lemmas tree_eval =
  ls_tree_def try_parse_word_only_commands_sequence_def node_allowed_def ALLOWED_KINDS_def Let_def
  parse_plain_command_from_node_def command_word_def

lemma ls_tree_commands: "try_parse_word_only_commands_sequence ls_tree = Some [[lit ''ls'']]"
  by (simp add: tree_eval)

end
