(* ===== verification/Command_Safety.thy ===== *)
theory Command_Safety
  imports Shell_Commands
begin

text \<open>
  The command classifiers (\<^verbatim>\<open>crates/core/src/commands/safety\<close>): which commands are known to be
  read-only and may run without asking, and which look destructive.

  The model is the Linux build: \<^verbatim>\<open>cfg!(target_os = "linux")\<close> holds and the \<^verbatim>\<open>cfg(windows)\<close> block of
  \<^verbatim>\<open>command_might_be_dangerous\<close> is absent.  PowerShell's own parser, which
  \<^verbatim>\<open>parse_with_powershell_ast\<close> starts as a process, is the parameter \<open>ps_ast\<close> (executable and script
  to the decoded status and commands, or nothing); tree-sitter is the parameter \<open>parse\<close>.
\<close>

section \<open>Dangerous commands\<close>

definition is_git_global_option_with_value :: "rstring \<Rightarrow> bool" where
  "is_git_global_option_with_value arg \<longleftrightarrow>
     arg \<in> set (map lit [''-C'', ''-c'', ''--config-env'', ''--exec-path'', ''--git-dir'',
       ''--namespace'', ''--super-prefix'', ''--work-tree''])"

definition git_inline_prefixes :: "rstring list" where
  "git_inline_prefixes =
     map lit [''--config-env='', ''--exec-path='', ''--git-dir='', ''--namespace='',
       ''--super-prefix='', ''--work-tree='']"

definition is_git_global_option_with_inline_value :: "rstring \<Rightarrow> bool" where
  "is_git_global_option_with_inline_value arg \<longleftrightarrow>
     list_ex (\<lambda>p. starts_with p arg) git_inline_prefixes \<or>
     ((starts_with (lit ''-C'') arg \<or> starts_with (lit ''-c'') arg) \<and> 2 < byte_len arg)"

definition git_global_option_requires_prompt :: "rstring \<Rightarrow> bool" where
  "git_global_option_requires_prompt arg \<longleftrightarrow>
     arg \<in> set (map lit [''-c'', ''--config-env'', ''--exec-path'', ''--git-dir'', ''--namespace'',
       ''--super-prefix'', ''--work-tree'']) \<or>
     (starts_with (lit ''-c'') arg \<and> 2 < byte_len arg) \<or>
     list_ex (\<lambda>p. starts_with p arg) git_inline_prefixes"

text \<open>The loop of \<^verbatim>\<open>find_git_subcommand\<close> over the arguments from index \<open>idx\<close> on.\<close>

fun find_subcommand_loop :: "rstring list \<Rightarrow> nat \<Rightarrow> bool \<Rightarrow> rstring list \<Rightarrow> (nat \<times> rstring) option" where
  "find_subcommand_loop subs idx skip_next [] = None"
| "find_subcommand_loop subs idx skip_next (arg # args) =
     (if skip_next then find_subcommand_loop subs (idx + 1) False args
      else if is_git_global_option_with_inline_value arg then find_subcommand_loop subs (idx + 1) False args
      else if is_git_global_option_with_value arg then find_subcommand_loop subs (idx + 1) True args
      else if arg = lit ''--'' \<or> starts_with (lit ''-'') arg then find_subcommand_loop subs (idx + 1) False args
      else if arg \<in> set subs then Some (idx, arg)
      else None)"

definition find_git_subcommand :: "command \<Rightarrow> rstring list \<Rightarrow> (nat \<times> rstring) option" where
  "find_git_subcommand cmd subs =
     (case cmd of
        [] \<Rightarrow> None
      | cmd0 # args \<Rightarrow>
          (if \<not> ends_with (lit ''git'') cmd0 then None
           else find_subcommand_loop subs 1 False args))"

definition command_basename :: "rstring \<Rightarrow> rstring" where
  "command_basename cmd = last (split_by is_path_sep cmd)"

definition short_flag_group_contains :: "rstring \<Rightarrow> rchar \<Rightarrow> bool" where
  "short_flag_group_contains arg target \<longleftrightarrow>
     starts_with (lit ''-'') arg \<and> \<not> starts_with (lit ''--'') arg \<and>
     list_ex (\<lambda>c. c = target) (drop 1 arg)"

definition rm_is_force :: "rstring list \<Rightarrow> bool" where
  "rm_is_force args = list_ex (\<lambda>arg. arg = lit ''--force'' \<or> short_flag_group_contains arg 102) args"

definition git_branch_is_delete :: "rstring list \<Rightarrow> bool" where
  "git_branch_is_delete args =
     list_ex (\<lambda>arg.
       arg \<in> {lit ''-d'', lit ''-D'', lit ''--delete''} \<or> starts_with (lit ''--delete='') arg \<or>
       short_flag_group_contains arg 100 \<or> short_flag_group_contains arg 68) args"

definition git_push_refspec_is_dangerous :: "rstring \<Rightarrow> bool" where
  "git_push_refspec_is_dangerous arg \<longleftrightarrow>
     (starts_with (lit ''+'') arg \<or> starts_with (lit '':'') arg) \<and> 1 < byte_len arg"

definition git_push_is_dangerous :: "rstring list \<Rightarrow> bool" where
  "git_push_is_dangerous args =
     list_ex (\<lambda>arg.
       arg \<in> set (map lit [''--force'', ''--force-with-lease'', ''--force-if-includes'', ''--delete'', ''-f'', ''-d'']) \<or>
       starts_with (lit ''--force-with-lease='') arg \<or>
       starts_with (lit ''--force-if-includes='') arg \<or>
       starts_with (lit ''--delete='') arg \<or>
       short_flag_group_contains arg 102 \<or> short_flag_group_contains arg 100 \<or>
       git_push_refspec_is_dangerous arg) args"

definition git_clean_is_force :: "rstring list \<Rightarrow> bool" where
  "git_clean_is_force args =
     list_ex (\<lambda>arg.
       arg = lit ''--force'' \<or> arg = lit ''-f'' \<or> starts_with (lit ''--force='') arg \<or>
       short_flag_group_contains arg 102) args"

definition DANGEROUS_GIT :: "rstring list" where
  "DANGEROUS_GIT = map lit [''reset'', ''rm'', ''branch'', ''push'', ''clean'']"

fun is_dangerous_to_call_with_exec :: "command \<Rightarrow> bool" where
  "is_dangerous_to_call_with_exec [] = False"
| "is_dangerous_to_call_with_exec (cmd # args) =
     (if ends_with (lit ''git'') cmd
      then
        (case find_git_subcommand (cmd # args) DANGEROUS_GIT of
           None \<Rightarrow> False
         | Some (subcommand_idx, subcommand) \<Rightarrow>
             (if subcommand \<in> {lit ''reset'', lit ''rm''} then True
              else if subcommand = lit ''branch''
              then git_branch_is_delete (drop (subcommand_idx + 1) (cmd # args))
              else if subcommand = lit ''push''
              then git_push_is_dangerous (drop (subcommand_idx + 1) (cmd # args))
              else if subcommand = lit ''clean''
              then git_clean_is_force (drop (subcommand_idx + 1) (cmd # args))
              else False))
      else if cmd = lit ''sudo'' then is_dangerous_to_call_with_exec args
      else
        (let name = command_basename cmd in
         if name = lit ''rm'' then rm_is_force args
         else if name \<in> {lit ''dd'', lit ''shred'', lit ''truncate''} then True
         else if name = lit ''mkfs'' \<or> starts_with (lit ''mkfs.'') name then True
         else False))"

definition command_might_be_dangerous :: "(rstring \<Rightarrow> syntax_tree option) \<Rightarrow> command \<Rightarrow> bool" where
  "command_might_be_dangerous parse cmd =
     (if is_dangerous_to_call_with_exec cmd then True
      else
        (case parse_shell_lc_plain_commands parse cmd of
           Some all_commands \<Rightarrow> list_ex is_dangerous_to_call_with_exec all_commands
         | None \<Rightarrow> False))"

section \<open>Safe commands\<close>

fun branch_flags_loop :: "bool \<Rightarrow> rstring list \<Rightarrow> bool" where
  "branch_flags_loop saw_read_only_flag [] = saw_read_only_flag"
| "branch_flags_loop saw_read_only_flag (arg # args) =
     (if arg \<in> set (map lit [''--list'', ''-l'', ''--show-current'', ''-a'', ''--all'', ''-r'', ''--remotes'',
         ''-v'', ''-vv'', ''--verbose'']) then branch_flags_loop True args
      else if starts_with (lit ''--format='') arg then branch_flags_loop True args
      else False)"

definition git_branch_is_read_only :: "rstring list \<Rightarrow> bool" where
  "git_branch_is_read_only branch_args =
     (if branch_args = [] then True else branch_flags_loop False branch_args)"

definition git_has_unsafe_global_option :: "command \<Rightarrow> bool" where
  "git_has_unsafe_global_option cmd = list_ex git_global_option_requires_prompt (drop 1 cmd)"

definition git_subcommand_args_are_read_only :: "rstring list \<Rightarrow> bool" where
  "git_subcommand_args_are_read_only args =
     (\<not> list_ex (\<lambda>arg.
        arg \<in> set (map lit [''--output'', ''--ext-diff'', ''--textconv'', ''--exec'', ''--paginate'',
          ''--open-files-in-pager'', ''--filters'']) \<or>
        starts_with (lit ''--output='') arg \<or> starts_with (lit ''--exec='') arg) args)"

definition is_valid_sed_n_arg :: "rstring option \<Rightarrow> bool" where
  "is_valid_sed_n_arg arg =
     (case arg of
        None \<Rightarrow> False
      | Some s \<Rightarrow>
          (case strip_suffix (lit ''p'') s of
             None \<Rightarrow> False
           | Some core \<Rightarrow>
               (case split_on 44 core of
                  [num] \<Rightarrow> num \<noteq> [] \<and> list_all is_ascii_digit num
                | [a, b] \<Rightarrow>
                    a \<noteq> [] \<and> b \<noteq> [] \<and> list_all is_ascii_digit a \<and> list_all is_ascii_digit b
                | _ \<Rightarrow> False)))"

definition SAFE_GIT :: "rstring list" where
  "SAFE_GIT = map lit [''status'', ''log'', ''diff'', ''show'', ''branch'', ''rev-parse'', ''cat-file'']"

definition is_safe_git_command :: "command \<Rightarrow> bool" where
  "is_safe_git_command cmd =
     (case cmd of
        [] \<Rightarrow> False
      | program # _ \<Rightarrow>
          (let is_git =
             (case path_file_name (trim_matches (\<lambda>c. c = 40 \<or> c = 41) program) of
                None \<Rightarrow> False
              | Some name \<Rightarrow> eq_ignore_ascii_case name (lit ''git''))
           in
           if \<not> is_git then False
           else if git_has_unsafe_global_option cmd then False
           else
             (case find_git_subcommand cmd SAFE_GIT of
                None \<Rightarrow> False
              | Some (subcommand_idx, subcommand) \<Rightarrow>
                  (let subcommand_args = drop (subcommand_idx + 1) cmd in
                   if subcommand \<in> set (map lit [''status'', ''log'', ''diff'', ''show'', ''rev-parse'', ''cat-file''])
                   then git_subcommand_args_are_read_only subcommand_args
                   else if subcommand = lit ''branch''
                   then git_subcommand_args_are_read_only subcommand_args \<and>
                        git_branch_is_read_only subcommand_args
                   else False))))"

definition ALWAYS_SAFE :: "rstring list" where
  "ALWAYS_SAFE =
     map lit [''cat'', ''cd'', ''cut'', ''echo'', ''expr'', ''false'', ''grep'', ''head'', ''id'', ''ls'', ''nl'',
       ''paste'', ''pwd'', ''rev'', ''seq'', ''stat'', ''tail'', ''tr'', ''true'', ''uname'', ''uniq'', ''wc'', ''which'',
       ''whoami'']"

definition base64_is_safe :: "rstring list \<Rightarrow> bool" where
  "base64_is_safe args =
     (\<not> list_ex (\<lambda>arg.
        arg \<in> {lit ''-o'', lit ''--output''} \<or> starts_with (lit ''--output='') arg \<or>
        (starts_with (lit ''-o'') arg \<and> arg \<noteq> lit ''-o'')) args)"

definition UNSAFE_FIND_OPTIONS :: "rstring list" where
  "UNSAFE_FIND_OPTIONS =
     map lit [''-exec'', ''-execdir'', ''-ok'', ''-okdir'', ''-delete'', ''-fls'', ''-fprint'', ''-fprint0'', ''-fprintf'']"

definition rg_arg_is_unsafe :: "rstring \<Rightarrow> bool" where
  "rg_arg_is_unsafe arg \<longleftrightarrow>
     arg \<in> {lit ''--search-zip'', lit ''-z''} \<or>
     list_ex (\<lambda>opt. arg = opt \<or> starts_with (opt @ lit ''='') arg) [lit ''--pre'', lit ''--hostname-bin'']"

definition is_safe_to_call_with_exec :: "command \<Rightarrow> bool" where
  "is_safe_to_call_with_exec cmd =
     (case cmd of
        [] \<Rightarrow> False
      | cmd0 # args \<Rightarrow>
          (case path_file_name cmd0 of
             None \<Rightarrow> False
           | Some name \<Rightarrow>
               (if name \<in> {lit ''numfmt'', lit ''tac''} then True
                else if name \<in> set ALWAYS_SAFE then True
                else if name = lit ''base64'' then base64_is_safe args
                else if name = lit ''find'' then \<not> list_ex (\<lambda>arg. arg \<in> set UNSAFE_FIND_OPTIONS) cmd
                else if name = lit ''rg'' then \<not> list_ex rg_arg_is_unsafe cmd
                else if name = lit ''git'' then is_safe_git_command cmd
                else if name = lit ''sed'' \<and> length cmd \<le> 4 \<and>
                  (1 < length cmd \<and> cmd ! 1 = lit ''-n'') \<and>
                  is_valid_sed_n_arg (if 2 < length cmd then Some (cmd ! 2) else None) then True
                else False)))"

section \<open>PowerShell\<close>

record ps_output =
  ps_status :: rstring
  ps_commands :: "command list option"

datatype ps_outcome = PsCommands "command list" | Unsupported | Failed

definition into_outcome :: "ps_output \<Rightarrow> ps_outcome" where
  "into_outcome out =
     (if ps_status out = lit ''ok''
      then (case ps_commands out of
              None \<Rightarrow> Unsupported
            | Some cmds \<Rightarrow>
                (if cmds \<noteq> [] \<and> list_all (\<lambda>cmd. cmd \<noteq> [] \<and> list_all (\<lambda>word. word \<noteq> []) cmd) cmds
                 then PsCommands cmds else Unsupported))
      else if ps_status out = lit ''unsupported'' then Unsupported
      else Failed)"

type_synonym ps_parser = "rstring \<Rightarrow> rstring \<Rightarrow> ps_output option"

definition parse_with_powershell_ast :: "ps_parser \<Rightarrow> rstring \<Rightarrow> rstring \<Rightarrow> ps_outcome" where
  "parse_with_powershell_ast ps_ast executable script =
     (case ps_ast executable script of None \<Rightarrow> Failed | Some out \<Rightarrow> into_outcome out)"

definition parse_powershell_script :: "ps_parser \<Rightarrow> rstring \<Rightarrow> rstring \<Rightarrow> command list option" where
  "parse_powershell_script ps_ast executable script =
     (case parse_with_powershell_ast ps_ast executable script of
        PsCommands cmds \<Rightarrow> Some cmds
      | _ \<Rightarrow> None)"

definition quote_argument :: "rstring \<Rightarrow> rstring" where
  "quote_argument arg =
     (if arg = [] then [39, 39]
      else if list_all (\<lambda>ch. \<not> is_whitespace ch) arg then arg
      else [39] @ concat (map (\<lambda>c. if c = 39 then [39, 39] else [c]) arg) @ [39])"

definition join_arguments_as_script :: "rstring list \<Rightarrow> rstring" where
  "join_arguments_as_script args =
     (case args of
        [] \<Rightarrow> []
      | fst_arg # rest_args \<Rightarrow> join_str (lit '' '') (fst_arg # map quote_argument rest_args))"

text \<open>\<^verbatim>\<open>split_once(':')\<close>, second half.\<close>

definition after_colon :: "rstring \<Rightarrow> rstring option" where
  "after_colon s = (case dropWhile (\<lambda>c. c \<noteq> 58) s of [] \<Rightarrow> None | _ # t \<Rightarrow> Some t)"

fun powershell_args_loop :: "ps_parser \<Rightarrow> rstring \<Rightarrow> rstring list \<Rightarrow> command list option" where
  "powershell_args_loop ps_ast exe [] = None"
| "powershell_args_loop ps_ast exe (arg # args) =
     (let lower = to_ascii_lowercase arg in
      if lower \<in> set (map lit [''-command'', ''/command'', ''-c''])
      then (case args of [script] \<Rightarrow> parse_powershell_script ps_ast exe script | _ \<Rightarrow> None)
      else if starts_with (lit ''-command:'') lower \<or> starts_with (lit ''/command:'') lower
      then (if args \<noteq> [] then None
            else (case after_colon arg of None \<Rightarrow> None | Some script \<Rightarrow> parse_powershell_script ps_ast exe script))
      else if lower \<in> set (map lit [''-nologo'', ''-noprofile'', ''-noninteractive'', ''-mta'', ''-sta''])
      then powershell_args_loop ps_ast exe args
      else if lower \<in> set (map lit [''-encodedcommand'', ''-ec'', ''-file'', ''/file'', ''-windowstyle'',
        ''-executionpolicy'', ''-workingdirectory'']) then None
      else if starts_with (lit ''-'') lower then None
      else parse_powershell_script ps_ast exe (join_arguments_as_script (arg # args)))"

definition parse_powershell_invocation ::
  "ps_parser \<Rightarrow> rstring \<Rightarrow> rstring list \<Rightarrow> command list option" where
  "parse_powershell_invocation ps_ast exe args =
     (if args = [] then None else powershell_args_loop ps_ast exe args)"

definition is_powershell_executable :: "rstring \<Rightarrow> bool" where
  "is_powershell_executable exe =
     (let executable_name =
        to_ascii_lowercase (case path_file_name exe of Some n \<Rightarrow> n | None \<Rightarrow> exe)
      in executable_name \<in> set (map lit [''powershell'', ''powershell.exe'', ''pwsh'', ''pwsh.exe'']))"

definition try_parse_powershell_command_sequence :: "ps_parser \<Rightarrow> command \<Rightarrow> command list option" where
  "try_parse_powershell_command_sequence ps_ast cmd =
     (case cmd of
        [] \<Rightarrow> None
      | exe # rest_args \<Rightarrow>
          (if is_powershell_executable exe then parse_powershell_invocation ps_ast exe rest_args
           else None))"

definition FORBIDDEN_CMDLETS :: "rstring list" where
  "FORBIDDEN_CMDLETS =
     map lit [''set-content'', ''add-content'', ''out-file'', ''new-item'', ''remove-item'', ''move-item'',
       ''copy-item'', ''rename-item'', ''start-process'', ''stop-process'']"

definition SAFE_CMDLETS :: "rstring list" where
  "SAFE_CMDLETS =
     map lit [''echo'', ''write-output'', ''write-host'', ''dir'', ''ls'', ''get-childitem'', ''gci'', ''cat'', ''type'',
       ''gc'', ''get-content'', ''select-string'', ''sls'', ''findstr'', ''measure-object'', ''measure'', ''get-location'',
       ''gl'', ''pwd'', ''test-path'', ''tp'', ''resolve-path'', ''rvpa'', ''select-object'', ''select'', ''get-item'']"

definition trim_parens :: "rstring \<Rightarrow> rstring" where
  "trim_parens = trim_matches (\<lambda>c. c = 40 \<or> c = 41)"

definition is_safe_ripgrep :: "command \<Rightarrow> bool" where
  "is_safe_ripgrep words = (\<not> list_ex (\<lambda>arg. rg_arg_is_unsafe (to_ascii_lowercase arg)) (drop 1 words))"

definition is_safe_powershell_command :: "command \<Rightarrow> bool" where
  "is_safe_powershell_command words =
     (case words of
        [] \<Rightarrow> False
      | word0 # _ \<Rightarrow>
          (if list_ex (\<lambda>w. to_ascii_lowercase (dropWhile (\<lambda>c. c = 45) (trim_parens w)) \<in> set FORBIDDEN_CMDLETS) words
           then False
           else
             (let cmd = to_ascii_lowercase (trim_parens word0) in
              if cmd \<in> set SAFE_CMDLETS then True
              else if cmd = lit ''git'' then is_safe_git_command words
              else if cmd = lit ''rg'' then is_safe_ripgrep words
              else False)))"

definition is_safe_command_windows :: "ps_parser \<Rightarrow> command \<Rightarrow> bool" where
  "is_safe_command_windows ps_ast cmd =
     (case try_parse_powershell_command_sequence ps_ast cmd of
        Some cmds \<Rightarrow> list_all is_safe_powershell_command cmds
      | None \<Rightarrow> False)"

section \<open>Known-safe commands\<close>

definition rename_zsh :: "rstring \<Rightarrow> rstring" where
  "rename_zsh s = (if s = lit ''zsh'' then lit ''bash'' else s)"

definition is_known_safe_command :: "ps_parser \<Rightarrow> (rstring \<Rightarrow> syntax_tree option) \<Rightarrow> command \<Rightarrow> bool" where
  "is_known_safe_command ps_ast parse command0 =
     (let cmd = map rename_zsh command0 in
      if is_safe_command_windows ps_ast cmd then True
      else if is_safe_to_call_with_exec cmd then True
      else
        (case parse_shell_lc_plain_commands parse cmd of
           Some all_commands \<Rightarrow> all_commands \<noteq> [] \<and> list_all is_safe_to_call_with_exec all_commands
         | None \<Rightarrow> False))"

section \<open>The last part of a program path\<close>

lemma command_basename_part:
  "command_basename s = last (split_by is_path_sep (last (split_on 47 s)))"
  using takeWhile_stronger [of "\<lambda>c. \<not> is_path_sep c" "\<lambda>c. c \<noteq> 47" "rev s"]
  by (simp add: command_basename_def last_split_by is_path_sep_def)

lemma ends_with_part:
  assumes "ends_with t s" "c \<notin> set t"
  shows "ends_with t (last (split_on c s))"
proof -
  obtain u where "s = u @ t" using assms(1) by (auto simp: ends_with_iff suffix_def)
  with assms(2) show ?thesis
    by (auto simp: last_split_by takeWhile_append ends_with_iff suffix_def)
qed

lemma last_component:
  assumes "path_file_name p = Some n"
  shows "last (split_on 47 p) \<in> {[], lit ''.'', n}"
proof (rule ccontr)
  assume l: "last (split_on 47 p) \<notin> {[], lit ''.'', n}"
  define l where "l = last (split_on 47 p)"
  define cs where "cs = map component_of (filter (\<lambda>w. w \<noteq> []) (split_on 47 p))"
  obtain ws where "split_on 47 p = ws @ [l]"
    unfolding l_def by (metis append_butlast_last_id split_by_neq_Nil)
  then have "cs = map component_of (filter (\<lambda>w. w \<noteq> []) ws) @ [component_of l]"
    using l unfolding cs_def by (simp flip: l_def)
  then obtain ds where cs: "cs = ds @ [component_of l]" by blast
  have "component_of l \<noteq> CurDir"
    using l by (simp add: component_of_def l_def)
  then have "last (path_components p) = component_of l" "path_components p \<noteq> []"
    unfolding path_components_def cs_def [symmetric] Let_def cs by (cases ds; simp)+
  with assms have "component_of l = Normal n"
    by (auto simp: path_file_name_def Let_def split: path_component.splits)
  with l show False by (auto simp: component_of_def l_def split: if_splits)
qed

section \<open>Programs that are not dangerous\<close>

definition benign_name :: "rstring \<Rightarrow> bool" where
  "benign_name n \<longleftrightarrow>
     \<not> ends_with (lit ''git'') n \<and> (\<forall>c \<in> set n. \<not> is_path_sep c) \<and> n \<noteq> lit ''sudo'' \<and>
     n \<notin> set (map lit [''rm'', ''dd'', ''shred'', ''truncate'', ''mkfs'']) \<and> \<not> starts_with (lit ''mkfs.'') n"

lemma git_suffix_part:
  assumes "path_file_name cmd = Some n" "ends_with (lit ''git'') cmd"
  shows "ends_with (lit ''git'') n"
proof -
  have "ends_with (lit ''git'') (last (split_on 47 cmd))"
    using assms(2) by (rule ends_with_part) simp
  with last_component [OF assms(1)] show ?thesis
    by (auto simp: ends_with_def strip_suffix_def)
qed

lemma benign_program:
  assumes "path_file_name cmd = Some n" "benign_name n"
  shows "\<not> is_dangerous_to_call_with_exec (cmd # args)"
proof -
  have "\<not> ends_with (lit ''git'') cmd"
    using git_suffix_part [OF assms(1)] assms(2) by (auto simp: benign_name_def)
  moreover have "cmd \<noteq> lit ''sudo''"
    using assms by (auto simp: benign_name_def path_file_name_def path_components_def component_of_def Let_def)
  moreover have "command_basename cmd = [] \<or> command_basename cmd = lit ''.'' \<or> command_basename cmd = n"
  proof -
    have "split_by is_path_sep n = [n]"
      using assms(2) by (intro split_by_none) (simp add: benign_name_def)
    moreover have "last (split_on 47 cmd) = [] \<or> last (split_on 47 cmd) = lit ''.'' \<or> last (split_on 47 cmd) = n"
      using last_component [OF assms(1)] by simp
    ultimately show ?thesis
      unfolding command_basename_part by (elim disjE) (simp_all add: is_path_sep_def)
  qed
  then have "command_basename cmd \<notin> set (map lit [''rm'', ''dd'', ''shred'', ''truncate'', ''mkfs''])"
    and "\<not> starts_with (lit ''mkfs.'') (command_basename cmd)"
    using assms(2) by (elim disjE; simp add: benign_name_def starts_with_def)+
  ultimately show ?thesis by (simp add: Let_def)
qed

lemma safe_names_benign:
  "n \<in> set ALWAYS_SAFE \<union> set (map lit [''numfmt'', ''tac'', ''base64'', ''find'', ''rg'', ''sed'', ''bash'', ''zsh'', ''sh'']) \<Longrightarrow>
     benign_name n"
  by (auto simp: ALWAYS_SAFE_def benign_name_def is_path_sep_def ends_with_def strip_suffix_def starts_with_def)

section \<open>Git\<close>

lemma find_loop_agree:
  "find_subcommand_loop subs i b args = Some (j, a) \<Longrightarrow>
     a \<in> set subs \<and> find_subcommand_loop subs' i b args = (if a \<in> set subs' then Some (j, a) else None)"
  by (induction subs i b args rule: find_subcommand_loop.induct) (auto split: if_splits)

lemma read_only_flag_no_delete:
  assumes "starts_with (lit ''--format='') arg"
  shows "\<not> git_branch_is_delete [arg]"
proof -
  obtain t where "arg = lit ''--format='' @ t"
    using assms by (auto simp: starts_with_def strip_prefix_Some)
  then show ?thesis
    by (simp add: git_branch_is_delete_def starts_with_def short_flag_group_contains_def)
qed

lemma branch_loop_no_delete: "branch_flags_loop b args \<Longrightarrow> \<not> git_branch_is_delete args"
proof (induction b args rule: branch_flags_loop.induct)
  case (2 b arg args)
  have "\<not> git_branch_is_delete [arg]"
  proof (cases "starts_with (lit ''--format='') arg")
    case False
    with 2(3) have "arg \<in> set (map lit [''--list'', ''-l'', ''--show-current'', ''-a'', ''--all'', ''-r'', ''--remotes'',
         ''-v'', ''-vv'', ''--verbose''])" by (auto split: if_splits)
    then show ?thesis
      by (auto simp: git_branch_is_delete_def starts_with_def short_flag_group_contains_def)
  qed (rule read_only_flag_no_delete)
  moreover have "\<not> git_branch_is_delete args"
    using 2 by (auto split: if_splits)
  ultimately show ?case by (simp add: git_branch_is_delete_def)
qed (simp add: git_branch_is_delete_def)

lemma read_only_branch: "git_branch_is_read_only args \<Longrightarrow> \<not> git_branch_is_delete args"
  using branch_loop_no_delete
  by (auto simp: git_branch_is_read_only_def git_branch_is_delete_def split: if_splits)

lemma safe_git_not_dangerous:
  assumes "is_safe_git_command (cmd # args)" "ends_with (lit ''git'') cmd"
  shows "\<not> is_dangerous_to_call_with_exec (cmd # args)"
proof -
  obtain j a where loop: "find_subcommand_loop SAFE_GIT 1 False args = Some (j, a)"
    and branch: "a = lit ''branch'' \<Longrightarrow> git_branch_is_read_only (drop (j + 1) (cmd # args))"
    using assms
    by (auto simp: is_safe_git_command_def find_git_subcommand_def Let_def
        split: if_splits option.splits prod.splits)
  have "a \<in> set SAFE_GIT"
    and agree: "find_subcommand_loop DANGEROUS_GIT 1 False args = (if a \<in> set DANGEROUS_GIT then Some (j, a) else None)"
    using find_loop_agree [OF loop] by simp_all
  show ?thesis
  proof (cases "a = lit ''branch''")
    case True
    with agree branch read_only_branch assms(2) show ?thesis
      by (auto simp: find_git_subcommand_def)
  next
    case False
    with \<open>a \<in> set SAFE_GIT\<close> have "a \<notin> set DANGEROUS_GIT"
      by (auto simp: SAFE_GIT_def DANGEROUS_GIT_def)
    with agree assms(2) show ?thesis by (simp add: find_git_subcommand_def)
  qed
qed

section \<open>Safe commands are not dangerous\<close>

lemma safe_exec_name:
  assumes "is_safe_to_call_with_exec (cmd # args)"
  obtains n where "path_file_name cmd = Some n"
    "n = lit ''git'' \<and> is_safe_git_command (cmd # args) \<or>
     n \<in> set ALWAYS_SAFE \<union> set (map lit [''numfmt'', ''tac'', ''base64'', ''find'', ''rg'', ''sed''])"
proof -
  obtain n where "path_file_name cmd = Some n"
    using assms by (auto simp: is_safe_to_call_with_exec_def split: option.splits)
  then show thesis
    using assms by (intro that [of n]) (auto simp: is_safe_to_call_with_exec_def split: if_splits)
qed

lemma safe_exec_not_dangerous:
  assumes "is_safe_to_call_with_exec cmd"
  shows "\<not> is_dangerous_to_call_with_exec cmd"
proof (cases cmd)
  case (Cons cmd0 args)
  with assms obtain n where n: "path_file_name cmd0 = Some n"
    "n = lit ''git'' \<and> is_safe_git_command (cmd0 # args) \<or>
     n \<in> set ALWAYS_SAFE \<union> set (map lit [''numfmt'', ''tac'', ''base64'', ''find'', ''rg'', ''sed''])"
    using safe_exec_name by blast
  show ?thesis
  proof (cases "n = lit ''git''")
    case True
    have "find_git_subcommand (cmd0 # args) SAFE_GIT \<noteq> None"
      using n(2) True
      by (auto simp: ALWAYS_SAFE_def is_safe_git_command_def Let_def split: if_splits option.splits)
    then have "ends_with (lit ''git'') cmd0"
      by (auto simp: find_git_subcommand_def split: if_splits)
    moreover have "is_safe_git_command (cmd0 # args)"
      using n(2) True by (auto simp: ALWAYS_SAFE_def)
    ultimately show ?thesis unfolding Cons by (intro safe_git_not_dangerous)
  next
    case False
    with n(2) have name: "n \<in> set ALWAYS_SAFE \<union> set (map lit [''numfmt'', ''tac'', ''base64'', ''find'', ''rg'', ''sed'', ''bash'', ''zsh'', ''sh''])"
      by auto
    show ?thesis unfolding Cons by (rule benign_program [OF n(1) safe_names_benign [OF name]])
  qed
qed simp

subsection \<open>PowerShell programs\<close>

abbreviation powershell_names :: "rstring list" where
  "powershell_names \<equiv> map lit [''powershell'', ''powershell.exe'', ''pwsh'', ''pwsh.exe'']"

lemma lower_ends_with: "ends_with t s \<Longrightarrow> ends_with (to_ascii_lowercase t) (to_ascii_lowercase s)"
  by (auto simp: ends_with_iff suffix_def to_ascii_lowercase_def)

lemma lower_starts_with: "starts_with t s \<Longrightarrow> starts_with (to_ascii_lowercase t) (to_ascii_lowercase s)"
  by (auto simp: starts_with_iff prefix_def to_ascii_lowercase_def)

lemma lower_sep: "c \<in> set n \<Longrightarrow> is_path_sep c \<Longrightarrow> c \<in> set (to_ascii_lowercase n)"
  by (force simp: to_ascii_lowercase_def to_ascii_lowercase_char_def is_path_sep_def)

lemma powershell_facts:
  assumes "n \<in> set powershell_names"
  shows "\<not> ends_with (lit ''git'') n" "\<forall>c \<in> set n. \<not> is_path_sep c" "\<not> starts_with (lit ''mkfs.'') n"
    "n \<notin> set (map lit [''sudo'', ''rm'', ''dd'', ''shred'', ''truncate'', ''mkfs'', ''bash'', ''zsh'', ''sh''])"
  using assms by (auto simp: is_path_sep_def ends_with_def strip_suffix_def starts_with_def)

lemma lower_lits:
  "to_ascii_lowercase (lit ''git'') = lit ''git''" "to_ascii_lowercase (lit ''mkfs.'') = lit ''mkfs.''"
  "n \<in> set (map lit [''sudo'', ''rm'', ''dd'', ''shred'', ''truncate'', ''mkfs'', ''bash'', ''zsh'', ''sh'']) \<Longrightarrow>
     to_ascii_lowercase n = n"
  by (auto simp: to_ascii_lowercase_def to_ascii_lowercase_char_def)

lemma powershell_not_shell:
  assumes "to_ascii_lowercase n \<in> set powershell_names"
  shows "n \<notin> set (map lit [''sudo'', ''rm'', ''dd'', ''shred'', ''truncate'', ''mkfs'', ''bash'', ''zsh'', ''sh''])"
  using powershell_facts(4) [OF assms] lower_lits(3) [of n] by metis

lemma powershell_benign:
  assumes "to_ascii_lowercase n \<in> set powershell_names"
  shows "benign_name n"
proof -
  have "\<not> ends_with (lit ''git'') n"
    using powershell_facts(1) [OF assms] lower_ends_with [of "lit ''git''" n] lower_lits(1) by metis
  moreover have "\<not> starts_with (lit ''mkfs.'') n"
    using powershell_facts(3) [OF assms] lower_starts_with [of "lit ''mkfs.''" n] lower_lits(2) by metis
  moreover have "\<forall>c \<in> set n. \<not> is_path_sep c"
    using powershell_facts(2) [OF assms] lower_sep by blast
  ultimately show ?thesis
    using powershell_not_shell [OF assms] by (simp add: benign_name_def)
qed

lemma powershell_file_name:
  assumes "is_powershell_executable exe"
  obtains n where "path_file_name exe = Some n" "to_ascii_lowercase n \<in> set powershell_names"
proof (cases "path_file_name exe")
  case None
  then have low: "to_ascii_lowercase exe \<in> set powershell_names"
    using assms by (simp add: is_powershell_executable_def Let_def)
  then have "\<forall>c \<in> set exe. \<not> is_path_sep c" "exe \<noteq> []" "exe \<noteq> lit ''.''" "exe \<noteq> lit ''..''"
    using powershell_benign [OF low]
    by (auto simp: benign_name_def to_ascii_lowercase_def to_ascii_lowercase_char_def)
  then have "path_components exe = [Normal exe]"
    by (cases exe) (auto simp: path_components_def split_by_none is_path_sep_def component_of_def Let_def)
  with None show thesis by (simp add: path_file_name_def)
next
  case (Some n)
  with assms that show thesis by (simp add: is_powershell_executable_def Let_def)
qed

subsection \<open>The two classifiers\<close>

abbreviation plain_shells :: "rstring option set" where
  "plain_shells \<equiv> {Some (lit ''bash''), Some (lit ''zsh''), Some (lit ''sh'')}"

lemma plain_shell_benign:
  assumes "path_file_name c \<in> plain_shells"
  shows "\<not> is_dangerous_to_call_with_exec (c # args)"
proof -
  obtain n where n: "path_file_name c = Some n" "n = lit ''bash'' \<or> n = lit ''zsh'' \<or> n = lit ''sh''"
    using assms by blast
  then have "benign_name n" by (intro safe_names_benign) auto
  with n(1) show ?thesis by (rule benign_program)
qed

lemma detect_zsh_bash:
  "detect_shell_type (lit ''zsh'') = Some Zsh" "detect_shell_type (lit ''bash'') = Some Bash"
  by (simp_all add: detect_shell_type.simps)

lemma extract_renamed:
  assumes "lit ''zsh'' \<notin> set args"
  shows "parse_shell_lc_plain_commands parse (map rename_zsh (c # args)) =
    parse_shell_lc_plain_commands parse (c # args)"
proof -
  have "map rename_zsh args = args"
    using assms by (intro map_idI) (auto simp: rename_zsh_def)
  moreover have "map_option snd (extract_bash_command (rename_zsh c # args)) =
      map_option snd (extract_bash_command (c # args))"
    by (cases "c = lit ''zsh''")
      (auto simp: rename_zsh_def extract_bash_command_def detect_zsh_bash simp del: lit_Cons split: list.splits)
  ultimately show ?thesis
    by (auto simp: parse_shell_lc_plain_commands_def split: option.splits)
qed

lemma known_safe_unfold:
  "is_known_safe_command ps_ast parse cmd \<longleftrightarrow>
     is_safe_command_windows ps_ast (map rename_zsh cmd) \<or>
     is_safe_to_call_with_exec (map rename_zsh cmd) \<or>
     (\<exists>cs. parse_shell_lc_plain_commands parse (map rename_zsh cmd) = Some cs \<and> cs \<noteq> [] \<and>
        list_all is_safe_to_call_with_exec cs)"
  by (auto simp: is_known_safe_command_def Let_def split: option.splits)

lemma renamed_program:
  assumes "lit ''zsh'' \<notin> set args"
  shows "map rename_zsh args = args"
  using assms by (intro map_idI) (auto simp: rename_zsh_def)

lemma bash_file_name: "path_file_name (lit ''bash'') = Some (lit ''bash'')"
  by (simp add: path_file_name_def path_components_def component_of_def Let_def)

lemma not_plain_shell:
  assumes "extract_bash_command (c # args) \<noteq> None \<longrightarrow> path_file_name c \<in> plain_shells"
    and "path_file_name c \<notin> plain_shells"
  shows "parse_shell_lc_plain_commands parse (c # args) = None"
  using assms by (auto simp: parse_shell_lc_plain_commands_def split: option.splits)

lemma exec_danger_only:
  assumes "\<not> is_dangerous_to_call_with_exec cmd"
    and "\<And>cs. parse_shell_lc_plain_commands parse cmd = Some cs \<Longrightarrow> \<not> list_ex is_dangerous_to_call_with_exec cs"
  shows "\<not> command_might_be_dangerous parse cmd"
  using assms by (simp add: command_might_be_dangerous_def split: option.splits)

lemma safe_powershell_program:
  assumes "is_safe_command_windows ps_ast (rename_zsh c # args)"
  shows "path_file_name c \<notin> plain_shells \<and> \<not> is_dangerous_to_call_with_exec (c # args')"
proof -
  obtain n where n: "path_file_name (rename_zsh c) = Some n" "to_ascii_lowercase n \<in> set powershell_names"
    using assms powershell_file_name [of "rename_zsh c"]
    by (auto simp: is_safe_command_windows_def try_parse_powershell_command_sequence_def
        simp del: list.set list.map split: option.splits if_splits)
  then have "c \<noteq> lit ''zsh''"
    using powershell_not_shell [OF n(2)] bash_file_name by (auto simp: rename_zsh_def)
  then have c: "rename_zsh c = c" by (simp add: rename_zsh_def)
  have "path_file_name c \<notin> plain_shells"
    using n(1) powershell_not_shell [OF n(2)] by (auto simp: c)
  with benign_program [OF n(1) [unfolded c] powershell_benign [OF n(2)]] show ?thesis by blast
qed

lemma safe_exec_program:
  assumes "is_safe_to_call_with_exec (rename_zsh c # args)"
  shows "path_file_name c \<notin> plain_shells \<and> \<not> is_dangerous_to_call_with_exec (c # args)"
proof -
  have "\<not> is_safe_to_call_with_exec (lit ''bash'' # args)"
    using bash_file_name by (simp add: is_safe_to_call_with_exec_def ALWAYS_SAFE_def)
  with assms have safe: "is_safe_to_call_with_exec (c # args)"
    by (auto simp: rename_zsh_def split: if_splits simp del: lit_Cons)
  have "path_file_name c \<notin> plain_shells"
    using safe by (rule safe_exec_name) (auto simp: ALWAYS_SAFE_def)
  with safe_exec_not_dangerous [OF safe] show ?thesis by blast
qed



section \<open>Path prefixes\<close>

lemma last_part_qualified:
  assumes "\<forall>c \<in> set name. \<not> is_path_sep c"
  shows "last (split_on 47 (dir @ [47] @ name)) = name"
  using assms by (auto simp: last_split_by takeWhile_append is_path_sep_def)

lemma qualified_basename:
  assumes "\<forall>c \<in> set name. \<not> is_path_sep c"
  shows "command_basename (dir @ [47] @ name) = command_basename name"
proof -
  have "last (split_on 47 name) = name"
    using assms by (subst split_by_none) (auto simp: is_path_sep_def)
  then show ?thesis
    unfolding command_basename_part last_part_qualified [OF assms] by simp
qed

lemma qualified_git:
  assumes "\<forall>c \<in> set name. \<not> is_path_sep c"
  shows "ends_with (lit ''git'') (dir @ [47] @ name) \<longleftrightarrow> ends_with (lit ''git'') name"
proof
  assume "ends_with (lit ''git'') (dir @ [47] @ name)"
  then have "ends_with (lit ''git'') (last (split_on 47 (dir @ [47] @ name)))"
    by (rule ends_with_part) simp
  then show "ends_with (lit ''git'') name" by (simp only: last_part_qualified [OF assms])
next
  assume "ends_with (lit ''git'') name"
  then have "suffix (lit ''git'') (dir @ [47] @ name)"
    unfolding ends_with_iff by (intro suffix_appendI)
  then show "ends_with (lit ''git'') (dir @ [47] @ name)" by (simp only: ends_with_iff)
qed

lemma dangerous_non_git:
  assumes "\<not> ends_with (lit ''git'') cmd"
  shows "is_dangerous_to_call_with_exec (cmd # args) =
    (if cmd = lit ''sudo'' then is_dangerous_to_call_with_exec args
     else command_basename cmd = lit ''rm'' \<and> rm_is_force args \<or>
       command_basename cmd \<in> {lit ''dd'', lit ''shred'', lit ''truncate'', lit ''mkfs''} \<or>
       starts_with (lit ''mkfs.'') (command_basename cmd))"
  using assms by (auto simp: Let_def starts_with_def)

text \<open>
  Spelling the program with a directory in front does not change the verdict of the danger
  check, for every program name but \<^verbatim>\<open>sudo\<close>; a qualified \<^verbatim>\<open>sudo\<close> hides whatever it runs.
\<close>

lemma path_prefix_keeps_danger:
  assumes "\<forall>c \<in> set name. \<not> is_path_sep c"
  shows "(name \<noteq> lit ''sudo'' \<longrightarrow>
      is_dangerous_to_call_with_exec ((dir @ [47] @ name) # args) = is_dangerous_to_call_with_exec (name # args)) \<and>
    (name = lit ''sudo'' \<longrightarrow>
      is_dangerous_to_call_with_exec (name # args) = is_dangerous_to_call_with_exec args \<and>
      \<not> is_dangerous_to_call_with_exec ((dir @ [47] @ name) # args))"
proof -
  have ne: "dir @ [47] @ name \<noteq> lit ''sudo''"
    by (auto simp: append_eq_Cons_conv)
  have "find_git_subcommand ((dir @ [47] @ name) # args) subs = find_git_subcommand (name # args) subs" for subs
    using qualified_git [OF assms] by (simp add: find_git_subcommand_def)
  moreover have "drop (j + 1) ((dir @ [47] @ name) # args) = drop (j + 1) (name # args)" for j
    by simp
  ultimately have other: "is_dangerous_to_call_with_exec ((dir @ [47] @ name) # args) = is_dangerous_to_call_with_exec (name # args)"
    if "name \<noteq> lit ''sudo''"
    using that ne unfolding is_dangerous_to_call_with_exec.simps qualified_git [OF assms] qualified_basename [OF assms]
    by (simp only: if_False)
  have sudo: "\<not> ends_with (lit ''git'') (lit ''sudo'')" "command_basename (lit ''sudo'') = lit ''sudo''"
    by (simp_all add: ends_with_def strip_suffix_def command_basename_def is_path_sep_def)
  have "\<not> is_dangerous_to_call_with_exec ((dir @ [47] @ name) # args)" if "name = lit ''sudo''"
  proof -
    have "\<not> ends_with (lit ''git'') (dir @ [47] @ name)"
      unfolding qualified_git [OF assms] unfolding that by (rule sudo(1))
    moreover have "command_basename (dir @ [47] @ name) = lit ''sudo''"
      unfolding qualified_basename [OF assms] unfolding that by (rule sudo(2))
    ultimately show ?thesis
      using ne by (simp add: dangerous_non_git starts_with_def)
  qed
  moreover have "is_dangerous_to_call_with_exec (lit ''sudo'' # args) = is_dangerous_to_call_with_exec args"
    by (subst dangerous_non_git [OF sudo(1)]) (simp only: refl if_True)
  ultimately show ?thesis using other by blast
qed

end
