(* ===== verification/Approval_Policy.thy ===== *)
theory Approval_Policy
  imports Policy_Parser Policy_Amend Command_Safety
begin

text \<open>
  The approval requirement of a command (\<^verbatim>\<open>crates/core/src/exec_policy.rs\<close> with the policy types of
  \<^verbatim>\<open>crates/protocol\<close>): the heuristics for commands no rule matches, the combination of rules,
  heuristics and approval policy into a requirement, amendments, and the loading of rule files.

  \<open>ps_ast\<close> and \<open>parse\<close> are the PowerShell and bash parsers of the command classifiers, \<open>join\<close> is
  \<^verbatim>\<open>shlex::try_join\<close>; the flag \<open>feature\<close> is \<^verbatim>\<open>features.enabled(Feature::ExecPolicy)\<close>.  The model is the
  Linux build, so the Windows special case of the read-only sandbox is off.
\<close>

section \<open>Policies of a session\<close>

record granular_approval_config =
  sandbox_approval :: bool
  rules_approval :: bool

datatype ask_for_approval = UnlessTrusted | OnFailure | OnRequest | Granular granular_approval_config | Never

datatype network_access = Restricted | Enabled

datatype sandbox_policy =
    DangerFullAccess
  | ReadOnly
  | ExternalSandbox network_access
  | WorkspaceWrite (writable_roots: "rstring list") (net_access: bool) (exclude_tmpdir_env_var: bool)
      (exclude_slash_tmp: bool)

datatype sandbox_permissions = UseDefault | RequireEscalated

definition requires_escalated_permissions :: "sandbox_permissions \<Rightarrow> bool" where
  "requires_escalated_permissions sp \<longleftrightarrow> sp = RequireEscalated"

fun has_full_disk_write_access :: "sandbox_policy \<Rightarrow> bool" where
  "has_full_disk_write_access DangerFullAccess = True"
| "has_full_disk_write_access (ExternalSandbox _) = True"
| "has_full_disk_write_access ReadOnly = False"
| "has_full_disk_write_access (WorkspaceWrite _ _ _ _) = False"

fun has_full_network_access :: "sandbox_policy \<Rightarrow> bool" where
  "has_full_network_access DangerFullAccess = True"
| "has_full_network_access (ExternalSandbox n) = (n = Enabled)"
| "has_full_network_access ReadOnly = False"
| "has_full_network_access (WorkspaceWrite _ n _ _) = n"

type_synonym execpolicy_amendment = command

datatype exec_approval_requirement =
    Skip bool "execpolicy_amendment option"
  | NeedsApproval "rstring option" "execpolicy_amendment option"
  | ForbiddenCall rstring

section \<open>Heuristics\<close>

definition render_decision_for_unmatched_command ::
  "ps_parser \<Rightarrow> (rstring \<Rightarrow> syntax_tree option) \<Rightarrow> ask_for_approval \<Rightarrow> sandbox_policy \<Rightarrow> command \<Rightarrow>
     sandbox_permissions \<Rightarrow> decision" where
  "render_decision_for_unmatched_command ps_ast parse approval sandbox cmd perms =
     (if is_known_safe_command ps_ast parse cmd then Allow
      else if command_might_be_dangerous parse cmd
      then (if approval = Never then Forbidden else Prompt)
      else
        (case approval of
           Never \<Rightarrow> Allow
         | OnFailure \<Rightarrow> Allow
         | UnlessTrusted \<Rightarrow> Prompt
         | _ \<Rightarrow>
             (case sandbox of
                DangerFullAccess \<Rightarrow> Allow
              | ExternalSandbox _ \<Rightarrow> Allow
              | _ \<Rightarrow> (if requires_escalated_permissions perms then Prompt else Allow))))"

section \<open>Amendments and reasons\<close>

fun is_policy_match :: "rule_match \<Rightarrow> bool" where
  "is_policy_match (PrefixRuleMatch _ _ _) = True"
| "is_policy_match (HeuristicsRuleMatch _ _) = False"

fun heuristics_with :: "decision \<Rightarrow> rule_match \<Rightarrow> execpolicy_amendment option" where
  "heuristics_with d (HeuristicsRuleMatch cmd d') = (if d' = d then Some cmd else None)"
| "heuristics_with d (PrefixRuleMatch _ _ _) = None"

definition policy_prompts :: "rule_match list \<Rightarrow> bool" where
  "policy_prompts ms = list_ex (\<lambda>m. is_policy_match m \<and> match_decision m = Prompt) ms"

definition try_derive_execpolicy_amendment_for_prompt_rules ::
  "rule_match list \<Rightarrow> execpolicy_amendment option" where
  "try_derive_execpolicy_amendment_for_prompt_rules ms =
     (if policy_prompts ms then None else find_map (heuristics_with Prompt) ms)"

definition try_derive_execpolicy_amendment_for_allow_rules ::
  "rule_match list \<Rightarrow> execpolicy_amendment option" where
  "try_derive_execpolicy_amendment_for_allow_rules ms =
     (if list_ex is_policy_match ms then None else find_map (heuristics_with Allow) ms)"

definition derive_requested_execpolicy_amendment ::
  "bool \<Rightarrow> rstring list option \<Rightarrow> rule_match list \<Rightarrow> execpolicy_amendment option" where
  "derive_requested_execpolicy_amendment feature prefix_rule ms =
     (if \<not> feature then None
      else
        (case prefix_rule of
           None \<Rightarrow> None
         | Some pre \<Rightarrow>
             (if pre = [] then None
              else if policy_prompts ms then None
              else Some pre)))"

text \<open>\<^verbatim>\<open>Iterator::max_by_key\<close>: the last of the largest.\<close>

fun max_by_key :: "('a \<Rightarrow> nat) \<Rightarrow> 'a list \<Rightarrow> 'a option" where
  "max_by_key f [] = None"
| "max_by_key f (x # xs) =
     (case max_by_key f xs of None \<Rightarrow> Some x | Some y \<Rightarrow> (if f x \<le> f y then Some y else Some x))"

definition render_shlex_command :: "(rstring list \<Rightarrow> rstring option) \<Rightarrow> rstring list \<Rightarrow> rstring" where
  "render_shlex_command join args =
     (case join args of Some s \<Rightarrow> s | None \<Rightarrow> join_str (lit '' '') args)"

fun prefix_with :: "decision \<Rightarrow> rule_match \<Rightarrow> (command \<times> rstring option) option" where
  "prefix_with d (PrefixRuleMatch mp d' j) = (if d' = d then Some (mp, j) else None)"
| "prefix_with d (HeuristicsRuleMatch _ _) = None"

definition most_specific :: "decision \<Rightarrow> rule_match list \<Rightarrow> (command \<times> rstring option) option" where
  "most_specific d ms = max_by_key (\<lambda>(mp, _). length mp) (filter_map (prefix_with d) ms)"

definition derive_prompt_reason ::
  "(rstring list \<Rightarrow> rstring option) \<Rightarrow> command \<Rightarrow> evaluation \<Rightarrow> rstring option" where
  "derive_prompt_reason join args ev =
     (let cmd = render_shlex_command join args in
      case most_specific Prompt (matched_rules ev) of
        Some (_, Some j) \<Rightarrow> Some ([96] @ cmd @ [96] @ lit '' requires approval: '' @ j)
      | Some (_, None) \<Rightarrow> Some ([96] @ cmd @ [96] @ lit '' requires approval by policy'')
      | None \<Rightarrow> None)"

definition derive_forbidden_reason ::
  "(rstring list \<Rightarrow> rstring option) \<Rightarrow> command \<Rightarrow> evaluation \<Rightarrow> rstring" where
  "derive_forbidden_reason join args ev =
     (let cmd = render_shlex_command join args in
      case most_specific Forbidden (matched_rules ev) of
        Some (_, Some j) \<Rightarrow> [96] @ cmd @ [96] @ lit '' rejected: '' @ j
      | Some (mp, None) \<Rightarrow>
          [96] @ cmd @ [96] @ lit '' rejected: policy forbids commands starting with '' @
          [96] @ render_shlex_command join mp @ [96]
      | None \<Rightarrow> [96] @ cmd @ [96] @ lit '' rejected: blocked by policy'')"

definition PROMPT_CONFLICT_REASON :: rstring where
  "PROMPT_CONFLICT_REASON = lit ''approval required by policy, but AskForApproval is set to Never''"

section \<open>The requirement\<close>

record exec_approval_request =
  req_feature :: bool
  req_command :: command
  req_approval :: ask_for_approval
  req_sandbox :: sandbox_policy
  req_permissions :: sandbox_permissions
  req_prefix_rule :: "rstring list option"

definition request_commands :: "(rstring \<Rightarrow> syntax_tree option) \<Rightarrow> command \<Rightarrow> command list" where
  "request_commands parse cmd =
     (case parse_shell_lc_plain_commands parse cmd of Some cmds \<Rightarrow> cmds | None \<Rightarrow> [cmd])"

definition request_fallback ::
  "ps_parser \<Rightarrow> (rstring \<Rightarrow> syntax_tree option) \<Rightarrow> exec_approval_request \<Rightarrow> command \<Rightarrow> decision" where
  "request_fallback ps_ast parse req cmd =
     render_decision_for_unmatched_command ps_ast parse (req_approval req) (req_sandbox req) cmd
       (req_permissions req)"

definition granular_denied :: "ask_for_approval \<Rightarrow> evaluation \<Rightarrow> bool" where
  "granular_denied approval ev =
     (case approval of
        Granular config \<Rightarrow>
          (if matched_rules ev = [] then \<not> sandbox_approval config else \<not> rules_approval config)
      | _ \<Rightarrow> False)"

definition requirement_of_evaluation ::
  "(rstring list \<Rightarrow> rstring option) \<Rightarrow> exec_approval_request \<Rightarrow> evaluation \<Rightarrow> exec_approval_requirement" where
  "requirement_of_evaluation join req ev =
     (let requested = derive_requested_execpolicy_amendment (req_feature req) (req_prefix_rule req) (matched_rules ev) in
      case eval_decision ev of
        Forbidden \<Rightarrow> ForbiddenCall (derive_forbidden_reason join (req_command req) ev)
      | Prompt \<Rightarrow>
          (if req_approval req = Never \<or> granular_denied (req_approval req) ev
           then ForbiddenCall PROMPT_CONFLICT_REASON
           else NeedsApproval (derive_prompt_reason join (req_command req) ev)
             (if req_feature req
              then (case requested of
                      Some am \<Rightarrow> Some am
                    | None \<Rightarrow> try_derive_execpolicy_amendment_for_prompt_rules (matched_rules ev))
              else None))
      | Allow \<Rightarrow>
          Skip (list_ex (\<lambda>m. is_policy_match m \<and> match_decision m = Allow) (matched_rules ev))
            (if req_feature req then try_derive_execpolicy_amendment_for_allow_rules (matched_rules ev)
             else None))"

text \<open>\<open>None\<close> is the panic of \<^verbatim>\<open>check_multiple\<close> on an empty sequence.\<close>

definition create_exec_approval_requirement_for_command ::
  "ps_parser \<Rightarrow> (rstring \<Rightarrow> syntax_tree option) \<Rightarrow> (rstring list \<Rightarrow> rstring option) \<Rightarrow> policy \<Rightarrow>
     exec_approval_request \<Rightarrow> exec_approval_requirement option" where
  "create_exec_approval_requirement_for_command ps_ast parse join p req =
     map_option (requirement_of_evaluation join req)
       (check_multiple p (request_commands parse (req_command req)) (request_fallback ps_ast parse req))"

record exec_policy_simulation =
  sim_decision :: rstring
  sim_reason :: "rstring option"
  sim_bypass_sandbox :: bool
  sim_proposed_rule :: "command option"
  sim_matched_rules :: "rule_match list"

definition simulate_exec_policy ::
  "ps_parser \<Rightarrow> (rstring \<Rightarrow> syntax_tree option) \<Rightarrow> (rstring list \<Rightarrow> rstring option) \<Rightarrow> policy \<Rightarrow> bool \<Rightarrow>
     ask_for_approval \<Rightarrow> sandbox_policy \<Rightarrow> command \<Rightarrow> exec_policy_simulation option" where
  "simulate_exec_policy ps_ast parse join p feature approval sandbox cmd =
     (let req = \<lparr>req_feature = feature, req_command = cmd, req_approval = approval, req_sandbox = sandbox,
                 req_permissions = UseDefault, req_prefix_rule = None\<rparr>
      in
      case check_multiple p (request_commands parse cmd) (request_fallback ps_ast parse req) of
        None \<Rightarrow> None
      | Some ev \<Rightarrow>
          map_option (\<lambda>requirement.
            case requirement of
              Skip bypass proposed \<Rightarrow>
                \<lparr>sim_decision = lit ''allow'', sim_reason = None, sim_bypass_sandbox = bypass,
                 sim_proposed_rule = proposed, sim_matched_rules = matched_rules ev\<rparr>
            | NeedsApproval reason proposed \<Rightarrow>
                \<lparr>sim_decision = lit ''ask'', sim_reason = reason, sim_bypass_sandbox = False,
                 sim_proposed_rule = proposed, sim_matched_rules = matched_rules ev\<rparr>
            | ForbiddenCall reason \<Rightarrow>
                \<lparr>sim_decision = lit ''deny'', sim_reason = Some reason, sim_bypass_sandbox = False,
                 sim_proposed_rule = None, sim_matched_rules = matched_rules ev\<rparr>)
            (create_exec_approval_requirement_for_command ps_ast parse join p req))"

section \<open>What the requirement guarantees\<close>

abbreviation approval_for ::
  "ps_parser \<Rightarrow> (rstring \<Rightarrow> syntax_tree option) \<Rightarrow> (rstring list \<Rightarrow> rstring option) \<Rightarrow> policy \<Rightarrow>
     exec_approval_request \<Rightarrow> exec_approval_requirement option" where
  "approval_for \<equiv> create_exec_approval_requirement_for_command"

lemma matches_cases:
  "matches_for_command p cmd (Some h) =
     (if rule_hits p cmd = [] then [HeuristicsRuleMatch cmd (h cmd)] else rule_hits p cmd)"
  by (simp add: matches_for_command_def Let_def split: list.splits)

lemma approval_Some:
  assumes "approval_for ps_ast parse join p req = Some r"
  obtains ev where
    "check_multiple p (request_commands parse (req_command req)) (request_fallback ps_ast parse req) = Some ev"
    "r = requirement_of_evaluation join req ev" "request_commands parse (req_command req) \<noteq> []"
    "matched_rules ev = concat (map (\<lambda>c. matches_for_command p c (Some (request_fallback ps_ast parse req)))
       (request_commands parse (req_command req)))"
    "eval_decision ev = Max (pol.verdict p (request_fallback ps_ast parse req) `
       set (request_commands parse (req_command req)))"
proof -
  let ?cmds = "request_commands parse (req_command req)" and ?h = "request_fallback ps_ast parse req"
  obtain ev where ev: "check_multiple p ?cmds ?h = Some ev" "r = requirement_of_evaluation join req ev"
    using assms by (auto simp: create_exec_approval_requirement_for_command_def)
  then have ne: "?cmds \<noteq> []"
    by (auto simp: check_multiple_def from_matches_def)
  with pol.from_matches_many [OF ne, of p ?h] ev show thesis
    by (intro that [of ev]) (simp_all add: check_multiple_def)
qed

lemma from_matches_nonempty: "from_matches ms = Some ev \<Longrightarrow> matched_rules ev \<noteq> []"
  by (cases ms) (auto simp: from_matches_def)

lemma check_multiple_None: "check_multiple p cmds h = None \<longleftrightarrow> cmds = []"
  using pol.from_matches_many [of cmds p h] by (cases "cmds = []") (auto simp: check_multiple_def from_matches_def)

lemma verdict_unmatched: "rule_hits p cmd = [] \<Longrightarrow> pol.verdict p h cmd = h cmd"
  unfolding pol.verdict_def by (simp add: matches_cases)

lemma requirement_Skip:
  "requirement_of_evaluation join req ev = Skip b a \<Longrightarrow> eval_decision ev = Allow"
  by (auto simp: requirement_of_evaluation_def Let_def split: decision.splits if_splits)

lemma skip_verdicts:
  assumes "approval_for ps_ast parse join p req = Some (Skip b a)"
    and "cmd \<in> set (request_commands parse (req_command req))"
  shows "pol.verdict p (request_fallback ps_ast parse req) cmd = Allow"
proof -
  let ?h = "request_fallback ps_ast parse req"
  obtain ev where ev: "Skip b a = requirement_of_evaluation join req ev"
    and dec: "eval_decision ev = Max (pol.verdict p ?h ` set (request_commands parse (req_command req)))"
    using assms(1) by (rule approval_Some) blast
  have "pol.verdict p ?h cmd \<le> Max (pol.verdict p ?h ` set (request_commands parse (req_command req)))"
    using assms(2) by (intro Max_ge) auto
  also have "\<dots> = Allow"
    using requirement_Skip [OF ev [symmetric]] dec by simp
  finally show ?thesis by simp
qed

lemma hits_allowed:
  assumes "pol.verdict p h cmd = Allow" "m \<in> set (rule_hits p cmd)"
  shows "match_decision m = Allow"
  using verdict_ge_hit [OF assms(2), of h] assms(1) by simp

lemma fallback_Allow:
  "request_fallback ps_ast parse req cmd = Allow \<longleftrightarrow>
     is_known_safe_command ps_ast parse cmd \<or>
     \<not> command_might_be_dangerous parse cmd \<and> req_approval req \<noteq> UnlessTrusted \<and>
     (req_approval req \<in> {Never, OnFailure} \<or> has_full_disk_write_access (req_sandbox req) \<or>
      req_permissions req = UseDefault)"
  by (cases "req_approval req"; cases "req_sandbox req"; cases "req_permissions req")
    (auto simp: request_fallback_def render_decision_for_unmatched_command_def requires_escalated_permissions_def)

lemma skip_cleared:
  assumes "approval_for ps_ast parse join p req = Some (Skip bypass am)"
    and "cmd \<in> set (request_commands parse (req_command req))"
  shows "(\<forall>m \<in> set (rule_hits p cmd). match_decision m = Allow) \<and>
    (rule_hits p cmd = [] \<longrightarrow>
       is_known_safe_command ps_ast parse cmd \<or>
       \<not> command_might_be_dangerous parse cmd \<and> req_approval req \<noteq> UnlessTrusted \<and>
       (req_approval req \<in> {Never, OnFailure} \<or> has_full_disk_write_access (req_sandbox req) \<or>
        req_permissions req = UseDefault))"
proof -
  have verdict: "pol.verdict p (request_fallback ps_ast parse req) cmd = Allow"
    using assms by (rule skip_verdicts)
  then have "\<forall>m \<in> set (rule_hits p cmd). match_decision m = Allow"
    using hits_allowed by blast
  moreover have "request_fallback ps_ast parse req cmd = Allow" if "rule_hits p cmd = []"
    using verdict verdict_unmatched [OF that] by simp
  ultimately show ?thesis unfolding fallback_Allow by blast
qed

text \<open>
  C1.  A command that is run without asking has been cleared piece by piece: for each plain command
  of the script, all rules that match it allow it, and if none matches, it is known to be read-only
  or it is neither dangerous, nor requested under \<^verbatim>\<open>UnlessTrusted\<close>, nor escalated out of a
  restricting sandbox by the model's own request.
\<close>

theorem skip_is_sound:
  assumes "approval_for ps_ast parse join p req = Some (Skip bypass am)"
    and "cmd \<in> set (request_commands parse (req_command req))"
  shows "(\<forall>m \<in> set (rule_hits p cmd). match_decision m = Allow) \<and>
    (rule_hits p cmd = [] \<longrightarrow>
       is_known_safe_command ps_ast parse cmd \<or>
       \<not> command_might_be_dangerous parse cmd \<and> req_approval req \<noteq> UnlessTrusted \<and>
       (req_approval req \<in> {Never, OnFailure} \<or> has_full_disk_write_access (req_sandbox req) \<or>
        req_permissions req = UseDefault))"
  using assms by (rule skip_cleared)

text \<open>
  The sandbox is bypassed without asking only on the word of a rule of the policy: some plain
  command of the script is matched by an allow rule.
\<close>

lemma bypass_needs_allow_rule:
  assumes "approval_for ps_ast parse join p req = Some (Skip True am)"
  shows "\<exists>cmd \<in> set (request_commands parse (req_command req)).
    \<exists>m \<in> set (rule_hits p cmd). match_decision m = Allow"
proof -
  let ?h = "request_fallback ps_ast parse req"
  obtain ev where ev: "Skip True am = requirement_of_evaluation join req ev"
    and ms: "matched_rules ev = concat (map (\<lambda>c. matches_for_command p c (Some ?h))
       (request_commands parse (req_command req)))"
    using assms by (rule approval_Some) blast
  have "list_ex (\<lambda>m. is_policy_match m \<and> match_decision m = Allow) (matched_rules ev)"
    using ev requirement_Skip [OF ev [symmetric]] by (auto simp: requirement_of_evaluation_def Let_def)
  then obtain m cmd where m: "is_policy_match m" "match_decision m = Allow"
    "m \<in> set (matches_for_command p cmd (Some ?h))" "cmd \<in> set (request_commands parse (req_command req))"
    unfolding ms by (auto simp: list_ex_iff)
  then have "m \<in> set (rule_hits p cmd)"
    by (auto simp: matches_cases split: if_splits)
  with m show ?thesis by blast
qed

text \<open>
  A script that combines a command matched by an allow rule with commands that are allowed only
  because the sandbox would contain them is run as a whole outside the sandbox, without asking.
\<close>

lemma one_allow_rule_unsandboxes_script:
  assumes "request_commands parse (req_command req) = [listed, unlisted]"
    and "rule_hits p listed \<noteq> []" "\<forall>m \<in> set (rule_hits p listed). match_decision m = Allow"
    and "rule_hits p unlisted = []" "request_fallback ps_ast parse req unlisted = Allow"
  shows "\<exists>am. approval_for ps_ast parse join p req = Some (Skip True am)"
proof -
  let ?h = "request_fallback ps_ast parse req"
  let ?ms = "rule_hits p listed @ [HeuristicsRuleMatch unlisted Allow]"
  have "Max (match_decision ` set ?ms) = Allow"
    using assms(3) Max_le_iff [of "match_decision ` set ?ms" Allow] by simp
  then have "check_multiple p [listed, unlisted] ?h = Some \<lparr>eval_decision = Allow, matched_rules = ?ms\<rparr>"
    using assms(2,4,5) by (simp add: check_multiple_def from_matches_def iter_max_Some matches_cases)
  moreover have "is_policy_match m" if "m \<in> set (rule_hits p listed)" for m
    using that
    by (auto simp: rule_hits_def set_filter_map rule_matches_Some split: list.splits option.splits if_splits)
  moreover obtain m where "m \<in> set (rule_hits p listed)"
    using assms(2) by (cases "rule_hits p listed") auto
  ultimately show ?thesis
    using assms(1,3)
    by (auto simp: create_exec_approval_requirement_for_command_def requirement_of_evaluation_def Let_def
        list_ex_iff)
qed

text \<open>
  The strictness of the policy carries through: a forbidding rule on any part of the script
  forbids the whole, whatever the approval policy, and under \<^verbatim>\<open>Never\<close> nothing is ever asked.
\<close>

lemma forbidden_rule_forbids:
  assumes "approval_for ps_ast parse join p req = Some r"
  shows "((\<exists>cmd \<in> set (request_commands parse (req_command req)).
        \<exists>m \<in> set (rule_hits p cmd). match_decision m = Forbidden) \<longrightarrow> (\<exists>reason. r = ForbiddenCall reason)) \<and>
    (req_approval req = Never \<longrightarrow> (\<forall>reason am. r \<noteq> NeedsApproval reason am))"
proof -
  let ?h = "request_fallback ps_ast parse req" and ?cmds = "request_commands parse (req_command req)"
  obtain ev where r: "r = requirement_of_evaluation join req ev"
    and dec: "eval_decision ev = Max (pol.verdict p ?h ` set ?cmds)"
    using assms by (rule approval_Some) blast
  have "eval_decision ev = Forbidden"
    if "cmd \<in> set ?cmds" "m \<in> set (rule_hits p cmd)" "match_decision m = Forbidden" for cmd m
  proof -
    have "pol.verdict p ?h cmd = Forbidden"
      using verdict_ge_hit [OF that(2), of ?h] that(3) by simp
    then have "Forbidden \<le> Max (pol.verdict p ?h ` set ?cmds)"
      using that(1) by (intro Max_ge) (auto intro: rev_image_eqI)
    then show ?thesis by (simp add: dec)
  qed
  then show ?thesis
    unfolding r by (auto simp: requirement_of_evaluation_def Let_def split: decision.splits if_splits)
qed

text \<open>
  The switch \<^verbatim>\<open>sandbox_approval\<close> of a granular approval policy has no effect here: the list of
  matches is never empty, so prompts that no rule asked for are also governed by \<^verbatim>\<open>rules\<close>.
\<close>

lemma granular_sandbox_switch_ignored:
  "approval_for ps_ast parse join p
     (req\<lparr>req_approval := Granular \<lparr>sandbox_approval = True, rules_approval = allowed\<rparr>\<rparr>) =
   approval_for ps_ast parse join p
     (req\<lparr>req_approval := Granular \<lparr>sandbox_approval = False, rules_approval = allowed\<rparr>\<rparr>)"
proof -
  define r1 r2 where "r1 = req\<lparr>req_approval := Granular \<lparr>sandbox_approval = True, rules_approval = allowed\<rparr>\<rparr>"
    and "r2 = req\<lparr>req_approval := Granular \<lparr>sandbox_approval = False, rules_approval = allowed\<rparr>\<rparr>"
  have cmd: "req_command r1 = req_command r2" by (simp add: r1_def r2_def)
  have h: "request_fallback ps_ast parse r1 = request_fallback ps_ast parse r2"
    by (rule ext) (simp add: request_fallback_def r1_def r2_def render_decision_for_unmatched_command_def)
  show ?thesis unfolding r1_def [symmetric] r2_def [symmetric]
  proof (cases "check_multiple p (request_commands parse (req_command r1)) (request_fallback ps_ast parse r1)")
    case None
    then show "approval_for ps_ast parse join p r1 = approval_for ps_ast parse join p r2"
      by (simp add: create_exec_approval_requirement_for_command_def cmd h)
  next
    case (Some ev)
    then have "matched_rules ev \<noteq> []"
      unfolding check_multiple_def by (rule from_matches_nonempty)
    then have "requirement_of_evaluation join r1 ev = requirement_of_evaluation join r2 ev"
      by (cases "eval_decision ev")
        (simp_all add: requirement_of_evaluation_def Let_def granular_denied_def r1_def r2_def)
    with Some show "approval_for ps_ast parse join p r1 = approval_for ps_ast parse join p r2"
      by (simp add: create_exec_approval_requirement_for_command_def cmd h)
  qed
qed

text \<open>
  The requirement is computed for every request except one shape: a shell script that parses,
  without error, to no command at all, such as the empty script, makes the evaluation panic.
\<close>

lemma approval_panics_on_empty_script:
  "approval_for ps_ast parse join p req = None \<longleftrightarrow>
     parse_shell_lc_plain_commands parse (req_command req) = Some []"
  by (simp add: create_exec_approval_requirement_for_command_def check_multiple_None request_commands_def
      split: option.splits)

text \<open>
  When a single command needs approval only because of the heuristics, the amendment proposed
  with the prompt does its job: with the amendment added to the policy the same request is skipped,
  and it runs outside the sandbox.
\<close>

lemma amendment_skips_future_prompt:
  assumes "approval_for ps_ast parse join p req = Some (NeedsApproval reason (Some am))"
    and "request_commands parse (req_command req) = [cmd]" "cmd \<noteq> []" "req_prefix_rule req = None"
    and "add_prefix_rule p am Allow = (p', Ok ())"
  shows "am = cmd \<and> approval_for ps_ast parse join p' req = Some (Skip True None)"
proof -
  let ?h = "request_fallback ps_ast parse req"
  obtain ev where r: "NeedsApproval reason (Some am) = requirement_of_evaluation join req ev"
    and ms: "matched_rules ev = matches_for_command p cmd (Some ?h)"
    using assms(1) by (rule approval_Some) (simp add: assms(2))
  have "find_map (heuristics_with Prompt) (matches_for_command p cmd (Some ?h)) = Some am"
    using r assms(4)
    by (auto simp: requirement_of_evaluation_def Let_def derive_requested_execpolicy_amendment_def
        try_derive_execpolicy_amendment_for_prompt_rules_def ms split: decision.splits if_splits)
  moreover have "heuristics_with Prompt m = None" if "m \<in> set (rule_hits p cmd)" for m
    using that
    by (auto simp: rule_hits_def set_filter_map rule_matches_Some split: list.splits option.splits if_splits)
  ultimately have hits: "rule_hits p cmd = []" and am: "am = cmd"
    by (auto simp: matches_cases split: if_splits dest!: find_map_Some)
  obtain f ts where cmd: "cmd = f # ts" using assms(3) by (cases cmd) auto
  have "rule_hits p' cmd = [PrefixRuleMatch cmd Allow None]"
    using hits_after_add [of p f ts Allow p' ts] assms(5) hits
    by (simp add: am cmd split: option.splits)
  then have "approval_for ps_ast parse join p' req = Some (Skip True None)"
    by (simp add: create_exec_approval_requirement_for_command_def assms(2) check_multiple_def matches_cases
        from_matches_def requirement_of_evaluation_def try_derive_execpolicy_amendment_for_allow_rules_def
        Let_def split: if_splits)
  with am show ?thesis by simp
qed

section \<open>Concrete requests\<close>

abbreviation no_ps :: ps_parser where
  "no_ps \<equiv> \<lambda>_ _. None"

abbreviation no_shell :: "rstring \<Rightarrow> syntax_tree option" where
  "no_shell \<equiv> \<lambda>_. None"

definition demo_request :: "ask_for_approval \<Rightarrow> command \<Rightarrow> exec_approval_request" where
  "demo_request approval cmd =
     \<lparr>req_feature = True, req_command = cmd, req_approval = approval, req_sandbox = ReadOnly,
      req_permissions = UseDefault, req_prefix_rule = None\<rparr>"

definition allow_git :: policy where
  "allow_git = fst (add_prefix_rule policy_empty [lit ''git''] Allow)"

definition two_commands :: syntax_tree where
  "two_commands =
     \<lparr>has_error = False,
      root_node = Node (lit ''program'') True 0 None
        [Node (lit ''command'') True 0 None
          [Node (lit ''command_name'') True 0 None [Node (lit ''word'') True 0 (Some (lit ''git'')) []]],
         Node (lit ''command'') True 4 None
          [Node (lit ''command_name'') True 4 None [Node (lit ''word'') True 4 (Some (lit ''run'')) []]]]\<rparr>"

lemmas request_eval =
  demo_request_def allow_git_def create_exec_approval_requirement_for_command_def request_commands_def
  check_multiple_def matches_cases request_fallback_def render_decision_for_unmatched_command_def
  requirement_of_evaluation_def derive_requested_execpolicy_amendment_def derive_forbidden_reason_def
  derive_prompt_reason_def most_specific_def granular_denied_def policy_prompts_def
  try_derive_execpolicy_amendment_for_allow_rules_def try_derive_execpolicy_amendment_for_prompt_rules_def

lemma file_names:
  "path_file_name (lit ''ls'') = Some (lit ''ls'')" "path_file_name (lit ''git'') = Some (lit ''git'')"
  "path_file_name (lit ''run'') = Some (lit ''run'')" "path_file_name (lit ''cargo'') = Some (lit ''cargo'')"
  by (simp_all add: path_file_name_def path_components_def component_of_def Let_def)

lemma not_shell_form: "length cmd \<noteq> 3 \<Longrightarrow> parse_shell_lc_plain_commands parse cmd = None"
  by (auto simp: parse_shell_lc_plain_commands_def extract_bash_command_def split: list.splits)

lemma safe_ls: "is_known_safe_command no_ps no_shell [lit ''ls'']"
  using file_names(1)
  by (simp add: known_safe_unfold rename_zsh_def is_safe_to_call_with_exec_def ALWAYS_SAFE_def)

lemma cargo_unknown:
  "\<not> is_known_safe_command no_ps no_shell [lit ''cargo'']" "\<not> command_might_be_dangerous parse [lit ''cargo'']"
proof -
  show "\<not> is_known_safe_command no_ps no_shell [lit ''cargo'']"
    using file_names(4)
    by (simp add: known_safe_unfold rename_zsh_def is_safe_to_call_with_exec_def ALWAYS_SAFE_def
        is_safe_command_windows_def try_parse_powershell_command_sequence_def is_powershell_executable_def
        to_ascii_lowercase_def to_ascii_lowercase_char_def not_shell_form Let_def)
  have "benign_name (lit ''cargo'')"
    by (simp add: benign_name_def is_path_sep_def ends_with_def strip_suffix_def starts_with_def)
  then show "\<not> command_might_be_dangerous parse [lit ''cargo'']"
    using benign_program [OF file_names(4)]
    by (simp add: command_might_be_dangerous_def not_shell_form del: is_dangerous_to_call_with_exec.simps)
qed

theorem skip_is_sound_witness:
  "\<exists>am. approval_for no_ps no_shell (\<lambda>_. None) policy_empty (demo_request UnlessTrusted [lit ''ls'']) =
     Some (Skip False am) \<and> is_known_safe_command no_ps no_shell [lit ''ls'']"
proof -
  have hits: "rule_hits policy_empty cmd = []" for cmd
    by (auto simp: rule_hits_def policy_empty_def split: list.splits option.splits)
  obtain am where skip: "approval_for no_ps no_shell (\<lambda>_. None) policy_empty (demo_request UnlessTrusted [lit ''ls'']) =
     Some (Skip False am)"
    using safe_ls by (simp add: request_eval hits from_matches_def not_shell_form)
  have "[lit ''ls''] \<in> set (request_commands no_shell (req_command (demo_request UnlessTrusted [lit ''ls''])))"
    by (simp add: request_eval not_shell_form)
  from skip_is_sound [OF skip this] hits skip show ?thesis by (auto simp: demo_request_def)
qed

lemma git_allowed: "rule_hits allow_git (lit ''git'' # args) = [PrefixRuleMatch [lit ''git''] Allow None]"
  by (simp add: allow_git_def policy_eval)

lemma two_commands_parsed:
  "request_commands (\<lambda>_. Some two_commands) [lit ''bash'', lit ''-lc'', lit ''s''] = [[lit ''git''], [lit ''run'']]"
proof -
  have "try_parse_word_only_commands_sequence two_commands = Some [[lit ''git''], [lit ''run'']]"
    by (simp add: two_commands_def tree_eval)
  then show ?thesis
    by (simp add: request_commands_def parse_shell_lc_plain_commands_def extract_bash_command_def
        detect_zsh_bash del: lit_Cons)
qed

end
