(* ===== verification/Tool_Orchestrator.thy ===== *)
theory Tool_Orchestrator
  imports Approval_Policy
begin

text \<open>
  Approvals and sandboxed execution of tool calls: the approval cache and defaults of
  \<^verbatim>\<open>crates/core/src/tools/sandboxing.rs\<close>, the initial sandbox of \<^verbatim>\<open>sandboxing/mod.rs\<close> and
  \<^verbatim>\<open>safety.rs\<close>, and the orchestrator of \<^verbatim>\<open>tools/orchestrator.rs\<close> (approval, first attempt, retry
  without a sandbox).

  A tool runtime is a record with one field per trait method; asking the user and running the
  tool act on a world.  The orchestrator also returns the list of what it did, in order: every
  question with its answer, and every attempt with its sandbox.  Telemetry is left out.  The model
  is the Linux build.
\<close>

section \<open>Sandboxes\<close>

datatype sandbox_type = NoSandbox | MacosSeatbelt | LinuxSeccomp | WindowsRestrictedToken

datatype windows_sandbox_level = Disabled | RestrictedToken | Elevated

datatype sandboxable_preference = Auto | Require | Forbid

text \<open>\<^verbatim>\<open>get_platform_sandbox\<close> on Linux: the Windows flag is not looked at.\<close>

definition get_platform_sandbox :: "bool \<Rightarrow> sandbox_type option" where
  "get_platform_sandbox windows_sandbox_enabled = Some LinuxSeccomp"

definition select_initial ::
  "sandbox_policy \<Rightarrow> sandboxable_preference \<Rightarrow> windows_sandbox_level \<Rightarrow> sandbox_type" where
  "select_initial pol pref level =
     (let platform =
        (case get_platform_sandbox (level \<noteq> Disabled) of Some t \<Rightarrow> t | None \<Rightarrow> NoSandbox)
      in
      case pref of
        Forbid \<Rightarrow> NoSandbox
      | Require \<Rightarrow> platform
      | Auto \<Rightarrow>
          (case pol of
             DangerFullAccess \<Rightarrow> NoSandbox
           | ExternalSandbox _ \<Rightarrow> NoSandbox
           | _ \<Rightarrow> platform))"

section \<open>Approvals\<close>

datatype review_decision =
    Approved
  | ApprovedExecpolicyAmendment execpolicy_amendment
  | ApprovedForSession
  | Denied
  | Abort

text \<open>The approval store; \<open>ser\<close> is the JSON serialisation of a key, which may fail.\<close>

record approval_store =
  approvals :: "rstring \<rightharpoonup> review_decision"

definition store_get ::
  "('k \<Rightarrow> rstring option) \<Rightarrow> approval_store \<Rightarrow> 'k \<Rightarrow> review_decision option" where
  "store_get ser st key = (case ser key of None \<Rightarrow> None | Some s \<Rightarrow> approvals st s)"

definition store_put ::
  "('k \<Rightarrow> rstring option) \<Rightarrow> approval_store \<Rightarrow> 'k \<Rightarrow> review_decision \<Rightarrow> approval_store" where
  "store_put ser st key d =
     (case ser key of None \<Rightarrow> st | Some s \<Rightarrow> st\<lparr>approvals := (approvals st)(s \<mapsto> d)\<rparr>)"

text \<open>\<open>fetch\<close> is the question put to the user; the flag of the result says whether it was asked.\<close>

definition with_cached_approval ::
  "('k \<Rightarrow> rstring option) \<Rightarrow> approval_store \<Rightarrow> 'k list \<Rightarrow> ('w \<Rightarrow> 'w \<times> review_decision) \<Rightarrow> 'w \<Rightarrow>
     'w \<times> approval_store \<times> review_decision \<times> bool" where
  "with_cached_approval ser st keys fetch w =
     (if keys = [] then (case fetch w of (w', d) \<Rightarrow> (w', st, d, True))
      else
        (let already_approved = list_all (\<lambda>key. store_get ser st key = Some ApprovedForSession) keys in
         if already_approved then (w, st, ApprovedForSession, False)
         else
           (case fetch w of
              (w', d) \<Rightarrow>
                (w',
                 if d = ApprovedForSession
                 then fold (\<lambda>key st. store_put ser st key ApprovedForSession) keys st
                 else st,
                 d, True))))"

definition default_exec_approval_requirement ::
  "ask_for_approval \<Rightarrow> sandbox_policy \<Rightarrow> exec_approval_requirement" where
  "default_exec_approval_requirement pol sandbox =
     (let unrestricted =
        (case sandbox of DangerFullAccess \<Rightarrow> True | ExternalSandbox _ \<Rightarrow> True | _ \<Rightarrow> False);
          needs_approval =
        (case pol of
           Never \<Rightarrow> False
         | OnFailure \<Rightarrow> False
         | OnRequest \<Rightarrow> \<not> unrestricted
         | Granular config \<Rightarrow> sandbox_approval config \<and> \<not> unrestricted
         | UnlessTrusted \<Rightarrow> True)
      in if needs_approval then NeedsApproval None None else Skip False None)"

datatype sandbox_override = NoOverride | BypassSandboxFirstAttempt

definition should_bypass_approval :: "ask_for_approval \<Rightarrow> bool \<Rightarrow> bool" where
  "should_bypass_approval pol already_approved =
     (if already_approved then True else pol = Never)"

definition wants_no_sandbox_approval :: "ask_for_approval \<Rightarrow> bool" where
  "wants_no_sandbox_approval pol = (\<not> (pol = Never \<or> pol = OnRequest))"

section \<open>The orchestrator\<close>

text \<open>Errors of a tool: a rejection, a denial by the sandbox with the output, anything else.\<close>

datatype tool_error = Rejected rstring | SandboxDenied rstring | OtherError rstring

record ('w, 'out) tool_runtime =
  rt_exec_approval_requirement :: "exec_approval_requirement option"
  rt_sandbox_mode_for_first_attempt :: sandbox_override
  rt_sandbox_preference :: sandboxable_preference
  rt_escalate_on_failure :: bool
  rt_wants_no_sandbox_approval :: "ask_for_approval \<Rightarrow> bool"
  rt_should_bypass_approval :: "ask_for_approval \<Rightarrow> bool \<Rightarrow> bool"
  rt_start_approval :: "'w \<Rightarrow> rstring option \<Rightarrow> 'w \<times> review_decision"
  rt_run :: "'w \<Rightarrow> sandbox_type \<Rightarrow> 'w \<times> (tool_error, 'out) result"

datatype event = Asked review_decision | Attempted sandbox_type

definition is_rejection :: "review_decision \<Rightarrow> bool" where
  "is_rejection d \<longleftrightarrow> d = Denied \<or> d = Abort"

definition rejected_by_user :: tool_error where
  "rejected_by_user = Rejected (lit ''rejected by user'')"

definition build_denial_reason_from_output :: "rstring \<Rightarrow> rstring" where
  "build_denial_reason_from_output output = lit ''command failed; retry without sandbox?''"

text \<open>The part after the first approval, with the events so far.\<close>

definition attempt_phase ::
  "('w, 'out) tool_runtime \<Rightarrow> sandbox_policy \<Rightarrow> windows_sandbox_level \<Rightarrow> ask_for_approval \<Rightarrow> bool \<Rightarrow> 'w \<Rightarrow>
     event list \<Rightarrow> 'w \<times> event list \<times> (tool_error, 'out) result" where
  "attempt_phase tool sandbox level pol already_approved w evs =
     (let initial_sandbox =
        (case rt_sandbox_mode_for_first_attempt tool of
           BypassSandboxFirstAttempt \<Rightarrow> NoSandbox
         | NoOverride \<Rightarrow> select_initial sandbox (rt_sandbox_preference tool) level)
      in
      case rt_run tool w initial_sandbox of
        (w1, Inl (SandboxDenied output)) \<Rightarrow>
          (let evs1 = evs @ [Attempted initial_sandbox] in
           if \<not> rt_escalate_on_failure tool then (w1, evs1, Err (SandboxDenied output))
           else if \<not> rt_wants_no_sandbox_approval tool pol then (w1, evs1, Err (SandboxDenied output))
           else if \<not> rt_should_bypass_approval tool pol already_approved
           then
             (case rt_start_approval tool w1 (Some (build_denial_reason_from_output output)) of
                (w2, d) \<Rightarrow>
                  (if is_rejection d then (w2, evs1 @ [Asked d], Err rejected_by_user)
                   else
                     (case rt_run tool w2 NoSandbox of
                        (w3, r) \<Rightarrow> (w3, evs1 @ [Asked d, Attempted NoSandbox], r))))
           else
             (case rt_run tool w1 NoSandbox of
                (w3, r) \<Rightarrow> (w3, evs1 @ [Attempted NoSandbox], r)))
      | (w1, r) \<Rightarrow> (w1, evs @ [Attempted initial_sandbox], r))"

definition orchestrator_run ::
  "('w, 'out) tool_runtime \<Rightarrow> sandbox_policy \<Rightarrow> windows_sandbox_level \<Rightarrow> ask_for_approval \<Rightarrow> 'w \<Rightarrow>
     'w \<times> event list \<times> (tool_error, 'out) result" where
  "orchestrator_run tool sandbox level pol w =
     (let requirement =
        (case rt_exec_approval_requirement tool of
           Some r \<Rightarrow> r
         | None \<Rightarrow> default_exec_approval_requirement pol sandbox)
      in
      case requirement of
        Skip _ _ \<Rightarrow> attempt_phase tool sandbox level pol False w []
      | ForbiddenCall reason \<Rightarrow> (w, [], Err (Rejected reason))
      | NeedsApproval reason _ \<Rightarrow>
          (case rt_start_approval tool w reason of
             (w1, d) \<Rightarrow>
               (if is_rejection d then (w1, [Asked d], Err rejected_by_user)
                else attempt_phase tool sandbox level pol True w1 [Asked d])))"

section \<open>The runtimes\<close>

text \<open>
  The runtimes of \<^verbatim>\<open>tools/runtimes\<close>.  Their world holds the approval store of the session beside the
  outer world; \<open>ask\<close> is the request to the user (with the reason shown) and \<open>exec\<close> the execution of the
  prepared command under a sandbox.
\<close>

record shell_request =
  sr_command :: command
  sr_cwd :: rstring
  sr_permissions :: sandbox_permissions
  sr_justification :: "rstring option"
  sr_requirement :: exec_approval_requirement

record shell_approval_key =
  key_command :: command
  key_cwd :: rstring
  key_permissions :: sandbox_permissions

definition shell_approval_keys :: "shell_request \<Rightarrow> shell_approval_key list" where
  "shell_approval_keys req =
     [\<lparr>key_command = sr_command req, key_cwd = sr_cwd req, key_permissions = sr_permissions req\<rparr>]"

definition shell_sandbox_mode :: "sandbox_permissions \<Rightarrow> exec_approval_requirement \<Rightarrow> sandbox_override" where
  "shell_sandbox_mode perms requirement =
     (if requires_escalated_permissions perms \<or> (case requirement of Skip bypass _ \<Rightarrow> bypass | _ \<Rightarrow> False)
      then BypassSandboxFirstAttempt else NoOverride)"

definition cached_ask ::
  "('k \<Rightarrow> rstring option) \<Rightarrow> 'k list \<Rightarrow> ('w \<Rightarrow> 'w \<times> review_decision) \<Rightarrow> 'w \<times> approval_store \<Rightarrow>
     ('w \<times> approval_store) \<times> review_decision" where
  "cached_ask ser keys fetch ws =
     (case with_cached_approval ser (snd ws) keys fetch (fst ws) of (w', st', d, _) \<Rightarrow> ((w', st'), d))"

definition shell_runtime ::
  "(shell_approval_key \<Rightarrow> rstring option) \<Rightarrow> ('w \<Rightarrow> rstring option \<Rightarrow> 'w \<times> review_decision) \<Rightarrow>
   ('w \<Rightarrow> sandbox_type \<Rightarrow> 'w \<times> (tool_error, 'out) result) \<Rightarrow> shell_request \<Rightarrow>
   ('w \<times> approval_store, 'out) tool_runtime" where
  "shell_runtime ser ask exec req =
     \<lparr>rt_exec_approval_requirement = Some (sr_requirement req),
      rt_sandbox_mode_for_first_attempt = shell_sandbox_mode (sr_permissions req) (sr_requirement req),
      rt_sandbox_preference = Auto,
      rt_escalate_on_failure = True,
      rt_wants_no_sandbox_approval = wants_no_sandbox_approval,
      rt_should_bypass_approval = should_bypass_approval,
      rt_start_approval = (\<lambda>ws retry_reason.
        cached_ask ser (shell_approval_keys req)
          (\<lambda>w. ask w (case retry_reason of Some r \<Rightarrow> Some r | None \<Rightarrow> sr_justification req)) ws),
      rt_run = (\<lambda>(w, st) sandbox. case exec w sandbox of (w', r) \<Rightarrow> ((w', st), r))\<rparr>"

record unified_exec_request = shell_request +
  ur_tty :: bool

record unified_exec_approval_key = shell_approval_key +
  key_tty :: bool

definition unified_exec_approval_keys :: "unified_exec_request \<Rightarrow> unified_exec_approval_key list" where
  "unified_exec_approval_keys req =
     [\<lparr>key_command = sr_command req, key_cwd = sr_cwd req, key_permissions = sr_permissions req,
       key_tty = ur_tty req\<rparr>]"

definition unified_exec_runtime ::
  "(unified_exec_approval_key \<Rightarrow> rstring option) \<Rightarrow> ('w \<Rightarrow> rstring option \<Rightarrow> 'w \<times> review_decision) \<Rightarrow>
   ('w \<Rightarrow> sandbox_type \<Rightarrow> 'w \<times> (tool_error, 'out) result) \<Rightarrow> unified_exec_request \<Rightarrow>
   ('w \<times> approval_store, 'out) tool_runtime" where
  "unified_exec_runtime ser ask exec req =
     \<lparr>rt_exec_approval_requirement = Some (sr_requirement req),
      rt_sandbox_mode_for_first_attempt = shell_sandbox_mode (sr_permissions req) (sr_requirement req),
      rt_sandbox_preference = Auto,
      rt_escalate_on_failure = True,
      rt_wants_no_sandbox_approval = wants_no_sandbox_approval,
      rt_should_bypass_approval = should_bypass_approval,
      rt_start_approval = (\<lambda>ws retry_reason.
        cached_ask ser (unified_exec_approval_keys req)
          (\<lambda>w. ask w (case retry_reason of Some r \<Rightarrow> Some r | None \<Rightarrow> sr_justification req)) ws),
      rt_run = (\<lambda>(w, st) sandbox. case exec w sandbox of (w', r) \<Rightarrow> ((w', st), r))\<rparr>"

text \<open>The patch runtime asks afresh, without the cache, when it retries after a denial.\<close>

record apply_patch_request =
  ap_file_paths :: "rstring list"
  ap_requirement :: exec_approval_requirement

definition apply_patch_runtime ::
  "(rstring \<Rightarrow> rstring option) \<Rightarrow> ('w \<Rightarrow> rstring option \<Rightarrow> 'w \<times> review_decision) \<Rightarrow>
   ('w \<Rightarrow> sandbox_type \<Rightarrow> 'w \<times> (tool_error, 'out) result) \<Rightarrow> apply_patch_request \<Rightarrow>
   ('w \<times> approval_store, 'out) tool_runtime" where
  "apply_patch_runtime ser ask exec req =
     \<lparr>rt_exec_approval_requirement = Some (ap_requirement req),
      rt_sandbox_mode_for_first_attempt = NoOverride,
      rt_sandbox_preference = Auto,
      rt_escalate_on_failure = True,
      rt_wants_no_sandbox_approval = (\<lambda>pol. pol \<noteq> Never),
      rt_should_bypass_approval = should_bypass_approval,
      rt_start_approval = (\<lambda>ws retry_reason.
        case retry_reason of
          Some reason \<Rightarrow> (case ask (fst ws) (Some reason) of (w', d) \<Rightarrow> ((w', snd ws), d))
        | None \<Rightarrow> cached_ask ser (ap_file_paths req) (\<lambda>w. ask w None) ws),
      rt_run = (\<lambda>(w, st) sandbox. case exec w sandbox of (w', r) \<Rightarrow> ((w', st), r))\<rparr>"

section \<open>Leaving the sandbox\<close>

text \<open>
  The contract every runtime keeps: a retry outside the sandbox is only skipped past the user when
  the user was asked before, and never happens under \<^verbatim>\<open>Never\<close>.
\<close>

locale approving_runtime =
  fixes tool :: "('w, 'out) tool_runtime"
  assumes bypass_default: "rt_should_bypass_approval tool = should_bypass_approval"
    and never_escalates: "\<not> rt_wants_no_sandbox_approval tool Never"
    and automatic: "rt_sandbox_preference tool = Auto"

text \<open>A trace in which every attempt outside the sandbox comes after a granted question, unless \<open>ok\<close>.\<close>

fun guarded :: "bool \<Rightarrow> event list \<Rightarrow> bool" where
  "guarded ok [] = True"
| "guarded ok (Asked d # es) = (if is_rejection d then es = [] else guarded True es)"
| "guarded ok (Attempted s # es) = ((s = NoSandbox \<longrightarrow> ok) \<and> guarded ok es)"

definition attempts :: "event list \<Rightarrow> nat" where
  "attempts evs = length (filter (\<lambda>e. case e of Attempted _ \<Rightarrow> True | _ \<Rightarrow> False) evs)"

lemma select_initial_sandboxed:
  "\<not> has_full_disk_write_access sandbox \<Longrightarrow> select_initial sandbox Auto level = LinuxSeccomp"
  by (cases sandbox) (simp_all add: select_initial_def get_platform_sandbox_def)

context approving_runtime
begin

lemma attempt_phase_guarded:
  assumes "attempt_phase tool sandbox level pol approved w evs = (w', evs', r)"
    and "\<not> has_full_disk_write_access sandbox"
  shows "\<exists>more. evs' = evs @ more \<and> attempts more \<le> 2 \<and>
    guarded (approved \<or> rt_sandbox_mode_for_first_attempt tool = BypassSandboxFirstAttempt) more"
  using assms(1) never_escalates select_initial_sandboxed [OF assms(2), of level]
  by (auto simp: attempt_phase_def Let_def bypass_default should_bypass_approval_def automatic attempts_def
      split: prod.splits sum.splits tool_error.splits if_splits sandbox_override.splits)

lemma run_guarded:
  assumes "orchestrator_run tool sandbox level pol w = (w', evs, r)"
    and "\<not> has_full_disk_write_access sandbox"
  shows "guarded (rt_sandbox_mode_for_first_attempt tool = BypassSandboxFirstAttempt) evs \<and> attempts evs \<le> 2"
proof -
  define req where "req = (case rt_exec_approval_requirement tool of
    Some r \<Rightarrow> r | None \<Rightarrow> default_exec_approval_requirement pol sandbox)"
  consider b a where "req = Skip b a" "attempt_phase tool sandbox level pol False w [] = (w', evs, r)"
    | "evs = []"
    | d where "evs = [Asked d]" "is_rejection d"
    | d w1 where "\<not> is_rejection d" "attempt_phase tool sandbox level pol True w1 [Asked d] = (w', evs, r)"
    using assms(1)
    by (auto simp: orchestrator_run_def req_def [symmetric] Let_def
        split: exec_approval_requirement.splits prod.splits if_splits)
  then show ?thesis
  proof cases
    case 1
    from attempt_phase_guarded [OF this(2) assms(2)] show ?thesis by auto
  next
    case 4
    from attempt_phase_guarded [OF this(2) assms(2)] \<open>\<not> is_rejection d\<close> show ?thesis
      by (auto simp: attempts_def)
  qed (simp_all add: attempts_def)
qed

lemma run_guarded_unless_skip:
  assumes "orchestrator_run tool sandbox level pol w = (w', evs, r)" "\<not> has_full_disk_write_access sandbox"
    and "rt_exec_approval_requirement tool = Some requirement" "\<not> guarded False evs"
  shows "(\<exists>bypass am. requirement = Skip bypass am) \<and>
    rt_sandbox_mode_for_first_attempt tool = BypassSandboxFirstAttempt"
proof (cases requirement)
  case (Skip bypass am)
  with run_guarded [OF assms(1,2)] assms(4) show ?thesis
    by (cases "rt_sandbox_mode_for_first_attempt tool = BypassSandboxFirstAttempt") auto
next
  case (NeedsApproval reason am)
  have "guarded False evs"
  proof (cases "rt_start_approval tool w reason")
    case (Pair w1 d)
    with assms(1) NeedsApproval assms(3)
    have "if is_rejection d then evs = [Asked d] else attempt_phase tool sandbox level pol True w1 [Asked d] = (w', evs, r)"
      by (auto simp: orchestrator_run_def split: if_splits)
    then show ?thesis
      using attempt_phase_guarded [OF _ assms(2), of level pol True w1 "[Asked d]" w' evs r]
      by (auto split: if_splits)
  qed
  with assms(4) show ?thesis by simp
next
  case (ForbiddenCall reason)
  with assms show ?thesis by (auto simp: orchestrator_run_def)
qed

end

interpretation shell: approving_runtime "shell_runtime ser ask exec req" for ser ask exec req
  by unfold_locales (simp_all add: shell_runtime_def wants_no_sandbox_approval_def)

interpretation unified_exec: approving_runtime "unified_exec_runtime ser ask exec req" for ser ask exec req
  by unfold_locales (simp_all add: unified_exec_runtime_def wants_no_sandbox_approval_def)

interpretation apply_patch_rt: approving_runtime "apply_patch_runtime ser ask exec req" for ser ask exec req
  by unfold_locales (simp_all add: apply_patch_runtime_def)



section \<open>The approval cache\<close>

lemma store_get_put:
  "store_get ser (store_put ser st k d) k' =
     (if ser k \<noteq> None \<and> ser k' = ser k then Some d else store_get ser st k')"
  by (auto simp: store_get_def store_put_def split: option.splits)

lemma store_get_fold:
  "store_get ser (fold (\<lambda>key st. store_put ser st key ApprovedForSession) keys st) k =
     (if \<exists>key \<in> set keys. ser key \<noteq> None \<and> ser k = ser key then Some ApprovedForSession else store_get ser st k)"
  by (induction keys arbitrary: st) (auto simp: store_get_put)

text \<open>
  C33.  The approval cache answers for the user only when every key of the request was approved for
  the session; it learns an approval only for the keys of a request the user approved for the
  session, and from then on any request over a subset of those keys is answered without asking.
\<close>

theorem approval_cache_sound:
  assumes "with_cached_approval ser st keys fetch w = (w', st', d, asked)"
  shows "(\<not> asked \<longrightarrow> keys \<noteq> [] \<and> d = ApprovedForSession \<and> w' = w \<and> st' = st \<and>
        (\<forall>k \<in> set keys. store_get ser st k = Some ApprovedForSession)) \<and>
    (\<forall>k. store_get ser st' k \<noteq> store_get ser st k \<longrightarrow>
        asked \<and> d = ApprovedForSession \<and> (\<exists>key \<in> set keys. ser k = ser key)) \<and>
    (d = ApprovedForSession \<longrightarrow> (\<forall>k \<in> set keys. ser k \<noteq> None) \<longrightarrow>
        (\<forall>ks fetch' w1. ks \<noteq> [] \<longrightarrow> set ks \<subseteq> set keys \<longrightarrow>
           with_cached_approval ser st' ks fetch' w1 = (w1, st', ApprovedForSession, False)))"
proof -
  have cached: "with_cached_approval ser st' ks fetch' w1 = (w1, st', ApprovedForSession, False)"
    if "ks \<noteq> []" "\<forall>k \<in> set ks. store_get ser st' k = Some ApprovedForSession" for ks fetch' w1
    using that by (simp add: with_cached_approval_def list_all_iff)
  show ?thesis
  proof (cases "keys = []")
    case True
    with assms show ?thesis by (auto simp: with_cached_approval_def split: prod.splits)
  next
    case ne: False
    show ?thesis
    proof (cases "list_all (\<lambda>key. store_get ser st key = Some ApprovedForSession) keys")
      case True
      with assms ne have res: "w' = w" "st' = st" "d = ApprovedForSession" "\<not> asked"
        by (simp_all add: with_cached_approval_def)
      have "with_cached_approval ser st' ks fetch' w1 = (w1, st', ApprovedForSession, False)"
        if "ks \<noteq> []" "set ks \<subseteq> set keys" for ks fetch' w1
        using that True by (intro cached) (auto simp: list_all_iff res)
      with True ne show ?thesis by (auto simp: list_all_iff res)
    next
      case False
      with assms ne have "asked"
        and st': "st' = (if d = ApprovedForSession
           then fold (\<lambda>key st. store_put ser st key ApprovedForSession) keys st else st)"
        by (auto simp: with_cached_approval_def split: prod.splits)
      have "with_cached_approval ser st' ks fetch' w1 = (w1, st', ApprovedForSession, False)"
        if "d = ApprovedForSession" "\<forall>k \<in> set keys. ser k \<noteq> None" "ks \<noteq> []" "set ks \<subseteq> set keys"
        for ks fetch' w1
        using that by (intro cached) (auto simp: st' store_get_fold)
      with \<open>asked\<close> show ?thesis by (auto simp: st' store_get_fold)
    qed
  qed
qed

theorem approval_cache_sound_witness:
  "\<exists>st'. with_cached_approval Some \<lparr>approvals = Map.empty\<rparr> [lit ''a'', lit ''b''] (\<lambda>w. (w, ApprovedForSession)) () =
       ((), st', ApprovedForSession, True) \<and>
     with_cached_approval Some st' [lit ''b''] (\<lambda>w. (w, Denied)) () = ((), st', ApprovedForSession, False)"
proof -
  obtain st' where run: "with_cached_approval Some \<lparr>approvals = Map.empty\<rparr> [lit ''a'', lit ''b'']
      (\<lambda>w. (w, ApprovedForSession)) () = ((), st', ApprovedForSession, True)"
    by (simp add: with_cached_approval_def store_get_def)
  have "with_cached_approval Some st' [lit ''b''] (\<lambda>w. (w, Denied)) () = ((), st', ApprovedForSession, False)"
    by (rule approval_cache_sound [OF run, THEN conjunct2, THEN conjunct2, rule_format]) simp_all
  with run show ?thesis by blast
qed

end
