(* ===== verification/Patch_Safety.thy ===== *)
theory Patch_Safety
  imports Tool_Orchestrator
begin

text \<open>
  Which patches are applied without asking: the writable roots of a sandbox policy
  (\<^verbatim>\<open>crates/protocol/src/protocol.rs\<close>), absolute paths (\<^verbatim>\<open>crates/utils/src/absolute_path.rs\<close>) and the
  assessment of a patch (\<^verbatim>\<open>crates/core/src/safety.rs\<close>).

  The machine is the record \<open>host\<close>: what exists on disk, the home directory, \<^verbatim>\<open>TMPDIR\<close>, and the two
  functions of the third-party crate that makes paths absolute.  Logging is left out.
\<close>

section \<open>Absolute paths\<close>

record host =
  host_is_dir :: "rstring \<Rightarrow> bool"
  host_is_file :: "rstring \<Rightarrow> bool"
  host_exists :: "rstring \<Rightarrow> bool"
  host_read :: "rstring \<Rightarrow> (io_error, rstring) result"
  host_home :: "rstring option"
  host_tmpdir :: "rstring option"
  host_absolutize :: "rstring \<Rightarrow> (io_error, rstring) result"
  host_absolutize_from :: "rstring \<Rightarrow> rstring \<Rightarrow> rstring"

definition maybe_expand_home_directory :: "host \<Rightarrow> rstring \<Rightarrow> rstring" where
  "maybe_expand_home_directory h path =
     (case host_home h of
        None \<Rightarrow> path
      | Some home \<Rightarrow>
          (case strip_prefix (lit ''~'') path of
             None \<Rightarrow> path
           | Some rest_path \<Rightarrow>
               (if rest_path = [] then home
                else
                  (case strip_prefix (lit ''/'') rest_path of
                     Some tail \<Rightarrow> path_join home (dropWhile (\<lambda>c. c = 47) tail)
                   | None \<Rightarrow> path))))"

definition resolve_path_against_base :: "host \<Rightarrow> rstring \<Rightarrow> rstring \<Rightarrow> rstring" where
  "resolve_path_against_base h path base =
     host_absolutize_from h (maybe_expand_home_directory h path) base"

definition from_absolute_path :: "host \<Rightarrow> rstring \<Rightarrow> (io_error, rstring) result" where
  "from_absolute_path h path = host_absolutize h (maybe_expand_home_directory h path)"

definition absolute_join :: "host \<Rightarrow> rstring \<Rightarrow> rstring \<Rightarrow> rstring" where
  "absolute_join h base path = resolve_path_against_base h path base"

text \<open>\<^verbatim>\<open>Path::starts_with\<close> compares components.\<close>

definition path_starts_with :: "rstring \<Rightarrow> rstring \<Rightarrow> bool" where
  "path_starts_with base p \<longleftrightarrow> prefix (path_components base) (path_components p)"

section \<open>Writable roots\<close>

record writable_root =
  wr_root :: rstring
  read_only_subpaths :: "rstring list"

definition is_git_pointer_file :: "host \<Rightarrow> rstring \<Rightarrow> bool" where
  "is_git_pointer_file h path \<longleftrightarrow> host_is_file h path \<and> path_file_name path = Some (lit ''.git'')"

definition resolve_gitdir_from_file :: "host \<Rightarrow> rstring \<Rightarrow> rstring option" where
  "resolve_gitdir_from_file h dot_git =
     (case host_read h dot_git of
        Inl _ \<Rightarrow> None
      | Inr contents \<Rightarrow>
          (case after_colon (trim contents) of
             None \<Rightarrow> None
           | Some gitdir_raw \<Rightarrow>
               (let gitdir_raw = trim gitdir_raw in
                if gitdir_raw = [] then None
                else
                  (case path_parent dot_git of
                     None \<Rightarrow> None
                   | Some base \<Rightarrow>
                       (let gitdir_path = resolve_path_against_base h gitdir_raw base in
                        if \<not> host_exists h gitdir_path then None else Some gitdir_path)))))"

definition root_subpaths :: "host \<Rightarrow> rstring \<Rightarrow> rstring list" where
  "root_subpaths h root =
     (let top_level_git = absolute_join h root (lit ''.git'');
          is_file = host_is_file h top_level_git;
          is_dir = host_is_dir h top_level_git;
          git_paths =
            (if is_dir \<or> is_file
             then
               (if is_file \<and> is_git_pointer_file h top_level_git
                then (case resolve_gitdir_from_file h top_level_git of Some gitdir \<Rightarrow> [gitdir] | None \<Rightarrow> [])
                else []) @ [top_level_git]
             else []);
          top_level_savfox = absolute_join h root (lit ''.savfox'')
      in git_paths @ (if host_is_dir h top_level_savfox then [top_level_savfox] else []))"

text \<open>
  Making \<^verbatim>\<open>/tmp\<close> absolute cannot fail (it is absolute already), so the \<^verbatim>\<open>expect\<close> on it is not a branch.
\<close>

definition get_writable_roots_with_cwd :: "host \<Rightarrow> sandbox_policy \<Rightarrow> rstring \<Rightarrow> writable_root list" where
  "get_writable_roots_with_cwd h pol cwd =
     (case pol of
        WorkspaceWrite roots _ no_tmpdir no_slash_tmp \<Rightarrow>
          (let cwd_roots = (case from_absolute_path h cwd of Inr c \<Rightarrow> [c] | Inl _ \<Rightarrow> []);
               tmp_roots =
                 (if no_slash_tmp then []
                  else (case from_absolute_path h (lit ''/tmp'') of
                          Inr t \<Rightarrow> (if host_is_dir h t then [t] else [])
                        | Inl _ \<Rightarrow> []));
               env_roots =
                 (if no_tmpdir then []
                  else (case host_tmpdir h of
                          None \<Rightarrow> []
                        | Some t \<Rightarrow>
                            (if t = [] then []
                             else (case from_absolute_path h t of Inr p \<Rightarrow> [p] | Inl _ \<Rightarrow> []))))
           in map (\<lambda>root. \<lparr>wr_root = root, read_only_subpaths = root_subpaths h root\<rparr>)
                (roots @ cwd_roots @ tmp_roots @ env_roots))
      | _ \<Rightarrow> [])"

definition is_path_writable :: "writable_root \<Rightarrow> rstring \<Rightarrow> bool" where
  "is_path_writable wr path =
     (if \<not> path_starts_with (wr_root wr) path then False
      else \<not> list_ex (\<lambda>subpath. path_starts_with subpath path) (read_only_subpaths wr))"

section \<open>Assessing a patch\<close>

datatype apply_patch_file_change =
    Add rstring
  | Delete rstring
  | Update rstring "rstring option" rstring

text \<open>The map of changes, one entry per path; no operation depends on its order.\<close>

record apply_patch_action =
  action_changes :: "(rstring \<times> apply_patch_file_change) list"
  action_patch :: rstring
  action_cwd :: rstring

definition resolve_path :: "rstring \<Rightarrow> rstring \<Rightarrow> rstring" where
  "resolve_path base path = (if path \<noteq> [] \<and> hd path = 47 then path else path_join base path)"

text \<open>\<^verbatim>\<open>normalize\<close>: the components of the \<^verbatim>\<open>PathBuf\<close> built by pushing and popping.\<close>

fun normalize_step :: "path_component list \<Rightarrow> path_component \<Rightarrow> path_component list" where
  "normalize_step out ParentDir = (if out = [] \<or> last out = RootDir then out else butlast out)"
| "normalize_step out CurDir = out"
| "normalize_step out RootDir = [RootDir]"
| "normalize_step out (Normal w) = out @ [Normal w]"

definition normalize_path :: "rstring \<Rightarrow> rstring" where
  "normalize_path p = path_str (foldl normalize_step [] (path_components p))"

definition patch_path_writable :: "writable_root list \<Rightarrow> rstring \<Rightarrow> rstring \<Rightarrow> bool" where
  "patch_path_writable roots cwd p =
     (let abs_path = normalize_path (resolve_path cwd p) in list_ex (\<lambda>wr. is_path_writable wr abs_path) roots)"

fun changes_constrained :: "(rstring \<Rightarrow> bool) \<Rightarrow> (rstring \<times> apply_patch_file_change) list \<Rightarrow> bool" where
  "changes_constrained writable [] = True"
| "changes_constrained writable ((path, change) # cs) =
     (case change of
        Update _ move_path _ \<Rightarrow>
          (if \<not> writable path then False
           else
             (case move_path of
                Some dest \<Rightarrow> (if \<not> writable dest then False else changes_constrained writable cs)
              | None \<Rightarrow> changes_constrained writable cs))
      | _ \<Rightarrow> (if \<not> writable path then False else changes_constrained writable cs))"

definition is_write_patch_constrained_to_writable_paths ::
  "host \<Rightarrow> apply_patch_action \<Rightarrow> sandbox_policy \<Rightarrow> rstring \<Rightarrow> bool" where
  "is_write_patch_constrained_to_writable_paths h action pol cwd =
     (case pol of
        ReadOnly \<Rightarrow> False
      | DangerFullAccess \<Rightarrow> True
      | ExternalSandbox _ \<Rightarrow> True
      | WorkspaceWrite _ _ _ _ \<Rightarrow>
          changes_constrained (patch_path_writable (get_writable_roots_with_cwd h pol cwd) cwd)
            (action_changes action))"

datatype safety_check = AutoApprove sandbox_type bool | AskUser | Reject rstring

definition assess_patch_safety ::
  "host \<Rightarrow> apply_patch_action \<Rightarrow> ask_for_approval \<Rightarrow> sandbox_policy \<Rightarrow> rstring \<Rightarrow> windows_sandbox_level \<Rightarrow>
     safety_check" where
  "assess_patch_safety h action approval pol cwd level =
     (if action_changes action = [] then Reject (lit ''empty patch'')
      else if is_write_patch_constrained_to_writable_paths h action pol cwd \<or> approval = OnFailure
      then
        (case pol of
           DangerFullAccess \<Rightarrow> AutoApprove NoSandbox False
         | ExternalSandbox _ \<Rightarrow> AutoApprove NoSandbox False
         | _ \<Rightarrow>
             (case get_platform_sandbox (level \<noteq> Disabled) of
                Some t \<Rightarrow> AutoApprove t False
              | None \<Rightarrow> AskUser))
      else if approval = Never \<or>
        (case approval of Granular config \<Rightarrow> \<not> sandbox_approval config | _ \<Rightarrow> False)
      then Reject (lit ''writing outside of the project; rejected by user approval settings'')
      else AskUser)"

section \<open>Normalised paths\<close>

fun plain_component :: "path_component \<Rightarrow> bool" where
  "plain_component (Normal w) = (w \<noteq> [] \<and> 47 \<notin> set w \<and> w \<noteq> lit ''.'' \<and> w \<noteq> lit ''..'')"
| "plain_component _ = False"

definition normal_form :: "path_component list \<Rightarrow> bool" where
  "normal_form cs \<longleftrightarrow> (\<exists>ns. cs = RootDir # ns \<and> list_all plain_component ns)"

definition resolved :: "rstring \<Rightarrow> rstring \<Rightarrow> path_component list" where
  "resolved cwd p = foldl normalize_step [] (path_components (resolve_path cwd p))"

lemma components_of_absolute:
  assumes "p \<noteq> []" "hd p = 47"
  obtains cs where "path_components p = RootDir # cs"
    "\<forall>c \<in> set cs. c = ParentDir \<or> plain_component c"
proof -
  let ?cs = "map component_of (filter (\<lambda>w. w \<noteq> []) (split_on 47 p))"
  have "c = ParentDir \<or> plain_component c" if c: "c \<in> set (filter (\<lambda>c. c \<noteq> CurDir) ?cs)" for c
  proof -
    obtain w where w: "w \<in> set (split_on 47 p)" "w \<noteq> []" "c = component_of w" "c \<noteq> CurDir"
      using c by auto
    then show ?thesis
      using split_on_parts [OF w(1)] by (auto simp: component_of_def split: if_splits)
  qed
  moreover have "path_components p = RootDir # filter (\<lambda>c. c \<noteq> CurDir) ?cs"
    using assms by (simp add: path_components_def Let_def)
  ultimately show thesis using that by blast
qed

lemma normalize_step_normal:
  assumes "normal_form out" "c = ParentDir \<or> plain_component c"
  shows "normal_form (normalize_step out c)"
proof -
  obtain ns where out: "out = RootDir # ns" "list_all plain_component ns"
    using assms(1) by (auto simp: normal_form_def)
  show ?thesis
  proof (cases c)
    case ParentDir
    show ?thesis
    proof (cases ns rule: rev_cases)
      case Nil
      with out ParentDir show ?thesis by (simp add: normal_form_def)
    next
      case (snoc ms m)
      with out have "plain_component m" by simp
      then have "m \<noteq> RootDir" by auto
      with snoc out ParentDir show ?thesis by (simp add: normal_form_def)
    qed
  next
    case (Normal w)
    with assms(2) out show ?thesis by (auto simp: normal_form_def)
  qed (use assms(2) in simp_all)
qed

lemma normalize_fold:
  "normal_form out \<Longrightarrow> \<forall>c \<in> set cs. c = ParentDir \<or> plain_component c \<Longrightarrow> normal_form (foldl normalize_step out cs)"
  by (induction cs arbitrary: out) (auto simp: normalize_step_normal)

lemma resolve_path_absolute:
  "cwd \<noteq> [] \<Longrightarrow> hd cwd = 47 \<Longrightarrow> resolve_path cwd p \<noteq> [] \<and> hd (resolve_path cwd p) = 47"
  by (auto simp: resolve_path_def path_join_def)

lemma resolved_normal:
  assumes "cwd \<noteq> []" "hd cwd = 47"
  shows "normal_form (resolved cwd p)"
proof -
  obtain cs where cs: "path_components (resolve_path cwd p) = RootDir # cs"
    "\<forall>c \<in> set cs. c = ParentDir \<or> plain_component c"
    using components_of_absolute resolve_path_absolute [OF assms] by blast
  then show ?thesis
    using normalize_fold [OF _ cs(2), of "[RootDir]"] by (simp add: resolved_def normal_form_def)
qed

lemma components_of_names:
  assumes "list_all plain_component ns"
  shows "map component_of (map component_str ns) = ns"
  using assms by (induction ns) (auto simp: component_of_def elim!: plain_component.elims)

lemma plain_names:
  "list_all plain_component ns \<Longrightarrow> w \<in> set (map component_str ns) \<Longrightarrow> w \<noteq> [] \<and> 47 \<notin> set w"
  by (induction ns) (auto elim!: plain_component.elims)

lemma components_path_str:
  assumes "normal_form cs"
  shows "path_components (path_str cs) = cs"
proof -
  obtain ns where cs: "cs = RootDir # ns" "list_all plain_component ns"
    using assms by (auto simp: normal_form_def)
  show ?thesis
  proof (cases "ns = []")
    case True
    then show ?thesis by (simp add: cs path_str_def path_components_def Let_def)
  next
    case False
    let ?ws = "map component_str ns"
    have str: "path_str cs = join_str [47] ([] # ?ws)"
      using False by (simp add: cs path_str_def)
    have hd: "path_str cs \<noteq> []" "hd (path_str cs) = 47"
      unfolding str using False by (simp_all add: join_str_Cons)
    have "split_on 47 (path_str cs) = [] # ?ws"
      unfolding str by (rule split_join) (use plain_names [OF cs(2)] in auto)
    moreover have "filter (\<lambda>w. w \<noteq> []) ?ws = ?ws"
      using plain_names [OF cs(2)] by (auto simp: filter_id_conv)
    moreover have "filter (\<lambda>c. c \<noteq> CurDir) ns = ns"
      using cs(2) by (auto simp: filter_id_conv list_all_iff)
    ultimately show ?thesis
      using hd components_of_names [OF cs(2)] by (simp add: path_components_def Let_def cs del: map_map)
  qed
qed

lemma constrained_paths:
  assumes "changes_constrained writable cs" "(path, change) \<in> set cs"
    and "q = path \<or> (\<exists>u c. change = Update u (Some q) c)"
  shows "writable q"
  using assms
proof (induction writable cs rule: changes_constrained.induct)
  case (2 writable p ch cs)
  then show ?case
    by (cases ch) (auto split: option.splits if_splits)
qed simp

text \<open>
  A patch that is applied without asking under a workspace-write policy (other than
  \<^verbatim>\<open>OnFailure\<close>, which leaves everything to the sandbox) runs in the sandbox, and every path it
  touches, move targets included, lies after removal of all \<^verbatim>\<open>..\<close> below a writable root and outside the
  protected subpaths of that root.
\<close>

lemma auto_approved_patch_confined:
  assumes "assess_patch_safety h action approval (WorkspaceWrite rs n t s) cwd level = AutoApprove sb expl"
    and "approval \<noteq> OnFailure" "cwd \<noteq> []" "hd cwd = 47"
    and "(path, change) \<in> set (action_changes action)" "q = path \<or> (\<exists>u c. change = Update u (Some q) c)"
  shows "sb = LinuxSeccomp \<and> ParentDir \<notin> set (resolved cwd q) \<and>
    (\<exists>wr \<in> set (get_writable_roots_with_cwd h (WorkspaceWrite rs n t s) cwd).
       prefix (path_components (wr_root wr)) (resolved cwd q) \<and>
       (\<forall>sub \<in> set (read_only_subpaths wr). \<not> prefix (path_components sub) (resolved cwd q)))"
proof -
  let ?roots = "get_writable_roots_with_cwd h (WorkspaceWrite rs n t s) cwd"
  have con: "changes_constrained (patch_path_writable ?roots cwd) (action_changes action)" and "sb = LinuxSeccomp"
    using assms(1,2)
    by (auto simp: assess_patch_safety_def get_platform_sandbox_def is_write_patch_constrained_to_writable_paths_def
        split: if_splits)
  have nf: "normal_form (resolved cwd q)"
    using assms(3,4) by (rule resolved_normal)
  have "patch_path_writable ?roots cwd q"
    using con assms(5,6) by (rule constrained_paths)
  moreover have "path_components (normalize_path (resolve_path cwd q)) = resolved cwd q"
    using components_path_str [OF nf] by (simp add: normalize_path_def resolved_def)
  moreover have "ParentDir \<notin> set (resolved cwd q)"
    using nf by (force simp: normal_form_def list_all_iff)
  ultimately show ?thesis
    using \<open>sb = LinuxSeccomp\<close>
    by (auto simp: patch_path_writable_def is_path_writable_def path_starts_with_def list_ex_iff Let_def
        split: if_splits)
qed

section \<open>A concrete machine\<close>

definition demo_host :: "rstring list \<Rightarrow> host" where
  "demo_host ds =
     \<lparr>host_is_dir = (\<lambda>p. p \<in> set ds), host_is_file = (\<lambda>_. False), host_exists = (\<lambda>p. p \<in> set ds),
      host_read = (\<lambda>_. Err []), host_home = None, host_tmpdir = None, host_absolutize = Ok,
      host_absolutize_from = (\<lambda>p base. path_join base p)\<rparr>"

definition demo_action :: "rstring \<Rightarrow> apply_patch_action" where
  "demo_action path = \<lparr>action_changes = [(path, Add (lit ''x''))], action_patch = [], action_cwd = []\<rparr>"

abbreviation workspace :: "rstring list \<Rightarrow> sandbox_policy" where
  "workspace roots \<equiv> WorkspaceWrite roots False True True"

lemmas host_eval =
  demo_host_def demo_action_def assess_patch_safety_def is_write_patch_constrained_to_writable_paths_def
  get_writable_roots_with_cwd_def from_absolute_path_def maybe_expand_home_directory_def root_subpaths_def
  absolute_join_def resolve_path_against_base_def patch_path_writable_def is_path_writable_def
  path_starts_with_def normalize_path_def resolve_path_def path_join_def path_components_def component_of_def
  path_str_def get_platform_sandbox_def Let_def

text \<open>
  The protection of \<^verbatim>\<open>.git\<close> is per root and is lost when a writable root contains another: with
  \<^verbatim>\<open>/w\<close> writable and the repository \<^verbatim>\<open>/w/p\<close> as working directory, a patch of \<^verbatim>\<open>/w/p/.git/hooks\<close> is
  applied without asking, although the same patch is put to the user when only \<^verbatim>\<open>/w/p\<close> is writable.
\<close>

lemma nested_root_unprotects_git:
  "assess_patch_safety (demo_host [lit ''/w/p/.git'']) (demo_action (lit ''/w/p/.git/hooks'')) OnRequest
     (workspace []) (lit ''/w/p'') Disabled = AskUser \<and>
   assess_patch_safety (demo_host [lit ''/w/p/.git'']) (demo_action (lit ''/w/p/.git/hooks'')) OnRequest
     (workspace [lit ''/w'']) (lit ''/w/p'') Disabled = AutoApprove LinuxSeccomp False"
  by (simp add: host_eval)

end
