(* ===== verification/Patch_Invocation.thy ===== *)
theory Patch_Invocation
  imports Patch_Roundtrip Patch_Apply Patch_Safety
begin

text \<open>
  From a command line to a patch that may be applied (\<^verbatim>\<open>crates/apply-patch/src/invocation.rs\<close>,
  \<^verbatim>\<open>crates/core/src/apply_patch.rs\<close>, and the approval keys of \<^verbatim>\<open>core/src/tools/handlers/apply_patch.rs\<close>): recognising
  an invocation, verifying it against the files, and deciding how it is run.

  The query over the shell grammar is a parameter that gives the matches of a script, each with its
  named captures; so is the rendering of a unified diff.  A process started in a directory resolves the
  relative paths of a patch against it: \<open>hunk_at\<close>.
\<close>

section \<open>Recognising an invocation\<close>

definition APPLY_PATCH_COMMANDS :: "rstring list" where
  "APPLY_PATCH_COMMANDS = [lit ''apply_patch'', lit ''applypatch'']"

datatype apply_patch_shell = Unix | PowerShell | CmdExe

datatype extract_heredoc_error =
    CommandDidNotStartWithApplyPatch
  | FailedToLoadBashGrammar
  | HeredocNotUtf8
  | FailedToParsePatchIntoAst
  | FailedToFindHeredocBody

datatype maybe_apply_patch =
    PatchBody apply_patch_args
  | ShellParseError extract_heredoc_error
  | PatchParseError parse_error
  | NotApplyPatch

definition classify_shell_name :: "rstring \<Rightarrow> rstring option" where
  "classify_shell_name shell = map_option to_ascii_lowercase (path_file_stem shell)"

definition classify_shell :: "rstring \<Rightarrow> rstring \<Rightarrow> apply_patch_shell option" where
  "classify_shell shell flag =
     (case classify_shell_name shell of
        None \<Rightarrow> None
      | Some name \<Rightarrow>
          (if name \<in> {lit ''bash'', lit ''zsh'', lit ''sh''} \<and> flag \<in> {lit ''-lc'', lit ''-c''} then Some Unix
           else if name \<in> {lit ''pwsh'', lit ''powershell''} \<and> eq_ignore_ascii_case flag (lit ''-command'')
           then Some PowerShell
           else if name = lit ''cmd'' \<and> eq_ignore_ascii_case flag (lit ''/c'') then Some CmdExe
           else None))"

definition can_skip_flag :: "rstring \<Rightarrow> rstring \<Rightarrow> bool" where
  "can_skip_flag shell flag =
     (case classify_shell_name shell of
        None \<Rightarrow> False
      | Some name \<Rightarrow> name \<in> {lit ''pwsh'', lit ''powershell''} \<and> eq_ignore_ascii_case flag (lit ''-noprofile''))"

fun parse_shell_script :: "rstring list \<Rightarrow> (apply_patch_shell \<times> rstring) option" where
  "parse_shell_script [shell, flag, script] = map_option (\<lambda>s. (s, script)) (classify_shell shell flag)"
| "parse_shell_script [shell, skip_flag, flag, script] =
     (if can_skip_flag shell skip_flag then map_option (\<lambda>s. (s, script)) (classify_shell shell flag) else None)"
| "parse_shell_script _ = None"

text \<open>
  A match is the list of its captures with their text, where the text of a node may fail to decode.  The
  loop over the captures keeps the last of each kind and stops at the first failure.
\<close>

type_synonym capture = "rstring \<times> (unit, rstring) result"
type_synonym bash_query = "rstring \<Rightarrow> (extract_heredoc_error, capture list list) result"

definition unquote_raw :: "rstring \<Rightarrow> rstring" where
  "unquote_raw raw =
     (case strip_prefix [39] raw of
        None \<Rightarrow> raw
      | Some s \<Rightarrow> (case strip_suffix [39] s of None \<Rightarrow> raw | Some t \<Rightarrow> t))"

definition trim_end_newlines :: "rstring \<Rightarrow> rstring" where
  "trim_end_newlines s = rev (dropWhile (\<lambda>c. c = nl_char) (rev s))"

fun read_captures ::
  "rstring option \<Rightarrow> rstring option \<Rightarrow> capture list \<Rightarrow>
   (extract_heredoc_error, rstring option \<times> rstring option) result" where
  "read_captures heredoc cd [] = Ok (heredoc, cd)"
| "read_captures heredoc cd ((name, text) # cs) =
     (if name = lit ''heredoc'' then
        (case text of Inl _ \<Rightarrow> Err HeredocNotUtf8 | Inr t \<Rightarrow> read_captures (Some (trim_end_newlines t)) cd cs)
      else if name = lit ''cd_path'' then
        (case text of Inl _ \<Rightarrow> Err HeredocNotUtf8 | Inr t \<Rightarrow> read_captures heredoc (Some t) cs)
      else if name = lit ''cd_raw_string'' then
        (case text of Inl _ \<Rightarrow> Err HeredocNotUtf8 | Inr t \<Rightarrow> read_captures heredoc (Some (unquote_raw t)) cs)
      else read_captures heredoc cd cs)"

fun first_heredoc ::
  "capture list list \<Rightarrow> (extract_heredoc_error, rstring \<times> rstring option) result" where
  "first_heredoc [] = Err CommandDidNotStartWithApplyPatch"
| "first_heredoc (m # ms) =
     and_then (read_captures None None m) (\<lambda>(heredoc, cd).
       case heredoc of Some h \<Rightarrow> Ok (h, cd) | None \<Rightarrow> first_heredoc ms)"

definition extract_apply_patch_from_bash ::
  "bash_query \<Rightarrow> rstring \<Rightarrow> (extract_heredoc_error, rstring \<times> rstring option) result" where
  "extract_apply_patch_from_bash query src = and_then (query src) first_heredoc"

text \<open>The outer \<open>option\<close> is a panic of the patch parser.\<close>

definition maybe_parse_apply_patch :: "bash_query \<Rightarrow> rstring list \<Rightarrow> maybe_apply_patch option" where
  "maybe_parse_apply_patch query argv =
     (let shell_form =
        (case parse_shell_script argv of
           None \<Rightarrow> Some NotApplyPatch
         | Some (_, script) \<Rightarrow>
             (case extract_apply_patch_from_bash query script of
                Inl CommandDidNotStartWithApplyPatch \<Rightarrow> Some NotApplyPatch
              | Inl e \<Rightarrow> Some (ShellParseError e)
              | Inr (body, workdir) \<Rightarrow>
                  map_option (\<lambda>r. case r of
                      Inr source \<Rightarrow> PatchBody (source\<lparr>args_workdir := workdir\<rparr>)
                    | Inl e \<Rightarrow> PatchParseError e) (parse_patch body)))
      in case argv of
           [cmd, body] \<Rightarrow>
             (if cmd \<in> set APPLY_PATCH_COMMANDS
              then map_option (\<lambda>r. case r of Inr source \<Rightarrow> PatchBody source | Inl e \<Rightarrow> PatchParseError e)
                     (parse_patch body)
              else shell_form)
         | _ \<Rightarrow> shell_form)"

section \<open>Verification against the files\<close>

datatype maybe_apply_patch_verified =
    VerifiedBody apply_patch_action
  | VerifiedShellError extract_heredoc_error
  | CorrectnessError apply_patch_error
  | NotAPatch

fun hunk_path :: "hunk \<Rightarrow> rstring" where
  "hunk_path (AddFile p _) = p"
| "hunk_path (DeleteFile p) = p"
| "hunk_path (UpdateFile p _ _) = p"

definition hunk_resolve_path :: "rstring \<Rightarrow> hunk \<Rightarrow> rstring" where
  "hunk_resolve_path cwd h = path_join cwd (hunk_path h)"

text \<open>\<^verbatim>\<open>HashMap::insert\<close>: paths are equal when their components are, and an entry keeps its first key.\<close>

fun insert_change ::
  "rstring \<Rightarrow> apply_patch_file_change \<Rightarrow> (rstring \<times> apply_patch_file_change) list \<Rightarrow>
   (rstring \<times> apply_patch_file_change) list" where
  "insert_change p c [] = [(p, c)]"
| "insert_change p c ((q, d) # cs) = (if same_path p q then (q, c) # cs else (q, d) # insert_change p c cs)"

definition unified_diff_from_chunks ::
  "(rstring \<Rightarrow> rstring \<Rightarrow> rstring) \<Rightarrow> 'w fs_api \<Rightarrow> 'w \<Rightarrow> rstring \<Rightarrow> update_chunk list \<Rightarrow>
   (apply_patch_error, rstring \<times> rstring) result option" where
  "unified_diff_from_chunks diff api w path chunks =
     map_option (\<lambda>r. and_then r (\<lambda>ap. Ok (diff (original_contents ap) (new_contents ap), new_contents ap)))
       (derive_new_contents_from_chunks api w path chunks)"

definition verified_change ::
  "(rstring \<Rightarrow> rstring \<Rightarrow> rstring) \<Rightarrow> 'w fs_api \<Rightarrow> 'w \<Rightarrow> rstring \<Rightarrow> hunk \<Rightarrow>
   (apply_patch_error, apply_patch_file_change) result option" where
  "verified_change diff api w cwd h =
     (let path = hunk_resolve_path cwd h in
      case h of
        AddFile _ contents \<Rightarrow> Some (Ok (Add contents))
      | DeleteFile _ \<Rightarrow>
          (case fs_read_to_string api w path of
             Inr content \<Rightarrow> Some (Ok (Delete content))
           | Inl e \<Rightarrow> Some (Err (IoErr (lit ''Failed to read '' @ path) e)))
      | UpdateFile _ move_path chunks \<Rightarrow>
          map_option (\<lambda>r. and_then r (\<lambda>(unified_diff, contents).
              Ok (Update unified_diff (map_option (path_join cwd) move_path) contents)))
            (unified_diff_from_chunks diff api w path chunks))"

fun verify_hunks ::
  "(rstring \<Rightarrow> rstring \<Rightarrow> rstring) \<Rightarrow> 'w fs_api \<Rightarrow> 'w \<Rightarrow> rstring \<Rightarrow> (rstring \<times> apply_patch_file_change) list \<Rightarrow>
   hunk list \<Rightarrow> (apply_patch_error, (rstring \<times> apply_patch_file_change) list) result option" where
  "verify_hunks diff api w cwd changes [] = Some (Ok changes)"
| "verify_hunks diff api w cwd changes (h # hs) =
     (case verified_change diff api w cwd h of
        None \<Rightarrow> None
      | Some (Inl e) \<Rightarrow> Some (Err e)
      | Some (Inr c) \<Rightarrow> verify_hunks diff api w cwd (insert_change (hunk_resolve_path cwd h) c changes) hs)"

definition effective_cwd :: "rstring \<Rightarrow> rstring option \<Rightarrow> rstring" where
  "effective_cwd cwd workdir = (case workdir of Some dir \<Rightarrow> path_join cwd dir | None \<Rightarrow> cwd)"

definition is_patch :: "rstring \<Rightarrow> bool" where
  "is_patch text = (case parse_patch text of Some (Inr _) \<Rightarrow> True | _ \<Rightarrow> False)"

definition maybe_parse_apply_patch_verified ::
  "bash_query \<Rightarrow> (rstring \<Rightarrow> rstring \<Rightarrow> rstring) \<Rightarrow> 'w fs_api \<Rightarrow> 'w \<Rightarrow> rstring list \<Rightarrow> rstring \<Rightarrow>
   maybe_apply_patch_verified option" where
  "maybe_parse_apply_patch_verified query diff api w argv cwd =
     (if (case argv of [body] \<Rightarrow> is_patch body | _ \<Rightarrow> False)
      then Some (CorrectnessError ImplicitInvocation)
      else if (case parse_shell_script argv of Some (_, script) \<Rightarrow> is_patch script | None \<Rightarrow> False)
      then Some (CorrectnessError ImplicitInvocation)
      else
        (case maybe_parse_apply_patch query argv of
           None \<Rightarrow> None
         | Some NotApplyPatch \<Rightarrow> Some NotAPatch
         | Some (ShellParseError e) \<Rightarrow> Some (VerifiedShellError e)
         | Some (PatchParseError e) \<Rightarrow> Some (CorrectnessError (ParseErr e))
         | Some (PatchBody args) \<Rightarrow>
             (let dir = effective_cwd cwd (args_workdir args) in
              case verify_hunks diff api w dir [] (args_hunks args) of
                None \<Rightarrow> None
              | Some (Inl e) \<Rightarrow> Some (CorrectnessError e)
              | Some (Inr changes) \<Rightarrow>
                  Some (VerifiedBody
                    \<lparr>action_changes = changes, action_patch = args_patch args, action_cwd = dir\<rparr>))))"

section \<open>Deciding how it is run\<close>

record apply_patch_exec =
  pe_action :: apply_patch_action
  pe_auto_approved :: bool
  pe_requirement :: exec_approval_requirement

datatype internal_apply_patch_invocation = PatchRejected rstring | DelegateToExec apply_patch_exec

definition core_apply_patch ::
  "host \<Rightarrow> apply_patch_action \<Rightarrow> ask_for_approval \<Rightarrow> sandbox_policy \<Rightarrow> rstring \<Rightarrow> windows_sandbox_level \<Rightarrow>
   internal_apply_patch_invocation" where
  "core_apply_patch h action approval pol cwd level =
     (case assess_patch_safety h action approval pol cwd level of
        AutoApprove _ user_explicitly_approved \<Rightarrow>
          DelegateToExec \<lparr>pe_action = action, pe_auto_approved = \<not> user_explicitly_approved,
            pe_requirement = Skip False None\<rparr>
      | AskUser \<Rightarrow>
          DelegateToExec \<lparr>pe_action = action, pe_auto_approved = False, pe_requirement = NeedsApproval None None\<rparr>
      | Reject reason \<Rightarrow> PatchRejected (lit ''patch rejected: '' @ reason))"

text \<open>The keys under which an approval for the session is remembered.\<close>

fun change_keys :: "host \<Rightarrow> rstring \<Rightarrow> rstring \<times> apply_patch_file_change \<Rightarrow> rstring list" where
  "change_keys h cwd (path, change) =
     resolve_path_against_base h path cwd #
     (case change of Update _ (Some dest) _ \<Rightarrow> [resolve_path_against_base h dest cwd] | _ \<Rightarrow> [])"

definition file_paths_for_action :: "host \<Rightarrow> apply_patch_action \<Rightarrow> rstring list" where
  "file_paths_for_action h action = concat (map (change_keys h (action_cwd action)) (action_changes action))"

section \<open>What verification covers\<close>

text \<open>The hunks as a process in directory \<open>cwd\<close> carries them out.\<close>

fun hunk_at :: "rstring \<Rightarrow> hunk \<Rightarrow> hunk" where
  "hunk_at cwd (AddFile p c) = AddFile (path_join cwd p) c"
| "hunk_at cwd (DeleteFile p) = DeleteFile (path_join cwd p)"
| "hunk_at cwd (UpdateFile p mv cs) = UpdateFile (path_join cwd p) (map_option (path_join cwd) mv) cs"

definition different_files :: "rstring \<Rightarrow> hunk list \<Rightarrow> bool" where
  "different_files cwd hs \<longleftrightarrow>
     sorted_wrt (\<lambda>g h. \<not> same_path (hunk_resolve_path cwd h) (hunk_resolve_path cwd g)) hs"

text \<open>A path that an entry of the changes accounts for, as its key or as its move target.\<close>

definition accounted :: "(rstring \<times> apply_patch_file_change) list \<Rightarrow> rstring \<Rightarrow> bool" where
  "accounted changes p \<longleftrightarrow>
     (\<exists>q c. (q, c) \<in> set changes \<and> (same_path p q \<or> (\<exists>u n. c = Update u (Some p) n)))"

lemma same_path_trans: "same_path p q \<Longrightarrow> same_path q r \<Longrightarrow> same_path p r"
  by (simp add: same_path_def)

lemma insert_change_new: "\<exists>q. same_path p q \<and> (q, c) \<in> set (insert_change p c cs)"
  by (induction p c cs rule: insert_change.induct) auto

lemma insert_change_keeps: "(q, d) \<in> set cs \<Longrightarrow> \<not> same_path p q \<Longrightarrow> (q, d) \<in> set (insert_change p c cs)"
  by (induction p c cs rule: insert_change.induct) auto

lemma verify_hunks_keeps:
  assumes "verify_hunks diff api w cwd changes hs = Some (Inr out)" "(q, d) \<in> set changes"
    "\<forall>h \<in> set hs. \<not> same_path (hunk_resolve_path cwd h) q"
  shows "(q, d) \<in> set out"
  using assms
proof (induction hs arbitrary: changes)
  case (Cons h hs)
  then obtain c where "verify_hunks diff api w cwd (insert_change (hunk_resolve_path cwd h) c changes) hs = Some (Inr out)"
    by (auto split: option.splits sum.splits)
  with Cons show ?case
    by (auto intro: insert_change_keeps)
qed simp

lemma verify_hunks_covers:
  assumes "verify_hunks diff api w cwd changes hs = Some (Inr out)" "different_files cwd hs" "h \<in> set hs"
  shows "\<exists>q c. same_path (hunk_resolve_path cwd h) q \<and> (q, c) \<in> set out \<and> verified_change diff api w cwd h = Some (Inr c)"
  using assms
proof (induction hs arbitrary: changes)
  case (Cons g hs)
  then obtain c where c: "verified_change diff api w cwd g = Some (Inr c)"
    "verify_hunks diff api w cwd (insert_change (hunk_resolve_path cwd g) c changes) hs = Some (Inr out)"
    by (auto split: option.splits sum.splits)
  show ?case
  proof (cases "h = g")
    case True
    obtain q where q: "same_path (hunk_resolve_path cwd g) q" "(q, c) \<in> set (insert_change (hunk_resolve_path cwd g) c changes)"
      using insert_change_new by blast
    have "\<forall>h \<in> set hs. \<not> same_path (hunk_resolve_path cwd h) q"
      using Cons.prems(2) q(1) by (simp add: different_files_def same_path_def)
    with verify_hunks_keeps [OF c(2) q(2)] q(1) c(1) True show ?thesis
      by blast
  next
    case False
    then show ?thesis
      using Cons c by (auto simp: different_files_def)
  qed
qed simp

lemma verified_update_target:
  "verified_change diff api w cwd (UpdateFile p mv chunks) = Some (Inr c) \<Longrightarrow>
     \<exists>u n. c = Update u (map_option (path_join cwd) mv) n"
  by (auto simp: verified_change_def unified_diff_from_chunks_def Let_def and_then_eq_Inr)

lemma verified_paths_accounted:
  assumes "verify_hunks diff api w cwd [] hs = Some (Inr out)" "different_files cwd hs"
    "p \<in> set (concat (map hunk_paths (map (hunk_at cwd) hs)))"
  shows "accounted out p"
proof -
  obtain h where h: "h \<in> set hs" "p \<in> set (hunk_paths (hunk_at cwd h))"
    using assms(3) by auto
  obtain q c where q: "same_path (hunk_resolve_path cwd h) q" "(q, c) \<in> set out"
    "verified_change diff api w cwd h = Some (Inr c)"
    using verify_hunks_covers [OF assms(1,2) h(1)] by blast
  show ?thesis
  proof (cases "p = hunk_resolve_path cwd h")
    case True
    with q show ?thesis
      by (auto simp: accounted_def)
  next
    case False
    then obtain path mv chunks where "h = UpdateFile path (Some mv) chunks" "p = path_join cwd mv"
      using h(2) by (cases h) (auto simp: hunk_resolve_path_def split: option.splits)
    with verified_update_target [of diff api w cwd path "Some mv" chunks c] q show ?thesis
      by (auto simp: accounted_def)
  qed
qed

lemma verified_bodyE:
  assumes "maybe_parse_apply_patch_verified query diff api w argv cwd = Some (VerifiedBody action)"
  obtains args where "maybe_parse_apply_patch query argv = Some (PatchBody args)"
    "action_cwd action = effective_cwd cwd (args_workdir args)" "action_patch action = args_patch args"
    "verify_hunks diff api w (action_cwd action) [] (args_hunks args) = Some (Inr (action_changes action))"
  using assms
  by (auto simp: maybe_parse_apply_patch_verified_def Let_def
      split: if_splits option.split_asm maybe_apply_patch.split_asm sum.split_asm)

lemma same_path_absolute:
  assumes "same_path p q" "p \<noteq> []" "hd p = 47"
  shows "q \<noteq> [] \<and> hd q = 47"
proof (rule ccontr)
  assume q: "\<not> (q \<noteq> [] \<and> hd q = 47)"
  obtain cs where "path_components p = RootDir # cs"
    using components_of_absolute [OF assms(2,3)] by blast
  then have "path_components q = RootDir # cs"
    using assms(1) by (simp add: same_path_def)
  then show False
    using q by (auto simp: path_components_def component_of_def Let_def split: list.splits if_splits)
qed

lemma writable_same_path:
  assumes "same_path p q" "p \<noteq> []" "hd p = 47" "patch_path_writable roots cwd p"
  shows "patch_path_writable roots cwd q"
  using assms same_path_absolute [OF assms(1-3)]
  by (simp add: patch_path_writable_def normalize_path_def resolve_path_def same_path_def)

lemma accounted_writable:
  assumes "changes_constrained (patch_path_writable roots cwd) changes" "accounted changes p" "p \<noteq> []" "hd p = 47"
  shows "patch_path_writable roots cwd p"
proof -
  from assms(2) obtain q c where q: "(q, c) \<in> set changes" "same_path p q \<or> (\<exists>u n. c = Update u (Some p) n)"
    by (auto simp: accounted_def)
  from q(2) show ?thesis
  proof
    assume pq: "same_path p q"
    have "patch_path_writable roots cwd q"
      using constrained_paths [OF assms(1) q(1)] by blast
    moreover have "q \<noteq> []" "hd q = 47"
      using same_path_absolute [OF pq assms(3,4)] by simp_all
    ultimately show ?thesis
      using writable_same_path [OF same_path_sym [OF pq]] by blast
  next
    assume "\<exists>u n. c = Update u (Some p) n"
    then show ?thesis
      using constrained_paths [OF assms(1) q(1)] by blast
  qed
qed

lemma path_join_absolute: "cwd \<noteq> [] \<Longrightarrow> hd cwd = 47 \<Longrightarrow> path_join cwd p \<noteq> [] \<and> hd (path_join cwd p) = 47"
  by (auto simp: path_join_def)

lemma hunk_paths_absolute:
  "cwd \<noteq> [] \<Longrightarrow> hd cwd = 47 \<Longrightarrow> p \<in> set (hunk_paths (hunk_at cwd h)) \<Longrightarrow> p \<noteq> [] \<and> hd p = 47"
  using path_join_absolute by (cases h) (auto split: option.splits)

lemma auto_approved_constrained:
  assumes "assess_patch_safety h action approval (WorkspaceWrite rs n t s) cwd level = AutoApprove sb expl" "approval \<noteq> OnFailure"
  shows "changes_constrained
    (patch_path_writable (get_writable_roots_with_cwd h (WorkspaceWrite rs n t s) cwd) cwd) (action_changes action)"
  using assms
  by (auto simp: assess_patch_safety_def is_write_patch_constrained_to_writable_paths_def split: if_splits)


section \<open>A concrete machine\<close>

definition tree_world :: mem_world where
  "tree_world =
     \<lparr>files = [path_components (lit ''/w/a'') \<mapsto> lit ''x'' @ [nl_char]],
      dirs = map path_components [lit ''/'', lit ''/w'', lit ''/out'']\<rparr>"

definition run_patch :: "hunk list \<Rightarrow> maybe_apply_patch_verified option" where
  "run_patch hs =
     maybe_parse_apply_patch_verified (\<lambda>_. Err FailedToParsePatchIntoAst) (\<lambda>a b. b) mem_fs tree_world
       [lit ''apply_patch'', render_patch hs] (lit ''/w'')"

lemma rendered_invocation:
  assumes "\<forall>h \<in> set hs. hunk_ok h"
  shows "maybe_parse_apply_patch query [lit ''apply_patch'', render_patch hs] =
           Some (PatchBody \<lparr>args_patch = render_patch hs, args_hunks = hs, args_workdir = None\<rparr>)"
  using parse_rendered [OF assms]
  by (simp add: maybe_parse_apply_patch_def parse_patch_def APPLY_PATCH_COMMANDS_def Let_def del: lit_Cons)

lemma run_patch_rendered:
  assumes "\<forall>h \<in> set hs. hunk_ok h"
  shows "run_patch hs =
    (case verify_hunks (\<lambda>a b. b) mem_fs tree_world (lit ''/w'') [] hs of
       None \<Rightarrow> None
     | Some (Inl e) \<Rightarrow> Some (CorrectnessError e)
     | Some (Inr changes) \<Rightarrow>
         Some (VerifiedBody \<lparr>action_changes = changes, action_patch = render_patch hs, action_cwd = lit ''/w''\<rparr>))"
  by (simp add: run_patch_def maybe_parse_apply_patch_verified_def rendered_invocation [OF assms] effective_cwd_def Let_def
      del: lit_Cons split: option.split sum.split)

lemmas patch_tree_eval =
  tree_world_def verified_change_def unified_diff_from_chunks_def hunk_resolve_path_def path_join_def same_path_def demo_eval

definition escaping_patch :: "hunk list" where
  "escaping_patch =
     [UpdateFile (lit ''a'') (Some (lit ''/out/x'')) [demo_chunk], AddFile (lit ''a'') (lit ''k'' @ [nl_char])]"

lemma escaping_patch_ok: "\<forall>h \<in> set escaping_patch. hunk_ok h"
  by (simp add: escaping_patch_def demo_chunk_def path_ok_def line_ok_def chunk_ok_def is_whitespace_def)

definition escaping_action :: apply_patch_action where
  "escaping_action =
     \<lparr>action_changes = [(lit ''/w/a'', Add (lit ''k'' @ [nl_char]))], action_patch = render_patch escaping_patch,
      action_cwd = lit ''/w''\<rparr>"

definition adding_patch :: "hunk list" where
  "adding_patch = [AddFile (lit ''b'') (lit ''k'' @ [nl_char])]"

definition adding_action :: apply_patch_action where
  "adding_action =
     \<lparr>action_changes = [(lit ''/w/b'', Add (lit ''k'' @ [nl_char]))], action_patch = render_patch adding_patch,
      action_cwd = lit ''/w''\<rparr>"


text \<open>
  Verification keeps one change per file, so it does not see all of a patch that names a file twice.  A patch
  that moves \<^verbatim>\<open>a\<close> out of the workspace and then adds a new \<^verbatim>\<open>a\<close> is verified as the addition only: it is applied
  without asking, the approval keys name only \<^verbatim>\<open>/w/a\<close>, and the run writes \<^verbatim>\<open>/out/x\<close>, which is not writable.
\<close>

lemma repeated_file_hides_move:
  "run_patch escaping_patch = Some (VerifiedBody escaping_action) \<and>
   assess_patch_safety (demo_host []) escaping_action OnRequest (workspace []) (lit ''/w'') Disabled =
     AutoApprove LinuxSeccomp False \<and>
   file_paths_for_action (demo_host []) escaping_action = [lit ''/w/a''] \<and>
   \<not> patch_path_writable (get_writable_roots_with_cwd (demo_host []) (workspace []) (lit ''/w'')) (lit ''/w'') (lit ''/out/x'') \<and>
   (\<exists>w' aff. apply_hunks_to_files mem_fs tree_world (map (hunk_at (lit ''/w'')) escaping_patch) = Some (w', Ok aff) \<and>
      fs_read_to_string mem_fs w' (lit ''/out/x'') = Ok (lit ''y'' @ [nl_char]))"
proof (intro conjI)
  have "verify_hunks (\<lambda>a b. b) mem_fs tree_world (lit ''/w'') [] escaping_patch = Some (Inr (action_changes escaping_action))"
    by (simp add: escaping_patch_def escaping_action_def patch_tree_eval)
  then show "run_patch escaping_patch = Some (VerifiedBody escaping_action)"
    by (simp add: run_patch_rendered [OF escaping_patch_ok] escaping_action_def del: lit_Cons)
  show "assess_patch_safety (demo_host []) escaping_action OnRequest (workspace []) (lit ''/w'') Disabled =
     AutoApprove LinuxSeccomp False"
    by (simp add: host_eval escaping_action_def)
  show "file_paths_for_action (demo_host []) escaping_action = [lit ''/w/a'']"
    by (simp add: file_paths_for_action_def escaping_action_def host_eval)
  show "\<not> patch_path_writable (get_writable_roots_with_cwd (demo_host []) (workspace []) (lit ''/w'')) (lit ''/w'') (lit ''/out/x'')"
    by (simp add: host_eval)
  show "\<exists>w' aff. apply_hunks_to_files mem_fs tree_world (map (hunk_at (lit ''/w'')) escaping_patch) = Some (w', Ok aff) \<and>
      fs_read_to_string mem_fs w' (lit ''/out/x'') = Ok (lit ''y'' @ [nl_char])"
    by (simp add: escaping_patch_def patch_tree_eval)
qed

end
