(* ===== verification/Policy_Manager.thy ===== *)
theory Policy_Manager
  imports Approval_Policy
begin

text \<open>
  The policy manager (\<^verbatim>\<open>crates/core/src/exec_policy.rs\<close>): collecting the rule files of the
  configuration layers, building the policy from them, and amending it on disk and in memory.

  The directory listing and the file reads are the record \<open>rules_api\<close>; \<open>run\<close>, \<open>split\<close> and \<open>join\<close> are the
  parameters of the policy parser.  The layers are given by their configuration folders, lowest
  precedence first.
\<close>

section \<open>Rule files\<close>

text \<open>The derived order of \<^verbatim>\<open>std::path::Component\<close>, by which paths are sorted.\<close>

fun component_rank :: "path_component \<Rightarrow> nat" where
  "component_rank RootDir = 0"
| "component_rank CurDir = 1"
| "component_rank ParentDir = 2"
| "component_rank (Normal _) = 3"

fun component_name :: "path_component \<Rightarrow> rstring" where
  "component_name (Normal w) = w"
| "component_name _ = []"

instantiation path_component :: linorder
begin

definition less_eq_path_component :: "path_component \<Rightarrow> path_component \<Rightarrow> bool" where
  "a \<le> b \<longleftrightarrow> component_rank a < component_rank b \<or>
     component_rank a = component_rank b \<and> component_name a \<le> component_name b"

definition less_path_component :: "path_component \<Rightarrow> path_component \<Rightarrow> bool" where
  "a < b \<longleftrightarrow> component_rank a < component_rank b \<or>
     component_rank a = component_rank b \<and> component_name a < component_name b"

instance
proof
  fix a b c :: path_component
  show "a < b \<longleftrightarrow> a \<le> b \<and> \<not> b \<le> a"
    by (auto simp: less_eq_path_component_def less_path_component_def)
  show "a \<le> a" by (simp add: less_eq_path_component_def)
  show "a \<le> b \<Longrightarrow> b \<le> c \<Longrightarrow> a \<le> c"
    by (auto simp: less_eq_path_component_def)
  show "a \<le> b \<Longrightarrow> b \<le> a \<Longrightarrow> a = b"
    by (cases a; cases b) (auto simp: less_eq_path_component_def)
  show "a \<le> b \<or> b \<le> a"
    by (auto simp: less_eq_path_component_def)
qed

end

text \<open>\<^verbatim>\<open>Path::extension\<close>.\<close>

definition path_extension :: "rstring \<Rightarrow> rstring option" where
  "path_extension p =
     (case path_file_name p of
        None \<Rightarrow> None
      | Some w \<Rightarrow>
          (case rposition (\<lambda>c. c = 46) w of
             None \<Rightarrow> None
           | Some 0 \<Rightarrow> None
           | Some i \<Rightarrow> Some (drop (i + 1) w)))"

datatype read_dir_error = DirNotFound | DirError io_error

record dir_entry =
  entry_path :: rstring
  entry_is_file :: "(io_error, bool) result"

record rules_api =
  ra_read_dir :: "rstring \<Rightarrow> (read_dir_error, (io_error, dir_entry) result list) result"
  ra_read_file :: "rstring \<Rightarrow> (io_error, rstring) result"

datatype exec_policy_error =
    ReadDir rstring io_error
  | ReadFile rstring io_error
  | ParsePolicy rstring policy_error

definition RULE_EXTENSION :: rstring where
  "RULE_EXTENSION = lit ''rules''"

fun collect_entries ::
  "rstring \<Rightarrow> (io_error, dir_entry) result list \<Rightarrow> (exec_policy_error, rstring list) result" where
  "collect_entries dir [] = Ok []"
| "collect_entries dir (Inl e # es) = Err (ReadDir dir e)"
| "collect_entries dir (Inr entry # es) =
     (case entry_is_file entry of
        Inl e \<Rightarrow> Err (ReadDir dir e)
      | Inr is_file \<Rightarrow>
          and_then (collect_entries dir es) (\<lambda>paths.
            Ok (if path_extension (entry_path entry) = Some RULE_EXTENSION \<and> is_file
                then entry_path entry # paths else paths)))"

definition collect_policy_files ::
  "rules_api \<Rightarrow> rstring \<Rightarrow> (exec_policy_error, rstring list) result" where
  "collect_policy_files api dir =
     (case ra_read_dir api dir of
        Inl DirNotFound \<Rightarrow> Ok []
      | Inl (DirError e) \<Rightarrow> Err (ReadDir dir e)
      | Inr entries \<Rightarrow>
          and_then (collect_entries dir entries) (\<lambda>paths. Ok (sort_key path_components paths)))"

fun collect_layers ::
  "rules_api \<Rightarrow> rstring option list \<Rightarrow> (exec_policy_error, rstring list) result" where
  "collect_layers api [] = Ok []"
| "collect_layers api (None # layers) = collect_layers api layers"
| "collect_layers api (Some folder # layers) =
     and_then (collect_policy_files api (path_join folder (lit ''rules''))) (\<lambda>paths.
     and_then (collect_layers api layers) (\<lambda>more. Ok (paths @ more)))"

fun parse_files ::
  "(rstring \<Rightarrow> rstring \<Rightarrow> (rstring, prefix_rule_call list \<times> rstring option) result) \<Rightarrow>
   (rstring \<Rightarrow> rstring list option) \<Rightarrow> (rstring list \<Rightarrow> rstring option) \<Rightarrow> rules_api \<Rightarrow> rstring list \<Rightarrow>
   policy_builder \<Rightarrow> (exec_policy_error, policy_builder) result" where
  "parse_files run split join api [] b = Ok b"
| "parse_files run split join api (path # paths) b =
     (case ra_read_file api path of
        Inl e \<Rightarrow> Err (ReadFile path e)
      | Inr contents \<Rightarrow>
          (case parse_policy run split join path contents b of
             (b', Inl e) \<Rightarrow> Err (ParsePolicy path e)
           | (b', Inr _) \<Rightarrow> parse_files run split join api paths b'))"

definition combine_requirements :: "policy \<Rightarrow> policy \<Rightarrow> policy" where
  "combine_requirements p requirements =
     \<lparr>rules_by_program =
        fold (\<lambda>(program, rules) m. fold (mm_insert program) rules m) (rules_by_program requirements)
          (rules_by_program p)\<rparr>"

definition load_exec_policy ::
  "(rstring \<Rightarrow> rstring \<Rightarrow> (rstring, prefix_rule_call list \<times> rstring option) result) \<Rightarrow>
   (rstring \<Rightarrow> rstring list option) \<Rightarrow> (rstring list \<Rightarrow> rstring option) \<Rightarrow> rules_api \<Rightarrow>
   rstring option list \<Rightarrow> policy option \<Rightarrow> (exec_policy_error, policy) result" where
  "load_exec_policy run split join api layers requirements =
     and_then (collect_layers api layers) (\<lambda>paths.
     and_then (parse_files run split join api paths builder_new) (\<lambda>b.
     (let p = builder_build b in
      case requirements of None \<Rightarrow> Ok p | Some rp \<Rightarrow> Ok (combine_requirements p rp))))"

definition load_exec_policy_for_features_with_warning ::
  "(rstring \<Rightarrow> rstring \<Rightarrow> (rstring, prefix_rule_call list \<times> rstring option) result) \<Rightarrow>
   (rstring \<Rightarrow> rstring list option) \<Rightarrow> (rstring list \<Rightarrow> rstring option) \<Rightarrow> rules_api \<Rightarrow> bool \<Rightarrow>
   rstring option list \<Rightarrow> policy option \<Rightarrow>
   (exec_policy_error, policy \<times> exec_policy_error option) result" where
  "load_exec_policy_for_features_with_warning run split join api feature layers requirements =
     (if \<not> feature then Ok (policy_empty, None)
      else
        (case load_exec_policy run split join api layers requirements of
           Inr p \<Rightarrow> Ok (p, None)
         | Inl (ParsePolicy path e) \<Rightarrow> Ok (policy_empty, Some (ParsePolicy path e))
         | Inl e \<Rightarrow> Err e))"

section \<open>The manager\<close>

record exec_policy_manager =
  manager_policy :: policy

definition manager_load ::
  "(rstring \<Rightarrow> rstring \<Rightarrow> (rstring, prefix_rule_call list \<times> rstring option) result) \<Rightarrow>
   (rstring \<Rightarrow> rstring list option) \<Rightarrow> (rstring list \<Rightarrow> rstring option) \<Rightarrow> rules_api \<Rightarrow> bool \<Rightarrow>
   rstring option list \<Rightarrow> policy option \<Rightarrow> (exec_policy_error, exec_policy_manager) result" where
  "manager_load run split join api feature layers requirements =
     and_then (load_exec_policy_for_features_with_warning run split join api feature layers requirements)
       (\<lambda>(p, warning). Ok \<lparr>manager_policy = p\<rparr>)"

datatype exec_policy_update_error =
    AppendRule rstring amend_error
  | JoinBlockingTask rstring
  | AddRule policy_error
  | FeatureDisabled

definition default_policy_path :: "rstring \<Rightarrow> rstring" where
  "default_policy_path savfox_home = path_join (path_join savfox_home (lit ''rules'')) (lit ''default.rules'')"

text \<open>
  The blocking task runs to its end and its result is handed back by \<open>spawn\<close>, or the runtime reports
  that it could not be joined.
\<close>

definition append_amendment_and_update ::
  "('w \<times> (amend_error, unit) result \<Rightarrow> 'w \<times> (rstring, (amend_error, unit) result) result) \<Rightarrow>
   (rstring \<Rightarrow> (rstring, rstring) result) \<Rightarrow> 'w policy_file_api \<Rightarrow> 'w \<Rightarrow> exec_policy_manager \<Rightarrow> rstring \<Rightarrow>
   execpolicy_amendment \<Rightarrow> 'w \<times> exec_policy_manager \<times> (exec_policy_update_error, unit) result" where
  "append_amendment_and_update spawn to_json api w m savfox_home amendment =
     (let policy_path = default_policy_path savfox_home in
      case spawn (blocking_append_allow_prefix_rule to_json api w policy_path amendment) of
        (w', Inl e) \<Rightarrow> (w', m, Err (JoinBlockingTask e))
      | (w', Inr (Inl e)) \<Rightarrow> (w', m, Err (AppendRule policy_path e))
      | (w', Inr (Inr _)) \<Rightarrow>
          (case add_prefix_rule (manager_policy m) amendment Allow of
             (updated, Inl e) \<Rightarrow> (w', m, Err (AddRule e))
           | (updated, Inr _) \<Rightarrow> (w', m\<lparr>manager_policy := updated\<rparr>, Ok ())))"

section \<open>Loading\<close>

abbreviation policy_of :: "rule_map \<Rightarrow> policy" where
  "policy_of m \<equiv> \<lparr>rules_by_program = m\<rparr>"

lemma insert_one_rules: "policy_rules (policy_of (mm_insert k r m)) = insert r (policy_rules (policy_of m))"
  using policy_rules_insert [where p = "policy_of m" and k = k and r = r] by simp

lemma insert_one_wf:
  "policy_wf (policy_of m) \<Longrightarrow> rule_program r = k \<Longrightarrow> policy_wf (policy_of (mm_insert k r m))"
  using policy_wf_insert [of "policy_of m" r k] by simp

lemma insert_all_rules:
  "policy_rules (policy_of (fold (mm_insert k) rs m)) = set rs \<union> policy_rules (policy_of m)"
proof (induction rs arbitrary: m)
  case (Cons r rs)
  show ?case by (simp add: Cons.IH insert_one_rules)
qed simp

lemma insert_all_wf:
  "policy_wf (policy_of m) \<Longrightarrow> \<forall>r \<in> set rs. rule_program r = k \<Longrightarrow> policy_wf (policy_of (fold (mm_insert k) rs m))"
proof (induction rs arbitrary: m)
  case (Cons r rs)
  then show ?case by (simp add: insert_one_wf)
qed simp

lemma combine_rules: "policy_rules (combine_requirements p rp) = policy_rules rp \<union> policy_rules p"
proof -
  have "policy_rules (policy_of (fold (\<lambda>(program, rules) m. fold (mm_insert program) rules m) es m)) =
      (\<Union>(k, rs) \<in> set es. set rs) \<union> policy_rules (policy_of m)" for es m
  proof (induction es arbitrary: m)
    case (Cons e es)
    show ?case by (cases e) (simp add: Cons.IH insert_all_rules Un_ac)
  qed simp
  from this [of "rules_by_program rp" "rules_by_program p"] show ?thesis
    by (simp add: combine_requirements_def policy_rules_def)
qed

lemma combine_wf:
  assumes "policy_wf p" "policy_wf rp"
  shows "policy_wf (combine_requirements p rp)"
proof -
  have "policy_wf (policy_of (fold (\<lambda>(program, rules) m. fold (mm_insert program) rules m) es m))"
    if "policy_wf (policy_of m)" "\<And>k rs r. (k, rs) \<in> set es \<Longrightarrow> r \<in> set rs \<Longrightarrow> rule_program r = k" for es m
    using that
  proof (induction es arbitrary: m)
    case (Cons e es)
    obtain k rs where e: "e = (k, rs)" by (cases e)
    have "policy_wf (policy_of (fold (mm_insert k) rs m))"
      using Cons.prems(1) by (rule insert_all_wf) (use Cons.prems(2) [of k rs] e in simp)
    moreover have "rule_program r = k'" if "(k', rs') \<in> set es" "r \<in> set rs'" for k' rs' r
      using Cons.prems(2) [of k' rs' r] that by simp
    ultimately show ?case using Cons.IH by (simp add: e)
  qed simp
  moreover have "rule_program r = k" if "(k, rs) \<in> set (rules_by_program rp)" "r \<in> set rs" for k rs r
    using assms(2) that unfolding policy_wf_iff by blast
  moreover have "policy_wf (policy_of (rules_by_program p))"
    using assms(1) unfolding policy_wf_iff by simp
  ultimately show ?thesis unfolding combine_requirements_def by blast
qed

lemma parse_policy_wf:
  "parse_policy run split join i c b = (b', r) \<Longrightarrow> policy_wf (builder_build b) \<Longrightarrow> policy_wf (builder_build b')"
  by (auto simp: parse_policy_def split: sum.splits prod.splits dest: run_calls_wf)

lemma parse_files_wf:
  "parse_files run split join api paths b = Ok b' \<Longrightarrow> policy_wf (builder_build b) \<Longrightarrow> policy_wf (builder_build b')"
  by (induction paths arbitrary: b) (auto split: sum.splits prod.splits dest: parse_policy_wf)

text \<open>
  A policy that loads is well-formed and contains every rule of the managed requirements, so a
  command matched by a requirement rule is judged at least as strictly as that rule, whatever the
  rule files of the user and project layers say.  A rule file that does not parse, however, leaves
  the session with the empty policy and a warning: the requirements are dropped with it.
\<close>

lemma loaded_policy_enforces_requirements:
  assumes "policy_wf rp"
  shows "(\<forall>p. load_exec_policy run split join api layers (Some rp) = Ok p \<longrightarrow>
      policy_wf p \<and> policy_rules rp \<subseteq> policy_rules p \<and>
      (\<forall>r \<in> policy_rules rp. \<forall>cmd h. rule_matches r cmd \<noteq> None \<longrightarrow>
         (\<exists>ev. check p cmd h = Some ev \<and> rule_decision r \<le> eval_decision ev))) \<and>
    (\<forall>path e. load_exec_policy run split join api layers (Some rp) = Err (ParsePolicy path e) \<longrightarrow>
      load_exec_policy_for_features_with_warning run split join api True layers (Some rp) =
        Ok (policy_empty, Some (ParsePolicy path e)))"
proof (intro conjI allI impI)
  fix p assume "load_exec_policy run split join api layers (Some rp) = Ok p"
  then obtain paths b where b: "parse_files run split join api paths builder_new = Ok b"
    and p: "p = combine_requirements (builder_build b) rp"
    by (auto simp: load_exec_policy_def and_then_eq_Inr Let_def)
  have "policy_wf (builder_build builder_new)"
    by (simp add: builder_build_def builder_new_def policy_wf_def)
  with b have "policy_wf (builder_build b)" by (rule parse_files_wf)
  then have wf: "policy_wf p" unfolding p using assms by (rule combine_wf)
  have sub: "policy_rules rp \<subseteq> policy_rules p" by (simp add: p combine_rules)
  have "\<exists>ev. check p cmd h = Some ev \<and> rule_decision r \<le> eval_decision ev"
    if r: "r \<in> policy_rules rp" "rule_matches r cmd \<noteq> None" for r cmd h
  proof -
    obtain m where m: "rule_matches r cmd = Some m" "match_decision m = rule_decision r"
      using r(2) by (auto simp: rule_matches_Some)
    with matching_rule_bounds_verdict [OF wf _ m(1), of h] r(1) sub show ?thesis
      by (auto simp: check_verdict)
  qed
  with wf sub show "policy_wf p" "policy_rules rp \<subseteq> policy_rules p"
    and "\<forall>r \<in> policy_rules rp. \<forall>cmd h. rule_matches r cmd \<noteq> None \<longrightarrow>
         (\<exists>ev. check p cmd h = Some ev \<and> rule_decision r \<le> eval_decision ev)"
    by blast+
qed (simp add: load_exec_policy_for_features_with_warning_def)

definition demo_rules_api :: rules_api where
  "demo_rules_api =
     \<lparr>ra_read_dir = (\<lambda>_. Ok [Ok \<lparr>entry_path = lit ''/c/rules/a.rules'', entry_is_file = Ok True\<rparr>]),
      ra_read_file = (\<lambda>_. Ok [])\<rparr>"

end
