(* ===== verification/Head_Tail_Buffer.thy ===== *)
theory Head_Tail_Buffer
  imports Savfox_Prelude "HOL-Library.Word"
begin

text \<open>
  The capped output buffer of \<^verbatim>\<open>crates/core/src/unified_exec/head_tail_buffer.rs\<close>: it keeps a prefix and
  a suffix of a byte stream that arrives in chunks, and counts what it drops in between.

  The contract is the locale \<open>stream_buffer\<close>: a buffer represents the bytes pushed so far.  What a
  buffer may retain of a stream is the function \<open>keep\<close> of the stream alone, so the way the stream
  is cut into chunks cannot be observed.
\<close>

type_synonym byte = "8 word"

record head_tail_buffer =
  ht_max_bytes :: nat
  ht_head_budget :: nat
  ht_tail_budget :: nat
  ht_head :: "byte list list"
  ht_tail :: "byte list list"
  ht_head_bytes :: nat
  ht_tail_bytes :: nat
  ht_omitted_bytes :: nat

definition ht_new :: "nat \<Rightarrow> head_tail_buffer" where
  "ht_new max_bytes =
     (let head_budget = max_bytes div 2;
          tail_budget = max_bytes - head_budget
      in \<lparr>ht_max_bytes = max_bytes, ht_head_budget = head_budget, ht_tail_budget = tail_budget,
          ht_head = [], ht_tail = [], ht_head_bytes = 0, ht_tail_bytes = 0, ht_omitted_bytes = 0\<rparr>)"

definition retained_bytes :: "head_tail_buffer \<Rightarrow> nat" where
  "retained_bytes b = sat_add (ht_head_bytes b) (ht_tail_bytes b)"

definition omitted_bytes :: "head_tail_buffer \<Rightarrow> nat" where
  "omitted_bytes b = ht_omitted_bytes b"

text \<open>The loop of \<^verbatim>\<open>trim_tail_to_budget\<close> on the tail chunks, the tail count and the omitted count.\<close>

fun trim_loop :: "nat \<Rightarrow> byte list list \<Rightarrow> nat \<Rightarrow> nat \<Rightarrow> byte list list \<times> nat \<times> nat" where
  "trim_loop excess [] tail_bytes omitted = ([], tail_bytes, omitted)"
| "trim_loop excess (front # rest) tail_bytes omitted =
     (if \<not> excess > 0 then (front # rest, tail_bytes, omitted)
      else if excess \<ge> length front
      then trim_loop (excess - length front) rest (tail_bytes - length front) (sat_add omitted (length front))
      else (drop excess front # rest, tail_bytes - excess, sat_add omitted excess))"

definition trim_tail_to_budget :: "head_tail_buffer \<Rightarrow> head_tail_buffer" where
  "trim_tail_to_budget b =
     (let excess = ht_tail_bytes b - ht_tail_budget b in
      case trim_loop excess (ht_tail b) (ht_tail_bytes b) (ht_omitted_bytes b) of
        (tail, tail_bytes, omitted) \<Rightarrow>
          b\<lparr>ht_tail := tail, ht_tail_bytes := tail_bytes, ht_omitted_bytes := omitted\<rparr>)"

definition push_to_tail :: "head_tail_buffer \<Rightarrow> byte list \<Rightarrow> head_tail_buffer" where
  "push_to_tail b chunk =
     (if ht_tail_budget b = 0
      then b\<lparr>ht_omitted_bytes := sat_add (ht_omitted_bytes b) (length chunk)\<rparr>
      else if length chunk \<ge> ht_tail_budget b
      then
        (let start = length chunk - ht_tail_budget b;
             kept = drop start chunk;
             dropped = length chunk - length kept
         in b\<lparr>ht_omitted_bytes := sat_add (sat_add (ht_omitted_bytes b) (ht_tail_bytes b)) dropped,
              ht_tail := [kept], ht_tail_bytes := length kept\<rparr>)
      else
        trim_tail_to_budget
          (b\<lparr>ht_tail_bytes := sat_add (ht_tail_bytes b) (length chunk), ht_tail := ht_tail b @ [chunk]\<rparr>))"

definition push_chunk :: "head_tail_buffer \<Rightarrow> byte list \<Rightarrow> head_tail_buffer" where
  "push_chunk b chunk =
     (if ht_max_bytes b = 0
      then b\<lparr>ht_omitted_bytes := sat_add (ht_omitted_bytes b) (length chunk)\<rparr>
      else if ht_head_bytes b < ht_head_budget b
      then
        (let remaining_head = ht_head_budget b - ht_head_bytes b in
         if length chunk \<le> remaining_head
         then b\<lparr>ht_head_bytes := sat_add (ht_head_bytes b) (length chunk), ht_head := ht_head b @ [chunk]\<rparr>
         else
           (let head_part = take remaining_head chunk;
                tail_part = drop remaining_head chunk;
                b' = (if head_part \<noteq> []
                      then b\<lparr>ht_head_bytes := sat_add (ht_head_bytes b) (length head_part),
                             ht_head := ht_head b @ [head_part]\<rparr>
                      else b)
            in push_to_tail b' tail_part))
      else push_to_tail b chunk)"

definition snapshot_chunks :: "head_tail_buffer \<Rightarrow> byte list list" where
  "snapshot_chunks b = ht_head b @ ht_tail b"

definition to_bytes :: "head_tail_buffer \<Rightarrow> byte list" where
  "to_bytes b = concat (ht_head b) @ concat (ht_tail b)"

definition drain_chunks :: "head_tail_buffer \<Rightarrow> byte list list \<times> head_tail_buffer" where
  "drain_chunks b =
     (ht_head b @ ht_tail b,
      b\<lparr>ht_head := [], ht_tail := [], ht_head_bytes := 0, ht_tail_bytes := 0, ht_omitted_bytes := 0\<rparr>)"

section \<open>What a stream leaves behind\<close>

definition last_n :: "nat \<Rightarrow> 'a list \<Rightarrow> 'a list" where
  "last_n n xs = drop (length xs - n) xs"

definition keep :: "nat \<Rightarrow> byte list \<Rightarrow> byte list" where
  "keep max_bytes bs =
     take (max_bytes div 2) bs @ last_n (max_bytes - max_bytes div 2) (drop (max_bytes div 2) bs)"

lemma last_n_all: "length xs \<le> n \<Longrightarrow> last_n n xs = xs"
  by (simp add: last_n_def)

lemma length_last_n: "length (last_n n xs) = min n (length xs)"
  by (simp add: last_n_def)

lemma last_n_last_n: "last_n n (last_n n xs @ ys) = last_n n (xs @ ys)"
  by (cases "length xs \<le> n") (auto simp: last_n_def add.commute)

lemma last_n_suffix: "n \<le> length ys \<Longrightarrow> last_n n (xs @ ys) = last_n n ys"
  by (simp add: last_n_def)

lemma drop_excess: "n \<le> length xs \<Longrightarrow> drop (length xs - n) xs = last_n n xs"
  by (simp add: last_n_def)

lemma length_keep: "length (keep m bs) = min m (length bs)"
  by (auto simp: keep_def length_last_n)

lemma keep_short: "length bs \<le> m \<Longrightarrow> keep m bs = bs"
  by (simp add: keep_def last_n_all)

section \<open>The contract\<close>

locale stream_buffer =
  fixes init :: 's
    and push :: "'s \<Rightarrow> byte list \<Rightarrow> 's"
    and represents :: "'s \<Rightarrow> byte list \<Rightarrow> bool"
  assumes init_empty: "represents init []"
    and push_appends:
      "represents s bs \<Longrightarrow> length (bs @ chunk) \<le> usize_max \<Longrightarrow> represents (push s chunk) (bs @ chunk)"
begin

lemma push_all_from:
  "represents s bs \<Longrightarrow> length (bs @ concat chunks) \<le> usize_max \<Longrightarrow>
     represents (foldl push s chunks) (bs @ concat chunks)"
proof (induction chunks arbitrary: s bs)
  case (Cons c cs)
  then have "represents (push s c) (bs @ c)"
    by (intro push_appends) auto
  from Cons.IH [OF this] Cons.prems show ?case by simp
qed simp

lemma push_all:
  "length (concat chunks) \<le> usize_max \<Longrightarrow> represents (foldl push init chunks) (concat chunks)"
  using push_all_from [OF init_empty] by simp

end

definition ht_represents :: "nat \<Rightarrow> head_tail_buffer \<Rightarrow> byte list \<Rightarrow> bool" where
  "ht_represents m b bs \<longleftrightarrow>
     ht_max_bytes b = m \<and> ht_head_budget b = m div 2 \<and> ht_tail_budget b = m - m div 2 \<and>
     concat (ht_head b) = take (m div 2) bs \<and>
     concat (ht_tail b) = last_n (m - m div 2) (drop (m div 2) bs) \<and>
     ht_head_bytes b = length (concat (ht_head b)) \<and>
     ht_tail_bytes b = length (concat (ht_tail b)) \<and>
     ht_omitted_bytes b = length bs - m"

lemma trim_loop_drops:
  assumes "excess \<le> length (concat tail)" "omitted + excess \<le> usize_max" "tail_bytes = length (concat tail)"
  shows "\<exists>tail'. trim_loop excess tail tail_bytes omitted = (tail', tail_bytes - excess, omitted + excess) \<and>
    concat tail' = drop excess (concat tail)"
  using assms
proof (induction excess tail tail_bytes omitted rule: trim_loop.induct)
  case (2 excess front rest tail_bytes omitted)
  show ?case
  proof (cases "excess > 0 \<and> excess \<ge> length front")
    case True
    with 2 show ?thesis by (simp add: sat_add_exact add.commute)
  next
    case False
    with "2.prems" show ?thesis by (auto simp: sat_add_exact)
  qed
qed simp

lemma push_to_tail_appends:
  assumes r: "ht_tail_budget b = t"
    and tail: "concat (ht_tail b) = last_n t ts" "ht_tail_bytes b = length (concat (ht_tail b))"
    and om: "ht_omitted_bytes b = length ts - t"
    and len: "length (ts @ chunk) \<le> usize_max"
  shows "\<exists>tl. push_to_tail b chunk =
      b\<lparr>ht_tail := tl, ht_tail_bytes := length (concat tl),
        ht_omitted_bytes := length (ts @ chunk) - t\<rparr> \<and>
      concat tl = last_n t (ts @ chunk)"
proof -
  have tb: "ht_tail_bytes b = min t (length ts)"
    using tail by (simp add: length_last_n)
  consider "t = 0" | "t > 0" "length chunk \<ge> t" | "t > 0" "length chunk < t" by linarith
  then show ?thesis
  proof cases
    case 1
    with r tail om len show ?thesis
      by (intro exI [of _ "ht_tail b"]) (simp add: push_to_tail_def last_n_def sat_add_exact)
  next
    case 2
    have "sat_add (sat_add (ht_omitted_bytes b) (ht_tail_bytes b)) (length chunk - t) = length (ts @ chunk) - t"
      using 2 tb om len by (simp add: sat_add_def)
    moreover have "drop (length chunk - t) chunk = last_n t (ts @ chunk)"
      using 2 by (simp add: last_n_suffix drop_excess)
    moreover have "length (last_n t (ts @ chunk)) = t"
      using 2 by (simp add: length_last_n)
    ultimately show ?thesis
      using 2 r by (intro exI [of _ "[drop (length chunk - t) chunk]"]) (simp add: push_to_tail_def Let_def)
  next
    case 3
    let ?excess = "ht_tail_bytes b + length chunk - t"
    have all: "concat (ht_tail b @ [chunk]) = last_n t ts @ chunk"
      using tail by simp
    have "\<exists>tl. trim_loop ?excess (ht_tail b @ [chunk]) (ht_tail_bytes b + length chunk) (ht_omitted_bytes b) =
        (tl, ht_tail_bytes b + length chunk - ?excess, ht_omitted_bytes b + ?excess) \<and>
        concat tl = drop ?excess (last_n t ts @ chunk)"
      unfolding all [symmetric]
      by (rule trim_loop_drops) (use tb om len tail in auto)
    then obtain tl where tl: "trim_loop ?excess (ht_tail b @ [chunk]) (ht_tail_bytes b + length chunk)
          (ht_omitted_bytes b) = (tl, ht_tail_bytes b + length chunk - ?excess, ht_omitted_bytes b + ?excess)"
        "concat tl = drop ?excess (last_n t ts @ chunk)" by blast
    have "drop ?excess (last_n t ts @ chunk) = last_n t (last_n t ts @ chunk)"
      using tb by (simp add: last_n_def [of _ "_ @ _"] length_last_n)
    then have cat: "concat tl = last_n t (ts @ chunk)"
      using tl(2) by (simp add: last_n_last_n)
    have "sat_add (ht_tail_bytes b) (length chunk) = ht_tail_bytes b + length chunk"
      using tb len by (intro sat_add_exact) auto
    with 3 r tl(1) cat tb om show ?thesis
      by (intro exI [of _ tl]) (auto simp: push_to_tail_def trim_tail_to_budget_def length_last_n)
  qed
qed

lemma tail_of_represents:
  assumes rep: "ht_represents m b bs" and len: "length (bs @ chunk) \<le> usize_max" and "m div 2 \<le> length bs"
  shows "ht_represents m (push_to_tail b chunk) (bs @ chunk)"
proof -
  define h where "h = m div 2"
  have h: "h \<le> m" "h \<le> length bs" using assms(3) by (simp_all add: h_def)
  let ?ts = "drop h bs"
  have om: "length (?ts @ chunk) - (m - h) = length (bs @ chunk) - m"
    using h by simp
  have "\<exists>tl. push_to_tail b chunk =
      b\<lparr>ht_tail := tl, ht_tail_bytes := length (concat tl),
        ht_omitted_bytes := length (?ts @ chunk) - (m - h)\<rparr> \<and>
      concat tl = last_n (m - h) (?ts @ chunk)"
    by (rule push_to_tail_appends) (use rep len h in \<open>simp_all add: ht_represents_def h_def [symmetric]\<close>)
  with rep h show ?thesis
    unfolding om by (auto simp: ht_represents_def h_def [symmetric])
qed

lemma head_of_represents:
  assumes "ht_represents m b bs" "length (bs @ part) \<le> usize_max" "length (bs @ part) \<le> m div 2"
  shows "ht_represents m (b\<lparr>ht_head_bytes := sat_add (ht_head_bytes b) (length part),
    ht_head := ht_head b @ [part]\<rparr>) (bs @ part)"
  using assms by (auto simp: ht_represents_def last_n_def sat_add_exact)

lemma push_chunk_represents:
  assumes rep: "ht_represents m b bs" and len: "length (bs @ chunk) \<le> usize_max"
  shows "ht_represents m (push_chunk b chunk) (bs @ chunk)"
proof -
  let ?room = "m div 2 - length bs"
  have hb: "ht_head_bytes b = min (m div 2) (length bs)" "ht_head_budget b = m div 2" "ht_max_bytes b = m"
    using rep by (auto simp: ht_represents_def)
  consider "m = 0" | "m \<noteq> 0" "m div 2 \<le> length bs" | "length (bs @ chunk) \<le> m div 2" "length bs < m div 2"
    | "length bs < m div 2" "m div 2 < length (bs @ chunk)"
    by force
  then show ?thesis
  proof cases
    case 1
    with rep len show ?thesis
      by (auto simp: push_chunk_def ht_represents_def last_n_def sat_add_exact)
  next
    case 2
    with hb tail_of_represents [OF rep len] show ?thesis by (simp add: push_chunk_def)
  next
    case 3
    with hb have "push_chunk b chunk = b\<lparr>ht_head_bytes := sat_add (ht_head_bytes b) (length chunk),
      ht_head := ht_head b @ [chunk]\<rparr>"
      by (auto simp: push_chunk_def Let_def)
    with head_of_represents [OF rep len 3(1)] show ?thesis by simp
  next
    case 4
    let ?b = "b\<lparr>ht_head_bytes := sat_add (ht_head_bytes b) (length (take ?room chunk)),
      ht_head := ht_head b @ [take ?room chunk]\<rparr>"
    have "ht_represents m ?b (bs @ take ?room chunk)"
      by (rule head_of_represents [OF rep]) (use 4 len in auto)
    then have "ht_represents m (push_to_tail ?b (drop ?room chunk)) ((bs @ take ?room chunk) @ drop ?room chunk)"
      by (rule tail_of_represents) (use 4 len in auto)
    moreover have "push_chunk b chunk = push_to_tail ?b (drop ?room chunk)"
      using 4 hb by (auto simp: push_chunk_def Let_def)
    ultimately show ?thesis by simp
  qed
qed

interpretation ht: stream_buffer "ht_new m" push_chunk "ht_represents m"
  for m
proof
  show "ht_represents m (ht_new m) []"
    by (simp add: ht_represents_def ht_new_def Let_def last_n_def)
qed (rule push_chunk_represents)

text \<open>
  C34.  For every way a byte stream of at most \<^verbatim>\<open>usize::MAX\<close> bytes is cut into chunks, the buffer
  retains the first half and the last half of its capacity of the stream (all of it when it fits),
  counts every other byte as omitted, never holds more than its capacity, and its chunk views agree
  with the byte view; draining it hands out the retained bytes and leaves a buffer that behaves like a
  new one.
\<close>

theorem head_tail_buffer_refines:
  assumes "length (concat chunks) \<le> usize_max" "length (concat later) \<le> usize_max"
    and b_def: "b = foldl push_chunk (ht_new m) chunks"
  shows "to_bytes b = keep m (concat chunks) \<and> concat (snapshot_chunks b) = to_bytes b \<and>
    omitted_bytes b = length (concat chunks) - m \<and> retained_bytes b = length (to_bytes b) \<and>
    length (to_bytes b) \<le> m \<and> concat (fst (drain_chunks b)) = to_bytes b \<and>
    to_bytes (foldl push_chunk (snd (drain_chunks b)) later) = keep m (concat later)"
proof -
  have rep: "ht_represents m b (concat chunks)"
    unfolding b_def using assms(1) by (rule ht.push_all)
  have bytes: "to_bytes s = keep m bs" if "ht_represents m s bs" for s bs
    using that by (simp add: to_bytes_def keep_def ht_represents_def)
  have "ht_represents m (snd (drain_chunks b)) []"
    using rep by (simp add: ht_represents_def drain_chunks_def last_n_def)
  then have "ht_represents m (foldl push_chunk (snd (drain_chunks b)) later) (concat later)"
    using ht.push_all_from [of m _ "[]" later] assms(2) by simp
  then have "to_bytes (foldl push_chunk (snd (drain_chunks b)) later) = keep m (concat later)"
    by (rule bytes)
  moreover have "retained_bytes b = length (to_bytes b)"
  proof -
    have "length (to_bytes b) = ht_head_bytes b + ht_tail_bytes b"
      using rep by (simp add: to_bytes_def ht_represents_def)
    moreover have "length (to_bytes b) \<le> usize_max"
      using bytes [OF rep] assms(1) by (simp add: length_keep)
    ultimately show ?thesis by (simp add: retained_bytes_def sat_add_exact)
  qed
  moreover have "concat (snapshot_chunks b) = to_bytes b" "concat (fst (drain_chunks b)) = to_bytes b"
    by (simp_all add: snapshot_chunks_def drain_chunks_def to_bytes_def)
  moreover have "omitted_bytes b = length (concat chunks) - m"
    using rep by (simp add: omitted_bytes_def ht_represents_def)
  moreover have "length (to_bytes b) \<le> m"
    by (simp add: bytes [OF rep] length_keep)
  ultimately show ?thesis using bytes [OF rep] by blast
qed

theorem head_tail_buffer_refines_witness:
  "to_bytes (foldl push_chunk (ht_new 4) [[1, 2, 3], [4], [5, 6]]) = keep 4 [1, 2, 3, 4, 5, 6] \<and>
   to_bytes (foldl push_chunk (ht_new 4) [[1, 2, 3], [4], [5, 6]]) = [1, 2, 5, 6] \<and>
   omitted_bytes (foldl push_chunk (ht_new 4) [[1, 2, 3], [4], [5, 6]]) = 2"
proof -
  have "length (concat [[1, 2, 3], [4], [5, 6 :: byte]]) \<le> usize_max"
    by (simp add: usize_max_def)
  from head_tail_buffer_refines [OF this _ refl, of "[]" 4] show ?thesis
    by (simp add: keep_def last_n_def)
qed

end
