(* ===== verification/Spawn_Guards.thy ===== *)
theory Spawn_Guards
  imports Savfox_Prelude "HOL-Library.Word"
begin

text \<open>
  The limits on sub-agents of \<^verbatim>\<open>crates/core/src/agent/guards.rs\<close>: a counter of spawned sessions shared by
  all agents of a user session, and the depth limit.

  The counter is an atomic word, the set of sessions is behind a mutex, and several agents spawn and
  shut down at once.  Each atomic action is one step of one thread (\<open>thread_step\<close>); \<open>guard_step\<close>
  interleaves the threads in any order, and a weak compare-and-exchange may fail for no reason.  The
  fields are read and written under acquire and release ordering of one location each, so the
  interleaving of the atomic actions is the whole behaviour.
\<close>

section \<open>Depth\<close>

type_synonym session_id = "128 word"

datatype sub_agent_source =
    Review
  | Compact
  | SessionSpawn session_id int
  | OtherAgent rstring

datatype session_source = Cli | VSCode | Exec | Mcp | SubAgent sub_agent_source | UnknownSource

definition MAX_THREAD_SPAWN_DEPTH :: int where
  "MAX_THREAD_SPAWN_DEPTH = 1"

fun session_depth :: "session_source \<Rightarrow> int" where
  "session_depth (SubAgent (SessionSpawn _ depth)) = depth"
| "session_depth (SubAgent _) = 0"
| "session_depth _ = 0"

text \<open>Depths are \<^verbatim>\<open>i32\<close>, and the addition saturates.\<close>

definition next_session_spawn_depth :: "session_source \<Rightarrow> int" where
  "next_session_spawn_depth src = min (session_depth src + 1) (2 ^ 31 - 1)"

definition exceeds_session_spawn_depth_limit :: "int \<Rightarrow> bool" where
  "exceeds_session_spawn_depth_limit depth \<longleftrightarrow> depth > MAX_THREAD_SPAWN_DEPTH"

section \<open>The shared state and its atomic actions\<close>

record guards =
  sessions_set :: "session_id set"
  total_count :: "64 word"

definition fetch_add :: "guards \<Rightarrow> guards" where
  "fetch_add g = g\<lparr>total_count := total_count g + 1\<rparr>"

definition fetch_sub :: "guards \<Rightarrow> guards" where
  "fetch_sub g = g\<lparr>total_count := total_count g - 1\<rparr>"

definition register_spawned_session :: "guards \<Rightarrow> session_id \<Rightarrow> guards" where
  "register_spawned_session g sid = g\<lparr>sessions_set := insert sid (sessions_set g)\<rparr>"

text \<open>
  Where a thread is: outside; in the loop of \<^verbatim>\<open>try_increment_spawned\<close> with the limit and the value it
  read; holding an active reservation; or in \<^verbatim>\<open>release_spawned_session\<close> after the removal.
\<close>

datatype thread_state =
    Idle
  | Spinning "64 word" "64 word"
  | Holding
  | Releasing

datatype action =
    Reserve "64 word option"
  | LimitReached
  | CasOk
  | CasFail
  | Commit session_id
  | DropReservation
  | Release session_id
  | ReleaseSub

fun thread_step :: "guards \<Rightarrow> thread_state \<Rightarrow> action \<Rightarrow> (guards \<times> thread_state) option" where
  "thread_step g Idle (Reserve max_sessions) =
     (case max_sessions of
        Some m \<Rightarrow> Some (g, Spinning m (total_count g))
      | None \<Rightarrow> Some (fetch_add g, Holding))"
| "thread_step g (Spinning m current) LimitReached = (if current \<ge> m then Some (g, Idle) else None)"
| "thread_step g (Spinning m current) CasOk =
     (if current \<ge> m then None
      else if total_count g = current then Some (g\<lparr>total_count := current + 1\<rparr>, Holding)
      else None)"
| "thread_step g (Spinning m current) CasFail =
     (if current \<ge> m then None else Some (g, Spinning m (total_count g)))"
| "thread_step g Holding (Commit sid) = Some (register_spawned_session g sid, Idle)"
| "thread_step g Holding DropReservation = Some (fetch_sub g, Idle)"
| "thread_step g Idle (Release sid) =
     (if sid \<in> sessions_set g
      then Some (g\<lparr>sessions_set := sessions_set g - {sid}\<rparr>, Releasing)
      else Some (g, Idle))"
| "thread_step g Releasing ReleaseSub = Some (fetch_sub g, Idle)"
| "thread_step g _ _ = None"

record system =
  shared :: guards
  threads :: "thread_state list"

inductive guard_step :: "system \<Rightarrow> nat \<times> action \<Rightarrow> system \<Rightarrow> bool" where
  act: "i < length (threads s) \<Longrightarrow> thread_step (shared s) (threads s ! i) a = Some (g, p) \<Longrightarrow>
    guard_step s (i, a) \<lparr>shared = g, threads = (threads s)[i := p]\<rparr>"

inductive runs :: "system \<Rightarrow> (nat \<times> action) list \<Rightarrow> system \<Rightarrow> bool" where
  stop: "runs s [] s"
| more: "runs s tr s' \<Longrightarrow> guard_step s' l s'' \<Longrightarrow> runs s (tr @ [l]) s''"

inductive_cases guard_stepE: "guard_step s (i, a) s'"

definition start :: "nat \<Rightarrow> system" where
  "start n = \<lparr>shared = \<lparr>sessions_set = {}, total_count = 0\<rparr>, threads = replicate n Idle\<rparr>"

section \<open>Counting the slots\<close>

text \<open>A thread that holds a reservation, or has yet to give a released slot back, accounts for one.\<close>

fun slot :: "thread_state \<Rightarrow> nat" where
  "slot Holding = 1"
| "slot Releasing = 1"
| "slot _ = 0"

definition slots :: "thread_state list \<Rightarrow> nat" where
  "slots ts = sum_list (map slot ts)"

fun bounded :: "64 word \<Rightarrow> action \<Rightarrow> bool" where
  "bounded limit (Reserve max_sessions) = (case max_sessions of Some m \<Rightarrow> m \<le> limit | None \<Rightarrow> False)"
| "bounded limit _ = True"

fun committed :: "(nat \<times> action) list \<Rightarrow> session_id list" where
  "committed [] = []"
| "committed ((_, Commit sid) # tr) = sid # committed tr"
| "committed (_ # tr) = committed tr"

definition within :: "64 word \<Rightarrow> system \<Rightarrow> bool" where
  "within limit s \<longleftrightarrow>
     finite (sessions_set (shared s)) \<and>
     card (sessions_set (shared s)) + slots (threads s) \<le> unat (total_count (shared s)) \<and>
     unat (total_count (shared s)) \<le> unat limit \<and>
     (\<forall>m c. Spinning m c \<in> set (threads s) \<longrightarrow> m \<le> limit)"

lemma slots_update:
  "i < length ts \<Longrightarrow> slots (ts[i := p]) + slot (ts ! i) = slots ts + slot p"
  unfolding slots_def
proof (induction ts arbitrary: i)
  case (Cons t ts)
  then show ?case by (cases i) auto
qed simp

lemma slot_le_slots: "i < length ts \<Longrightarrow> slot (ts ! i) \<le> slots ts"
  using elem_le_sum_list [of i "map slot ts"] by (simp add: slots_def)

lemma unat_increment:
  fixes w :: "64 word"
  assumes "w < m"
  shows "unat (w + 1) = unat w + 1"
proof -
  have "unat w < unat m" "unat m < 2 ^ 64"
    using assms unsigned_less [of m] by (simp_all add: word_less_nat_alt)
  then have "Suc (unat w) < 2 ^ 64" by linarith
  then show ?thesis by (simp add: unat_word_ariths)
qed

lemma unat_decrement:
  fixes w :: "64 word"
  shows "0 < unat w \<Longrightarrow> unat (w - 1) = unat w - 1"
  by (metis neq0_conv unat_eq_zero unat_minus_one)

lemma set_update_spin:
  "Spinning m c \<in> set (ts[i := p]) \<Longrightarrow> Spinning m c \<in> set ts \<or> p = Spinning m c"
  using set_update_subset_insert [of ts i p] by blast

lemma thread_step_within:
  assumes "thread_step g t a = Some (g', t')" "finite (sessions_set g)"
    and "card (sessions_set g) + rest + slot t \<le> unat (total_count g)"
    and "unat (total_count g) \<le> unat limit" "bounded limit a" "\<forall>m c. t = Spinning m c \<longrightarrow> m \<le> limit"
  shows "finite (sessions_set g') \<and> card (sessions_set g') + rest + slot t' \<le> unat (total_count g') \<and>
    unat (total_count g') \<le> unat limit \<and> (\<forall>m c. t' = Spinning m c \<longrightarrow> m \<le> limit)"
  using assms
proof (cases "(g, t, a)" rule: thread_step.cases)
  case (3 g m current)
  with assms have "current < m" "m \<le> limit" "total_count g = current"
    by (auto split: if_splits)
  moreover from this have "unat (current + 1) = unat current + 1" "unat current + 1 \<le> unat limit"
    by (auto simp: unat_increment word_less_nat_alt word_le_nat_alt)
  ultimately show ?thesis using 3 assms by (auto split: if_splits)
next
  case (5 g sid)
  with assms show ?thesis
    using card_insert_le_m1 [of "Suc (card (sessions_set g))" "sessions_set g" sid]
    by (auto simp: register_spawned_session_def card_insert_if)
next
  case (6 g)
  with assms show ?thesis by (auto simp: fetch_sub_def unat_decrement)
next
  case (7 g sid)
  with assms card_Suc_Diff1 [of "sessions_set g" sid] show ?thesis by (auto split: if_splits)
next
  case (8 g)
  with assms show ?thesis by (auto simp: fetch_sub_def unat_decrement)
qed (auto split: if_splits option.splits)

lemma within_step:
  assumes "within limit s" "guard_step s (i, a) s'" "bounded limit a"
  shows "within limit s'"
proof -
  obtain g p where i: "i < length (threads s)" and step: "thread_step (shared s) (threads s ! i) a = Some (g, p)"
    and s': "s' = \<lparr>shared = g, threads = (threads s)[i := p]\<rparr>"
    using assms(2) by (rule guard_stepE) auto
  let ?rest = "slots (threads s) - slot (threads s ! i)"
  have sl: "slots ((threads s)[i := p]) = ?rest + slot p" "slots (threads s) = ?rest + slot (threads s ! i)"
    using slots_update [OF i, of p] slot_le_slots [OF i] by simp_all
  have "\<forall>m c. threads s ! i = Spinning m c \<longrightarrow> m \<le> limit"
    using assms(1) nth_mem [OF i] unfolding within_def by metis
  with thread_step_within [OF step, of ?rest limit] assms(1,3) sl(2)
  have "finite (sessions_set g) \<and> card (sessions_set g) + ?rest + slot p \<le> unat (total_count g) \<and>
    unat (total_count g) \<le> unat limit \<and> (\<forall>m c. p = Spinning m c \<longrightarrow> m \<le> limit)"
    unfolding within_def by (simp add: add.assoc)
  moreover from this have "m \<le> limit" if "Spinning m c \<in> set ((threads s)[i := p])" for m c
    using set_update_spin [OF that] assms(1) unfolding within_def by blast
  ultimately show ?thesis
    using sl(1) by (auto simp: within_def s' add.assoc)
qed

lemma within_start: "within limit (start n)"
  by (auto simp: within_def start_def slots_def)

lemma within_runs:
  "runs (start n) tr s \<Longrightarrow> \<forall>(i, a) \<in> set tr. bounded limit a \<Longrightarrow> within limit s"
proof (induction "start n" tr s rule: runs.induct)
  case (more tr s' l s'')
  then show ?case by (cases l) (auto intro: within_step)
qed (rule within_start)

section \<open>No slot is lost\<close>

lemma committed_append: "committed (tr @ tr') = committed tr @ committed tr'"
  by (induction tr rule: committed.induct) auto

definition exact :: "(nat \<times> action) list \<Rightarrow> system \<Rightarrow> bool" where
  "exact tr s \<longleftrightarrow>
     sessions_set (shared s) \<subseteq> set (committed tr) \<and>
     card (sessions_set (shared s)) + slots (threads s) = unat (total_count (shared s))"

lemma thread_step_exact:
  assumes "thread_step g t a = Some (g', t')" "finite (sessions_set g)"
    and "card (sessions_set g) + rest + slot t = unat (total_count g)"
    and "a \<noteq> Reserve None" "\<forall>sid. a = Commit sid \<longrightarrow> sid \<notin> sessions_set g"
  shows "sessions_set g' \<subseteq> sessions_set g \<union> set (committed [(i, a)]) \<and>
    card (sessions_set g') + rest + slot t' = unat (total_count g')"
  using assms
proof (cases "(g, t, a)" rule: thread_step.cases)
  case (3 g m current)
  with assms have "current < m" "total_count g = current"
    by (auto split: if_splits)
  moreover from this have "unat (current + 1) = unat current + 1"
    by (auto simp: unat_increment)
  ultimately show ?thesis using 3 assms by (auto split: if_splits)
next
  case (5 g sid)
  with assms show ?thesis by (auto simp: register_spawned_session_def)
next
  case (6 g)
  with assms show ?thesis by (auto simp: fetch_sub_def unat_decrement)
next
  case (7 g sid)
  with assms card_Suc_Diff1 [of "sessions_set g" sid] show ?thesis by (auto split: if_splits)
next
  case (8 g)
  with assms show ?thesis by (auto simp: fetch_sub_def unat_decrement)
qed (auto split: if_splits option.splits)

lemma exact_step:
  assumes "exact tr s" "within limit s" "guard_step s (i, a) s'" "bounded limit a"
    and "distinct (committed (tr @ [(i, a)]))"
  shows "exact (tr @ [(i, a)]) s'"
proof -
  obtain g p where i: "i < length (threads s)" and step: "thread_step (shared s) (threads s ! i) a = Some (g, p)"
    and s': "s' = \<lparr>shared = g, threads = (threads s)[i := p]\<rparr>"
    using assms(3) by (rule guard_stepE) auto
  let ?rest = "slots (threads s) - slot (threads s ! i)"
  have sl: "slots ((threads s)[i := p]) = ?rest + slot p" "slots (threads s) = ?rest + slot (threads s ! i)"
    using slots_update [OF i, of p] slot_le_slots [OF i] by simp_all
  have "\<forall>sid. a = Commit sid \<longrightarrow> sid \<notin> sessions_set (shared s)"
    using assms(1,5) by (auto simp: exact_def committed_append)
  moreover have "a \<noteq> Reserve None" using assms(4) by auto
  moreover have "finite (sessions_set (shared s))" using assms(2) by (simp add: within_def)
  moreover have "card (sessions_set (shared s)) + ?rest + slot (threads s ! i) = unat (total_count (shared s))"
    using assms(1) sl(2) by (simp add: exact_def)
  ultimately show ?thesis
    using thread_step_exact [OF step, of ?rest i] assms(1) sl(1)
    by (auto simp: exact_def s' committed_append add.assoc)
qed

lemma exact_runs:
  "runs (start n) tr s \<Longrightarrow> \<forall>(i, a) \<in> set tr. bounded limit a \<Longrightarrow> distinct (committed tr) \<Longrightarrow> exact tr s"
proof (induction "start n" tr s rule: runs.induct)
  case (more tr s' l s'')
  obtain i a where l: "l = (i, a)" by (cases l)
  have "exact tr s'" using more by (simp add: committed_append)
  moreover have "within limit s'" using more.hyps(1) more.prems(1) by (intro within_runs) auto
  ultimately show ?case using more.hyps(3) more.prems l by (auto intro: exact_step)
next
  case stop
  then show ?case by (simp add: exact_def start_def slots_def)
qed

text \<open>
  C35.  In every interleaving of any number of threads whose reservations all use a limit of at most
  \<open>limit\<close>, the live sub-agents, the open reservations and the slots being given back together never
  exceed the limit, and the atomic counter never wraps below them.
\<close>

theorem spawn_limit_holds:
  assumes "runs (start n) tr s" "\<forall>(i, a) \<in> set tr. bounded limit a"
  shows "card (sessions_set (shared s)) + slots (threads s) \<le> unat (total_count (shared s)) \<and>
    unat (total_count (shared s)) \<le> unat limit"
  using within_runs [OF assms] by (simp add: within_def)

text \<open>
  If moreover no session identifier is committed twice, the counter is exact in every reachable
  state: it is zero again once every thread is outside and every session was released, and as long as it
  is below the limit an idle thread can take a slot at once.
\<close>

lemma spawn_slots_exact:
  assumes "runs (start n) tr s" "\<forall>(i, a) \<in> set tr. bounded limit a" "distinct (committed tr)"
  shows "unat (total_count (shared s)) = card (sessions_set (shared s)) + slots (threads s) \<and>
    (\<forall>i < length (threads s). threads s ! i = Idle \<longrightarrow>
       card (sessions_set (shared s)) + slots (threads s) < unat limit \<longrightarrow>
       (\<exists>s'. runs (start n) (tr @ [(i, Reserve (Some limit)), (i, CasOk)]) s' \<and> threads s' ! i = Holding))"
proof -
  have eq: "unat (total_count (shared s)) = card (sessions_set (shared s)) + slots (threads s)"
    using exact_runs [OF assms] by (simp add: exact_def)
  have "\<exists>s'. runs (start n) (tr @ [(i, Reserve (Some limit)), (i, CasOk)]) s' \<and> threads s' ! i = Holding"
    if i: "i < length (threads s)" "threads s ! i = Idle" and room: "unat (total_count (shared s)) < unat limit" for i
  proof -
    let ?c = "total_count (shared s)"
    let ?s1 = "\<lparr>shared = shared s, threads = (threads s)[i := Spinning limit ?c]\<rparr>"
    let ?s2 = "\<lparr>shared = (shared s)\<lparr>total_count := ?c + 1\<rparr>, threads = (threads ?s1)[i := Holding]\<rparr>"
    have "guard_step s (i, Reserve (Some limit)) ?s1"
      by (rule guard_step.act) (use i in simp_all)
    moreover have "guard_step ?s1 (i, CasOk) ?s2"
      by (rule guard_step.act) (use i room in \<open>simp_all add: word_le_nat_alt\<close>)
    ultimately have "runs (start n) ((tr @ [(i, Reserve (Some limit))]) @ [(i, CasOk)]) ?s2"
      using assms(1) by (blast intro: runs.more)
    with i show ?thesis by (intro exI [of _ ?s2]) simp
  qed
  with eq show ?thesis by simp
qed

lemma two_thread_run:
  "runs (start 2) [(0, Reserve (Some 1)), (1, Reserve (Some 1)), (0, CasOk), (1, CasFail), (1, LimitReached)]
     \<lparr>shared = \<lparr>sessions_set = {}, total_count = 1\<rparr>, threads = [Holding, Idle]\<rparr>"
proof -
  have step: "runs (start 2) (tr @ [(i, a)]) \<lparr>shared = g, threads = ts\<rparr>"
    if "runs (start 2) tr s" "i < length (threads s)" "thread_step (shared s) (threads s ! i) a = Some (g, p)"
      "ts = (threads s)[i := p]" for tr s i a g p ts
    using that by (blast intro: runs.more guard_step.act)
  have "runs (start 2) ([] @ [(0, Reserve (Some 1))]) \<lparr>shared = shared (start 2), threads = [Spinning 1 0, Idle]\<rparr>"
    by (rule step [OF runs.stop]) (simp_all add: start_def numeral_2_eq_2)
  from step [OF this, of 1 "Reserve (Some 1)" "shared (start 2)" "Spinning 1 0" "[Spinning 1 0, Spinning 1 0]"]
  have "runs (start 2) [(0, Reserve (Some 1)), (1, Reserve (Some 1))]
      \<lparr>shared = shared (start 2), threads = [Spinning 1 0, Spinning 1 0]\<rparr>"
    by (simp add: start_def)
  from step [OF this, of 0 CasOk "\<lparr>sessions_set = {}, total_count = 1\<rparr>" Holding "[Holding, Spinning 1 0]"]
  have "runs (start 2) [(0, Reserve (Some 1)), (1, Reserve (Some 1)), (0, CasOk)]
      \<lparr>shared = \<lparr>sessions_set = {}, total_count = 1\<rparr>, threads = [Holding, Spinning 1 0]\<rparr>"
    by (simp add: start_def)
  from step [OF this, of 1 CasFail _ "Spinning 1 1" "[Holding, Spinning 1 1]"]
  have "runs (start 2) [(0, Reserve (Some 1)), (1, Reserve (Some 1)), (0, CasOk), (1, CasFail)]
      \<lparr>shared = \<lparr>sessions_set = {}, total_count = 1\<rparr>, threads = [Holding, Spinning 1 1]\<rparr>"
    by simp
  from step [OF this, of 1 LimitReached _ Idle "[Holding, Idle]"] show ?thesis by simp
qed

theorem spawn_limit_holds_witness:
  "\<exists>s. runs (start 2) [(0, Reserve (Some 1)), (1, Reserve (Some 1)), (0, CasOk), (1, CasFail), (1, LimitReached)] s \<and>
     slots (threads s) = 1 \<and> card (sessions_set (shared s)) + slots (threads s) \<le> unat (total_count (shared s))"
  using spawn_limit_holds [OF two_thread_run, of 1] two_thread_run
  by (intro exI [of _ "\<lparr>shared = \<lparr>sessions_set = {}, total_count = 1\<rparr>, threads = [Holding, Idle]\<rparr>"])
    (simp add: slots_def)

end
