(* ===== verification/Truncate.thy ===== *)
theory Truncate
  imports Savfox_Prelude
begin

text \<open>
  Shortening of tool output, \<^verbatim>\<open>crates/core/src/truncate.rs\<close>: the middle of a text is cut out on
  character boundaries and replaced by a marker, with the budget given in bytes or in estimated tokens.

  Positions are byte offsets as in the source.  Slicing a string at an offset inside a character
  panics; this is the value \<open>None\<close>, and it is shown never to happen.  The budget is scaled in IEEE
  double precision, which is written out on integers.
\<close>

section \<open>Budgets\<close>

definition APPROX_BYTES_PER_TOKEN :: nat where
  "APPROX_BYTES_PER_TOKEN = 4"

datatype truncation_policy = Bytes nat | Tokens nat

definition approx_token_count :: "rstring \<Rightarrow> nat" where
  "approx_token_count text = sat_add (byte_len text) (APPROX_BYTES_PER_TOKEN - 1) div APPROX_BYTES_PER_TOKEN"

definition approx_bytes_for_tokens :: "nat \<Rightarrow> nat" where
  "approx_bytes_for_tokens tokens = sat_mul tokens APPROX_BYTES_PER_TOKEN"

definition approx_tokens_from_byte_count :: "nat \<Rightarrow> nat" where
  "approx_tokens_from_byte_count bytes = sat_add bytes (APPROX_BYTES_PER_TOKEN - 1) div APPROX_BYTES_PER_TOKEN"

fun token_budget :: "truncation_policy \<Rightarrow> nat" where
  "token_budget (Bytes bytes) = approx_tokens_from_byte_count bytes"
| "token_budget (Tokens tokens) = tokens"

fun byte_budget :: "truncation_policy \<Rightarrow> nat" where
  "byte_budget (Bytes bytes) = bytes"
| "byte_budget (Tokens tokens) = approx_bytes_for_tokens tokens"

text \<open>
  \<^verbatim>\<open>f64\<close>: a non-negative number is rounded to 53 significant bits, ties to even.  The multiplier is
  given in units of \<open>2^-52\<close>, and so is the product before \<^verbatim>\<open>ceil\<close>; the cast to \<^verbatim>\<open>usize\<close> saturates.
\<close>

fun bit_length :: "nat \<Rightarrow> nat" where
  "bit_length n = (if n = 0 then 0 else Suc (bit_length (n div 2)))"

declare bit_length.simps [simp del]

definition f64_round :: "nat \<Rightarrow> nat" where
  "f64_round n =
     (let s = bit_length n - 53;
          q = n div 2 ^ s;
          r = n mod 2 ^ s
      in (if 2 ^ s < 2 * r \<or> (2 * r = 2 ^ s \<and> odd q) then q + 1 else q) * 2 ^ s)"

definition f64_ceil_mul :: "nat \<Rightarrow> nat \<Rightarrow> nat" where
  "f64_ceil_mul n multiplier = min ((f64_round (f64_round n * multiplier) + (2 ^ 52 - 1)) div 2 ^ 52) usize_max"

fun policy_mul :: "truncation_policy \<Rightarrow> nat \<Rightarrow> truncation_policy" where
  "policy_mul (Bytes bytes) multiplier = Bytes (f64_ceil_mul bytes multiplier)"
| "policy_mul (Tokens tokens) multiplier = Tokens (f64_ceil_mul tokens multiplier)"

text \<open>The scaling used by the history: \<^verbatim>\<open>1.2\<close> as a double.\<close>

definition ONE_POINT_TWO :: nat where
  "ONE_POINT_TWO = 5404319552844595"

section \<open>Cutting a text\<close>

text \<open>\<^verbatim>\<open>&s[..n]\<close> and \<^verbatim>\<open>&s[n..]\<close> at byte offset \<open>n\<close>.\<close>

fun str_slice_to :: "nat \<Rightarrow> rstring \<Rightarrow> rstring option" where
  "str_slice_to n [] = (if n = 0 then Some [] else None)"
| "str_slice_to n (c # s) =
     (if n = 0 then Some []
      else if len_utf8 c \<le> n then map_option ((#) c) (str_slice_to (n - len_utf8 c) s)
      else None)"

fun str_slice_from :: "nat \<Rightarrow> rstring \<Rightarrow> rstring option" where
  "str_slice_from n [] = (if n = 0 then Some [] else None)"
| "str_slice_from n (c # s) =
     (if n = 0 then Some (c # s)
      else if len_utf8 c \<le> n then str_slice_from (n - len_utf8 c) s
      else None)"

text \<open>The loop of \<^verbatim>\<open>split_string\<close>: \<^verbatim>\<open>prefix_end\<close>, \<^verbatim>\<open>suffix_start\<close>, \<^verbatim>\<open>removed_chars\<close>, \<^verbatim>\<open>suffix_started\<close>.\<close>

fun split_loop ::
  "nat \<Rightarrow> nat \<Rightarrow> nat \<Rightarrow> rstring \<Rightarrow> nat \<times> nat \<times> nat \<times> bool \<Rightarrow> nat \<times> nat \<times> nat \<times> bool" where
  "split_loop beginning_bytes tail_start_target idx [] st = st"
| "split_loop beginning_bytes tail_start_target idx (ch # s) (prefix_end, suffix_start, removed_chars, suffix_started) =
     (let char_end = idx + len_utf8 ch in
      if char_end \<le> beginning_bytes
      then split_loop beginning_bytes tail_start_target char_end s
             (char_end, suffix_start, removed_chars, suffix_started)
      else if idx \<ge> tail_start_target
      then split_loop beginning_bytes tail_start_target char_end s
             (if \<not> suffix_started then (prefix_end, idx, removed_chars, True)
              else (prefix_end, suffix_start, removed_chars, suffix_started))
      else split_loop beginning_bytes tail_start_target char_end s
             (prefix_end, suffix_start, sat_add removed_chars 1, suffix_started))"

definition split_string :: "rstring \<Rightarrow> nat \<Rightarrow> nat \<Rightarrow> (nat \<times> rstring \<times> rstring) option" where
  "split_string s beginning_bytes end_bytes =
     (if s = [] then Some (0, [], [])
      else
        (let len = byte_len s;
             tail_start_target = len - end_bytes
         in
         case split_loop beginning_bytes tail_start_target 0 s (0, len, 0, False) of
           (prefix_end, suffix_start, removed_chars, _) \<Rightarrow>
             (let suffix_start = (if suffix_start < prefix_end then prefix_end else suffix_start) in
              case (str_slice_to prefix_end s, str_slice_from suffix_start s) of
                (Some before, Some after) \<Rightarrow> Some (removed_chars, before, after)
              | _ \<Rightarrow> None)))"

fun format_truncation_marker :: "truncation_policy \<Rightarrow> nat \<Rightarrow> rstring" where
  "format_truncation_marker (Tokens _) removed_count =
     [8230] @ show_nat removed_count @ lit '' tokens truncated'' @ [8230]"
| "format_truncation_marker (Bytes _) removed_count =
     [8230] @ show_nat removed_count @ lit '' chars truncated'' @ [8230]"

definition split_budget :: "nat \<Rightarrow> nat \<times> nat" where
  "split_budget budget = (let left = budget div 2 in (left, budget - left))"

fun removed_units_for_source :: "truncation_policy \<Rightarrow> nat \<Rightarrow> nat \<Rightarrow> nat" where
  "removed_units_for_source (Tokens _) removed_bytes removed_chars = approx_tokens_from_byte_count removed_bytes"
| "removed_units_for_source (Bytes _) removed_bytes removed_chars = removed_chars"

definition assemble_truncated_output :: "rstring \<Rightarrow> rstring \<Rightarrow> rstring \<Rightarrow> rstring" where
  "assemble_truncated_output pre suf marker = pre @ marker @ suf"

definition truncate_with_byte_estimate :: "rstring \<Rightarrow> truncation_policy \<Rightarrow> rstring option" where
  "truncate_with_byte_estimate s policy =
     (if s = [] then Some []
      else
        (let total_chars = length s;
             max_bytes = byte_budget policy
         in
         if max_bytes = 0
         then Some (format_truncation_marker policy (removed_units_for_source policy (byte_len s) total_chars))
         else if byte_len s \<le> max_bytes then Some s
         else
           (case split_budget max_bytes of
              (left_budget, right_budget) \<Rightarrow>
                (case split_string s left_budget right_budget of
                   None \<Rightarrow> None
                 | Some (removed_chars, left, right) \<Rightarrow>
                     (let marker = format_truncation_marker policy
                        (removed_units_for_source policy (byte_len s - max_bytes) removed_chars)
                      in Some (assemble_truncated_output left right marker))))))"

definition truncate_with_token_budget ::
  "rstring \<Rightarrow> truncation_policy \<Rightarrow> (rstring \<times> nat option) option" where
  "truncate_with_token_budget s policy =
     (if s = [] then Some ([], None)
      else
        (let max_tokens = token_budget policy in
         if max_tokens > 0 \<and> byte_len s \<le> approx_bytes_for_tokens max_tokens then Some (s, None)
         else
           (case truncate_with_byte_estimate s policy of
              None \<Rightarrow> None
            | Some truncated \<Rightarrow>
                Some (if truncated = s then (truncated, None) else (truncated, Some (approx_token_count s))))))"

fun truncate_text :: "rstring \<Rightarrow> truncation_policy \<Rightarrow> rstring option" where
  "truncate_text content (Bytes n) = truncate_with_byte_estimate content (Bytes n)"
| "truncate_text content (Tokens n) = map_option fst (truncate_with_token_budget content (Tokens n))"

definition formatted_truncate_text :: "rstring \<Rightarrow> truncation_policy \<Rightarrow> rstring option" where
  "formatted_truncate_text content policy =
     (if byte_len content \<le> byte_budget policy then Some content
      else
        (let total_lines = length (str_lines content) in
         map_option (\<lambda>result. lit ''Total output lines: '' @ show_nat total_lines @ [nl_char, nl_char] @ result)
           (truncate_text content policy)))"

section \<open>Function output items\<close>

datatype function_call_output_content_item = OutText rstring | OutImage rstring

fun item_cost :: "truncation_policy \<Rightarrow> rstring \<Rightarrow> nat" where
  "item_cost (Bytes _) text = byte_len text"
| "item_cost (Tokens _) text = approx_token_count text"

fun with_budget :: "truncation_policy \<Rightarrow> nat \<Rightarrow> truncation_policy" where
  "with_budget (Bytes _) remaining = Bytes remaining"
| "with_budget (Tokens _) remaining = Tokens remaining"

text \<open>The loop of \<^verbatim>\<open>truncate_function_output_items_with_policy\<close>: the output and the omitted count.\<close>

fun items_loop ::
  "truncation_policy \<Rightarrow> nat \<Rightarrow> nat \<Rightarrow> function_call_output_content_item list \<Rightarrow>
     (function_call_output_content_item list \<times> nat) option" where
  "items_loop policy remaining omitted [] = Some ([], omitted)"
| "items_loop policy remaining omitted (OutText text # items) =
     (if remaining = 0 then items_loop policy remaining (omitted + 1) items
      else
        (let cost = item_cost policy text in
         if cost \<le> remaining
         then map_option (apfst ((#) (OutText text))) (items_loop policy (remaining - cost) omitted items)
         else
           (case truncate_text text (with_budget policy remaining) of
              None \<Rightarrow> None
            | Some snippet \<Rightarrow>
                (if snippet = [] then items_loop policy 0 (omitted + 1) items
                 else map_option (apfst ((#) (OutText snippet))) (items_loop policy 0 omitted items)))))"
| "items_loop policy remaining omitted (OutImage image_url # items) =
     map_option (apfst ((#) (OutImage image_url))) (items_loop policy remaining omitted items)"

fun initial_budget :: "truncation_policy \<Rightarrow> nat" where
  "initial_budget (Bytes n) = byte_budget (Bytes n)"
| "initial_budget (Tokens n) = token_budget (Tokens n)"

definition truncate_function_output_items_with_policy ::
  "function_call_output_content_item list \<Rightarrow> truncation_policy \<Rightarrow> function_call_output_content_item list option" where
  "truncate_function_output_items_with_policy items policy =
     (case items_loop policy (initial_budget policy) 0 items of
        None \<Rightarrow> None
      | Some (out, omitted) \<Rightarrow>
          Some (if omitted > 0
                then out @ [OutText (lit ''[omitted '' @ show_nat omitted @ lit '' text items ...]'')]
                else out))"

section \<open>The scaled budget\<close>

lemma bit_length_le: "n < 2 ^ k \<Longrightarrow> bit_length n \<le> k"
proof (induction n arbitrary: k rule: bit_length.induct)
  case (1 n)
  show ?case
  proof (cases "n = 0")
    case True
    then show ?thesis by (simp add: bit_length.simps)
  next
    case False
    with "1.prems" obtain j where k: "k = Suc j" by (cases k) auto
    with False 1 have "bit_length (n div 2) \<le> j" by simp
    with False k show ?thesis by (simp add: bit_length.simps [of n])
  qed
qed

lemma f64_round_error:
  "2 * f64_round n \<le> 2 * n + 2 ^ (bit_length n - 53) \<and> 2 * n \<le> 2 * f64_round n + 2 ^ (bit_length n - 53)"
proof -
  define d :: nat where "d = 2 ^ (bit_length n - 53)"
  have n: "n = n div d * d + n mod d" by simp
  have "d > 0" by (simp add: d_def)
  then have r: "n mod d < d" by simp
  show ?thesis
  proof (cases "d < 2 * (n mod d) \<or> 2 * (n mod d) = d \<and> odd (n div d)")
    case True
    then have "f64_round n = n div d * d + d" "d \<le> 2 * (n mod d)"
      by (auto simp: f64_round_def Let_def d_def [symmetric])
    with n r show ?thesis unfolding d_def [symmetric] by linarith
  next
    case False
    then have "f64_round n = n div d * d" "2 * (n mod d) \<le> d"
      by (auto simp: f64_round_def Let_def d_def [symmetric])
    with n show ?thesis unfolding d_def [symmetric] by linarith
  qed
qed

lemma f64_round_exact: "n < 2 ^ 53 \<Longrightarrow> f64_round n = n"
  using bit_length_le [of n 53] by (simp add: f64_round_def Let_def)

text \<open>
  Scaling by \<^verbatim>\<open>1.2\<close> never shrinks a limit that a double represents exactly, and adds no more than a
  fifth and two.
\<close>

lemma scaled_error:
  assumes "n < 2 ^ k" "k \<le> 53"
  shows "2 * f64_round (n * ONE_POINT_TWO) \<le> 2 * (n * ONE_POINT_TWO) + 2 ^ k"
    and "2 * (n * ONE_POINT_TWO) \<le> 2 * f64_round (n * ONE_POINT_TWO) + 2 ^ k"
proof -
  have "n * ONE_POINT_TWO \<le> n * 2 ^ 53" by (simp add: ONE_POINT_TWO_def)
  also have "\<dots> < 2 ^ (k + 53)" using assms(1) by (simp add: power_add)
  finally have "bit_length (n * ONE_POINT_TWO) - 53 \<le> k" using bit_length_le by fastforce
  then have "(2 :: nat) ^ (bit_length (n * ONE_POINT_TWO) - 53) \<le> 2 ^ k"
    by (intro power_increasing) auto
  with f64_round_error [of "n * ONE_POINT_TWO"]
  show "2 * f64_round (n * ONE_POINT_TWO) \<le> 2 * (n * ONE_POINT_TWO) + 2 ^ k"
    and "2 * (n * ONE_POINT_TWO) \<le> 2 * f64_round (n * ONE_POINT_TWO) + 2 ^ k"
    by linarith+
qed

lemma ceil_div: "(X :: nat) \<le> (X + (2 ^ 52 - 1)) div 2 ^ 52 * 2 ^ 52 \<and> (X + (2 ^ 52 - 1)) div 2 ^ 52 * 2 ^ 52 \<le> X + (2 ^ 52 - 1)"
  using div_mult_mod_eq [of "X + (2 ^ 52 - 1)" "2 ^ 52"] mod_less_divisor [of "2 ^ 52" "X + (2 ^ 52 - 1)"] by simp

lemma scaled_budget:
  assumes "n < 2 ^ 53"
  shows "n \<le> f64_ceil_mul n ONE_POINT_TWO \<and> 5 * f64_ceil_mul n ONE_POINT_TWO \<le> 6 * n + 10"
proof -
  define X where "X = f64_round (n * ONE_POINT_TWO)"
  define C where "C = (X + (2 ^ 52 - 1)) div 2 ^ 52"
  have C: "X \<le> C * 4503599627370496" "C * 4503599627370496 \<le> X + 4503599627370495"
    using ceil_div [of X] by (simp_all add: C_def)
  have err: "2 * X \<le> 2 * (n * 5404319552844595) + 9007199254740992"
      "2 * (n * 5404319552844595) \<le> 2 * X + 9007199254740992"
    using scaled_error [of n 53] assms by (simp_all add: X_def ONE_POINT_TWO_def)
  have "n \<le> C"
  proof (cases "n < 8")
    case True
    then have "2 * (n * 5404319552844595) \<le> 2 * X + 8"
      using scaled_error(2) [of n 3] by (simp add: X_def ONE_POINT_TWO_def)
    with C(1) show ?thesis by linarith
  next
    case False
    with C(1) err(2) show ?thesis by linarith
  qed
  moreover have up: "5 * C \<le> 6 * n + 10" using C(2) err(1) by linarith
  moreover have "C \<le> usize_max" using up assms by (simp add: usize_max_def)
  then have "f64_ceil_mul n ONE_POINT_TWO = C"
    by (simp add: f64_ceil_mul_def f64_round_exact [OF assms] X_def C_def)
  ultimately show ?thesis by simp
qed

section \<open>The pieces that are kept\<close>

text \<open>The longest prefix, and the longest suffix, of at most \<open>n\<close> bytes.\<close>

fun fit_prefix :: "nat \<Rightarrow> rstring \<Rightarrow> rstring" where
  "fit_prefix n [] = []"
| "fit_prefix n (c # s) = (if len_utf8 c \<le> n then c # fit_prefix (n - len_utf8 c) s else [])"

definition fit_suffix :: "nat \<Rightarrow> rstring \<Rightarrow> rstring" where
  "fit_suffix n s = rev (fit_prefix n (rev s))"

lemma byte_len_rev [simp]: "byte_len (rev s) = byte_len s"
  by (induction s) simp_all

lemma fit_prefix_le: "byte_len (fit_prefix n s) \<le> n"
  by (induction n s rule: fit_prefix.induct) auto

lemma fit_prefix_prefix: "s = fit_prefix n s @ drop (length (fit_prefix n s)) s"
  by (induction n s rule: fit_prefix.induct) auto

lemma fit_prefix_full: "drop (length (fit_prefix n s)) s = c # t \<Longrightarrow> n < byte_len (fit_prefix n s) + len_utf8 c"
  by (induction n s rule: fit_prefix.induct) (auto split: if_splits)

lemma fit_prefix_unique:
  "byte_len p \<le> n \<Longrightarrow> (\<And>c t. r = c # t \<Longrightarrow> n < byte_len p + len_utf8 c) \<Longrightarrow> fit_prefix n (p @ r) = p"
proof (induction p arbitrary: n)
  case Nil
  then show ?case by (cases r) auto
next
  case (Cons c p)
  then have "fit_prefix (n - len_utf8 c) (p @ r) = p" by (intro Cons.IH) fastforce+
  with Cons.prems show ?case by simp
qed

lemma fit_suffix_unique:
  assumes "byte_len r \<le> n" "\<And>c x. p = x @ [c] \<Longrightarrow> n < byte_len r + len_utf8 c"
  shows "fit_suffix n (p @ r) = r"
proof -
  have "fit_prefix n (rev r @ rev p) = rev r"
    using assms by (intro fit_prefix_unique) (auto simp: rev_eq_Cons_iff)
  then show ?thesis by (simp add: fit_suffix_def)
qed

lemma str_slice_to_append: "str_slice_to (byte_len p) (p @ r) = Some p"
  by (induction p; cases r) auto

lemma str_slice_from_append: "str_slice_from (byte_len p) (p @ r) = Some r"
  by (induction p; cases r) auto

section \<open>The split\<close>

fun mid_of :: "nat \<Rightarrow> nat \<Rightarrow> rstring \<Rightarrow> rstring" where
  "mid_of t idx [] = []"
| "mid_of t idx (c # s) = (if t \<le> idx then [] else c # mid_of t (idx + len_utf8 c) s)"

lemma mid_of_prefix: "s = mid_of t idx s @ drop (length (mid_of t idx s)) s"
  by (induction t idx s rule: mid_of.induct) auto

lemma mid_of_ends: "drop (length (mid_of t idx s)) s \<noteq> [] \<Longrightarrow> t \<le> idx + byte_len (mid_of t idx s)"
  by (induction t idx s rule: mid_of.induct) (auto split: if_splits)

lemma mid_of_full: "mid_of t idx s = x @ [c] \<Longrightarrow> idx + byte_len x < t"
proof (induction t idx s arbitrary: x rule: mid_of.induct)
  case (2 t idx c' s)
  then show ?case by (cases x) (auto split: if_splits)
qed simp

definition past :: "nat \<Rightarrow> nat \<Rightarrow> rstring \<Rightarrow> bool" where
  "past b idx s \<longleftrightarrow> (\<forall>c t. s = c # t \<longrightarrow> b < idx + len_utf8 c)"

lemma past_Cons: "past b idx (c # s) \<Longrightarrow> b < idx + len_utf8 c \<and> past b (idx + len_utf8 c) s"
  by (auto simp: past_def intro: trans_less_add1)

lemma split_loop_suffix:
  "past b idx s \<Longrightarrow> t \<le> idx \<Longrightarrow> split_loop b t idx s (pe, ss, rm, True) = (pe, ss, rm, True)"
proof (induction s arbitrary: idx)
  case (Cons c s)
  then show ?case using past_Cons [OF Cons.prems(1)] by (simp add: Let_def)
qed simp

lemma split_loop_middle:
  "past b idx s \<Longrightarrow> rm + length s \<le> usize_max \<Longrightarrow>
   split_loop b t idx s (pe, ss, rm, False) =
     (pe, if mid_of t idx s = s then ss else idx + byte_len (mid_of t idx s),
      rm + length (mid_of t idx s), mid_of t idx s \<noteq> s)"
proof (induction s arbitrary: idx rm)
  case (Cons c s)
  note p = past_Cons [OF Cons.prems(1)]
  show ?case
  proof (cases "t \<le> idx")
    case True
    with p show ?thesis by (simp add: Let_def split_loop_suffix)
  next
    case False
    with p Cons show ?thesis by (simp add: Let_def sat_add_exact add.assoc)
  qed
qed simp

lemma split_loop_prefix:
  "idx \<le> b \<Longrightarrow> split_loop b t idx s (idx, ss, 0, False) =
     split_loop b t (idx + byte_len (fit_prefix (b - idx) s)) (drop (length (fit_prefix (b - idx) s)) s)
       (idx + byte_len (fit_prefix (b - idx) s), ss, 0, False)"
proof (induction s arbitrary: idx)
  case (Cons c s)
  show ?case
  proof (cases "idx + len_utf8 c \<le> b")
    case True
    with Cons.IH [of "idx + len_utf8 c"] Cons.prems show ?thesis
      by (simp add: Let_def le_diff_conv2 add.assoc)
  next
    case False
    with Cons.prems show ?thesis by (simp add: le_diff_conv2 add.commute)
  qed
qed simp

lemma split_string_spec:
  assumes "byte_len s \<le> usize_max" "b + e \<le> byte_len s"
  shows "\<exists>mid. s = fit_prefix b s @ mid @ fit_suffix e s \<and>
    split_string s b e = Some (length mid, fit_prefix b s, fit_suffix e s)"
proof (cases "s = []")
  case True
  then show ?thesis by (simp add: split_string_def fit_suffix_def)
next
  case False
  define p where "p = fit_prefix b s"
  define r where "r = drop (length p) s"
  define t where "t = byte_len s - e"
  define m where "m = mid_of t (byte_len p) r"
  define q where "q = drop (length m) r"
  have s: "s = p @ r" "r = m @ q"
    using fit_prefix_prefix [of s b] mid_of_prefix [of r t "byte_len p"] by (simp_all add: p_def r_def m_def q_def)
  have total: "byte_len s = byte_len p + byte_len m + byte_len q"
    by (simp add: s(1)) (simp add: s(2))
  have pb: "byte_len p \<le> b" unfolding p_def by (rule fit_prefix_le)
  have past: "past b (byte_len p) r"
    using fit_prefix_full [of b s] by (auto simp: past_def p_def r_def)
  have q: "byte_len q \<le> e"
  proof (cases "q = []")
    case False
    with mid_of_ends [of t "byte_len p" r] have "t \<le> byte_len p + byte_len m"
      by (simp add: m_def [symmetric] q_def [symmetric])
    with total show ?thesis by (simp add: t_def)
  qed simp
  have "fit_suffix e ((p @ m) @ q) = q"
  proof (rule fit_suffix_unique [OF q])
    fix c x assume x: "p @ m = x @ [c]"
    show "e < byte_len q + len_utf8 c"
    proof (cases m rule: rev_cases)
      case Nil
      with total have "byte_len s = byte_len p + byte_len q" by simp
      with pb assms(2) len_utf8_pos [of c] show ?thesis by linarith
    next
      case (snoc y d)
      with mid_of_full [of t "byte_len p" r y d] have "byte_len p + byte_len y < t" by (simp add: m_def)
      with total snoc x show ?thesis by (simp add: t_def)
    qed
  qed
  then have suf: "fit_suffix e s = q" by (simp add: s)
  have "split_loop b t 0 s (0, byte_len s, 0, False) = (byte_len p, byte_len p + byte_len m, length m, m \<noteq> r)"
  proof -
    have "length r \<le> usize_max"
      using length_le_byte_len [of s] assms(1) by (simp add: s(1))
    then have "split_loop b t (byte_len p) r (byte_len p, byte_len s, 0, False) =
        (byte_len p, if m = r then byte_len s else byte_len p + byte_len m, length m, m \<noteq> r)"
      using split_loop_middle [OF past, of 0 t "byte_len p" "byte_len s"] by (simp add: m_def)
    moreover have "split_loop b t 0 s (0, byte_len s, 0, False) =
        split_loop b t (byte_len p) r (byte_len p, byte_len s, 0, False)"
      using split_loop_prefix [of 0 b t s "byte_len s"] by (simp add: p_def r_def)
    moreover have "byte_len s = byte_len p + byte_len m" if "m = r"
      using that by (simp add: s(1))
    ultimately show ?thesis by simp
  qed
  then have "split_string s b e = Some (length m, p, q)"
    using False str_slice_to_append [of p r] str_slice_from_append [of "p @ m" q]
    by (simp add: split_string_def Let_def t_def [symmetric]) (simp add: s)
  moreover have "s = p @ m @ q" by (simp add: s)
  ultimately show ?thesis unfolding suf p_def [symmetric] by blast
qed

text \<open>What a text is shortened to.\<close>

definition shortened :: "truncation_policy \<Rightarrow> rstring \<Rightarrow> rstring" where
  "shortened p s =
     (let n = byte_budget p; left = fit_prefix (n div 2) s; right = fit_suffix (n - n div 2) s in
      if byte_len s \<le> n then s
      else left @ format_truncation_marker p
             (removed_units_for_source p (byte_len s - n) (length s - length left - length right)) @ right)"

lemma byte_estimate_spec:
  assumes "byte_len s \<le> usize_max"
  shows "truncate_with_byte_estimate s p = Some (shortened p s)"
proof -
  let ?n = "byte_budget p"
  consider "s = []" | "s \<noteq> []" "?n = 0" | "s \<noteq> []" "?n \<noteq> 0" "byte_len s \<le> ?n" | "?n \<noteq> 0" "?n < byte_len s" by force
  then show ?thesis
  proof cases
    case 2
    then have "fit_prefix 0 s = []" "fit_suffix 0 s = []"
      using fit_prefix_le [of 0 s] fit_prefix_le [of 0 "rev s"] by (simp_all add: fit_suffix_def)
    with 2 show ?thesis by (simp add: truncate_with_byte_estimate_def shortened_def)
  next
    case 4
    have "?n div 2 + (?n - ?n div 2) \<le> byte_len s" using 4 by simp
    from split_string_spec [OF assms this] obtain mid where
      mid: "s = fit_prefix (?n div 2) s @ mid @ fit_suffix (?n - ?n div 2) s"
        "split_string s (?n div 2) (?n - ?n div 2) =
           Some (length mid, fit_prefix (?n div 2) s, fit_suffix (?n - ?n div 2) s)" by blast
    have "length s = length (fit_prefix (?n div 2) s @ mid @ fit_suffix (?n - ?n div 2) s)"
      using mid(1) by simp
    then have "length mid = length s - length (fit_prefix (?n div 2) s) - length (fit_suffix (?n - ?n div 2) s)"
      by simp
    with 4 mid(2) show ?thesis
      by (auto simp: truncate_with_byte_estimate_def shortened_def split_budget_def Let_def assemble_truncated_output_def)
  qed (simp_all add: truncate_with_byte_estimate_def shortened_def)
qed

lemma truncate_text_shortened:
  assumes "byte_len s \<le> usize_max"
  shows "truncate_text s p = Some (shortened p s)"
proof (cases p)
  case (Tokens n)
  then show ?thesis
    using byte_estimate_spec [OF assms, of p]
    by (auto simp: truncate_with_token_budget_def Let_def shortened_def)
qed (simp add: byte_estimate_spec [OF assms])

lemma fit_prefix_tight:
  assumes "s = fit_prefix n s @ r" "r \<noteq> []"
  shows "n \<le> byte_len (fit_prefix n s) + 3"
proof -
  have "drop (length (fit_prefix n s)) s = r"
    using assms(1) by (metis append_eq_conv_conj)
  then obtain c t where "drop (length (fit_prefix n s)) s = c # t"
    using assms(2) by (cases r) auto
  from fit_prefix_full [OF this] len_utf8_range [of c] show ?thesis by simp
qed

lemma shortened_pieces:
  assumes "byte_len s \<le> usize_max" "byte_budget p < byte_len s"
  shows "\<exists>left mid right. s = left @ mid @ right \<and> byte_len left + byte_len right \<le> byte_budget p \<and>
    byte_budget p \<le> byte_len left + byte_len right + 6 \<and>
    shortened p s = left @ format_truncation_marker p
      (removed_units_for_source p (byte_len s - byte_budget p) (length mid)) @ right"
proof -
  let ?n = "byte_budget p"
  let ?l = "fit_prefix (?n div 2) s" and ?r = "fit_suffix (?n - ?n div 2) s"
  have "?n div 2 + (?n - ?n div 2) \<le> byte_len s" using assms(2) by simp
  from split_string_spec [OF assms(1) this] obtain mid where mid: "s = ?l @ mid @ ?r" by blast
  have bl: "byte_len s = byte_len ?l + byte_len mid + byte_len ?r"
    by (subst mid) simp
  have le: "byte_len ?l \<le> ?n div 2" "byte_len ?r \<le> ?n - ?n div 2"
    using fit_prefix_le [of _ s] fit_prefix_le [of _ "rev s"] by (auto simp: fit_suffix_def)
  then have "mid \<noteq> []" using bl assms(2) by auto
  have "?n div 2 \<le> byte_len ?l + 3"
    using fit_prefix_tight [OF mid] \<open>mid \<noteq> []\<close> by simp
  moreover have "?n - ?n div 2 \<le> byte_len ?r + 3"
  proof -
    have "rev s = fit_prefix (?n - ?n div 2) (rev s) @ rev (?l @ mid)"
      by (metis append_assoc fit_suffix_def mid rev_append rev_rev_ident)
    with \<open>mid \<noteq> []\<close> show ?thesis
      using fit_prefix_tight [of "rev s" "?n - ?n div 2" "rev (?l @ mid)"] by (simp add: fit_suffix_def)
  qed
  moreover have "shortened p s = ?l @ format_truncation_marker p
      (removed_units_for_source p (byte_len s - ?n) (length mid)) @ ?r"
  proof -
    have "length s = length (?l @ mid @ ?r)" using mid by simp
    then have "length mid = length s - length ?l - length ?r" by simp
    with assms(2) show ?thesis by (simp add: shortened_def Let_def)
  qed
  moreover from calculation le have "byte_len ?l + byte_len ?r \<le> ?n" "?n \<le> byte_len ?l + byte_len ?r + 6"
    by linarith+
  ultimately show ?thesis using mid by blast
qed

text \<open>
  Shortening a text never panics on a character boundary.  A text within the budget is returned as
  it is; otherwise the result is a beginning and an end of the text around a marker, where the two
  pieces together have at most as many bytes as the budget and fall short of it by at most six (less than
  one character on each side), nothing else is dropped than the middle, and under a byte budget the marker
  gives the exact number of dropped characters.
\<close>

lemma truncate_text_keeps_ends:
  assumes "byte_len s \<le> usize_max"
  shows "\<exists>out. truncate_text s p = Some out \<and>
    (if byte_len s \<le> byte_budget p then out = s
     else \<exists>left mid right. s = left @ mid @ right \<and>
       byte_len left + byte_len right \<le> byte_budget p \<and> byte_budget p \<le> byte_len left + byte_len right + 6 \<and>
       out = left @ format_truncation_marker p
         (removed_units_for_source p (byte_len s - byte_budget p) (length mid)) @ right)"
proof (cases "byte_len s \<le> byte_budget p")
  case True
  then show ?thesis using truncate_text_shortened [OF assms] by (simp add: shortened_def)
next
  case False
  then show ?thesis
    using truncate_text_shortened [OF assms, of p] shortened_pieces [OF assms, of p] by simp
qed

section \<open>Items\<close>

fun item_text :: "function_call_output_content_item \<Rightarrow> rstring option" where
  "item_text (OutText t) = Some t"
| "item_text (OutImage _) = None"

fun item_image :: "function_call_output_content_item \<Rightarrow> rstring option" where
  "item_image (OutImage u) = Some u"
| "item_image (OutText _) = None"

definition texts :: "function_call_output_content_item list \<Rightarrow> rstring list" where
  "texts items = filter_map item_text items"

definition images :: "function_call_output_content_item list \<Rightarrow> rstring list" where
  "images items = filter_map item_image items"

definition spent :: "truncation_policy \<Rightarrow> rstring list \<Rightarrow> nat" where
  "spent p ts = sum_list (map (item_cost p) ts)"

text \<open>
  The texts of a shortened list: a number \<open>k\<close> of leading texts unchanged, at most one more cut down to
  what is left of the budget, the others omitted.
\<close>

definition texts_within ::
  "truncation_policy \<Rightarrow> nat \<Rightarrow> rstring list \<Rightarrow> rstring list \<Rightarrow> nat \<Rightarrow> bool" where
  "texts_within p budget ts kept omitted \<longleftrightarrow>
     (\<exists>k \<le> length ts.
        kept = take k ts \<and> omitted = length ts - k \<and> spent p (take k ts) \<le> budget \<and>
          (k < length ts \<longrightarrow> spent p (take k ts) = budget) \<or>
        k < length ts \<and>
          kept = take k ts @ [shortened (with_budget p (budget - spent p (take k ts))) (ts ! k)] \<and>
          omitted = length ts - k - 1 \<and>
          spent p (take k ts) < budget \<and> budget < spent p (take (Suc k) ts))"

lemma item_cost_over:
  assumes "byte_len t \<le> usize_max" "n < item_cost p t"
  shows "byte_budget (with_budget p n) < byte_len t"
proof (cases p)
  case (Tokens m)
  have "4 * n + 4 \<le> byte_len t + 3"
    using assms(2) Tokens by (simp add: approx_token_count_def sat_add_def APPROX_BYTES_PER_TOKEN_def)
  moreover have "sat_mul n 4 \<le> 4 * n" by (simp add: sat_mul_def)
  ultimately show ?thesis using Tokens by (simp add: approx_bytes_for_tokens_def APPROX_BYTES_PER_TOKEN_def)
qed (use assms in simp)

lemma marker_nonempty: "format_truncation_marker p n \<noteq> []"
  by (cases p) simp_all

lemma items_loop_drained:
  "items_loop p 0 om items = Some (filter (\<lambda>it. item_text it = None) items, om + length (texts items))"
proof (induction items arbitrary: om)
  case (Cons it items)
  then show ?case by (cases it) (simp_all add: texts_def)
qed (simp add: texts_def)

lemma texts_of_images: "texts (filter (\<lambda>it. item_text it = None) items) = []"
  by (simp add: texts_def filter_map_eq_Nil)

lemma images_of_images: "images (filter (\<lambda>it. item_text it = None) items) = images items"
proof (induction items)
  case (Cons it items)
  then show ?case by (cases it) (simp_all add: images_def)
qed simp

lemma texts_within_keep:
  assumes "texts_within p (budget - item_cost p t) ts kept om" "item_cost p t \<le> budget"
  shows "texts_within p budget (t # ts) (t # kept) om"
proof -
  from assms(1) obtain k where "k \<le> length ts" and k:
      "kept = take k ts \<and> om = length ts - k \<and> spent p (take k ts) \<le> budget - item_cost p t \<and>
          (k < length ts \<longrightarrow> spent p (take k ts) = budget - item_cost p t) \<or>
        k < length ts \<and>
          kept = take k ts @ [shortened (with_budget p (budget - item_cost p t - spent p (take k ts))) (ts ! k)] \<and>
          om = length ts - k - 1 \<and>
          spent p (take k ts) < budget - item_cost p t \<and> budget - item_cost p t < spent p (take (Suc k) ts)"
    unfolding texts_within_def by blast
  with assms(2) show ?thesis
    unfolding texts_within_def by (intro exI [of _ "Suc k"]) (auto simp: spent_def)
qed

lemma texts_within_none: "texts_within p 0 ts [] (length ts)"
  unfolding texts_within_def by (intro exI [of _ 0]) (simp add: spent_def)

lemma items_loop_spec:
  assumes "\<forall>t \<in> set (texts items). byte_len t \<le> usize_max"
  shows "\<exists>out om'. items_loop p budget om items = Some (out, om + om') \<and> images out = images items \<and>
    texts_within p budget (texts items) (texts out) om'"
  using assms
proof (induction items arbitrary: budget)
  case Nil
  then show ?case by (simp add: texts_within_def texts_def spent_def)
next
  case (Cons it items)
  show ?case
  proof (cases it)
    case (OutImage u)
    with Cons show ?thesis by (fastforce simp: texts_def images_def)
  next
    case (OutText t)
    have ts: "texts (it # items) = t # texts items" by (simp add: texts_def OutText)
    have im: "images (OutText x # items') = images items'" for x items' by (simp add: images_def)
    consider "budget = 0" | "0 < budget" "item_cost p t \<le> budget" | "0 < budget" "budget < item_cost p t" by linarith
    then show ?thesis
    proof cases
      case 1
      then show ?thesis
        unfolding 1 items_loop_drained
        by (intro exI [of _ "filter (\<lambda>it. item_text it = None) (it # items)"] exI [of _ "length (texts (it # items))"])
          (simp add: images_of_images texts_of_images texts_within_none del: filter.simps)
    next
      case 2
      obtain out om' where o: "items_loop p (budget - item_cost p t) om items = Some (out, om + om')"
          "images out = images items" "texts_within p (budget - item_cost p t) (texts items) (texts out) om'"
        using Cons.IH [of "budget - item_cost p t"] Cons.prems ts by auto
      with 2 OutText texts_within_keep [OF o(3) 2(2)] show ?thesis
        by (intro exI [of _ "OutText t # out"] exI [of _ om']) (simp add: im Let_def, simp add: texts_def)
    next
      case 3
      have bl: "byte_len t \<le> usize_max" using Cons.prems ts by simp
      let ?p = "with_budget p budget"
      have "shortened ?p t \<noteq> []"
        using item_cost_over [OF bl 3(2)] by (simp add: shortened_def Let_def marker_nonempty)
      with 3 OutText truncate_text_shortened [OF bl, of ?p]
      have "items_loop p budget om (it # items) =
          Some (OutText (shortened ?p t) # filter (\<lambda>it. item_text it = None) items, om + length (texts items))"
        by (simp add: items_loop_drained)
      moreover have "texts_within p budget (t # texts items) [shortened ?p t] (length (texts items))"
        unfolding texts_within_def using 3 by (intro exI [of _ 0]) (simp add: spent_def)
      moreover have "texts (OutText (shortened ?p t) # filter (\<lambda>it. item_text it = None) items) = [shortened ?p t]"
        using texts_of_images [of items] by (simp add: texts_def)
      ultimately show ?thesis using ts OutText by (auto simp: im images_of_images)
    qed
  qed
qed

text \<open>
  Shortening the items of a function output keeps every image in order.  Of the texts, a leading part
  whose cost is within the budget is unchanged, at most one is cut to the remaining budget, and all others
  are dropped and counted in a final notice, which appears only if something was dropped.
\<close>

lemma truncate_items_within_budget:
  assumes "\<forall>t \<in> set (texts items). byte_len t \<le> usize_max"
  shows "\<exists>out omitted. texts_within p (initial_budget p) (texts items) (texts out) omitted \<and>
    images out = images items \<and>
    truncate_function_output_items_with_policy items p =
      Some (out @ (if omitted = 0 then []
                   else [OutText (lit ''[omitted '' @ show_nat omitted @ lit '' text items ...]'')]))"
proof -
  obtain out om where "items_loop p (initial_budget p) 0 items = Some (out, om)" "images out = images items"
      "texts_within p (initial_budget p) (texts items) (texts out) om"
    using items_loop_spec [OF assms, of p "initial_budget p" 0] by auto
  then show ?thesis
    by (intro exI [of _ out] exI [of _ om]) (simp add: truncate_function_output_items_with_policy_def del: lit_Cons)
qed

end
