(* ===== verification/Context_History.thy ===== *)
theory Context_History
  imports Truncate
begin

text \<open>
  The transcript of a session, \<^verbatim>\<open>crates/core/src/context_manager/history.rs\<close> and \<^verbatim>\<open>normalize.rs\<close>, with the
  items of \<^verbatim>\<open>crates/protocol/src/models.rs\<close> and the token counts of \<^verbatim>\<open>protocol.rs\<close>.

  The JSON serialisation of an item is a parameter.  \<open>dbg\<close> says whether debug assertions are compiled in:
  then \<^verbatim>\<open>error_or_panic\<close> panics, which is the value \<open>None\<close>; otherwise it logs.  Token counts are
  \<^verbatim>\<open>i64\<close>; their plain additions wrap.
\<close>

section \<open>Items\<close>

datatype content_item = InputText rstring | InputImage rstring | OutputText rstring

datatype message_phase = Commentary | FinalAnswer

datatype reasoning_summary = SummaryText rstring

datatype reasoning_content = ReasoningText rstring | PlainText rstring

datatype local_shell_status = Completed | InProgress | Incomplete

record local_shell_exec_action =
  ls_command :: "rstring list"
  ls_timeout_ms :: "nat option"
  ls_working_directory :: "rstring option"
  ls_env :: "(rstring \<rightharpoonup> rstring) option"
  ls_user :: "rstring option"

datatype web_search_action =
    Search "rstring option" "rstring list option"
  | OpenPage "rstring option"
  | FindInPage "rstring option" "rstring option"
  | OtherSearch

record ghost_commit =
  gc_id :: rstring
  gc_parent :: "rstring option"
  gc_untracked_files :: "rstring list"
  gc_untracked_dirs :: "rstring list"

record function_call_output_payload =
  fo_content :: rstring
  fo_content_items :: "function_call_output_content_item list option"
  fo_success :: "bool option"

datatype response_item =
    Message "rstring option" rstring "content_item list" "bool option" "message_phase option"
  | Reasoning rstring "reasoning_summary list" "reasoning_content list option" "rstring option"
  | LocalShellCall "rstring option" "rstring option" local_shell_status local_shell_exec_action
  | FunctionCall "rstring option" rstring rstring rstring
  | FunctionCallOutput rstring function_call_output_payload
  | CustomToolCall "rstring option" "rstring option" rstring rstring rstring
  | CustomToolCallOutput rstring rstring
  | WebSearchCall "rstring option" "rstring option" "web_search_action option"
  | GhostSnapshot ghost_commit
  | Compaction rstring
  | OtherItem

section \<open>Token counts\<close>

definition wrap_i64 :: "int \<Rightarrow> int" where
  "wrap_i64 x = (x + 2 ^ 63) mod 2 ^ 64 - 2 ^ 63"

record token_usage =
  input_tokens :: int
  cached_input_tokens :: int
  output_tokens :: int
  reasoning_output_tokens :: int
  total_tokens :: int

definition token_usage_default :: token_usage where
  "token_usage_default =
     \<lparr>input_tokens = 0, cached_input_tokens = 0, output_tokens = 0, reasoning_output_tokens = 0, total_tokens = 0\<rparr>"

record token_usage_info =
  total_token_usage :: token_usage
  last_token_usage :: token_usage
  model_context_window :: "int option"

definition add_assign :: "token_usage \<Rightarrow> token_usage \<Rightarrow> token_usage" where
  "add_assign a b =
     \<lparr>input_tokens = wrap_i64 (input_tokens a + input_tokens b),
      cached_input_tokens = wrap_i64 (cached_input_tokens a + cached_input_tokens b),
      output_tokens = wrap_i64 (output_tokens a + output_tokens b),
      reasoning_output_tokens = wrap_i64 (reasoning_output_tokens a + reasoning_output_tokens b),
      total_tokens = wrap_i64 (total_tokens a + total_tokens b)\<rparr>"

definition append_last_usage :: "token_usage_info \<Rightarrow> token_usage \<Rightarrow> token_usage_info" where
  "append_last_usage info usage =
     info\<lparr>total_token_usage := add_assign (total_token_usage info) usage, last_token_usage := usage\<rparr>"

definition new_or_append ::
  "token_usage_info option \<Rightarrow> token_usage option \<Rightarrow> int option \<Rightarrow> token_usage_info option" where
  "new_or_append info usage window =
     (if info = None \<and> usage = None then None
      else
        (let info =
           (case info of
              Some i \<Rightarrow> i
            | None \<Rightarrow> \<lparr>total_token_usage = token_usage_default, last_token_usage = token_usage_default,
                       model_context_window = window\<rparr>)
         in Some (case usage of Some l \<Rightarrow> append_last_usage info l | None \<Rightarrow> info)))"

definition fill_to_context_window :: "token_usage_info \<Rightarrow> int \<Rightarrow> token_usage_info" where
  "fill_to_context_window info context_window =
     (let previous_total = total_tokens (total_token_usage info);
          delta = max (wrap_i64 (context_window - previous_total)) 0
      in info\<lparr>model_context_window := Some context_window,
              total_token_usage := token_usage_default\<lparr>total_tokens := context_window\<rparr>,
              last_token_usage := token_usage_default\<lparr>total_tokens := delta\<rparr>\<rparr>)"

definition full_context_window :: "int \<Rightarrow> token_usage_info" where
  "full_context_window context_window =
     fill_to_context_window
       \<lparr>total_token_usage = token_usage_default, last_token_usage = token_usage_default,
        model_context_window = Some context_window\<rparr> context_window"

section \<open>Classifying items\<close>

fun is_api_message :: "response_item \<Rightarrow> bool" where
  "is_api_message (Message _ role _ _ _) = (role \<noteq> lit ''system'')"
| "is_api_message (GhostSnapshot _) = False"
| "is_api_message OtherItem = False"
| "is_api_message _ = True"

fun is_ghost_snapshot :: "response_item \<Rightarrow> bool" where
  "is_ghost_snapshot (GhostSnapshot _) = True"
| "is_ghost_snapshot _ = False"

definition estimate_reasoning_length :: "nat \<Rightarrow> nat" where
  "estimate_reasoning_length encoded_len = sat_mul encoded_len 3 div 4 - 650"

fun estimate_item_token_count :: "(response_item \<Rightarrow> rstring) \<Rightarrow> response_item \<Rightarrow> int" where
  "estimate_item_token_count ser (GhostSnapshot _) = 0"
| "estimate_item_token_count ser (Reasoning _ _ _ (Some content)) =
     i64_of_nat (approx_tokens_from_byte_count (estimate_reasoning_length (byte_len content)))"
| "estimate_item_token_count ser (Compaction content) =
     i64_of_nat (approx_tokens_from_byte_count (estimate_reasoning_length (byte_len content)))"
| "estimate_item_token_count ser item = i64_of_nat (approx_token_count (ser item))"

fun message_with_role :: "rstring \<Rightarrow> response_item \<Rightarrow> bool" where
  "message_with_role r (Message _ role _ _ _) = (role = r)"
| "message_with_role r _ = False"

fun is_tool_output :: "response_item \<Rightarrow> bool" where
  "is_tool_output (FunctionCallOutput _ _) = True"
| "is_tool_output (CustomToolCallOutput _ _) = True"
| "is_tool_output _ = False"

definition is_savfox_generated_item :: "response_item \<Rightarrow> bool" where
  "is_savfox_generated_item item \<longleftrightarrow> is_tool_output item \<or> message_with_role (lit ''developer'') item"

definition is_session_prefix :: "rstring \<Rightarrow> bool" where
  "is_session_prefix text =
     (let lowered = to_ascii_lowercase (trim_start text) in
      starts_with (lit ''<environment_context>'') lowered \<or> starts_with (lit ''<turn_aborted>'') lowered \<or>
      starts_with (lit ''<user_instructions>'') lowered)"

definition is_user_shell_command_text :: "rstring \<Rightarrow> bool" where
  "is_user_shell_command_text text =
     starts_with (lit ''<user_shell_command>'') (to_ascii_lowercase (trim_start text))"

fun is_user_instructions :: "content_item list \<Rightarrow> bool" where
  "is_user_instructions [InputText text] = starts_with (lit ''# AGENTS.md instructions for '') text"
| "is_user_instructions _ = False"

fun is_skill_instructions :: "content_item list \<Rightarrow> bool" where
  "is_skill_instructions [InputText text] = starts_with (lit ''<skill'') text"
| "is_skill_instructions _ = False"

fun content_is_user_intent :: "content_item list \<Rightarrow> bool" where
  "content_is_user_intent [] = True"
| "content_is_user_intent (InputText text # cs) =
     (if is_session_prefix text \<or> is_user_shell_command_text text then False else content_is_user_intent cs)"
| "content_is_user_intent (OutputText text # cs) =
     (if is_session_prefix text then False else content_is_user_intent cs)"
| "content_is_user_intent (InputImage _ # cs) = content_is_user_intent cs"

fun is_user_turn_boundary :: "response_item \<Rightarrow> bool" where
  "is_user_turn_boundary (Message _ role content _ _) =
     (if role \<noteq> lit ''user'' then False
      else if is_user_instructions content \<or> is_skill_instructions content then False
      else content_is_user_intent content)"
| "is_user_turn_boundary _ = False"

fun positions_from :: "nat \<Rightarrow> response_item list \<Rightarrow> nat list" where
  "positions_from idx [] = []"
| "positions_from idx (item # items) =
     (if is_user_turn_boundary item then idx # positions_from (idx + 1) items else positions_from (idx + 1) items)"

definition user_message_positions :: "response_item list \<Rightarrow> nat list" where
  "user_message_positions items = positions_from 0 items"

section \<open>Calls and outputs\<close>

definition aborted_payload :: function_call_output_payload where
  "aborted_payload = \<lparr>fo_content = lit ''aborted'', fo_content_items = None, fo_success = None\<rparr>"

definition error_or_panic :: "bool \<Rightarrow> 'a \<Rightarrow> 'a option" where
  "error_or_panic dbg x = (if dbg then None else Some x)"

fun is_function_output_of :: "rstring \<Rightarrow> response_item \<Rightarrow> bool" where
  "is_function_output_of call_id (FunctionCallOutput existing _) = (existing = call_id)"
| "is_function_output_of call_id _ = False"

fun is_custom_output_of :: "rstring \<Rightarrow> response_item \<Rightarrow> bool" where
  "is_custom_output_of call_id (CustomToolCallOutput existing _) = (existing = call_id)"
| "is_custom_output_of call_id _ = False"

text \<open>The output that is missing for an item, if any; the outer option is the panic.\<close>

fun missing_output :: "bool \<Rightarrow> response_item list \<Rightarrow> response_item \<Rightarrow> response_item option option" where
  "missing_output dbg items (FunctionCall _ _ _ call_id) =
     (if list_ex (is_function_output_of call_id) items then Some None
      else Some (Some (FunctionCallOutput call_id aborted_payload)))"
| "missing_output dbg items (CustomToolCall _ _ call_id _ _) =
     (if list_ex (is_custom_output_of call_id) items then Some None
      else error_or_panic dbg (Some (CustomToolCallOutput call_id (lit ''aborted''))))"
| "missing_output dbg items (LocalShellCall _ (Some call_id) _ _) =
     (if list_ex (is_function_output_of call_id) items then Some None
      else error_or_panic dbg (Some (FunctionCallOutput call_id aborted_payload)))"
| "missing_output dbg items _ = Some None"

fun collect_missing ::
  "bool \<Rightarrow> response_item list \<Rightarrow> nat \<Rightarrow> response_item list \<Rightarrow> (nat \<times> response_item) list option" where
  "collect_missing dbg all idx [] = Some []"
| "collect_missing dbg all idx (item # items) =
     (case missing_output dbg all item of
        None \<Rightarrow> None
      | Some m \<Rightarrow>
          (case collect_missing dbg all (idx + 1) items of
             None \<Rightarrow> None
           | Some ms \<Rightarrow> Some (case m of Some output \<Rightarrow> (idx, output) # ms | None \<Rightarrow> ms)))"

fun insert_all :: "(nat \<times> response_item) list \<Rightarrow> response_item list \<Rightarrow> response_item list option" where
  "insert_all [] items = Some items"
| "insert_all ((idx, output) # rest) items =
     (case vec_insert (idx + 1) output items of None \<Rightarrow> None | Some items' \<Rightarrow> insert_all rest items')"

definition ensure_call_outputs_present :: "bool \<Rightarrow> response_item list \<Rightarrow> response_item list option" where
  "ensure_call_outputs_present dbg items =
     (case collect_missing dbg items 0 items of None \<Rightarrow> None | Some ms \<Rightarrow> insert_all (rev ms) items)"

fun function_call_id :: "response_item \<Rightarrow> rstring option" where
  "function_call_id (FunctionCall _ _ _ call_id) = Some call_id"
| "function_call_id _ = None"

fun local_shell_call_id :: "response_item \<Rightarrow> rstring option" where
  "local_shell_call_id (LocalShellCall _ call_id _ _) = call_id"
| "local_shell_call_id _ = None"

fun custom_tool_call_id :: "response_item \<Rightarrow> rstring option" where
  "custom_tool_call_id (CustomToolCall _ _ call_id _ _) = Some call_id"
| "custom_tool_call_id _ = None"

fun output_has_call :: "rstring set \<Rightarrow> rstring set \<Rightarrow> rstring set \<Rightarrow> response_item \<Rightarrow> bool" where
  "output_has_call fns shells customs (FunctionCallOutput call_id _) = (call_id \<in> fns \<or> call_id \<in> shells)"
| "output_has_call fns shells customs (CustomToolCallOutput call_id _) = (call_id \<in> customs)"
| "output_has_call fns shells customs _ = True"

definition remove_orphan_outputs :: "bool \<Rightarrow> response_item list \<Rightarrow> response_item list option" where
  "remove_orphan_outputs dbg items =
     (let has_match = output_has_call (set (filter_map function_call_id items))
            (set (filter_map local_shell_call_id items)) (set (filter_map custom_tool_call_id items))
      in if list_all has_match items then Some items else error_or_panic dbg (filter has_match items))"

definition remove_first_matching :: "(response_item \<Rightarrow> bool) \<Rightarrow> response_item list \<Rightarrow> response_item list" where
  "remove_first_matching p items =
     (case position p items of
        Some pos \<Rightarrow> take pos items @ drop (Suc pos) items
      | None \<Rightarrow> items)"

fun remove_corresponding_for :: "response_item list \<Rightarrow> response_item \<Rightarrow> response_item list" where
  "remove_corresponding_for items (FunctionCall _ _ _ call_id) =
     remove_first_matching (is_function_output_of call_id) items"
| "remove_corresponding_for items (FunctionCallOutput call_id _) =
     (case position (\<lambda>i. function_call_id i = Some call_id) items of
        Some pos \<Rightarrow> take pos items @ drop (Suc pos) items
      | None \<Rightarrow> remove_first_matching (\<lambda>i. local_shell_call_id i = Some call_id) items)"
| "remove_corresponding_for items (CustomToolCall _ _ call_id _ _) =
     remove_first_matching (is_custom_output_of call_id) items"
| "remove_corresponding_for items (CustomToolCallOutput call_id _) =
     remove_first_matching (\<lambda>i. custom_tool_call_id i = Some call_id) items"
| "remove_corresponding_for items (LocalShellCall _ (Some call_id) _ _) =
     remove_first_matching (is_function_output_of call_id) items"
| "remove_corresponding_for items _ = items"

section \<open>The context manager\<close>

record context_manager =
  cm_items :: "response_item list"
  cm_token_info :: "token_usage_info option"

definition context_manager_new :: context_manager where
  "context_manager_new = \<lparr>cm_items = [], cm_token_info = new_or_append None None None\<rparr>"

definition set_token_info :: "context_manager \<Rightarrow> token_usage_info option \<Rightarrow> context_manager" where
  "set_token_info cm info = cm\<lparr>cm_token_info := info\<rparr>"

definition set_token_usage_full :: "context_manager \<Rightarrow> int \<Rightarrow> context_manager" where
  "set_token_usage_full cm context_window =
     (case cm_token_info cm of
        Some info \<Rightarrow> cm\<lparr>cm_token_info := Some (fill_to_context_window info context_window)\<rparr>
      | None \<Rightarrow> cm\<lparr>cm_token_info := Some (full_context_window context_window)\<rparr>)"

fun process_item :: "truncation_policy \<Rightarrow> response_item \<Rightarrow> response_item option" where
  "process_item policy (FunctionCallOutput call_id output) =
     (let p = policy_mul policy ONE_POINT_TWO in
      case truncate_text (fo_content output) p of
        None \<Rightarrow> None
      | Some truncated \<Rightarrow>
          (case fo_content_items output of
             None \<Rightarrow> Some (FunctionCallOutput call_id (output\<lparr>fo_content := truncated\<rparr>))
           | Some items \<Rightarrow>
               (case truncate_function_output_items_with_policy items p of
                  None \<Rightarrow> None
                | Some items' \<Rightarrow>
                    Some (FunctionCallOutput call_id
                      (output\<lparr>fo_content := truncated, fo_content_items := Some items'\<rparr>)))))"
| "process_item policy (CustomToolCallOutput call_id output) =
     map_option (CustomToolCallOutput call_id) (truncate_text output (policy_mul policy ONE_POINT_TWO))"
| "process_item policy item = Some item"

fun record_items :: "context_manager \<Rightarrow> response_item list \<Rightarrow> truncation_policy \<Rightarrow> context_manager option" where
  "record_items cm [] policy = Some cm"
| "record_items cm (item # items) policy =
     (if \<not> is_api_message item \<and> \<not> is_ghost_snapshot item then record_items cm items policy
      else
        (case process_item policy item of
           None \<Rightarrow> None
         | Some processed \<Rightarrow> record_items (cm\<lparr>cm_items := cm_items cm @ [processed]\<rparr>) items policy))"

definition normalize_history :: "bool \<Rightarrow> context_manager \<Rightarrow> context_manager option" where
  "normalize_history dbg cm =
     (case ensure_call_outputs_present dbg (cm_items cm) of
        None \<Rightarrow> None
      | Some items \<Rightarrow>
          map_option (\<lambda>items'. cm\<lparr>cm_items := items'\<rparr>) (remove_orphan_outputs dbg items))"

definition for_prompt :: "bool \<Rightarrow> context_manager \<Rightarrow> response_item list option" where
  "for_prompt dbg cm =
     map_option (\<lambda>cm'. filter (\<lambda>item. \<not> is_ghost_snapshot item) (cm_items cm')) (normalize_history dbg cm)"

definition raw_items :: "context_manager \<Rightarrow> response_item list" where
  "raw_items cm = cm_items cm"

definition sum_tokens :: "(response_item \<Rightarrow> rstring) \<Rightarrow> response_item list \<Rightarrow> int" where
  "sum_tokens ser items = foldl (\<lambda>acc item. sat_add_i64 acc (estimate_item_token_count ser item)) 0 items"

text \<open>The base instructions of the model are an argument.\<close>

definition estimate_token_count :: "(response_item \<Rightarrow> rstring) \<Rightarrow> rstring \<Rightarrow> context_manager \<Rightarrow> int option" where
  "estimate_token_count ser base_instructions cm =
     (let base_tokens = i64_of_nat (approx_token_count base_instructions);
          items_tokens = sum_tokens ser (cm_items cm)
      in Some (sat_add_i64 base_tokens items_tokens))"

definition remove_first_item :: "context_manager \<Rightarrow> context_manager" where
  "remove_first_item cm =
     (case cm_items cm of
        [] \<Rightarrow> cm
      | removed # items \<Rightarrow> cm\<lparr>cm_items := remove_corresponding_for items removed\<rparr>)"

definition remove_last_item :: "context_manager \<Rightarrow> context_manager \<times> bool" where
  "remove_last_item cm =
     (if cm_items cm = [] then (cm, False)
      else (cm\<lparr>cm_items := remove_corresponding_for (butlast (cm_items cm)) (last (cm_items cm))\<rparr>, True))"

definition replace :: "context_manager \<Rightarrow> response_item list \<Rightarrow> context_manager" where
  "replace cm items = cm\<lparr>cm_items := items\<rparr>"

fun replace_image :: "rstring \<Rightarrow> function_call_output_content_item \<Rightarrow> function_call_output_content_item" where
  "replace_image placeholder (OutImage _) = OutText placeholder"
| "replace_image placeholder item = item"

fun is_function_output :: "response_item \<Rightarrow> bool" where
  "is_function_output (FunctionCallOutput _ _) = True"
| "is_function_output _ = False"

definition replace_last_turn_images :: "context_manager \<Rightarrow> rstring \<Rightarrow> context_manager \<times> bool" where
  "replace_last_turn_images cm placeholder =
     (case rposition (\<lambda>item. is_function_output item \<or> message_with_role (lit ''user'') item) (cm_items cm) of
        None \<Rightarrow> (cm, False)
      | Some index \<Rightarrow>
          (case cm_items cm ! index of
             FunctionCallOutput call_id output \<Rightarrow>
               (case fo_content_items output of
                  None \<Rightarrow> (cm, False)
                | Some content_items \<Rightarrow>
                    (cm\<lparr>cm_items := (cm_items cm)[index := FunctionCallOutput call_id
                       (output\<lparr>fo_content_items := Some (map (replace_image placeholder) content_items)\<rparr>)]\<rparr>,
                     list_ex (\<lambda>item. item_image item \<noteq> None) content_items))
           | _ \<Rightarrow> (cm, False)))"

definition drop_last_n_user_turns :: "context_manager \<Rightarrow> nat \<Rightarrow> context_manager" where
  "drop_last_n_user_turns cm num_turns =
     (if num_turns = 0 then cm
      else
        (let snapshot = cm_items cm;
             user_positions = user_message_positions snapshot
         in
         case user_positions of
           [] \<Rightarrow> replace cm snapshot
         | first_user_idx # _ \<Rightarrow>
             (let n_from_end = num_turns;
                  cut_idx =
                    (if n_from_end \<ge> length user_positions then first_user_idx
                     else user_positions ! (length user_positions - n_from_end))
              in replace cm (take cut_idx snapshot))))"

definition update_token_info :: "context_manager \<Rightarrow> token_usage \<Rightarrow> int option \<Rightarrow> context_manager" where
  "update_token_info cm usage window = cm\<lparr>cm_token_info := new_or_append (cm_token_info cm) (Some usage) window\<rparr>"

fun is_encrypted_reasoning :: "response_item \<Rightarrow> bool" where
  "is_encrypted_reasoning (Reasoning _ _ _ (Some _)) = True"
| "is_encrypted_reasoning _ = False"

definition get_non_last_reasoning_items_tokens :: "(response_item \<Rightarrow> rstring) \<Rightarrow> context_manager \<Rightarrow> int" where
  "get_non_last_reasoning_items_tokens ser cm =
     (case rposition (message_with_role (lit ''user'')) (cm_items cm) of
        None \<Rightarrow> 0
      | Some last_user_index \<Rightarrow> sum_tokens ser (filter is_encrypted_reasoning (take last_user_index (cm_items cm))))"

definition get_trailing_savfox_generated_items_tokens ::
  "(response_item \<Rightarrow> rstring) \<Rightarrow> context_manager \<Rightarrow> int" where
  "get_trailing_savfox_generated_items_tokens ser cm =
     sum_tokens ser (takeWhile is_savfox_generated_item (rev (cm_items cm)))"

definition get_total_token_usage :: "(response_item \<Rightarrow> rstring) \<Rightarrow> context_manager \<Rightarrow> bool \<Rightarrow> int" where
  "get_total_token_usage ser cm server_reasoning_included =
     (let last_tokens = (case cm_token_info cm of Some info \<Rightarrow> total_tokens (last_token_usage info) | None \<Rightarrow> 0);
          trailing = get_trailing_savfox_generated_items_tokens ser cm
      in if server_reasoning_included then sat_add_i64 last_tokens trailing
         else sat_add_i64 (sat_add_i64 last_tokens (get_non_last_reasoning_items_tokens ser cm)) trailing)"

end
