(* ===== verification/History_Invariants.thy ===== *)
theory History_Invariants
  imports Context_History
begin

text \<open>
  Properties of the transcript: normalisation pairs calls and outputs, dropping an item at either end keeps
  them paired, rolling turns back cuts at a user turn, and what is recorded is bounded.
\<close>

section \<open>Call identifiers\<close>

fun fn_call_id :: "response_item \<Rightarrow> rstring option" where
  "fn_call_id (FunctionCall _ _ _ call_id) = Some call_id"
| "fn_call_id (LocalShellCall _ call_id _ _) = call_id"
| "fn_call_id _ = None"

fun fn_output_id :: "response_item \<Rightarrow> rstring option" where
  "fn_output_id (FunctionCallOutput call_id _) = Some call_id"
| "fn_output_id _ = None"

fun custom_output_id :: "response_item \<Rightarrow> rstring option" where
  "custom_output_id (CustomToolCallOutput call_id _) = Some call_id"
| "custom_output_id _ = None"

text \<open>Every call has an output and every output a call, of the same kind.\<close>

definition paired :: "response_item list \<Rightarrow> bool" where
  "paired items \<longleftrightarrow>
     set (filter_map fn_call_id items) = set (filter_map fn_output_id items) \<and>
     set (filter_map custom_tool_call_id items) = set (filter_map custom_output_id items)"

lemma fn_call_id_iff:
  "fn_call_id i = Some c \<longleftrightarrow> function_call_id i = Some c \<or> local_shell_call_id i = Some c"
  by (cases i) auto

lemma is_function_output_of_iff: "is_function_output_of c i \<longleftrightarrow> fn_output_id i = Some c"
  by (cases i) auto

lemma is_custom_output_of_iff: "is_custom_output_of c i \<longleftrightarrow> custom_output_id i = Some c"
  by (cases i) auto

lemma is_tool_output_iff: "is_tool_output i \<longleftrightarrow> fn_output_id i \<noteq> None \<or> custom_output_id i \<noteq> None"
  by (cases i) auto

lemmas call_ids = set_filter_map fn_call_id_iff is_function_output_of_iff is_custom_output_of_iff

section \<open>Normalisation\<close>

definition synthetic :: "bool \<Rightarrow> response_item list \<Rightarrow> response_item \<Rightarrow> response_item list" where
  "synthetic dbg all item = (case missing_output dbg all item of Some (Some output) \<Rightarrow> [output] | _ \<Rightarrow> [])"

definition completed :: "bool \<Rightarrow> response_item list \<Rightarrow> response_item list \<Rightarrow> response_item list" where
  "completed dbg all items = concat (map (\<lambda>item. item # synthetic dbg all item) items)"

lemma insert_all_append:
  "insert_all (a @ b) items = (case insert_all a items of None \<Rightarrow> None | Some items' \<Rightarrow> insert_all b items')"
  by (induction a items rule: insert_all.induct) (auto split: option.splits)

lemma insert_collected:
  "collect_missing dbg all (length pre) items = Some ms \<Longrightarrow>
     insert_all (rev ms) (pre @ items) = Some (pre @ completed dbg all items)"
proof (induction items arbitrary: pre ms)
  case (Cons item items)
  then obtain m ms' where m: "missing_output dbg all item = Some m"
    and ms': "collect_missing dbg all (length (pre @ [item])) items = Some ms'"
    and ms: "ms = (case m of Some output \<Rightarrow> (length pre, output) # ms' | None \<Rightarrow> ms')"
    by (auto split: option.splits)
  from Cons.IH [OF ms'] m ms show ?case
    by (auto simp: insert_all_append completed_def synthetic_def vec_insert_def split: option.splits)
qed (simp add: completed_def)

lemma collect_missing_None:
  "collect_missing dbg all idx items = None \<longleftrightarrow> (\<exists>item \<in> set items. missing_output dbg all item = None)"
  by (induction dbg all idx items rule: collect_missing.induct) (auto split: option.splits)

lemma ensure_spec:
  "ensure_call_outputs_present dbg items =
     (if \<exists>item \<in> set items. missing_output dbg items item = None then None else Some (completed dbg items items))"
proof (cases "collect_missing dbg items 0 items")
  case None
  then have "\<exists>item \<in> set items. missing_output dbg items item = None"
    by (simp add: collect_missing_None)
  with None show ?thesis by (simp add: ensure_call_outputs_present_def)
next
  case (Some ms)
  then have "\<not> (\<exists>item \<in> set items. missing_output dbg items item = None)"
    by (metis collect_missing_None option.distinct(1))
  with Some insert_collected [of dbg items "[]" items ms] show ?thesis
    by (simp add: ensure_call_outputs_present_def)
qed

lemma missing_release: "missing_output False all item \<noteq> None"
  by (cases "(False, all, item)" rule: missing_output.cases) (auto simp: error_or_panic_def)

lemma missing_debug: "missing_output True all item = Some m \<Longrightarrow> missing_output False all item = Some m"
  by (cases "(True, all, item)" rule: missing_output.cases) (auto simp: error_or_panic_def)

lemma synthetic_output:
  assumes "output \<in> set (synthetic dbg all item)"
  shows "(\<exists>c. fn_call_id item = Some c \<and> output = FunctionCallOutput c aborted_payload \<and>
            c \<notin> set (filter_map fn_output_id all)) \<or>
    (\<exists>c. custom_tool_call_id item = Some c \<and> output = CustomToolCallOutput c (lit ''aborted'') \<and>
            c \<notin> set (filter_map custom_output_id all))"
  using assms
  by (cases "(dbg, all, item)" rule: missing_output.cases)
    (auto simp: synthetic_def call_ids list_ex_iff error_or_panic_def simp del: lit_Cons split: if_splits)

lemma synthetic_fn:
  "fn_call_id item = Some c \<Longrightarrow> c \<notin> set (filter_map fn_output_id all) \<Longrightarrow>
     FunctionCallOutput c aborted_payload \<in> set (synthetic False all item)"
  by (cases "(False, all, item)" rule: missing_output.cases)
    (auto simp: synthetic_def call_ids list_ex_iff error_or_panic_def)

lemma synthetic_custom:
  "custom_tool_call_id item = Some c \<Longrightarrow> c \<notin> set (filter_map custom_output_id all) \<Longrightarrow>
     CustomToolCallOutput c (lit ''aborted'') \<in> set (synthetic False all item)"
  by (cases "(False, all, item)" rule: missing_output.cases)
    (auto simp: synthetic_def call_ids list_ex_iff error_or_panic_def simp del: lit_Cons)

lemma set_completed: "set (completed dbg all items) = set items \<union> (\<Union>item \<in> set items. set (synthetic dbg all item))"
  by (auto simp: completed_def)

lemma synthetic_is_output:
  "output \<in> set (synthetic dbg all item) \<Longrightarrow>
     is_tool_output output \<and> \<not> is_ghost_snapshot output \<and> fn_call_id output = None \<and> custom_tool_call_id output = None"
  by (drule synthetic_output) auto

lemma filter_completed:
  assumes "\<And>output. is_tool_output output \<Longrightarrow> \<not> P output"
  shows "filter P (completed dbg all items) = filter P items"
proof (induction items)
  case (Cons item items)
  have "filter P (synthetic dbg all item) = []"
    using assms by (auto simp: filter_empty_conv dest: synthetic_is_output)
  with Cons show ?case by (simp add: completed_def)
qed (simp add: completed_def)

lemma calls_completed:
  "set (filter_map fn_call_id (completed dbg all items)) = set (filter_map fn_call_id items)"
  "set (filter_map custom_tool_call_id (completed dbg all items)) = set (filter_map custom_tool_call_id items)"
  by (auto simp: set_filter_map set_completed dest: synthetic_is_output)

text \<open>The outputs that have a call in \<open>items\<close>.\<close>

definition has_call :: "response_item list \<Rightarrow> response_item \<Rightarrow> bool" where
  "has_call items i \<longleftrightarrow>
     (\<forall>c. fn_output_id i = Some c \<longrightarrow> c \<in> set (filter_map fn_call_id items)) \<and>
     (\<forall>c. custom_output_id i = Some c \<longrightarrow> c \<in> set (filter_map custom_tool_call_id items))"

lemma output_has_call_eq:
  "output_has_call (set (filter_map function_call_id items)) (set (filter_map local_shell_call_id items))
     (set (filter_map custom_tool_call_id items)) = has_call items"
proof
  fix i
  show "output_has_call (set (filter_map function_call_id items)) (set (filter_map local_shell_call_id items))
      (set (filter_map custom_tool_call_id items)) i = has_call items i"
    by (cases i) (auto simp: has_call_def call_ids)
qed

lemma has_call_fn: "fn_output_id i = Some c \<Longrightarrow> has_call items i \<longleftrightarrow> c \<in> set (filter_map fn_call_id items)"
  by (cases i) (auto simp: has_call_def)

lemma has_call_custom:
  "custom_output_id i = Some c \<Longrightarrow> has_call items i \<longleftrightarrow> c \<in> set (filter_map custom_tool_call_id items)"
  by (cases i) (auto simp: has_call_def)

lemma remove_orphans_spec:
  "remove_orphan_outputs dbg items =
     (if \<forall>i \<in> set items. has_call items i then Some items
      else if dbg then None else Some (filter (has_call items) items))"
  by (simp add: remove_orphan_outputs_def output_has_call_eq list_all_iff error_or_panic_def Let_def)

definition normalized :: "response_item list \<Rightarrow> response_item list" where
  "normalized items = filter (has_call items) (completed False items items)"

lemma has_call_completed: "has_call (completed dbg items items) = has_call items"
  by (simp add: has_call_def fun_eq_iff calls_completed)

lemma for_prompt_release:
  "for_prompt False cm = Some (filter (\<lambda>i. \<not> is_ghost_snapshot i) (normalized (cm_items cm)))"
proof -
  have "remove_orphan_outputs False (completed False (cm_items cm) (cm_items cm)) = Some (normalized (cm_items cm))"
    by (auto simp: remove_orphans_spec has_call_completed normalized_def filter_id_conv)
  then show ?thesis
    by (simp add: for_prompt_def normalize_history_def ensure_spec missing_release)
qed

lemma for_prompt_debug:
  assumes "for_prompt True cm = Some out"
  shows "for_prompt False cm = Some out"
proof -
  let ?xs = "cm_items cm"
  from assms have ok: "\<forall>i \<in> set ?xs. missing_output True ?xs i \<noteq> None"
    and all: "\<forall>i \<in> set (completed True ?xs ?xs). has_call ?xs i"
    and out: "out = filter (\<lambda>i. \<not> is_ghost_snapshot i) (completed True ?xs ?xs)"
    by (auto simp: for_prompt_def normalize_history_def ensure_spec remove_orphans_spec has_call_completed
        split: if_splits)
  have "synthetic True ?xs i = synthetic False ?xs i" if "i \<in> set ?xs" for i
    using ok that missing_debug [of ?xs i] by (auto simp: synthetic_def)
  then have "completed True ?xs ?xs = completed False ?xs ?xs"
    by (simp add: completed_def cong: map_cong)
  with all out show ?thesis by (simp add: for_prompt_release normalized_def filter_id_conv)
qed

lemma mem_normalized:
  "i \<in> set (normalized items) \<longleftrightarrow>
     has_call items i \<and> (i \<in> set items \<or> (\<exists>item \<in> set items. i \<in> set (synthetic False items item)))"
  by (auto simp: normalized_def set_completed)

lemma outputs_normalized:
  "set (filter_map fn_output_id (normalized items)) = set (filter_map fn_call_id items)" (is "?fn = _")
  "set (filter_map custom_output_id (normalized items)) = set (filter_map custom_tool_call_id items)" (is "?cu = _")
proof -
  have "c \<in> ?fn" if c: "c \<in> set (filter_map fn_call_id items)" for c
  proof (cases "c \<in> set (filter_map fn_output_id items)")
    case True
    then obtain i where "i \<in> set items" "fn_output_id i = Some c" by (auto simp: set_filter_map)
    with c show ?thesis using has_call_fn [of i c items] by (auto simp: set_filter_map mem_normalized)
  next
    case False
    from c obtain item where "item \<in> set items" "fn_call_id item = Some c" by (auto simp: set_filter_map)
    with c False synthetic_fn [of item c items] have "FunctionCallOutput c aborted_payload \<in> set (normalized items)"
      by (auto simp: mem_normalized has_call_fn)
    then show ?thesis by (force simp: set_filter_map)
  qed
  then show "?fn = set (filter_map fn_call_id items)"
    using has_call_fn [of _ _ items] by (auto simp: set_filter_map mem_normalized)
  have "c \<in> ?cu" if c: "c \<in> set (filter_map custom_tool_call_id items)" for c
  proof (cases "c \<in> set (filter_map custom_output_id items)")
    case True
    then obtain i where "i \<in> set items" "custom_output_id i = Some c" by (auto simp: set_filter_map)
    with c show ?thesis using has_call_custom [of i c items] by (auto simp: set_filter_map mem_normalized)
  next
    case False
    from c obtain item where "item \<in> set items" "custom_tool_call_id item = Some c" by (auto simp: set_filter_map)
    with c False synthetic_custom [of item c items]
    have "CustomToolCallOutput c (lit ''aborted'') \<in> set (normalized items)"
      by (auto simp: mem_normalized has_call_custom simp del: lit_Cons)
    then show ?thesis by (force simp: set_filter_map)
  qed
  then show "?cu = set (filter_map custom_tool_call_id items)"
    using has_call_custom [of _ _ items] by (auto simp: set_filter_map mem_normalized)
qed

lemma has_call_call: "fn_call_id i = Some c \<or> custom_tool_call_id i = Some c \<Longrightarrow> has_call items i"
  by (cases i) (auto simp: has_call_def)

lemma calls_normalized:
  "set (filter_map fn_call_id (normalized items)) = set (filter_map fn_call_id items)"
  "set (filter_map custom_tool_call_id (normalized items)) = set (filter_map custom_tool_call_id items)"
proof -
  have "(\<exists>i \<in> set (normalized items). fn_call_id i = Some c) \<longleftrightarrow> (\<exists>i \<in> set items. fn_call_id i = Some c)" for c
    unfolding mem_normalized Bex_def by (metis has_call_call option.distinct(1) synthetic_is_output)
  then show "set (filter_map fn_call_id (normalized items)) = set (filter_map fn_call_id items)"
    by (simp add: set_filter_map)
  have "(\<exists>i \<in> set (normalized items). custom_tool_call_id i = Some c) \<longleftrightarrow>
      (\<exists>i \<in> set items. custom_tool_call_id i = Some c)" for c
    unfolding mem_normalized Bex_def by (metis has_call_call option.distinct(1) synthetic_is_output)
  then show "set (filter_map custom_tool_call_id (normalized items)) = set (filter_map custom_tool_call_id items)"
    by (simp add: set_filter_map)
qed

lemma paired_normalized: "paired (normalized items)"
  by (simp add: paired_def outputs_normalized calls_normalized)

lemma paired_drop_ghosts: "paired (filter (\<lambda>i. \<not> is_ghost_snapshot i) items) = paired items"
proof -
  have "filter_map f (filter (\<lambda>i. \<not> is_ghost_snapshot i) items) = filter_map f items"
    if "\<And>g. f (GhostSnapshot g) = None" for f :: "response_item \<Rightarrow> rstring option"
  proof (induction items)
    case (Cons i items)
    with that show ?case by (cases i) (auto split: option.splits)
  qed simp
  then show ?thesis by (simp add: paired_def)
qed

lemma normalized_plain:
  "filter (\<lambda>i. \<not> is_tool_output i) (normalized items) = filter (\<lambda>i. \<not> is_tool_output i) items"
proof -
  have "has_call items i" if "\<not> is_tool_output i" for i
    using that by (cases i) (auto simp: has_call_def)
  then have "filter (\<lambda>i. \<not> is_tool_output i) (normalized items) =
      filter (\<lambda>i. \<not> is_tool_output i) (completed False items items)"
    by (auto simp: normalized_def intro: filter_cong)
  then show ?thesis by (simp add: filter_completed)
qed

lemma normalized_outputs:
  "set (filter is_tool_output (normalized items)) \<subseteq> set items \<union>
     {FunctionCallOutput c aborted_payload | c. c \<notin> set (filter_map fn_output_id items)} \<union>
     {CustomToolCallOutput c (lit ''aborted'') | c. c \<notin> set (filter_map custom_output_id items)}"
  by (auto simp: mem_normalized simp del: lit_Cons dest!: synthetic_output)

lemma normalized_id:
  assumes "paired items"
  shows "normalized items = items"
proof -
  have "synthetic False items i = []" if "i \<in> set items" for i
  proof (rule ccontr)
    assume "synthetic False items i \<noteq> []"
    then obtain x where "x \<in> set (synthetic False items i)" by (cases "synthetic False items i") auto
    from synthetic_output [OF this] show False
      using assms that by (auto simp: paired_def set_filter_map)
  qed
  then have "completed False items items = concat (map (\<lambda>i. [i]) items)"
    by (simp add: completed_def cong: map_cong)
  moreover have "has_call items i" if "i \<in> set items" for i
    using that assms by (auto simp: has_call_def paired_def set_filter_map)
  ultimately show ?thesis by (simp add: normalized_def filter_id_conv)
qed

text \<open>
  C36.  The transcript sent to the model is always produced by a release build, and in it every call has an
  output and every output a call of its kind.  All other items are unchanged and in order, outputs that are
  added say \<^verbatim>\<open>aborted\<close> for calls that had none, and a transcript that is already paired only loses its
  snapshots.  A debug build returns the same transcript or panics.
\<close>

theorem for_prompt_pairs_calls:
  "\<exists>out. for_prompt False cm = Some out \<and> paired out \<and>
     filter (\<lambda>i. \<not> is_tool_output i) out =
       filter (\<lambda>i. \<not> is_tool_output i \<and> \<not> is_ghost_snapshot i) (cm_items cm) \<and>
     set (filter is_tool_output out) \<subseteq> set (cm_items cm) \<union>
       {FunctionCallOutput c aborted_payload | c. c \<notin> set (filter_map fn_output_id (cm_items cm))} \<union>
       {CustomToolCallOutput c (lit ''aborted'') | c. c \<notin> set (filter_map custom_output_id (cm_items cm))} \<and>
     (paired (cm_items cm) \<longrightarrow> out = filter (\<lambda>i. \<not> is_ghost_snapshot i) (cm_items cm)) \<and>
     for_prompt True cm \<in> {None, Some out}"
proof (intro exI conjI)
  let ?xs = "cm_items cm"
  let ?out = "filter (\<lambda>i. \<not> is_ghost_snapshot i) (normalized ?xs)"
  show "for_prompt False cm = Some ?out" by (rule for_prompt_release)
  show "paired ?out" by (simp add: paired_drop_ghosts paired_normalized)
  have "filter (\<lambda>i. \<not> is_tool_output i) ?out =
      filter (\<lambda>i. \<not> is_ghost_snapshot i) (filter (\<lambda>i. \<not> is_tool_output i) (normalized ?xs))"
    by (simp add: conj_commute)
  then show "filter (\<lambda>i. \<not> is_tool_output i) ?out = filter (\<lambda>i. \<not> is_tool_output i \<and> \<not> is_ghost_snapshot i) ?xs"
    by (simp add: normalized_plain conj_commute)
  show "set (filter is_tool_output ?out) \<subseteq> set ?xs \<union>
       {FunctionCallOutput c aborted_payload | c. c \<notin> set (filter_map fn_output_id ?xs)} \<union>
       {CustomToolCallOutput c (lit ''aborted'') | c. c \<notin> set (filter_map custom_output_id ?xs)}"
    using normalized_outputs [of ?xs] by auto
  show "paired ?xs \<longrightarrow> ?out = filter (\<lambda>i. \<not> is_ghost_snapshot i) ?xs" by (simp add: normalized_id)
  show "for_prompt True cm \<in> {None, Some ?out}"
    using for_prompt_debug [of cm] by (cases "for_prompt True cm") (simp_all add: for_prompt_release)
qed

theorem for_prompt_pairs_calls_witness:
  "\<exists>out. for_prompt False \<lparr>cm_items = [FunctionCallOutput [1] aborted_payload], cm_token_info = None\<rparr> = Some out \<and> paired out"
  using for_prompt_pairs_calls [of "\<lparr>cm_items = [FunctionCallOutput [1] aborted_payload], cm_token_info = None\<rparr>"] by blast

section \<open>Dropping items at the ends\<close>

text \<open>A paired transcript in which no identifier is used twice.\<close>

definition wf_history :: "response_item list \<Rightarrow> bool" where
  "wf_history items \<longleftrightarrow>
     paired items \<and> distinct (filter_map fn_call_id items) \<and> distinct (filter_map fn_output_id items) \<and>
     distinct (filter_map custom_tool_call_id items) \<and> distinct (filter_map custom_output_id items)"

definition without :: "(response_item \<Rightarrow> rstring option) \<Rightarrow> rstring \<Rightarrow> response_item list \<Rightarrow> response_item list" where
  "without f c items = filter (\<lambda>i. f i \<noteq> Some c) items"

lemma filter_map_filter: "filter_map f (filter P xs) = filter_map (\<lambda>x. if P x then f x else None) xs"
  by (induction xs) (auto split: option.splits)

lemma distinct_filter_map_filter:
  "distinct (filter_map f xs) \<Longrightarrow> distinct (filter_map f (filter P xs))"
proof (induction xs)
  case (Cons x xs)
  then show ?case by (cases "f x") (auto simp: set_filter_map)
qed simp

lemma remove_position:
  assumes "distinct (filter_map f items)" "\<And>i. p i \<Longrightarrow> f i = Some c" "position p items = Some pos"
  shows "take pos items @ drop (Suc pos) items = without f c items"
  using assms(1,3)
proof (induction items arbitrary: pos)
  case (Cons i items)
  show ?case
  proof (cases "p i")
    case True
    with assms(2) Cons.prems have "pos = 0" "f i = Some c" "c \<notin> set (filter_map f items)" by auto
    then show ?thesis by (auto simp: without_def set_filter_map filter_id_conv)
  next
    case False
    with Cons.prems obtain k where k: "pos = Suc k" "position p items = Some k" by auto
    then have "c \<in> set (filter_map f items)"
      using assms(2) by (force simp: position_Some set_filter_map)
    with Cons.prems have "f i \<noteq> Some c" by auto
    moreover have "distinct (filter_map f items)"
      using Cons.prems(1) by (cases "f i") auto
    ultimately show ?thesis using k Cons.IH by (simp add: without_def)
  qed
qed simp

lemma remove_first_matching_without:
  assumes "distinct (filter_map f items)" "\<And>i. p i \<longleftrightarrow> f i = Some c"
  shows "remove_first_matching p items = without f c items"
proof (cases "position p items")
  case None
  then have "\<forall>i \<in> set items. f i \<noteq> Some c" using assms(2) by (simp add: position_None)
  with None show ?thesis by (simp add: remove_first_matching_def without_def filter_id_conv)
next
  case (Some pos)
  then show ?thesis
    using remove_position [OF assms(1) _ Some, of c] assms(2) by (simp add: remove_first_matching_def)
qed

text \<open>What is removed together with an item: the items of the matching kind with its identifier.\<close>

definition counterparts :: "response_item \<Rightarrow> response_item \<Rightarrow> bool" where
  "counterparts removed i \<longleftrightarrow>
     (\<exists>c. fn_call_id removed = Some c \<and> fn_output_id i = Some c \<or>
          fn_output_id removed = Some c \<and> fn_call_id i = Some c \<or>
          custom_tool_call_id removed = Some c \<and> custom_output_id i = Some c \<or>
          custom_output_id removed = Some c \<and> custom_tool_call_id i = Some c)"

lemma remove_corresponding_spec:
  assumes "distinct (filter_map fn_call_id items)" "distinct (filter_map fn_output_id items)"
    "distinct (filter_map custom_tool_call_id items)" "distinct (filter_map custom_output_id items)"
  shows "remove_corresponding_for items removed = filter (\<lambda>i. \<not> counterparts removed i) items"
proof (cases "(items, removed)" rule: remove_corresponding_for.cases)
  case (2 items' call_id payload)
  show ?thesis
  proof (cases "position (\<lambda>i. function_call_id i = Some call_id) items")
    case None
    then have "\<forall>i \<in> set items. function_call_id i \<noteq> Some call_id" by (simp add: position_None)
    then have eq: "position (\<lambda>i. local_shell_call_id i = Some call_id) items =
        position (\<lambda>i. fn_call_id i = Some call_id) items"
      by (induction items) (auto simp: fn_call_id_iff)
    with 2 None remove_first_matching_without [OF assms(1), of "\<lambda>i. fn_call_id i = Some call_id" call_id]
    show ?thesis by (simp add: remove_first_matching_def without_def counterparts_def)
  next
    case (Some pos)
    with 2 remove_position [OF assms(1) _ Some, of call_id] show ?thesis
      by (simp add: without_def counterparts_def fn_call_id_iff)
  qed
qed (use assms in \<open>simp_all add: remove_first_matching_without without_def counterparts_def
  is_function_output_of_iff is_custom_output_of_iff\<close>)

lemma counterparts_by_id:
  "fn_call_id i = Some d \<Longrightarrow> counterparts r i \<longleftrightarrow> fn_output_id r = Some d"
  "fn_output_id i = Some d \<Longrightarrow> counterparts r i \<longleftrightarrow> fn_call_id r = Some d"
  "custom_tool_call_id i = Some d \<Longrightarrow> counterparts r i \<longleftrightarrow> custom_output_id r = Some d"
  "custom_output_id i = Some d \<Longrightarrow> counterparts r i \<longleftrightarrow> custom_tool_call_id r = Some d"
  by (cases i; auto simp: counterparts_def)+

lemma ids_after_removal:
  assumes "\<And>i d. f i = Some d \<Longrightarrow> counterparts r i \<longleftrightarrow> g r = Some d" "distinct (filter_map f (as @ r # bs))"
  shows "set (filter_map f (filter (\<lambda>i. \<not> counterparts r i) (as @ bs))) =
    set (filter_map f (as @ r # bs)) - set_option (f r) - set_option (g r)"
proof -
  have "set (filter_map f (as @ bs)) = set (filter_map f (as @ r # bs)) - set_option (f r)"
    using assms(2) by (cases "f r") (auto simp: filter_map_append)
  moreover have "set (filter_map f (filter (\<lambda>i. \<not> counterparts r i) xs)) = set (filter_map f xs) - set_option (g r)" for xs
    using assms(1) by (fastforce simp: set_filter_map)
  ultimately show ?thesis by metis
qed

lemma distinct_filter_map_drop: "distinct (filter_map f (as @ x # bs)) \<Longrightarrow> distinct (filter_map f (as @ bs))"
  by (cases "f x") (auto simp: filter_map_append)

lemma remove_corresponding_wf:
  assumes "wf_history (as @ r # bs)"
  shows "remove_corresponding_for (as @ bs) r = filter (\<lambda>i. \<not> counterparts r i) (as @ bs)"
  by (rule remove_corresponding_spec; rule distinct_filter_map_drop [where x = r])
    (use assms in \<open>simp_all add: wf_history_def\<close>)

lemma wf_remove:
  assumes "wf_history (as @ r # bs)"
  shows "wf_history (remove_corresponding_for (as @ bs) r)"
proof -
  note d = assms [unfolded wf_history_def]
  note eq = remove_corresponding_wf [OF assms]
  have "paired (filter (\<lambda>i. \<not> counterparts r i) (as @ bs))"
    unfolding paired_def
    using d ids_after_removal [of fn_call_id r fn_output_id as bs, OF counterparts_by_id(1)]
      ids_after_removal [of fn_output_id r fn_call_id as bs, OF counterparts_by_id(2)]
      ids_after_removal [of custom_tool_call_id r custom_output_id as bs, OF counterparts_by_id(3)]
      ids_after_removal [of custom_output_id r custom_tool_call_id as bs, OF counterparts_by_id(4)]
    by (auto simp: paired_def)
  then show ?thesis
    unfolding wf_history_def eq using d by (blast intro: distinct_filter_map_filter distinct_filter_map_drop)
qed

text \<open>
  Removing the oldest or the newest item together with its counterpart keeps a transcript with unique
  call identifiers paired, without a new normalisation; the identifiers stay unique, at least the one item
  goes, and nothing is added or reordered.
\<close>

lemma trimming_keeps_pairs:
  assumes "wf_history (cm_items cm)"
  shows "wf_history (cm_items (remove_first_item cm)) \<and> wf_history (cm_items (fst (remove_last_item cm))) \<and>
    subseq (cm_items (remove_first_item cm)) (cm_items cm) \<and>
    subseq (cm_items (fst (remove_last_item cm))) (cm_items cm) \<and>
    (cm_items cm \<noteq> [] \<longrightarrow> length (cm_items (remove_first_item cm)) < length (cm_items cm) \<and>
       length (cm_items (fst (remove_last_item cm))) < length (cm_items cm))"
proof (cases "cm_items cm")
  case Nil
  with assms show ?thesis by (simp add: remove_first_item_def remove_last_item_def)
next
  case (Cons x xs)
  let ?ys = "butlast (cm_items cm)" and ?y = "last (cm_items cm)"
  have snoc: "cm_items cm = ?ys @ [?y]" using Cons by simp
  have sub: "subseq (remove_corresponding_for items i) items \<and>
      length (remove_corresponding_for items i) \<le> length items" if "wf_history (as @ i # bs)" "items = as @ bs" for as bs items i
    unfolding that(2) remove_corresponding_wf [OF that(1)] by (rule conjI [OF subseq_filter_left length_filter_le])
  have first: "cm_items (remove_first_item cm) = remove_corresponding_for xs x"
    using Cons by (simp add: remove_first_item_def)
  have last: "cm_items (fst (remove_last_item cm)) = remove_corresponding_for ?ys ?y"
    using Cons by (simp add: remove_last_item_def)
  have wx: "wf_history ([] @ x # xs)" using assms Cons by simp
  have wy: "wf_history (?ys @ ?y # [])" using assms snoc by simp
  have "subseq ?ys (cm_items cm)" "length ?ys < length (cm_items cm)" "length xs < length (cm_items cm)"
    using Cons snoc by (metis subseq_rev_drop_many subseq_order.refl, simp_all)
  moreover have "subseq xs (cm_items cm)" using Cons subseq_Cons' [of x xs "x # xs"] by simp
  ultimately show ?thesis
    using sub [OF wx, of xs] sub [OF wy, of ?ys] wf_remove [OF wx] wf_remove [OF wy] unfolding first last
    by (auto intro: subseq_order.trans)
qed

definition call_and_output :: "response_item list" where
  "call_and_output =
     [FunctionCall None [1] [2] [3], Message None (lit ''user'') [] None None, FunctionCallOutput [3] aborted_payload]"

section \<open>Rolling back\<close>

lemma length_positions: "length (positions_from k items) = length (filter is_user_turn_boundary items)"
  by (induction k items rule: positions_from.induct) auto

lemma nth_positions:
  assumes "j < length (positions_from k items)"
  shows "\<exists>p < length items. positions_from k items ! j = k + p \<and> is_user_turn_boundary (items ! p) \<and>
    length (filter is_user_turn_boundary (take p items)) = j"
  using assms
proof (induction items arbitrary: k j)
  case (Cons i items)
  show ?case
  proof (cases "is_user_turn_boundary i \<and> j = 0")
    case True
    then show ?thesis by (intro exI [of _ 0]) simp
  next
    case False
    let ?j = "if is_user_turn_boundary i then j - 1 else j"
    have "?j < length (positions_from (k + 1) items)" using Cons.prems False by auto
    from Cons.IH [OF this] obtain p where p: "p < length items" "positions_from (k + 1) items ! ?j = k + 1 + p"
        "is_user_turn_boundary (items ! p)" "length (filter is_user_turn_boundary (take p items)) = ?j" by blast
    with False show ?thesis by (intro exI [of _ "Suc p"]) (auto simp: nth_Cons')
  qed
qed simp

text \<open>
  Rolling back \<open>n\<close> turns keeps a beginning of the transcript: what is cut off starts with a real user
  turn, exactly \<open>n\<close> user turns go (all of them when there are fewer), and everything before the first user
  turn stays.
\<close>

lemma rollback_cuts_at_user_turn:
  "\<exists>cut. cm_items cm = cm_items (drop_last_n_user_turns cm n) @ cut \<and>
     length (filter is_user_turn_boundary (cm_items (drop_last_n_user_turns cm n))) =
       length (filter is_user_turn_boundary (cm_items cm)) - n \<and>
     (cut = [] \<or> is_user_turn_boundary (hd cut)) \<and>
     cm_token_info (drop_last_n_user_turns cm n) = cm_token_info cm"
proof (cases "n = 0 \<or> user_message_positions (cm_items cm) = []")
  case True
  then have "drop_last_n_user_turns cm n = cm" "n = 0 \<or> filter is_user_turn_boundary (cm_items cm) = []"
    using length_positions [of 0 "cm_items cm"]
    by (auto simp: drop_last_n_user_turns_def replace_def user_message_positions_def)
  then show ?thesis by auto
next
  case False
  let ?xs = "cm_items cm" and ?ps = "positions_from 0 (cm_items cm)"
  let ?j = "length ?ps - n"
  have "?j < length ?ps" using False by (simp add: user_message_positions_def)
  from nth_positions [OF this] obtain p where p: "p < length ?xs" "?ps ! ?j = p" "is_user_turn_boundary (?xs ! p)"
      "length (filter is_user_turn_boundary (take p ?xs)) = ?j" by auto
  have "drop_last_n_user_turns cm n = cm\<lparr>cm_items := take p ?xs\<rparr>"
  proof (cases ?ps)
    case (Cons a as)
    with False p(2) show ?thesis
      by (auto simp: drop_last_n_user_turns_def user_message_positions_def replace_def Let_def)
  qed (use False in \<open>simp add: user_message_positions_def\<close>)
  with p show ?thesis
    by (intro exI [of _ "drop p ?xs"]) (simp add: length_positions hd_drop_conv_nth)
qed

section \<open>Token totals\<close>

lemma estimate_range: "0 \<le> estimate_item_token_count ser i \<and> estimate_item_token_count ser i \<le> i64_max"
  by (cases "(ser, i)" rule: estimate_item_token_count.cases)
    (simp_all add: i64_of_nat_range, simp add: i64_max_def)

lemma sum_tokens_range: "0 \<le> sum_tokens ser items \<and> sum_tokens ser items \<le> i64_max"
proof (induction items rule: rev_induct)
  case (snoc i items)
  then show ?case
    using estimate_range [of ser i] sat_add_i64_range sat_add_i64_nonneg by (simp add: sum_tokens_def)
qed (simp add: sum_tokens_def i64_max_def)

end
