(* ===== verification/Tagged_Blocks.thy ===== *)
theory Tagged_Blocks
  imports Savfox_Prelude
begin

text \<open>
  The streaming parser for blocks between tag lines, \<^verbatim>\<open>crates/core/src/tagged_block_parser.rs\<close>.  Text arrives
  in deltas of any size; a line is held back only while it may still turn out to be a tag line.

  The specification is a parser of complete texts, line by line (\<open>segments_of_lines\<close>).  The streaming
  parser is shown to agree with it for every way the text is cut into deltas, up to the joining of
  adjacent text segments that the parser itself performs within a delta.
\<close>

record 't tag_spec =
  ts_open :: rstring
  ts_close :: rstring
  ts_tag :: 't

datatype 't tagged_line_segment =
    NormalText rstring
  | TagStart 't
  | TagDelta 't rstring
  | TagEnd 't

record 't tagged_line_parser =
  tp_specs :: "'t tag_spec list"
  tp_active_tag :: "'t option"
  tp_detect_tag :: bool
  tp_line_buffer :: rstring

definition tagged_line_parser_new :: "'t tag_spec list \<Rightarrow> 't tagged_line_parser" where
  "tagged_line_parser_new specs =
     \<lparr>tp_specs = specs, tp_active_tag = None, tp_detect_tag = True, tp_line_buffer = []\<rparr>"

fun push_segment ::
  "'t tagged_line_segment list \<Rightarrow> 't tagged_line_segment \<Rightarrow> 't tagged_line_segment list" where
  "push_segment segments (NormalText delta) =
     (if delta = [] then segments
      else if segments = [] then [NormalText delta]
      else
        (case last segments of
           NormalText existing \<Rightarrow> butlast segments @ [NormalText (existing @ delta)]
         | _ \<Rightarrow> segments @ [NormalText delta]))"
| "push_segment segments (TagDelta tag delta) =
     (if delta = [] then segments
      else if segments = [] then [TagDelta tag delta]
      else
        (case last segments of
           TagDelta existing_tag existing \<Rightarrow>
             (if existing_tag = tag then butlast segments @ [TagDelta tag (existing @ delta)]
              else segments @ [TagDelta tag delta])
         | _ \<Rightarrow> segments @ [TagDelta tag delta]))"
| "push_segment segments (TagStart tag) = segments @ [TagStart tag]"
| "push_segment segments (TagEnd tag) = segments @ [TagEnd tag]"

definition push_text ::
  "'t tagged_line_parser \<Rightarrow> rstring \<Rightarrow> 't tagged_line_segment list \<Rightarrow> 't tagged_line_segment list" where
  "push_text p text segments =
     (case tp_active_tag p of
        Some tag \<Rightarrow> push_segment segments (TagDelta tag text)
      | None \<Rightarrow> push_segment segments (NormalText text))"

definition is_tag_prefix :: "'t tagged_line_parser \<Rightarrow> rstring \<Rightarrow> bool" where
  "is_tag_prefix p slug =
     (let slug = trim_end slug in
      list_ex (\<lambda>spec. starts_with slug (ts_open spec) \<or> starts_with slug (ts_close spec)) (tp_specs p))"

definition match_open :: "'t tagged_line_parser \<Rightarrow> rstring \<Rightarrow> 't option" where
  "match_open p slug = map_option ts_tag (find (\<lambda>spec. ts_open spec = slug) (tp_specs p))"

definition match_close :: "'t tagged_line_parser \<Rightarrow> rstring \<Rightarrow> 't option" where
  "match_close p slug = map_option ts_tag (find (\<lambda>spec. ts_close spec = slug) (tp_specs p))"

definition without_newline :: "rstring \<Rightarrow> rstring" where
  "without_newline line = (case strip_suffix [nl_char] line of Some l \<Rightarrow> l | None \<Rightarrow> line)"

definition finish_line ::
  "'t tagged_line_parser \<Rightarrow> 't tagged_line_segment list \<Rightarrow> 't tagged_line_parser \<times> 't tagged_line_segment list" where
  "finish_line p segments =
     (let line = tp_line_buffer p;
          p = p\<lparr>tp_line_buffer := []\<rparr>;
          slug = trim_end (trim_start (without_newline line))
      in
      case (match_open p slug, tp_active_tag p) of
        (Some tag, None) \<Rightarrow>
          (p\<lparr>tp_active_tag := Some tag, tp_detect_tag := True\<rparr>, push_segment segments (TagStart tag))
      | _ \<Rightarrow>
          (case match_close p slug of
             Some tag \<Rightarrow>
               (if tp_active_tag p = Some tag
                then (p\<lparr>tp_active_tag := None, tp_detect_tag := True\<rparr>, push_segment segments (TagEnd tag))
                else (p\<lparr>tp_detect_tag := True\<rparr>, push_text p line segments))
           | None \<Rightarrow> (p\<lparr>tp_detect_tag := True\<rparr>, push_text p line segments)))"

text \<open>The loop of \<^verbatim>\<open>parse\<close>: the parser, the pending run and the segments.\<close>

fun parse_chars ::
  "'t tagged_line_parser \<Rightarrow> rstring \<Rightarrow> 't tagged_line_segment list \<Rightarrow> rstring \<Rightarrow>
     't tagged_line_parser \<times> rstring \<times> 't tagged_line_segment list" where
  "parse_chars p run segments [] = (p, run, segments)"
| "parse_chars p run segments (ch # cs) =
     (if tp_detect_tag p
      then
        (let segments = (if run \<noteq> [] then push_text p run segments else segments);
             p = p\<lparr>tp_line_buffer := tp_line_buffer p @ [ch]\<rparr>
         in
         if ch = nl_char
         then (case finish_line p segments of (p', segments') \<Rightarrow> parse_chars p' [] segments' cs)
         else
           (let slug = trim_start (tp_line_buffer p) in
            if slug = [] \<or> is_tag_prefix p slug then parse_chars p [] segments cs
            else
              (let buffered = tp_line_buffer p;
                   p = p\<lparr>tp_line_buffer := [], tp_detect_tag := False\<rparr>
               in parse_chars p [] (push_text p buffered segments) cs)))
      else
        (let run = run @ [ch] in
         if ch = nl_char
         then parse_chars (p\<lparr>tp_detect_tag := True\<rparr>) [] (push_text p run segments) cs
         else parse_chars p run segments cs))"

definition parse_delta :: "'t tagged_line_parser \<Rightarrow> rstring \<Rightarrow> 't tagged_line_parser \<times> 't tagged_line_segment list" where
  "parse_delta p delta =
     (case parse_chars p [] [] delta of
        (p', run, segments) \<Rightarrow> (p', if run \<noteq> [] then push_text p' run segments else segments))"

definition finish :: "'t tagged_line_parser \<Rightarrow> 't tagged_line_parser \<times> 't tagged_line_segment list" where
  "finish p =
     (case (if tp_line_buffer p \<noteq> []
            then
              (let buffered = tp_line_buffer p;
                   p = p\<lparr>tp_line_buffer := []\<rparr>;
                   slug = trim_end (trim_start (without_newline buffered))
               in
               case (match_open p slug, tp_active_tag p) of
                 (Some tag, None) \<Rightarrow> (p\<lparr>tp_active_tag := Some tag\<rparr>, push_segment [] (TagStart tag))
               | _ \<Rightarrow>
                   (case match_close p slug of
                      Some tag \<Rightarrow>
                        (if tp_active_tag p = Some tag
                         then (p\<lparr>tp_active_tag := None\<rparr>, push_segment [] (TagEnd tag))
                         else (p, push_text p buffered []))
                    | None \<Rightarrow> (p, push_text p buffered [])))
            else (p, [])) of
        (p, segments) \<Rightarrow>
          (case tp_active_tag p of
             Some tag \<Rightarrow>
               (p\<lparr>tp_active_tag := None, tp_detect_tag := True\<rparr>, push_segment segments (TagEnd tag))
           | None \<Rightarrow> (p\<lparr>tp_detect_tag := True\<rparr>, segments)))"

text \<open>A client: feed the deltas in order, then finish.\<close>

fun parse_deltas :: "'t tagged_line_parser \<Rightarrow> rstring list \<Rightarrow> 't tagged_line_segment list" where
  "parse_deltas p [] = snd (finish p)"
| "parse_deltas p (d # ds) = (case parse_delta p d of (p', segments) \<Rightarrow> segments @ parse_deltas p' ds)"

section \<open>Parsing complete texts\<close>

fun lines_with_newline :: "rstring \<Rightarrow> rstring list" where
  "lines_with_newline [] = []"
| "lines_with_newline (c # s) =
     (if c = nl_char then [c] # lines_with_newline s
      else (case lines_with_newline s of [] \<Rightarrow> [[c]] | l # ls \<Rightarrow> (c # l) # ls))"

fun text_segment :: "'t option \<Rightarrow> rstring \<Rightarrow> 't tagged_line_segment" where
  "text_segment None t = NormalText t"
| "text_segment (Some tag) t = TagDelta tag t"

definition spec_with :: "('t tag_spec \<Rightarrow> rstring) \<Rightarrow> 't tag_spec list \<Rightarrow> rstring \<Rightarrow> 't option" where
  "spec_with f specs slug = map_option ts_tag (find (\<lambda>spec. f spec = slug) specs)"

text \<open>One line: a tag line opens or closes a block, any other line is text of the current block.\<close>

definition segment_of_line ::
  "'t tag_spec list \<Rightarrow> 't option \<Rightarrow> rstring \<Rightarrow> 't option \<times> 't tagged_line_segment" where
  "segment_of_line specs active line =
     (let slug = trim (without_newline line) in
      case (spec_with ts_open specs slug, active) of
        (Some tag, None) \<Rightarrow> (Some tag, TagStart tag)
      | _ \<Rightarrow>
          (if active \<noteq> None \<and> spec_with ts_close specs slug = active
           then (None, TagEnd (the active))
           else (active, text_segment active line)))"

fun segments_of_lines :: "'t tag_spec list \<Rightarrow> 't option \<Rightarrow> rstring list \<Rightarrow> 't tagged_line_segment list" where
  "segments_of_lines specs active [] = (case active of Some tag \<Rightarrow> [TagEnd tag] | None \<Rightarrow> [])"
| "segments_of_lines specs active (line # ls) =
     (case segment_of_line specs active line of
        (active', seg) \<Rightarrow> seg # segments_of_lines specs active' ls)"

definition coalesce :: "'t tagged_line_segment list \<Rightarrow> 't tagged_line_segment list" where
  "coalesce segs = foldl push_segment [] segs"

section \<open>Joining segments\<close>

lemma push_push_text:
  "push_segment (push_segment s (text_segment a t)) (text_segment a u) = push_segment s (text_segment a (t @ u))"
  by (cases a; cases s rule: rev_cases) (auto simp: butlast_append split: tagged_line_segment.splits)

lemma push_empty: "push_segment s (text_segment a []) = s"
  by (cases a) simp_all

lemma push_onto_text:
  "u \<noteq> [] \<Longrightarrow> push_segment (t @ [text_segment a v]) (text_segment a u) = t @ [text_segment a (v @ u)]"
  by (cases a) simp_all

lemma push_new:
  "\<nexists>a u v. x = text_segment a u \<and> u \<noteq> [] \<and> y = text_segment a v \<Longrightarrow>
     push_segment (t @ [y]) x = t @ [y, x] \<or> (\<exists>a. x = text_segment a [])"
proof (cases x)
  case (NormalText u)
  assume "\<nexists>a u v. x = text_segment a u \<and> u \<noteq> [] \<and> y = text_segment a v"
  with NormalText have "u = [] \<or> (\<forall>v. y \<noteq> NormalText v)" by (metis text_segment.simps(1))
  with NormalText show ?thesis by (cases y) (auto intro: exI [of _ None])
next
  case (TagDelta g u)
  assume "\<nexists>a u v. x = text_segment a u \<and> u \<noteq> [] \<and> y = text_segment a v"
  with TagDelta have "u = [] \<or> (\<forall>v. y \<noteq> TagDelta g v)" by (metis text_segment.simps(2))
  with TagDelta show ?thesis by (cases y) (auto intro: exI [of _ "Some g"])
qed simp_all

lemma foldl_push_push: "foldl push_segment s (push_segment t x) = push_segment (foldl push_segment s t) x"
proof (cases t rule: rev_cases)
  case Nil
  then show ?thesis by (cases x) auto
next
  case (snoc t' y)
  show ?thesis
  proof (cases "\<exists>a u v. x = text_segment a u \<and> u \<noteq> [] \<and> y = text_segment a v")
    case True
    then obtain a u v where "x = text_segment a u" "u \<noteq> []" "y = text_segment a v" by blast
    then show ?thesis using snoc by (simp add: push_onto_text push_push_text del: push_segment.simps)
  next
    case False
    from push_new [OF this, of t'] show ?thesis
      using snoc by (auto simp: push_empty simp del: push_segment.simps)
  qed
qed

lemma foldl_coalesced: "foldl push_segment s (foldl push_segment t a) = foldl push_segment s (t @ a)"
  by (induction a rule: rev_induct) (simp_all add: foldl_push_push)

declare push_segment.simps [simp del]

section \<open>Lines\<close>

lemma trim_end_append: "trim_end (x @ m) = (if trim_end m = [] then trim_end x else x @ trim_end m)"
  by (auto simp: trim_end_def dropWhile_append)

lemma prefix_trim_end: "prefix (trim_end x) x"
  by (metis suffix_dropWhile suffix_to_prefix rev_rev_ident trim_end_def)

lemma prefix_trim:
  assumes "trim_start b \<noteq> []"
  shows "prefix (trim_end (trim_start b)) (trim (b @ m))"
proof -
  have "trim_start (b @ m) = trim_start b @ m"
    using assms by (auto simp: trim_start_def dropWhile_append)
  then show ?thesis
    using prefix_trim_end [of "trim_start b"] by (auto simp: trim_def trim_end_append)
qed

lemma without_newline_append: "nl_char \<notin> set b \<Longrightarrow> \<exists>m. without_newline (b @ l) = b @ m"
proof (cases "strip_suffix [nl_char] (b @ l)")
  case (Some t)
  assume b: "nl_char \<notin> set b"
  from Some have "b @ l = t @ [nl_char]" by (simp add: strip_suffix_Some)
  with b obtain m where "l = m @ [nl_char]" by (cases l rule: rev_cases) auto
  with \<open>b @ l = t @ [nl_char]\<close> have "t = b @ m" by simp
  with Some show ?thesis by (simp add: without_newline_def)
qed (simp add: without_newline_def)

definition may_be_tag :: "'t tag_spec list \<Rightarrow> rstring \<Rightarrow> bool" where
  "may_be_tag specs slug \<longleftrightarrow> (\<exists>spec \<in> set specs. prefix slug (ts_open spec) \<or> prefix slug (ts_close spec))"

lemma is_tag_prefix_iff: "is_tag_prefix p slug \<longleftrightarrow> may_be_tag (tp_specs p) (trim_end slug)"
  by (simp add: is_tag_prefix_def may_be_tag_def list_ex_iff starts_with_iff Let_def)

lemma spec_with_Some: "spec_with f specs slug = Some tag \<Longrightarrow> \<exists>spec \<in> set specs. f spec = slug"
  by (auto simp: spec_with_def find_Some_iff)

lemma disproved_line_is_text:
  assumes "trim_start b \<noteq> []" "nl_char \<notin> set b" "\<not> may_be_tag specs (trim_end (trim_start b))"
  shows "segment_of_line specs active (b @ l) = (active, text_segment active (b @ l))"
proof -
  obtain m where "without_newline (b @ l) = b @ m"
    using without_newline_append [OF assms(2)] by blast
  with prefix_trim [OF assms(1), of m]
  have pre: "prefix (trim_end (trim_start b)) (trim (without_newline (b @ l)))" by simp
  have "spec_with f specs (trim (without_newline (b @ l))) = None" if f: "f = ts_open \<or> f = ts_close" for f
  proof (rule ccontr)
    assume "spec_with f specs (trim (without_newline (b @ l))) \<noteq> None"
    then obtain spec where "spec \<in> set specs" "f spec = trim (without_newline (b @ l))"
      using spec_with_Some by fastforce
    with f pre assms(3) show False by (auto simp: may_be_tag_def)
  qed
  then show ?thesis by (auto simp: segment_of_line_def Let_def)
qed

lemma lines_append_newline:
  "nl_char \<notin> set b \<Longrightarrow> lines_with_newline (b @ nl_char # s) = (b @ [nl_char]) # lines_with_newline s"
  by (induction b) auto

lemma lines_append:
  "nl_char \<notin> set b \<Longrightarrow> b \<noteq> [] \<Longrightarrow>
     lines_with_newline (b @ s) = (case lines_with_newline s of [] \<Rightarrow> [b] | l # ls \<Rightarrow> (b @ l) # ls)"
proof (induction b)
  case (Cons c b)
  then show ?case by (cases "b = []") (auto split: list.splits)
qed simp

section \<open>The streaming parser\<close>

text \<open>What the specification still owes for a parser state and the rest of the text.\<close>

definition rest_of_line :: "'t tag_spec list \<Rightarrow> 't option \<Rightarrow> rstring list \<Rightarrow> 't tagged_line_segment list" where
  "rest_of_line specs active ls =
     (case ls of
        [] \<Rightarrow> segments_of_lines specs active []
      | l # ls \<Rightarrow> text_segment active l # segments_of_lines specs active ls)"

definition owed :: "'t tagged_line_parser \<Rightarrow> rstring \<Rightarrow> 't tagged_line_segment list" where
  "owed p s =
     (if tp_detect_tag p
      then segments_of_lines (tp_specs p) (tp_active_tag p) (lines_with_newline (tp_line_buffer p @ s))
      else rest_of_line (tp_specs p) (tp_active_tag p) (lines_with_newline s))"

definition parser_ok :: "'t tagged_line_parser \<Rightarrow> bool" where
  "parser_ok p \<longleftrightarrow> nl_char \<notin> set (tp_line_buffer p) \<and> (\<not> tp_detect_tag p \<longrightarrow> tp_line_buffer p = [])"

lemma push_text_segment: "push_text p t segs = push_segment segs (text_segment (tp_active_tag p) t)"
  by (cases "tp_active_tag p") (simp_all add: push_text_def)

lemma match_spec: "match_open p = spec_with ts_open (tp_specs p)" "match_close p = spec_with ts_close (tp_specs p)"
  by (auto simp: match_open_def match_close_def spec_with_def fun_eq_iff)

lemma finish_line_spec:
  assumes "segment_of_line (tp_specs p) (tp_active_tag p) (tp_line_buffer p) = (active, seg)"
  shows "finish_line p segs =
    (p\<lparr>tp_line_buffer := [], tp_active_tag := active, tp_detect_tag := True\<rparr>, push_segment segs seg)"
  using assms
  by (cases "tp_active_tag p")
    (auto simp: finish_line_def segment_of_line_def match_spec push_text_segment trim_def Let_def split: option.splits if_splits)

lemma owed_newline:
  assumes "tp_detect_tag p" "nl_char \<notin> set (tp_line_buffer p)"
    and "segment_of_line (tp_specs p) (tp_active_tag p) (tp_line_buffer p @ [nl_char]) = (active, seg)"
  shows "owed p (nl_char # s) =
    seg # owed (p\<lparr>tp_line_buffer := [], tp_active_tag := active, tp_detect_tag := True\<rparr>) s"
  using assms by (simp add: owed_def lines_append_newline)

lemma push_rest_of_line:
  "foldl push_segment segs (rest_of_line specs active (case ls of [] \<Rightarrow> [b] | l # ls \<Rightarrow> (b @ l) # ls)) =
     foldl push_segment (push_segment segs (text_segment active b)) (rest_of_line specs active ls)"
  by (cases ls) (simp_all add: rest_of_line_def push_push_text)

lemma owed_flush:
  assumes "tp_detect_tag p" "tp_line_buffer p = b" "nl_char \<notin> set b" "trim_start b \<noteq> []"
    and "\<not> is_tag_prefix p (trim_start b)"
  shows "foldl push_segment segs (owed p s) =
    foldl push_segment (push_segment segs (text_segment (tp_active_tag p) b))
      (owed (p\<lparr>tp_line_buffer := [], tp_detect_tag := False\<rparr>) s)"
proof -
  have "b \<noteq> []" using assms(4) by (auto simp: trim_start_def)
  then have "owed p s = segments_of_lines (tp_specs p) (tp_active_tag p)
      (case lines_with_newline s of [] \<Rightarrow> [b] | l # ls \<Rightarrow> (b @ l) # ls)"
    using assms by (simp add: owed_def lines_append)
  also have "\<dots> = rest_of_line (tp_specs p) (tp_active_tag p)
      (case lines_with_newline s of [] \<Rightarrow> [b] | l # ls \<Rightarrow> (b @ l) # ls)"
    using disproved_line_is_text [OF assms(4,3), of "tp_specs p" "tp_active_tag p"] assms(5)
      disproved_line_is_text [OF assms(4,3), of "tp_specs p" "tp_active_tag p" "[]"]
    by (cases "lines_with_newline s") (simp_all add: rest_of_line_def is_tag_prefix_iff)
  finally show ?thesis by (simp add: push_rest_of_line owed_def)
qed

lemma owed_plain:
  assumes "\<not> tp_detect_tag p"
  shows "foldl push_segment segs (owed p (c # s)) =
    foldl push_segment (push_segment segs (text_segment (tp_active_tag p) [c]))
      (owed (if c = nl_char then p\<lparr>tp_detect_tag := True, tp_line_buffer := []\<rparr> else p) s)"
  using assms push_rest_of_line [of segs "tp_specs p" "tp_active_tag p" "[c]" "lines_with_newline s"]
  by (cases "lines_with_newline s") (auto simp: owed_def rest_of_line_def)

lemma parse_chars_owed:
  assumes "parse_chars p run segs cs = (p', run', segs')" "parser_ok p" "run \<noteq> [] \<longrightarrow> \<not> tp_detect_tag p"
  shows "parser_ok p' \<and> (run' \<noteq> [] \<longrightarrow> \<not> tp_detect_tag p') \<and>
    foldl push_segment (push_segment segs (text_segment (tp_active_tag p) run)) (owed p (cs @ s)) =
    foldl push_segment (push_segment segs' (text_segment (tp_active_tag p') run')) (owed p' s)"
  using assms
proof (induction cs arbitrary: p run segs)
  case (Cons ch cs)
  note ok = Cons.prems(2) [unfolded parser_ok_def]
  show ?case
  proof (cases "tp_detect_tag p")
    case detect: True
    with Cons.prems(3) have run: "run = []" by simp
    let ?p = "p\<lparr>tp_line_buffer := tp_line_buffer p @ [ch]\<rparr>"
    consider "ch = nl_char"
      | "ch \<noteq> nl_char" "trim_start (tp_line_buffer ?p) = [] \<or> is_tag_prefix ?p (trim_start (tp_line_buffer ?p))"
      | "ch \<noteq> nl_char" "trim_start (tp_line_buffer ?p) \<noteq> []" "\<not> is_tag_prefix ?p (trim_start (tp_line_buffer ?p))"
      by blast
    then show ?thesis
    proof cases
      case 1
      obtain active seg where line:
        "segment_of_line (tp_specs p) (tp_active_tag p) (tp_line_buffer p @ [nl_char]) = (active, seg)" by fastforce
      let ?q = "p\<lparr>tp_line_buffer := [], tp_active_tag := active, tp_detect_tag := True\<rparr>"
      have "finish_line ?p segs = (?q, push_segment segs seg)"
        using finish_line_spec [of ?p active seg segs] line 1 by simp
      with Cons.prems(1) detect run 1 have "parse_chars ?q [] (push_segment segs seg) cs = (p', run', segs')"
        by (simp add: Let_def)
      from Cons.IH [OF this] owed_newline [OF detect _ line] ok 1 run show ?thesis
        by (simp add: parser_ok_def push_empty)
    next
      case 2
      with Cons.prems(1) detect run have "parse_chars ?p [] segs cs = (p', run', segs')" by (simp add: Let_def)
      from Cons.IH [OF this] 2 ok detect run show ?thesis by (simp add: parser_ok_def push_empty owed_def)
    next
      case 3
      let ?b = "tp_line_buffer p @ [ch]"
      let ?q = "p\<lparr>tp_line_buffer := [], tp_detect_tag := False\<rparr>"
      have "parse_chars ?q [] (push_segment segs (text_segment (tp_active_tag p) ?b)) cs = (p', run', segs')"
        using Cons.prems(1) detect run 3 by (simp add: Let_def push_text_segment)
      from Cons.IH [OF this] have IH: "parser_ok p' \<and> (run' \<noteq> [] \<longrightarrow> \<not> tp_detect_tag p') \<and>
          foldl push_segment (push_segment segs (text_segment (tp_active_tag p) ?b)) (owed ?q (cs @ s)) =
          foldl push_segment (push_segment segs' (text_segment (tp_active_tag p') run')) (owed p' s)"
        by (simp add: parser_ok_def push_empty)
      have "foldl push_segment segs (owed ?p (cs @ s)) =
          foldl push_segment (push_segment segs (text_segment (tp_active_tag p) ?b)) (owed ?q (cs @ s))"
        using owed_flush [of ?p ?b segs "cs @ s"] detect 3 ok by simp
      moreover have "owed p (ch # cs @ s) = owed ?p (cs @ s)" using detect by (simp add: owed_def)
      ultimately show ?thesis using IH run by (simp add: push_empty)
    qed
  next
    case plain: False
    let ?q = "if ch = nl_char then p\<lparr>tp_detect_tag := True, tp_line_buffer := []\<rparr> else p"
    let ?r = "if ch = nl_char then [] else run @ [ch]"
    let ?s = "if ch = nl_char then push_segment segs (text_segment (tp_active_tag p) (run @ [ch])) else segs"
    have same: "p\<lparr>tp_detect_tag := True, tp_line_buffer := []\<rparr> = p\<lparr>tp_detect_tag := True\<rparr>"
      using plain ok by (cases p) simp
    have "parse_chars ?q ?r ?s cs = (p', run', segs')"
      using Cons.prems(1) plain by (auto simp: Let_def push_text_segment same)
    from Cons.IH [OF this] have IH: "parser_ok p' \<and> (run' \<noteq> [] \<longrightarrow> \<not> tp_detect_tag p') \<and>
        foldl push_segment (push_segment ?s (text_segment (tp_active_tag ?q) ?r)) (owed ?q (cs @ s)) =
        foldl push_segment (push_segment segs' (text_segment (tp_active_tag p') run')) (owed p' s)"
      using ok plain by (auto simp: parser_ok_def)
    have "push_segment ?s (text_segment (tp_active_tag ?q) ?r) =
        push_segment (push_segment segs (text_segment (tp_active_tag p) run)) (text_segment (tp_active_tag p) [ch])"
      by (simp add: push_empty push_push_text)
    with IH owed_plain [OF plain, of _ ch "cs @ s"] show ?thesis by simp
  qed
qed simp

lemma parse_owed:
  assumes "parse_delta p delta = (p', segs)" "parser_ok p"
  shows "parser_ok p' \<and> foldl push_segment s0 (owed p (delta @ s)) = foldl push_segment s0 (segs @ owed p' s)"
proof -
  obtain run segs' where pc: "parse_chars p [] [] delta = (p', run, segs')"
    and segs: "segs = push_segment segs' (text_segment (tp_active_tag p') run)"
    using assms(1) by (auto simp: parse_delta_def push_text_segment push_empty split: prod.splits if_splits)
  from parse_chars_owed [OF pc assms(2), of s]
  have "parser_ok p'" and eq: "foldl push_segment [] (owed p (delta @ s)) = foldl push_segment segs (owed p' s)"
    by (simp_all add: segs push_empty)
  have "foldl push_segment s0 (owed p (delta @ s)) = foldl push_segment s0 (foldl push_segment [] (owed p (delta @ s)))"
    by (simp add: foldl_coalesced)
  also have "\<dots> = foldl push_segment s0 (segs @ owed p' s)" unfolding eq by (rule foldl_coalesced)
  finally show ?thesis using \<open>parser_ok p'\<close> by simp
qed

lemma finish_owed:
  assumes "parser_ok p"
  shows "foldl push_segment s0 (snd (finish p)) = foldl push_segment s0 (owed p [])"
proof -
  have "\<exists>q. finish p = (q, foldl push_segment [] (owed p []))"
  proof (cases "tp_line_buffer p = []")
    case True
    then show ?thesis
      by (cases "tp_active_tag p") (simp_all add: finish_def owed_def rest_of_line_def)
  next
    case False
    with assms have "tp_detect_tag p" "lines_with_newline (tp_line_buffer p) = [tp_line_buffer p]"
      using lines_append [of "tp_line_buffer p" "[]"] by (auto simp: parser_ok_def)
    with False show ?thesis
      by (cases "tp_active_tag p")
        (auto simp: finish_def owed_def segment_of_line_def match_spec push_text_segment trim_def Let_def
          split: option.splits)
  qed
  then show ?thesis using foldl_coalesced [of s0 "[]" "owed p []"] by auto
qed

lemma parse_deltas_owed:
  "parser_ok p \<Longrightarrow> foldl push_segment s0 (parse_deltas p ds) = foldl push_segment s0 (owed p (concat ds))"
proof (induction ds arbitrary: p s0)
  case (Cons d ds)
  obtain p' segs where parse_delta: "parse_delta p d = (p', segs)" by fastforce
  from parse_owed [OF parse_delta Cons.prems] Cons.IH [of p'] parse_delta show ?case by simp
qed (simp add: finish_owed)

text \<open>
  C38.  However a text is cut into deltas, the segments the streaming parser emits are, once adjacent text
  is joined, those of the line-by-line specification on the whole text: a tag is recognised exactly when a
  line consists of it up to surrounding white space, no text is lost, added or reordered, and an open block
  is closed at the end.
\<close>

theorem streaming_parser_refines_lines:
  "coalesce (parse_deltas (tagged_line_parser_new specs) deltas) =
     coalesce (segments_of_lines specs None (lines_with_newline (concat deltas)))"
proof -
  have "parser_ok (tagged_line_parser_new specs)"
    by (simp add: parser_ok_def tagged_line_parser_new_def)
  from parse_deltas_owed [OF this, of "[]" deltas] show ?thesis
    by (simp add: coalesce_def owed_def tagged_line_parser_new_def)
qed

end
