(* ===== verification/Ip_Addresses.thy ===== *)
theory Ip_Addresses
  imports Savfox_Prelude "HOL-Library.Word"
begin

unbundle bit_operations_syntax

text \<open>
  Internet addresses as the standard library has them: parsing of literals, and the classification
  functions that the network policy (\<^verbatim>\<open>crates/network-proxy/src/policy.rs\<close>) and the outbound guard of the gateway
  (\<^verbatim>\<open>crates/gateway-server/src/security/ssrf.rs\<close>) build on.

  An IPv4 address is its 32-bit value, an IPv6 address the list of its eight 16-bit segments.
\<close>

type_synonym ipv4_addr = "32 word"
type_synonym ipv6_addr = "16 word list"

datatype ip_addr = V4 ipv4_addr | V6 ipv6_addr

record socket_addr =
  sa_ip :: ip_addr
  sa_port :: nat

section \<open>Parsing literals\<close>

definition to_digit :: "nat \<Rightarrow> rchar \<Rightarrow> nat option" where
  "to_digit radix c =
     (let d = (if 48 \<le> c \<and> c \<le> 57 then Some (c - 48)
               else if 97 \<le> c \<and> c \<le> 122 then Some (c - 87)
               else if 65 \<le> c \<and> c \<le> 90 then Some (c - 55)
               else None)
      in case d of Some v \<Rightarrow> (if v < radix then Some v else None) | None \<Rightarrow> None)"

fun digits_loop ::
  "nat \<Rightarrow> nat \<Rightarrow> nat \<Rightarrow> nat \<Rightarrow> nat \<Rightarrow> rstring \<Rightarrow> (nat \<times> nat \<times> rstring) option" where
  "digits_loop radix max_digits max_value count acc [] = Some (count, acc, [])"
| "digits_loop radix max_digits max_value count acc (c # s) =
     (case to_digit radix c of
        None \<Rightarrow> Some (count, acc, c # s)
      | Some d \<Rightarrow>
          (if acc * radix + d > max_value \<or> count + 1 > max_digits then None
           else digits_loop radix max_digits max_value (count + 1) (acc * radix + d) s))"

definition read_number :: "nat \<Rightarrow> nat \<Rightarrow> nat \<Rightarrow> bool \<Rightarrow> rstring \<Rightarrow> (nat \<times> rstring) option" where
  "read_number radix max_digits max_value allow_zero_prefix s =
     (case digits_loop radix max_digits max_value 0 0 s of
        None \<Rightarrow> None
      | Some (count, v, rest) \<Rightarrow>
          (if count = 0 then None
           else if \<not> allow_zero_prefix \<and> hd s = 48 \<and> count > 1 then None
           else Some (v, rest)))"

text \<open>A separator before every element but the first.\<close>

definition read_separated :: "rchar \<Rightarrow> nat \<Rightarrow> (rstring \<Rightarrow> ('a \<times> rstring) option) \<Rightarrow> rstring \<Rightarrow> ('a \<times> rstring) option" where
  "read_separated sep i inner s =
     (if i = 0 then inner s
      else (case s of c # t \<Rightarrow> (if c = sep then inner t else None) | [] \<Rightarrow> None))"

fun read_octets :: "nat \<Rightarrow> nat \<Rightarrow> rstring \<Rightarrow> (nat list \<times> rstring) option" where
  "read_octets i 0 s = Some ([], s)"
| "read_octets i (Suc n) s =
     (case read_separated 46 i (read_number 10 3 255 False) s of
        None \<Rightarrow> None
      | Some (v, rest) \<Rightarrow>
          (case read_octets (i + 1) n rest of
             None \<Rightarrow> None
           | Some (vs, rest') \<Rightarrow> Some (v # vs, rest')))"

lemmas read_octets_numeral = read_octets.simps(2) [of _ "pred_numeral k" for k, folded numeral_eq_Suc]

definition ipv4_of_octets :: "nat list \<Rightarrow> ipv4_addr" where
  "ipv4_of_octets vs = of_nat (foldl (\<lambda>acc v. acc * 256 + v) 0 vs)"

definition read_ipv4_addr :: "rstring \<Rightarrow> (nat list \<times> rstring) option" where
  "read_ipv4_addr s = read_octets 0 4 s"

fun read_groups :: "nat \<Rightarrow> nat \<Rightarrow> rstring \<Rightarrow> nat list \<times> rstring \<times> bool" where
  "read_groups i 0 s = ([], s, False)"
| "read_groups i (Suc n) s =
     (let v4 = (if n > 0 then read_separated 58 i read_ipv4_addr s else None) in
      case v4 of
        Some ([a, b, c, d], rest) \<Rightarrow> ([a * 256 + b, c * 256 + d], rest, True)
      | _ \<Rightarrow>
          (case read_separated 58 i (read_number 16 4 65535 True) s of
             None \<Rightarrow> ([], s, False)
           | Some (g, rest) \<Rightarrow>
               (case read_groups (i + 1) n rest of (gs, rest', v4) \<Rightarrow> (g # gs, rest', v4))))"

lemmas read_groups_numeral = read_groups.simps(2) [of _ "pred_numeral k" for k, folded numeral_eq_Suc]

definition read_ipv6_addr :: "rstring \<Rightarrow> (nat list \<times> rstring) option" where
  "read_ipv6_addr s =
     (case read_groups 0 8 s of
        (head, rest, head_ipv4) \<Rightarrow>
          (if length head = 8 then Some (head, rest)
           else if head_ipv4 then None
           else
             (case strip_prefix (lit ''::'') rest of
                None \<Rightarrow> None
              | Some rest \<Rightarrow>
                  (case read_groups 0 (8 - (length head + 1)) rest of
                     (tail, rest', _) \<Rightarrow>
                       Some (head @ replicate (8 - length head - length tail) 0 @ tail, rest')))))"

text \<open>\<^verbatim>\<open>str::parse::<IpAddr>\<close>.\<close>

definition parse_ip :: "rstring \<Rightarrow> ip_addr option" where
  "parse_ip s =
     (case (case read_ipv4_addr s of
              Some (vs, rest) \<Rightarrow> Some (V4 (ipv4_of_octets vs), rest)
            | None \<Rightarrow> map_option (\<lambda>(gs, rest). (V6 (map of_nat gs), rest)) (read_ipv6_addr s)) of
        Some (ip, []) \<Rightarrow> Some ip
      | _ \<Rightarrow> None)"

text \<open>Rules that evaluate the parser on a concrete text.\<close>

lemmas parse_ip_eval =
  parse_ip_def read_ipv4_addr_def read_octets_numeral read_separated_def read_number_def to_digit_def
  read_ipv6_addr_def read_groups_numeral Let_def ipv4_of_octets_def

section \<open>Classification\<close>

definition octet :: "ipv4_addr \<Rightarrow> nat \<Rightarrow> nat" where
  "octet ip i = unat ip div 2 ^ (8 * (3 - i)) mod 256"

definition v4_is_loopback :: "ipv4_addr \<Rightarrow> bool" where
  "v4_is_loopback ip \<longleftrightarrow> octet ip 0 = 127"

definition v4_is_private :: "ipv4_addr \<Rightarrow> bool" where
  "v4_is_private ip \<longleftrightarrow>
     octet ip 0 = 10 \<or> octet ip 0 = 172 \<and> 16 \<le> octet ip 1 \<and> octet ip 1 \<le> 31 \<or>
     octet ip 0 = 192 \<and> octet ip 1 = 168"

definition v4_is_link_local :: "ipv4_addr \<Rightarrow> bool" where
  "v4_is_link_local ip \<longleftrightarrow> octet ip 0 = 169 \<and> octet ip 1 = 254"

definition v4_is_unspecified :: "ipv4_addr \<Rightarrow> bool" where
  "v4_is_unspecified ip \<longleftrightarrow> ip = 0"

definition v4_is_multicast :: "ipv4_addr \<Rightarrow> bool" where
  "v4_is_multicast ip \<longleftrightarrow> 224 \<le> octet ip 0 \<and> octet ip 0 \<le> 239"

definition v4_is_broadcast :: "ipv4_addr \<Rightarrow> bool" where
  "v4_is_broadcast ip \<longleftrightarrow> ip = 0xFFFFFFFF"

definition v6_is_loopback :: "ipv6_addr \<Rightarrow> bool" where
  "v6_is_loopback segs \<longleftrightarrow> segs = [0, 0, 0, 0, 0, 0, 0, 1]"

definition v6_is_unspecified :: "ipv6_addr \<Rightarrow> bool" where
  "v6_is_unspecified segs \<longleftrightarrow> segs = [0, 0, 0, 0, 0, 0, 0, 0]"

definition v6_is_multicast :: "ipv6_addr \<Rightarrow> bool" where
  "v6_is_multicast segs \<longleftrightarrow> hd segs AND 0xFF00 = 0xFF00"

definition v6_is_unique_local :: "ipv6_addr \<Rightarrow> bool" where
  "v6_is_unique_local segs \<longleftrightarrow> hd segs AND 0xFE00 = 0xFC00"

definition v6_is_unicast_link_local :: "ipv6_addr \<Rightarrow> bool" where
  "v6_is_unicast_link_local segs \<longleftrightarrow> hd segs AND 0xFFC0 = 0xFE80"

definition v4_of_segments :: "16 word \<Rightarrow> 16 word \<Rightarrow> ipv4_addr" where
  "v4_of_segments ab cd = of_nat (unat ab * 65536 + unat cd)"

fun to_ipv4_mapped :: "ipv6_addr \<Rightarrow> ipv4_addr option" where
  "to_ipv4_mapped [a, b, c, d, e, f, ab, cd] =
     (if a = 0 \<and> b = 0 \<and> c = 0 \<and> d = 0 \<and> e = 0 \<and> f = 0xFFFF then Some (v4_of_segments ab cd) else None)"
| "to_ipv4_mapped _ = None"

fun to_ipv4 :: "ipv6_addr \<Rightarrow> ipv4_addr option" where
  "to_ipv4 [a, b, c, d, e, f, ab, cd] =
     (if a = 0 \<and> b = 0 \<and> c = 0 \<and> d = 0 \<and> e = 0 \<and> (f = 0 \<or> f = 0xFFFF)
      then Some (v4_of_segments ab cd) else None)"
| "to_ipv4 _ = None"

fun is_loopback :: "ip_addr \<Rightarrow> bool" where
  "is_loopback (V4 ip) = v4_is_loopback ip"
| "is_loopback (V6 segs) = v6_is_loopback segs"

section \<open>Ranges\<close>

text \<open>A block of addresses: the first address and the length of the prefix.\<close>

definition in_block :: "nat list \<times> nat \<Rightarrow> ipv4_addr \<Rightarrow> bool" where
  "in_block blk ip \<longleftrightarrow>
     (let base = foldl (\<lambda>acc v. acc * 256 + v) 0 (fst blk) in
      base \<le> unat ip \<and> unat ip < base + 2 ^ (32 - snd blk))"

lemma unat_ip_bound: "unat (ip :: ipv4_addr) < 4294967296"
  using unsigned_less [of ip] by simp

lemma octet_0: "octet ip 0 = unat ip div 16777216"
  using unat_ip_bound [of ip] by (simp add: octet_def div_less_iff_less_mult)

lemma first_two_octets: "octet ip 0 = unat ip div 65536 div 256" "octet ip (Suc 0) = unat ip div 65536 mod 256"
  by (simp_all only: octet_0) (simp_all add: octet_def div_mult2_eq [symmetric])

lemma two_octets_eq: "(h :: nat) div 256 = a \<and> h mod 256 = b \<longleftrightarrow> b < 256 \<and> h = 256 * a + b"
  by auto

lemma two_octets_range:
  assumes "hi < 256"
  shows "(h :: nat) div 256 = a \<and> lo \<le> h mod 256 \<and> h mod 256 \<le> hi \<longleftrightarrow> 256 * a + lo \<le> h \<and> h \<le> 256 * a + hi"
proof (rule iffI; elim conjE)
  assume "256 * a + lo \<le> h" "h \<le> 256 * a + hi"
  then obtain r where "h = 256 * a + r" "lo \<le> r" "r \<le> hi"
    using le_Suc_ex by (metis add_leD1 add_le_cancel_left)
  then show "h div 256 = a \<and> lo \<le> h mod 256 \<and> h mod 256 \<le> hi"
    using assms by simp
qed (use div_mult_mod_eq [of h 256] in linarith)

lemmas block_simps = in_block_def Let_def octet_0

lemma loopback_block: "v4_is_loopback ip \<longleftrightarrow> in_block ([127, 0, 0, 0], 8) ip"
  by (simp add: v4_is_loopback_def block_simps) linarith

lemma link_local_block: "v4_is_link_local ip \<longleftrightarrow> in_block ([169, 254, 0, 0], 16) ip"
  by (simp add: v4_is_link_local_def first_two_octets two_octets_eq in_block_def) linarith

lemma multicast_block: "v4_is_multicast ip \<longleftrightarrow> in_block ([224, 0, 0, 0], 4) ip"
  by (simp add: v4_is_multicast_def block_simps) linarith

lemma private_blocks:
  "v4_is_private ip \<longleftrightarrow>
     in_block ([10, 0, 0, 0], 8) ip \<or> in_block ([172, 16, 0, 0], 12) ip \<or> in_block ([192, 168, 0, 0], 16) ip"
proof -
  have "octet ip 0 = 10 \<longleftrightarrow> in_block ([10, 0, 0, 0], 8) ip"
    by (simp add: block_simps) linarith
  moreover have "octet ip 0 = 172 \<and> 16 \<le> octet ip 1 \<and> octet ip 1 \<le> 31 \<longleftrightarrow> in_block ([172, 16, 0, 0], 12) ip"
    by (simp add: first_two_octets two_octets_range in_block_def) linarith
  moreover have "octet ip 0 = 192 \<and> octet ip 1 = 168 \<longleftrightarrow> in_block ([192, 168, 0, 0], 16) ip"
    by (simp add: first_two_octets two_octets_eq in_block_def) linarith
  ultimately show ?thesis
    by (simp add: v4_is_private_def)
qed

lemma unspecified_block: "v4_is_unspecified ip \<longleftrightarrow> in_block ([0, 0, 0, 0], 32) ip"
  by (simp add: v4_is_unspecified_def in_block_def unat_eq_0)

lemma broadcast_block: "v4_is_broadcast ip \<longleftrightarrow> in_block ([255, 255, 255, 255], 32) ip"
  using unat_ip_bound [of ip] by (auto simp: v4_is_broadcast_def in_block_def word_unat_eq_iff)

end
