(* ===== verification/Domain_Policy.thy ===== *)
theory Domain_Policy
  imports Ip_Addresses
begin

text \<open>
  The host policy of the network proxy (\<^verbatim>\<open>crates/network-proxy/src/policy.rs\<close>): normalisation of
  hosts and patterns, the classification of addresses that are not publicly routable, the domain
  patterns with the comparison used for managed constraints, and the set of globs a list of patterns
  compiles to.

  Two libraries are parameters.  The glob crate is a function from a pattern to its matcher, \<^const>\<open>None\<close>
  for a pattern it rejects; the host parser of the URL crate is a function from a host to its
  printed form.
\<close>

section \<open>Hosts\<close>

definition trim_end_matches :: "(rchar \<Rightarrow> bool) \<Rightarrow> rstring \<Rightarrow> rstring" where
  "trim_end_matches p s = rev (dropWhile p (rev s))"

definition normalize_dns_host :: "rstring \<Rightarrow> rstring" where
  "normalize_dns_host host = trim_end_matches (\<lambda>c. c = 46) (to_ascii_lowercase host)"

definition normalize_host :: "rstring \<Rightarrow> rstring" where
  "normalize_host input =
     (let host = trim input;
          unbracketed =
            (if length (filter (\<lambda>c. c = 58) host) = 1
             then normalize_dns_host (hd (split_on 58 host))
             else normalize_dns_host host)
      in if starts_with [91] host
         then (case position (\<lambda>c. c = 93) host of
                 Some close \<Rightarrow> normalize_dns_host (take (close - 1) (drop 1 host))
               | None \<Rightarrow> unbracketed)
         else unbracketed)"

text \<open>\<^verbatim>\<open>Host::parse\<close>; a \<^verbatim>\<open>Host\<close> is its normalised string.\<close>

definition host_parse :: "rstring \<Rightarrow> rstring option" where
  "host_parse input =
     (let normalized = normalize_host input in if normalized = [] then None else Some normalized)"

text \<open>\<^verbatim>\<open>host.split_once('%').map(|(ip, _)| ip).unwrap_or(host)\<close>.\<close>

definition without_scope :: "rstring \<Rightarrow> rstring" where
  "without_scope host = takeWhile (\<lambda>c. c \<noteq> 37) host"

definition is_loopback_host :: "rstring \<Rightarrow> bool" where
  "is_loopback_host host =
     (let host = without_scope host in
      if host = lit ''localhost'' then True
      else (case parse_ip host of Some ip \<Rightarrow> is_loopback ip | None \<Rightarrow> False))"

section \<open>Addresses that are not public\<close>

definition ipv4_in_cidr :: "ipv4_addr \<Rightarrow> nat list \<Rightarrow> nat \<Rightarrow> bool" where
  "ipv4_in_cidr ip base pfx =
     (let base = ipv4_of_octets base;
          mask = (if pfx = 0 then 0 else push_bit (32 - pfx) (0xFFFFFFFF :: 32 word))
      in ip AND mask = base AND mask)"

definition is_non_public_ipv4 :: "ipv4_addr \<Rightarrow> bool" where
  "is_non_public_ipv4 ip \<longleftrightarrow>
     v4_is_loopback ip \<or> v4_is_private ip \<or> v4_is_link_local ip \<or> v4_is_unspecified ip \<or>
     v4_is_multicast ip \<or> v4_is_broadcast ip \<or>
     ipv4_in_cidr ip [0, 0, 0, 0] 8 \<or> ipv4_in_cidr ip [100, 64, 0, 0] 10 \<or>
     ipv4_in_cidr ip [192, 0, 0, 0] 24 \<or> ipv4_in_cidr ip [192, 0, 2, 0] 24 \<or>
     ipv4_in_cidr ip [198, 18, 0, 0] 15 \<or> ipv4_in_cidr ip [198, 51, 100, 0] 24 \<or>
     ipv4_in_cidr ip [203, 0, 113, 0] 24 \<or> ipv4_in_cidr ip [240, 0, 0, 0] 4"

definition is_non_public_ipv6 :: "ipv6_addr \<Rightarrow> bool" where
  "is_non_public_ipv6 ip =
     (case to_ipv4 ip of
        Some v4 \<Rightarrow> is_non_public_ipv4 v4 \<or> v6_is_loopback ip
      | None \<Rightarrow>
          v6_is_loopback ip \<or> v6_is_unspecified ip \<or> v6_is_multicast ip \<or> v6_is_unique_local ip \<or>
          v6_is_unicast_link_local ip)"

fun is_non_public_ip :: "ip_addr \<Rightarrow> bool" where
  "is_non_public_ip (V4 ip) = is_non_public_ipv4 ip"
| "is_non_public_ip (V6 ip) = is_non_public_ipv6 ip"

text \<open>
  The address blocks meant, by their registries: an independent account of the same classification.
  An IPv6 address is read by its leading bits, an embedded IPv4 address by that address.
\<close>

definition non_public_blocks :: "(nat list \<times> nat) list" where
  "non_public_blocks =
     [([0, 0, 0, 0], 8), ([10, 0, 0, 0], 8), ([100, 64, 0, 0], 10), ([127, 0, 0, 0], 8),
      ([169, 254, 0, 0], 16), ([172, 16, 0, 0], 12), ([192, 0, 0, 0], 24), ([192, 0, 2, 0], 24),
      ([192, 168, 0, 0], 16), ([198, 18, 0, 0], 15), ([198, 51, 100, 0], 24), ([203, 0, 113, 0], 24),
      ([224, 0, 0, 0], 4), ([240, 0, 0, 0], 4)]"

definition public_v4 :: "ipv4_addr \<Rightarrow> bool" where
  "public_v4 ip \<longleftrightarrow> list_all (\<lambda>blk. \<not> in_block blk ip) non_public_blocks"

fun public_ip :: "ip_addr \<Rightarrow> bool" where
  "public_ip (V4 ip) = public_v4 ip"
| "public_ip (V6 segs) =
     (case to_ipv4 segs of
        Some v4 \<Rightarrow> public_v4 v4
      | None \<Rightarrow>
          (let s = unat (hd segs) in
           \<not> (0xFC00 \<le> s \<and> s < 0xFE00) \<and> \<not> (0xFE80 \<le> s \<and> s < 0xFEC0) \<and> \<not> (0xFF00 \<le> s)))"

section \<open>Domain patterns\<close>

definition normalize_pattern :: "rstring \<Rightarrow> rstring" where
  "normalize_pattern input =
     (let pattern = trim input in
      if pattern = lit ''*'' then lit ''*''
      else (case strip_prefix (lit ''**.'') pattern of
              Some domain \<Rightarrow> lit ''**.'' @ normalize_host domain
            | None \<Rightarrow>
                (case strip_prefix (lit ''*.'') pattern of
                   Some domain \<Rightarrow> lit ''*.'' @ normalize_host domain
                 | None \<Rightarrow> normalize_host pattern)))"

datatype domain_pattern = AnyHost | ApexAndSubdomains rstring | SubdomainsOnly rstring | Exact rstring

definition parse_domain :: "rstring \<Rightarrow> (rstring \<Rightarrow> domain_pattern) \<Rightarrow> domain_pattern" where
  "parse_domain input build = (let domain = trim input in if domain = [] then Exact [] else build domain)"

definition pattern_parse :: "rstring \<Rightarrow> domain_pattern" where
  "pattern_parse input =
     (let input = trim input in
      if input = [] then Exact []
      else if input = lit ''*'' then AnyHost
      else (case strip_prefix (lit ''**.'') input of
              Some domain \<Rightarrow> parse_domain domain ApexAndSubdomains
            | None \<Rightarrow>
                (case strip_prefix (lit ''*.'') input of
                   Some domain \<Rightarrow> parse_domain domain SubdomainsOnly
                 | None \<Rightarrow> Exact input)))"

definition parse_domain_for_constraints :: "(rstring \<Rightarrow> rstring option) \<Rightarrow> rstring \<Rightarrow> rstring" where
  "parse_domain_for_constraints url_host input =
     (let domain = trim_end_matches (\<lambda>c. c = 46) (trim input) in
      if domain = [] then []
      else
        (let host = (if starts_with [91] domain \<and> ends_with [93] domain
                     then take (length domain - 2) (drop 1 domain) else domain)
         in if 42 \<in> set host \<or> 63 \<in> set host \<or> 37 \<in> set host then domain
            else (case url_host host of Some h \<Rightarrow> h | None \<Rightarrow> [])))"

definition parse_for_constraints :: "(rstring \<Rightarrow> rstring option) \<Rightarrow> rstring \<Rightarrow> domain_pattern" where
  "parse_for_constraints url_host input =
     (let input = trim input in
      if input = [] then Exact []
      else if input = lit ''*'' then AnyHost
      else (case strip_prefix (lit ''**.'') input of
              Some domain \<Rightarrow> ApexAndSubdomains (parse_domain_for_constraints url_host domain)
            | None \<Rightarrow>
                (case strip_prefix (lit ''*.'') input of
                   Some domain \<Rightarrow> SubdomainsOnly (parse_domain_for_constraints url_host domain)
                 | None \<Rightarrow> Exact (parse_domain_for_constraints url_host input))))"

definition normalize_domain :: "rstring \<Rightarrow> rstring" where
  "normalize_domain domain = to_ascii_lowercase (trim_end_matches (\<lambda>c. c = 46) domain)"

definition domain_eq :: "rstring \<Rightarrow> rstring \<Rightarrow> bool" where
  "domain_eq left right \<longleftrightarrow> normalize_domain left = normalize_domain right"

definition is_subdomain_or_equal :: "rstring \<Rightarrow> rstring \<Rightarrow> bool" where
  "is_subdomain_or_equal child parent =
     (let child = normalize_domain child; parent = normalize_domain parent in
      if child = parent then True else ends_with (46 # parent) child)"

definition is_strict_subdomain :: "rstring \<Rightarrow> rstring \<Rightarrow> bool" where
  "is_strict_subdomain child parent =
     (let child = normalize_domain child; parent = normalize_domain parent in
      child \<noteq> parent \<and> ends_with (46 # parent) child)"

fun allows :: "domain_pattern \<Rightarrow> domain_pattern \<Rightarrow> bool" where
  "allows AnyHost candidate = True"
| "allows (Exact domain) candidate =
     (case candidate of Exact c \<Rightarrow> domain_eq c domain | _ \<Rightarrow> False)"
| "allows (SubdomainsOnly domain) candidate =
     (case candidate of
        AnyHost \<Rightarrow> False
      | Exact c \<Rightarrow> is_strict_subdomain c domain
      | SubdomainsOnly c \<Rightarrow> is_subdomain_or_equal c domain
      | ApexAndSubdomains c \<Rightarrow> is_strict_subdomain c domain)"
| "allows (ApexAndSubdomains domain) candidate =
     (case candidate of
        AnyHost \<Rightarrow> False
      | Exact c \<Rightarrow> is_subdomain_or_equal c domain
      | SubdomainsOnly c \<Rightarrow> is_subdomain_or_equal c domain
      | ApexAndSubdomains c \<Rightarrow> is_subdomain_or_equal c domain)"

section \<open>Glob sets\<close>

type_synonym glob_set = "rstring list"

record glob_crate =
  glob :: "rstring \<Rightarrow> (rstring \<Rightarrow> bool) option"
  set_builds :: "glob_set \<Rightarrow> bool"

datatype glob_error = InvalidGlob rstring | SetNotBuilt

definition expand_domain_pattern :: "rstring \<Rightarrow> rstring list" where
  "expand_domain_pattern pattern =
     (case pattern_parse pattern of
        AnyHost \<Rightarrow> [pattern]
      | Exact domain \<Rightarrow> [domain]
      | SubdomainsOnly domain \<Rightarrow> [lit ''?*.'' @ domain]
      | ApexAndSubdomains domain \<Rightarrow> [domain, lit ''?*.'' @ domain])"

text \<open>The inner loop: candidates seen before are skipped, a pattern the crate rejects is an error.\<close>

fun add_globs :: "glob_crate \<Rightarrow> glob_set \<Rightarrow> rstring list \<Rightarrow> (glob_error, glob_set) result" where
  "add_globs crate seen [] = Ok seen"
| "add_globs crate seen (candidate # candidates) =
     (if candidate \<in> set seen then add_globs crate seen candidates
      else (case glob crate candidate of
              None \<Rightarrow> Err (InvalidGlob candidate)
            | Some _ \<Rightarrow> add_globs crate (seen @ [candidate]) candidates))"

definition compile_globset :: "glob_crate \<Rightarrow> rstring list \<Rightarrow> (glob_error, glob_set) result" where
  "compile_globset crate patterns =
     and_then
       (add_globs crate [] (concat (map (\<lambda>p. expand_domain_pattern (normalize_pattern p)) patterns)))
       (\<lambda>globs. if set_builds crate globs then Ok globs else Err SetNotBuilt)"

definition glob_hits :: "glob_crate \<Rightarrow> rstring \<Rightarrow> rstring \<Rightarrow> bool" where
  "glob_hits crate g h = (case glob crate g of Some m \<Rightarrow> m h | None \<Rightarrow> False)"

definition is_match :: "glob_crate \<Rightarrow> glob_set \<Rightarrow> rstring \<Rightarrow> bool" where
  "is_match crate globs host \<longleftrightarrow> list_ex (\<lambda>g. glob_hits crate g host) globs"

section \<open>The classification is the one by blocks\<close>

lemma and_high_mask: "w AND push_bit k (- 1) = push_bit k (drop_bit k (w :: 'a :: len word))"
  by (rule bit_eqI) (auto simp: bit_simps)

lemma drop_push_drop: "drop_bit k (push_bit k (drop_bit k w)) = drop_bit k (w :: 'a :: len word)"
  by (rule bit_eqI) (auto simp: bit_simps dest: bit_imp_le_length)

lemma high_mask_eq:
  "a AND push_bit k (- 1) = b AND push_bit k (- 1) \<longleftrightarrow> unat a div 2 ^ k = unat (b :: 'a :: len word) div 2 ^ k"
proof -
  have "push_bit k (drop_bit k a) = push_bit k (drop_bit k b) \<longleftrightarrow> drop_bit k a = drop_bit k b"
    by (metis drop_push_drop)
  then show ?thesis
    unfolding and_high_mask by (simp add: word_unat_eq_iff [of "drop_bit k a"] unat_drop_bit_eq drop_bit_eq_div [where 'a = nat])
qed

lemma div_eq_multiple:
  assumes "0 < k" "k dvd b"
  shows "n div k = b div k \<longleftrightarrow> b \<le> n \<and> n < b + (k :: nat)"
proof -
  obtain q where b: "b = k * q"
    using assms by (auto elim: dvdE)
  have "n div k = q \<longleftrightarrow> k * q \<le> n \<and> n < k * q + k"
    using assms div_nat_eqI [of k q n] times_div_less_eq_dividend [of k n] dividend_less_times_div [of k n] by auto
  then show ?thesis
    using assms b by simp
qed

lemma cidr_block:
  assumes "b = foldl (\<lambda>acc v. acc * 256 + v) 0 base" "b < 4294967296" "2 ^ (32 - pfx) dvd b" "0 < pfx"
  shows "ipv4_in_cidr ip base pfx \<longleftrightarrow> in_block (base, pfx) ip"
proof -
  have mask: "(0xFFFFFFFF :: 32 word) = - 1"
    by simp
  have b: "unat (ipv4_of_octets base) = b"
    using assms by (simp add: ipv4_of_octets_def unat_of_nat take_bit_nat_eq_self)
  have "ipv4_in_cidr ip base pfx \<longleftrightarrow> unat ip div 2 ^ (32 - pfx) = b div 2 ^ (32 - pfx)"
    using assms(4) b unfolding ipv4_in_cidr_def mask
    by (simp add: Let_def high_mask_eq del: push_bit_minus_one_eq_not_mask)
  also have "\<dots> \<longleftrightarrow> b \<le> unat ip \<and> unat ip < b + 2 ^ (32 - pfx)"
    using assms(3) by (simp add: div_eq_multiple)
  finally show ?thesis
    using assms(1) by (simp add: in_block_def Let_def)
qed

lemma non_public_v4_blocks: "is_non_public_ipv4 ip \<longleftrightarrow> \<not> public_v4 ip"
proof -
  have cidrs:
    "ipv4_in_cidr ip [0, 0, 0, 0] 8 = in_block ([0, 0, 0, 0], 8) ip"
    "ipv4_in_cidr ip [100, 64, 0, 0] 10 = in_block ([100, 64, 0, 0], 10) ip"
    "ipv4_in_cidr ip [192, 0, 0, 0] 24 = in_block ([192, 0, 0, 0], 24) ip"
    "ipv4_in_cidr ip [192, 0, 2, 0] 24 = in_block ([192, 0, 2, 0], 24) ip"
    "ipv4_in_cidr ip [198, 18, 0, 0] 15 = in_block ([198, 18, 0, 0], 15) ip"
    "ipv4_in_cidr ip [198, 51, 100, 0] 24 = in_block ([198, 51, 100, 0], 24) ip"
    "ipv4_in_cidr ip [203, 0, 113, 0] 24 = in_block ([203, 0, 113, 0], 24) ip"
    "ipv4_in_cidr ip [240, 0, 0, 0] 4 = in_block ([240, 0, 0, 0], 4) ip"
    by (rule cidr_block [OF refl]; simp)+
  have inside:
    "in_block ([0, 0, 0, 0], 32) ip \<Longrightarrow> in_block ([0, 0, 0, 0], 8) ip"
    "in_block ([255, 255, 255, 255], 32) ip \<Longrightarrow> in_block ([240, 0, 0, 0], 4) ip"
    by (simp_all add: in_block_def)
  show ?thesis
    using inside list.pred_inject(1) [of "\<lambda>blk. \<not> in_block blk ip"]
    unfolding is_non_public_ipv4_def public_v4_def non_public_blocks_def cidrs loopback_block private_blocks
      link_local_block unspecified_block multicast_block broadcast_block list.pred_inject(2)
    by blast
qed

lemma leading_bits:
  fixes w :: "16 word"
  shows "w AND 0xFF00 = 0xFF00 \<longleftrightarrow> 0xFF00 \<le> unat w"
    "w AND 0xFE00 = 0xFC00 \<longleftrightarrow> 0xFC00 \<le> unat w \<and> unat w < 0xFE00"
    "w AND 0xFFC0 = 0xFE80 \<longleftrightarrow> 0xFE80 \<le> unat w \<and> unat w < 0xFEC0"
proof -
  have w: "unat w < 65536"
    using unsigned_less [of w] by simp
  have masks: "(0xFF00 :: 16 word) = push_bit 8 (- 1)" "(0xFE00 :: 16 word) = push_bit 9 (- 1)"
    "(0xFFC0 :: 16 word) = push_bit 6 (- 1)"
    by (simp_all add: mask_eq_exp_minus_1 not_eq_complement)
  show "w AND 0xFF00 = 0xFF00 \<longleftrightarrow> 0xFF00 \<le> unat w"
    using high_mask_eq [of w 8 "0xFF00"] w unfolding masks [symmetric] by simp linarith
  show "w AND 0xFE00 = 0xFC00 \<longleftrightarrow> 0xFC00 \<le> unat w \<and> unat w < 0xFE00"
    using high_mask_eq [of w 9 "0xFC00"] unfolding masks [symmetric] by simp linarith
  show "w AND 0xFFC0 = 0xFE80 \<longleftrightarrow> 0xFE80 \<le> unat w \<and> unat w < 0xFEC0"
    using high_mask_eq [of w 6 "0xFE80"] unfolding masks [symmetric] by simp linarith
qed

theorem non_public_is_the_blocks: "is_non_public_ip ip \<longleftrightarrow> \<not> public_ip ip"
proof (cases ip)
  case (V4 a)
  then show ?thesis
    by (simp add: non_public_v4_blocks)
next
  case (V6 segs)
  have "\<not> public_v4 1"
    by (simp add: public_v4_def non_public_blocks_def in_block_def)
  then have "v6_is_loopback segs \<Longrightarrow> \<exists>v4. to_ipv4 segs = Some v4 \<and> \<not> public_v4 v4"
    by (simp add: v6_is_loopback_def v4_of_segments_def)
  moreover have "v6_is_unspecified segs \<Longrightarrow> \<exists>v4. to_ipv4 segs = Some v4"
    by (simp add: v6_is_unspecified_def)
  ultimately show ?thesis
    using V6
    by (auto simp: is_non_public_ipv6_def non_public_v4_blocks v6_is_multicast_def v6_is_unique_local_def
        v6_is_unicast_link_local_def leading_bits Let_def split: option.splits)
qed

section \<open>What a pattern means\<close>

text \<open>
  The documented reading of a pattern on a host, and the entries of a configuration by what they are
  meant to say: a domain with the wildcard prefix of its kind.
\<close>

fun covers :: "domain_pattern \<Rightarrow> rstring \<Rightarrow> bool" where
  "covers AnyHost h = True"
| "covers (Exact d) h = eq_ignore_ascii_case h d"
| "covers (SubdomainsOnly d) h =
     (ends_with (46 # to_ascii_lowercase d) (to_ascii_lowercase h) \<and> length d + 1 < length h)"
| "covers (ApexAndSubdomains d) h = (eq_ignore_ascii_case h d \<or>
      ends_with (46 # to_ascii_lowercase d) (to_ascii_lowercase h) \<and> length d + 1 < length h)"

fun entry_text :: "domain_pattern \<Rightarrow> rstring" where
  "entry_text AnyHost = lit ''*''"
| "entry_text (Exact d) = d"
| "entry_text (SubdomainsOnly d) = lit ''*.'' @ d"
| "entry_text (ApexAndSubdomains d) = lit ''**.'' @ d"

definition plain_char :: "rchar \<Rightarrow> bool" where
  "plain_char c \<longleftrightarrow> 48 \<le> c \<and> c \<le> 57 \<or> 65 \<le> c \<and> c \<le> 90 \<or> 97 \<le> c \<and> c \<le> 122 \<or> c = 45 \<or> c = 46 \<or> c = 95"

definition plain_domain :: "rstring \<Rightarrow> bool" where
  "plain_domain d \<longleftrightarrow> d \<noteq> [] \<and> list_all plain_char d \<and> hd d \<noteq> 46 \<and> last d \<noteq> 46"

fun pattern_domains :: "domain_pattern \<Rightarrow> rstring list" where
  "pattern_domains AnyHost = []"
| "pattern_domains (Exact d) = [d]"
| "pattern_domains (SubdomainsOnly d) = [d]"
| "pattern_domains (ApexAndSubdomains d) = [d]"

fun lower_pattern :: "domain_pattern \<Rightarrow> domain_pattern" where
  "lower_pattern AnyHost = AnyHost"
| "lower_pattern (Exact d) = Exact (to_ascii_lowercase d)"
| "lower_pattern (SubdomainsOnly d) = SubdomainsOnly (to_ascii_lowercase d)"
| "lower_pattern (ApexAndSubdomains d) = ApexAndSubdomains (to_ascii_lowercase d)"

definition plain_pattern :: "domain_pattern \<Rightarrow> bool" where
  "plain_pattern p = list_all plain_domain (pattern_domains p)"

text \<open>Documented behaviour of the two libraries on plain domains.\<close>

definition glob_documented :: "glob_crate \<Rightarrow> bool" where
  "glob_documented crate \<longleftrightarrow>
     (\<forall>d. plain_domain d \<longrightarrow>
        (\<exists>m. glob crate d = Some m \<and> (\<forall>h. m h \<longleftrightarrow> covers (Exact d) h)) \<and>
        (\<exists>m. glob crate (lit ''?*.'' @ d) = Some m \<and> (\<forall>h. m h \<longleftrightarrow> covers (SubdomainsOnly d) h))) \<and>
     (\<exists>m. glob crate (lit ''*'') = Some m \<and> (\<forall>h. m h))"

definition url_keeps :: "(rstring \<Rightarrow> rstring option) \<Rightarrow> rstring \<Rightarrow> bool" where
  "url_keeps url_host d \<longleftrightarrow> url_host d = Some (to_ascii_lowercase d)"

lemma plain_not_space: "plain_char c \<Longrightarrow> \<not> is_whitespace c"
  by (auto simp: plain_char_def is_whitespace_def)

lemma plain_domain_chars:
  assumes "plain_domain d"
  shows "d \<noteq> []" "\<not> is_whitespace (hd d)" "\<not> is_whitespace (last d)" "hd d \<noteq> 46" "last d \<noteq> 46"
    "\<forall>c \<in> set d. plain_char c"
  using assms by (auto simp: plain_domain_def list_all_iff plain_not_space)

lemma plain_no_meta:
  assumes "plain_domain d" "\<not> plain_char c"
  shows "c \<notin> set d"
  using plain_domain_chars(6) [OF assms(1)] assms(2) by auto

lemma lower_char_plain: "plain_char c \<Longrightarrow> plain_char (to_ascii_lowercase_char c)"
  by (auto simp: plain_char_def to_ascii_lowercase_char_def)

lemma lower_char_dot: "to_ascii_lowercase_char c = 46 \<longleftrightarrow> c = 46"
  by (auto simp: to_ascii_lowercase_char_def)

lemma lower_idem [simp]: "to_ascii_lowercase (to_ascii_lowercase s) = to_ascii_lowercase s"
  by (auto simp: to_ascii_lowercase_def to_ascii_lowercase_char_def)

lemma length_lower [simp]: "length (to_ascii_lowercase s) = length s"
  by (simp add: to_ascii_lowercase_def)

lemma plain_domain_lower: "plain_domain d \<Longrightarrow> plain_domain (to_ascii_lowercase d)"
  by (auto simp: plain_domain_def to_ascii_lowercase_def list_all_iff lower_char_plain lower_char_dot hd_map last_map)

lemma trim_plain: "plain_domain d \<Longrightarrow> trim d = d"
  using plain_domain_chars by (simp add: trim_fixpoint)

lemma trim_dots_plain: "plain_domain d \<Longrightarrow> trim_end_matches (\<lambda>c. c = 46) d = d"
  using plain_domain_chars(1,5) [of d]
  by (cases d rule: rev_cases) (auto simp: trim_end_matches_def)

lemma normalize_host_plain:
  assumes d: "plain_domain d"
  shows "normalize_host d = to_ascii_lowercase d"
proof -
  have "\<not> starts_with [91] d" "filter (\<lambda>c. c = 58) d = []"
    using plain_no_meta [OF d, of 91] plain_no_meta [OF d, of 58]
    by (auto simp: plain_char_def starts_with_iff prefix_def filter_empty_conv)
  then show ?thesis
    using d by (simp add: normalize_host_def Let_def trim_plain normalize_dns_host_def trim_dots_plain plain_domain_lower)
qed

lemma normalize_domain_plain: "plain_domain d \<Longrightarrow> normalize_domain d = to_ascii_lowercase d"
  by (simp add: normalize_domain_def trim_dots_plain)

lemma plain_pattern_simps [simp]:
  "plain_pattern AnyHost"
  "plain_pattern (Exact d) = plain_domain d"
  "plain_pattern (SubdomainsOnly d) = plain_domain d"
  "plain_pattern (ApexAndSubdomains d) = plain_domain d"
  by (simp_all add: plain_pattern_def)

lemma plain_no_star:
  assumes "plain_domain d"
  shows "strip_prefix (42 # p) d = None" "d \<noteq> [42]" "d \<noteq> []"
  using plain_no_meta [OF assms, of 42] plain_domain_chars(1) [OF assms]
  by (cases d; auto simp: plain_char_def)+

lemma trim_starred: "plain_domain d \<Longrightarrow> trim (42 # s @ d) = 42 # s @ d"
  using plain_domain_chars(1,3) [of d] by (intro trim_fixpoint) (auto simp: is_whitespace_def)

lemma trim_star_dot [simp]: "plain_domain d \<Longrightarrow> trim (42 # 46 # d) = 42 # 46 # d"
  "plain_domain d \<Longrightarrow> trim (42 # 42 # 46 # d) = 42 # 42 # 46 # d" "trim [42] = [42]"
  using trim_starred [of d "[46]"] trim_starred [of d "[42, 46]"]
  by (simp_all add: trim_def trim_start_def trim_end_def is_whitespace_def)

lemmas entry_simps = Let_def trim_plain plain_no_star normalize_host_plain plain_domain_lower

lemma normalize_entry: "plain_pattern p \<Longrightarrow> normalize_pattern (entry_text p) = entry_text (lower_pattern p)"
  by (cases p) (simp_all add: normalize_pattern_def entry_simps)

lemma parse_entry: "plain_pattern p \<Longrightarrow> pattern_parse (entry_text p) = p"
  by (cases p) (simp_all add: pattern_parse_def parse_domain_def entry_simps)

lemma plain_lower: "plain_pattern p \<Longrightarrow> plain_pattern (lower_pattern p)"
  by (cases p) (simp_all add: plain_domain_lower)

lemma covers_lower [simp]: "covers (lower_pattern p) h = covers p h"
  by (cases p) (simp_all add: eq_ignore_ascii_case_def)

lemma parse_domain_for_constraints_plain:
  assumes d: "plain_domain d" and u: "url_keeps url_host d"
  shows "parse_domain_for_constraints url_host d = to_ascii_lowercase d"
proof -
  have "91 \<notin> set d" "42 \<notin> set d" "63 \<notin> set d" "37 \<notin> set d"
    using plain_no_meta [OF d] by (simp_all add: plain_char_def)
  moreover from this have "\<not> starts_with [91] d"
    by (auto simp: starts_with_iff prefix_def)
  ultimately show ?thesis
    using d u by (simp add: parse_domain_for_constraints_def entry_simps trim_dots_plain url_keeps_def)
qed

lemma parse_for_constraints_entry:
  assumes "plain_pattern p" "list_all (url_keeps url_host) (pattern_domains p)"
  shows "parse_for_constraints url_host (entry_text p) = lower_pattern p"
  using assms by (cases p) (simp_all add: parse_for_constraints_def entry_simps parse_domain_for_constraints_plain)

lemma add_globs_Ok: "add_globs crate seen cs = Inr gs \<Longrightarrow> set gs = set seen \<union> set cs"
  by (induction crate seen cs rule: add_globs.induct) (auto split: if_splits option.splits)

lemma compile_globset_Ok:
  assumes "compile_globset crate patterns = Inr gs"
  shows "set gs = (\<Union>p \<in> set patterns. set (expand_domain_pattern (normalize_pattern p)))"
proof -
  from assms have "add_globs crate [] (concat (map (\<lambda>p. expand_domain_pattern (normalize_pattern p)) patterns)) = Inr gs"
    by (simp add: compile_globset_def and_then_eq_Inr split: if_splits)
  from add_globs_Ok [OF this] show ?thesis
    by simp
qed

lemma documented_hits:
  assumes "glob_documented crate"
  shows "glob_hits crate (lit ''*'') h"
    "plain_domain d \<Longrightarrow> glob_hits crate d h = covers (Exact d) h"
    "plain_domain d \<Longrightarrow> glob_hits crate (lit ''?*.'' @ d) h = covers (SubdomainsOnly d) h"
  using assms unfolding glob_documented_def glob_hits_def by (metis option.simps(5))+

lemma expand_matches:
  assumes "glob_documented crate" "plain_pattern p"
  shows "list_ex (\<lambda>g. glob_hits crate g h) (expand_domain_pattern (entry_text p)) = covers p h"
  using assms(2) documented_hits [OF assms(1)] parse_entry [OF assms(2)]
  by (cases p) (simp_all add: expand_domain_pattern_def del: lit_Cons)

lemma compiled_matches:
  assumes doc: "glob_documented crate" and plain: "list_all plain_pattern ps"
    and ok: "compile_globset crate (map entry_text ps) = Inr gs"
  shows "is_match crate gs h \<longleftrightarrow> list_ex (\<lambda>p. covers p h) ps"
proof -
  let ?f = "\<lambda>p. expand_domain_pattern (normalize_pattern (entry_text p))"
  have "set gs = (\<Union>p \<in> set ps. set (?f p))"
    using compile_globset_Ok [OF ok] by simp
  then have "is_match crate gs h \<longleftrightarrow>
      (\<exists>p \<in> set ps. list_ex (\<lambda>g. glob_hits crate g h) (?f p))"
    by (auto simp: is_match_def list_ex_iff glob_hits_def)
  also have "\<dots> \<longleftrightarrow> (\<exists>p \<in> set ps. covers p h)"
    using plain expand_matches [OF doc plain_lower] by (auto simp: list_all_iff normalize_entry)
  finally show ?thesis
    by (simp add: list_ex_iff)
qed

section \<open>The comparison of patterns is sound\<close>

lemma plain_suffix_longer:
  assumes "plain_domain c" "ends_with (46 # to_ascii_lowercase m) (to_ascii_lowercase c)"
  shows "length m + 1 < length c"
proof -
  from assms(2) obtain q where q: "to_ascii_lowercase c = q @ 46 # to_ascii_lowercase m"
    by (auto simp: ends_with_iff suffix_def)
  then have "length c = length q + 1 + length m"
    by (metis add.assoc length_Cons length_append length_lower plus_1_eq_Suc)
  moreover have "q \<noteq> []"
    using q plain_domain_chars(4) [OF plain_domain_lower [OF assms(1)]] by auto
  ultimately show ?thesis
    by (cases q) auto
qed

lemma ends_with_trans_dot:
  "ends_with (46 # c) h \<Longrightarrow> ends_with (46 # m) c \<Longrightarrow> ends_with (46 # m) h"
  by (auto simp: ends_with_iff suffix_def)

lemma strict_subdomain_plain:
  "plain_domain c \<Longrightarrow> plain_domain m \<Longrightarrow>
     is_strict_subdomain c m \<longleftrightarrow> ends_with (46 # to_ascii_lowercase m) (to_ascii_lowercase c)"
  using plain_suffix_longer [of c m]
  by (auto simp: is_strict_subdomain_def normalize_domain_plain Let_def dest: arg_cong [of _ _ length])

lemma subdomain_or_equal_plain:
  "plain_domain c \<Longrightarrow> plain_domain m \<Longrightarrow>
     is_subdomain_or_equal c m \<longleftrightarrow> eq_ignore_ascii_case c m \<or> is_strict_subdomain c m"
  by (auto simp: is_subdomain_or_equal_def is_strict_subdomain_def normalize_domain_plain Let_def eq_ignore_ascii_case_def)

lemma eq_ignore_length: "eq_ignore_ascii_case a b \<Longrightarrow> length a = length b"
  unfolding eq_ignore_ascii_case_def by (metis length_lower)

lemma exact_below:
  "plain_domain c \<Longrightarrow> plain_domain m \<Longrightarrow> is_strict_subdomain c m \<Longrightarrow> covers (Exact c) h \<Longrightarrow>
     covers (SubdomainsOnly m) h"
  using plain_suffix_longer [of c m] eq_ignore_length [of h c]
  by (simp add: strict_subdomain_plain eq_ignore_ascii_case_def)

lemma below_below:
  "plain_domain c \<Longrightarrow> plain_domain m \<Longrightarrow> is_strict_subdomain c m \<Longrightarrow> covers (SubdomainsOnly c) h \<Longrightarrow>
     covers (SubdomainsOnly m) h"
  using plain_suffix_longer [of c m] ends_with_trans_dot [of "to_ascii_lowercase c" "to_ascii_lowercase h"]
  by (simp add: strict_subdomain_plain)

lemma equal_below: "eq_ignore_ascii_case c m \<Longrightarrow> covers (SubdomainsOnly c) h \<Longrightarrow> covers (SubdomainsOnly m) h"
  using eq_ignore_length [of c m] by (simp add: eq_ignore_ascii_case_def)

lemma equal_exact: "eq_ignore_ascii_case c m \<Longrightarrow> covers (Exact c) h \<Longrightarrow> covers (Exact m) h"
  by (simp add: eq_ignore_ascii_case_def)

lemma covers_apex: "covers (ApexAndSubdomains d) h \<longleftrightarrow> covers (Exact d) h \<or> covers (SubdomainsOnly d) h"
  by simp

lemma allows_covers:
  assumes "plain_pattern m" "plain_pattern c" "allows m c" "covers c h"
  shows "covers m h"
proof -
  have exact: "domain_eq d e \<longleftrightarrow> eq_ignore_ascii_case d e" if "plain_domain d" "plain_domain e" for d e
    using that by (simp add: domain_eq_def normalize_domain_plain eq_ignore_ascii_case_def)
  note steps = exact_below below_below equal_below equal_exact covers_apex subdomain_or_equal_plain
  show ?thesis
    using assms by (cases m; cases c) (auto simp only: plain_pattern_simps allows.simps domain_pattern.case exact covers.simps(1) steps)
qed

end
