(* ===== verification/Network_Config.thy ===== *)
theory Network_Config
  imports Domain_Policy
begin

text \<open>
  Configuration of the network proxy (\<^verbatim>\<open>crates/network-proxy/src/config.rs\<close> and \<^verbatim>\<open>state.rs\<close>): the settings, the
  addresses the listeners bind to, the constraints that trusted layers put on user-controlled ones,
  and the state built from both.

  The layers come from the configuration loader, already deserialised: a layer whose table does not
  have the expected shape is an error value.  The URL parser is a parameter that gives the host and the
  port of a URL it accepts.
\<close>

section \<open>Settings\<close>

datatype network_mode = Limited | Full

record network_policy =
  allowed_domains :: "rstring list"
  denied_domains :: "rstring list"
  allow_unix_sockets :: "rstring list"
  allow_local_binding :: bool

record network_proxy_settings =
  np_enabled :: bool
  proxy_url :: rstring
  admin_url :: rstring
  enable_socks5 :: bool
  socks_url :: rstring
  enable_socks5_udp :: bool
  allow_upstream_proxy :: bool
  dangerously_allow_non_loopback_proxy :: bool
  dangerously_allow_non_loopback_admin :: bool
  np_mode :: network_mode
  np_policy :: network_policy

definition default_network_policy :: network_policy where
  "default_network_policy =
     \<lparr>allowed_domains = [], denied_domains = [], allow_unix_sockets = [], allow_local_binding = False\<rparr>"

definition default_network_proxy_settings :: network_proxy_settings where
  "default_network_proxy_settings =
     \<lparr>np_enabled = False, proxy_url = lit ''http://127.0.0.1:3128'', admin_url = lit ''http://127.0.0.1:8080'',
      enable_socks5 = False, socks_url = lit ''http://127.0.0.1:8081'', enable_socks5_udp = False,
      allow_upstream_proxy = False, dangerously_allow_non_loopback_proxy = False,
      dangerously_allow_non_loopback_admin = False, np_mode = Full, np_policy = default_network_policy\<rparr>"

fun allows_method :: "network_mode \<Rightarrow> rstring \<Rightarrow> bool" where
  "allows_method Full m = True"
| "allows_method Limited m = (m \<in> {lit ''GET'', lit ''HEAD'', lit ''OPTIONS''})"

section \<open>Listener addresses\<close>

definition loopback_at :: "nat \<Rightarrow> socket_addr" where
  "loopback_at port = \<lparr>sa_ip = V4 (ipv4_of_octets [127, 0, 0, 1]), sa_port = port\<rparr>"

definition clamp_non_loopback :: "socket_addr \<Rightarrow> bool \<Rightarrow> socket_addr" where
  "clamp_non_loopback addr allow_non_loopback =
     (if is_loopback (sa_ip addr) then addr
      else if allow_non_loopback then addr
      else loopback_at (sa_port addr))"

definition clamp_bind_addrs ::
  "socket_addr \<Rightarrow> socket_addr \<Rightarrow> socket_addr \<Rightarrow> network_proxy_settings \<Rightarrow>
   socket_addr \<times> socket_addr \<times> socket_addr" where
  "clamp_bind_addrs http socks admin cfg =
     (let http = clamp_non_loopback http (dangerously_allow_non_loopback_proxy cfg);
          socks = clamp_non_loopback socks (dangerously_allow_non_loopback_proxy cfg);
          admin = clamp_non_loopback admin (dangerously_allow_non_loopback_admin cfg)
      in if allow_unix_sockets (np_policy cfg) = [] then (http, socks, admin)
         else (loopback_at (sa_port http), loopback_at (sa_port socks), loopback_at (sa_port admin)))"

record socket_address_parts =
  part_host :: rstring
  part_port :: nat

text \<open>\<^verbatim>\<open>str::parse::<u16>\<close>.\<close>

definition parse_u16 :: "rstring \<Rightarrow> nat option" where
  "parse_u16 s =
     (let digits = (case s of c # t \<Rightarrow> (if c = 43 then t else s) | [] \<Rightarrow> s);
          v = foldl (\<lambda>acc c. acc * 10 + (c - 48)) 0 digits
      in if digits \<noteq> [] \<and> list_all is_ascii_digit digits \<and> v \<le> 65535 then Some v else None)"

definition rsplit_once :: "rchar \<Rightarrow> rstring \<Rightarrow> (rstring \<times> rstring) option" where
  "rsplit_once c s =
     (if c \<in> set s then Some (rev (tl (dropWhile (\<lambda>x. x \<noteq> c) (rev s))), rev (takeWhile (\<lambda>x. x \<noteq> c) (rev s)))
      else None)"

text \<open>An address without a host is the one error; it carries the text it was given.\<close>

definition parse_host_port_fallback :: "rstring \<Rightarrow> nat \<Rightarrow> (rstring, socket_address_parts) result" where
  "parse_host_port_fallback input default_port =
     (let without_scheme = (case split_once (lit ''://'') input of Some (_, rest) \<Rightarrow> rest | None \<Rightarrow> input);
          host_port = hd (split_on 47 without_scheme);
          host_port = (case rsplit_once 64 host_port of Some (_, rest) \<Rightarrow> rest | None \<Rightarrow> host_port);
          plain =
            (if host_port = [] then Err input
             else Ok \<lparr>part_host = host_port, part_port = default_port\<rparr>);
          single =
            (if length (filter (\<lambda>c. c = 58) host_port) = 1
             then (case rsplit_once 58 host_port of
                     Some (host, port) \<Rightarrow>
                       (case parse_u16 port of
                          Some port \<Rightarrow>
                            (if host = [] then Err input else Ok \<lparr>part_host = host, part_port = port\<rparr>)
                        | None \<Rightarrow> plain)
                   | None \<Rightarrow> plain)
             else plain)
      in if starts_with [91] host_port
         then (case position (\<lambda>c. c = 93) host_port of
                 Some close \<Rightarrow>
                   (let host = take (close - 1) (drop 1 host_port);
                        port = (case strip_prefix [58] (drop (close + 1) host_port) of
                                  Some p \<Rightarrow> (case parse_u16 p of Some n \<Rightarrow> n | None \<Rightarrow> default_port)
                                | None \<Rightarrow> default_port)
                    in if host = [] then Err input else Ok \<lparr>part_host = host, part_port = port\<rparr>)
               | None \<Rightarrow> single)
         else single)"

type_synonym url_crate = "rstring \<Rightarrow> (rstring option \<times> nat option) option"

definition parse_host_port :: "url_crate \<Rightarrow> rstring \<Rightarrow> nat \<Rightarrow> (rstring, socket_address_parts) result" where
  "parse_host_port url_parse url default_port =
     (let trimmed = trim url in
      if trimmed = [] then Err url
      else if (case parse_ip trimmed of Some (V6 _) \<Rightarrow> True | _ \<Rightarrow> False) \<and> \<not> starts_with [91] trimmed
      then Ok \<lparr>part_host = trimmed, part_port = default_port\<rparr>
      else
        (let candidate = (if split_once (lit ''://'') trimmed \<noteq> None then trimmed else lit ''http://'' @ trimmed)
         in case url_parse candidate of
              Some (Some host_str, port) \<Rightarrow>
                (let host = trim_matches (\<lambda>c. c = 91 \<or> c = 93) host_str in
                 if host = [] then Err url
                 else Ok \<lparr>part_host = host, part_port = (case port of Some p \<Rightarrow> p | None \<Rightarrow> default_port)\<rparr>)
            | _ \<Rightarrow> parse_host_port_fallback trimmed default_port))"

definition resolve_addr :: "url_crate \<Rightarrow> rstring \<Rightarrow> nat \<Rightarrow> (rstring, socket_addr) result" where
  "resolve_addr url_parse url default_port =
     and_then (parse_host_port url_parse url default_port) (\<lambda>parts.
       let host = (if eq_ignore_ascii_case (part_host parts) (lit ''localhost'') then lit ''127.0.0.1''
                   else part_host parts)
       in case parse_ip host of
            Some ip \<Rightarrow> Ok \<lparr>sa_ip = ip, sa_port = part_port parts\<rparr>
          | None \<Rightarrow> Ok (loopback_at (part_port parts)))"

record runtime_config =
  http_addr :: socket_addr
  socks_addr :: socket_addr
  admin_addr :: socket_addr

definition resolve_runtime :: "url_crate \<Rightarrow> network_proxy_settings \<Rightarrow> (rstring, runtime_config) result" where
  "resolve_runtime url_parse cfg =
     and_then (resolve_addr url_parse (proxy_url cfg) 3128) (\<lambda>http.
     and_then (resolve_addr url_parse (socks_url cfg) 8081) (\<lambda>socks.
     and_then (resolve_addr url_parse (admin_url cfg) 8080) (\<lambda>admin.
       case clamp_bind_addrs http socks admin cfg of
         (http, socks, admin) \<Rightarrow> Ok \<lparr>http_addr = http, socks_addr = socks, admin_addr = admin\<rparr>)))"

section \<open>Constraints of trusted layers\<close>

record constraints =
  c_enabled :: "bool option"
  c_mode :: "network_mode option"
  c_allow_upstream_proxy :: "bool option"
  c_non_loopback_proxy :: "bool option"
  c_non_loopback_admin :: "bool option"
  c_allowed_domains :: "rstring list option"
  c_denied_domains :: "rstring list option"
  c_allow_unix_sockets :: "rstring list option"
  c_allow_local_binding :: "bool option"

definition no_constraints :: constraints where
  "no_constraints =
     \<lparr>c_enabled = None, c_mode = None, c_allow_upstream_proxy = None, c_non_loopback_proxy = None,
      c_non_loopback_admin = None, c_allowed_domains = None, c_denied_domains = None,
      c_allow_unix_sockets = None, c_allow_local_binding = None\<rparr>"

text \<open>
  \<^verbatim>\<open>ConfigLayerSource\<close>, and a layer as the loader hands it over.  The partial settings of a layer
  (\<^verbatim>\<open>PartialConfig\<close>) have the fields of the constraints.
\<close>

datatype layer_source =
    Mdm rstring rstring
  | SystemFile rstring
  | UserFile rstring
  | ProjectFolder rstring
  | SessionFlags

record config_layer =
  layer_name :: layer_source
  layer_disabled :: bool
  layer_partial :: "(rstring, constraints) result"

fun is_user_controlled_layer :: "layer_source \<Rightarrow> bool" where
  "is_user_controlled_layer (UserFile _) = True"
| "is_user_controlled_layer (ProjectFolder _) = True"
| "is_user_controlled_layer SessionFlags = True"
| "is_user_controlled_layer _ = False"

definition enabled_layers :: "config_layer list \<Rightarrow> config_layer list" where
  "enabled_layers layers = filter (\<lambda>l. \<not> layer_disabled l) layers"

definition set_if_given :: "'a option \<Rightarrow> 'a option \<Rightarrow> 'a option" where
  "set_if_given new old = (case new of Some v \<Rightarrow> Some v | None \<Rightarrow> old)"

definition merge_constraints :: "constraints \<Rightarrow> constraints \<Rightarrow> constraints" where
  "merge_constraints p c =
     \<lparr>c_enabled = set_if_given (c_enabled p) (c_enabled c),
      c_mode = set_if_given (c_mode p) (c_mode c),
      c_allow_upstream_proxy = set_if_given (c_allow_upstream_proxy p) (c_allow_upstream_proxy c),
      c_non_loopback_proxy = set_if_given (c_non_loopback_proxy p) (c_non_loopback_proxy c),
      c_non_loopback_admin = set_if_given (c_non_loopback_admin p) (c_non_loopback_admin c),
      c_allowed_domains = set_if_given (c_allowed_domains p) (c_allowed_domains c),
      c_denied_domains = set_if_given (c_denied_domains p) (c_denied_domains c),
      c_allow_unix_sockets = set_if_given (c_allow_unix_sockets p) (c_allow_unix_sockets c),
      c_allow_local_binding = set_if_given (c_allow_local_binding p) (c_allow_local_binding c)\<rparr>"

fun constraints_loop :: "constraints \<Rightarrow> config_layer list \<Rightarrow> (rstring, constraints) result" where
  "constraints_loop c [] = Ok c"
| "constraints_loop c (layer # layers) =
     (if is_user_controlled_layer (layer_name layer) then constraints_loop c layers
      else and_then (layer_partial layer) (\<lambda>p. constraints_loop (merge_constraints p c) layers))"

definition constraints_from_trusted_layers :: "config_layer list \<Rightarrow> (rstring, constraints) result" where
  "constraints_from_trusted_layers layers = constraints_loop no_constraints (enabled_layers layers)"

datatype constraint_value = Given rstring | Entries "rstring list"

text \<open>\<^verbatim>\<open>ConstraintError::InvalidValue\<close>: field, candidate, allowed.\<close>

datatype proxy_violation = InvalidSetting rstring constraint_value constraint_value

type_synonym validation = "(proxy_violation, unit) result"

text \<open>\<^verbatim>\<open>Constrained::new(value, validator)?\<close>, whose value the caller drops.\<close>

definition constrained_value :: "'a \<Rightarrow> ('a \<Rightarrow> validation) \<Rightarrow> (proxy_violation, 'a) result" where
  "constrained_value v validator = and_then (validator v) (\<lambda>_. Ok v)"

fun network_mode_rank :: "network_mode \<Rightarrow> nat" where
  "network_mode_rank Limited = 0"
| "network_mode_rank Full = 1"

fun show_mode :: "network_mode \<Rightarrow> rstring" where
  "show_mode Limited = lit ''Limited''"
| "show_mode Full = lit ''Full''"

definition forbid_true :: "rstring \<Rightarrow> bool \<Rightarrow> validation" where
  "forbid_true field candidate =
     (if candidate
      then Err (InvalidSetting field (Given (lit ''true'')) (Given (lit ''false (disabled by managed config)'')))
      else Ok ())"

definition check_flag :: "rstring \<Rightarrow> bool option \<Rightarrow> bool \<Rightarrow> (proxy_violation, bool) result" where
  "check_flag field managed value =
     constrained_value value (\<lambda>candidate.
       case managed of Some False \<Rightarrow> forbid_true field candidate | _ \<Rightarrow> Ok ())"

definition check_mode :: "network_mode option \<Rightarrow> network_mode \<Rightarrow> (proxy_violation, network_mode) result" where
  "check_mode managed value =
     (case managed of
        None \<Rightarrow> Ok value
      | Some max_mode \<Rightarrow>
          constrained_value value (\<lambda>candidate.
            if network_mode_rank candidate > network_mode_rank max_mode
            then Err (InvalidSetting (lit ''network_proxy.mode'') (Given (show_mode candidate))
                       (Given (show_mode max_mode @ lit '' or more restrictive'')))
            else Ok ()))"

definition check_allowed_domains ::
  "(rstring \<Rightarrow> rstring option) \<Rightarrow> rstring list option \<Rightarrow> rstring list \<Rightarrow> (proxy_violation, rstring list) result" where
  "check_allowed_domains url_host managed value =
     (case managed of
        None \<Rightarrow> Ok value
      | Some entries \<Rightarrow>
          (let managed_patterns = map (parse_for_constraints url_host) entries in
           constrained_value value (\<lambda>candidate.
             let invalid =
               filter (\<lambda>entry. \<not> list_ex (\<lambda>m. allows m (parse_for_constraints url_host entry)) managed_patterns) candidate
             in if invalid = [] then Ok ()
                else Err (InvalidSetting (lit ''network_proxy.policy.allowed_domains'') (Entries invalid)
                           (Given (lit ''subset of managed allowed_domains''))))))"

text \<open>The missing entries come out of a hash set, in an order the source leaves open.\<close>

definition check_denied_domains ::
  "rstring list option \<Rightarrow> rstring list \<Rightarrow> (proxy_violation, rstring list) result" where
  "check_denied_domains managed value =
     (case managed of
        None \<Rightarrow> Ok value
      | Some entries \<Rightarrow>
          (let required_set = remdups (map to_ascii_lowercase entries) in
           constrained_value value (\<lambda>candidate.
             let missing = filter (\<lambda>entry. entry \<notin> set (map to_ascii_lowercase candidate)) required_set
             in if missing = [] then Ok ()
                else Err (InvalidSetting (lit ''network_proxy.policy.denied_domains'')
                           (Given (lit ''missing managed denied_domains entries'')) (Entries missing)))))"

definition check_unix_sockets ::
  "rstring list option \<Rightarrow> rstring list \<Rightarrow> (proxy_violation, rstring list) result" where
  "check_unix_sockets managed value =
     (case managed of
        None \<Rightarrow> Ok value
      | Some entries \<Rightarrow>
          (let allowed_set = set (map to_ascii_lowercase entries) in
           constrained_value value (\<lambda>candidate.
             let invalid = filter (\<lambda>entry. to_ascii_lowercase entry \<notin> allowed_set) candidate
             in if invalid = [] then Ok ()
                else Err (InvalidSetting (lit ''network_proxy.policy.allow_unix_sockets'') (Entries invalid)
                           (Given (lit ''subset of managed allow_unix_sockets''))))))"

definition validate_policy_against_constraints ::
  "(rstring \<Rightarrow> rstring option) \<Rightarrow> network_proxy_settings \<Rightarrow> constraints \<Rightarrow> validation" where
  "validate_policy_against_constraints url_host config c =
     and_then (check_flag (lit ''network_proxy.enabled'') (c_enabled c) (np_enabled config)) (\<lambda>_.
     and_then (check_mode (c_mode c) (np_mode config)) (\<lambda>_.
     and_then (check_flag (lit ''network_proxy.allow_upstream_proxy'') (c_allow_upstream_proxy c)
                (allow_upstream_proxy config)) (\<lambda>_.
     and_then (check_flag (lit ''network_proxy.dangerously_allow_non_loopback_admin'') (c_non_loopback_admin c)
                (dangerously_allow_non_loopback_admin config)) (\<lambda>_.
     and_then (check_flag (lit ''network_proxy.dangerously_allow_non_loopback_proxy'') (c_non_loopback_proxy c)
                (dangerously_allow_non_loopback_proxy config)) (\<lambda>_.
     and_then (check_flag (lit ''network_proxy.policy.allow_local_binding'') (c_allow_local_binding c)
                (allow_local_binding (np_policy config))) (\<lambda>_.
     and_then (check_allowed_domains url_host (c_allowed_domains c) (allowed_domains (np_policy config))) (\<lambda>_.
     and_then (check_denied_domains (c_denied_domains c) (denied_domains (np_policy config))) (\<lambda>_.
     and_then (check_unix_sockets (c_allow_unix_sockets c) (allow_unix_sockets (np_policy config))) (\<lambda>_.
       Ok ())))))))))"

section \<open>Building the state\<close>

record blocked_request =
  b_host :: rstring
  b_reason :: rstring
  b_client :: "rstring option"
  b_method :: "rstring option"
  b_mode :: "network_mode option"
  b_protocol :: rstring
  b_timestamp :: int

record layer_mtime =
  lm_path :: rstring
  lm_mtime :: "nat option"

record config_state =
  cs_config :: network_proxy_settings
  cs_allow_set :: glob_set
  cs_deny_set :: glob_set
  cs_constraints :: constraints
  cs_layer_mtimes :: "layer_mtime list"
  cs_cfg_path :: rstring
  cs_blocked :: "blocked_request list"

datatype config_error =
    LoadFailed rstring
  | BadConfig rstring
  | BadLayer rstring
  | Constrained_by proxy_violation
  | BadGlob glob_error

text \<open>
  What the loader returned: the layers and the merged settings, deserialised.  \<open>file_mtime\<close> is the
  modification time of a file, \<^const>\<open>None\<close> when it cannot be read.
\<close>

record loaded_config =
  ld_layers :: "config_layer list"
  ld_effective :: "(rstring, network_proxy_settings) result"
  ld_cfg_path :: rstring

record net_libs =
  globs :: glob_crate
  url_host :: "rstring \<Rightarrow> rstring option"

fun layer_path :: "layer_source \<Rightarrow> rstring option" where
  "layer_path (SystemFile file) = Some file"
| "layer_path (UserFile file) = Some file"
| "layer_path (ProjectFolder folder) = Some (folder @ lit ''/config.toml'')"
| "layer_path _ = None"

definition new_layer_mtime :: "(rstring \<Rightarrow> nat option) \<Rightarrow> rstring \<Rightarrow> layer_mtime" where
  "new_layer_mtime file_mtime path = \<lparr>lm_path = path, lm_mtime = file_mtime path\<rparr>"

definition collect_layer_mtimes :: "(rstring \<Rightarrow> nat option) \<Rightarrow> config_layer list \<Rightarrow> layer_mtime list" where
  "collect_layer_mtimes file_mtime layers =
     map (new_layer_mtime file_mtime) (filter_map (\<lambda>l. layer_path (layer_name l)) (enabled_layers layers))"

definition enforce_trusted_constraints ::
  "net_libs \<Rightarrow> config_layer list \<Rightarrow> network_proxy_settings \<Rightarrow> (config_error, constraints) result" where
  "enforce_trusted_constraints libs layers config =
     and_then (map_err BadLayer (constraints_from_trusted_layers layers)) (\<lambda>c.
     and_then (map_err Constrained_by (validate_policy_against_constraints (url_host libs) config c)) (\<lambda>_. Ok c))"

definition build_config_state ::
  "net_libs \<Rightarrow> (rstring \<Rightarrow> nat option) \<Rightarrow> (rstring, loaded_config) result \<Rightarrow> (config_error, config_state) result" where
  "build_config_state libs file_mtime loaded =
     and_then (map_err LoadFailed loaded) (\<lambda>ld.
     and_then (map_err BadConfig (ld_effective ld)) (\<lambda>config.
     and_then (enforce_trusted_constraints libs (ld_layers ld) config) (\<lambda>c.
     and_then (map_err BadGlob (compile_globset (globs libs) (denied_domains (np_policy config)))) (\<lambda>deny.
     and_then (map_err BadGlob (compile_globset (globs libs) (allowed_domains (np_policy config)))) (\<lambda>allow.
       Ok \<lparr>cs_config = config, cs_allow_set = allow, cs_deny_set = deny, cs_constraints = c,
           cs_layer_mtimes = collect_layer_mtimes file_mtime (ld_layers ld),
           cs_cfg_path = ld_cfg_path ld, cs_blocked = []\<rparr>)))))"

section \<open>What validation means\<close>

definition flag_within :: "bool option \<Rightarrow> bool \<Rightarrow> bool" where
  "flag_within managed value \<longleftrightarrow> (value \<longrightarrow> managed \<noteq> Some False)"

definition within_constraints ::
  "(rstring \<Rightarrow> rstring option) \<Rightarrow> network_proxy_settings \<Rightarrow> constraints \<Rightarrow> bool" where
  "within_constraints uh config c \<longleftrightarrow>
     flag_within (c_enabled c) (np_enabled config) \<and>
     (c_mode c = Some Limited \<longrightarrow> np_mode config = Limited) \<and>
     flag_within (c_allow_upstream_proxy c) (allow_upstream_proxy config) \<and>
     flag_within (c_non_loopback_admin c) (dangerously_allow_non_loopback_admin config) \<and>
     flag_within (c_non_loopback_proxy c) (dangerously_allow_non_loopback_proxy config) \<and>
     flag_within (c_allow_local_binding c) (allow_local_binding (np_policy config)) \<and>
     (case c_allowed_domains c of None \<Rightarrow> True | Some managed \<Rightarrow>
        list_all (\<lambda>e. list_ex (\<lambda>m. allows (parse_for_constraints uh m) (parse_for_constraints uh e)) managed)
          (allowed_domains (np_policy config))) \<and>
     (case c_denied_domains c of None \<Rightarrow> True | Some managed \<Rightarrow>
        list_all (\<lambda>e. list_ex (eq_ignore_ascii_case e) (denied_domains (np_policy config))) managed) \<and>
     (case c_allow_unix_sockets c of None \<Rightarrow> True | Some managed \<Rightarrow>
        list_all (\<lambda>e. list_ex (eq_ignore_ascii_case e) managed) (allow_unix_sockets (np_policy config)))"

lemma and_then_unit: "and_then r (\<lambda>_. k) = Inr u \<longleftrightarrow> is_ok r \<and> k = Inr u"
  by (cases r) auto

lemma is_ok_and_then: "is_ok (and_then r (\<lambda>_. k)) \<longleftrightarrow> is_ok r \<and> is_ok k"
  by (cases r) auto

lemma constrained_value_ok: "is_ok (constrained_value v f) \<longleftrightarrow> is_ok (f v)"
  by (simp add: constrained_value_def is_ok_and_then)

lemma check_flag_ok: "is_ok (check_flag field managed v) \<longleftrightarrow> flag_within managed v"
  by (auto simp: check_flag_def constrained_value_ok forbid_true_def flag_within_def split: option.split bool.split)

lemma check_mode_ok: "is_ok (check_mode managed v) \<longleftrightarrow> (managed = Some Limited \<longrightarrow> v = Limited)"
  by (cases v) (auto simp: check_mode_def constrained_value_ok split: option.split network_mode.split elim: network_mode_rank.elims)

lemma ok_if_empty: "is_ok (if filter q xs = [] then Inr () else Inl e) \<longleftrightarrow> list_all (\<lambda>x. \<not> q x) xs"
  by (simp add: filter_empty_conv list_all_iff)

lemma check_allowed_ok:
  "is_ok (check_allowed_domains uh managed v) \<longleftrightarrow>
     (case managed of None \<Rightarrow> True | Some ms \<Rightarrow>
        list_all (\<lambda>e. list_ex (\<lambda>m. allows (parse_for_constraints uh m) (parse_for_constraints uh e)) ms) v)"
  by (simp add: check_allowed_domains_def constrained_value_ok Let_def ok_if_empty list_ex_iff split: option.split)

lemma check_denied_ok:
  "is_ok (check_denied_domains managed v) \<longleftrightarrow>
     (case managed of None \<Rightarrow> True | Some ms \<Rightarrow> list_all (\<lambda>e. list_ex (eq_ignore_ascii_case e) v) ms)"
  by (auto simp: check_denied_domains_def constrained_value_ok Let_def ok_if_empty list_ex_iff list_all_iff
      eq_ignore_ascii_case_def split: option.split)

lemma check_unix_ok:
  "is_ok (check_unix_sockets managed v) \<longleftrightarrow>
     (case managed of None \<Rightarrow> True | Some ms \<Rightarrow> list_all (\<lambda>e. list_ex (eq_ignore_ascii_case e) ms) v)"
  by (auto simp: check_unix_sockets_def constrained_value_ok Let_def ok_if_empty list_ex_iff list_all_iff
      eq_ignore_ascii_case_def split: option.split)

lemma validate_iff_within:
  "validate_policy_against_constraints uh config c = Inr () \<longleftrightarrow> within_constraints uh config c"
  unfolding validate_policy_against_constraints_def within_constraints_def and_then_unit
  by (simp add: check_flag_ok check_mode_ok check_allowed_ok check_denied_ok check_unix_ok)

lemma built_state_within:
  "build_config_state libs mt loaded = Inr st \<Longrightarrow>
     within_constraints (url_host libs) (cs_config st) (cs_constraints st) \<and> cs_blocked st = []"
  by (auto simp: build_config_state_def enforce_trusted_constraints_def and_then_eq_Inr map_err_def
      validate_iff_within split: sum.splits)

section \<open>Claims\<close>

lemma loopback_at_local: "is_loopback (sa_ip (loopback_at port))"
  by (simp add: loopback_at_def v4_is_loopback_def octet_def ipv4_of_octets_def)

lemma clamp_local: "is_loopback (sa_ip (clamp_non_loopback addr flag)) \<or> flag"
  by (simp add: clamp_non_loopback_def loopback_at_local)

lemma clamp_bind_local:
  assumes "clamp_bind_addrs http socks admin cfg = (h, s, a)"
  shows "(\<forall>addr \<in> {h, s}. is_loopback (sa_ip addr) \<or>
            dangerously_allow_non_loopback_proxy cfg \<and> allow_unix_sockets (np_policy cfg) = []) \<and>
         (is_loopback (sa_ip a) \<or>
            dangerously_allow_non_loopback_admin cfg \<and> allow_unix_sockets (np_policy cfg) = [])"
proof (cases "allow_unix_sockets (np_policy cfg) = []")
  case True
  then have "h = clamp_non_loopback http (dangerously_allow_non_loopback_proxy cfg)"
    "s = clamp_non_loopback socks (dangerously_allow_non_loopback_proxy cfg)"
    "a = clamp_non_loopback admin (dangerously_allow_non_loopback_admin cfg)"
    using assms by (simp_all add: clamp_bind_addrs_def Let_def)
  with True clamp_local show ?thesis
    by blast
next
  case False
  then have "\<exists>p q r. h = loopback_at p \<and> s = loopback_at q \<and> a = loopback_at r"
    using assms by (simp add: clamp_bind_addrs_def Let_def) blast
  then show ?thesis
    using loopback_at_local by blast
qed

text \<open>
  The listeners of the proxy stay on the machine: an address the runtime binds is a loopback
  address, unless the flag for that listener is set and no Unix socket may be proxied.
\<close>

lemma listeners_stay_local:
  assumes "resolve_runtime url_parse cfg = Ok rt"
  shows "(\<forall>addr \<in> {http_addr rt, socks_addr rt}. is_loopback (sa_ip addr) \<or>
            dangerously_allow_non_loopback_proxy cfg \<and> allow_unix_sockets (np_policy cfg) = []) \<and>
         (is_loopback (sa_ip (admin_addr rt)) \<or>
            dangerously_allow_non_loopback_admin cfg \<and> allow_unix_sockets (np_policy cfg) = [])"
proof -
  from assms obtain http socks admin where
    rt: "(case clamp_bind_addrs http socks admin cfg of
            (h, s, a) \<Rightarrow> Ok \<lparr>http_addr = h, socks_addr = s, admin_addr = a\<rparr>) = (Ok rt :: (rstring, runtime_config) result)"
    unfolding resolve_runtime_def and_then_eq_Inr by blast
  obtain h s a where clamped: "clamp_bind_addrs http socks admin cfg = (h, s, a)"
    by (cases "clamp_bind_addrs http socks admin cfg")
  then have "rt = \<lparr>http_addr = h, socks_addr = s, admin_addr = a\<rparr>"
    using rt by simp
  then show ?thesis
    using clamp_bind_local [OF clamped] by simp
qed

lemmas resolve_eval =
  resolve_addr_def parse_host_port_def parse_ip_eval parse_host_port_fallback_def trim_def trim_start_def
  trim_end_def is_whitespace_def starts_with_def rsplit_once_def parse_u16_def is_ascii_digit_def
  eq_ignore_ascii_case_def to_ascii_lowercase_def to_ascii_lowercase_char_def

definition open_http_settings :: network_proxy_settings where
  "open_http_settings =
     default_network_proxy_settings
       \<lparr>proxy_url := lit '' :: '', dangerously_allow_non_loopback_proxy := True\<rparr>"

text \<open>
  C7.  The managed allowlist bounds what a user's allowlist admits: when validation accepts a
  configuration whose entries, and the managed ones, are domains with an optional wildcard prefix, every
  host the compiled allowlist matches is covered by some managed entry.
\<close>

theorem managed_allowlist_bounds_hosts:
  assumes "glob_documented crate"
    and "list_all plain_pattern (user @ managed)"
    and "list_all (\<lambda>p. list_all (url_keeps uh) (pattern_domains p)) (user @ managed)"
    and "allowed_domains (np_policy config) = map entry_text user"
    and "c_allowed_domains c = Some (map entry_text managed)"
    and "validate_policy_against_constraints uh config c = Ok ()"
    and "compile_globset crate (allowed_domains (np_policy config)) = Ok gs"
    and "is_match crate gs host"
  shows "list_ex (\<lambda>m. covers m host) managed"
proof -
  have plain: "list_all plain_pattern user" "\<forall>p \<in> set (user @ managed). plain_pattern p"
    using assms(2) by (simp_all add: list_all_iff)
  have parsed: "\<forall>p \<in> set (user @ managed). parse_for_constraints uh (entry_text p) = lower_pattern p"
    using assms(3) plain(2) by (metis list_all_iff parse_for_constraints_entry)
  from compiled_matches [OF assms(1) plain(1)] assms(4,7,8) obtain p
    where p: "p \<in> set user" "covers p host"
    by (auto simp: list_ex_iff)
  from assms(6) have "within_constraints uh config c"
    by (simp add: validate_iff_within)
  with assms(4,5) p(1) obtain m where m: "m \<in> set managed" "allows (lower_pattern m) (lower_pattern p)"
    using parsed by (auto simp: within_constraints_def list_all_iff list_ex_iff)
  have "covers (lower_pattern m) host"
    using p m plain(2) by (intro allows_covers [OF _ _ m(2)]) (auto intro: plain_lower)
  then show ?thesis
    using m(1) by (auto simp: list_ex_iff)
qed

text \<open>A glob crate that has the documented behaviour, for the concrete instances below.\<close>

definition simple_crate :: glob_crate where
  "simple_crate =
     \<lparr>glob = (\<lambda>p. if p = lit ''*'' then Some (\<lambda>_. True)
                 else case strip_prefix (lit ''?*.'') p of
                   Some d \<Rightarrow> Some (covers (SubdomainsOnly d))
                 | None \<Rightarrow> Some (covers (Exact p))),
      set_builds = (\<lambda>_. True)\<rparr>"

lemma simple_crate_documented: "glob_documented simple_crate"
proof -
  have "strip_prefix (63 # p) d = None" if "plain_domain d" for d p
    using plain_no_meta [OF that, of 63] plain_domain_chars(1) [OF that] by (cases d) (auto simp: plain_char_def)
  then show ?thesis
    by (auto simp: glob_documented_def simple_crate_def plain_no_star simp del: covers.simps)
qed

definition api_settings :: network_proxy_settings where
  "api_settings =
     default_network_proxy_settings
       \<lparr>np_policy := default_network_policy\<lparr>allowed_domains := [lit ''*.api.Example.com'']\<rparr>\<rparr>"

definition example_constraints :: constraints where
  "example_constraints = no_constraints\<lparr>c_allowed_domains := Some [lit ''*.example.com'']\<rparr>"

lemma example_domains_plain:
  "plain_domain (lit ''example.com'')" "plain_domain (lit ''api.Example.com'')"
  by code_simp+

lemmas pattern_eval =
  parse_for_constraints_def parse_domain_for_constraints_def trim_def trim_start_def trim_end_def Let_def
  is_whitespace_def trim_end_matches_def starts_with_def ends_with_def strip_suffix_def
  to_ascii_lowercase_def to_ascii_lowercase_char_def normalize_domain_def is_strict_subdomain_def
  is_subdomain_or_equal_def domain_eq_def normalize_pattern_def normalize_host_def normalize_dns_host_def
  expand_domain_pattern_def pattern_parse_def parse_domain_def

lemmas settings_eval =
  validate_iff_within within_constraints_def flag_within_def no_constraints_def
  default_network_policy_def default_network_proxy_settings_def

theorem managed_allowlist_bounds_hosts_witness:
  "covers (SubdomainsOnly (lit ''example.com'')) (lit ''v1.api.example.com'')"
proof -
  let ?user = "[SubdomainsOnly (lit ''api.Example.com'')]"
  let ?managed = "[SubdomainsOnly (lit ''example.com'')]"
  have plain: "list_all plain_pattern (?user @ ?managed)"
    using example_domains_plain by (simp del: lit_Cons)
  have keeps: "list_all (\<lambda>p. list_all (url_keeps (\<lambda>d. Some (to_ascii_lowercase d))) (pattern_domains p)) (?user @ ?managed)"
    by (simp add: url_keeps_def)
  have user: "allowed_domains (np_policy api_settings) = map entry_text ?user"
    by (simp add: api_settings_def default_network_policy_def)
  have managed: "c_allowed_domains example_constraints = Some (map entry_text ?managed)"
    by (simp add: example_constraints_def no_constraints_def)
  have ok: "validate_policy_against_constraints (\<lambda>d. Some (to_ascii_lowercase d)) api_settings example_constraints = Ok ()"
    by (simp add: settings_eval api_settings_def example_constraints_def pattern_eval)
  have compiled: "compile_globset simple_crate (allowed_domains (np_policy api_settings)) = Ok [lit ''?*.api.example.com'']"
    by (simp add: compile_globset_def api_settings_def default_network_policy_def simple_crate_def pattern_eval)
  have "is_match simple_crate [lit ''?*.api.example.com''] (lit ''v1.api.example.com'')"
    by (simp add: is_match_def glob_hits_def simple_crate_def pattern_eval)
  from managed_allowlist_bounds_hosts [OF simple_crate_documented plain keeps user managed ok compiled this]
  show ?thesis
    by (simp del: lit_Cons covers.simps)
qed

definition evil_settings :: network_proxy_settings where
  "evil_settings =
     default_network_proxy_settings
       \<lparr>np_policy := default_network_policy\<lparr>allowed_domains := [lit ''evil.com:*.example.com'']\<rparr>\<rparr>"

text \<open>
  The bound does not extend to entries with a colon.  With \<^verbatim>\<open>*.example.com\<close> managed, validation reads the
  entry \<^verbatim>\<open>evil.com:*.example.com\<close> as a name below \<^verbatim>\<open>example.com\<close> and accepts it, because an entry with a
  wildcard is compared as written; the compiler of the allowlist then drops everything after the colon,
  and the set it builds admits \<^verbatim>\<open>evil.com\<close>.
\<close>

lemma colon_entry_escapes_managed_allowlist:
  assumes "glob_documented crate" and "set_builds crate [lit ''evil.com'']"
    and "url_keeps uh (lit ''example.com'')"
  shows "validate_policy_against_constraints uh evil_settings example_constraints = Ok () \<and>
    compile_globset crate (allowed_domains (np_policy evil_settings)) = Ok [lit ''evil.com''] \<and>
    is_match crate [lit ''evil.com''] (lit ''evil.com'') \<and>
    \<not> covers (SubdomainsOnly (lit ''example.com'')) (lit ''evil.com'')"
proof (intro conjI)
  show "validate_policy_against_constraints uh evil_settings example_constraints = Ok ()"
    using assms(3) by (simp add: settings_eval evil_settings_def example_constraints_def pattern_eval url_keeps_def)
  have plain: "plain_domain (lit ''evil.com'')"
    by code_simp
  then obtain m where "glob crate (lit ''evil.com'') = Some m"
    using assms(1) unfolding glob_documented_def by blast
  moreover have "expand_domain_pattern (normalize_pattern (lit ''evil.com:*.example.com'')) = [lit ''evil.com'']"
    by (simp add: pattern_eval)
  ultimately show "compile_globset crate (allowed_domains (np_policy evil_settings)) = Ok [lit ''evil.com'']"
    using assms(2) by (simp add: compile_globset_def evil_settings_def default_network_policy_def del: lit_Cons)
  show "is_match crate [lit ''evil.com''] (lit ''evil.com'')"
    using documented_hits(2) [OF assms(1) plain] by (simp add: is_match_def eq_ignore_ascii_case_def del: lit_Cons)
  show "\<not> covers (SubdomainsOnly (lit ''example.com'')) (lit ''evil.com'')"
    by (simp add: pattern_eval)
qed

end
