(* ===== verification/Network_Runtime.thy ===== *)
theory Network_Runtime
  imports Network_Config
begin

text \<open>
  The running network proxy (\<^verbatim>\<open>crates/network-proxy/src/runtime.rs\<close>, \<^verbatim>\<open>network_policy.rs\<close>, \<^verbatim>\<open>connector.rs\<close>): reload on
  demand, the decision about a host with the addresses that were checked, the decision about a request
  with the decider a session may install, the queue of blocked requests, changes of the mode, and the
  choice of addresses when a connection is made.

  An operation sees the outside world through \<open>net_env\<close>: the libraries, the modification times of files, what
  the configuration loader would return now, name resolution, which gives \<^const>\<open>None\<close> on failure or after
  its two-second limit, and the clock.
\<close>

section \<open>Reloading\<close>

record net_env =
  env_libs :: net_libs
  env_file_mtime :: "rstring \<Rightarrow> nat option"
  env_loaded :: "(rstring, loaded_config) result"
  env_lookup_host :: "rstring \<Rightarrow> nat \<Rightarrow> socket_addr list option"
  env_now :: int

definition mtime_changed :: "nat option \<Rightarrow> nat option \<Rightarrow> bool" where
  "mtime_changed new old =
     (case (new, old) of
        (Some n, Some m) \<Rightarrow> n > m
      | (Some _, None) \<Rightarrow> True
      | (None, Some _) \<Rightarrow> True
      | (None, None) \<Rightarrow> False)"

definition force_reload :: "net_env \<Rightarrow> config_state \<Rightarrow> (config_error, config_state) result" where
  "force_reload env st =
     and_then (build_config_state (env_libs env) (env_file_mtime env) (env_loaded env)) (\<lambda>new_state.
       Ok (new_state\<lparr>cs_blocked := cs_blocked st\<rparr>))"

definition reload_if_needed :: "net_env \<Rightarrow> config_state \<Rightarrow> (config_error, config_state) result" where
  "reload_if_needed env st =
     (if list_ex (\<lambda>l. mtime_changed (env_file_mtime env (lm_path l)) (lm_mtime l)) (cs_layer_mtimes st)
      then force_reload env st
      else Ok st)"

section \<open>The decision about a host\<close>

datatype host_block_reason = HostDenied | NotAllowed | NotAllowedLocal

datatype host_block_decision = HostAllowed | HostBlocked host_block_reason

fun reason_str :: "host_block_reason \<Rightarrow> rstring" where
  "reason_str HostDenied = lit ''denied''"
| "reason_str NotAllowed = lit ''not_allowed''"
| "reason_str NotAllowedLocal = lit ''not_allowed_local''"

definition is_explicit_local_allowlisted :: "rstring list \<Rightarrow> rstring \<Rightarrow> bool" where
  "is_explicit_local_allowlisted entries host =
     list_ex (\<lambda>entry.
       let pattern = trim entry in
       if pattern = lit ''*'' \<or> starts_with (lit ''*.'') pattern \<or> starts_with (lit ''**.'') pattern then False
       else if 42 \<in> set pattern \<or> 63 \<in> set pattern then False
       else normalize_host pattern = host) entries"

definition resolve_addresses :: "net_env \<Rightarrow> rstring \<Rightarrow> nat \<Rightarrow> socket_addr list option" where
  "resolve_addresses env host port =
     (case parse_ip host of
        Some ip \<Rightarrow> Some [\<lparr>sa_ip = ip, sa_port = port\<rparr>]
      | None \<Rightarrow> env_lookup_host env host port)"

definition local_literal :: "rstring \<Rightarrow> bool" where
  "local_literal host =
     (if is_loopback_host host then True
      else (case parse_ip (without_scope host) of Some ip \<Rightarrow> is_non_public_ip ip | None \<Rightarrow> False))"

definition filter_option :: "('a \<Rightarrow> bool) \<Rightarrow> 'a option \<Rightarrow> 'a option" where
  "filter_option p v = (case v of Some x \<Rightarrow> (if p x then Some x else None) | None \<Rightarrow> None)"

text \<open>The body of \<^verbatim>\<open>host_blocked_with_addresses\<close> once the state is loaded.\<close>

definition host_decision ::
  "net_env \<Rightarrow> config_state \<Rightarrow> rstring \<Rightarrow> nat \<Rightarrow> host_block_decision \<times> socket_addr list option" where
  "host_decision env st input port =
     (case host_parse input of
        None \<Rightarrow> (HostBlocked NotAllowed, None)
      | Some host \<Rightarrow>
          (let crate = globs (env_libs env);
               policy = np_policy (cs_config st);
               is_allowlisted = is_match crate (cs_allow_set st) host;
               verdict = (if allowed_domains policy = [] \<or> \<not> is_allowlisted then HostBlocked NotAllowed else HostAllowed)
           in if is_match crate (cs_deny_set st) host then (HostBlocked HostDenied, None)
              else if allow_local_binding policy then (verdict, None)
              else if local_literal host
              then (if is_explicit_local_allowlisted (allowed_domains policy) host then (verdict, None)
                    else (HostBlocked NotAllowedLocal, None))
              else
                (case filter_option (\<lambda>addrs. addrs \<noteq> [] \<and> list_all (\<lambda>a. \<not> is_non_public_ip (sa_ip a)) addrs)
                        (resolve_addresses env host port) of
                   None \<Rightarrow> (HostBlocked NotAllowedLocal, None)
                 | Some addrs \<Rightarrow> (verdict, Some addrs))))"

definition host_blocked_with_addresses ::
  "net_env \<Rightarrow> config_state \<Rightarrow> rstring \<Rightarrow> nat \<Rightarrow>
   (config_error, config_state \<times> host_block_decision \<times> socket_addr list option) result" where
  "host_blocked_with_addresses env st host port =
     and_then (reload_if_needed env st) (\<lambda>st. Ok (st, host_decision env st host port))"

section \<open>The decision about a request\<close>

datatype network_protocol = Http | HttpsConnect | Socks5Tcp | Socks5Udp

record network_policy_request =
  rq_protocol :: network_protocol
  rq_host :: rstring
  rq_port :: nat
  rq_client_addr :: "rstring option"
  rq_method :: "rstring option"
  rq_command :: "rstring option"
  rq_exec_policy_hint :: "rstring option"

datatype network_decision = NetAllow | NetDeny rstring

text \<open>\<^verbatim>\<open>NetworkDecision::deny\<close>.\<close>

definition deny :: "rstring \<Rightarrow> network_decision" where
  "deny reason = NetDeny (if reason = [] then lit ''policy_denied'' else reason)"

record validated_target =
  vt_host :: rstring
  vt_port :: nat
  vt_addresses :: "socket_addr list"

type_synonym decider = "network_policy_request \<Rightarrow> network_decision"

definition evaluate_host_policy_with_target ::
  "net_env \<Rightarrow> config_state \<Rightarrow> decider option \<Rightarrow> network_policy_request \<Rightarrow>
   (config_error, config_state \<times> network_decision \<times> validated_target option) result" where
  "evaluate_host_policy_with_target env st decider request =
     and_then (host_blocked_with_addresses env st (rq_host request) (rq_port request)) (\<lambda>(st, blocked, addresses).
       let decision =
         (case blocked of
            HostAllowed \<Rightarrow> NetAllow
          | HostBlocked NotAllowed \<Rightarrow>
              (case decider of
                 Some decide \<Rightarrow> decide request
               | None \<Rightarrow> deny (reason_str NotAllowed))
          | HostBlocked reason \<Rightarrow> deny (reason_str reason));
           target =
         (if decision = NetAllow
          then map_option (\<lambda>addrs. \<lparr>vt_host = rq_host request, vt_port = rq_port request, vt_addresses = addrs\<rparr>) addresses
          else None)
       in Ok (st, decision, target))"

definition evaluate_host_policy ::
  "net_env \<Rightarrow> config_state \<Rightarrow> decider option \<Rightarrow> network_policy_request \<Rightarrow>
   (config_error, config_state \<times> network_decision) result" where
  "evaluate_host_policy env st decider request =
     and_then (evaluate_host_policy_with_target env st decider request) (\<lambda>(st, decision, _). Ok (st, decision))"

section \<open>Blocked requests, and the mode\<close>

definition MAX_BLOCKED_EVENTS :: nat where
  "MAX_BLOCKED_EVENTS = 200"

fun pop_excess :: "nat \<Rightarrow> 'a list \<Rightarrow> 'a list" where
  "pop_excess limit [] = []"
| "pop_excess limit (x # xs) = (if length (x # xs) > limit then pop_excess limit xs else x # xs)"

definition record_blocked :: "net_env \<Rightarrow> config_state \<Rightarrow> blocked_request \<Rightarrow> (config_error, config_state) result" where
  "record_blocked env st entry =
     and_then (reload_if_needed env st) (\<lambda>st.
       Ok (st\<lparr>cs_blocked := pop_excess MAX_BLOCKED_EVENTS (cs_blocked st @ [entry])\<rparr>))"

definition drain_blocked ::
  "net_env \<Rightarrow> config_state \<Rightarrow> (config_error, config_state \<times> blocked_request list) result" where
  "drain_blocked env st =
     and_then (reload_if_needed env st) (\<lambda>st. Ok (st\<lparr>cs_blocked := []\<rparr>, cs_blocked st))"

definition method_allowed :: "net_env \<Rightarrow> config_state \<Rightarrow> rstring \<Rightarrow> (config_error, config_state \<times> bool) result" where
  "method_allowed env st m =
     and_then (reload_if_needed env st) (\<lambda>st. Ok (st, allows_method (np_mode (cs_config st)) m))"

definition is_enabled :: "net_env \<Rightarrow> config_state \<Rightarrow> (config_error, config_state \<times> bool) result" where
  "is_enabled env st = and_then (reload_if_needed env st) (\<lambda>st. Ok (st, np_enabled (cs_config st)))"

definition network_mode_of :: "net_env \<Rightarrow> config_state \<Rightarrow> (config_error, config_state \<times> network_mode) result" where
  "network_mode_of env st = and_then (reload_if_needed env st) (\<lambda>st. Ok (st, np_mode (cs_config st)))"

text \<open>
  \<^verbatim>\<open>set_network_mode\<close> releases the lock between checking the candidate and writing it, so it is two steps:
  the first reloads, checks and keeps the constraints it checked against, the second writes, or reports
  that the constraints are different by now and the loop has to start again.
\<close>

definition set_mode_check ::
  "net_env \<Rightarrow> config_state \<Rightarrow> network_mode \<Rightarrow> (config_error, config_state \<times> constraints) result" where
  "set_mode_check env st mode =
     and_then (reload_if_needed env st) (\<lambda>st.
       let candidate = (cs_config st)\<lparr>np_mode := mode\<rparr> in
       and_then (map_err Constrained_by
                  (validate_policy_against_constraints (url_host (env_libs env)) candidate (cs_constraints st)))
         (\<lambda>_. Ok (st, cs_constraints st)))"

definition set_mode_commit :: "network_mode \<Rightarrow> constraints \<Rightarrow> config_state \<Rightarrow> config_state option" where
  "set_mode_commit mode c st =
     (if cs_constraints st \<noteq> c then None
      else Some (st\<lparr>cs_config := (cs_config st)\<lparr>np_mode := mode\<rparr>\<rparr>))"

section \<open>Connecting\<close>

text \<open>
  \<^verbatim>\<open>PolicyConnector::serve\<close>, up to the transport: the addresses that will be tried, or the name that will be
  resolved by the transport.  \<open>proxy_hop\<close> is the address of the upstream proxy on the route, if any.
\<close>

datatype connect_plan = Pinned "socket_addr list" | ResolveName rstring nat

datatype connect_error = TargetMissing | NoAddresses | TargetDiffers

definition connector_serve ::
  "(rstring \<times> nat) option \<Rightarrow> validated_target option \<Rightarrow> (rstring \<times> nat) option \<Rightarrow> (connect_error, connect_plan) result" where
  "connector_serve target validated proxy_hop =
     (case target of
        None \<Rightarrow> Err TargetMissing
      | Some (host, port) \<Rightarrow>
          (case validated of
             Some v \<Rightarrow>
               (if vt_host v = normalize_host host \<and> vt_port v = port
                then (if vt_addresses v = [] then Err NoAddresses else Ok (Pinned (vt_addresses v)))
                else if proxy_hop = Some (host, port) then Ok (ResolveName host port)
                else Err TargetDiffers)
           | None \<Rightarrow> Ok (ResolveName host port)))"

section \<open>Lemmas\<close>

lemma reload_within:
  assumes "reload_if_needed env st = Inr st'"
    and "within_constraints (url_host (env_libs env)) (cs_config st) (cs_constraints st)"
  shows "within_constraints (url_host (env_libs env)) (cs_config st') (cs_constraints st')"
  using assms by (auto simp: reload_if_needed_def force_reload_def and_then_eq_Inr split: if_splits dest: built_state_within)

lemma reload_blocked: "reload_if_needed env st = Inr st' \<Longrightarrow> cs_blocked st' = cs_blocked st"
  by (auto simp: reload_if_needed_def force_reload_def and_then_eq_Inr split: if_splits)

lemma pop_excess_drop: "pop_excess n xs = drop (length xs - n) xs"
proof (induction xs)
  case (Cons x xs)
  then show ?case
    by (cases "length xs < n") (auto simp: Suc_diff_le)
qed simp

lemma local_literal_if_not_public: "parse_ip host = Some ip \<Longrightarrow> without_scope host = host \<Longrightarrow>
    \<not> local_literal host \<Longrightarrow> public_ip ip"
  by (auto simp: local_literal_def non_public_is_the_blocks split: if_splits)

text \<open>What a decision that lets a request through says of the host and its addresses.\<close>

definition cleared_host :: "net_env \<Rightarrow> config_state \<Rightarrow> rstring \<Rightarrow> socket_addr list option \<Rightarrow> bool" where
  "cleared_host env st host addrs \<longleftrightarrow>
     \<not> is_match (globs (env_libs env)) (cs_deny_set st) host \<and>
     (allow_local_binding (np_policy (cs_config st)) \<or>
      is_explicit_local_allowlisted (allowed_domains (np_policy (cs_config st))) host \<and> addrs = None \<or>
      (\<exists>as. addrs = Some as \<and> as \<noteq> [] \<and> list_all (\<lambda>a. public_ip (sa_ip a)) as))"

lemma host_decision_cleared:
  assumes "host_decision env st input port = (d, addrs)" "d \<in> {HostAllowed, HostBlocked NotAllowed}"
    "host_parse input = Some host"
  shows "cleared_host env st host addrs"
  using assms
  by (auto simp: host_decision_def cleared_host_def Let_def filter_option_def non_public_is_the_blocks
      split: if_splits option.splits)

lemma evaluate_allow:
  assumes "evaluate_host_policy_with_target env st decider rq = Inr (st', NetAllow, target)"
    and "host_parse (rq_host rq) = Some host"
  shows "reload_if_needed env st = Inr st' \<and>
         cleared_host env st' host (map_option vt_addresses target) \<and>
         (target \<noteq> None \<longrightarrow> vt_host (the target) = rq_host rq \<and> vt_port (the target) = rq_port rq)"
proof -
  from assms(1) obtain st1 where re: "reload_if_needed env st = Inr st1"
    unfolding evaluate_host_policy_with_target_def host_blocked_with_addresses_def and_then_eq_Inr by blast
  obtain d addrs where d: "host_decision env st1 (rq_host rq) (rq_port rq) = (d, addrs)"
    by (cases "host_decision env st1 (rq_host rq) (rq_port rq)")
  let ?d = "case d of HostAllowed \<Rightarrow> NetAllow
    | HostBlocked NotAllowed \<Rightarrow> (case decider of Some decide \<Rightarrow> decide rq | None \<Rightarrow> deny (reason_str NotAllowed))
    | HostBlocked reason \<Rightarrow> deny (reason_str reason)"
  have same: "st1 = st'" and allow: "?d = NetAllow"
    and target: "target = map_option (\<lambda>addrs. \<lparr>vt_host = rq_host rq, vt_port = rq_port rq, vt_addresses = addrs\<rparr>) addrs"
    using assms(1) re d
    by (auto simp: evaluate_host_policy_with_target_def host_blocked_with_addresses_def Let_def split: if_splits)
  have "d \<in> {HostAllowed, HostBlocked NotAllowed}"
    using allow by (auto simp: deny_def split: host_block_decision.splits host_block_reason.splits)
  from host_decision_cleared [OF d this assms(2)] re target same show ?thesis
    by (cases addrs) (auto simp: comp_def)
qed

end
