(* ===== verification/Network_Handlers.thy ===== *)
theory Network_Handlers
  imports Network_Runtime
begin

text \<open>
  The request handlers of the network proxy (\<^verbatim>\<open>crates/network-proxy/src/http_proxy.rs\<close> and \<^verbatim>\<open>socks5.rs\<close>), and the
  interleaving of everything that changes the shared state.

  A handler takes the state, returns the state it leaves and either the reply that refuses the request
  or what will be connected.  Within one handler the outside world is one \<open>net_env\<close>; what other tasks do
  to the state between two steps is the business of the step relation at the end.
\<close>

section \<open>Replies\<close>

datatype reply_body = PlainText rstring | BlockedJson rstring rstring

record reply =
  rp_status :: nat
  rp_proxy_error :: "rstring option"
  rp_body :: reply_body

definition text_response :: "nat \<Rightarrow> rstring \<Rightarrow> reply" where
  "text_response status body = \<lparr>rp_status = status, rp_proxy_error = None, rp_body = PlainText body\<rparr>"

definition blocked_header_value :: "rstring \<Rightarrow> rstring" where
  "blocked_header_value reason =
     (if reason = lit ''not_allowed'' \<or> reason = lit ''not_allowed_local'' then lit ''blocked-by-allowlist''
      else if reason = lit ''denied'' then lit ''blocked-by-denylist''
      else if reason = lit ''method_not_allowed'' then lit ''blocked-by-method-policy''
      else lit ''blocked-by-policy'')"

definition blocked_message :: "rstring \<Rightarrow> rstring" where
  "blocked_message reason =
     (if reason = lit ''not_allowed'' then lit ''Savfox blocked this request: domain not in allowlist.''
      else if reason = lit ''not_allowed_local''
      then lit ''Savfox blocked this request: local/private addresses not allowed.''
      else if reason = lit ''denied'' then lit ''Savfox blocked this request: domain denied by policy.''
      else if reason = lit ''method_not_allowed''
      then lit ''Savfox blocked this request: method not allowed in limited mode.''
      else lit ''Savfox blocked this request by network policy.'')"

definition blocked_text :: "rstring \<Rightarrow> reply" where
  "blocked_text reason =
     \<lparr>rp_status = 403, rp_proxy_error = Some (blocked_header_value reason), rp_body = PlainText (blocked_message reason)\<rparr>"

definition json_blocked :: "rstring \<Rightarrow> rstring \<Rightarrow> reply" where
  "json_blocked host reason =
     \<lparr>rp_status = 403, rp_proxy_error = Some (blocked_header_value reason), rp_body = BlockedJson host reason\<rparr>"

section \<open>Recording\<close>

text \<open>\<^verbatim>\<open>let _ = state.record_blocked(BlockedRequest::new(..)).await\<close>: a failed reload leaves the state as it is.\<close>

definition note_blocked ::
  "net_env \<Rightarrow> config_state \<Rightarrow> rstring \<Rightarrow> rstring \<Rightarrow> rstring option \<Rightarrow> rstring option \<Rightarrow> network_mode option \<Rightarrow>
   rstring \<Rightarrow> config_state" where
  "note_blocked env st host reason client meth mode protocol =
     (case record_blocked env st
             \<lparr>b_host = host, b_reason = reason, b_client = client, b_method = meth, b_mode = mode,
              b_protocol = protocol, b_timestamp = env_now env\<rparr> of
        Inr st' \<Rightarrow> st'
      | Inl _ \<Rightarrow> st)"

definition proxy_disabled_response ::
  "net_env \<Rightarrow> config_state \<Rightarrow> rstring \<Rightarrow> rstring option \<Rightarrow> rstring option \<Rightarrow> rstring \<Rightarrow> config_state \<times> reply" where
  "proxy_disabled_response env st host client meth protocol =
     (note_blocked env st host (lit ''proxy_disabled'') client meth None protocol,
      text_response 503 (lit ''proxy disabled''))"

definition internal_error :: reply where
  "internal_error = text_response 500 (lit ''error'')"

section \<open>CONNECT\<close>

text \<open>The authority of the request is its host, as printed, and its port.\<close>

record accepted =
  ac_target :: "rstring \<times> nat"
  ac_validated :: "validated_target option"

definition http_connect_accept ::
  "net_env \<Rightarrow> config_state \<Rightarrow> decider option \<Rightarrow> (rstring \<times> nat) option \<Rightarrow> rstring option \<Rightarrow>
   config_state \<times> (reply, accepted) result" where
  "http_connect_accept env st decider authority client =
     (case authority of
        None \<Rightarrow> (st, Err (text_response 400 (lit ''missing authority'')))
      | Some (target_host, port) \<Rightarrow>
          (let host = normalize_host target_host; connect = Some (lit ''CONNECT'') in
           if host = [] then (st, Err (text_response 400 (lit ''invalid host'')))
           else (case is_enabled env st of
             Inl _ \<Rightarrow> (st, Err internal_error)
           | Inr (st, False) \<Rightarrow>
               (case proxy_disabled_response env st host client connect (lit ''http-connect'') of
                  (st, r) \<Rightarrow> (st, Err r))
           | Inr (st, True) \<Rightarrow>
               (case evaluate_host_policy_with_target env st decider
                       \<lparr>rq_protocol = HttpsConnect, rq_host = host, rq_port = port, rq_client_addr = client,
                        rq_method = connect, rq_command = None, rq_exec_policy_hint = None\<rparr> of
                  Inl _ \<Rightarrow> (st, Err internal_error)
                | Inr (st, NetDeny reason, _) \<Rightarrow>
                    (note_blocked env st host reason client connect None (lit ''http-connect''), Err (blocked_text reason))
                | Inr (st, NetAllow, target) \<Rightarrow>
                    (case network_mode_of env st of
                       Inl _ \<Rightarrow> (st, Err internal_error)
                     | Inr (st, Limited) \<Rightarrow>
                         (note_blocked env st host (lit ''method_not_allowed'') client connect (Some Limited)
                            (lit ''http-connect''),
                          Err (blocked_text (lit ''method_not_allowed'')))
                     | Inr (st, Full) \<Rightarrow>
                         (st, Ok \<lparr>ac_target = (target_host, port), ac_validated = target\<rparr>))))))"

section \<open>SOCKS5\<close>

datatype socks_error = InvalidHost | ProxyDisabled | SocksBlocked | ProxyFailure | ConnectFailed connect_error

definition handle_socks5_tcp ::
  "net_env \<Rightarrow> config_state \<Rightarrow> decider option \<Rightarrow> rstring \<times> nat \<Rightarrow> rstring option \<Rightarrow>
   config_state \<times> (socks_error, connect_plan) result" where
  "handle_socks5_tcp env st decider authority client =
     (let host = normalize_host (fst authority); port = snd authority in
      if host = [] then (st, Err InvalidHost)
      else (case is_enabled env st of
        Inl _ \<Rightarrow> (st, Err ProxyFailure)
      | Inr (st, False) \<Rightarrow>
          (note_blocked env st host (lit ''proxy_disabled'') client None None (lit ''socks5''), Err ProxyDisabled)
      | Inr (st, True) \<Rightarrow>
          (case network_mode_of env st of
             Inl _ \<Rightarrow> (st, Err ProxyFailure)
           | Inr (st, Limited) \<Rightarrow>
               (note_blocked env st host (lit ''method_not_allowed'') client None (Some Limited) (lit ''socks5''),
                Err SocksBlocked)
           | Inr (st, Full) \<Rightarrow>
               (case evaluate_host_policy_with_target env st decider
                       \<lparr>rq_protocol = Socks5Tcp, rq_host = host, rq_port = port, rq_client_addr = client,
                        rq_method = None, rq_command = None, rq_exec_policy_hint = None\<rparr> of
                  Inl _ \<Rightarrow> (st, Err ProxyFailure)
                | Inr (st, NetDeny reason, _) \<Rightarrow>
                    (note_blocked env st host reason client None None (lit ''socks5''), Err SocksBlocked)
                | Inr (st, NetAllow, target) \<Rightarrow>
                    (case connector_serve (Some authority) target None of
                       Inl e \<Rightarrow> (st, Err (ConnectFailed e))
                     | Inr plan \<Rightarrow> (st, Ok plan))))))"

text \<open>
  The UDP inspector gives back the payload to relay, or no payload.  The address of the datagram is the
  printed IP address.
\<close>

definition inspect_socks5_udp ::
  "net_env \<Rightarrow> config_state \<Rightarrow> decider option \<Rightarrow> rstring \<times> nat \<Rightarrow> rstring option \<Rightarrow> 'p \<Rightarrow>
   config_state \<times> (socks_error, 'p option) result" where
  "inspect_socks5_udp env st decider server client payload =
     (let host = normalize_host (fst server); port = snd server in
      if host = [] then (st, Err InvalidHost)
      else (case is_enabled env st of
        Inl _ \<Rightarrow> (st, Err ProxyFailure)
      | Inr (st, False) \<Rightarrow>
          (note_blocked env st host (lit ''proxy_disabled'') client None None (lit ''socks5-udp''), Ok None)
      | Inr (st, True) \<Rightarrow>
          (case network_mode_of env st of
             Inl _ \<Rightarrow> (st, Err ProxyFailure)
           | Inr (st, Limited) \<Rightarrow>
               (note_blocked env st host (lit ''method_not_allowed'') client None (Some Limited) (lit ''socks5-udp''),
                Ok None)
           | Inr (st, Full) \<Rightarrow>
               (case evaluate_host_policy env st decider
                       \<lparr>rq_protocol = Socks5Udp, rq_host = host, rq_port = port, rq_client_addr = client,
                        rq_method = None, rq_command = None, rq_exec_policy_hint = None\<rparr> of
                  Inl _ \<Rightarrow> (st, Err ProxyFailure)
                | Inr (st, NetDeny reason) \<Rightarrow>
                    (note_blocked env st host reason client None None (lit ''socks5-udp''), Ok None)
                | Inr (st, NetAllow) \<Rightarrow> (st, Ok (Some payload))))))"

section \<open>Plain HTTP\<close>

text \<open>
  What the handler reads of the platform: whether Unix sockets may be proxied at all (macOS only),
  normalisation of an absolute path, and canonicalisation through the file system.
\<close>

record platform =
  unix_sockets_supported :: bool
  absolutize :: "rstring \<Rightarrow> rstring option"
  canonicalize :: "rstring \<Rightarrow> rstring option"

definition is_unix_socket_allowed ::
  "platform \<Rightarrow> net_env \<Rightarrow> config_state \<Rightarrow> rstring \<Rightarrow> (config_error, config_state \<times> bool) result" where
  "is_unix_socket_allowed pf env st path =
     and_then (reload_if_needed env st) (\<lambda>st.
       Ok (st,
         if \<not> unix_sockets_supported pf then False
         else if \<not> starts_with [47] path then False
         else (case absolutize pf path of
                 None \<Rightarrow> False
               | Some requested_abs \<Rightarrow>
                   list_ex (\<lambda>allowed.
                     allowed = path \<or>
                     (case (canonicalize pf requested_abs, canonicalize pf allowed) of
                        (Some r, Some a) \<Rightarrow> a = r
                      | _ \<Rightarrow> False)) (allow_unix_sockets (np_policy (cs_config st))))))"

record plain_request =
  pr_method :: rstring
  pr_unix_socket :: "rstring option option"
  pr_authority :: "(rstring \<times> nat) option"
  pr_client :: "rstring option"

text \<open>\<open>pr_unix_socket\<close> is the \<^verbatim>\<open>x-unix-socket\<close> header: absent, not text, or a path.\<close>

datatype forward =
    ToUnixSocket rstring
  | ToHost "rstring \<times> nat" "validated_target option" bool

definition allow_upstream_proxy_of :: "net_env \<Rightarrow> config_state \<Rightarrow> (config_error, config_state \<times> bool) result" where
  "allow_upstream_proxy_of env st =
     and_then (reload_if_needed env st) (\<lambda>st. Ok (st, allow_upstream_proxy (cs_config st)))"

definition unix_socket_request ::
  "platform \<Rightarrow> net_env \<Rightarrow> config_state \<Rightarrow> plain_request \<Rightarrow> bool \<Rightarrow> rstring option \<Rightarrow>
   config_state \<times> (reply, forward) result" where
  "unix_socket_request pf env st req permitted header =
     (case header of
        None \<Rightarrow> (st, Err (text_response 400 (lit ''invalid x-unix-socket header'')))
      | Some socket_path \<Rightarrow>
          (case is_enabled env st of
             Inl _ \<Rightarrow> (st, Err internal_error)
           | Inr (st, False) \<Rightarrow>
               (case proxy_disabled_response env st socket_path (pr_client req) (Some (pr_method req)) (lit ''unix-socket'') of
                  (st, r) \<Rightarrow> (st, Err r))
           | Inr (st, True) \<Rightarrow>
               (if \<not> permitted then (st, Err (json_blocked (lit ''unix-socket'') (lit ''method_not_allowed'')))
                else if \<not> unix_sockets_supported pf
                then (st, Err (text_response 501 (lit ''unix sockets unsupported'')))
                else (case is_unix_socket_allowed pf env st socket_path of
                        Inl _ \<Rightarrow> (st, Err internal_error)
                      | Inr (st, True) \<Rightarrow> (st, Ok (ToUnixSocket socket_path))
                      | Inr (st, False) \<Rightarrow> (st, Err (json_blocked (lit ''unix-socket'') (lit ''not_allowed'')))))))"

definition host_request ::
  "net_env \<Rightarrow> config_state \<Rightarrow> decider option \<Rightarrow> plain_request \<Rightarrow> bool \<Rightarrow> config_state \<times> (reply, forward) result" where
  "host_request env st decider req permitted =
     (case pr_authority req of
        None \<Rightarrow> (st, Err (text_response 400 (lit ''missing host'')))
      | Some (target_host, port) \<Rightarrow>
          (let host = normalize_host target_host; client = pr_client req; meth = Some (pr_method req) in
           (case is_enabled env st of
              Inl _ \<Rightarrow> (st, Err internal_error)
            | Inr (st, False) \<Rightarrow>
                (case proxy_disabled_response env st host client meth (lit ''http'') of (st, r) \<Rightarrow> (st, Err r))
            | Inr (st, True) \<Rightarrow>
                (case evaluate_host_policy_with_target env st decider
                        \<lparr>rq_protocol = Http, rq_host = host, rq_port = port, rq_client_addr = client,
                         rq_method = meth, rq_command = None, rq_exec_policy_hint = None\<rparr> of
                   Inl _ \<Rightarrow> (st, Err internal_error)
                 | Inr (st, NetDeny reason, _) \<Rightarrow>
                     (note_blocked env st host reason client meth None (lit ''http''), Err (json_blocked host reason))
                 | Inr (st, NetAllow, target) \<Rightarrow>
                     (if \<not> permitted
                      then (note_blocked env st host (lit ''method_not_allowed'') client meth (Some Limited) (lit ''http''),
                            Err (json_blocked host (lit ''method_not_allowed'')))
                      else (case allow_upstream_proxy_of env st of
                              Inl _ \<Rightarrow> (st, Err internal_error)
                            | Inr (st, upstream) \<Rightarrow> (st, Ok (ToHost (target_host, port) target upstream))))))))"

definition http_plain_proxy ::
  "platform \<Rightarrow> net_env \<Rightarrow> config_state \<Rightarrow> decider option \<Rightarrow> plain_request \<Rightarrow> config_state \<times> (reply, forward) result" where
  "http_plain_proxy pf env st decider req =
     (case method_allowed env st (pr_method req) of
        Inl _ \<Rightarrow> (st, Err internal_error)
      | Inr (st, permitted) \<Rightarrow>
          (case pr_unix_socket req of
             Some header \<Rightarrow> unix_socket_request pf env st req permitted header
           | None \<Rightarrow> host_request env st decider req permitted))"

section \<open>Lemmas\<close>

lemma mtime_unchanged [simp]: "\<not> mtime_changed t t"
  by (simp add: mtime_changed_def split: option.split)

lemma built_mtimes:
  "build_config_state libs mt loaded = Inr st \<Longrightarrow> list_all (\<lambda>l. lm_mtime l = mt (lm_path l)) (cs_layer_mtimes st)"
  by (auto simp: build_config_state_def and_then_eq_Inr collect_layer_mtimes_def new_layer_mtime_def list_all_iff)

lemma reload_idem:
  assumes "reload_if_needed env st = Inr st'"
  shows "reload_if_needed env st' = Inr st'"
proof (cases "list_ex (\<lambda>l. mtime_changed (env_file_mtime env (lm_path l)) (lm_mtime l)) (cs_layer_mtimes st)")
  case True
  then obtain built where "build_config_state (env_libs env) (env_file_mtime env) (env_loaded env) = Inr built"
    and "st' = built\<lparr>cs_blocked := cs_blocked st\<rparr>"
    using assms by (auto simp: reload_if_needed_def force_reload_def and_then_eq_Inr)
  with built_mtimes [of "env_libs env" "env_file_mtime env" "env_loaded env" built] show ?thesis
    by (auto simp: reload_if_needed_def list_all_iff list_ex_iff)
next
  case False
  then show ?thesis
    using assms by (auto simp: reload_if_needed_def)
qed

lemma connector_follows_check:
  assumes "target \<noteq> None \<longrightarrow> vt_host (the target) = normalize_host host \<and> vt_port (the target) = port"
    and "connector_serve (Some (host, port)) target hop = Inr plan"
  shows "plan = (case target of Some v \<Rightarrow> Pinned (vt_addresses v) | None \<Rightarrow> ResolveName host port)"
  using assms by (auto simp: connector_serve_def split: option.splits if_splits)

lemma is_enabled_Inr: "is_enabled env st = Inr (st', b) \<longleftrightarrow> reload_if_needed env st = Inr st' \<and> b = np_enabled (cs_config st')"
  by (auto simp: is_enabled_def and_then_eq_Inr)

lemma network_mode_of_Inr: "network_mode_of env st = Inr (st', m) \<longleftrightarrow> reload_if_needed env st = Inr st' \<and> m = np_mode (cs_config st')"
  by (auto simp: network_mode_of_def and_then_eq_Inr)

lemma method_allowed_Inr:
  "method_allowed env st meth = Inr (st', b) \<longleftrightarrow> reload_if_needed env st = Inr st' \<and> b = allows_method (np_mode (cs_config st')) meth"
  by (auto simp: method_allowed_def and_then_eq_Inr)

lemma allow_upstream_proxy_of_Inr:
  "allow_upstream_proxy_of env st = Inr (st', b) \<longleftrightarrow> reload_if_needed env st = Inr st' \<and> b = allow_upstream_proxy (cs_config st')"
  by (auto simp: allow_upstream_proxy_of_def and_then_eq_Inr)

lemmas reads = is_enabled_Inr network_mode_of_Inr method_allowed_Inr allow_upstream_proxy_of_Inr

lemma reload_twice: "reload_if_needed env st = Inr s1 \<Longrightarrow> reload_if_needed env s1 = Inr s2 \<Longrightarrow> s2 = s1"
  using reload_idem [of env st s1] by simp

lemma evaluate_reloads: "evaluate_host_policy_with_target env st d rq = Inr (st', r) \<Longrightarrow> reload_if_needed env st = Inr st'"
  by (auto simp: evaluate_host_policy_with_target_def host_blocked_with_addresses_def and_then_eq_Inr Let_def
      case_prod_unfold)

lemma evaluate_same:
  "reload_if_needed env st = Inr s1 \<Longrightarrow> evaluate_host_policy_with_target env s1 d rq = Inr (s2, r) \<Longrightarrow> s2 = s1"
  using evaluate_reloads reload_twice by blast

text \<open>What holds of the loaded state when a connection for a host is let through, and of the plan to connect.\<close>

definition target_checked :: "rstring \<Rightarrow> nat \<Rightarrow> validated_target option \<Rightarrow> bool" where
  "target_checked host port target \<longleftrightarrow>
     (target \<noteq> None \<longrightarrow> vt_host (the target) = host \<and> vt_port (the target) = port)"

definition may_connect :: "net_env \<Rightarrow> config_state \<Rightarrow> rstring \<Rightarrow> connect_plan \<Rightarrow> bool" where
  "may_connect env st host plan \<longleftrightarrow>
     \<not> is_match (globs (env_libs env)) (cs_deny_set st) host \<and>
     (allow_local_binding (np_policy (cs_config st)) \<or>
      is_explicit_local_allowlisted (allowed_domains (np_policy (cs_config st))) host \<or>
      (\<exists>as. plan = Pinned as \<and> as \<noteq> [] \<and> list_all (\<lambda>a. public_ip (sa_ip a)) as))"

lemma socks_accepts:
  assumes "handle_socks5_tcp env st d (h, p) c = (st', Inr plan)"
  obtains target where "reload_if_needed env st = Inr st'" "np_enabled (cs_config st')" "np_mode (cs_config st') = Full"
    "evaluate_host_policy_with_target env st' d
       \<lparr>rq_protocol = Socks5Tcp, rq_host = normalize_host h, rq_port = p, rq_client_addr = c,
        rq_method = None, rq_command = None, rq_exec_policy_hint = None\<rparr> = Inr (st', NetAllow, target)"
    "connector_serve (Some (h, p)) target None = Inr plan"
  using assms unfolding handle_socks5_tcp_def
  by (auto simp: Let_def reads split: if_splits sum.splits bool.splits network_mode.splits network_decision.splits
      prod.splits dest: evaluate_reloads reload_twice)

lemma connect_accepts:
  assumes "http_connect_accept env st d (Some (h, p)) c = (st', Inr a)"
  shows "reload_if_needed env st = Inr st' \<and> np_enabled (cs_config st') \<and> np_mode (cs_config st') = Full \<and>
    evaluate_host_policy_with_target env st' d
       \<lparr>rq_protocol = HttpsConnect, rq_host = normalize_host h, rq_port = p, rq_client_addr = c,
        rq_method = Some (lit ''CONNECT''), rq_command = None, rq_exec_policy_hint = None\<rparr> = Inr (st', NetAllow, ac_validated a) \<and>
    ac_target a = (h, p)"
proof -
  let ?rq = "\<lparr>rq_protocol = HttpsConnect, rq_host = normalize_host h, rq_port = p, rq_client_addr = c,
    rq_method = Some (lit ''CONNECT''), rq_command = None, rq_exec_policy_hint = None\<rparr>"
  from assms obtain s1 s2 where s: "reload_if_needed env st = Inr s1" "np_enabled (cs_config s1)"
    "evaluate_host_policy_with_target env s1 d ?rq = Inr (s2, NetAllow, ac_validated a)"
    "reload_if_needed env s2 = Inr st'" "np_mode (cs_config st') = Full" "ac_target a = (h, p)"
    unfolding http_connect_accept_def
    by (auto simp: Let_def reads proxy_disabled_response_def simp del: lit_Cons
        split: if_splits sum.splits bool.splits network_mode.splits network_decision.splits prod.splits)
  moreover have "s2 = s1"
    using s(1,3) by (rule evaluate_same)
  moreover from this have "st' = s1"
    using s(1,4) reload_twice by blast
  ultimately show ?thesis
    by (simp del: lit_Cons)
qed

lemma plan_of_allowed:
  assumes "evaluate_host_policy_with_target env st' d rq = Inr (st', NetAllow, target)"
    and "rq_host rq = normalize_host h" "rq_port rq = p" "host_parse (normalize_host h) = Some host"
    and "connector_serve (Some (h, p)) target None = Inr plan"
  shows "may_connect env st' host plan"
proof -
  have e: "cleared_host env st' host (map_option vt_addresses target)"
    "target \<noteq> None \<longrightarrow> vt_host (the target) = normalize_host h \<and> vt_port (the target) = p"
    using evaluate_allow [OF assms(1)] assms(2-4) by simp_all
  have "plan = (case target of Some v \<Rightarrow> Pinned (vt_addresses v) | None \<Rightarrow> ResolveName h p)"
    using connector_follows_check [OF e(2) assms(5)] .
  then show ?thesis
    using e(1) by (cases target) (auto simp: cleared_host_def may_connect_def)
qed


text \<open>
  A plain request that is forwarded: the proxy is enabled and the mode admits the method.  A Unix socket is
  reached only where the platform supports it, under an absolute path that is allowed as written or names
  the same file; a host is cleared as for a tunnel, and an upstream proxy is used exactly as configured.
\<close>

lemma unix_forward_allowed:
  assumes "reload_if_needed env st0 = Inr st" "unix_socket_request pf env st req permitted header = (st', Inr f)"
  shows "st' = st \<and> np_enabled (cs_config st) \<and> permitted \<and> unix_sockets_supported pf \<and>
    (\<exists>path. header = Some path \<and> f = ToUnixSocket path \<and> is_unix_socket_allowed pf env st path = Inr (st, True))"
proof -
  from assms(2) obtain s1 path where s: "reload_if_needed env st = Inr s1" "np_enabled (cs_config s1)" "permitted"
    "unix_sockets_supported pf" "header = Some path" "f = ToUnixSocket path"
    "is_unix_socket_allowed pf env s1 path = Inr (st', True)"
    unfolding unix_socket_request_def
    by (auto simp: reads proxy_disabled_response_def simp del: lit_Cons
        split: if_splits sum.splits bool.splits option.splits prod.splits)
  moreover have "s1 = st"
    using assms(1) s(1) reload_twice by blast
  moreover have "st' = s1"
    using s(7) assms(1) \<open>s1 = st\<close> reload_idem [OF assms(1)] by (auto simp: is_unix_socket_allowed_def)
  ultimately show ?thesis
    by simp
qed

lemma host_forward_cleared:
  assumes "reload_if_needed env st0 = Inr st" "host_request env st d req permitted = (st', Inr f)"
    "pr_authority req = Some (h, p)" "host_parse (normalize_host h) = Some host"
  shows "st' = st \<and> np_enabled (cs_config st) \<and> permitted \<and>
    (\<exists>target. f = ToHost (h, p) target (allow_upstream_proxy (cs_config st)) \<and>
       cleared_host env st host (map_option vt_addresses target))"
proof -
  let ?rq = "\<lparr>rq_protocol = Http, rq_host = normalize_host h, rq_port = p, rq_client_addr = pr_client req,
    rq_method = Some (pr_method req), rq_command = None, rq_exec_policy_hint = None\<rparr>"
  from assms(2,3) obtain s1 s2 target where s: "reload_if_needed env st = Inr s1" "np_enabled (cs_config s1)" "permitted"
    "evaluate_host_policy_with_target env s1 d ?rq = Inr (s2, NetAllow, target)"
    "reload_if_needed env s2 = Inr st'" "f = ToHost (h, p) target (allow_upstream_proxy (cs_config st'))"
    unfolding host_request_def
    by (auto simp: Let_def reads proxy_disabled_response_def simp del: lit_Cons
        split: if_splits sum.splits bool.splits network_decision.splits prod.splits)
  have same: "s1 = st" "s2 = st" "st' = st"
    using assms(1) s(1,4,5) reload_twice evaluate_same reload_idem by blast+
  then show ?thesis
    using s evaluate_allow [OF s(4)] assms(4) by auto
qed

lemma plain_requests_are_cleared:
  assumes "http_plain_proxy pf env st d req = (st', Inr f)"
    and "pr_authority req = Some (h, p)" "host_parse (normalize_host h) = Some host"
  shows "np_enabled (cs_config st') \<and> allows_method (np_mode (cs_config st')) (pr_method req) \<and>
    (case f of
       ToUnixSocket path \<Rightarrow> unix_sockets_supported pf \<and> is_unix_socket_allowed pf env st' path = Inr (st', True)
     | ToHost target validated upstream \<Rightarrow>
         target = (h, p) \<and> upstream = allow_upstream_proxy (cs_config st') \<and>
         cleared_host env st' host (map_option vt_addresses validated))"
proof -
  from assms(1) obtain s1 where s: "reload_if_needed env st = Inr s1"
    "(case pr_unix_socket req of
        Some header \<Rightarrow> unix_socket_request pf env s1 req (allows_method (np_mode (cs_config s1)) (pr_method req)) header
      | None \<Rightarrow> host_request env s1 d req (allows_method (np_mode (cs_config s1)) (pr_method req))) = (st', Inr f)"
    unfolding http_plain_proxy_def by (auto simp: reads split: sum.splits prod.splits)
  show ?thesis
  proof (cases "pr_unix_socket req")
    case None
    with s(2) host_forward_cleared [OF s(1) _ assms(2,3)] show ?thesis
      by fastforce
  next
    case (Some header)
    with s(2) unix_forward_allowed [OF s(1)] show ?thesis
      by fastforce
  qed
qed

definition sample_libs :: net_libs where
  "sample_libs = \<lparr>globs = simple_crate, url_host = (\<lambda>d. Some (to_ascii_lowercase d))\<rparr>"

definition sample_env :: net_env where
  "sample_env =
     \<lparr>env_libs = sample_libs, env_file_mtime = (\<lambda>_. None), env_loaded = Inl [],
      env_lookup_host = (\<lambda>_ port. Some [\<lparr>sa_ip = V4 0x08080808, sa_port = port\<rparr>]), env_now = 0\<rparr>"

definition sample_state :: config_state where
  "sample_state =
     \<lparr>cs_config = default_network_proxy_settings
        \<lparr>np_enabled := True, np_policy := default_network_policy\<lparr>allowed_domains := [lit ''example.com'']\<rparr>\<rparr>,
      cs_allow_set = [lit ''example.com''], cs_deny_set = [], cs_constraints = no_constraints,
      cs_layer_mtimes = [], cs_cfg_path = [], cs_blocked = []\<rparr>"

lemma sample_state_current: "reload_if_needed sample_env sample_state = Inr sample_state"
  by (simp add: reload_if_needed_def sample_state_def)

lemma sample_host:
  "normalize_host (lit ''Example.com.'') = lit ''example.com''"
  "host_parse (lit ''example.com'') = Some (lit ''example.com'')"
  "local_literal (lit ''example.com'') = False"
  by (simp_all add: pattern_eval host_parse_def local_literal_def is_loopback_host_def without_scope_def parse_ip_eval)

lemma sample_resolves:
  "resolve_addresses sample_env (lit ''example.com'') 443 = Some [\<lparr>sa_ip = V4 0x08080808, sa_port = 443\<rparr>]"
  by (simp add: resolve_addresses_def sample_env_def parse_ip_eval)

lemma sample_public: "\<not> is_non_public_ip (V4 0x08080808)"
  by (simp add: non_public_is_the_blocks public_v4_def non_public_blocks_def in_block_def)

lemma sample_decision:
  "host_decision sample_env sample_state (lit ''example.com'') 443 =
     (HostAllowed, Some [\<lparr>sa_ip = V4 0x08080808, sa_port = 443\<rparr>])"
proof -
  have "is_match (globs (env_libs sample_env)) (cs_allow_set sample_state) (lit ''example.com'')"
    by (simp add: sample_env_def sample_libs_def sample_state_def is_match_def glob_hits_def simple_crate_def eq_ignore_ascii_case_def)
  moreover have "\<not> is_match (globs (env_libs sample_env)) (cs_deny_set sample_state) (lit ''example.com'')"
    by (simp add: sample_state_def is_match_def)
  moreover have "allowed_domains (np_policy (cs_config sample_state)) \<noteq> []" "\<not> allow_local_binding (np_policy (cs_config sample_state))"
    by (simp_all add: sample_state_def default_network_proxy_settings_def default_network_policy_def)
  ultimately show ?thesis
    using sample_public
    by (simp add: host_decision_def sample_host sample_resolves filter_option_def Let_def del: lit_Cons is_non_public_ip.simps)
qed


section \<open>Interleavings\<close>

text \<open>
  The shared state, and the mode changes that have been checked and not yet written.  Every task is a
  sequence of these steps, each under its own view of the outside world; all that the operations
  require of one another is that the libraries are the same.
\<close>

record world =
  w_state :: config_state
  w_pending :: "(network_mode \<times> constraints) list"

inductive net_step :: "net_libs \<Rightarrow> world \<Rightarrow> world \<Rightarrow> bool" for libs where
  read_step: "env_libs env = libs \<Longrightarrow> reload_if_needed env (w_state w) = Inr st \<Longrightarrow>
    net_step libs w (w\<lparr>w_state := st\<rparr>)"
| force_step: "env_libs env = libs \<Longrightarrow> force_reload env (w_state w) = Inr st \<Longrightarrow>
    net_step libs w (w\<lparr>w_state := st\<rparr>)"
| record_step: "env_libs env = libs \<Longrightarrow> record_blocked env (w_state w) entry = Inr st \<Longrightarrow>
    net_step libs w (w\<lparr>w_state := st\<rparr>)"
| drain_step: "env_libs env = libs \<Longrightarrow> drain_blocked env (w_state w) = Inr (st, out) \<Longrightarrow>
    net_step libs w (w\<lparr>w_state := st\<rparr>)"
| check_step: "env_libs env = libs \<Longrightarrow> set_mode_check env (w_state w) mode = Inr (st, c) \<Longrightarrow>
    net_step libs w (w\<lparr>w_state := st, w_pending := (mode, c) # w_pending w\<rparr>)"
| commit_step: "(mode, c) \<in> set (w_pending w) \<Longrightarrow> set_mode_commit mode c (w_state w) = Some st \<Longrightarrow>
    net_step libs w (w\<lparr>w_state := st, w_pending := remove1 (mode, c) (w_pending w)\<rparr>)"
| retry_step: "(mode, c) \<in> set (w_pending w) \<Longrightarrow> set_mode_commit mode c (w_state w) = None \<Longrightarrow>
    net_step libs w (w\<lparr>w_pending := remove1 (mode, c) (w_pending w)\<rparr>)"

inductive net_reachable :: "net_libs \<Rightarrow> world \<Rightarrow> bool" for libs where
  started: "build_config_state libs mt loaded = Inr st \<Longrightarrow> net_reachable libs \<lparr>w_state = st, w_pending = []\<rparr>"
| stepped: "net_reachable libs w \<Longrightarrow> net_step libs w w' \<Longrightarrow> net_reachable libs w'"

definition mode_within :: "network_mode \<times> constraints \<Rightarrow> bool" where
  "mode_within mc \<longleftrightarrow> (c_mode (snd mc) = Some Limited \<longrightarrow> fst mc = Limited)"

definition net_inv :: "net_libs \<Rightarrow> world \<Rightarrow> bool" where
  "net_inv libs w \<longleftrightarrow>
     within_constraints (url_host libs) (cs_config (w_state w)) (cs_constraints (w_state w)) \<and>
     length (cs_blocked (w_state w)) \<le> MAX_BLOCKED_EVENTS \<and>
     list_all mode_within (w_pending w)"

lemma within_mode_change:
  "within_constraints uh (cfg\<lparr>np_mode := m\<rparr>) c \<longleftrightarrow>
     within_constraints uh (cfg\<lparr>np_mode := Limited\<rparr>) c \<and> mode_within (m, c)"
  by (cases "c_allowed_domains c"; cases "c_denied_domains c"; cases "c_allow_unix_sockets c")
    (simp_all add: within_constraints_def mode_within_def, blast+)

lemma within_limited: "within_constraints uh cfg c \<Longrightarrow> within_constraints uh (cfg\<lparr>np_mode := Limited\<rparr>) c"
  by (cases "c_allowed_domains c"; cases "c_denied_domains c"; cases "c_allow_unix_sockets c")
    (simp_all add: within_constraints_def)

lemma pop_excess_length: "length (pop_excess n xs) \<le> n"
  by (simp add: pop_excess_drop)

lemma net_inv_step:
  assumes "net_step libs w w'" "net_inv libs w"
  shows "net_inv libs w'"
  using assms
proof (induction rule: net_step.cases)
  case (read_step env w st)
  then show ?case
    using reload_within [of env "w_state w" st] reload_blocked [of env "w_state w" st] by (auto simp: net_inv_def)
next
  case (force_step env w st)
  then show ?case
    using built_state_within by (auto simp: net_inv_def force_reload_def and_then_eq_Inr)
next
  case (record_step env w entry st)
  then obtain st1 where "reload_if_needed env (w_state w) = Inr st1"
    "st = st1\<lparr>cs_blocked := pop_excess MAX_BLOCKED_EVENTS (cs_blocked st1 @ [entry])\<rparr>"
    by (auto simp: record_blocked_def and_then_eq_Inr)
  then show ?case
    using record_step reload_within [of env "w_state w" st1] pop_excess_length by (auto simp: net_inv_def)
next
  case (drain_step env w st out)
  then obtain st1 where "reload_if_needed env (w_state w) = Inr st1" "st = st1\<lparr>cs_blocked := []\<rparr>"
    by (auto simp: drain_blocked_def and_then_eq_Inr)
  then show ?case
    using drain_step reload_within [of env "w_state w" st1] by (auto simp: net_inv_def)
next
  case (check_step env w mode st c)
  then have "reload_if_needed env (w_state w) = Inr st" "c = cs_constraints st"
    "within_constraints (url_host libs) ((cs_config st)\<lparr>np_mode := mode\<rparr>) c"
    by (auto simp: set_mode_check_def and_then_eq_Inr Let_def map_err_def validate_iff_within split: sum.splits)
  moreover from this have "mode_within (mode, c)"
    using within_mode_change by blast
  ultimately show ?case
    using check_step reload_within [of env "w_state w" st] reload_blocked [of env "w_state w" st]
    by (auto simp: net_inv_def)
next
  case (commit_step mode c w st)
  then have "mode_within (mode, c)" "cs_constraints (w_state w) = c"
    "st = (w_state w)\<lparr>cs_config := (cs_config (w_state w))\<lparr>np_mode := mode\<rparr>\<rparr>"
    by (auto simp: net_inv_def list_all_iff set_mode_commit_def split: if_splits)
  then show ?case
    using commit_step within_mode_change [where cfg = "cs_config (w_state w)" and uh = "url_host libs" and m = mode and c = c]
      within_limited [of "url_host libs" "cs_config (w_state w)" c]
    by (auto simp: net_inv_def list_all_iff dest: set_remove1_subset [THEN subsetD])
next
  case (retry_step mode c w)
  then show ?case
    by (auto simp: net_inv_def list_all_iff dest: set_remove1_subset [THEN subsetD])
qed

text \<open>
  C37.  Under every interleaving of reloads, mode changes, recorded and drained requests, the running
  configuration satisfies the managed constraints it carries, and at most 200 blocked requests are kept.
  Mode changes give up the lock between check and write; re-checking only that the constraints are the
  same is enough.
\<close>

theorem managed_constraints_always_hold:
  assumes "net_reachable libs w"
  shows "validate_policy_against_constraints (url_host libs) (cs_config (w_state w)) (cs_constraints (w_state w)) = Ok () \<and>
         length (cs_blocked (w_state w)) \<le> MAX_BLOCKED_EVENTS"
proof -
  have "net_inv libs w"
    using assms
  proof (induction rule: net_reachable.induct)
    case (started mt loaded st)
    then show ?case
      using built_state_within by (auto simp: net_inv_def)
  next
    case (stepped w w')
    then show ?case
      using net_inv_step by blast
  qed
  then show ?thesis
    by (simp add: net_inv_def validate_iff_within)
qed

text \<open>A run: the state is built under a managed limit to read-only access, and a change to the same mode goes through.\<close>

definition limited_layers :: loaded_config where
  "limited_layers =
     \<lparr>ld_layers = [\<lparr>layer_name = Mdm [] [], layer_disabled = False,
        layer_partial = Ok (no_constraints\<lparr>c_mode := Some Limited\<rparr>)\<rparr>],
      ld_effective = Ok (default_network_proxy_settings\<lparr>np_mode := Limited\<rparr>), ld_cfg_path = []\<rparr>"

definition limited_state :: config_state where
  "limited_state =
     \<lparr>cs_config = default_network_proxy_settings\<lparr>np_mode := Limited\<rparr>, cs_allow_set = [], cs_deny_set = [],
      cs_constraints = no_constraints\<lparr>c_mode := Some Limited\<rparr>, cs_layer_mtimes = [], cs_cfg_path = [], cs_blocked = []\<rparr>"

lemma limited_state_built: "build_config_state sample_libs (\<lambda>_. None) (Ok limited_layers) = Inr limited_state"
proof -
  let ?cfg = "default_network_proxy_settings\<lparr>np_mode := Limited\<rparr>" and ?c = "no_constraints\<lparr>c_mode := Some Limited\<rparr>"
  have "constraints_from_trusted_layers (ld_layers limited_layers) = Inr ?c"
    by (simp add: limited_layers_def constraints_from_trusted_layers_def enabled_layers_def merge_constraints_def
        set_if_given_def no_constraints_def)
  moreover have "validate_policy_against_constraints uh ?cfg ?c = Inr ()" for uh
    by (simp add: settings_eval)
  ultimately have "enforce_trusted_constraints sample_libs (ld_layers limited_layers) ?cfg = Inr ?c"
    by (simp add: enforce_trusted_constraints_def map_err_def)
  moreover have "np_policy default_network_proxy_settings = default_network_policy"
    by (simp add: default_network_proxy_settings_def)
  ultimately show ?thesis
    by (simp add: build_config_state_def limited_layers_def limited_state_def map_err_def default_network_policy_def
        collect_layer_mtimes_def enabled_layers_def compile_globset_def sample_libs_def simple_crate_def)
qed

theorem managed_constraints_always_hold_witness:
  "\<exists>w. net_reachable sample_libs w \<and> w_state w = limited_state \<and> w_pending w = [(Limited, cs_constraints limited_state)] \<and>
     validate_policy_against_constraints (url_host sample_libs) (cs_config (w_state w)) (cs_constraints (w_state w)) = Ok ()"
proof -
  let ?w = "\<lparr>w_state = limited_state, w_pending = []\<rparr>"
  let ?w' = "?w\<lparr>w_state := limited_state, w_pending := (Limited, cs_constraints limited_state) # w_pending ?w\<rparr>"
  have "net_reachable sample_libs ?w"
    using limited_state_built by (rule started)
  moreover have "set_mode_check sample_env (w_state ?w) Limited = Inr (limited_state, cs_constraints limited_state)"
  proof -
    have "validate_policy_against_constraints uh ((cs_config limited_state)\<lparr>np_mode := Limited\<rparr>) (cs_constraints limited_state) = Inr ()" for uh
      by (simp add: settings_eval limited_state_def)
    moreover have "reload_if_needed sample_env limited_state = Inr limited_state"
      by (simp add: reload_if_needed_def limited_state_def)
    ultimately show ?thesis
      by (simp add: set_mode_check_def map_err_def)
  qed
  then have "net_step sample_libs ?w ?w'"
    by (intro check_step [of sample_env]) (simp_all add: sample_env_def)
  ultimately have "net_reachable sample_libs ?w'"
    by (rule stepped)
  with managed_constraints_always_hold [OF this] show ?thesis
    by (intro exI [of _ ?w']) simp
qed

end
