(* ===== verification/Ssrf_Guard.thy ===== *)
theory Ssrf_Guard
  imports Domain_Policy
begin

text \<open>
  \<^verbatim>\<open>gateway-server/src/security/ssrf.rs\<close>: outbound requests of the gateway.  A host is checked against a
  metadata list, a blocklist and an allowlist, resolved, and all its addresses are checked; the client is
  built with these addresses pinned.  Redirects are followed by hand, each hop checked anew, and a body is
  read up to a limit.

  The URL crate, the resolver and the HTTP client are parameters.  The resolver and the client run in a
  world that changes with every call, so two lookups of the same name may disagree.  The requests that are
  sent are collected in a trace together with the client that sends them.
\<close>

section \<open>Configuration\<close>

record ssrf_config =
  sc_allowlist :: "rstring list"
  sc_blocklist :: "rstring list"
  sc_max_redirects :: nat
  sc_timeout_ms :: nat

definition DEFAULT_MAX_REDIRECTS :: nat where
  "DEFAULT_MAX_REDIRECTS = 5"

definition DEFAULT_TIMEOUT_MS :: nat where
  "DEFAULT_TIMEOUT_MS = 15000"

definition DEFAULT_MAX_RESPONSE_BYTES :: nat where
  "DEFAULT_MAX_RESPONSE_BYTES = 5 * 1024 * 1024"

definition default_ssrf_config :: ssrf_config where
  "default_ssrf_config =
     \<lparr>sc_allowlist = [], sc_blocklist = [], sc_max_redirects = DEFAULT_MAX_REDIRECTS,
      sc_timeout_ms = DEFAULT_TIMEOUT_MS\<rparr>"

definition split_csv :: "rstring \<Rightarrow> rstring list" where
  "split_csv raw =
     filter (\<lambda>v. v \<noteq> []) (map (\<lambda>v. to_ascii_lowercase (trim v)) (split_on (of_char CHR '','') raw))"

text \<open>\<^verbatim>\<open>str::parse\<close> for a 64-bit unsigned integer: digits, optionally after a plus sign.\<close>

definition parse_unsigned :: "rstring \<Rightarrow> nat option" where
  "parse_unsigned s =
     (let ds = (case s of c # t \<Rightarrow> if c = of_char CHR ''+'' then t else s | [] \<Rightarrow> []);
          n = foldl (\<lambda>acc d. acc * 10 + (d - 48)) 0 ds
      in if ds \<noteq> [] \<and> list_all is_ascii_digit ds \<and> n \<le> usize_max then Some n else None)"

definition positive_or :: "nat \<Rightarrow> rstring option \<Rightarrow> nat" where
  "positive_or dflt v =
     (case v of None \<Rightarrow> dflt
      | Some s \<Rightarrow> (case parse_unsigned s of Some n \<Rightarrow> if 0 < n then n else dflt | None \<Rightarrow> dflt))"

definition ssrf_from_env :: "(rstring \<Rightarrow> rstring option) \<Rightarrow> ssrf_config" where
  "ssrf_from_env env =
     \<lparr>sc_allowlist = (case env (lit ''SAVFOX_SSRF_ALLOWLIST'') of Some v \<Rightarrow> split_csv v | None \<Rightarrow> []),
      sc_blocklist = (case env (lit ''SAVFOX_SSRF_BLOCKLIST'') of Some v \<Rightarrow> split_csv v | None \<Rightarrow> []),
      sc_max_redirects = positive_or DEFAULT_MAX_REDIRECTS (env (lit ''SAVFOX_SSRF_MAX_REDIRECTS'')),
      sc_timeout_ms = positive_or DEFAULT_TIMEOUT_MS (env (lit ''SAVFOX_SSRF_TIMEOUT_MS''))\<rparr>"

section \<open>Hosts and addresses\<close>

datatype ssrf_error =
    InvalidUrl rstring
  | UnsupportedScheme rstring
  | MissingHost
  | BlockedHost rstring
  | BlockedIp ip_addr
  | DnsResolve rstring rstring
  | RedirectLimitExceeded nat
  | TimedOut nat
  | HttpError rstring
  | BodyTooLarge nat

definition is_private_ipv4 :: "ipv4_addr \<Rightarrow> bool" where
  "is_private_ipv4 v4 \<longleftrightarrow>
     v4_is_private v4 \<or> v4_is_loopback v4 \<or> v4_is_link_local v4 \<or> v4_is_broadcast v4 \<or> v4_is_unspecified v4"

fun is_private_ip :: "ip_addr \<Rightarrow> bool" where
  "is_private_ip (V4 v4) = is_private_ipv4 v4"
| "is_private_ip (V6 v6) =
     (if v6_is_loopback v6 \<or> v6_is_unspecified v6 \<or> v6_is_unique_local v6 \<or> v6_is_unicast_link_local v6 \<or>
         v6_is_multicast v6
      then True
      else case to_ipv4_mapped v6 of
        Some v4 \<Rightarrow> is_private_ipv4 v4
      | None \<Rightarrow> (case to_ipv4 v6 of Some v4 \<Rightarrow> is_private_ipv4 v4 | None \<Rightarrow> False))"

definition normal_host :: "rstring \<Rightarrow> rstring" where
  "normal_host host = to_ascii_lowercase (trim_matches (\<lambda>c. c = of_char CHR ''.'') (trim host))"

definition is_metadata_hostname :: "rstring \<Rightarrow> bool" where
  "is_metadata_hostname host =
     (let host = normal_host host in host = lit ''metadata.google.internal'' \<or> host = lit ''169.254.169.254'')"

definition host_matches_pattern :: "rstring \<Rightarrow> rstring \<Rightarrow> bool" where
  "host_matches_pattern host pattern =
     (let host = normal_host host; pattern = normal_host pattern in
      if pattern = [] then False
      else if pattern = lit ''*'' then True
      else case strip_prefix (lit ''*.'') pattern of
        Some sfx \<Rightarrow> host = sfx \<or> ends_with (lit ''.'' @ sfx) host
      | None \<Rightarrow> host = pattern)"

definition host_blocked_by_policy :: "rstring \<Rightarrow> ssrf_config \<Rightarrow> bool" where
  "host_blocked_by_policy host cfg =
     (let host = to_ascii_lowercase host in
      if is_metadata_hostname host then True
      else if list_ex (host_matches_pattern host) (sc_blocklist cfg) then True
      else if sc_allowlist cfg = [] then False
      else \<not> list_ex (host_matches_pattern host) (sc_allowlist cfg))"

text \<open>
  The second test of \<^verbatim>\<open>validate_ip\<close> compares the printed address.  An IPv4 address prints as its octets; the
  text of an IPv6 address has a colon and differs from the literal.
\<close>

fun show_ip_is_metadata :: "ip_addr \<Rightarrow> bool" where
  "show_ip_is_metadata (V4 a) =
     (join_str (lit ''.'') (map (\<lambda>i. show_nat (octet a i)) [0, 1, 2, 3]) = lit ''169.254.169.254'')"
| "show_ip_is_metadata (V6 _) = False"

definition validate_ip :: "ip_addr \<Rightarrow> (ssrf_error, unit) result" where
  "validate_ip ip =
     (if is_private_ip ip then Err (BlockedIp ip)
      else if show_ip_is_metadata ip then Err (BlockedIp ip)
      else Ok ())"

section \<open>Resolution\<close>

record url =
  u_text :: rstring
  u_scheme :: rstring
  u_host :: "rstring option"
  u_port :: "nat option"

record url_parser =
  url_parse :: "rstring \<Rightarrow> (rstring, url) result"
  url_join :: "url \<Rightarrow> rstring \<Rightarrow> (rstring, url) result"

record pinned_client =
  pc_host :: rstring
  pc_addrs :: "(ip_addr \<times> nat) list"
  pc_timeout_ms :: nat

text \<open>A response: the status, the redirect target, and the body as the chunks that arrive, the last read possibly an error.\<close>

record response =
  rs_status :: nat
  rs_location :: "(rstring, rstring) result option"
  rs_content_type :: "rstring option"
  rs_content_length :: "nat option"
  rs_chunks :: "(rstring, 8 word list) result list"
  rs_in_time :: bool

datatype send_result = SendTimedOut | SendFailed rstring | Sent response

record 'w outside =
  net_lookup :: "'w \<Rightarrow> rstring \<Rightarrow> nat \<Rightarrow> (rstring, ip_addr list) result \<times> 'w"
  net_build :: "pinned_client \<Rightarrow> rstring option"
  net_send :: "'w \<Rightarrow> pinned_client \<Rightarrow> url \<Rightarrow> send_result \<times> 'w"

fun validate_lookup :: "ip_addr list \<Rightarrow> ip_addr list \<Rightarrow> ip_addr list \<Rightarrow> (ssrf_error, ip_addr list) result" where
  "validate_lookup seen out [] = Ok out"
| "validate_lookup seen out (ip # ips) =
     (if ip \<in> set seen then validate_lookup seen out ips
      else and_then (validate_ip ip) (\<lambda>_. validate_lookup (ip # seen) (out @ [ip]) ips))"

definition resolve_pinned_hostname ::
    "'w outside \<Rightarrow> 'w \<Rightarrow> rstring \<Rightarrow> nat \<Rightarrow> ssrf_config \<Rightarrow> (ssrf_error, ip_addr list) result \<times> 'w" where
  "resolve_pinned_hostname net w host port cfg =
     (let host = normal_host host in
      if host = [] then (Err MissingHost, w)
      else if host_blocked_by_policy host cfg then (Err (BlockedHost host), w)
      else case parse_ip host of
        Some ip \<Rightarrow> (and_then (validate_ip ip) (\<lambda>_. Ok [ip]), w)
      | None \<Rightarrow>
          (case net_lookup net w host port of
             (Inl reason, w') \<Rightarrow> (Err (DnsResolve host reason), w')
           | (Inr ips, w') \<Rightarrow>
               (and_then (validate_lookup [] [] ips)
                  (\<lambda>out. if out = [] then Err (DnsResolve host (lit ''no address records'')) else Ok out), w')))"

definition http_scheme :: "rstring \<Rightarrow> bool" where
  "http_scheme s \<longleftrightarrow> s = lit ''http'' \<or> s = lit ''https''"

definition pinned_client_for_addresses ::
    "'w outside \<Rightarrow> rstring \<Rightarrow> nat \<Rightarrow> ip_addr list \<Rightarrow> ssrf_config \<Rightarrow> (ssrf_error, pinned_client) result" where
  "pinned_client_for_addresses net host port ips cfg =
     (let client = \<lparr>pc_host = host, pc_addrs = map (\<lambda>ip. (ip, port)) ips,
                    pc_timeout_ms = max (sc_timeout_ms cfg) 1\<rparr>
      in case net_build net client of Some e \<Rightarrow> Err (HttpError e) | None \<Rightarrow> Ok client)"

definition build_pinned_client ::
    "url_parser \<Rightarrow> 'w outside \<Rightarrow> 'w \<Rightarrow> rstring \<Rightarrow> ssrf_config \<Rightarrow> (ssrf_error, pinned_client) result \<times> 'w" where
  "build_pinned_client crate net w text cfg =
     (case url_parse crate text of
        Inl e \<Rightarrow> (Err (InvalidUrl e), w)
      | Inr parsed \<Rightarrow>
          if \<not> http_scheme (u_scheme parsed) then (Err (UnsupportedScheme (u_scheme parsed)), w)
          else (case (u_host parsed, u_port parsed) of
             (Some host, Some port) \<Rightarrow>
               (case resolve_pinned_hostname net w host port cfg of
                  (Inl e, w') \<Rightarrow> (Err e, w')
                | (Inr ips, w') \<Rightarrow> (pinned_client_for_addresses net host port ips cfg, w'))
           | _ \<Rightarrow> (Err MissingHost, w)))"

definition validate_outbound_url ::
    "url_parser \<Rightarrow> 'w outside \<Rightarrow> 'w \<Rightarrow> rstring \<Rightarrow> ssrf_config \<Rightarrow> (ssrf_error, unit) result \<times> 'w" where
  "validate_outbound_url crate net w text cfg =
     (case url_parse crate text of
        Inl e \<Rightarrow> (Err (InvalidUrl e), w)
      | Inr parsed \<Rightarrow>
          if \<not> http_scheme (u_scheme parsed) then (Err (UnsupportedScheme (u_scheme parsed)), w)
          else (case (u_host parsed, u_port parsed) of
             (Some host, Some port) \<Rightarrow>
               (case resolve_pinned_hostname net w host port cfg of
                  (Inl e, w') \<Rightarrow> (Err e, w')
                | (Inr _, w') \<Rightarrow> (Ok (), w'))
           | _ \<Rightarrow> (Err MissingHost, w)))"

section \<open>Fetching\<close>

record guarded_response =
  gr_final_url :: rstring
  gr_status :: nat
  gr_content_type :: "rstring option"
  gr_body :: "8 word list"

fun read_chunks :: "nat \<Rightarrow> 8 word list \<Rightarrow> (rstring, 8 word list) result list \<Rightarrow> (ssrf_error, 8 word list) result" where
  "read_chunks max_bytes body [] = Ok body"
| "read_chunks max_bytes body (Inl e # cs) = Err (HttpError e)"
| "read_chunks max_bytes body (Inr chunk # cs) =
     (if length chunk > max_bytes - length body then Err (BodyTooLarge max_bytes)
      else read_chunks max_bytes (body @ chunk) cs)"

definition read_limited_body :: "response \<Rightarrow> nat \<Rightarrow> (ssrf_error, 8 word list) result" where
  "read_limited_body rsp max_bytes =
     (case rs_content_length rsp of
        Some len \<Rightarrow> if len > max_bytes then Err (BodyTooLarge max_bytes) else read_chunks max_bytes [] (rs_chunks rsp)
      | None \<Rightarrow> read_chunks max_bytes [] (rs_chunks rsp))"

definition is_redirection :: "nat \<Rightarrow> bool" where
  "is_redirection status \<longleftrightarrow> 300 \<le> status \<and> status < 400"

type_synonym request_log = "(pinned_client \<times> url) list"

text \<open>What a response means for the loop: a new URL, an error, or the end of the fetch.\<close>

definition next_hop ::
    "url_parser \<Rightarrow> ssrf_config \<Rightarrow> nat \<Rightarrow> url \<Rightarrow> response \<Rightarrow> (ssrf_error, url + guarded_response) result" where
  "next_hop crate cfg max_bytes current rsp =
     (if is_redirection (rs_status rsp) then
        (case rs_location rsp of
           None \<Rightarrow> Err (HttpError (lit ''redirect without location header''))
         | Some (Inl e) \<Rightarrow> Err (HttpError e)
         | Some (Inr location) \<Rightarrow>
             (case url_join crate current location of
                Inl e \<Rightarrow> Err (InvalidUrl e)
              | Inr u \<Rightarrow> Ok (Inl u)))
      else if \<not> rs_in_time rsp then Err (TimedOut (sc_timeout_ms cfg))
      else (case read_limited_body rsp max_bytes of
              Inl e \<Rightarrow> Err e
            | Inr body \<Rightarrow>
                Ok (Inr \<lparr>gr_final_url = u_text current, gr_status = rs_status rsp,
                         gr_content_type = rs_content_type rsp, gr_body = body\<rparr>)))"

primrec fetch_hops ::
    "nat \<Rightarrow> url_parser \<Rightarrow> 'w outside \<Rightarrow> ssrf_config \<Rightarrow> nat \<Rightarrow> url \<Rightarrow> 'w \<Rightarrow>
     request_log \<times> (ssrf_error, guarded_response) result \<times> 'w" where
  "fetch_hops 0 crate net cfg max_bytes current w = ([], Err (RedirectLimitExceeded (sc_max_redirects cfg)), w)"
| "fetch_hops (Suc hops) crate net cfg max_bytes current w =
     (if \<not> http_scheme (u_scheme current) then ([], Err (UnsupportedScheme (u_scheme current)), w)
      else case build_pinned_client crate net w (u_text current) cfg of
        (Inl e, w1) \<Rightarrow> ([], Err e, w1)
      | (Inr client, w1) \<Rightarrow>
          (case net_send net w1 client current of
             (SendTimedOut, w2) \<Rightarrow> ([(client, current)], Err (TimedOut (sc_timeout_ms cfg)), w2)
           | (SendFailed e, w2) \<Rightarrow> ([(client, current)], Err (HttpError e), w2)
           | (Sent rsp, w2) \<Rightarrow>
               (case next_hop crate cfg max_bytes current rsp of
                  Inl e \<Rightarrow> ([(client, current)], Err e, w2)
                | Inr (Inr out) \<Rightarrow> ([(client, current)], Ok out, w2)
                | Inr (Inl u) \<Rightarrow>
                    (let (log, r) = fetch_hops hops crate net cfg max_bytes u w2 in ((client, current) # log, r)))))"

definition guarded_fetch_with_limit ::
    "url_parser \<Rightarrow> 'w outside \<Rightarrow> rstring \<Rightarrow> ssrf_config \<Rightarrow> nat \<Rightarrow> 'w \<Rightarrow>
     request_log \<times> (ssrf_error, guarded_response) result \<times> 'w" where
  "guarded_fetch_with_limit crate net text cfg max_bytes w =
     (case url_parse crate text of
        Inl e \<Rightarrow> ([], Err (InvalidUrl e), w)
      | Inr current \<Rightarrow> fetch_hops (Suc (sc_max_redirects cfg)) crate net cfg max_bytes current w)"

definition guarded_fetch ::
    "url_parser \<Rightarrow> 'w outside \<Rightarrow> rstring \<Rightarrow> ssrf_config \<Rightarrow> 'w \<Rightarrow>
     request_log \<times> (ssrf_error, guarded_response) result \<times> 'w" where
  "guarded_fetch crate net text cfg w =
     guarded_fetch_with_limit crate net text cfg DEFAULT_MAX_RESPONSE_BYTES w"

section \<open>Addresses that are let through\<close>

text \<open>The blocks the guard keeps out, by their registries, and the addresses outside of them.\<close>

definition internal_blocks :: "(nat list \<times> nat) list" where
  "internal_blocks =
     [([0, 0, 0, 0], 32), ([10, 0, 0, 0], 8), ([127, 0, 0, 0], 8), ([169, 254, 0, 0], 16),
      ([172, 16, 0, 0], 12), ([192, 168, 0, 0], 16), ([255, 255, 255, 255], 32)]"

definition external_v4 :: "ipv4_addr \<Rightarrow> bool" where
  "external_v4 ip \<longleftrightarrow> list_all (\<lambda>blk. \<not> in_block blk ip) internal_blocks"

fun external_ip :: "ip_addr \<Rightarrow> bool" where
  "external_ip (V4 ip) = external_v4 ip"
| "external_ip (V6 segs) =
     (segs \<noteq> [0, 0, 0, 0, 0, 0, 0, 1] \<and>
      (case to_ipv4 segs of
         Some v4 \<Rightarrow> external_v4 v4
       | None \<Rightarrow>
           (let s = unat (hd segs) in
            \<not> (0xFC00 \<le> s \<and> s < 0xFE00) \<and> \<not> (0xFE80 \<le> s \<and> s < 0xFEC0) \<and> \<not> (0xFF00 \<le> s))))"

lemma private_v4_blocks: "is_private_ipv4 ip \<longleftrightarrow> \<not> external_v4 ip"
  unfolding is_private_ipv4_def external_v4_def internal_blocks_def loopback_block private_blocks
    link_local_block broadcast_block unspecified_block
  by auto

lemma to_ipv4_Some:
  "to_ipv4 segs = Some v4 \<longleftrightarrow>
     (\<exists>f ab cd. segs = [0, 0, 0, 0, 0, f, ab, cd] \<and> (f = 0 \<or> f = 0xFFFF) \<and> v4 = v4_of_segments ab cd)"
  by (cases segs rule: to_ipv4.cases) auto

lemma to_ipv4_mapped_Some: "to_ipv4_mapped segs = Some v4 \<Longrightarrow> to_ipv4 segs = Some v4"
  by (cases segs rule: to_ipv4_mapped.cases) (auto split: if_splits)

lemma private_is_the_blocks: "is_private_ip ip \<longleftrightarrow> \<not> external_ip ip"
proof (cases ip)
  case (V4 a)
  then show ?thesis by (simp add: private_v4_blocks)
next
  case (V6 segs)
  show ?thesis
  proof (cases "to_ipv4 segs")
    case None
    then have "to_ipv4_mapped segs = None" "\<not> v6_is_unspecified segs"
      by (cases "to_ipv4_mapped segs", simp_all add: to_ipv4_mapped_Some) (auto simp: v6_is_unspecified_def)
    then show ?thesis
      using V6 None
      by (auto simp: v6_is_loopback_def v6_is_multicast_def v6_is_unique_local_def v6_is_unicast_link_local_def
          leading_bits Let_def)
  next
    case (Some v4)
    then have mapped: "case to_ipv4_mapped segs of Some v \<Rightarrow> v = v4 | None \<Rightarrow> True"
      by (auto dest: to_ipv4_mapped_Some split: option.split)
    from Some obtain f ab cd where segs: "segs = [0, 0, 0, 0, 0, f, ab, cd]" "v4 = v4_of_segments ab cd"
      by (auto simp: to_ipv4_Some)
    have "v6_is_unspecified segs \<Longrightarrow> \<not> external_v4 v4"
      using segs by (simp add: v6_is_unspecified_def v4_of_segments_def external_v4_def internal_blocks_def in_block_def)
    then show ?thesis
      using V6 Some segs mapped
      by (auto simp: v6_is_loopback_def v6_is_multicast_def v6_is_unique_local_def v6_is_unicast_link_local_def
          private_v4_blocks split: option.splits)
  qed
qed

lemma validate_ip_Ok: "validate_ip ip = Inr u \<Longrightarrow> external_ip ip"
  by (simp add: validate_ip_def private_is_the_blocks split: if_splits)

lemma validate_lookup_Ok:
  "validate_lookup seen out ips = Inr res \<Longrightarrow> \<forall>ip \<in> set out. external_ip ip \<Longrightarrow> \<forall>ip \<in> set res. external_ip ip"
  by (induction seen out ips rule: validate_lookup.induct)
    (auto simp: and_then_eq_Inr validate_ip_Ok split: if_splits)

lemma resolve_Ok:
  assumes "resolve_pinned_hostname net w host port cfg = (Inr ips, w')"
  shows "ips \<noteq> []" "\<forall>ip \<in> set ips. external_ip ip" "\<not> host_blocked_by_policy (normal_host host) cfg"
    "parse_ip (normal_host host) = Some ip \<Longrightarrow> ips = [ip]"
proof -
  show "ips \<noteq> []" "\<not> host_blocked_by_policy (normal_host host) cfg"
    "parse_ip (normal_host host) = Some ip \<Longrightarrow> ips = [ip]"
    using assms
    by (auto simp: resolve_pinned_hostname_def Let_def and_then_eq_Inr split: if_splits option.splits prod.splits sum.splits)
  show "\<forall>ip \<in> set ips. external_ip ip"
    using assms
    by (auto simp: resolve_pinned_hostname_def Let_def and_then_eq_Inr split: if_splits option.splits prod.splits sum.splits
        dest: validate_ip_Ok validate_lookup_Ok)
qed

section \<open>What is sent\<close>

text \<open>A request that is cleared: web scheme, permitted host, and a client bound to external addresses of this host.\<close>

definition cleared_request :: "ssrf_config \<Rightarrow> pinned_client \<times> url \<Rightarrow> bool" where
  "cleared_request cfg cu \<longleftrightarrow>
     http_scheme (u_scheme (snd cu)) \<and> u_host (snd cu) = Some (pc_host (fst cu)) \<and>
     \<not> host_blocked_by_policy (normal_host (pc_host (fst cu))) cfg \<and>
     pc_addrs (fst cu) \<noteq> [] \<and>
     list_all (\<lambda>(ip, port). external_ip ip \<and> u_port (snd cu) = Some port) (pc_addrs (fst cu)) \<and>
     (case parse_ip (normal_host (pc_host (fst cu))) of
        Some ip \<Rightarrow> map fst (pc_addrs (fst cu)) = [ip]
      | None \<Rightarrow> True)"

text \<open>What the URL crate documents: the text of a URL it returned parses to this URL.\<close>

definition url_reparses :: "url_parser \<Rightarrow> bool" where
  "url_reparses crate \<longleftrightarrow>
     (\<forall>s u. url_parse crate s = Inr u \<longrightarrow> url_parse crate (u_text u) = Inr u) \<and>
     (\<forall>b s u. url_join crate b s = Inr u \<longrightarrow> url_parse crate (u_text u) = Inr u)"

lemma pinned_client_cleared:
  assumes "build_pinned_client crate net w (u_text u) cfg = (Inr client, w')" "url_parse crate (u_text u) = Inr u"
  shows "cleared_request cfg (client, u)"
proof -
  obtain host port ips w1 where parts: "u_host u = Some host" "u_port u = Some port" "http_scheme (u_scheme u)"
    and ips: "resolve_pinned_hostname net w host port cfg = (Inr ips, w1)"
    and client: "pinned_client_for_addresses net host port ips cfg = Inr client"
    using assms by (auto simp: build_pinned_client_def split: if_splits option.splits prod.splits sum.splits)
  from client have "pc_host client = host" "pc_addrs client = map (\<lambda>ip. (ip, port)) ips"
    by (auto simp: pinned_client_for_addresses_def Let_def split: option.splits)
  then show ?thesis
    using parts resolve_Ok [OF ips] by (auto simp: cleared_request_def list_all_iff comp_def split: option.splits)
qed

lemma read_chunks_bound: "read_chunks n body cs = Inr out \<Longrightarrow> length body \<le> n \<Longrightarrow> length out \<le> n"
  by (induction n body cs rule: read_chunks.induct) (auto split: if_splits)

lemma read_limited_body_bound: "read_limited_body rsp n = Inr out \<Longrightarrow> length out \<le> n"
  by (auto simp: read_limited_body_def split: option.splits if_splits dest: read_chunks_bound)

lemma next_hop_done:
  assumes "next_hop crate cfg n u rsp = Inr (Inr out)"
  shows "length (gr_body out) \<le> n \<and> \<not> is_redirection (gr_status out) \<and> gr_final_url out = u_text u"
  using assms by (auto simp: next_hop_def read_limited_body_bound split: if_splits option.splits sum.splits)

lemma next_hop_moved:
  assumes "next_hop crate cfg n u rsp = Inr (Inl v)"
  shows "\<exists>s. url_join crate u s = Inr v"
  using assms by (auto simp: next_hop_def split: if_splits option.splits sum.splits)

text \<open>Only the loop itself reports that there were too many redirects.\<close>

lemma validate_no_limit:
  "validate_ip ip = Inl e \<Longrightarrow> \<forall>m. e \<noteq> RedirectLimitExceeded m"
  "validate_lookup seen out ips = Inl e \<Longrightarrow> \<forall>m. e \<noteq> RedirectLimitExceeded m"
proof -
  show ip: "validate_ip ip = Inl e \<Longrightarrow> \<forall>m. e \<noteq> RedirectLimitExceeded m" for ip
    by (auto simp: validate_ip_def split: if_splits)
  show "validate_lookup seen out ips = Inl e \<Longrightarrow> \<forall>m. e \<noteq> RedirectLimitExceeded m"
  proof (induction seen out ips rule: validate_lookup.induct)
    case (2 seen out ip ips)
    then show ?case
      using ip [of ip] by (cases "validate_ip ip") (auto split: if_splits)
  qed simp
qed

lemma resolve_no_limit:
  assumes "resolve_pinned_hostname net w host port cfg = (Inl e, w')"
  shows "\<forall>m. e \<noteq> RedirectLimitExceeded m"
proof (cases "normal_host host = [] \<or> host_blocked_by_policy (normal_host host) cfg")
  case True
  then show ?thesis using assms by (auto simp: resolve_pinned_hostname_def Let_def split: if_splits)
next
  case False
  show ?thesis
  proof (cases "parse_ip (normal_host host)")
    case (Some ip)
    then show ?thesis
      using assms False validate_no_limit(1) [of ip e]
      by (cases "validate_ip ip") (auto simp: resolve_pinned_hostname_def Let_def)
  next
    case None
    obtain l w1 where l: "net_lookup net w (normal_host host) port = (l, w1)" by fastforce
    show ?thesis
    proof (cases l)
      case (Inr ips)
      then show ?thesis
        using assms False None l validate_no_limit(2) [of "[]" "[]" ips e]
        by (cases "validate_lookup [] [] ips") (auto simp: resolve_pinned_hostname_def Let_def split: if_splits)
    qed (use assms False None l in \<open>auto simp: resolve_pinned_hostname_def Let_def\<close>)
  qed
qed

lemma build_no_limit:
  assumes "build_pinned_client crate net w text cfg = (Inl e, w')"
  shows "\<forall>m. e \<noteq> RedirectLimitExceeded m"
  using assms
  by (auto simp: build_pinned_client_def pinned_client_for_addresses_def Let_def
      split: if_splits option.splits prod.splits sum.splits dest: resolve_no_limit)

lemma next_hop_no_limit:
  assumes "next_hop crate cfg n u rsp = Inl e"
  shows "\<forall>m. e \<noteq> RedirectLimitExceeded m"
proof -
  have "read_chunks k body cs = Inl e \<Longrightarrow> \<forall>m. e \<noteq> RedirectLimitExceeded m" for k body cs
    by (induction k body cs rule: read_chunks.induct) (auto split: if_splits)
  then show ?thesis
    using assms by (auto simp: next_hop_def read_limited_body_def split: if_splits option.splits sum.splits)
qed

text \<open>The outcome of one round of the loop.\<close>

lemma fetch_round:
  assumes "fetch_hops (Suc k) crate net cfg n u w = (log, r, w')"
  obtains (refused) e where "log = []" "r = Inl e" "\<forall>m. e \<noteq> RedirectLimitExceeded m"
  | (failed) client e w1 where "log = [(client, u)]" "r = Inl e" "\<forall>m. e \<noteq> RedirectLimitExceeded m"
      "build_pinned_client crate net w (u_text u) cfg = (Inr client, w1)"
  | (finished) client out w1 rsp where "log = [(client, u)]" "r = Inr out"
      "build_pinned_client crate net w (u_text u) cfg = (Inr client, w1)" "next_hop crate cfg n u rsp = Inr (Inr out)"
  | (moved) client v w1 w2 rest rsp where "log = (client, u) # rest"
      "build_pinned_client crate net w (u_text u) cfg = (Inr client, w1)" "next_hop crate cfg n u rsp = Inr (Inl v)"
      "fetch_hops k crate net cfg n v w2 = (rest, r, w')"
proof (cases "http_scheme (u_scheme u)")
  case False
  then show thesis using assms by (auto intro: refused)
next
  case True
  obtain b w1 where b: "build_pinned_client crate net w (u_text u) cfg = (b, w1)" by fastforce
  show thesis
  proof (cases b)
    case (Inl e)
    then show thesis
      using assms True b build_no_limit [of crate net w "u_text u" cfg e w1] by (auto intro: refused)
  next
    case (Inr client)
    note built = b [unfolded Inr]
    obtain s w2 where s: "net_send net w1 client u = (s, w2)" by fastforce
    show thesis
    proof (cases s)
      case (Sent rsp)
      show thesis
      proof (cases "next_hop crate cfg n u rsp")
        case (Inl e)
        then show thesis
          using assms True built s Sent next_hop_no_limit [OF Inl] by (auto intro: failed)
      next
        case (Inr x)
        show thesis
        proof (cases x)
          case (Inl v)
          obtain rest q where rest: "fetch_hops k crate net cfg n v w2 = (rest, q)"
            by (cases "fetch_hops k crate net cfg n v w2")
          then have "log = (client, u) # rest" "q = (r, w')"
            using assms True built s Sent Inr Inl by simp_all
          then show thesis
            using moved built Inr Inl rest by blast
        next
          case out: (Inr out)
          then have "log = [(client, u)]" "r = Inr out"
            using assms True built s Sent Inr by simp_all
          then show thesis
            using finished built Inr out by blast
        qed
      qed
    qed (use assms True built s in \<open>auto intro: failed\<close>)
  qed
qed

lemma fetch_hops_cleared:
  assumes "fetch_hops k crate net cfg n u w = (log, r, w')" "url_reparses crate" "url_parse crate (u_text u) = Inr u"
  shows "length log \<le> k \<and> (\<forall>cu \<in> set log. cleared_request cfg cu) \<and>
    (\<forall>m. r = Inl (RedirectLimitExceeded m) \<longrightarrow> length log = k) \<and>
    (\<forall>out. r = Inr out \<longrightarrow> log \<noteq> [] \<and> gr_final_url out = u_text (snd (last log)) \<and>
       \<not> is_redirection (gr_status out) \<and> length (gr_body out) \<le> n)"
  using assms
proof (induction k arbitrary: u w log r)
  case 0
  then show ?case by auto
next
  case (Suc k)
  from Suc.prems(1) show ?case
  proof (cases rule: fetch_round)
    case (failed client e w1)
    then show ?thesis
      using pinned_client_cleared [OF failed(4) Suc.prems(3)] by auto
  next
    case (finished client out w1 rsp)
    then show ?thesis
      using pinned_client_cleared [OF finished(3) Suc.prems(3)] next_hop_done [OF finished(4)] by auto
  next
    case (moved client v w1 w2 rest rsp)
    obtain s where "url_join crate u s = Inr v"
      using next_hop_moved [OF moved(3)] by blast
    then have "url_parse crate (u_text v) = Inr v"
      using Suc.prems(2) by (auto simp: url_reparses_def)
    note IH = Suc.IH [OF moved(4) Suc.prems(2) this]
    then show ?thesis
      using moved(1) pinned_client_cleared [OF moved(2) Suc.prems(3)] by auto
  qed auto
qed

text \<open>
  C17.  A guarded fetch, whatever the resolver and the servers answer and however the answers change between
  lookups.  Every request goes out over HTTP or HTTPS to a host the policy permits, through a client that is
  bound to addresses outside the loopback, private, link-local, broadcast and unspecified blocks and to the
  port of the request; a literal address in the URL is bound to itself.  At most one request more than
  the redirect limit is sent, and exactly so many if the limit is reported.  A result is the answer to the
  last request, is no redirect, and its body keeps the limit.
\<close>

theorem guarded_fetch_cleared:
  assumes "url_reparses crate"
    and "guarded_fetch_with_limit crate net text cfg max_bytes w = (log, r, w')"
  shows "length log \<le> Suc (sc_max_redirects cfg) \<and> (\<forall>cu \<in> set log. cleared_request cfg cu) \<and>
    (\<forall>m. r = Err (RedirectLimitExceeded m) \<longrightarrow> length log = Suc (sc_max_redirects cfg)) \<and>
    (\<forall>out. r = Ok out \<longrightarrow> log \<noteq> [] \<and> gr_final_url out = u_text (snd (last log)) \<and>
       \<not> is_redirection (gr_status out) \<and> length (gr_body out) \<le> max_bytes)"
proof (cases "url_parse crate text")
  case (Inl e)
  then show ?thesis
    using assms(2) by (auto simp: guarded_fetch_with_limit_def)
next
  case (Inr u)
  then have reparsed: "url_parse crate (u_text u) = Inr u"
    using assms(1) by (auto simp: url_reparses_def)
  have "fetch_hops (Suc (sc_max_redirects cfg)) crate net cfg max_bytes u w = (log, r, w')"
    using assms(2) Inr by (simp add: guarded_fetch_with_limit_def)
  from fetch_hops_cleared [OF this assms(1) reparsed] show ?thesis .
qed

text \<open>A web with one page that redirects to another; the text of a URL is its host.\<close>

definition small_url :: "rstring \<Rightarrow> url" where
  "small_url s = \<lparr>u_text = s, u_scheme = lit ''http'', u_host = Some s, u_port = Some 80\<rparr>"

definition small_crate :: url_parser where
  "small_crate = \<lparr>url_parse = (\<lambda>s. Ok (small_url s)), url_join = (\<lambda>_ s. Ok (small_url s))\<rparr>"

definition small_page :: response where
  "small_page = \<lparr>rs_status = 200, rs_location = None, rs_content_type = None, rs_content_length = Some 2,
     rs_chunks = [Ok [1], Ok [2]], rs_in_time = True\<rparr>"

definition small_web :: "nat outside" where
  "small_web =
     \<lparr>net_lookup = (\<lambda>w h p. (Ok [V4 (ipv4_of_octets [8, 8, 8, 8])], Suc w)), net_build = (\<lambda>_. None),
      net_send = (\<lambda>w c u. (Sent (if u_text u = lit ''a'' then small_page\<lparr>rs_status := 302, rs_location := Some (Ok (lit ''b''))\<rparr>
                                  else small_page), Suc w))\<rparr>"

definition small_client :: "rstring \<Rightarrow> pinned_client" where
  "small_client h = \<lparr>pc_host = h, pc_addrs = [(V4 (ipv4_of_octets [8, 8, 8, 8]), 80)], pc_timeout_ms = DEFAULT_TIMEOUT_MS\<rparr>"

lemma small_address: "validate_ip (V4 (ipv4_of_octets [8, 8, 8, 8])) = Ok ()"
  by (simp add: validate_ip_def is_private_ipv4_def v4_is_private_def v4_is_loopback_def v4_is_link_local_def
      v4_is_broadcast_def v4_is_unspecified_def ipv4_of_octets_def octet_def show_nat.simps)

lemma small_built:
  assumes "h \<in> {lit ''a'', lit ''b''}"
  shows "build_pinned_client small_crate small_web w h default_ssrf_config = (Ok (small_client h), Suc w)"
proof -
  have "normal_host h = h" "\<not> host_blocked_by_policy h default_ssrf_config" "parse_ip h = None" "h \<noteq> []"
    using assms
    by (auto simp: normal_host_def trim_def trim_start_def trim_end_def trim_matches_def is_whitespace_def
        to_ascii_lowercase_def to_ascii_lowercase_char_def host_blocked_by_policy_def is_metadata_hostname_def
        default_ssrf_config_def parse_ip_eval)
  then show ?thesis
    by (simp add: build_pinned_client_def small_crate_def small_web_def small_url_def http_scheme_def
        resolve_pinned_hostname_def Let_def small_address pinned_client_for_addresses_def small_client_def
        default_ssrf_config_def DEFAULT_TIMEOUT_MS_def)
qed

theorem guarded_fetch_cleared_witness:
  "\<exists>w' out. guarded_fetch_with_limit small_crate small_web (lit ''a'') default_ssrf_config 8 0 =
       ([(small_client (lit ''a''), small_url (lit ''a'')), (small_client (lit ''b''), small_url (lit ''b''))], Ok out, w') \<and>
     gr_body out = [1, 2] \<and>
     cleared_request default_ssrf_config (small_client (lit ''b''), small_url (lit ''b''))"
proof -
  let ?out = "\<lparr>gr_final_url = lit ''b'', gr_status = 200, gr_content_type = None, gr_body = [1, 2]\<rparr>"
  let ?log = "[(small_client (lit ''a''), small_url (lit ''a'')), (small_client (lit ''b''), small_url (lit ''b''))]"
  have reparses: "url_reparses small_crate"
    by (auto simp: url_reparses_def small_crate_def small_url_def)
  have hops: "sc_max_redirects default_ssrf_config = Suc (Suc (Suc (Suc (Suc 0))))"
    by (simp add: default_ssrf_config_def DEFAULT_MAX_REDIRECTS_def)
  have sent: "net_send small_web w c u = (Sent (if u_text u = lit ''a''
      then small_page\<lparr>rs_status := 302, rs_location := Some (Ok (lit ''b''))\<rparr> else small_page), Suc w)" for w c u
    by (simp add: small_web_def)
  have urls: "u_text (small_url s) = s" "u_scheme (small_url s) = lit ''http''" for s
    by (simp_all add: small_url_def)
  have other: "lit ''b'' \<noteq> lit ''a''" by simp
  have first: "next_hop small_crate default_ssrf_config 8 (small_url (lit ''a''))
      (small_page\<lparr>rs_status := 302, rs_location := Some (Ok (lit ''b''))\<rparr>) = Ok (Inl (small_url (lit ''b'')))"
    by (simp add: next_hop_def is_redirection_def small_crate_def)
  have second: "next_hop small_crate default_ssrf_config 8 (small_url (lit ''b'')) small_page = Ok (Inr ?out)"
    by (simp add: next_hop_def is_redirection_def small_page_def read_limited_body_def urls)
  have run: "guarded_fetch_with_limit small_crate small_web (lit ''a'') default_ssrf_config 8 0 = (?log, Ok ?out, 4)"
    by (simp add: guarded_fetch_with_limit_def small_crate_def [THEN arg_cong [where f = url_parse]] hops sent urls
        http_scheme_def small_built first second other del: lit_Cons)
  from guarded_fetch_cleared [OF reparses run]
  have "cleared_request default_ssrf_config (small_client (lit ''b''), small_url (lit ''b''))"
    by (simp del: lit_Cons)
  with run show ?thesis by (auto simp del: lit_Cons)
qed

end
