(* ===== verification/Rate_Limiter.thy ===== *)
theory Rate_Limiter
  imports Ip_Addresses "HOL-Library.AList"
begin

text \<open>
  \<^verbatim>\<open>gateway-server/src/security/rate_limit.rs\<close>: request buckets per address and per token, and a count of open
  connections per address.  Times are nanoseconds of the monotonic clock.  An operation reads the clock up to
  three times while it holds the lock; the readings are its arguments, in order.  Counters are 32-bit words.
\<close>

section \<open>State and operations\<close>

record rate_limit_config =
  rl_max_requests :: "32 word"
  rl_window :: nat
  rl_max_connections_per_ip :: "32 word"

definition default_rate_limit_config :: rate_limit_config where
  "default_rate_limit_config =
     \<lparr>rl_max_requests = 100, rl_window = 60 * 1000000000, rl_max_connections_per_ip = 10\<rparr>"

record bucket =
  bk_tokens :: "32 word"
  bk_last_refill :: nat

record rate_limiter_inner =
  ip_buckets :: "(ip_addr \<times> bucket) list"
  token_buckets :: "(rstring \<times> bucket) list"
  ip_connections :: "(ip_addr \<times> 32 word) list"

definition new_rate_limiter :: rate_limiter_inner where
  "new_rate_limiter = \<lparr>ip_buckets = [], token_buckets = [], ip_connections = []\<rparr>"

text \<open>The readings of the clock in one check: on insertion, in \<^verbatim>\<open>elapsed\<close>, and on a refill.\<close>

record readings =
  at_insert :: nat
  at_elapsed :: nat
  at_refill :: nat

definition refill :: "rate_limit_config \<Rightarrow> readings \<Rightarrow> bucket \<Rightarrow> bucket" where
  "refill cfg t b =
     (if at_elapsed t - bk_last_refill b \<ge> rl_window cfg
      then b\<lparr>bk_tokens := rl_max_requests cfg, bk_last_refill := at_refill t\<rparr> else b)"

definition or_insert_bucket :: "rate_limit_config \<Rightarrow> readings \<Rightarrow> bucket option \<Rightarrow> bucket" where
  "or_insert_bucket cfg t entry =
     (case entry of Some b \<Rightarrow> b | None \<Rightarrow> \<lparr>bk_tokens = rl_max_requests cfg, bk_last_refill = at_insert t\<rparr>)"

definition take_token :: "bucket \<Rightarrow> bool \<times> bucket" where
  "take_token b = (if bk_tokens b > 0 then (True, b\<lparr>bk_tokens := bk_tokens b - 1\<rparr>) else (False, b))"

definition check_entry :: "rate_limit_config \<Rightarrow> readings \<Rightarrow> bucket option \<Rightarrow> bool \<times> bucket" where
  "check_entry cfg t entry = take_token (refill cfg t (or_insert_bucket cfg t entry))"

definition check_ip :: "rate_limit_config \<Rightarrow> readings \<Rightarrow> ip_addr \<Rightarrow> rate_limiter_inner \<Rightarrow> bool \<times> rate_limiter_inner" where
  "check_ip cfg t ip inner =
     (let (ok, b) = check_entry cfg t (map_of (ip_buckets inner) ip)
      in (ok, inner\<lparr>ip_buckets := AList.update ip b (ip_buckets inner)\<rparr>))"

definition check_token :: "rate_limit_config \<Rightarrow> readings \<Rightarrow> rstring \<Rightarrow> rate_limiter_inner \<Rightarrow> bool \<times> rate_limiter_inner" where
  "check_token cfg t token inner =
     (let (ok, b) = check_entry cfg t (map_of (token_buckets inner) token)
      in (ok, inner\<lparr>token_buckets := AList.update token b (token_buckets inner)\<rparr>))"

definition connection_count :: "rate_limiter_inner \<Rightarrow> ip_addr \<Rightarrow> 32 word" where
  "connection_count inner ip = (case map_of (ip_connections inner) ip of Some n \<Rightarrow> n | None \<Rightarrow> 0)"

definition check_connection :: "rate_limit_config \<Rightarrow> ip_addr \<Rightarrow> rate_limiter_inner \<Rightarrow> bool" where
  "check_connection cfg ip inner \<longleftrightarrow> connection_count inner ip < rl_max_connections_per_ip cfg"

definition try_add_connection :: "rate_limit_config \<Rightarrow> ip_addr \<Rightarrow> rate_limiter_inner \<Rightarrow> bool \<times> rate_limiter_inner" where
  "try_add_connection cfg ip inner =
     (let n = connection_count inner ip in
      if n \<ge> rl_max_connections_per_ip cfg
      then (False, inner\<lparr>ip_connections := AList.update ip n (ip_connections inner)\<rparr>)
      else (True, inner\<lparr>ip_connections := AList.update ip (n + 1) (ip_connections inner)\<rparr>))"

definition add_connection :: "ip_addr \<Rightarrow> rate_limiter_inner \<Rightarrow> rate_limiter_inner" where
  "add_connection ip inner =
     inner\<lparr>ip_connections := AList.update ip (connection_count inner ip + 1) (ip_connections inner)\<rparr>"

definition remove_connection :: "ip_addr \<Rightarrow> rate_limiter_inner \<Rightarrow> rate_limiter_inner" where
  "remove_connection ip inner =
     (case map_of (ip_connections inner) ip of
        None \<Rightarrow> inner
      | Some count \<Rightarrow>
          (let count = (if count = 0 then 0 else count - 1) in
           if count = 0 then inner\<lparr>ip_connections := AList.delete ip (ip_connections inner)\<rparr>
           else inner\<lparr>ip_connections := AList.update ip count (ip_connections inner)\<rparr>))"

record evict_report =
  ip_buckets_pruned :: nat
  token_buckets_pruned :: nat

definition fresh_bucket :: "rate_limit_config \<Rightarrow> nat \<Rightarrow> bucket \<Rightarrow> bool" where
  "fresh_bucket cfg now b \<longleftrightarrow> now - bk_last_refill b < 2 * rl_window cfg"

definition evict_stale_buckets ::
    "rate_limit_config \<Rightarrow> nat \<Rightarrow> rate_limiter_inner \<Rightarrow> evict_report \<times> rate_limiter_inner" where
  "evict_stale_buckets cfg now inner =
     (let ips = filter (\<lambda>(_, b). fresh_bucket cfg now b) (ip_buckets inner);
          tokens = filter (\<lambda>(_, b). fresh_bucket cfg now b) (token_buckets inner)
      in (\<lparr>ip_buckets_pruned = length (ip_buckets inner) - length ips,
           token_buckets_pruned = length (token_buckets inner) - length tokens\<rparr>,
          inner\<lparr>ip_buckets := ips, token_buckets := tokens\<rparr>))"

section \<open>Runs\<close>

datatype rl_event =
    CheckIp ip_addr readings
  | CheckToken rstring readings
  | TryAdd ip_addr
  | RemoveConn ip_addr
  | Evict nat

fun rl_step :: "rate_limit_config \<Rightarrow> rl_event \<Rightarrow> rate_limiter_inner \<Rightarrow> bool \<times> rate_limiter_inner" where
  "rl_step cfg (CheckIp ip t) s = check_ip cfg t ip s"
| "rl_step cfg (CheckToken token t) s = check_token cfg t token s"
| "rl_step cfg (TryAdd ip) s = try_add_connection cfg ip s"
| "rl_step cfg (RemoveConn ip) s = (True, remove_connection ip s)"
| "rl_step cfg (Evict now) s = (True, snd (evict_stale_buckets cfg now s))"

text \<open>The clock readings of an event, and that a list of events reads a clock that never runs backwards.\<close>

fun event_readings :: "rl_event \<Rightarrow> nat list" where
  "event_readings (CheckIp _ t) = [at_insert t, at_elapsed t, at_refill t]"
| "event_readings (CheckToken _ t) = [at_insert t, at_elapsed t, at_refill t]"
| "event_readings (Evict now) = [now]"
| "event_readings _ = []"

definition monotonic :: "rl_event list \<Rightarrow> bool" where
  "monotonic evs \<longleftrightarrow> sorted (concat (map event_readings evs))"

text \<open>The times, latest first, at which requests with a given key were let through.\<close>

primrec accepted_times ::
    "rate_limit_config \<Rightarrow> (rl_event \<Rightarrow> readings option) \<Rightarrow> nat list \<Rightarrow> rl_event list \<Rightarrow> rate_limiter_inner \<Rightarrow> nat list" where
  "accepted_times cfg mine log [] s = log"
| "accepted_times cfg mine log (ev # evs) s =
     (let (ok, s') = rl_step cfg ev s in
      accepted_times cfg mine (case mine ev of Some t \<Rightarrow> if ok then at_refill t # log else log | None \<Rightarrow> log) evs s')"

fun ip_check :: "ip_addr \<Rightarrow> rl_event \<Rightarrow> readings option" where
  "ip_check ip (CheckIp ip' t) = (if ip' = ip then Some t else None)"
| "ip_check ip _ = None"

fun token_check :: "rstring \<Rightarrow> rl_event \<Rightarrow> readings option" where
  "token_check token (CheckToken token' t) = (if token' = token then Some t else None)"
| "token_check token _ = None"

definition in_window :: "nat \<Rightarrow> nat \<Rightarrow> nat list \<Rightarrow> nat" where
  "in_window a width log = length (filter (\<lambda>x. a \<le> x \<and> x < a + width) log)"

section \<open>The bound for one key\<close>

text \<open>
  The state of one bucket against the log of its requests: those since the last refill, those of the period
  before it, and older ones, which are a window away.
\<close>

definition spread :: "rate_limit_config \<Rightarrow> nat list \<Rightarrow> bool" where
  "spread cfg log \<longleftrightarrow> (\<forall>a. in_window a (rl_window cfg) log \<le> 2 * unat (rl_max_requests cfg))"

definition bucket_log :: "rate_limit_config \<Rightarrow> nat \<Rightarrow> bucket option \<Rightarrow> nat list \<Rightarrow> bool" where
  "bucket_log cfg now entry log \<longleftrightarrow>
     spread cfg log \<and> (\<forall>x \<in> set log. x \<le> now) \<and>
     (case entry of
        None \<Rightarrow> (\<exists>prev old. log = prev @ old \<and> length prev \<le> unat (rl_max_requests cfg) \<and>
                  (\<forall>x \<in> set old. x + rl_window cfg \<le> now))
      | Some b \<Rightarrow>
          bk_last_refill b \<le> now \<and>
          (\<exists>cur prev old. log = cur @ prev @ old \<and>
             length cur + unat (bk_tokens b) = unat (rl_max_requests cfg) \<and> length prev \<le> unat (rl_max_requests cfg) \<and>
             (\<forall>x \<in> set cur. bk_last_refill b \<le> x) \<and> (\<forall>x \<in> set (prev @ old). x \<le> bk_last_refill b) \<and>
             (\<forall>x \<in> set old. x + rl_window cfg \<le> bk_last_refill b)))"

lemma bucket_log_NoneI:
  assumes "spread cfg log" "\<forall>x \<in> set log. x \<le> now" "log = prev @ old" "length prev \<le> unat (rl_max_requests cfg)"
    "\<forall>x \<in> set old. x + rl_window cfg \<le> now"
  shows "bucket_log cfg now None log"
  using assms by (auto simp: bucket_log_def)

lemma bucket_log_SomeI:
  assumes "spread cfg log" "\<forall>x \<in> set log. x \<le> now" "bk_last_refill b \<le> now" "log = cur @ prev @ old"
    "length cur + unat (bk_tokens b) = unat (rl_max_requests cfg)" "length prev \<le> unat (rl_max_requests cfg)"
    "\<forall>x \<in> set cur. bk_last_refill b \<le> x" "\<forall>x \<in> set (prev @ old). x \<le> bk_last_refill b"
    "\<forall>x \<in> set old. x + rl_window cfg \<le> bk_last_refill b"
  shows "bucket_log cfg now (Some b) log"
  unfolding bucket_log_def option.case using assms by (intro conjI exI [of _ cur] exI [of _ prev] exI [of _ old]) simp_all

lemma in_window_append: "in_window a w (xs @ ys) = in_window a w xs + in_window a w ys"
  by (simp add: in_window_def)

lemma in_window_le: "in_window a w xs \<le> length xs"
  by (simp add: in_window_def)

lemma in_window_before: "\<forall>x \<in> set xs. x < a \<Longrightarrow> in_window a w xs = 0"
  by (auto simp: in_window_def filter_empty_conv)

lemma bucket_log_later: "bucket_log cfg now entry log \<Longrightarrow> now \<le> now' \<Longrightarrow> bucket_log cfg now' entry log"
  by (auto simp: bucket_log_def split: option.splits) fastforce+

lemma bucket_log_new: "bucket_log cfg now None []"
  by (simp add: bucket_log_def spread_def in_window_def)

lemma bucket_log_evict:
  assumes "bucket_log cfg now (Some b) log" "\<not> fresh_bucket cfg now b"
  shows "bucket_log cfg now None log"
proof -
  from assms(1) obtain cur prev old where log: "log = cur @ prev @ old"
    "length cur + unat (bk_tokens b) = unat (rl_max_requests cfg)" "\<forall>x \<in> set (prev @ old). x \<le> bk_last_refill b"
    by (auto simp: bucket_log_def)
  moreover have "bk_last_refill b + rl_window cfg \<le> now"
    using assms by (auto simp: fresh_bucket_def bucket_log_def)
  ultimately show ?thesis
    using assms(1) by (intro bucket_log_NoneI [of _ _ _ cur "prev @ old"]) (fastforce simp: bucket_log_def)+
qed

lemma bucket_log_insert:
  assumes "bucket_log cfg (at_insert t) entry log"
  shows "bucket_log cfg (at_insert t) (Some (or_insert_bucket cfg t entry)) log"
proof (cases entry)
  case None
  with assms obtain prev old where "log = prev @ old" "length prev \<le> unat (rl_max_requests cfg)"
    "\<forall>x \<in> set old. x + rl_window cfg \<le> at_insert t"
    by (auto simp: bucket_log_def)
  then show ?thesis
    using assms None
    by (intro bucket_log_SomeI [of _ _ _ _ "[]" prev old]) (auto simp: bucket_log_def or_insert_bucket_def)
qed (use assms in \<open>simp add: or_insert_bucket_def\<close>)

lemma bucket_log_refill:
  assumes "bucket_log cfg (at_elapsed t) (Some b) log" "at_elapsed t \<le> at_refill t"
  shows "bucket_log cfg (at_refill t) (Some (refill cfg t b)) log"
proof (cases "at_elapsed t - bk_last_refill b \<ge> rl_window cfg")
  case True
  from assms(1) obtain cur prev old where log: "log = cur @ prev @ old" "\<forall>x \<in> set (prev @ old). x \<le> bk_last_refill b"
    "length cur + unat (bk_tokens b) = unat (rl_max_requests cfg)" "bk_last_refill b \<le> at_elapsed t"
    by (auto simp: bucket_log_def)
  then have apart: "\<forall>x \<in> set (prev @ old). x + rl_window cfg \<le> at_refill t"
    using True assms(2) by fastforce
  have past: "spread cfg log" "\<forall>x \<in> set log. x \<le> at_refill t"
    using assms by (auto simp: bucket_log_def)
  show ?thesis
    using True log(3) past apart
    by (intro bucket_log_SomeI [of _ _ _ _ "[]" cur "prev @ old"]) (simp_all add: refill_def log(1))
qed (use assms bucket_log_later in \<open>auto simp: refill_def\<close>)

lemma bucket_log_take:
  assumes "bucket_log cfg now (Some b) log" "take_token b = (ok, b')"
  shows "bucket_log cfg now (Some b') (if ok then now # log else log)"
proof (cases "bk_tokens b > 0")
  case False
  then show ?thesis using assms by (auto simp: take_token_def)
next
  case True
  from assms(1) obtain cur prev old where log: "log = cur @ prev @ old"
      "length cur + unat (bk_tokens b) = unat (rl_max_requests cfg)" "length prev \<le> unat (rl_max_requests cfg)"
      "\<forall>x \<in> set cur. bk_last_refill b \<le> x" "\<forall>x \<in> set (prev @ old). x \<le> bk_last_refill b"
      "\<forall>x \<in> set old. x + rl_window cfg \<le> bk_last_refill b"
    and now: "bk_last_refill b \<le> now" "\<forall>x \<in> set log. x \<le> now" and old: "spread cfg log"
    by (auto simp: bucket_log_def)
  from True have "b' = b\<lparr>bk_tokens := bk_tokens b - 1\<rparr>" "ok"
    using assms(2) by (auto simp: take_token_def)
  moreover have tokens: "unat (bk_tokens b - 1) = unat (bk_tokens b) - 1" "0 < unat (bk_tokens b)"
    using True by (simp_all add: unat_minus_one unat_gt_0)
  moreover have "spread cfg (now # log)"
    unfolding spread_def
  proof
    fix a
    show "in_window a (rl_window cfg) (now # log) \<le> 2 * unat (rl_max_requests cfg)"
    proof (cases "a \<le> now \<and> now < a + rl_window cfg")
      case False
      then have "in_window a (rl_window cfg) (now # log) = in_window a (rl_window cfg) log"
        by (auto simp: in_window_def)
      then show ?thesis using old by (simp add: spread_def)
    next
      case True
      have "\<forall>x \<in> set old. x < a" using log(6) now(1) True by fastforce
      then have "in_window a (rl_window cfg) (now # log) \<le> Suc (length cur + length prev)"
        using in_window_le [of a "rl_window cfg" "(now # cur) @ prev"]
        by (simp add: log(1) in_window_append in_window_before flip: append_Cons append_assoc)
      then show ?thesis using log(2,3) tokens(2) by simp
    qed
  qed
  ultimately show ?thesis
    using log now by (intro bucket_log_SomeI [of _ _ _ _ "now # cur" prev old]) auto
qed

lemma bucket_log_check:
  assumes "bucket_log cfg now entry log" "now \<le> at_insert t" "at_insert t \<le> at_elapsed t" "at_elapsed t \<le> at_refill t"
    "check_entry cfg t entry = (ok, b)"
  shows "bucket_log cfg (at_refill t) (Some b) (if ok then at_refill t # log else log)"
proof -
  have "bucket_log cfg (at_insert t) (Some (or_insert_bucket cfg t entry)) log"
    by (rule bucket_log_insert, rule bucket_log_later) (fact assms)+
  then have "bucket_log cfg (at_refill t) (Some (refill cfg t (or_insert_bucket cfg t entry))) log"
    by (rule bucket_log_refill [OF bucket_log_later]) (fact assms)+
  then show ?thesis
    using assms(5) by (intro bucket_log_take) (simp_all add: check_entry_def)
qed

section \<open>Tables of buckets\<close>

text \<open>
  What the bound needs of a table of buckets: a check works on the bucket of its key, an eviction drops it
  when it is stale, and everything else leaves it alone.
\<close>

locale bucket_table =
  fixes cfg :: rate_limit_config
    and lookup :: "rate_limiter_inner \<Rightarrow> bucket option"
    and mine :: "rl_event \<Rightarrow> readings option"
    and ok_table :: "rate_limiter_inner \<Rightarrow> bool"
  assumes table_step: "ok_table s \<Longrightarrow> ok_table (snd (rl_step cfg ev s))"
    and lookup_mine: "ok_table s \<Longrightarrow> mine ev = Some t \<Longrightarrow> rl_step cfg ev s = (ok, s') \<Longrightarrow>
          check_entry cfg t (lookup s) = (ok, the (lookup s')) \<and> lookup s' \<noteq> None"
    and mine_readings: "mine ev = Some t \<Longrightarrow> event_readings ev = [at_insert t, at_elapsed t, at_refill t]"
    and lookup_evict: "ok_table s \<Longrightarrow> lookup (snd (rl_step cfg (Evict now) s)) =
          (case lookup s of Some b \<Rightarrow> if fresh_bucket cfg now b then Some b else None | None \<Rightarrow> None)"
    and lookup_other: "ok_table s \<Longrightarrow> mine ev = None \<Longrightarrow> \<forall>now. ev \<noteq> Evict now \<Longrightarrow> lookup (snd (rl_step cfg ev s)) = lookup s"
    and mine_evict: "mine (Evict now) = None"
begin

lemma accepted_spread:
  assumes "bucket_log cfg now (lookup s) log" "ok_table s" "sorted (now # concat (map event_readings evs))"
  shows "spread cfg (accepted_times cfg mine log evs s)"
  using assms
proof (induction evs arbitrary: now log s)
  case Nil
  then show ?case by (simp add: bucket_log_def)
next
  case (Cons ev evs)
  obtain ok s' where step: "rl_step cfg ev s = (ok, s')" by fastforce
  then have table: "ok_table s'"
    using table_step [OF Cons.prems(2), of ev] by simp
  show ?case
  proof (cases "mine ev")
    case (Some t)
    from mine_readings [OF Some] Cons.prems(3) have order: "now \<le> at_insert t" "at_insert t \<le> at_elapsed t"
      "at_elapsed t \<le> at_refill t" "sorted (at_refill t # concat (map event_readings evs))"
      by auto
    from lookup_mine [OF Cons.prems(2) Some step] obtain b where
      b: "lookup s' = Some b" "check_entry cfg t (lookup s) = (ok, b)" by auto
    from bucket_log_check [OF Cons.prems(1) order(1-3) b(2)] b(1)
    have "bucket_log cfg (at_refill t) (lookup s') (if ok then at_refill t # log else log)" by simp
    from Cons.IH [OF this table order(4)] show ?thesis
      by (simp add: step Some)
  next
    case None
    obtain now' where later: "now \<le> now'" "sorted (now' # concat (map event_readings evs))"
      "\<forall>n. ev = Evict n \<longrightarrow> now' = n"
      using Cons.prems(3) by (cases "\<exists>n. ev = Evict n") (auto simp: sorted_append)
    note log = bucket_log_later [OF Cons.prems(1) later(1)]
    have "bucket_log cfg now' (lookup s') log"
    proof (cases "\<exists>n. ev = Evict n")
      case True
      then show ?thesis
        using log lookup_evict [OF Cons.prems(2), of now'] later(3) step bucket_log_evict
        by (auto split: option.splits if_splits)
    next
      case False
      then show ?thesis
        using log lookup_other [OF Cons.prems(2) None] step by simp
    qed
    from Cons.IH [OF this table later(2)] show ?thesis
      by (simp add: step None)
  qed
qed

end

definition distinct_tables :: "rate_limiter_inner \<Rightarrow> bool" where
  "distinct_tables s \<longleftrightarrow> distinct (map fst (ip_buckets s)) \<and> distinct (map fst (token_buckets s))"

lemma map_of_filter_value:
  "distinct (map fst xs) \<Longrightarrow>
     map_of (filter (\<lambda>(_, v). P v) xs) k = (case map_of xs k of Some v \<Rightarrow> if P v then Some v else None | None \<Rightarrow> None)"
  by (induction xs) (auto simp: map_of_eq_None_iff image_iff split: option.splits)

lemma distinct_filter_keys: "distinct (map fst xs) \<Longrightarrow> distinct (map fst (filter P xs))"
  by (simp add: distinct_map_filter)

lemmas step_defs = check_ip_def check_token_def try_add_connection_def remove_connection_def evict_stale_buckets_def Let_def

lemma distinct_tables_step: "distinct_tables s \<Longrightarrow> distinct_tables (snd (rl_step cfg ev s))"
  by (cases ev) (auto simp: distinct_tables_def step_defs distinct_update distinct_filter_keys split: prod.splits option.splits)

interpretation ips: bucket_table cfg "\<lambda>s. map_of (ip_buckets s) ip" "ip_check ip" distinct_tables for cfg ip
proof unfold_locales
  fix s ev t ok s'
  assume "ip_check ip ev = Some t" "rl_step cfg ev s = (ok, s')"
  then show "check_entry cfg t (map_of (ip_buckets s) ip) = (ok, the (map_of (ip_buckets s') ip)) \<and>
      map_of (ip_buckets s') ip \<noteq> None"
    by (cases ev) (auto simp: check_ip_def update_conv split: if_splits prod.splits)
next
  fix s ev
  assume "ip_check ip ev = None" "\<forall>now. ev \<noteq> Evict now"
  then show "map_of (ip_buckets (snd (rl_step cfg ev s))) ip = map_of (ip_buckets s) ip"
    by (cases ev) (auto simp: step_defs update_conv split: if_splits prod.splits option.splits)
next
  show "ip_check ip ev = Some t \<Longrightarrow> event_readings ev = [at_insert t, at_elapsed t, at_refill t]" for ev t
    by (cases ev) (auto split: if_splits)
qed (simp_all add: distinct_tables_step, auto simp: step_defs distinct_tables_def map_of_filter_value)

interpretation tokens: bucket_table cfg "\<lambda>s. map_of (token_buckets s) token" "token_check token" distinct_tables for cfg token
proof unfold_locales
  fix s ev t ok s'
  assume "token_check token ev = Some t" "rl_step cfg ev s = (ok, s')"
  then show "check_entry cfg t (map_of (token_buckets s) token) = (ok, the (map_of (token_buckets s') token)) \<and>
      map_of (token_buckets s') token \<noteq> None"
    by (cases ev) (auto simp: check_token_def update_conv split: if_splits prod.splits)
next
  fix s ev
  assume "token_check token ev = None" "\<forall>now. ev \<noteq> Evict now"
  then show "map_of (token_buckets (snd (rl_step cfg ev s))) token = map_of (token_buckets s) token"
    by (cases ev) (auto simp: step_defs update_conv split: if_splits prod.splits option.splits)
next
  show "token_check token ev = Some t \<Longrightarrow> event_readings ev = [at_insert t, at_elapsed t, at_refill t]" for ev t
    by (cases ev) (auto split: if_splits)
qed (simp_all add: distinct_tables_step, auto simp: step_defs distinct_tables_def map_of_filter_value)

section \<open>Connections\<close>

text \<open>The connections an address holds open: slots it was given and has not returned.\<close>

primrec held :: "rate_limit_config \<Rightarrow> ip_addr \<Rightarrow> nat \<Rightarrow> rl_event list \<Rightarrow> rate_limiter_inner \<Rightarrow> nat" where
  "held cfg ip n [] s = n"
| "held cfg ip n (ev # evs) s =
     (let (ok, s') = rl_step cfg ev s in
      held cfg ip (if ev = TryAdd ip \<and> ok then Suc n else if ev = RemoveConn ip then n - 1 else n) evs s')"

lemma word_inc:
  assumes "n < (m :: 32 word)"
  shows "unat (n + 1) = Suc (unat n)" "n + 1 \<le> m"
proof -
  have "Suc (unat n) < 2 ^ LENGTH(32)"
    using assms unat_ip_bound [of m] by (simp add: word_less_nat_alt)
  then show "unat (n + 1) = Suc (unat n)"
    by (simp add: unat_word_ariths)
  then show "n + 1 \<le> m"
    using assms by (simp add: word_le_nat_alt word_less_nat_alt)
qed

lemma connection_count_simps [simp]:
  "connection_count (s\<lparr>ip_connections := AList.update k n (ip_connections s)\<rparr>) ip =
     (if k = ip then n else connection_count s ip)"
  "connection_count (s\<lparr>ip_connections := AList.delete k (ip_connections s)\<rparr>) ip =
     (if k = ip then 0 else connection_count s ip)"
  "connection_count (s\<lparr>ip_buckets := x\<rparr>) ip = connection_count s ip"
  "connection_count (s\<lparr>token_buckets := y\<rparr>) ip = connection_count s ip"
  by (simp_all add: connection_count_def update_conv' delete_conv')

lemma remove_connection_count:
  "connection_count (remove_connection k s) ip =
     (if k = ip \<and> connection_count s ip \<noteq> 0 then connection_count s ip - 1 else connection_count s ip)"
proof (cases "map_of (ip_connections s) k")
  case None
  then show ?thesis by (auto simp: remove_connection_def connection_count_def)
next
  case (Some n)
  then have "connection_count s k = n" by (simp add: connection_count_def)
  then show ?thesis
    using Some by (auto simp: remove_connection_def Let_def)
qed

lemma connection_step:
  assumes "connection_count s ip \<le> rl_max_connections_per_ip cfg" "rl_step cfg ev s = (ok, s')"
  shows "connection_count s' ip \<le> rl_max_connections_per_ip cfg"
    "unat (connection_count s' ip) =
      (if ev = TryAdd ip \<and> ok then Suc (unat (connection_count s ip))
       else if ev = RemoveConn ip then unat (connection_count s ip) - 1 else unat (connection_count s ip))"
proof -
  have count: "connection_count s' ip =
      (if ev = TryAdd ip \<and> ok then connection_count s ip + 1
       else if ev = RemoveConn ip \<and> connection_count s ip \<noteq> 0 then connection_count s ip - 1 else connection_count s ip)"
    and room: "ev = TryAdd ip \<Longrightarrow> ok \<Longrightarrow> connection_count s ip < rl_max_connections_per_ip cfg"
    using assms(2)
    by (cases ev; auto simp: check_ip_def check_token_def try_add_connection_def evict_stale_buckets_def Let_def
        remove_connection_count not_le split: prod.splits if_splits)+
  have "connection_count s ip \<noteq> 0 \<Longrightarrow> unat (connection_count s ip - 1) = unat (connection_count s ip) - 1"
    by (rule unat_minus_one)
  then show "unat (connection_count s' ip) =
      (if ev = TryAdd ip \<and> ok then Suc (unat (connection_count s ip))
       else if ev = RemoveConn ip then unat (connection_count s ip) - 1 else unat (connection_count s ip))"
    using count room word_inc(1) by auto
  then show "connection_count s' ip \<le> rl_max_connections_per_ip cfg"
    using assms(1) count room word_inc by (auto simp: word_le_nat_alt split: if_splits)
qed

lemma held_counted:
  assumes "connection_count s ip \<le> rl_max_connections_per_ip cfg" "unat (connection_count s ip) = n"
  shows "held cfg ip n evs s \<le> unat (rl_max_connections_per_ip cfg)"
  using assms
proof (induction evs arbitrary: n s)
  case Nil
  then show ?case by (simp add: word_le_nat_alt)
next
  case (Cons ev evs)
  obtain ok s' where step: "rl_step cfg ev s = (ok, s')" by fastforce
  have "held cfg ip (unat (connection_count s' ip)) evs s' \<le> unat (rl_max_connections_per_ip cfg)"
    by (rule Cons.IH [OF connection_step(1) [OF Cons.prems(1) step] refl])
  then show ?case
    unfolding connection_step(2) [OF Cons.prems(1) step] Cons.prems(2) by (simp add: step)
qed


definition at_once :: "nat \<Rightarrow> readings" where
  "at_once t = \<lparr>at_insert = t, at_elapsed = t, at_refill = t\<rparr>"

definition small_limit :: rate_limit_config where
  "small_limit = \<lparr>rl_max_requests = 3, rl_window = 10, rl_max_connections_per_ip = 2\<rparr>"

definition burst :: "rl_event list" where
  "burst = map (\<lambda>t. CheckIp (V4 7) (at_once t)) [0, 9, 9, 10, 10, 10, 10]"

lemmas rl_eval = burst_def small_limit_def at_once_def check_ip_def check_entry_def or_insert_bucket_def refill_def
  take_token_def new_rate_limiter_def

lemma burst_accepted: "accepted_times small_limit (ip_check (V4 7)) [] burst new_rate_limiter = [10, 10, 10, 9, 9, 0]"
  by (simp add: rl_eval)


text \<open>The window is fixed and not sliding: a limit of three requests lets five pass within one window.\<close>

lemma burst_exceeds_limit:
  "in_window 1 (rl_window small_limit) (accepted_times small_limit (ip_check (V4 7)) [] burst new_rate_limiter) = 5"
  unfolding burst_accepted by (simp add: in_window_def small_limit_def)

end
