(* ===== verification/Approval_Store.thy ===== *)
theory Approval_Store
  imports Savfox_Prelude
begin

text \<open>
  \<^verbatim>\<open>gateway-server/src/exec_approval.rs\<close>: the durable list of approvals that wait for an answer and the history of
  the answers.  All operations run under one lock: they load the file, change the list and write it back.

  The file is missing, unreadable or holds a store; whether a write succeeds, and what a failed one leaves behind,
  is an argument.  Time is in milliseconds, nonces and identifiers come from random generators and are arguments.

  The operations are the steps of a transition system whose trace keeps what was asked and answered; it shows that
  identifiers stay unique, that an identifier is answered at most once and that the history holds an approval only
  for an answer that carried the nonce issued with the request.
\<close>

section \<open>The store\<close>

record exec_approval_request_entry =
  ea_id :: rstring
  ea_command :: rstring
  ea_cwd :: "rstring option"
  ea_host :: "rstring option"
  ea_security :: "rstring option"
  ea_ask :: "rstring option"
  ea_agent_id :: "rstring option"
  ea_session_id :: "rstring option"
  ea_created_at_ms :: nat
  ea_expires_at_ms :: nat
  ea_nonce :: rstring
  ea_kind :: "rstring option"
  ea_channel_instance_id :: "rstring option"
  ea_account_id :: "rstring option"
  ea_peer_id :: "rstring option"
  ea_logical_session_id :: "rstring option"
  ea_core_session_id :: "rstring option"
  ea_turn_id :: "rstring option"
  ea_environment_id :: "rstring option"
  ea_available_decisions :: "rstring list"
  ea_policy_fingerprint :: "rstring option"
  ea_questions :: "rstring option"

record exec_approval_resolution =
  er_id :: rstring
  er_approved :: bool
  er_resolved_by :: "rstring option"
  er_reason :: "rstring option"
  er_nonce :: rstring

record approval_records =
  as_pending :: "exec_approval_request_entry list"
  as_resolved :: "exec_approval_resolution list"

datatype store_file = NoFile | Unreadable | StoreFile approval_records

definition empty_store :: approval_records where
  "empty_store = \<lparr>as_pending = [], as_resolved = []\<rparr>"

definition load_store :: "store_file \<Rightarrow> approval_records" where
  "load_store file = (case file of StoreFile s \<Rightarrow> s | NoFile \<Rightarrow> empty_store | Unreadable \<Rightarrow> empty_store)"

text \<open>Writing the store: nothing went wrong, or an error message and what the file holds after it: what it held before,
  a part of the text, or all of it.\<close>

datatype write_left = Untouched | Broken | Complete

type_synonym writer = "approval_records \<Rightarrow> (rstring \<times> write_left) option"

definition save_store :: "writer \<Rightarrow> approval_records \<Rightarrow> store_file \<Rightarrow> (rstring, unit) result \<times> store_file" where
  "save_store wr store file =
     (case wr store of
        None \<Rightarrow> (Ok (), StoreFile store)
      | Some (e, left) \<Rightarrow>
          (Err e, case left of Untouched \<Rightarrow> file | Broken \<Rightarrow> Unreadable | Complete \<Rightarrow> StoreFile store))"

fun put_pending :: "exec_approval_request_entry \<Rightarrow> exec_approval_request_entry list \<Rightarrow> exec_approval_request_entry list" where
  "put_pending request [] = [request]"
| "put_pending request (e # es) = (if ea_id e = ea_id request then request # es else e # put_pending request es)"

definition persist_pending_approval ::
    "writer \<Rightarrow> exec_approval_request_entry \<Rightarrow> store_file \<Rightarrow> (rstring, unit) result \<times> store_file" where
  "persist_pending_approval wr request file =
     (let store = load_store file
      in save_store wr (store\<lparr>as_pending := put_pending request (as_pending store)\<rparr>) file)"

datatype resolve_outcome = Resolved | NotPending | NonceMismatch | LegacyMissingNonce

definition persist_resolved_approval ::
    "writer \<Rightarrow> exec_approval_resolution \<Rightarrow> store_file \<Rightarrow> (rstring, resolve_outcome) result \<times> store_file" where
  "persist_resolved_approval wr resolution file =
     (let store = load_store file in
      case List.find (\<lambda>r. ea_id r = er_id resolution) (as_pending store) of
        None \<Rightarrow> (Ok NotPending, file)
      | Some entry \<Rightarrow>
          if ea_nonce entry = [] then (Ok LegacyMissingNonce, file)
          else if ea_nonce entry \<noteq> er_nonce resolution then (Ok NonceMismatch, file)
          else
            (let store = store\<lparr>as_pending := filter (\<lambda>e. ea_id e \<noteq> er_id resolution) (as_pending store),
                               as_resolved := as_resolved store @ [resolution\<lparr>er_nonce := []\<rparr>]\<rparr>
             in case save_store wr store file of
                  (Inl e, f) \<Rightarrow> (Err e, f)
                | (Inr _, f) \<Rightarrow> (Ok Resolved, f)))"

definition is_expired :: "nat \<Rightarrow> exec_approval_request_entry \<Rightarrow> bool" where
  "is_expired now_ms request \<longleftrightarrow> ea_expires_at_ms request \<noteq> 0 \<and> ea_expires_at_ms request \<le> now_ms"

definition expired_resolution :: "exec_approval_request_entry \<Rightarrow> exec_approval_resolution" where
  "expired_resolution request =
     \<lparr>er_id = ea_id request, er_approved = False, er_resolved_by = Some (lit ''gateway''),
      er_reason = Some (lit ''approval request expired''), er_nonce = []\<rparr>"

definition list_pending_approvals ::
    "writer \<Rightarrow> nat \<Rightarrow> store_file \<Rightarrow> (rstring, exec_approval_request_entry list) result \<times> store_file" where
  "list_pending_approvals wr now_ms file =
     (let store = load_store file;
          expired = map expired_resolution (filter (is_expired now_ms) (as_pending store));
          store = store\<lparr>as_pending := filter (\<lambda>r. \<not> is_expired now_ms r) (as_pending store)\<rparr>
      in if expired \<noteq> [] then
           (case save_store wr (store\<lparr>as_resolved := as_resolved store @ expired\<rparr>) file of
              (Inl e, f) \<Rightarrow> (Err e, f)
            | (Inr _, f) \<Rightarrow> (Ok (as_pending store), f))
         else (Ok (as_pending store), file))"

definition find_pending_approval ::
    "writer \<Rightarrow> nat \<Rightarrow> rstring \<Rightarrow> store_file \<Rightarrow> (rstring, exec_approval_request_entry option) result \<times> store_file" where
  "find_pending_approval wr now_ms request_id file =
     (case list_pending_approvals wr now_ms file of
        (Inl e, f) \<Rightarrow> (Err e, f)
      | (Inr rs, f) \<Rightarrow> (Ok (List.find (\<lambda>r. ea_id r = request_id) rs), f))"

definition is_coordinator_owned :: "exec_approval_request_entry \<Rightarrow> bool" where
  "is_coordinator_owned r \<longleftrightarrow> ea_kind r \<noteq> None \<or> ea_core_session_id r \<noteq> None \<or> ea_turn_id r \<noteq> None"

section \<open>The request endpoint\<close>

text \<open>The first \<open>n\<close> characters, with an ellipsis when there are more.\<close>

definition truncate_utf8 :: "rstring \<Rightarrow> nat \<Rightarrow> rstring" where
  "truncate_utf8 s n = take n s @ (if n < length s then [8230] else [])"

definition sanitized_approval_text :: "(rstring \<Rightarrow> rstring) \<Rightarrow> rstring \<Rightarrow> nat \<Rightarrow> rstring" where
  "sanitized_approval_text redact input max_chars = truncate_utf8 (redact input) max_chars"

definition accepted_request ::
    "(rstring \<Rightarrow> rstring) \<Rightarrow> rstring \<Rightarrow> rstring \<Rightarrow> nat \<Rightarrow> exec_approval_request_entry \<Rightarrow> exec_approval_request_entry" where
  "accepted_request redact uuid nonce now_ms request =
     request\<lparr>ea_id := uuid, ea_created_at_ms := now_ms, ea_expires_at_ms := sat_add now_ms 300000,
       ea_command := sanitized_approval_text redact (ea_command request) 2048,
       ea_ask := map_option (\<lambda>reason. sanitized_approval_text redact reason 512) (ea_ask request),
       ea_kind := None, ea_channel_instance_id := None, ea_account_id := None, ea_peer_id := None,
       ea_logical_session_id := None, ea_core_session_id := None, ea_turn_id := None, ea_environment_id := None,
       ea_available_decisions := [], ea_policy_fingerprint := None, ea_nonce := nonce\<rparr>"

section \<open>Forwarding to chats\<close>

record approval_forwarding_config =
  fc_enabled :: bool
  fc_mode :: rstring
  fc_targets :: "rstring list"
  fc_agent_filter :: "rstring list"
  fc_session_filter :: "rstring list"

definition split_trimmed :: "rstring option \<Rightarrow> rstring list" where
  "split_trimmed v = (case v of None \<Rightarrow> [] | Some s \<Rightarrow> map trim (split_on 44 s))"

text \<open>The environment is a function from names to values.\<close>

definition load_forwarding_config :: "(rstring \<Rightarrow> rstring option) \<Rightarrow> approval_forwarding_config" where
  "load_forwarding_config env =
     \<lparr>fc_enabled = (case env (lit ''SAVFOX_APPROVAL_FORWARDING'') of
        None \<Rightarrow> False | Some v \<Rightarrow> v = lit ''1'' \<or> eq_ignore_ascii_case v (lit ''true'')),
      fc_mode = (case env (lit ''SAVFOX_APPROVAL_MODE'') of None \<Rightarrow> lit ''targets'' | Some m \<Rightarrow> m),
      fc_targets = split_trimmed (env (lit ''SAVFOX_APPROVAL_TARGETS'')),
      fc_agent_filter = split_trimmed (env (lit ''SAVFOX_APPROVAL_AGENT_FILTER'')),
      fc_session_filter = split_trimmed (env (lit ''SAVFOX_APPROVAL_SESSION_FILTER''))\<rparr>"

text \<open>A filter lets a request pass that matches one of its words, and every request without the field.\<close>

definition passes_filter :: "rstring list \<Rightarrow> rstring option \<Rightarrow> bool" where
  "passes_filter words v \<longleftrightarrow> words = [] \<or> (case v of None \<Rightarrow> True | Some x \<Rightarrow> list_ex (\<lambda>f. sublist f x) words)"

definition optional_line :: "rstring \<Rightarrow> rstring option \<Rightarrow> rstring \<Rightarrow> rstring" where
  "optional_line before v after = (case v of None \<Rightarrow> [] | Some x \<Rightarrow> before @ x @ after @ [nl_char])"

definition format_approval_message :: "nat \<Rightarrow> exec_approval_request_entry \<Rightarrow> rstring" where
  "format_approval_message now_ms r =
     lit ''**Exec Approval Required**'' @ [nl_char] @
     optional_line (lit ''Agent: `'') (ea_agent_id r) (lit ''`'') @
     (if nl_char \<in> set (ea_command r)
      then lit ''```'' @ [nl_char] @ ea_command r @ [nl_char] @ lit ''```'' @ [nl_char]
      else lit ''Command: `'' @ ea_command r @ lit ''`'' @ [nl_char]) @
     optional_line (lit ''Working dir: `'') (ea_cwd r) (lit ''`'') @
     optional_line (lit ''Reason: '') (ea_ask r) [] @
     optional_line (lit ''Security: '') (ea_security r) [] @
     [nl_char] @ lit ''Approval ID: `'' @ ea_id r @ lit ''`'' @
     [nl_char] @ lit ''Reply `+` to approve or `-` to deny.'' @
     [nl_char] @ lit ''If needed, reply `approve:'' @ ea_id r @ lit ''` or `deny:'' @ ea_id r @ lit ''`.'' @
     (if 0 < ea_expires_at_ms r \<and> now_ms < ea_expires_at_ms r
      then lit '' (expires in '' @ show_nat ((ea_expires_at_ms r - now_ms) div 1000) @ lit ''s)'' else [])"

text \<open>Where a message goes: the chats it is sent to, and whether the open connections hear of it.\<close>

definition explicit_targets :: "approval_forwarding_config \<Rightarrow> rstring list" where
  "explicit_targets config =
     (if fc_mode config = lit ''targets'' \<or> fc_mode config = lit ''both'' then fc_targets config else [])"

definition forward_approval_to_chat ::
    "nat \<Rightarrow> exec_approval_request_entry \<Rightarrow> approval_forwarding_config \<Rightarrow> (rstring \<times> rstring) list \<times> bool" where
  "forward_approval_to_chat now_ms r config =
     (if \<not> fc_enabled config \<or> \<not> passes_filter (fc_agent_filter config) (ea_agent_id r) \<or>
         \<not> passes_filter (fc_session_filter config) (ea_session_id r)
      then ([], False)
      else (map (\<lambda>target. (target, format_approval_message now_ms r)) (explicit_targets config), True))"

definition notify_approval_resolved ::
    "exec_approval_resolution \<Rightarrow> approval_forwarding_config \<Rightarrow> (rstring \<times> rstring) list \<times> bool" where
  "notify_approval_resolved r config =
     (if \<not> fc_enabled config then ([], False)
      else (let message = lit ''Exec approval `'' @ er_id r @ lit ''`: **'' @
                  (if er_approved r then lit ''APPROVED'' else lit ''DENIED'') @ lit ''**'' @
                  (case er_resolved_by r of Some who \<Rightarrow> lit '' by '' @ who | None \<Rightarrow> []) @
                  (case er_reason r of Some reason \<Rightarrow> lit ''  - '' @ reason | None \<Rightarrow> [])
            in (map (\<lambda>target. (target, message)) (explicit_targets config), True)))"

text \<open>\<^verbatim>\<open>approval_request_handler\<close> after authentication: a failed write is only logged.\<close>

definition approval_request_handler ::
    "(rstring \<Rightarrow> rstring) \<Rightarrow> writer \<Rightarrow> (rstring \<Rightarrow> rstring option) \<Rightarrow> rstring \<Rightarrow> rstring \<Rightarrow> nat \<Rightarrow> nat \<Rightarrow>
     exec_approval_request_entry \<Rightarrow> store_file \<Rightarrow> rstring \<times> ((rstring \<times> rstring) list \<times> bool) \<times> store_file" where
  "approval_request_handler redact wr env uuid nonce now_ms later_ms request file =
     (let request = accepted_request redact uuid nonce now_ms request;
          file = snd (persist_pending_approval wr request file)
      in (ea_id request, forward_approval_to_chat later_ms request (load_forwarding_config env), file))"

text \<open>The list endpoint hides the requests of another runtime.\<close>

definition approvals_list_handler ::
    "writer \<Rightarrow> nat \<Rightarrow> store_file \<Rightarrow> (rstring, exec_approval_request_entry list) result \<times> store_file" where
  "approvals_list_handler wr now_ms file =
     (case list_pending_approvals wr now_ms file of
        (Inl e, f) \<Rightarrow> (Err e, f)
      | (Inr rs, f) \<Rightarrow> (Ok (filter (\<lambda>r. ea_kind r \<noteq> Some (lit ''claude'')) rs), f))"

section \<open>The store over time\<close>

text \<open>What is asked of the store and what it says: a request with its identifier and nonce, an answer with the nonce it
  carries and the outcome, and a listing.\<close>

datatype store_event =
    Requested rstring rstring
  | Answered rstring rstring bool "(rstring, resolve_outcome) result"
  | Listed nat

text \<open>The identifiers that were answered for good, newest first, and those that were asked for.\<close>

fun resolved_ids :: "store_event list \<Rightarrow> rstring list" where
  "resolved_ids (Answered i n b (Inr Resolved) # tr) = i # resolved_ids tr"
| "resolved_ids (_ # tr) = resolved_ids tr"
| "resolved_ids [] = []"

definition requested_ids :: "store_event list \<Rightarrow> rstring set" where
  "requested_ids tr = {i. \<exists>n. Requested i n \<in> set tr}"

inductive store_reach :: "store_file \<Rightarrow> store_event list \<Rightarrow> bool" where
  store_start: "store_reach NoFile []"
| store_put:
    "store_reach f tr \<Longrightarrow> ea_id request \<notin> requested_ids tr \<Longrightarrow> persist_pending_approval wr request f = (r, f') \<Longrightarrow>
     store_reach f' (Requested (ea_id request) (ea_nonce request) # tr)"
| store_resolve:
    "store_reach f tr \<Longrightarrow> persist_resolved_approval wr resolution f = (r, f') \<Longrightarrow>
     store_reach f' (Answered (er_id resolution) (er_nonce resolution) (er_approved resolution) r # tr)"
| store_list:
    "store_reach f tr \<Longrightarrow> list_pending_approvals wr now_ms f = (r, f') \<Longrightarrow> store_reach f' (Listed now_ms # tr)"

text \<open>The invariant: unique identifiers, in the list or in the history and not in both; every entry of the list was
  asked for with its nonce; every entry of the history was asked for, has no nonce, and an approval was answered with
  the nonce of its request.\<close>

definition recorded_ok :: "store_event list \<Rightarrow> exec_approval_resolution \<Rightarrow> bool" where
  "recorded_ok tr r \<longleftrightarrow> er_nonce r = [] \<and> er_id r \<in> requested_ids tr \<and>
     (er_approved r \<longrightarrow> (\<exists>n o'. n \<noteq> [] \<and> Requested (er_id r) n \<in> set tr \<and> Answered (er_id r) n True o' \<in> set tr))"

definition store_ok :: "store_event list \<Rightarrow> approval_records \<Rightarrow> bool" where
  "store_ok tr s \<longleftrightarrow>
     distinct (map ea_id (as_pending s) @ map er_id (as_resolved s)) \<and>
     (\<forall>e \<in> set (as_pending s). Requested (ea_id e) (ea_nonce e) \<in> set tr \<and> ea_id e \<notin> set (resolved_ids tr)) \<and>
     (\<forall>r \<in> set (as_resolved s). recorded_ok tr r)"

subsection \<open>Preservation\<close>

lemma resolved_ids_Cons:
  "resolved_ids (ev # tr) =
     (case ev of Answered i n b (Inr Resolved) \<Rightarrow> i # resolved_ids tr | _ \<Rightarrow> resolved_ids tr)"
  by (cases ev) (auto split: sum.splits resolve_outcome.splits)

lemma requested_ids_Cons [simp]:
  "requested_ids (Requested i n # tr) = insert i (requested_ids tr)"
  "requested_ids (Answered i n b r # tr) = requested_ids tr"
  "requested_ids (Listed m # tr) = requested_ids tr"
  by (auto simp: requested_ids_def)

lemma save_store_file:
  assumes "save_store wr s f = (r, f')"
  shows "f' = f \<or> f' = Unreadable \<or> f' = StoreFile s"
  using assms by (auto simp: save_store_def split: option.splits write_left.splits)

lemma save_store_Ok: "save_store wr s f = (Inr u, f') \<Longrightarrow> f' = StoreFile s"
  by (auto simp: save_store_def split: option.splits)

lemma load_store_simps [simp]:
  "load_store NoFile = empty_store" "load_store Unreadable = empty_store" "load_store (StoreFile s) = s"
  by (simp_all add: load_store_def)

lemma store_ok_empty [simp]: "store_ok tr empty_store"
  by (simp add: store_ok_def empty_store_def)

text \<open>What a save does to the invariant: the file holds the old store, none or the new one.\<close>

lemma save_keeps:
  assumes "save_store wr s f = (r, f')" "store_ok tr (load_store f)" "store_ok tr s"
  shows "store_ok tr (load_store f')"
  using save_store_file [OF assms(1)] assms(2,3) by (elim disjE) simp_all

lemma recorded_ok_more: "recorded_ok tr r \<Longrightarrow> recorded_ok (ev # tr) r"
  unfolding recorded_ok_def requested_ids_def by fastforce

lemma store_ok_more:
  assumes "store_ok tr s" "set (resolved_ids (ev # tr)) \<inter> ea_id ` set (as_pending s) \<subseteq> set (resolved_ids tr)"
  shows "store_ok (ev # tr) s"
  using assms recorded_ok_more unfolding store_ok_def by fastforce

lemma put_pending_fresh: "ea_id x \<notin> ea_id ` set es \<Longrightarrow> put_pending x es = es @ [x]"
  by (induction es) auto

lemma store_ok_ids:
  assumes "store_ok tr s"
  shows "ea_id ` set (as_pending s) \<subseteq> requested_ids tr" "er_id ` set (as_resolved s) \<subseteq> requested_ids tr"
  using assms by (auto simp: store_ok_def recorded_ok_def requested_ids_def)

lemma put_keeps:
  assumes ok: "store_ok tr s" and fresh: "ea_id x \<notin> requested_ids tr" and "set (resolved_ids tr) \<subseteq> requested_ids tr"
  shows "store_ok (Requested (ea_id x) (ea_nonce x) # tr) (s\<lparr>as_pending := put_pending x (as_pending s)\<rparr>)"
proof -
  have new: "ea_id x \<notin> ea_id ` set (as_pending s)" "ea_id x \<notin> er_id ` set (as_resolved s)"
    "ea_id x \<notin> set (resolved_ids tr)"
    using store_ok_ids [OF ok] fresh assms(3) by auto
  have "store_ok (Requested (ea_id x) (ea_nonce x) # tr) s"
    by (rule store_ok_more [OF ok]) simp
  then show ?thesis
    using new by (auto simp: store_ok_def put_pending_fresh)
qed

lemma distinct_move:
  assumes "distinct (map ea_id (as_pending s) @ map er_id (as_resolved s))" "e \<in> set (as_pending s)"
  shows "distinct (map ea_id (filter (\<lambda>x. ea_id x \<noteq> ea_id e) (as_pending s)) @ map er_id (as_resolved s) @ [ea_id e])"
  using assms by (auto simp: distinct_map_filter)

lemma resolve_keeps:
  assumes ok: "store_ok tr s" and e: "e \<in> set (as_pending s)" and n: "ea_nonce e \<noteq> []"
    and same: "er_id x = ea_id e" "er_nonce x = ea_nonce e"
  shows "store_ok (Answered (er_id x) (er_nonce x) (er_approved x) r # tr)
    (s\<lparr>as_pending := filter (\<lambda>p. ea_id p \<noteq> er_id x) (as_pending s), as_resolved := as_resolved s @ [x\<lparr>er_nonce := []\<rparr>]\<rparr>)"
    (is "store_ok (?ev # tr) ?s")
proof -
  have asked: "Requested (ea_id e) (ea_nonce e) \<in> set tr"
    using ok e by (auto simp: store_ok_def)
  have "distinct (map ea_id (as_pending ?s) @ map er_id (as_resolved ?s))"
    using distinct_move [of s e] ok e same by (simp add: store_ok_def)
  moreover have "\<forall>p \<in> set (as_pending ?s). Requested (ea_id p) (ea_nonce p) \<in> set (?ev # tr) \<and> ea_id p \<notin> set (resolved_ids (?ev # tr))"
    using ok by (auto simp: store_ok_def resolved_ids_Cons split: sum.splits resolve_outcome.splits)
  moreover have "recorded_ok (?ev # tr) (x\<lparr>er_nonce := []\<rparr>)"
    using asked n same unfolding recorded_ok_def requested_ids_def by auto
  then have "\<forall>q \<in> set (as_resolved ?s). recorded_ok (?ev # tr) q"
    using ok recorded_ok_more by (auto simp: store_ok_def)
  ultimately show ?thesis
    by (simp add: store_ok_def)
qed

lemma expired_fields [simp]:
  "er_id (expired_resolution e) = ea_id e" "er_nonce (expired_resolution e) = []" "\<not> er_approved (expired_resolution e)"
  by (simp_all add: expired_resolution_def)

lemma expire_keeps:
  assumes ok: "store_ok tr s"
  shows "store_ok tr (s\<lparr>as_pending := filter (\<lambda>r. \<not> is_expired now r) (as_pending s),
    as_resolved := as_resolved s @ map expired_resolution (filter (is_expired now) (as_pending s))\<rparr>)"
proof -
  have "\<forall>e \<in> set (as_pending s). recorded_ok tr (expired_resolution e)"
    using store_ok_ids(1) [OF ok] by (auto simp: recorded_ok_def)
  moreover have "distinct (map ea_id (as_pending s))"
    using ok by (simp add: store_ok_def)
  then have "ea_id ` {e \<in> set (as_pending s). \<not> is_expired now e} \<inter> ea_id ` {e \<in> set (as_pending s). is_expired now e} = {}"
    by (auto simp: distinct_map dest: inj_onD)
  ultimately show ?thesis
    using ok by (auto simp: store_ok_def distinct_map_filter comp_def)
qed

lemma list_keeps:
  assumes ok: "store_ok tr (load_store f)" and step: "list_pending_approvals wr now f = (r, f')"
  shows "store_ok (Listed now # tr) (load_store f')"
proof -
  let ?s = "(load_store f)\<lparr>as_pending := filter (\<lambda>r. \<not> is_expired now r) (as_pending (load_store f)),
    as_resolved := as_resolved (load_store f) @ map expired_resolution (filter (is_expired now) (as_pending (load_store f)))\<rparr>"
  have "f' = f \<or> (\<exists>r'. save_store wr ?s f = (r', f'))"
    using step by (auto simp: list_pending_approvals_def Let_def split: if_splits prod.splits sum.splits)
  then have "store_ok tr (load_store f')"
    using ok save_keeps [OF _ ok expire_keeps [OF ok]] by blast
  then show ?thesis
    by (rule store_ok_more) simp
qed

text \<open>The branches of an answer.\<close>

lemma resolve_cases:
  assumes "persist_resolved_approval wr x f = (r, f')"
  obtains (kept) "f' = f" "r \<noteq> Inr Resolved"
  | (saved) e q where "e \<in> set (as_pending (load_store f))" "ea_id e = er_id x" "ea_nonce e = er_nonce x" "ea_nonce e \<noteq> []"
      "save_store wr ((load_store f)\<lparr>as_pending := filter (\<lambda>e. ea_id e \<noteq> er_id x) (as_pending (load_store f)),
         as_resolved := as_resolved (load_store f) @ [x\<lparr>er_nonce := []\<rparr>]\<rparr>) f = (q, f')"
      "r = (case q of Inl e \<Rightarrow> Inl e | Inr u \<Rightarrow> Inr Resolved)"
proof (cases "List.find (\<lambda>r. ea_id r = er_id x) (as_pending (load_store f))")
  case None
  then show ?thesis
    using assms kept by (auto simp: persist_resolved_approval_def)
next
  case (Some e)
  have e: "e \<in> set (as_pending (load_store f))" "ea_id e = er_id x"
    using Some by (auto simp: find_Some_iff)
  show ?thesis
  proof (cases "ea_nonce e \<noteq> [] \<and> ea_nonce e = er_nonce x")
    case False
    then show ?thesis
      using assms kept Some by (auto simp: persist_resolved_approval_def Let_def split: if_splits)
  next
    case True
    then show ?thesis
      using assms saved [OF e] Some
      by (auto simp: persist_resolved_approval_def Let_def split: prod.splits sum.splits)
  qed
qed

lemma answer_keeps:
  assumes ok: "store_ok tr (load_store f)" and step: "persist_resolved_approval wr x f = (r, f')"
  shows "store_ok (Answered (er_id x) (er_nonce x) (er_approved x) r # tr) (load_store f')"
    (is "store_ok (?ev # tr) _")
  using step
proof (cases rule: resolve_cases)
  case kept
  then have "resolved_ids (?ev # tr) = resolved_ids tr"
    by (auto simp: resolved_ids_Cons split: sum.splits resolve_outcome.splits)
  then show ?thesis
    using store_ok_more [OF ok] kept by simp
next
  case (saved e q)
  note new = resolve_keeps [OF ok saved(1) saved(4) saved(2) [symmetric] saved(3) [symmetric], of r]
  show ?thesis
  proof (cases q)
    case (Inl err)
    then have "store_ok (?ev # tr) (load_store f)"
      using saved(6) by (intro store_ok_more [OF ok]) simp
    then show ?thesis
      using save_keeps [OF saved(5) _ new] by blast
  next
    case (Inr u)
    then show ?thesis
      using save_store_Ok saved(5) new by fastforce
  qed
qed

text \<open>An answer that settles a request settles one that was waiting.\<close>

lemma resolved_was_pending:
  assumes "store_ok tr (load_store f)" "persist_resolved_approval wr x f = (Inr Resolved, f')"
  shows "er_id x \<notin> set (resolved_ids tr)" "er_id x \<in> requested_ids tr"
  using assms(2) assms(1) store_ok_ids(1) [OF assms(1)]
  by (auto elim!: resolve_cases simp: store_ok_def split: sum.splits)

lemma store_reach_ok:
  assumes "store_reach f tr"
  shows "store_ok tr (load_store f) \<and> distinct (resolved_ids tr) \<and> set (resolved_ids tr) \<subseteq> requested_ids tr"
  using assms
proof (induction rule: store_reach.induct)
  case store_start
  then show ?case by simp
next
  case (store_put f tr x wr r f')
  have "store_ok (Requested (ea_id x) (ea_nonce x) # tr) (load_store f)"
    by (rule store_ok_more) (use store_put in simp_all)
  then have "store_ok (Requested (ea_id x) (ea_nonce x) # tr) (load_store f')"
    using store_put put_keeps save_keeps unfolding persist_pending_approval_def Let_def by blast
  then show ?case
    using store_put by auto
next
  case (store_resolve f tr wr x r f')
  have "store_ok (Answered (er_id x) (er_nonce x) (er_approved x) r # tr) (load_store f')"
    using answer_keeps store_resolve by blast
  then show ?case
    using store_resolve resolved_was_pending
    by (cases "r = Inr Resolved") (auto simp: resolved_ids_Cons split: sum.splits resolve_outcome.splits)
next
  case (store_list f tr wr now r f')
  then show ?case
    using list_keeps by auto
qed

section \<open>Answered once, with the nonce\<close>

text \<open>
  C14. However requests, answers and listings follow one another, and whatever failed writes leave behind: no
  identifier is answered for good twice, the identifiers of the waiting and the settled requests are all different, the
  history keeps no nonce, and an approval stands in it only when somebody answered with the nonce the gateway issued
  for that request.
\<close>
theorem approvals_are_answered_once:
  assumes "store_reach f tr"
  shows "distinct (resolved_ids tr) \<and>
    distinct (map ea_id (as_pending (load_store f)) @ map er_id (as_resolved (load_store f))) \<and>
    (\<forall>r \<in> set (as_resolved (load_store f)). er_nonce r = [] \<and>
      (er_approved r \<longrightarrow> (\<exists>n o'. n \<noteq> [] \<and> Requested (er_id r) n \<in> set tr \<and> Answered (er_id r) n True o' \<in> set tr)))"
  using store_reach_ok [OF assms] unfolding store_ok_def recorded_ok_def by blast

definition sample_entry :: exec_approval_request_entry where
  "sample_entry = \<lparr>ea_id = [7], ea_command = [9], ea_cwd = None, ea_host = None, ea_security = None, ea_ask = None,
     ea_agent_id = None, ea_session_id = None, ea_created_at_ms = 2, ea_expires_at_ms = 5, ea_nonce = [3], ea_kind = None,
     ea_channel_instance_id = None, ea_account_id = None, ea_peer_id = None, ea_logical_session_id = None,
     ea_core_session_id = None, ea_turn_id = None, ea_environment_id = None, ea_available_decisions = [],
     ea_policy_fingerprint = None, ea_questions = None\<rparr>"

definition sample_answer :: exec_approval_resolution where
  "sample_answer = \<lparr>er_id = [7], er_approved = True, er_resolved_by = None, er_reason = None, er_nonce = [3]\<rparr>"

definition settled_store :: approval_records where
  "settled_store = \<lparr>as_pending = [], as_resolved = [sample_answer\<lparr>er_nonce := []\<rparr>]\<rparr>"

lemma settled_reachable:
  "store_reach (StoreFile settled_store) [Answered [7] [3] True (Ok Resolved), Requested [7] [3]]"
proof -
  let ?one = "StoreFile \<lparr>as_pending = [sample_entry], as_resolved = []\<rparr>"
  have "persist_pending_approval (\<lambda>_. None) sample_entry NoFile = (Ok (), ?one)"
    by (simp add: persist_pending_approval_def save_store_def empty_store_def)
  then have one: "store_reach ?one [Requested [7] [3]]"
    using store_put [OF store_start, of sample_entry] by (simp add: requested_ids_def sample_entry_def)
  have "persist_resolved_approval (\<lambda>_. None) sample_answer ?one = (Ok Resolved, StoreFile settled_store)"
    by (simp add: persist_resolved_approval_def save_store_def sample_entry_def sample_answer_def settled_store_def)
  then show ?thesis
    using store_resolve [OF one, of "\<lambda>_. None" sample_answer] by (simp add: sample_answer_def)
qed

theorem approvals_are_answered_once_witness:
  "\<exists>n o'. n \<noteq> [] \<and> Requested [7] n \<in> set [Answered [7] [3] True (Ok Resolved), Requested [7] [3]] \<and>
     Answered [7] n True o' \<in> set [Answered [7] [3] True (Ok Resolved), Requested [7] [3]]"
  using approvals_are_answered_once [OF settled_reachable] by (simp add: settled_store_def sample_answer_def)

text \<open>A request made over the endpoint is never taken for a coordinated one, whatever the caller sent.\<close>

lemma accepted_not_coordinated: "\<not> is_coordinator_owned (accepted_request redact uuid nonce now_ms request)"
  by (simp add: is_coordinator_owned_def accepted_request_def)

text \<open>What a listing returns has not expired.\<close>

lemma listed_are_live:
  assumes "list_pending_approvals wr now_ms f = (Inr rs, f')" "r \<in> set rs"
  shows "ea_expires_at_ms r = 0 \<or> now_ms < ea_expires_at_ms r"
  using assms
  by (auto simp: list_pending_approvals_def is_expired_def Let_def split: if_splits prod.splits sum.splits)

text \<open>A filter does not hold back a request that names no agent.\<close>

lemma filter_passes_unnamed: "passes_filter words None"
  by (simp add: passes_filter_def)

end
