(* ===== verification/Managed_Requirements.thy ===== *)
theory Managed_Requirements
  imports Policy_Manager
begin

text \<open>
  Settings that an administrator constrains: \<^verbatim>\<open>config/src/constraint.rs\<close>, \<^verbatim>\<open>config/src/requirement_source.rs\<close>,
  \<^verbatim>\<open>config_requirements.rs\<close> and \<^verbatim>\<open>requirements_exec_policy.rs\<close> of \<^verbatim>\<open>core/src/config_loader\<close>, and the filter for tool
  servers of \<^verbatim>\<open>core/src/config/mod.rs\<close>.

  A constrained value carries its validator and, for tool servers, a normalizer.  The texts that only serve an
  error message are left out of the errors.
\<close>

section \<open>Constrained values\<close>

datatype requirement_source =
    UnknownSource
  | MdmManagedPreferences rstring rstring
  | CloudRequirements
  | SystemRequirementsToml rstring

datatype req_parse_error =
    EmptyPrefixRules
  | EmptyPattern nat
  | InvalidPatternToken nat nat
  | EmptyJustification nat
  | MissingDecision nat
  | AllowDecisionNotAllowed nat

datatype constraint_error =
    InvalidValue rstring requirement_source
  | EmptyField rstring
  | ExecPolicyParse requirement_source req_parse_error

record 'a constrained =
  cn_value :: 'a
  cn_validator :: "'a \<Rightarrow> (constraint_error, unit) result"
  cn_normalizer :: "('a \<Rightarrow> 'a) option"

definition constrained_new ::
    "'a \<Rightarrow> ('a \<Rightarrow> (constraint_error, unit) result) \<Rightarrow> (constraint_error, 'a constrained) result" where
  "constrained_new initial validator =
     and_then (validator initial) (\<lambda>_. Ok \<lparr>cn_value = initial, cn_validator = validator, cn_normalizer = None\<rparr>)"

definition constrained_normalized :: "'a \<Rightarrow> ('a \<Rightarrow> 'a) \<Rightarrow> (constraint_error, 'a constrained) result" where
  "constrained_normalized initial normalizer =
     Ok \<lparr>cn_value = normalizer initial, cn_validator = (\<lambda>_. Ok ()), cn_normalizer = Some normalizer\<rparr>"

definition allow_any :: "'a \<Rightarrow> 'a constrained" where
  "allow_any initial = \<lparr>cn_value = initial, cn_validator = (\<lambda>_. Ok ()), cn_normalizer = None\<rparr>"

definition can_set :: "'a constrained \<Rightarrow> 'a \<Rightarrow> (constraint_error, unit) result" where
  "can_set c candidate = cn_validator c candidate"

definition cset :: "'a \<Rightarrow> 'a constrained \<Rightarrow> (constraint_error, unit) result \<times> 'a constrained" where
  "cset v c =
     (let v = (case cn_normalizer c of Some f \<Rightarrow> f v | None \<Rightarrow> v) in
      case cn_validator c v of Inl e \<Rightarrow> (Err e, c) | Inr _ \<Rightarrow> (Ok (), c\<lparr>cn_value := v\<rparr>))"

section \<open>Rules in the requirements\<close>

record pattern_token_toml =
  pt_token :: "rstring option"
  pt_any_of :: "rstring list option"

record prefix_rule_toml =
  pr_pattern :: "pattern_token_toml list"
  pr_decision :: "decision option"
  pr_justification :: "rstring option"

definition parse_pattern_token_toml :: "pattern_token_toml \<Rightarrow> nat \<Rightarrow> nat \<Rightarrow> (req_parse_error, pattern_token) result" where
  "parse_pattern_token_toml token rule_index token_index =
     (case (pt_token token, pt_any_of token) of
        (Some single, None) \<Rightarrow>
          if trim single = [] then Err (InvalidPatternToken rule_index token_index) else Ok (Single single)
      | (None, Some alts) \<Rightarrow>
          if alts = [] \<or> list_ex (\<lambda>alt. trim alt = []) alts then Err (InvalidPatternToken rule_index token_index)
          else Ok (Alts alts)
      | _ \<Rightarrow> Err (InvalidPatternToken rule_index token_index))"

definition rule_of_toml :: "nat \<Rightarrow> prefix_rule_toml \<Rightarrow> (req_parse_error, prefix_rule list) result" where
  "rule_of_toml rule_index rule =
     (if (case pr_justification rule of Some j \<Rightarrow> trim j = [] | None \<Rightarrow> False) then Err (EmptyJustification rule_index)
      else if pr_pattern rule = [] then Err (EmptyPattern rule_index)
      else and_then
        (collect_results (\<lambda>(i, t). parse_pattern_token_toml t rule_index i) (enumerate 0 (pr_pattern rule))) (\<lambda>tokens.
        case pr_decision rule of
          None \<Rightarrow> Err (MissingDecision rule_index)
        | Some Allow \<Rightarrow> Err (AllowDecisionNotAllowed rule_index)
        | Some d \<Rightarrow>
            (case tokens of
               [] \<Rightarrow> Err (EmptyPattern rule_index)
             | tok # remaining \<Rightarrow>
                 Ok (map (\<lambda>head. \<lparr>pattern = \<lparr>first = head, rest = remaining\<rparr>, rule_decision = d,
                                  justification = pr_justification rule\<rparr>) (alternatives tok)))))"

fun insert_rules :: "nat \<Rightarrow> prefix_rule_toml list \<Rightarrow> rule_map \<Rightarrow> (req_parse_error, rule_map) result" where
  "insert_rules i [] m = Ok m"
| "insert_rules i (rule # rules) m =
     and_then (rule_of_toml i rule) (\<lambda>rs.
       insert_rules (Suc i) rules (fold (\<lambda>r. mm_insert (first (pattern r)) r) rs m))"

definition to_policy :: "prefix_rule_toml list \<Rightarrow> (req_parse_error, policy) result" where
  "to_policy prefix_rules =
     (if prefix_rules = [] then Err EmptyPrefixRules
      else and_then (insert_rules 0 prefix_rules []) (\<lambda>m. Ok \<lparr>rules_by_program = m\<rparr>))"

section \<open>Requirements\<close>

datatype mcp_server_identity = McpCommand rstring | McpUrl rstring

datatype sandbox_mode_requirement = ReqReadOnly | ReqWorkspaceWrite | ReqDangerFullAccess | ReqExternalSandbox

datatype residency_requirement = ResidencyUs

record config_requirements_toml =
  rt_allowed_approval_policies :: "ask_for_approval list option"
  rt_allowed_sandbox_modes :: "sandbox_mode_requirement list option"
  rt_mcp_servers :: "(rstring \<times> mcp_server_identity) list option"
  rt_rules :: "prefix_rule_toml list option"
  rt_enforce_residency :: "residency_requirement option"

type_synonym 'a sourced = "'a \<times> requirement_source"

record requirements_with_sources =
  rw_allowed_approval_policies :: "ask_for_approval list sourced option"
  rw_allowed_sandbox_modes :: "sandbox_mode_requirement list sourced option"
  rw_mcp_servers :: "(rstring \<times> mcp_server_identity) list sourced option"
  rw_rules :: "prefix_rule_toml list sourced option"
  rw_enforce_residency :: "residency_requirement sourced option"

definition no_requirements :: requirements_with_sources where
  "no_requirements = \<lparr>rw_allowed_approval_policies = None, rw_allowed_sandbox_modes = None, rw_mcp_servers = None,
     rw_rules = None, rw_enforce_residency = None\<rparr>"

definition fill_missing :: "requirement_source \<Rightarrow> 'a sourced option \<Rightarrow> 'a option \<Rightarrow> 'a sourced option" where
  "fill_missing src base other =
     (case base of Some b \<Rightarrow> Some b | None \<Rightarrow> (case other of Some v \<Rightarrow> Some (v, src) | None \<Rightarrow> None))"

definition merge_unset_fields ::
    "requirement_source \<Rightarrow> config_requirements_toml \<Rightarrow> requirements_with_sources \<Rightarrow> requirements_with_sources" where
  "merge_unset_fields src other base =
     \<lparr>rw_allowed_approval_policies = fill_missing src (rw_allowed_approval_policies base) (rt_allowed_approval_policies other),
      rw_allowed_sandbox_modes = fill_missing src (rw_allowed_sandbox_modes base) (rt_allowed_sandbox_modes other),
      rw_mcp_servers = fill_missing src (rw_mcp_servers base) (rt_mcp_servers other),
      rw_rules = fill_missing src (rw_rules base) (rt_rules other),
      rw_enforce_residency = fill_missing src (rw_enforce_residency base) (rt_enforce_residency other)\<rparr>"

definition into_toml :: "requirements_with_sources \<Rightarrow> config_requirements_toml" where
  "into_toml rw =
     \<lparr>rt_allowed_approval_policies = map_option fst (rw_allowed_approval_policies rw),
      rt_allowed_sandbox_modes = map_option fst (rw_allowed_sandbox_modes rw),
      rt_mcp_servers = map_option fst (rw_mcp_servers rw), rt_rules = map_option fst (rw_rules rw),
      rt_enforce_residency = map_option fst (rw_enforce_residency rw)\<rparr>"

definition requirements_is_empty :: "config_requirements_toml \<Rightarrow> bool" where
  "requirements_is_empty r \<longleftrightarrow>
     rt_allowed_approval_policies r = None \<and> rt_allowed_sandbox_modes r = None \<and> rt_mcp_servers r = None \<and>
     rt_rules r = None \<and> rt_enforce_residency r = None"

record config_requirements =
  cr_approval_policy :: "ask_for_approval constrained"
  cr_sandbox_policy :: "sandbox_policy constrained"
  cr_mcp_servers :: "(rstring \<times> mcp_server_identity) list sourced option"
  cr_exec_policy :: "policy sourced option"
  cr_enforce_residency :: "residency_requirement option constrained"

fun mode_of_policy :: "sandbox_policy \<Rightarrow> sandbox_mode_requirement" where
  "mode_of_policy ReadOnly = ReqReadOnly"
| "mode_of_policy (WorkspaceWrite _ _ _ _) = ReqWorkspaceWrite"
| "mode_of_policy DangerFullAccess = ReqDangerFullAccess"
| "mode_of_policy (ExternalSandbox _) = ReqExternalSandbox"

definition member_validator ::
    "rstring \<Rightarrow> ('a \<Rightarrow> 'b) \<Rightarrow> 'b list \<Rightarrow> requirement_source \<Rightarrow> 'a \<Rightarrow> (constraint_error, unit) result" where
  "member_validator field key allowed src candidate =
     (if key candidate \<in> set allowed then Ok () else Err (InvalidValue field src))"

definition approval_requirement ::
    "ask_for_approval list sourced option \<Rightarrow> (constraint_error, ask_for_approval constrained) result" where
  "approval_requirement req =
     (case req of
        None \<Rightarrow> Ok (allow_any OnRequest)
      | Some (policies, src) \<Rightarrow>
          (case policies of
             [] \<Rightarrow> Err (EmptyField (lit ''allowed_approval_policies''))
           | initial # _ \<Rightarrow> constrained_new initial (member_validator (lit ''approval_policy'') id policies src)))"

definition sandbox_requirement ::
    "sandbox_mode_requirement list sourced option \<Rightarrow> (constraint_error, sandbox_policy constrained) result" where
  "sandbox_requirement req =
     (case req of
        None \<Rightarrow> Ok (allow_any ReadOnly)
      | Some (modes, src) \<Rightarrow>
          if ReqReadOnly \<notin> set modes then Err (InvalidValue (lit ''allowed_sandbox_modes'') src)
          else constrained_new ReadOnly (member_validator (lit ''sandbox_mode'') mode_of_policy modes src))"

definition exec_policy_requirement ::
    "prefix_rule_toml list sourced option \<Rightarrow> (constraint_error, policy sourced option) result" where
  "exec_policy_requirement req =
     (case req of
        None \<Rightarrow> Ok None
      | Some (rules, src) \<Rightarrow>
          (case to_policy rules of Inl e \<Rightarrow> Err (ExecPolicyParse src e) | Inr p \<Rightarrow> Ok (Some (p, src))))"

definition residency_constraint ::
    "residency_requirement sourced option \<Rightarrow> (constraint_error, residency_requirement option constrained) result" where
  "residency_constraint req =
     (case req of
        None \<Rightarrow> Ok (allow_any None)
      | Some (residency, src) \<Rightarrow>
          constrained_new (Some residency) (member_validator (lit ''enforce_residency'') id [Some residency] src))"

definition requirements_try_from :: "requirements_with_sources \<Rightarrow> (constraint_error, config_requirements) result" where
  "requirements_try_from rw =
     and_then (approval_requirement (rw_allowed_approval_policies rw)) (\<lambda>approval.
     and_then (sandbox_requirement (rw_allowed_sandbox_modes rw)) (\<lambda>sandbox.
     and_then (exec_policy_requirement (rw_rules rw)) (\<lambda>exec.
     and_then (residency_constraint (rw_enforce_residency rw)) (\<lambda>residency.
       Ok \<lparr>cr_approval_policy = approval, cr_sandbox_policy = sandbox, cr_mcp_servers = rw_mcp_servers rw,
           cr_exec_policy = exec, cr_enforce_residency = residency\<rparr>))))"

section \<open>Tool servers\<close>

datatype mcp_transport =
    StdioServer (server_command: rstring) (server_args: "rstring list") (server_env: "(rstring \<times> rstring) list option")
      (server_env_vars: "rstring list") (server_cwd: "rstring option")
  | HttpServer (server_url: rstring) (bearer_token_env_var: "rstring option")
      (http_headers: "(rstring \<times> rstring) list option") (env_http_headers: "(rstring \<times> rstring) list option")

record mcp_server_config =
  mcp_transport :: mcp_transport
  mcp_enabled :: bool
  mcp_disabled_reason :: "requirement_source option"
  mcp_startup_timeout :: "nat option"
  mcp_tool_timeout :: "nat option"
  mcp_enabled_tools :: "rstring list option"
  mcp_disabled_tools :: "rstring list option"
  mcp_scopes :: "rstring list option"

fun mcp_server_matches_requirement :: "mcp_server_identity \<Rightarrow> mcp_transport \<Rightarrow> bool" where
  "mcp_server_matches_requirement (McpCommand want) (StdioServer got _ _ _ _) = (got = want)"
| "mcp_server_matches_requirement (McpUrl want) (HttpServer got _ _ _) = (got = want)"
| "mcp_server_matches_requirement _ _ = False"

definition filter_mcp_servers_by_requirements ::
    "(rstring \<times> mcp_server_identity) list sourced option \<Rightarrow> (rstring \<times> mcp_server_config) list \<Rightarrow>
     (rstring \<times> mcp_server_config) list" where
  "filter_mcp_servers_by_requirements req servers =
     (case req of
        None \<Rightarrow> servers
      | Some (allowlist, src) \<Rightarrow>
          map (\<lambda>(name, server).
            (name,
             if (case map_of allowlist name of
                   Some r \<Rightarrow> mcp_server_matches_requirement r (mcp_transport server) | None \<Rightarrow> False)
             then server\<lparr>mcp_disabled_reason := None\<rparr>
             else server\<lparr>mcp_enabled := False, mcp_disabled_reason := Some src\<rparr>)) servers)"

definition constrain_mcp_servers ::
    "(rstring \<times> mcp_server_config) list \<Rightarrow> (rstring \<times> mcp_server_identity) list sourced option \<Rightarrow>
     (constraint_error, (rstring \<times> mcp_server_config) list constrained) result" where
  "constrain_mcp_servers servers req =
     (case req of
        None \<Rightarrow> Ok (allow_any servers)
      | Some _ \<Rightarrow> constrained_normalized servers (filter_mcp_servers_by_requirements req))"

section \<open>Settings under a rule\<close>

text \<open>
  A setting that carries a rule: a refused value changes nothing, an accepted one obeys the rule, and the rule
  itself never changes.
\<close>

locale managed_setting =
  fixes get_value :: "'c \<Rightarrow> 'v"
    and set_value :: "'v \<Rightarrow> 'c \<Rightarrow> ('e, unit) result \<times> 'c"
    and permits :: "'c \<Rightarrow> 'v \<Rightarrow> bool"
  assumes rule_kept: "permits (snd (set_value v c)) = permits c"
    and obeys: "permits c (get_value c) \<Longrightarrow> permits c (get_value (snd (set_value v c)))"
begin

lemma settings_obey:
  assumes "permits c (get_value c)"
  shows "permits (fold (\<lambda>v c. snd (set_value v c)) vs c) = permits c \<and>
         permits c (get_value (fold (\<lambda>v c. snd (set_value v c)) vs c))"
  using assms
proof (induction vs arbitrary: c)
  case (Cons v vs)
  then show ?case
    using Cons.IH [of "snd (set_value v c)"] by (simp add: rule_kept obeys)
qed simp

end

definition within_rule :: "'a constrained \<Rightarrow> 'a \<Rightarrow> bool" where
  "within_rule c v \<longleftrightarrow> cn_validator c v = Ok () \<and> (case cn_normalizer c of None \<Rightarrow> True | Some f \<Rightarrow> v \<in> range f)"

abbreviation set_all :: "'a list \<Rightarrow> 'a constrained \<Rightarrow> 'a constrained" where
  "set_all vs c \<equiv> fold (\<lambda>v c. snd (cset v c)) vs c"

interpretation constrained: managed_setting cn_value cset within_rule
  by unfold_locales (auto simp: cset_def within_rule_def Let_def fun_eq_iff split: sum.splits option.splits)

lemma cset_rule [simp]:
  "cn_validator (set_all vs c) = cn_validator c" "cn_normalizer (set_all vs c) = cn_normalizer c"
proof -
  have step: "cn_validator (snd (cset v c)) = cn_validator c \<and> cn_normalizer (snd (cset v c)) = cn_normalizer c" for v c
    by (auto simp: cset_def Let_def split: sum.splits)
  show "cn_validator (set_all vs c) = cn_validator c" "cn_normalizer (set_all vs c) = cn_normalizer c"
    by (induction vs arbitrary: c) (simp_all add: step)
qed

lemma constrained_new_within: "constrained_new v f = Inr c \<Longrightarrow> within_rule c (cn_value c) \<and> cn_validator c = f"
  by (auto simp: constrained_new_def and_then_eq_Inr within_rule_def)

lemma allow_any_within: "within_rule (allow_any v) u"
  by (simp add: allow_any_def within_rule_def)

lemma member_validator_Ok: "member_validator field key allowed src v = Inr u \<longleftrightarrow> key v \<in> set allowed"
  by (simp add: member_validator_def)

lemma constrained_member:
  assumes "constrained_new v (member_validator field key allowed src) = Inr c"
  shows "key (cn_value (set_all vs c)) \<in> set allowed"
  using constrained.settings_obey [of c vs] constrained_new_within [OF assms]
  by (auto simp: within_rule_def member_validator_Ok)

lemma filtered_servers:
  assumes "(name, server) \<in> set (filter_mcp_servers_by_requirements (Some (allow, src)) servers)" "mcp_enabled server"
  shows "\<exists>r. map_of allow name = Some r \<and> mcp_server_matches_requirement r (mcp_transport server)"
  using assms by (auto simp: filter_mcp_servers_by_requirements_def split: if_splits option.splits)

lemma constrained_servers:
  assumes "constrain_mcp_servers servers (Some (allow, src)) = Inr c" "(name, server) \<in> set (cn_value (set_all vs c))"
    "mcp_enabled server"
  shows "\<exists>r. map_of allow name = Some r \<and> mcp_server_matches_requirement r (mcp_transport server)"
proof -
  have "within_rule c (cn_value c)" "cn_normalizer c = Some (filter_mcp_servers_by_requirements (Some (allow, src)))"
    using assms(1) by (auto simp: constrain_mcp_servers_def constrained_normalized_def within_rule_def)
  then have "cn_value (set_all vs c) \<in> range (filter_mcp_servers_by_requirements (Some (allow, src)))"
    using constrained.settings_obey [of c vs] by (simp add: within_rule_def)
  then show ?thesis
    using assms(2,3) filtered_servers by fastforce
qed

lemma rule_of_toml_strict: "rule_of_toml i rule = Inr rs \<Longrightarrow> r \<in> set rs \<Longrightarrow> rule_decision r \<noteq> Allow"
  by (auto simp: rule_of_toml_def and_then_eq_Inr split: if_splits option.splits decision.splits list.splits)

lemma insert_by_head:
  "policy_rules (policy_of (fold (\<lambda>r. mm_insert (first (pattern r)) r) rs m)) = set rs \<union> policy_rules (policy_of m)"
  "policy_wf (policy_of m) \<Longrightarrow> policy_wf (policy_of (fold (\<lambda>r. mm_insert (first (pattern r)) r) rs m))"
  by (induction rs arbitrary: m) (auto simp: insert_one_rules insert_one_wf rule_program_def)

lemma insert_rules_strict:
  assumes "insert_rules i rules m = Inr out" "policy_wf (policy_of m)" "\<forall>r \<in> policy_rules (policy_of m). rule_decision r \<noteq> Allow"
  shows "policy_wf (policy_of out) \<and> (\<forall>r \<in> policy_rules (policy_of out). rule_decision r \<noteq> Allow)"
  using assms
proof (induction i rules m rule: insert_rules.induct)
  case (2 i rule rules m)
  then obtain rs where rs: "rule_of_toml i rule = Inr rs"
    "insert_rules (Suc i) rules (fold (\<lambda>r. mm_insert (first (pattern r)) r) rs m) = Inr out"
    by (auto simp: and_then_eq_Inr)
  show ?case
    by (rule "2.IH" [OF rs(2)]) (use rule_of_toml_strict [OF rs(1)] "2.prems"(2,3) in \<open>auto simp: insert_by_head\<close>)
qed simp

lemma to_policy_strict:
  assumes "to_policy rules = Inr p"
  shows "policy_wf p \<and> (\<forall>r \<in> policy_rules p. rule_decision r \<noteq> Allow)"
proof -
  from assms obtain m where "insert_rules 0 rules [] = Inr m" "p = policy_of m"
    by (auto simp: to_policy_def and_then_eq_Inr split: if_splits)
  then show ?thesis
    using insert_rules_strict [of 0 rules "[]" m] by (auto simp: policy_wf_def policy_rules_def)
qed

text \<open>The field of the first source that sets it is kept.\<close>

lemma first_source_wins:
  "rw_allowed_sandbox_modes (fold (\<lambda>(src, other) base. merge_unset_fields src other base) sources base) =
     (case rw_allowed_sandbox_modes base of
        Some b \<Rightarrow> Some b
      | None \<Rightarrow> find_map (\<lambda>(src, other). map_option (\<lambda>v. (v, src)) (rt_allowed_sandbox_modes other)) sources)"
  by (induction sources arbitrary: base)
    (auto simp: merge_unset_fields_def fill_missing_def split: option.splits)

lemma cset_accepts: "cn_validator c v = Inr () \<Longrightarrow> cn_normalizer c = None \<Longrightarrow> fst (cset v c) = Inr ()"
  by (simp add: cset_def)

lemma sandbox_read_only:
  assumes "sandbox_requirement rw = Inr c"
  shows "cn_validator c ReadOnly = Ok ()" "cn_normalizer c = None"
  using assms
  by (auto simp: sandbox_requirement_def allow_any_def constrained_new_def and_then_eq_Inr split: option.splits if_splits)

text \<open>
  C18.  Requirements that were accepted bind every later change of a setting.  Whatever values are set, and
  whether or not they are refused: the approval policy is one of those allowed, the sandbox policy has an
  allowed mode, and read-only is always accepted; a tool server that is enabled is on the list under its
  name with the listed command or address; and the rules of the requirements only prompt or forbid.
\<close>

theorem requirements_bind_settings:
  assumes "requirements_try_from rw = Ok req"
  shows "(\<forall>policies src. rw_allowed_approval_policies rw = Some (policies, src) \<longrightarrow>
        cn_value (set_all as (cr_approval_policy req)) \<in> set policies) \<and>
    (\<forall>modes src. rw_allowed_sandbox_modes rw = Some (modes, src) \<longrightarrow>
        mode_of_policy (cn_value (set_all ss (cr_sandbox_policy req))) \<in> set modes) \<and>
    fst (cset ReadOnly (set_all ss (cr_sandbox_policy req))) = Ok () \<and>
    (\<forall>allow src c name server. cr_mcp_servers req = Some (allow, src) \<longrightarrow>
        constrain_mcp_servers servers (cr_mcp_servers req) = Ok c \<longrightarrow>
        (name, server) \<in> set (cn_value (set_all ms c)) \<longrightarrow> mcp_enabled server \<longrightarrow>
        (\<exists>r. map_of allow name = Some r \<and> mcp_server_matches_requirement r (mcp_transport server))) \<and>
    (\<forall>p src. cr_exec_policy req = Some (p, src) \<longrightarrow>
        policy_wf p \<and> (\<forall>r \<in> policy_rules p. rule_decision r \<noteq> Allow))"
proof -
  from assms have parts: "approval_requirement (rw_allowed_approval_policies rw) = Ok (cr_approval_policy req)"
    "sandbox_requirement (rw_allowed_sandbox_modes rw) = Ok (cr_sandbox_policy req)"
    "exec_policy_requirement (rw_rules rw) = Ok (cr_exec_policy req)"
    by (auto simp: requirements_try_from_def and_then_eq_Inr)
  have approval: "cn_value (set_all as (cr_approval_policy req)) \<in> set policies"
    if "rw_allowed_approval_policies rw = Some (policies, src)" for policies src
    using parts(1) that constrained_member [where key = id, of _ "lit ''approval_policy''" policies src]
    by (auto simp: approval_requirement_def split: list.splits)
  have sandbox: "mode_of_policy (cn_value (set_all ss (cr_sandbox_policy req))) \<in> set modes"
    if "rw_allowed_sandbox_modes rw = Some (modes, src)" for modes src
    using parts(2) that constrained_member by (fastforce simp: sandbox_requirement_def split: if_splits)
  have read_only: "fst (cset ReadOnly (set_all ss (cr_sandbox_policy req))) = Ok ()"
    using cset_accepts [of "set_all ss (cr_sandbox_policy req)" ReadOnly] sandbox_read_only [OF parts(2)] by simp
  have rules: "policy_wf p \<and> (\<forall>r \<in> policy_rules p. rule_decision r \<noteq> Allow)"
    if "cr_exec_policy req = Some (p, src)" for p src
    using parts(3) that to_policy_strict by (auto simp: exec_policy_requirement_def split: option.splits sum.splits)
  show ?thesis
    using approval sandbox read_only rules constrained_servers by fastforce
qed

definition office_requirements :: requirements_with_sources where
  "office_requirements =
     merge_unset_fields CloudRequirements
       \<lparr>rt_allowed_approval_policies = Some [OnRequest, Never], rt_allowed_sandbox_modes = Some [ReqReadOnly],
        rt_mcp_servers = Some [(lit ''docs'', McpUrl (lit ''u''))], rt_rules = None, rt_enforce_residency = None\<rparr>
       no_requirements"

theorem requirements_bind_settings_witness:
  "\<exists>req. requirements_try_from office_requirements = Ok req \<and>
     mode_of_policy (cn_value (snd (cset DangerFullAccess (cr_sandbox_policy req)))) = ReqReadOnly"
proof -
  have req: "\<exists>req. requirements_try_from office_requirements = Ok req"
    by (simp add: requirements_try_from_def office_requirements_def merge_unset_fields_def fill_missing_def
        no_requirements_def approval_requirement_def sandbox_requirement_def constrained_new_def member_validator_def
        exec_policy_requirement_def residency_constraint_def)
  have modes: "rw_allowed_sandbox_modes office_requirements = Some ([ReqReadOnly], CloudRequirements)"
    by (simp add: office_requirements_def merge_unset_fields_def fill_missing_def no_requirements_def)
  from req obtain r where "requirements_try_from office_requirements = Ok r" ..
  with requirements_bind_settings [OF this, of "[]" "[DangerFullAccess]" "[]" "[]"] modes show ?thesis
    by auto
qed

end
