(* ===== verification/Execution_Security.thy ===== *)
theory Execution_Security
  imports Managed_Requirements Tool_Orchestrator
begin

text \<open>
  \<^verbatim>\<open>gateway-server/src/security/execution_policy.rs\<close> with \<^verbatim>\<open>path_safety.rs\<close>: how a request that reaches the gateway
  is bounded before a session is started, resumed or forked.  The agent's file gives a permission policy
  (sandbox, network, tools) and an execution policy (what happens at the boundary); the entry point says
  whether it can carry an approval.

  Files are read through parameters, as is the reading of JSON into the policy types.  The digest of the
  effective policy is a parameter.
\<close>

section \<open>File names\<close>

definition MAX_SEGMENT_LEN :: nat where
  "MAX_SEGMENT_LEN = 200"

text \<open>\<^verbatim>\<open>char::is_control\<close>: the Unicode category \<open>Cc\<close>.\<close>

definition is_control :: "rchar \<Rightarrow> bool" where
  "is_control c \<longleftrightarrow> c < 32 \<or> 127 \<le> c \<and> c \<le> 159"

definition bad_segment_char :: "rchar \<Rightarrow> bool" where
  "bad_segment_char c \<longleftrightarrow>
     c \<in> {47, 92, 58, 0, 60, 62, 42, 63, 34, 124} \<or> is_control c"

definition safe_filename_segment :: "rstring \<Rightarrow> rstring option" where
  "safe_filename_segment segment =
     (let trimmed = trim segment in
      if trimmed = [] then None
      else if trimmed = lit ''.'' \<or> trimmed = lit ''..'' then None
      else if byte_len trimmed > MAX_SEGMENT_LEN then None
      else if starts_with (lit ''.'') trimmed \<or> ends_with (lit ''.'') trimmed then None
      else if list_ex bad_segment_char trimmed then None
      else Some trimmed)"

definition safe_join :: "rstring \<Rightarrow> rstring \<Rightarrow> rstring \<Rightarrow> rstring option" where
  "safe_join base segment sfx =
     (case safe_filename_segment segment of
        None \<Rightarrow> None
      | Some safe \<Rightarrow> Some (path_join base (safe @ sfx)))"

definition sanitize_char :: "rchar \<Rightarrow> rchar" where
  "sanitize_char c = (if c \<in> {47, 92, 58, 42, 63, 34, 60, 62, 124} then 45 else if is_control c then 45 else c)"

definition sanitized_agent_file_stem :: "rstring \<Rightarrow> rstring option" where
  "sanitized_agent_file_stem raw =
     (let trimmed = trim raw in
      if trimmed = [] then None
      else
        (let out = trim_matches (\<lambda>c. c = 32 \<or> c = 46) (map sanitize_char trimmed)
         in if out = [] \<or> out = lit ''.'' \<or> out = lit ''..'' then None else Some out))"

section \<open>Policies\<close>

datatype execution_mode = Interactive | Unattended | AutoReview

record approval_client_capabilities =
  supports_interactive_approvals :: bool
  supports_request_ids :: bool
  supports_session_grants :: bool
  supports_persisted_rules :: bool

definition caps_of :: "bool \<Rightarrow> approval_client_capabilities" where
  "caps_of b = \<lparr>supports_interactive_approvals = b, supports_request_ids = b, supports_session_grants = b,
     supports_persisted_rules = b\<rparr>"

definition interactive_platforms :: "rstring list" where
  "interactive_platforms =
     [lit ''arkret'', lit ''dingtalk'', lit ''discord'', lit ''feishu'', lit ''googlechat'', lit ''irc'', lit ''lark'',
      lit ''line'', lit ''matrix'', lit ''mattermost'', lit ''msteams'', lit ''qq'', lit ''signal'', lit ''slack'',
      lit ''telegram'', lit ''wechat'', lit ''whatsapp'', lit ''zalo'']"

definition for_channel :: "rstring \<Rightarrow> approval_client_capabilities" where
  "for_channel platform = caps_of (to_ascii_lowercase (trim platform) \<in> set interactive_platforms)"

definition for_channel_message :: "rstring \<Rightarrow> rstring option \<Rightarrow> approval_client_capabilities" where
  "for_channel_message platform peer_id =
     (if (case peer_id of Some p \<Rightarrow> trim p \<noteq> [] | None \<Rightarrow> False) then for_channel platform else caps_of False)"

definition can_interact :: "approval_client_capabilities \<Rightarrow> bool" where
  "can_interact caps \<longleftrightarrow> supports_interactive_approvals caps \<and> supports_request_ids caps"

datatype agent_sandbox_mode = AgentReadOnly | AgentWorkspaceWrite | AgentDangerFullAccess | AgentSandboxOther rstring

datatype agent_approval_mode =
    AgentUntrusted | AgentOnFailure | AgentOnRequest | AgentGranular | AgentNever | AgentApprovalOther rstring

datatype agent_execution_mode = AgentInteractive | AgentUnattended | AgentAutoReview | AgentExecutionOther rstring

record tool_access_policy =
  ta_allowed :: "rstring list"
  ta_denied :: "rstring list"
  ta_approval_overrides :: "(rstring \<times> bool) list"

record agent_network_policy =
  an_enabled :: bool
  an_allowed_domains :: "rstring list"
  an_denied_domains :: "rstring list"

record agent_permission_policy =
  ap_preset_id :: "rstring option"
  ap_profile :: "rstring option"
  ap_sandbox :: "agent_sandbox_mode option"
  ap_approval :: "agent_approval_mode option"
  ap_granular :: "granular_approval_config option"
  ap_network :: "agent_network_policy option"
  ap_tool_access :: "tool_access_policy option"

text \<open>The part of the session configuration that is resolved here.\<close>

record gateway_config =
  gc_sandbox_policy :: "sandbox_policy constrained"
  gc_approval_policy :: "ask_for_approval constrained"
  gc_tool_access_policy :: "tool_access_policy option"
  gc_windows_sandbox :: bool
  gc_windows_elevated :: bool

definition set_sandbox :: "sandbox_policy \<Rightarrow> gateway_config \<Rightarrow> gateway_config" where
  "set_sandbox p config = config\<lparr>gc_sandbox_policy := snd (cset p (gc_sandbox_policy config))\<rparr>"

definition requested_execution_mode ::
    "agent_execution_mode option \<Rightarrow> agent_permission_policy option \<Rightarrow> approval_client_capabilities \<Rightarrow> execution_mode" where
  "requested_execution_mode execution permission caps =
     (case execution of
        Some AgentInteractive \<Rightarrow> Interactive
      | Some AgentUnattended \<Rightarrow> Unattended
      | Some AgentAutoReview \<Rightarrow> AutoReview
      | Some (AgentExecutionOther _) \<Rightarrow> Unattended
      | None \<Rightarrow>
          (case Option.bind permission ap_approval of
             Some AgentNever \<Rightarrow> Unattended
           | Some (AgentApprovalOther _) \<Rightarrow> Unattended
           | _ \<Rightarrow> if can_interact caps then Interactive else Unattended))"

definition effective_execution_mode ::
    "execution_mode \<Rightarrow> approval_client_capabilities \<Rightarrow> execution_mode \<times> rstring option" where
  "effective_execution_mode requested caps =
     (case requested of
        Interactive \<Rightarrow>
          if \<not> can_interact caps
          then (Unattended, Some (lit ''entry point cannot correlate interactive approval responses''))
          else (Interactive, None)
      | AutoReview \<Rightarrow> (Unattended, Some (lit ''automatic approval reviewer is not configured''))
      | Unattended \<Rightarrow> (Unattended, None))"

definition new_workspace_write_policy :: sandbox_policy where
  "new_workspace_write_policy = WorkspaceWrite [] False False False"

definition profile_sandbox :: "rstring \<Rightarrow> sandbox_policy \<times> rstring option" where
  "profile_sandbox profile =
     (if profile = lit '':read-only'' then (ReadOnly, None)
      else if profile = lit '':workspace'' then (new_workspace_write_policy, None)
      else if profile = lit '':danger-full-access'' then (DangerFullAccess, None)
      else (ReadOnly, Some (lit ''unknown permission profile '' @ [39] @ profile @ [39] @ lit ''; using read-only'')))"

fun legacy_sandbox :: "agent_sandbox_mode \<Rightarrow> sandbox_policy" where
  "legacy_sandbox AgentReadOnly = ReadOnly"
| "legacy_sandbox AgentWorkspaceWrite = new_workspace_write_policy"
| "legacy_sandbox AgentDangerFullAccess = DangerFullAccess"
| "legacy_sandbox (AgentSandboxOther _) = ReadOnly"

definition add_reason :: "rstring option \<Rightarrow> rstring \<Rightarrow> rstring option" where
  "add_reason existing reason = (case existing of Some e \<Rightarrow> Some (e @ lit ''; '' @ reason) | None \<Rightarrow> Some reason)"

definition apply_network :: "agent_network_policy \<Rightarrow> rstring option \<Rightarrow> gateway_config \<Rightarrow> gateway_config \<times> rstring option" where
  "apply_network network reason config =
     (case cn_value (gc_sandbox_policy config) of
        WorkspaceWrite roots _ tmpdir slash_tmp \<Rightarrow>
          (let scoped = an_allowed_domains network \<noteq> [] \<or> an_denied_domains network \<noteq> [] in
           (set_sandbox (WorkspaceWrite roots (an_enabled network \<and> \<not> scoped) tmpdir slash_tmp) config,
            if an_enabled network \<and> scoped
            then add_reason reason
              (lit ''domain-scoped network permission requires managed proxy enforcement and remains restricted'')
            else reason))
      | _ \<Rightarrow>
          (config,
           if an_enabled network
           then add_reason reason (lit ''network permission is unavailable for this sandbox profile'')
           else reason))"

definition apply_sandbox_choice ::
    "agent_permission_policy \<Rightarrow> gateway_config \<Rightarrow> gateway_config \<times> rstring option" where
  "apply_sandbox_choice policy config =
     (case ap_profile policy of
        Some profile \<Rightarrow> (set_sandbox (fst (profile_sandbox profile)) config, snd (profile_sandbox profile))
      | None \<Rightarrow>
          (case ap_sandbox policy of
             Some mode \<Rightarrow> (set_sandbox (legacy_sandbox mode) config, None)
           | None \<Rightarrow> (config, None)))"

definition apply_tool_access :: "agent_permission_policy \<Rightarrow> gateway_config \<Rightarrow> gateway_config" where
  "apply_tool_access policy config =
     (case ap_tool_access policy of
        Some access \<Rightarrow> config\<lparr>gc_tool_access_policy := Some access\<rparr>
      | None \<Rightarrow> config)"

definition apply_permission_policy ::
    "agent_permission_policy \<Rightarrow> gateway_config \<Rightarrow> gateway_config \<times> rstring option" where
  "apply_permission_policy policy config =
     (let (config, reason) = apply_sandbox_choice policy config;
          config = apply_tool_access policy config
      in case ap_network policy of
           Some network \<Rightarrow> apply_network network reason config
         | None \<Rightarrow> (config, reason))"

definition apply_execution_mode ::
    "execution_mode \<Rightarrow> agent_permission_policy option \<Rightarrow> gateway_config \<Rightarrow> gateway_config" where
  "apply_execution_mode mode policy config =
     (let approval =
            (case mode of
               Interactive \<Rightarrow>
                 (case policy of
                    Some p \<Rightarrow>
                      (case (ap_approval p, ap_granular p) of
                         (Some AgentGranular, Some g) \<Rightarrow> Granular g
                       | _ \<Rightarrow> OnRequest)
                  | None \<Rightarrow> OnRequest)
             | _ \<Rightarrow> Never)
      in config\<lparr>gc_approval_policy := snd (cset approval (gc_approval_policy config))\<rparr>)"

section \<open>Platforms\<close>

datatype target_os = LinuxTarget | MacTarget | WindowsTarget | OtherTarget

definition windows_level :: "gateway_config \<Rightarrow> windows_sandbox_level" where
  "windows_level config =
     (if gc_windows_elevated config then Elevated else if gc_windows_sandbox config then RestrictedToken else Disabled)"

definition is_workspace_write :: "sandbox_policy \<Rightarrow> bool" where
  "is_workspace_write p = (case p of WorkspaceWrite _ _ _ _ \<Rightarrow> True | _ \<Rightarrow> False)"

definition enforce_platform_sandbox_readiness ::
    "target_os \<Rightarrow> bool \<Rightarrow> gateway_config \<Rightarrow> gateway_config \<times> rstring option" where
  "enforce_platform_sandbox_readiness os setup_complete config =
     (if os \<noteq> WindowsTarget then (config, None)
      else if \<not> is_workspace_write (cn_value (gc_sandbox_policy config)) then (config, None)
      else case windows_level config of
        Elevated \<Rightarrow>
          if \<not> setup_complete
          then (config\<lparr>gc_windows_elevated := False, gc_windows_sandbox := True\<rparr>,
                Some (lit ''elevated Windows sandbox is not ready; using restricted-token sandbox''))
          else (config, None)
      | Disabled \<Rightarrow>
          (set_sandbox ReadOnly config,
           Some (lit ''Windows workspace-write sandbox is disabled; using read-only fail-closed policy''))
      | RestrictedToken \<Rightarrow> (config, None))"

definition sandbox_enforcement :: "target_os \<Rightarrow> gateway_config \<Rightarrow> rstring" where
  "sandbox_enforcement os config =
     (case cn_value (gc_sandbox_policy config) of
        DangerFullAccess \<Rightarrow> lit ''unrestricted''
      | ExternalSandbox _ \<Rightarrow> lit ''external-sandbox''
      | ReadOnly \<Rightarrow> lit ''read-only-command-gate''
      | WorkspaceWrite _ _ _ _ \<Rightarrow>
          (case os of
             WindowsTarget \<Rightarrow>
               (case windows_level config of
                  Elevated \<Rightarrow> lit ''windows-elevated''
                | RestrictedToken \<Rightarrow> lit ''windows-restricted-token''
                | Disabled \<Rightarrow> lit ''unavailable'')
           | LinuxTarget \<Rightarrow> lit ''linux-seccomp''
           | MacTarget \<Rightarrow> lit ''macos-seatbelt''
           | OtherTarget \<Rightarrow> lit ''platform-sandbox''))"

definition effective_sandbox_name :: "gateway_config \<Rightarrow> rstring" where
  "effective_sandbox_name config =
     (case cn_value (gc_sandbox_policy config) of
        DangerFullAccess \<Rightarrow> lit ''danger-full-access''
      | ExternalSandbox _ \<Rightarrow> lit ''external-sandbox''
      | ReadOnly \<Rightarrow> lit ''read-only''
      | WorkspaceWrite _ _ _ _ \<Rightarrow> lit ''workspace-write'')"

section \<open>Agent files\<close>

datatype json = JNull | JBool bool | JNumber rstring | JString rstring | JArray "json list" | JObject "(rstring \<times> json) list"

fun json_get :: "json \<Rightarrow> rstring \<Rightarrow> json option" where
  "json_get (JObject members) key = map_of members key"
| "json_get _ key = None"

datatype file_read = Contents rstring | ReadNotFound | ReadFailed

record agent_files =
  af_read :: "rstring \<Rightarrow> file_read"
  af_list :: "rstring \<Rightarrow> rstring list option"
  af_json :: "rstring \<Rightarrow> json option"
  af_permission :: "json \<Rightarrow> agent_permission_policy option"
  af_execution :: "json \<Rightarrow> agent_execution_mode option"

definition json_string_matches :: "rstring \<Rightarrow> json option \<Rightarrow> bool" where
  "json_string_matches agent_ref v =
     (case v of Some (JString s) \<Rightarrow> eq_ignore_ascii_case (trim s) agent_ref | _ \<Rightarrow> False)"

definition agent_config_matches :: "json \<Rightarrow> rstring \<Rightarrow> bool" where
  "agent_config_matches config agent_ref \<longleftrightarrow>
     json_string_matches agent_ref (json_get config (lit ''id'')) \<or>
     json_string_matches agent_ref (json_get config (lit ''name'')) \<or>
     json_string_matches agent_ref
       (Option.bind (json_get config (lit ''identity'')) (\<lambda>i. json_get i (lit ''name'')))"

definition read_json :: "agent_files \<Rightarrow> rstring \<Rightarrow> json option" where
  "read_json io path = (case af_read io path of Contents data \<Rightarrow> af_json io data | _ \<Rightarrow> None)"

fun scan_agents :: "agent_files \<Rightarrow> rstring \<Rightarrow> rstring list \<Rightarrow> (rstring \<times> json) option" where
  "scan_agents io agent_ref [] = None"
| "scan_agents io agent_ref (path # paths) =
     (if path_extension path \<noteq> Some (lit ''json'') then scan_agents io agent_ref paths
      else case read_json io path of
        None \<Rightarrow> scan_agents io agent_ref paths
      | Some config \<Rightarrow>
          if agent_config_matches config agent_ref then Some (path, config) else scan_agents io agent_ref paths)"

definition agent_file_path :: "rstring \<Rightarrow> rstring \<Rightarrow> rstring option" where
  "agent_file_path dir agent_ref =
     (case sanitized_agent_file_stem agent_ref of
        Some stem \<Rightarrow> if stem = agent_ref then safe_join dir stem (lit ''.json'') else None
      | None \<Rightarrow> None)"

definition load_agent_config ::
    "agent_files \<Rightarrow> rstring \<Rightarrow> rstring \<Rightarrow> (rstring, (rstring \<times> json) option) result" where
  "load_agent_config io savfox_home agent_ref =
     (let agent_ref = trim agent_ref; dir = path_join savfox_home (lit ''agents'');
          scanned = Ok (case af_list io dir of Some paths \<Rightarrow> scan_agents io agent_ref paths | None \<Rightarrow> None)
      in if agent_ref = [] then Ok None
         else case agent_file_path dir agent_ref of
           None \<Rightarrow> scanned
         | Some path \<Rightarrow>
             (case af_read io path of
                Contents data \<Rightarrow>
                  (case af_json io data of Some config \<Rightarrow> Ok (Some (path, config)) | None \<Rightarrow> Err path)
              | ReadNotFound \<Rightarrow> scanned
              | ReadFailed \<Rightarrow> Err path))"

section \<open>Resolution\<close>

text \<open>A field of the agent file: absent or null, invalid, or read.\<close>

definition policy_field ::
    "(json \<Rightarrow> 'p option) \<Rightarrow> (rstring \<times> json) option \<Rightarrow> rstring \<Rightarrow> 'p option \<times> bool" where
  "policy_field parse loaded key =
     (case Option.bind loaded (\<lambda>(_, v). json_get v key) of
        None \<Rightarrow> (None, False)
      | Some JNull \<Rightarrow> (None, False)
      | Some v \<Rightarrow> (case parse v of Some p \<Rightarrow> (Some p, False) | None \<Rightarrow> (None, True)))"

definition known_profiles :: "rstring list" where
  "known_profiles = [lit '':read-only'', lit '':workspace'', lit '':danger-full-access'']"

definition unknown_policy_value :: "agent_permission_policy option \<Rightarrow> agent_execution_mode option \<Rightarrow> bool" where
  "unknown_policy_value permission execution \<longleftrightarrow>
     (case permission of
        Some p \<Rightarrow>
          (case ap_sandbox p of Some (AgentSandboxOther _) \<Rightarrow> True | _ \<Rightarrow> False) \<or>
          (case ap_approval p of Some (AgentApprovalOther _) \<Rightarrow> True | _ \<Rightarrow> False) \<or>
          (case ap_profile p of Some profile \<Rightarrow> profile \<notin> set known_profiles | None \<Rightarrow> False)
      | None \<Rightarrow> False) \<or>
     (case execution of Some (AgentExecutionOther _) \<Rightarrow> True | _ \<Rightarrow> False)"

record execution_security_context =
  ec_agent_id :: rstring
  ec_mode :: execution_mode
  ec_requested_mode :: execution_mode
  ec_capabilities :: approval_client_capabilities
  ec_policy_fingerprint :: rstring
  ec_policy_source :: "rstring option"
  ec_fallback_reason :: "rstring option"
  ec_sandbox_enforcement :: rstring
  ec_effective_sandbox :: rstring

definition resolve_execution_security ::
    "agent_files \<Rightarrow> target_os \<Rightarrow> bool \<Rightarrow>
     (gateway_config \<Rightarrow> rstring \<Rightarrow> agent_permission_policy option \<Rightarrow> execution_mode \<Rightarrow> execution_mode \<Rightarrow>
      approval_client_capabilities \<Rightarrow> rstring) \<Rightarrow>
     gateway_config \<Rightarrow> rstring \<Rightarrow> rstring \<Rightarrow> approval_client_capabilities \<Rightarrow>
     gateway_config \<times> execution_security_context" where
  "resolve_execution_security io os setup_complete fingerprint base savfox_home agent_ref caps =
     (let (loaded, invalid_agent) =
            (case load_agent_config io savfox_home agent_ref of Inr l \<Rightarrow> (l, False) | Inl _ \<Rightarrow> (None, True));
          (permission, invalid_permission) = policy_field (af_permission io) loaded (lit ''permission_policy'');
          (execution, invalid_execution) = policy_field (af_execution io) loaded (lit ''execution_policy'');
          unknown = unknown_policy_value permission execution;
          (config, profile_fallback) =
            (case permission of Some p \<Rightarrow> apply_permission_policy p base | None \<Rightarrow> (base, None));
          invalid = (invalid_agent \<or> invalid_permission \<or> invalid_execution \<or> unknown);
          config = (if invalid then set_sandbox ReadOnly config else config);
          (config, readiness) = enforce_platform_sandbox_readiness os setup_complete config;
          requested = (if invalid then Unattended else requested_execution_mode execution permission caps);
          (mode, reason) = effective_execution_mode requested caps;
          reason = (if invalid then
                      Some (if unknown then lit ''agent security configuration contains an unknown policy value''
                            else lit ''agent security configuration is invalid'')
                    else reason);
          reason = (case readiness of Some r \<Rightarrow> add_reason reason r | None \<Rightarrow> reason);
          reason = (case profile_fallback of Some r \<Rightarrow> add_reason reason r | None \<Rightarrow> reason);
          config = apply_execution_mode mode permission config
      in (config,
          \<lparr>ec_agent_id = trim agent_ref, ec_mode = mode, ec_requested_mode = requested, ec_capabilities = caps,
           ec_policy_fingerprint = fingerprint config agent_ref permission requested mode caps,
           ec_policy_source = map_option fst loaded, ec_fallback_reason = reason,
           ec_sandbox_enforcement = sandbox_enforcement os config, ec_effective_sandbox = effective_sandbox_name config\<rparr>))"

section \<open>What is granted\<close>

text \<open>A change of the settings that an administrator's rules bind.\<close>

definition bound_change :: "gateway_config \<Rightarrow> gateway_config \<Rightarrow> bool" where
  "bound_change c c' \<longleftrightarrow>
     within_rule (gc_sandbox_policy c') = within_rule (gc_sandbox_policy c) \<and>
     within_rule (gc_approval_policy c') = within_rule (gc_approval_policy c) \<and>
     (within_rule (gc_sandbox_policy c) (cn_value (gc_sandbox_policy c)) \<longrightarrow>
        within_rule (gc_sandbox_policy c) (cn_value (gc_sandbox_policy c'))) \<and>
     (within_rule (gc_approval_policy c) (cn_value (gc_approval_policy c)) \<longrightarrow>
        within_rule (gc_approval_policy c) (cn_value (gc_approval_policy c')))"

lemma bound_change_refl [simp]: "bound_change c c"
  by (simp add: bound_change_def)

lemma bound_change_trans: "bound_change a b \<Longrightarrow> bound_change b c \<Longrightarrow> bound_change a c"
  by (simp add: bound_change_def)

lemma bound_set_sandbox [simp]: "bound_change c (set_sandbox p c)"
  by (simp add: bound_change_def set_sandbox_def constrained.rule_kept constrained.obeys)

lemma bound_execution_mode [simp]: "bound_change c (apply_execution_mode mode policy c)"
  by (simp add: bound_change_def apply_execution_mode_def Let_def constrained.rule_kept constrained.obeys)

lemma bound_other_fields [simp]:
  "bound_change c (d\<lparr>gc_tool_access_policy := t\<rparr>) = bound_change c d"
  "bound_change c (d\<lparr>gc_windows_elevated := e\<rparr>) = bound_change c d"
  "bound_change c (d\<lparr>gc_windows_sandbox := w\<rparr>) = bound_change c d"
  by (simp_all add: bound_change_def)

lemma bound_network: "bound_change c (fst (apply_network network reason c))"
  by (cases "cn_value (gc_sandbox_policy c)") (simp_all add: apply_network_def Let_def)

lemma bound_permission: "bound_change c (fst (apply_permission_policy policy c))"
proof -
  have "bound_change c (apply_tool_access policy (fst (apply_sandbox_choice policy c)))"
    by (simp add: apply_tool_access_def apply_sandbox_choice_def split: option.splits)
  then show ?thesis
    using bound_change_trans [OF _ bound_network]
    by (auto simp: apply_permission_policy_def Let_def split: prod.splits option.splits)
qed

lemma bound_readiness: "bound_change c (fst (enforce_platform_sandbox_readiness os ready c))"
  by (simp add: enforce_platform_sandbox_readiness_def split: windows_sandbox_level.splits)

text \<open>Whether a policy asks for access to everything.\<close>

definition asks_full_access :: "agent_permission_policy \<Rightarrow> bool" where
  "asks_full_access policy \<longleftrightarrow>
     ap_profile policy = Some (lit '':danger-full-access'') \<or>
     ap_profile policy = None \<and> ap_sandbox policy = Some AgentDangerFullAccess"

text \<open>A property of the sandbox policy that every restricted policy has survives the steps.\<close>

definition keeps_sandbox :: "(sandbox_policy \<Rightarrow> bool) \<Rightarrow> gateway_config \<Rightarrow> bool" where
  "keeps_sandbox Q c \<longleftrightarrow> cn_normalizer (gc_sandbox_policy c) = None \<and> Q (cn_value (gc_sandbox_policy c))"

definition holds_restricted :: "(sandbox_policy \<Rightarrow> bool) \<Rightarrow> bool" where
  "holds_restricted Q \<longleftrightarrow> Q ReadOnly \<and> (\<forall>r n t s. Q (WorkspaceWrite r n t s))"

lemma keeps_set_sandbox: "keeps_sandbox Q c \<Longrightarrow> Q p \<Longrightarrow> keeps_sandbox Q (set_sandbox p c)"
  by (auto simp: keeps_sandbox_def set_sandbox_def cset_def Let_def split: sum.splits)

lemma keeps_permission:
  assumes "keeps_sandbox Q c" "holds_restricted Q" "asks_full_access policy \<Longrightarrow> Q DangerFullAccess"
  shows "keeps_sandbox Q (fst (apply_permission_policy policy c))"
proof -
  have "Q (fst (profile_sandbox profile))" if "ap_profile policy = Some profile" for profile
    using assms(2,3) that
    by (auto simp: profile_sandbox_def asks_full_access_def holds_restricted_def new_workspace_write_policy_def simp del: lit_Cons)
  moreover have "Q (legacy_sandbox mode)" if "ap_profile policy = None" "ap_sandbox policy = Some mode" for mode
    using assms(2,3) that
    by (cases mode) (auto simp: asks_full_access_def holds_restricted_def new_workspace_write_policy_def)
  ultimately have "keeps_sandbox Q (fst (apply_sandbox_choice policy c))"
    using assms(1) by (auto simp: apply_sandbox_choice_def intro: keeps_set_sandbox split: option.splits)
  then have tools: "keeps_sandbox Q (apply_tool_access policy (fst (apply_sandbox_choice policy c)))"
    by (auto simp: apply_tool_access_def keeps_sandbox_def split: option.splits)
  then have "keeps_sandbox Q (fst (apply_network n r (apply_tool_access policy (fst (apply_sandbox_choice policy c)))))" for n r
    using assms(2) by (auto simp: apply_network_def Let_def holds_restricted_def intro!: keeps_set_sandbox split: sandbox_policy.splits)
  with tools show ?thesis
    by (auto simp: apply_permission_policy_def Let_def split: prod.splits option.splits)
qed

lemma keeps_readiness:
  assumes "keeps_sandbox Q c" "holds_restricted Q"
  shows "keeps_sandbox Q (fst (enforce_platform_sandbox_readiness os ready c))"
  using assms keeps_set_sandbox [OF assms(1), of ReadOnly]
  by (auto simp: enforce_platform_sandbox_readiness_def holds_restricted_def keeps_sandbox_def split: windows_sandbox_level.splits)

lemma keeps_execution_mode [simp]: "keeps_sandbox Q (apply_execution_mode mode policy c) = keeps_sandbox Q c"
  by (simp add: keeps_sandbox_def apply_execution_mode_def Let_def)

text \<open>The policies read for an agent, and whether they cannot be relied on.\<close>

definition loaded_agent :: "agent_files \<Rightarrow> rstring \<Rightarrow> rstring \<Rightarrow> (rstring \<times> json) option" where
  "loaded_agent io home agent = (case load_agent_config io home agent of Inr l \<Rightarrow> l | Inl _ \<Rightarrow> None)"

definition agent_permission :: "agent_files \<Rightarrow> rstring \<Rightarrow> rstring \<Rightarrow> agent_permission_policy option" where
  "agent_permission io home agent =
     fst (policy_field (af_permission io) (loaded_agent io home agent) (lit ''permission_policy''))"

definition agent_execution :: "agent_files \<Rightarrow> rstring \<Rightarrow> rstring \<Rightarrow> agent_execution_mode option" where
  "agent_execution io home agent =
     fst (policy_field (af_execution io) (loaded_agent io home agent) (lit ''execution_policy''))"

definition agent_invalid :: "agent_files \<Rightarrow> rstring \<Rightarrow> rstring \<Rightarrow> bool" where
  "agent_invalid io home agent \<longleftrightarrow>
     (\<exists>path. load_agent_config io home agent = Err path) \<or>
     snd (policy_field (af_permission io) (loaded_agent io home agent) (lit ''permission_policy'')) \<or>
     snd (policy_field (af_execution io) (loaded_agent io home agent) (lit ''execution_policy'')) \<or>
     unknown_policy_value (agent_permission io home agent) (agent_execution io home agent)"

definition permitted_config :: "agent_files \<Rightarrow> gateway_config \<Rightarrow> rstring \<Rightarrow> rstring \<Rightarrow> gateway_config" where
  "permitted_config io base home agent =
     (let c = (case agent_permission io home agent of Some p \<Rightarrow> fst (apply_permission_policy p base) | None \<Rightarrow> base)
      in if agent_invalid io home agent then set_sandbox ReadOnly c else c)"

lemma resolve_parts:
  assumes "resolve_execution_security io os ready fp base home agent caps = (config, ctx)"
  shows "config = apply_execution_mode (ec_mode ctx) (agent_permission io home agent)
      (fst (enforce_platform_sandbox_readiness os ready (permitted_config io base home agent)))"
    "ec_requested_mode ctx = (if agent_invalid io home agent then Unattended
       else requested_execution_mode (agent_execution io home agent) (agent_permission io home agent) caps)"
    "ec_mode ctx = fst (effective_execution_mode (ec_requested_mode ctx) caps)"
    "ec_effective_sandbox ctx = effective_sandbox_name config"
proof -
  obtain inv where loaded: "(case load_agent_config io home agent of Inr l \<Rightarrow> (l, False) | Inl _ \<Rightarrow> (None, True)) =
      (loaded_agent io home agent, inv)" and inv: "inv \<longleftrightarrow> (\<exists>path. load_agent_config io home agent = Err path)"
    by (cases "load_agent_config io home agent") (auto simp: loaded_agent_def)
  have pair: "(case permission of Some p \<Rightarrow> apply_permission_policy p base | None \<Rightarrow> (base, None)) =
      (case permission of Some p \<Rightarrow> fst (apply_permission_policy p base) | None \<Rightarrow> base,
       case permission of Some p \<Rightarrow> snd (apply_permission_policy p base) | None \<Rightarrow> None)" for permission
    by (cases permission) auto
  have parts: "config = apply_execution_mode (ec_mode ctx) (agent_permission io home agent)
      (fst (enforce_platform_sandbox_readiness os ready (permitted_config io base home agent))) \<and>
    ec_requested_mode ctx = (if agent_invalid io home agent then Unattended
       else requested_execution_mode (agent_execution io home agent) (agent_permission io home agent) caps) \<and>
    ec_mode ctx = fst (effective_execution_mode (ec_requested_mode ctx) caps) \<and>
    ec_effective_sandbox ctx = effective_sandbox_name config"
    using assms
    unfolding resolve_execution_security_def loaded Let_def pair permitted_config_def agent_invalid_def
      agent_permission_def agent_execution_def inv [symmetric] case_prod_beta prod.sel
    by (elim Pair_inject, hypsubst) (simp add: case_prod_beta disj_assoc del: lit_Cons)
  then show "config = apply_execution_mode (ec_mode ctx) (agent_permission io home agent)
      (fst (enforce_platform_sandbox_readiness os ready (permitted_config io base home agent)))"
    "ec_requested_mode ctx = (if agent_invalid io home agent then Unattended
       else requested_execution_mode (agent_execution io home agent) (agent_permission io home agent) caps)"
    "ec_mode ctx = fst (effective_execution_mode (ec_requested_mode ctx) caps)"
    "ec_effective_sandbox ctx = effective_sandbox_name config"
    by blast+
qed

lemma keeps_permitted:
  assumes "keeps_sandbox Q base" "holds_restricted Q"
    "\<And>p. agent_permission io home agent = Some p \<Longrightarrow> asks_full_access p \<Longrightarrow> Q DangerFullAccess"
  shows "keeps_sandbox Q (permitted_config io base home agent)"
proof -
  have "keeps_sandbox Q (case agent_permission io home agent of Some p \<Rightarrow> fst (apply_permission_policy p base) | None \<Rightarrow> base)"
  proof (cases "agent_permission io home agent")
    case (Some p)
    then show ?thesis using keeps_permission [OF assms(1,2), of p] assms(3) [OF Some] by simp
  qed (simp add: assms(1))
  moreover from this have "keeps_sandbox Q (set_sandbox ReadOnly
      (case agent_permission io home agent of Some p \<Rightarrow> fst (apply_permission_policy p base) | None \<Rightarrow> base))"
    using assms(2) by (intro keeps_set_sandbox) (simp_all add: holds_restricted_def)
  ultimately show ?thesis
    by (simp add: permitted_config_def Let_def)
qed

lemma approval_untouched [simp]:
  "gc_approval_policy (set_sandbox p c) = gc_approval_policy c"
  "gc_approval_policy (fst (enforce_platform_sandbox_readiness os ready c)) = gc_approval_policy c"
  by (simp_all add: set_sandbox_def enforce_platform_sandbox_readiness_def split: windows_sandbox_level.splits)

lemma approval_of_network [simp]: "gc_approval_policy (fst (apply_network n r c)) = gc_approval_policy c"
  by (simp add: apply_network_def Let_def split: sandbox_policy.splits)

lemma approval_of_permission [simp]: "gc_approval_policy (fst (apply_permission_policy p c)) = gc_approval_policy c"
proof -
  have "gc_approval_policy (apply_tool_access p (fst (apply_sandbox_choice p c))) = gc_approval_policy c"
    by (simp add: apply_tool_access_def apply_sandbox_choice_def split: option.splits)
  then show ?thesis
    by (auto simp: apply_permission_policy_def Let_def split: prod.splits option.splits)
qed

lemma set_sandbox_accepted:
  assumes "within_rule (gc_sandbox_policy c) p" "cn_normalizer (gc_sandbox_policy c) = None"
  shows "cn_value (gc_sandbox_policy (set_sandbox p c)) = p"
  using assms by (simp add: set_sandbox_def cset_def within_rule_def)

lemma bound_permitted: "bound_change base (permitted_config io base home agent)"
proof -
  let ?c = "case agent_permission io home agent of Some p \<Rightarrow> fst (apply_permission_policy p base) | None \<Rightarrow> base"
  have "bound_change base ?c" by (simp add: bound_permission split: option.split)
  then show ?thesis
    using bound_change_trans [OF _ bound_set_sandbox] by (simp add: permitted_config_def Let_def)
qed

text \<open>
  C19.  What a request through the gateway is granted.  The sandbox and approval policies stay within the rules
  that bind them.  A request is asked about only if its entry point can carry the answer, and automatic
  review never takes effect.  Unrestricted access to the disk is granted only if the base configuration has it or the agent's
  permission policy asks for it by name.
\<close>

theorem gateway_grants_bounded:
  assumes "resolve_execution_security io os ready fp base home agent caps = (config, ctx)"
    and "within_rule (gc_sandbox_policy base) (cn_value (gc_sandbox_policy base))"
    and "within_rule (gc_approval_policy base) (cn_value (gc_approval_policy base))"
    and "cn_normalizer (gc_sandbox_policy base) = None"
  shows "within_rule (gc_sandbox_policy base) (cn_value (gc_sandbox_policy config)) \<and>
    within_rule (gc_approval_policy base) (cn_value (gc_approval_policy config)) \<and>
    ec_mode ctx \<noteq> AutoReview \<and> (ec_mode ctx = Interactive \<longrightarrow> can_interact caps) \<and>
    (has_full_disk_write_access (cn_value (gc_sandbox_policy config)) \<longrightarrow>
       cn_value (gc_sandbox_policy config) = cn_value (gc_sandbox_policy base) \<or>
       (\<exists>p. agent_permission io home agent = Some p \<and> asks_full_access p))"
proof -
  note parts = resolve_parts [OF assms(1)]
  have "bound_change base config"
    unfolding parts(1)
    by (rule bound_change_trans [OF bound_change_trans [OF bound_permitted bound_readiness] bound_execution_mode])
  then have rules: "within_rule (gc_sandbox_policy base) (cn_value (gc_sandbox_policy config))"
    "within_rule (gc_approval_policy base) (cn_value (gc_approval_policy config))"
    using assms(2,3) by (auto simp: bound_change_def)
  define Q where "Q v \<longleftrightarrow> v = cn_value (gc_sandbox_policy base) \<or> \<not> has_full_disk_write_access v \<or>
      (\<exists>p. agent_permission io home agent = Some p \<and> asks_full_access p)" for v
  have Q: "keeps_sandbox Q base" "holds_restricted Q"
    using assms(4) by (auto simp: keeps_sandbox_def holds_restricted_def Q_def)
  have "keeps_sandbox Q (permitted_config io base home agent)"
    by (rule keeps_permitted [OF Q]) (auto simp: Q_def)
  then have "keeps_sandbox Q config"
    unfolding parts(1) using keeps_readiness [OF _ Q(2)] by simp
  moreover have "ec_mode ctx \<noteq> AutoReview \<and> (ec_mode ctx = Interactive \<longrightarrow> can_interact caps)"
    unfolding parts(3) by (simp add: effective_execution_mode_def split: execution_mode.splits)
  ultimately show ?thesis
    using rules by (auto simp: keeps_sandbox_def Q_def)
qed


section \<open>Concrete agents\<close>

definition free_config :: gateway_config where
  "free_config = \<lparr>gc_sandbox_policy = allow_any new_workspace_write_policy, gc_approval_policy = allow_any OnRequest,
     gc_tool_access_policy = None, gc_windows_sandbox = False, gc_windows_elevated = False\<rparr>"

text \<open>One agent file; its text is not valid JSON, or it is.\<close>

definition one_agent :: "rstring \<Rightarrow> json option \<Rightarrow> agent_files" where
  "one_agent path parsed =
     \<lparr>af_read = (\<lambda>p. if p = path then Contents [] else ReadNotFound), af_list = (\<lambda>_. Some [path]), af_json = (\<lambda>_. parsed),
      af_permission = (\<lambda>_. Some \<lparr>ap_preset_id = None, ap_profile = Some (lit '':danger-full-access''), ap_sandbox = None, ap_approval = None,
         ap_granular = None, ap_network = None, ap_tool_access = None\<rparr>),
      af_execution = (\<lambda>_. None)\<rparr>"

lemmas name_eval = trim_def trim_start_def trim_end_def is_whitespace_def sanitized_agent_file_stem_def sanitize_char_def
  is_control_def trim_matches_def safe_join_def safe_filename_segment_def starts_with_def ends_with_def strip_suffix_def
  bad_segment_char_def byte_len_def len_utf8_def MAX_SEGMENT_LEN_def path_join_def

lemma bob_path: "agent_file_path (path_join (lit ''/h'') (lit ''agents'')) (lit ''bob'') = Some (lit ''/h/agents/bob.json'')"
  by (simp add: agent_file_path_def name_eval)

lemma bob_trim: "trim (lit ''bob'') = lit ''bob''" "lit ''bob'' \<noteq> []"
  by (simp_all add: name_eval)

lemma bob_loaded:
  "load_agent_config (one_agent (lit ''/h/agents/bob.json'') parsed) (lit ''/h'') (lit ''bob'') =
     (case parsed of Some j \<Rightarrow> Ok (Some (lit ''/h/agents/bob.json'', j)) | None \<Rightarrow> Err (lit ''/h/agents/bob.json''))"
  unfolding load_agent_config_def Let_def bob_trim bob_path using bob_trim(2)
  by (simp add: one_agent_def del: lit_Cons)

lemma free_within:
  "within_rule (gc_sandbox_policy free_config) p" "within_rule (gc_approval_policy free_config) a"
  "cn_normalizer (gc_sandbox_policy free_config) = None" "cn_normalizer (gc_approval_policy free_config) = None"
  by (simp_all add: free_config_def allow_any_within) (simp_all add: allow_any_def)

theorem gateway_grants_bounded_witness:
  "\<exists>config ctx. resolve_execution_security (one_agent (lit ''/h/agents/bob.json'')
       (Some (JObject [(lit ''permission_policy'', JBool True)]))) LinuxTarget True (\<lambda>_ _ _ _ _ _. []) free_config
       (lit ''/h'') (lit ''bob'') (for_channel (lit ''pager'')) = (config, ctx) \<and>
     (ec_mode ctx = Interactive \<longrightarrow> can_interact (for_channel (lit ''pager'')))"
proof -
  obtain config ctx where res: "resolve_execution_security (one_agent (lit ''/h/agents/bob.json'')
       (Some (JObject [(lit ''permission_policy'', JBool True)]))) LinuxTarget True (\<lambda>_ _ _ _ _ _. []) free_config
       (lit ''/h'') (lit ''bob'') (for_channel (lit ''pager'')) = (config, ctx)" by fastforce
  with gateway_grants_bounded [OF res free_within(1,2,3)] show ?thesis
    by blast
qed


text \<open>
  The file is not always found by its name: an agent that is referred to by the name inside its file is
  searched for, and a file that cannot be read is passed over.  Then nothing is invalid, and the agent gets
  the base configuration.
\<close>

lemma malformed_agent_found_by_name_is_ignored:
  "load_agent_config (one_agent (lit ''/h/agents/a1.json'') None) (lit ''/h'') (lit ''bob'') = Ok None \<and>
   \<not> agent_invalid (one_agent (lit ''/h/agents/a1.json'') None) (lit ''/h'') (lit ''bob'')"
proof -
  have other: "lit ''/h/agents/bob.json'' \<noteq> lit ''/h/agents/a1.json''" by simp
  have load: "load_agent_config (one_agent (lit ''/h/agents/a1.json'') None) (lit ''/h'') (lit ''bob'') = Ok None"
    unfolding load_agent_config_def Let_def bob_trim bob_path using bob_trim(2) other
    by (simp add: one_agent_def read_json_def del: lit_Cons)
  then show ?thesis
    by (simp add: agent_invalid_def loaded_agent_def agent_permission_def agent_execution_def policy_field_def
        unknown_policy_value_def del: lit_Cons)
qed

text \<open>
  An unattended agent may still ask: if the administrator's rules do not admit \<^verbatim>\<open>never\<close>, the refused change leaves
  the approval policy of the base configuration in force.
\<close>

lemma unattended_may_still_ask:
  assumes "cn_validator (gc_approval_policy c) Never = Err e" "cn_normalizer (gc_approval_policy c) = None"
  shows "gc_approval_policy (apply_execution_mode Unattended policy c) = gc_approval_policy c"
  using assms by (simp add: apply_execution_mode_def cset_def)

end
