(* ===== verification/Approval_Coordinator.thy ===== *)
theory Approval_Coordinator
  imports Approval_Store Execution_Security "HOL-Library.AList"
begin

text \<open>
  \<^verbatim>\<open>gateway-server/src/security/approval_coordinator.rs\<close> and the resolve endpoint of
  \<^verbatim>\<open>gateway-server/src/exec_approval.rs\<close>: approvals that running sessions wait for.  The registry maps the identifier
  shown to people to the session and the approval of the engine; an answer comes as a text in the conversation
  or from an authenticated caller with the nonce.

  The registry is an association list (its order stands for the iteration order of the hash map).  Clocks, random
  identifiers, the redaction of secrets and the result of handing an operation to a session are arguments.  An answer
  is handled in two parts, taking the request out of the registry under its lock and delivering it afterwards;
  other operations may run in between, so the transition system at the end keeps the requests that were taken.
\<close>

section \<open>Data\<close>

datatype approval_kind = ExecApprovalKind | PatchApprovalKind

datatype approval_decision_kind = ApproveOnce | ApproveSession | AllowRule | Deny | AbortDecision

record approval_request_envelope =
  env_id :: rstring
  env_nonce :: rstring
  env_kind :: approval_kind
  env_agent_id :: rstring
  env_channel_instance_id :: "rstring option"
  env_account_id :: "rstring option"
  env_peer_id :: "rstring option"
  env_logical_session_id :: rstring
  env_core_session_id :: rstring
  env_turn_id :: rstring
  env_environment_id :: "rstring option"
  env_cwd :: rstring
  env_redacted_summary :: rstring
  env_reason :: "rstring option"
  env_available_decisions :: "approval_decision_kind list"
  env_policy_fingerprint :: rstring
  env_created_at_ms :: nat
  env_expires_at_ms :: nat

record channel_approval_scope =
  sc_channel :: rstring
  sc_channel_config_id :: "rstring option"
  sc_account_id :: "rstring option"
  sc_peer_id :: rstring
  sc_logical_session_id :: rstring

datatype channel_approval_kind = ExecChannel (proposed_amendment: "rstring list option") | PatchChannel

record approval_request_metadata =
  md_agent_id :: rstring
  md_policy_fingerprint :: rstring
  md_cwd :: rstring
  md_summary :: rstring
  md_command :: "rstring list option"
  md_reason :: "rstring option"

record pending_channel_approval =
  pa_envelope :: approval_request_envelope
  pa_request_id :: rstring
  pa_core_approval_id :: rstring
  pa_core_session_id :: rstring
  pa_scope :: channel_approval_scope
  pa_kind :: channel_approval_kind
  pa_capabilities :: approval_client_capabilities
  pa_expires_at :: nat

section \<open>Summaries without secrets\<close>

definition SECRET_MARKERS :: "rstring list" where
  "SECRET_MARKERS = [lit ''password'', lit ''passwd'', lit ''token'', lit ''secret'', lit ''api-key'', lit ''apikey'',
     lit ''authorization'', lit ''credential'']"

definition redacted_word :: rstring where
  "redacted_word = lit ''<redacted>''"

definition is_secret_flag :: "rstring \<Rightarrow> bool" where
  "is_secret_flag word \<longleftrightarrow>
     list_ex (\<lambda>m. to_ascii_lowercase word = lit ''--'' @ m \<or> to_ascii_lowercase word = lit ''-'' @ m) SECRET_MARKERS"

definition has_secret_marker :: "rstring \<Rightarrow> bool" where
  "has_secret_marker key \<longleftrightarrow> list_ex (\<lambda>m. sublist m (to_ascii_lowercase key)) SECRET_MARKERS"

fun redact_words :: "bool \<Rightarrow> rstring list \<Rightarrow> rstring list" where
  "redact_words redact_next [] = []"
| "redact_words redact_next (word # ws) =
     (if redact_next then redacted_word # redact_words False ws
      else if is_secret_flag word then word # redact_words True ws
      else (case split_once (lit ''='') word of
              Some (key, _) \<Rightarrow>
                (if has_secret_marker key then key @ lit ''='' @ redacted_word else word) # redact_words False ws
            | None \<Rightarrow> word # redact_words False ws))"

definition redacted_command_summary :: "(rstring \<Rightarrow> rstring) \<Rightarrow> rstring list \<Rightarrow> rstring" where
  "redacted_command_summary redact command =
     truncate_utf8 (redact (join_str (lit '' '') (redact_words False command))) 512"

section \<open>Requests\<close>

definition supports_session_grant :: "pending_channel_approval \<Rightarrow> bool" where
  "supports_session_grant p \<longleftrightarrow> supports_session_grants (pa_capabilities p)"

definition has_amendment :: "channel_approval_kind \<Rightarrow> bool" where
  "has_amendment kind = (case kind of ExecChannel (Some _) \<Rightarrow> True | _ \<Rightarrow> False)"

definition supports_persisted_rule :: "pending_channel_approval \<Rightarrow> bool" where
  "supports_persisted_rule p \<longleftrightarrow> supports_persisted_rules (pa_capabilities p) \<and> has_amendment (pa_kind p)"

fun decision_text :: "approval_decision_kind \<Rightarrow> rstring" where
  "decision_text ApproveOnce = lit ''approve-once''"
| "decision_text ApproveSession = lit ''approve-session''"
| "decision_text AllowRule = lit ''allow-rule''"
| "decision_text Deny = lit ''deny''"
| "decision_text AbortDecision = lit ''abort''"

fun decision_label :: "approval_decision_kind \<Rightarrow> rstring" where
  "decision_label ApproveOnce = lit ''Approve once''"
| "decision_label ApproveSession = lit ''Approve session''"
| "decision_label AllowRule = lit ''Allow rule''"
| "decision_label Deny = lit ''Deny''"
| "decision_label AbortDecision = lit ''Abort''"

record approval_notification =
  no_text :: rstring
  no_request_id :: rstring
  no_actions :: "(rstring \<times> rstring) list"

definition notification :: "pending_channel_approval \<Rightarrow> rstring \<Rightarrow> approval_notification" where
  "notification p txt = \<lparr>no_text = txt, no_request_id = pa_request_id p,
     no_actions = map (\<lambda>d. (decision_label d, decision_text d)) (env_available_decisions (pa_envelope p))\<rparr>"

fun kind_text :: "approval_kind \<Rightarrow> rstring" where
  "kind_text ExecApprovalKind = lit ''exec''"
| "kind_text PatchApprovalKind = lit ''patch''"

definition as_persisted_request :: "pending_channel_approval \<Rightarrow> exec_approval_request_entry" where
  "as_persisted_request p =
     (let e = pa_envelope p in
      \<lparr>ea_id = env_id e, ea_command = env_redacted_summary e, ea_cwd = Some (env_cwd e), ea_host = None,
       ea_security = Some (kind_text (env_kind e)), ea_ask = env_reason e, ea_agent_id = Some (env_agent_id e),
       ea_session_id = Some (env_logical_session_id e), ea_created_at_ms = env_created_at_ms e,
       ea_expires_at_ms = env_expires_at_ms e, ea_nonce = env_nonce e, ea_kind = Some (kind_text (env_kind e)),
       ea_channel_instance_id = env_channel_instance_id e, ea_account_id = env_account_id e, ea_peer_id = env_peer_id e,
       ea_logical_session_id = Some (env_logical_session_id e), ea_core_session_id = Some (env_core_session_id e),
       ea_turn_id = Some (env_turn_id e), ea_environment_id = env_environment_id e,
       ea_available_decisions = map decision_text (env_available_decisions e),
       ea_policy_fingerprint = Some (env_policy_fingerprint e), ea_questions = None\<rparr>)"

text \<open>\<open>Vec::insert\<close> at positions that exist.\<close>

definition available_decisions :: "approval_client_capabilities \<Rightarrow> channel_approval_kind \<Rightarrow> approval_decision_kind list" where
  "available_decisions caps kind =
     (let ds = [ApproveOnce, Deny, AbortDecision];
          ds = (if supports_session_grants caps then take 1 ds @ ApproveSession # drop 1 ds else ds)
      in if supports_persisted_rules caps \<and> has_amendment kind then take 2 ds @ AllowRule # drop 2 ds else ds)"

definition approval_kind_of :: "channel_approval_kind \<Rightarrow> approval_kind" where
  "approval_kind_of kind = (case kind of ExecChannel _ \<Rightarrow> ExecApprovalKind | PatchChannel \<Rightarrow> PatchApprovalKind)"

definition request_summary :: "(rstring \<Rightarrow> rstring) \<Rightarrow> approval_kind \<Rightarrow> approval_request_metadata \<Rightarrow> rstring" where
  "request_summary redact kind metadata =
     (case (kind, md_command metadata) of
        (ExecApprovalKind, Some command) \<Rightarrow> redacted_command_summary redact command
      | _ \<Rightarrow> truncate_utf8 (redact (md_summary metadata)) 512)"

text \<open>What the process supplies: a fresh identifier, a fresh nonce, the wall clock and the monotonic clock.\<close>

record issue =
  is_uuid :: rstring
  is_nonce :: rstring
  is_unix_ms :: nat
  is_instant :: nat

definition DEFAULT_APPROVAL_TTL :: nat where
  "DEFAULT_APPROVAL_TTL = 180000"

definition register_with_ttl ::
    "(rstring \<Rightarrow> rstring) \<Rightarrow> issue \<Rightarrow> rstring \<Rightarrow> rstring \<Rightarrow> channel_approval_scope \<Rightarrow> channel_approval_kind \<Rightarrow>
     approval_client_capabilities \<Rightarrow> approval_request_metadata \<Rightarrow> nat \<Rightarrow> pending_channel_approval" where
  "register_with_ttl redact io core_approval_id core_session_id scope kind caps metadata ttl =
     (let envelope =
        \<lparr>env_id = is_uuid io, env_nonce = is_nonce io, env_kind = approval_kind_of kind, env_agent_id = md_agent_id metadata,
         env_channel_instance_id = sc_channel_config_id scope, env_account_id = sc_account_id scope,
         env_peer_id = Some (sc_peer_id scope), env_logical_session_id = sc_logical_session_id scope,
         env_core_session_id = core_session_id, env_turn_id = core_approval_id, env_environment_id = None,
         env_cwd = md_cwd metadata, env_redacted_summary = request_summary redact (approval_kind_of kind) metadata,
         env_reason = map_option (\<lambda>r. truncate_utf8 (redact r) 512) (md_reason metadata),
         env_available_decisions = available_decisions caps kind, env_policy_fingerprint = md_policy_fingerprint metadata,
         env_created_at_ms = is_unix_ms io, env_expires_at_ms = sat_add (is_unix_ms io) ttl\<rparr>
      in \<lparr>pa_envelope = envelope, pa_request_id = is_uuid io, pa_core_approval_id = core_approval_id,
          pa_core_session_id = core_session_id, pa_scope = scope, pa_kind = kind, pa_capabilities = caps,
          pa_expires_at = is_instant io + ttl\<rparr>)"

section \<open>The registry\<close>

type_synonym active = "(rstring \<times> pending_channel_approval) list"

text \<open>The registry and the durable file.\<close>

type_synonym registry = "active \<times> store_file"

definition register_approval ::
    "(rstring \<Rightarrow> rstring) \<Rightarrow> writer \<Rightarrow> issue \<Rightarrow> rstring \<Rightarrow> rstring \<Rightarrow> channel_approval_scope \<Rightarrow> channel_approval_kind \<Rightarrow>
     approval_client_capabilities \<Rightarrow> approval_request_metadata \<Rightarrow> registry \<Rightarrow>
     (rstring, pending_channel_approval) result \<times> registry" where
  "register_approval redact wr io core_approval_id core_session_id scope kind caps metadata = (\<lambda>(active, file).
     let pending = register_with_ttl redact io core_approval_id core_session_id scope kind caps metadata DEFAULT_APPROVAL_TTL
     in case persist_pending_approval wr (as_persisted_request pending) file of
          (Inl e, file) \<Rightarrow> (Err e, active, file)
        | (Inr _, file) \<Rightarrow> (Ok pending, AList.update (pa_request_id pending) pending active, file))"

definition persist_terminal ::
    "bool \<Rightarrow> writer \<Rightarrow> pending_channel_approval \<Rightarrow> bool \<Rightarrow> rstring \<Rightarrow> rstring \<Rightarrow> store_file \<Rightarrow> store_file" where
  "persist_terminal enabled wr pending approved resolved_by reason file =
     (if \<not> enabled then file
      else snd (persist_resolved_approval wr
             \<lparr>er_id = pa_request_id pending, er_approved = approved, er_resolved_by = Some resolved_by,
              er_reason = Some reason, er_nonce = env_nonce (pa_envelope pending)\<rparr> file))"

definition remove_approval :: "bool \<Rightarrow> writer \<Rightarrow> rstring \<Rightarrow> registry \<Rightarrow> registry" where
  "remove_approval enabled wr request_id = (\<lambda>(active, file).
     case map_of active request_id of
       None \<Rightarrow> (active, file)
     | Some pending \<Rightarrow>
         (AList.delete request_id active,
          persist_terminal enabled wr pending False (lit ''gateway'') (lit ''approval request superseded or canceled'') file))"

definition is_pending :: "rstring \<Rightarrow> registry \<Rightarrow> bool" where
  "is_pending request_id st \<longleftrightarrow> map_of (fst st) request_id \<noteq> None"

text \<open>The loop that \<^verbatim>\<open>remove_for_core_session\<close> and \<^verbatim>\<open>prune_expired\<close> share: the matching entries leave the registry,
  then each is settled in the file.\<close>

definition drop_matching ::
    "bool \<Rightarrow> writer \<Rightarrow> (pending_channel_approval \<Rightarrow> bool) \<Rightarrow> rstring \<Rightarrow> registry \<Rightarrow> registry" where
  "drop_matching enabled wr gone reason = (\<lambda>(active, file).
     (filter (\<lambda>(_, p). \<not> gone p) active,
      fold (\<lambda>(_, p). persist_terminal enabled wr p False (lit ''gateway'') reason) (filter (\<lambda>(_, p). gone p) active) file))"

definition remove_for_core_session :: "bool \<Rightarrow> writer \<Rightarrow> rstring \<Rightarrow> registry \<Rightarrow> registry" where
  "remove_for_core_session enabled wr core_session_id =
     drop_matching enabled wr (\<lambda>p. pa_core_session_id p = core_session_id)
       (lit ''Core session closed before approval resolution'')"

definition prune_expired :: "bool \<Rightarrow> writer \<Rightarrow> nat \<Rightarrow> registry \<Rightarrow> registry" where
  "prune_expired enabled wr now = drop_matching enabled wr (\<lambda>p. pa_expires_at p \<le> now) (lit ''approval request expired'')"

definition restore_approval :: "nat \<Rightarrow> pending_channel_approval \<Rightarrow> active \<Rightarrow> active" where
  "restore_approval now pending active =
     (if now < pa_expires_at pending then AList.update (pa_request_id pending) pending active else active)"

section \<open>Taking a request out\<close>

datatype reply_action = ActApproveOnce | ActApproveSession | ActAllowRule | ActDeny | ActAbort

record parsed_approval_reply =
  pr_action :: reply_action
  pr_request_id :: "rstring option"

datatype channel_reply_outcome = ReplyResolved rstring rstring | NoMatch | Ambiguous | ReplyUnsupported

datatype authenticated_outcome = AuthResolved rstring | NotCoordinated | AuthNonceMismatch | AuthUnsupported

definition supported :: "reply_action \<Rightarrow> pending_channel_approval \<Rightarrow> bool" where
  "supported action p =
     (case action of ActApproveSession \<Rightarrow> supports_session_grant p | ActAllowRule \<Rightarrow> supports_persisted_rule p | _ \<Rightarrow> True)"

definition select_request ::
    "channel_approval_scope \<Rightarrow> rstring option \<Rightarrow> active \<Rightarrow> (channel_reply_outcome, rstring) result" where
  "select_request scope requested active =
     (case requested of
        Some request_id \<Rightarrow>
          (case map_of active request_id of
             None \<Rightarrow> Err NoMatch
           | Some request \<Rightarrow> if pa_scope request \<noteq> scope then Err NoMatch else Ok request_id)
      | None \<Rightarrow>
          (case map pa_request_id (filter (\<lambda>p. pa_scope p = scope) (map snd active)) of
             [] \<Rightarrow> Err NoMatch
           | [request_id] \<Rightarrow> Ok request_id
           | _ \<Rightarrow> Err Ambiguous))"

text \<open>The second look-up cannot fail: lemma \<open>select_present\<close>.  Its failure would be a panic, \<open>None\<close> here.\<close>

definition take_for_reply ::
    "bool \<Rightarrow> writer \<Rightarrow> nat \<Rightarrow> channel_approval_scope \<Rightarrow> parsed_approval_reply \<Rightarrow> registry \<Rightarrow>
     ((channel_reply_outcome, pending_channel_approval) result \<times> registry) option" where
  "take_for_reply enabled wr now scope parsed st =
     (let (active, file) = prune_expired enabled wr now st in
      case select_request scope (pr_request_id parsed) active of
        Inl outcome \<Rightarrow> Some (Err outcome, active, file)
      | Inr request_id \<Rightarrow>
          (case map_of active request_id of
             None \<Rightarrow> None
           | Some request \<Rightarrow>
               if \<not> supported (pr_action parsed) request then Some (Err ReplyUnsupported, active, file)
               else Some (Ok request, AList.delete request_id active, file)))"

definition take_authenticated ::
    "bool \<Rightarrow> writer \<Rightarrow> nat \<Rightarrow> rstring \<Rightarrow> rstring \<Rightarrow> reply_action \<Rightarrow> registry \<Rightarrow>
     (authenticated_outcome, pending_channel_approval) result \<times> registry" where
  "take_authenticated enabled wr now request_id nonce action st =
     (let (active, file) = prune_expired enabled wr now st in
      case map_of active request_id of
        None \<Rightarrow> (Err NotCoordinated, active, file)
      | Some request \<Rightarrow>
          if env_nonce (pa_envelope request) \<noteq> nonce then (Err AuthNonceMismatch, active, file)
          else if \<not> supported action request then (Err AuthUnsupported, active, file)
          else (Ok request, AList.delete request_id active, file))"

section \<open>Answers\<close>

definition command_request_id :: "rstring \<Rightarrow> rstring \<Rightarrow> rstring option" where
  "command_request_id txt command =
     (case split_once (lit '':'') txt of
        None \<Rightarrow> None
      | Some (head, tail) \<Rightarrow>
          if \<not> eq_ignore_ascii_case head command then None
          else if trim tail = [] then None else Some (trim tail))"

definition reply_commands :: "(rstring \<times> reply_action) list" where
  "reply_commands =
     [(lit ''approve'', ActApproveOnce), (lit ''approve-once'', ActApproveOnce), (lit ''approve-session'', ActApproveSession),
      (lit ''allow-rule'', ActAllowRule), (lit ''deny'', ActDeny), (lit ''abort'', ActAbort)]"

definition parse_reply :: "rstring \<Rightarrow> parsed_approval_reply option" where
  "parse_reply txt =
     (let txt = trim txt in
      if txt = lit ''+'' then Some \<lparr>pr_action = ActApproveOnce, pr_request_id = None\<rparr>
      else if txt = lit ''-'' then Some \<lparr>pr_action = ActDeny, pr_request_id = None\<rparr>
      else find_map (\<lambda>(command, action).
             map_option (\<lambda>request_id. \<lparr>pr_action = action, pr_request_id = Some request_id\<rparr>) (command_request_id txt command))
             reply_commands)"

definition looks_like_channel_approval_reply :: "rstring \<Rightarrow> bool" where
  "looks_like_channel_approval_reply txt \<longleftrightarrow> parse_reply txt \<noteq> None"

definition review_decision_of :: "pending_channel_approval \<Rightarrow> reply_action \<Rightarrow> review_decision option" where
  "review_decision_of p action =
     (case action of
        ActApproveOnce \<Rightarrow> Some Approved
      | ActApproveSession \<Rightarrow> Some ApprovedForSession
      | ActAllowRule \<Rightarrow>
          (case pa_kind p of ExecChannel (Some am) \<Rightarrow> Some (ApprovedExecpolicyAmendment am) | _ \<Rightarrow> None)
      | ActDeny \<Rightarrow> Some Denied
      | ActAbort \<Rightarrow> Some Abort)"

definition named_action :: "rstring \<Rightarrow> reply_action option" where
  "named_action decision =
     (let d = to_ascii_lowercase (trim decision) in
      if d = lit ''approve'' \<or> d = lit ''approved'' \<or> d = lit ''approve-once'' then Some ActApproveOnce
      else if d = lit ''approve-session'' then Some ActApproveSession
      else if d = lit ''allow-rule'' then Some ActAllowRule
      else if d = lit ''deny'' \<or> d = lit ''denied'' then Some ActDeny
      else if d = lit ''abort'' then Some ActAbort
      else None)"

fun to_opaque_string :: "review_decision \<Rightarrow> rstring" where
  "to_opaque_string Approved = lit ''approved''"
| "to_opaque_string (ApprovedExecpolicyAmendment _) = lit ''approved_with_amendment''"
| "to_opaque_string ApprovedForSession = lit ''approved_for_session''"
| "to_opaque_string Denied = lit ''denied''"
| "to_opaque_string Abort = lit ''abort''"

fun is_approval :: "review_decision \<Rightarrow> bool" where
  "is_approval Approved = True"
| "is_approval ApprovedForSession = True"
| "is_approval (ApprovedExecpolicyAmendment _) = True"
| "is_approval Denied = False"
| "is_approval Abort = False"

text \<open>The operation handed to the session, and what comes of it.\<close>

datatype approval_op = ExecApprovalOp rstring review_decision | PatchApprovalOp rstring review_decision

definition approval_op_of :: "pending_channel_approval \<Rightarrow> review_decision \<Rightarrow> approval_op" where
  "approval_op_of p decision =
     (case pa_kind p of
        ExecChannel _ \<Rightarrow> ExecApprovalOp (pa_core_approval_id p) decision
      | PatchChannel \<Rightarrow> PatchApprovalOp (pa_core_approval_id p) decision)"

datatype submit_result = SessionMissing rstring | SubmitFailed rstring | Submitted

section \<open>Handling an answer\<close>

text \<open>The first part of the two resolvers: \<open>Inl\<close> is an outcome that needs no delivery, \<open>Inr\<close> a request that was taken and
  the decision for it.  The outer option is a panic.\<close>

definition begin_reply ::
    "bool \<Rightarrow> writer \<Rightarrow> nat \<Rightarrow> nat \<Rightarrow> channel_approval_scope \<Rightarrow> rstring \<Rightarrow> registry \<Rightarrow>
     ((channel_reply_outcome, pending_channel_approval \<times> review_decision) result \<times> registry) option" where
  "begin_reply enabled wr now later scope txt st =
     (case parse_reply txt of
        None \<Rightarrow> Some (Err NoMatch, st)
      | Some parsed \<Rightarrow>
          (case take_for_reply enabled wr now scope parsed st of
             None \<Rightarrow> None
           | Some (Inl outcome, st) \<Rightarrow> Some (Err outcome, st)
           | Some (Inr pending, active, file) \<Rightarrow>
               (case review_decision_of pending (pr_action parsed) of
                  None \<Rightarrow> Some (Err ReplyUnsupported, restore_approval later pending active, file)
                | Some decision \<Rightarrow> Some (Ok (pending, decision), active, file))))"

definition finish_reply ::
    "writer \<Rightarrow> nat \<Rightarrow> pending_channel_approval \<Rightarrow> review_decision \<Rightarrow> submit_result \<Rightarrow> registry \<Rightarrow>
     (rstring, channel_reply_outcome) result \<times> registry" where
  "finish_reply wr later pending decision submitted = (\<lambda>(active, file).
     case submitted of
       SessionMissing e \<Rightarrow>
         (Err (lit ''approval target Core session is unavailable: '' @ e), restore_approval later pending active, file)
     | SubmitFailed e \<Rightarrow> (Err (lit ''failed to submit correlated approval: '' @ e), restore_approval later pending active, file)
     | Submitted \<Rightarrow>
         (Ok (ReplyResolved (pa_request_id pending) (to_opaque_string decision)), active,
          snd (persist_resolved_approval wr
            \<lparr>er_id = pa_request_id pending, er_approved = is_approval decision,
             er_resolved_by = Some (lit ''channel-peer:'' @ sc_peer_id (pa_scope pending)),
             er_reason = Some (to_opaque_string decision), er_nonce = env_nonce (pa_envelope pending)\<rparr> file)))"

definition resolve_channel_approval_reply ::
    "bool \<Rightarrow> writer \<Rightarrow> (rstring \<Rightarrow> approval_op \<Rightarrow> submit_result) \<Rightarrow> nat \<Rightarrow> nat \<Rightarrow> channel_approval_scope \<Rightarrow> rstring \<Rightarrow>
     registry \<Rightarrow> ((rstring, channel_reply_outcome) result \<times> registry) option" where
  "resolve_channel_approval_reply enabled wr core now later scope txt st =
     (case begin_reply enabled wr now later scope txt st of
        None \<Rightarrow> None
      | Some (Inl outcome, st) \<Rightarrow> Some (Ok outcome, st)
      | Some (Inr (pending, decision), st) \<Rightarrow>
          Some (finish_reply wr later pending decision
            (core (pa_core_session_id pending) (approval_op_of pending decision)) st))"

definition begin_authenticated ::
    "bool \<Rightarrow> writer \<Rightarrow> nat \<Rightarrow> nat \<Rightarrow> rstring \<Rightarrow> rstring \<Rightarrow> rstring \<Rightarrow> registry \<Rightarrow>
     (authenticated_outcome, pending_channel_approval \<times> review_decision) result \<times> registry" where
  "begin_authenticated enabled wr now later request_id nonce decision st =
     (case named_action decision of
        None \<Rightarrow> (Err AuthUnsupported, st)
      | Some action \<Rightarrow>
          (case take_authenticated enabled wr now request_id nonce action st of
             (Inl outcome, st) \<Rightarrow> (Err outcome, st)
           | (Inr pending, active, file) \<Rightarrow>
               (case review_decision_of pending action of
                  None \<Rightarrow> (Err AuthUnsupported, restore_approval later pending active, file)
                | Some decision \<Rightarrow> (Ok (pending, decision), active, file))))"

definition finish_authenticated ::
    "(rstring \<Rightarrow> rstring) \<Rightarrow> writer \<Rightarrow> nat \<Rightarrow> rstring option \<Rightarrow> rstring option \<Rightarrow> pending_channel_approval \<Rightarrow>
     review_decision \<Rightarrow> submit_result \<Rightarrow> registry \<Rightarrow> (rstring, authenticated_outcome) result \<times> registry" where
  "finish_authenticated redact wr later resolved_by reason pending decision submitted = (\<lambda>(active, file).
     case submitted of
       SessionMissing e \<Rightarrow>
         (Err (lit ''approval target Core session is unavailable: '' @ e), restore_approval later pending active, file)
     | SubmitFailed e \<Rightarrow>
         (Err (lit ''failed to submit authenticated approval: '' @ e), restore_approval later pending active, file)
     | Submitted \<Rightarrow>
         (Ok (AuthResolved (to_opaque_string decision)), active,
          snd (persist_resolved_approval wr
            \<lparr>er_id = pa_request_id pending, er_approved = is_approval decision, er_resolved_by = resolved_by,
             er_reason = Some (case reason of Some r \<Rightarrow> redact r | None \<Rightarrow> to_opaque_string decision),
             er_nonce = env_nonce (pa_envelope pending)\<rparr> file)))"

definition resolve_authenticated_approval ::
    "(rstring \<Rightarrow> rstring) \<Rightarrow> bool \<Rightarrow> writer \<Rightarrow> (rstring \<Rightarrow> approval_op \<Rightarrow> submit_result) \<Rightarrow> nat \<Rightarrow> nat \<Rightarrow> rstring \<Rightarrow> rstring \<Rightarrow>
     rstring \<Rightarrow> rstring option \<Rightarrow> rstring option \<Rightarrow> registry \<Rightarrow> (rstring, authenticated_outcome) result \<times> registry" where
  "resolve_authenticated_approval redact enabled wr core now later request_id nonce decision resolved_by reason st =
     (case begin_authenticated enabled wr now later request_id nonce decision st of
        (Inl outcome, st) \<Rightarrow> (Ok outcome, st)
      | (Inr (pending, rd), st) \<Rightarrow>
          finish_authenticated redact wr later resolved_by reason pending rd
            (core (pa_core_session_id pending) (approval_op_of pending rd)) st)"

section \<open>The resolve endpoint\<close>

text \<open>\<^verbatim>\<open>approval_resolve_handler\<close> after authentication and parsing.  The reply is the outcome the caller sees, the notice is
  the resolution announced to the chats.\<close>

datatype resolve_reply =
    Coordinated rstring
  | DurableOnly bool
  | Refused nat rstring

definition approval_resolve_handler ::
    "(rstring \<Rightarrow> rstring) \<Rightarrow> bool \<Rightarrow> writer \<Rightarrow> (rstring \<Rightarrow> approval_op \<Rightarrow> submit_result) \<Rightarrow> nat \<Rightarrow> nat \<Rightarrow> nat \<Rightarrow>
     rstring \<Rightarrow> rstring option \<Rightarrow> exec_approval_resolution \<Rightarrow> registry \<Rightarrow>
     resolve_reply \<times> exec_approval_resolution option \<times> registry" where
  "approval_resolve_handler redact enabled wr core now later now_ms label requested_decision resolution st =
     (let decision = (case requested_decision of
            Some d \<Rightarrow> d
          | None \<Rightarrow> if er_approved resolution then lit ''approve-once'' else lit ''deny'');
          subject = lit ''token:'' @ label;
          reason = map_option (\<lambda>r. sanitized_approval_text redact r 512) (er_reason resolution);
          canonical = \<lparr>er_id = er_id resolution, er_approved = er_approved resolution, er_resolved_by = Some subject,
                       er_reason = reason, er_nonce = er_nonce resolution\<rparr>
      in case resolve_authenticated_approval redact enabled wr core now later (er_id resolution) (er_nonce resolution)
                decision (Some subject) reason st of
           (Inl e, st) \<Rightarrow> (Refused 500 (lit ''approval delivery failed''), None, st)
         | (Inr (AuthResolved d), st) \<Rightarrow>
             (Coordinated d, Some (canonical\<lparr>er_approved := starts_with (lit ''approved'') d\<rparr>), st)
         | (Inr AuthNonceMismatch, st) \<Rightarrow> (Refused 400 (lit ''nonce mismatch''), None, st)
         | (Inr AuthUnsupported, st) \<Rightarrow> (Refused 400 (lit ''unsupported decision''), None, st)
         | (Inr NotCoordinated, active, file) \<Rightarrow>
             (case find_pending_approval wr now_ms (er_id resolution) file of
                (Inl e, file) \<Rightarrow> (Refused 500 (lit ''approval lookup failed''), None, active, file)
              | (Inr found, file) \<Rightarrow>
                  if (case found of Some r \<Rightarrow> is_coordinator_owned r | None \<Rightarrow> False)
                  then (Refused 409 (lit ''approval coordinator is no longer active; re-issue the request''), None, active, file)
                  else
                    (case persist_resolved_approval wr canonical file of
                       (Inl e, file) \<Rightarrow> (Refused 500 (lit ''persist failed''), None, active, file)
                     | (Inr Resolved, file) \<Rightarrow> (DurableOnly (er_approved resolution), Some canonical, active, file)
                     | (Inr NotPending, file) \<Rightarrow> (Refused 404 (lit ''approval is not pending''), None, active, file)
                     | (Inr NonceMismatch, file) \<Rightarrow>
                         (Refused 400 (lit ''approval nonce missing or invalid''), None, active, file)
                     | (Inr LegacyMissingNonce, file) \<Rightarrow>
                         (Refused 400 (lit ''approval has no server-issued nonce; re-issue the request''), None, active, file))))"

section \<open>The registry over time\<close>

text \<open>Why a request was handed over: the reply came from the conversation the request was shown in, or the caller knew
  its nonce.\<close>

datatype warrant = ByScope channel_approval_scope | ByNonce rstring

definition warranted :: "warrant \<Rightarrow> pending_channel_approval \<Rightarrow> bool" where
  "warranted w p = (case w of ByScope s \<Rightarrow> pa_scope p = s | ByNonce n \<Rightarrow> env_nonce (pa_envelope p) = n)"

text \<open>The decision of the envelope that a decision for the engine corresponds to.\<close>

fun decision_kind_of :: "review_decision \<Rightarrow> approval_decision_kind" where
  "decision_kind_of Approved = ApproveOnce"
| "decision_kind_of ApprovedForSession = ApproveSession"
| "decision_kind_of (ApprovedExecpolicyAmendment _) = AllowRule"
| "decision_kind_of Denied = Deny"
| "decision_kind_of Abort = AbortDecision"

record taken =
  tk_pending :: pending_channel_approval
  tk_decision :: review_decision
  tk_warrant :: warrant

text \<open>The registry, the requests that were taken and are not settled, those that were delivered, and every request
  that was registered.\<close>

record coordination =
  co_active :: active
  co_taken :: "taken list"
  co_delivered :: "taken list"
  co_registered :: "pending_channel_approval list"

text \<open>The second part of the resolver that took the request.\<close>

definition finish_taken ::
    "(rstring \<Rightarrow> rstring) \<Rightarrow> writer \<Rightarrow> nat \<Rightarrow> rstring option \<Rightarrow> rstring option \<Rightarrow> taken \<Rightarrow> submit_result \<Rightarrow> registry \<Rightarrow> registry" where
  "finish_taken redact wr later resolved_by reason t submitted st =
     (case tk_warrant t of
        ByScope _ \<Rightarrow> snd (finish_reply wr later (tk_pending t) (tk_decision t) submitted st)
      | ByNonce _ \<Rightarrow> snd (finish_authenticated redact wr later resolved_by reason (tk_pending t) (tk_decision t) submitted st))"

abbreviation taken_ids :: "taken list \<Rightarrow> rstring list" where
  "taken_ids ts \<equiv> map (\<lambda>t. pa_request_id (tk_pending t)) ts"

text \<open>The steps.  The durable file may be anything before and after every step, since other processes and the durable
  requests change it in between; in the step \<open>deliver\<close> the session of the request
  accepts the decision, in the step \<open>give_back\<close> it is gone or refuses it.\<close>

inductive coord_reach :: "coordination \<Rightarrow> bool" where
  start: "coord_reach \<lparr>co_active = [], co_taken = [], co_delivered = [], co_registered = []\<rparr>"
| register:
    "coord_reach c \<Longrightarrow> is_uuid io \<notin> pa_request_id ` set (co_registered c) \<Longrightarrow>
     register_approval redact wr io cid sid scope kind caps md (co_active c, fl) = (Inr p, active, fl2) \<Longrightarrow>
     coord_reach (c\<lparr>co_active := active, co_registered := p # co_registered c\<rparr>)"
| register_fails:
    "coord_reach c \<Longrightarrow> register_approval redact wr io cid sid scope kind caps md (co_active c, fl) = (Inl e, active, fl2) \<Longrightarrow>
     coord_reach (c\<lparr>co_active := active\<rparr>)"
| remove:
    "coord_reach c \<Longrightarrow> remove_approval enabled wr i (co_active c, fl) = (active, fl2) \<Longrightarrow>
     coord_reach (c\<lparr>co_active := active\<rparr>)"
| close_session:
    "coord_reach c \<Longrightarrow> remove_for_core_session enabled wr sid (co_active c, fl) = (active, fl2) \<Longrightarrow>
     coord_reach (c\<lparr>co_active := active\<rparr>)"
| reply_done:
    "coord_reach c \<Longrightarrow> begin_reply enabled wr now later scope msg (co_active c, fl) = Some (Inl outcome, active, fl2) \<Longrightarrow>
     coord_reach (c\<lparr>co_active := active\<rparr>)"
| reply_taken:
    "coord_reach c \<Longrightarrow> begin_reply enabled wr now later scope msg (co_active c, fl) = Some (Inr (p, d), active, fl2) \<Longrightarrow>
     coord_reach (c\<lparr>co_active := active,
       co_taken := \<lparr>tk_pending = p, tk_decision = d, tk_warrant = ByScope scope\<rparr> # co_taken c\<rparr>)"
| authenticated_done:
    "coord_reach c \<Longrightarrow>
     begin_authenticated enabled wr now later i nonce name (co_active c, fl) = (Inl auth, active, fl2) \<Longrightarrow>
     coord_reach (c\<lparr>co_active := active\<rparr>)"
| authenticated_taken:
    "coord_reach c \<Longrightarrow>
     begin_authenticated enabled wr now later i nonce name (co_active c, fl) = (Inr (p, d), active, fl2) \<Longrightarrow>
     coord_reach (c\<lparr>co_active := active,
       co_taken := \<lparr>tk_pending = p, tk_decision = d, tk_warrant = ByNonce nonce\<rparr> # co_taken c\<rparr>)"
| deliver:
    "coord_reach c \<Longrightarrow> co_taken c = ts @ t # us \<Longrightarrow>
     finish_taken redact wr later answerer reason t Submitted (co_active c, fl) = (active, fl2) \<Longrightarrow>
     coord_reach (c\<lparr>co_active := active, co_taken := ts @ us, co_delivered := t # co_delivered c\<rparr>)"
| give_back:
    "coord_reach c \<Longrightarrow> co_taken c = ts @ t # us \<Longrightarrow> submitted \<noteq> Submitted \<Longrightarrow>
     finish_taken redact wr later answerer reason t submitted (co_active c, fl) = (active, fl2) \<Longrightarrow>
     coord_reach (c\<lparr>co_active := active, co_taken := ts @ us\<rparr>)"

text \<open>The invariant: a request is in the registry, taken or delivered, and in one place only; keys are the requests'
  own identifiers; what was taken or delivered was offered and warranted.\<close>

definition taken_ok :: "pending_channel_approval list \<Rightarrow> taken \<Rightarrow> bool" where
  "taken_ok registered t \<longleftrightarrow> tk_pending t \<in> set registered \<and> warranted (tk_warrant t) (tk_pending t) \<and>
     decision_kind_of (tk_decision t) \<in> set (env_available_decisions (pa_envelope (tk_pending t)))"

definition active_ok :: "pending_channel_approval list \<Rightarrow> active \<Rightarrow> bool" where
  "active_ok registered active \<longleftrightarrow> distinct (map fst active) \<and>
     (\<forall>(i, p) \<in> set active. i = pa_request_id p \<and> p \<in> set registered)"

text \<open>Requests as \<^verbatim>\<open>register_with_ttl\<close> makes them: the decisions on offer are those that will be accepted.\<close>

definition offers_supported :: "pending_channel_approval \<Rightarrow> bool" where
  "offers_supported p \<longleftrightarrow> env_available_decisions (pa_envelope p) = available_decisions (pa_capabilities p) (pa_kind p)"

definition coord_ok :: "coordination \<Rightarrow> bool" where
  "coord_ok c \<longleftrightarrow> active_ok (co_registered c) (co_active c) \<and>
     distinct (taken_ids (co_taken c) @ taken_ids (co_delivered c)) \<and>
     fst ` set (co_active c) \<inter> set (taken_ids (co_taken c) @ taken_ids (co_delivered c)) = {} \<and>
     (\<forall>t \<in> set (co_taken c) \<union> set (co_delivered c). taken_ok (co_registered c) t) \<and>
     (\<forall>p \<in> set (co_registered c). offers_supported p)"

subsection \<open>Preservation\<close>

lemma available_decisions_set:
  "set (available_decisions caps kind) =
     {ApproveOnce, Deny, AbortDecision} \<union> (if supports_session_grants caps then {ApproveSession} else {}) \<union>
     (if supports_persisted_rules caps \<and> has_amendment kind then {AllowRule} else {})"
  by (auto simp: available_decisions_def Let_def)

text \<open>An accepted action leads to a decision, and to one that was on offer; so the resolvers never give a request back for
  want of a decision.\<close>

lemma supported_decides:
  assumes "supported action p"
  shows "\<exists>d. review_decision_of p action = Some d"
  using assms
  by (auto simp: supported_def review_decision_of_def supports_persisted_rule_def has_amendment_def
      split: reply_action.splits channel_approval_kind.splits option.splits)

lemma supported_offered:
  assumes "supported action p" "review_decision_of p action = Some d" "offers_supported p"
  shows "decision_kind_of d \<in> set (env_available_decisions (pa_envelope p))"
  using assms
  by (auto simp: supported_def review_decision_of_def offers_supported_def available_decisions_set supports_session_grant_def
      supports_persisted_rule_def has_amendment_def split: reply_action.splits channel_approval_kind.splits option.splits)

lemma drop_matching_active: "fst (drop_matching enabled wr gone reason st) = filter (\<lambda>(_, p). \<not> gone p) (fst st)"
  by (simp add: drop_matching_def split: prod.splits)

lemma prune_active: "fst (prune_expired enabled wr now st) = filter (\<lambda>(_, p). now < pa_expires_at p) (fst st)"
  by (simp add: prune_expired_def drop_matching_active not_le)

lemma active_ok_lookup:
  assumes "active_ok R a"
  shows "map_of a i = Some p \<longleftrightarrow> (i, p) \<in> set a"
  using assms by (auto simp: active_ok_def dest: map_of_SomeD)

lemma active_ok_filter: "active_ok R a \<Longrightarrow> active_ok R (filter f a)"
  by (auto simp: active_ok_def distinct_map_filter)

lemma active_ok_delete: "active_ok R a \<Longrightarrow> active_ok R (AList.delete i a)"
  unfolding AList.delete_eq by (rule active_ok_filter)

text \<open>The request that a reply selects is in the registry, shown in the conversation of the reply.\<close>

lemma select_present:
  assumes ok: "active_ok R a" and sel: "select_request scope requested a = Inr i"
  obtains p where "map_of a i = Some p" "pa_scope p = scope" "pa_request_id p = i"
proof (cases requested)
  case (Some j)
  then show ?thesis
    using sel that ok active_ok_lookup [OF ok]
    by (auto simp: select_request_def active_ok_def split: option.splits if_splits)
next
  case None
  then obtain ps where "map pa_request_id (filter (\<lambda>p. pa_scope p = scope) (map snd a)) = [i]"
    using sel by (auto simp: select_request_def split: list.splits)
  then have "i \<in> set (map pa_request_id (filter (\<lambda>p. pa_scope p = scope) (map snd a)))"
    by simp
  then obtain j p where "(j, p) \<in> set a" "pa_scope p = scope" "pa_request_id p = i"
    by auto
  then show ?thesis
    using that active_ok_lookup [OF ok] ok by (auto simp: active_ok_def)
qed

lemma take_for_reply_cases:
  assumes ok: "active_ok R (fst st)"
  obtains (refused) outcome st' where "take_for_reply enabled wr now scope parsed st = Some (Inl outcome, st')"
      "fst st' = filter (\<lambda>(_, p). now < pa_expires_at p) (fst st)"
  | (taken) p st' where "take_for_reply enabled wr now scope parsed st = Some (Inr p, st')"
      "(pa_request_id p, p) \<in> set (fst st)" "now < pa_expires_at p" "pa_scope p = scope" "supported (pr_action parsed) p"
      "fst st' = AList.delete (pa_request_id p) (filter (\<lambda>(_, p). now < pa_expires_at p) (fst st))"
proof -
  obtain a f where st: "prune_expired enabled wr now st = (a, f)"
    by fastforce
  then have a: "a = filter (\<lambda>(_, p). now < pa_expires_at p) (fst st)"
    using prune_active [of enabled wr now st] by simp
  then have ok': "active_ok R a"
    using active_ok_filter [OF ok] by simp
  show ?thesis
  proof (cases "select_request scope (pr_request_id parsed) a")
    case (Inl outcome)
    then show ?thesis
      using refused [of outcome "(a, f)"] st a by (simp add: take_for_reply_def)
  next
    case (Inr i)
    then obtain p where p: "map_of a i = Some p" "pa_scope p = scope" "pa_request_id p = i"
      using select_present [OF ok'] by blast
    show ?thesis
    proof (cases "supported (pr_action parsed) p")
      case True
      then show ?thesis
        using taken [of p "(AList.delete i a, f)"] Inr p st a active_ok_lookup [OF ok']
        by (auto simp: take_for_reply_def)
    next
      case False
      then show ?thesis
        using refused [of ReplyUnsupported "(a, f)"] Inr p st a by (simp add: take_for_reply_def)
    qed
  qed
qed

lemma take_authenticated_cases:
  assumes ok: "active_ok R (fst st)"
  obtains (refused) outcome st' where "take_authenticated enabled wr now i nonce action st = (Inl outcome, st')"
      "fst st' = filter (\<lambda>(_, p). now < pa_expires_at p) (fst st)"
  | (taken) p st' where "take_authenticated enabled wr now i nonce action st = (Inr p, st')"
      "(pa_request_id p, p) \<in> set (fst st)" "pa_request_id p = i" "env_nonce (pa_envelope p) = nonce" "supported action p"
      "fst st' = AList.delete (pa_request_id p) (filter (\<lambda>(_, p). now < pa_expires_at p) (fst st))"
proof -
  obtain a f where st: "prune_expired enabled wr now st = (a, f)"
    by fastforce
  then have a: "a = filter (\<lambda>(_, p). now < pa_expires_at p) (fst st)"
    using prune_active [of enabled wr now st] by simp
  then have ok': "active_ok R a"
    using active_ok_filter [OF ok] by simp
  show ?thesis
  proof (cases "map_of a i")
    case None
    then show ?thesis
      using refused [of NotCoordinated "(a, f)"] st a by (simp add: take_authenticated_def)
  next
    case (Some p)
    then have p: "(i, p) \<in> set (fst st)" "pa_request_id p = i"
      using active_ok_lookup [OF ok'] ok' a by (auto simp: active_ok_def)
    consider "env_nonce (pa_envelope p) \<noteq> nonce" | "env_nonce (pa_envelope p) = nonce" "\<not> supported action p"
      | "env_nonce (pa_envelope p) = nonce" "supported action p"
      by blast
    then show ?thesis
    proof cases
      case 1
      then show ?thesis
        using refused [of AuthNonceMismatch "(a, f)"] Some st a by (simp add: take_authenticated_def)
    next
      case 2
      then show ?thesis
        using refused [of AuthUnsupported "(a, f)"] Some st a by (simp add: take_authenticated_def)
    next
      case 3
      then show ?thesis
        using taken [of p "(AList.delete i a, f)"] Some st a p by (simp add: take_authenticated_def)
    qed
  qed
qed

text \<open>The first part of a resolver takes a request that was offered in that way, or takes none and at most forgets expired
  ones.  It never panics.\<close>

lemma begin_reply_cases:
  assumes ok: "active_ok R (fst st)"
  obtains (idle) outcome st' where "begin_reply enabled wr now later scope msg st = Some (Inl outcome, st')"
      "\<exists>f. fst st' = filter f (fst st)"
  | (takes) p d st' action where "begin_reply enabled wr now later scope msg st = Some (Inr (p, d), st')"
      "(pa_request_id p, p) \<in> set (fst st)" "pa_scope p = scope" "supported action p" "review_decision_of p action = Some d"
      "\<exists>f. fst st' = AList.delete (pa_request_id p) (filter f (fst st))"
proof (cases "parse_reply msg")
  case None
  then show ?thesis
    using idle [of NoMatch st, OF _ exI [of _ "\<lambda>_. True"]] by (simp add: begin_reply_def)
next
  case (Some parsed)
  show ?thesis
    using ok
  proof (cases rule: take_for_reply_cases [of R st enabled wr now scope parsed])
    case (refused outcome st')
    then show ?thesis
      using idle [of outcome st'] Some by (auto simp: begin_reply_def)
  next
    case (taken p st')
    moreover obtain d where "review_decision_of p (pr_action parsed) = Some d"
      using supported_decides [OF taken(5)] by blast
    ultimately show ?thesis
      using takes [of p d st' "pr_action parsed"] Some by (cases st') (auto simp: begin_reply_def)
  qed
qed

lemma begin_authenticated_cases:
  assumes ok: "active_ok R (fst st)"
  obtains (idle) outcome st' where "begin_authenticated enabled wr now later i nonce name st = (Inl outcome, st')"
      "\<exists>f. fst st' = filter f (fst st)"
  | (takes) p d st' action where "begin_authenticated enabled wr now later i nonce name st = (Inr (p, d), st')"
      "(pa_request_id p, p) \<in> set (fst st)" "env_nonce (pa_envelope p) = nonce" "supported action p"
      "review_decision_of p action = Some d" "\<exists>f. fst st' = AList.delete (pa_request_id p) (filter f (fst st))"
proof (cases "named_action name")
  case None
  then show ?thesis
    using idle [of AuthUnsupported st, OF _ exI [of _ "\<lambda>_. True"]] by (simp add: begin_authenticated_def)
next
  case (Some action)
  show ?thesis
    using ok
  proof (cases rule: take_authenticated_cases [of R st enabled wr now i nonce action])
    case (refused outcome st')
    then show ?thesis
      using idle [of outcome st'] Some by (auto simp: begin_authenticated_def)
  next
    case (taken p st')
    moreover obtain d where "review_decision_of p action = Some d"
      using supported_decides [OF taken(5)] by blast
    ultimately show ?thesis
      using takes [of p d st' action] Some by (cases st') (auto simp: begin_authenticated_def)
  qed
qed

lemma coord_ok_fewer:
  assumes "coord_ok c"
  shows "coord_ok (c\<lparr>co_active := filter f (co_active c)\<rparr>)"
  using assms active_ok_filter unfolding coord_ok_def by fastforce

lemma coord_ok_take:
  assumes ok: "coord_ok c" and p: "(pa_request_id p, p) \<in> set (co_active c)"
    and active: "\<exists>f. active = AList.delete (pa_request_id p) (filter f (co_active c))"
    and t: "tk_pending t = p" "warranted (tk_warrant t) p" "supported action p" "review_decision_of p action = Some (tk_decision t)"
  shows "coord_ok (c\<lparr>co_active := active, co_taken := t # co_taken c\<rparr>)"
proof -
  have reg: "p \<in> set (co_registered c)"
    using ok p by (auto simp: coord_ok_def active_ok_def)
  then have "taken_ok (co_registered c) t"
    using ok t supported_offered by (auto simp: taken_ok_def coord_ok_def)
  moreover have "active_ok (co_registered c) active"
    using active ok active_ok_filter active_ok_delete by (auto simp: coord_ok_def)
  moreover have "fst ` set active \<subseteq> fst ` set (co_active c) - {pa_request_id p}"
    using active by (auto simp: AList.delete_eq)
  moreover have "pa_request_id p \<in> fst ` set (co_active c)"
    using p by force
  moreover have "fst ` set (co_active c) \<inter> set (taken_ids (co_taken c) @ taken_ids (co_delivered c)) = {}"
    using ok by (simp add: coord_ok_def)
  ultimately have "fst ` set active \<inter> set (taken_ids (t # co_taken c) @ taken_ids (co_delivered c)) = {}"
    "pa_request_id p \<notin> set (taken_ids (co_taken c) @ taken_ids (co_delivered c))"
    "taken_ok (co_registered c) t" "active_ok (co_registered c) active"
    using t(1) by (simp, blast)+
  then show ?thesis
    using ok t(1) unfolding coord_ok_def by simp
qed

lemma register_makes:
  assumes "register_approval redact wr io cid sid scope kind caps md (a, f) = (Inr p, a', f')"
  shows "pa_request_id p = is_uuid io" "offers_supported p" "a' = AList.update (is_uuid io) p a"
  using assms
  by (auto simp: register_approval_def register_with_ttl_def offers_supported_def Let_def split: prod.splits sum.splits)

lemma update_fresh: "k \<notin> fst ` set a \<Longrightarrow> AList.update k v a = a @ [(k, v)]"
  by (induction a) auto

lemma active_ok_update:
  assumes "active_ok R a" "pa_request_id p \<notin> fst ` set a"
  shows "active_ok (p # R) (AList.update (pa_request_id p) p a)" "p \<in> set R \<Longrightarrow> active_ok R (AList.update (pa_request_id p) p a)"
  using assms by (auto simp: active_ok_def update_fresh)

lemma coord_ok_register:
  assumes ok: "coord_ok c" and new: "pa_request_id p \<notin> pa_request_id ` set (co_registered c)" and off: "offers_supported p"
  shows "coord_ok (c\<lparr>co_active := AList.update (pa_request_id p) p (co_active c), co_registered := p # co_registered c\<rparr>)"
proof -
  have ids: "fst ` set (co_active c) \<subseteq> pa_request_id ` set (co_registered c)"
    using ok by (auto simp: coord_ok_def active_ok_def)
  have "set (taken_ids (co_taken c) @ taken_ids (co_delivered c)) \<subseteq> pa_request_id ` set (co_registered c)"
    using ok by (auto simp: coord_ok_def taken_ok_def)
  moreover have "fst ` set (AList.update (pa_request_id p) p (co_active c)) = insert (pa_request_id p) (fst ` set (co_active c))"
    using dom_update [of "pa_request_id p" p "co_active c"] by simp
  ultimately show ?thesis
    using ok new off active_ok_update(1) [of "co_registered c" "co_active c" p] ids
    unfolding coord_ok_def by (auto simp: taken_ok_def)
qed

lemma finish_taken_active:
  "fst (finish_taken redact wr later answerer reason t submitted st) =
     (if submitted = Submitted then fst st else restore_approval later (tk_pending t) (fst st))"
  by (auto simp: finish_taken_def finish_reply_def finish_authenticated_def split: prod.splits warrant.splits submit_result.splits)

lemma coord_ok_give_back:
  assumes ok: "coord_ok c" and ts: "co_taken c = ts @ t # us"
  shows "coord_ok (c\<lparr>co_active := restore_approval later (tk_pending t) (co_active c), co_taken := ts @ us\<rparr>)"
proof -
  let ?p = "tk_pending t"
  have fresh: "pa_request_id ?p \<notin> fst ` set (co_active c)" and reg: "?p \<in> set (co_registered c)"
    using ok ts by (auto simp: coord_ok_def taken_ok_def)
  have "fst ` set (AList.update (pa_request_id ?p) ?p (co_active c)) = insert (pa_request_id ?p) (fst ` set (co_active c))"
    using dom_update [of "pa_request_id ?p" ?p "co_active c"] by simp
  then show ?thesis
    using ok ts fresh reg active_ok_update(2) [of "co_registered c" "co_active c" ?p]
    unfolding coord_ok_def restore_approval_def by auto
qed

lemma remove_active: "fst (remove_approval enabled wr i st) = AList.delete i (fst st)"
  by (auto simp: remove_approval_def delete_notin_dom domIff map_of_eq_None_iff split: prod.splits option.splits)

lemma close_active: "fst (remove_for_core_session enabled wr sid st) = filter (\<lambda>(_, p). pa_core_session_id p \<noteq> sid) (fst st)"
  by (simp only: remove_for_core_session_def drop_matching_active)

lemma begin_reply_idle:
  assumes "coord_ok c" "begin_reply enabled wr now later scope msg (co_active c, fl) = Some (Inl outcome, active, fl2)"
  shows "coord_ok (c\<lparr>co_active := active\<rparr>)"
proof -
  have "active_ok (co_registered c) (fst (co_active c, fl))"
    using assms(1) by (simp add: coord_ok_def)
  then obtain f where "active = filter f (co_active c)"
    by (rule begin_reply_cases [where enabled = enabled and wr = wr and now = now and later = later and scope = scope and msg = msg])
      (use assms(2) in auto)
  then show ?thesis
    using coord_ok_fewer [OF assms(1)] by simp
qed

lemma begin_reply_takes:
  assumes "coord_ok c" "begin_reply enabled wr now later scope msg (co_active c, fl) = Some (Inr (p, d), active, fl2)"
  shows "coord_ok (c\<lparr>co_active := active, co_taken := \<lparr>tk_pending = p, tk_decision = d, tk_warrant = ByScope scope\<rparr> # co_taken c\<rparr>)"
proof -
  have "active_ok (co_registered c) (fst (co_active c, fl))"
    using assms(1) by (simp add: coord_ok_def)
  then obtain action where "(pa_request_id p, p) \<in> set (co_active c)" "warranted (ByScope scope) p" "supported action p"
    "review_decision_of p action = Some d" "\<exists>f. active = AList.delete (pa_request_id p) (filter f (co_active c))"
    by (rule begin_reply_cases [where enabled = enabled and wr = wr and now = now and later = later and scope = scope and msg = msg])
      (use assms(2) in \<open>auto simp: warranted_def\<close>)
  then show ?thesis
    using coord_ok_take [OF assms(1)] by simp
qed

lemma begin_authenticated_idle:
  assumes "coord_ok c" "begin_authenticated enabled wr now later i nonce name (co_active c, fl) = (Inl outcome, active, fl2)"
  shows "coord_ok (c\<lparr>co_active := active\<rparr>)"
proof -
  have "active_ok (co_registered c) (fst (co_active c, fl))"
    using assms(1) by (simp add: coord_ok_def)
  then obtain f where "active = filter f (co_active c)"
    by (rule begin_authenticated_cases [where enabled = enabled and wr = wr and now = now and later = later and i = i
          and nonce = nonce and name = name]) (use assms(2) in auto)
  then show ?thesis
    using coord_ok_fewer [OF assms(1)] by simp
qed

lemma begin_authenticated_takes:
  assumes "coord_ok c" "begin_authenticated enabled wr now later i nonce name (co_active c, fl) = (Inr (p, d), active, fl2)"
  shows "coord_ok (c\<lparr>co_active := active, co_taken := \<lparr>tk_pending = p, tk_decision = d, tk_warrant = ByNonce nonce\<rparr> # co_taken c\<rparr>)"
proof -
  have "active_ok (co_registered c) (fst (co_active c, fl))"
    using assms(1) by (simp add: coord_ok_def)
  then obtain action where "(pa_request_id p, p) \<in> set (co_active c)" "warranted (ByNonce nonce) p" "supported action p"
    "review_decision_of p action = Some d" "\<exists>f. active = AList.delete (pa_request_id p) (filter f (co_active c))"
    by (rule begin_authenticated_cases [where enabled = enabled and wr = wr and now = now and later = later and i = i
          and nonce = nonce and name = name]) (use assms(2) in \<open>auto simp: warranted_def\<close>)
  then show ?thesis
    using coord_ok_take [OF assms(1)] by simp
qed

lemma coord_reach_ok: "coord_reach c \<Longrightarrow> coord_ok c"
proof (induction rule: coord_reach.induct)
  case start
  then show ?case
    by (simp add: coord_ok_def active_ok_def)
next
  case (register c io redact wr cid sid scope kind caps md fl p active fl2)
  then show ?case
    using coord_ok_register [of c p] register_makes [OF register.hyps(3)] by simp
next
  case (register_fails c redact wr io cid sid scope kind caps md fl e active fl2)
  then show ?case
    by (auto simp: register_approval_def Let_def split: prod.splits sum.splits)
next
  case (remove c enabled wr i fl active fl2)
  then show ?case
    using coord_ok_fewer remove_active [of enabled wr i "(co_active c, fl)"] by (simp add: AList.delete_eq)
next
  case (close_session c enabled wr sid fl active fl2)
  then show ?case
    using coord_ok_fewer close_active [of enabled wr sid "(co_active c, fl)"] by simp
next
  case (reply_done c enabled wr now later scope msg fl outcome active fl2)
  then show ?case
    using begin_reply_idle by blast
next
  case (reply_taken c enabled wr now later scope msg fl p d active fl2)
  then show ?case
    using begin_reply_takes by blast
next
  case (authenticated_done c enabled wr now later i nonce name fl auth active fl2)
  then show ?case
    using begin_authenticated_idle by blast
next
  case (authenticated_taken c enabled wr now later i nonce name fl p d active fl2)
  then show ?case
    using begin_authenticated_takes by blast
next
  case (deliver c ts t us redact wr later answerer reason fl active fl2)
  then have "active = co_active c"
    using finish_taken_active [of redact wr later answerer reason t Submitted "(co_active c, fl)"] by simp
  then show ?case
    using deliver by (auto simp: coord_ok_def)
next
  case (give_back c ts t us submitted redact wr later answerer reason fl active fl2)
  then have "active = restore_approval later (tk_pending t) (co_active c)"
    using finish_taken_active [of redact wr later answerer reason t submitted "(co_active c, fl)"] by simp
  then show ?case
    using coord_ok_give_back give_back by simp
qed

text \<open>
  C13. However answers from conversations and authenticated callers, expiry, cancellation, closing sessions and failed
  deliveries interleave: the engine receives at most one decision for a request; the request was registered; the
  decision is one of those offered with it; and it came from the conversation the request was shown in or from a
  caller with its nonce.  No request is waiting and delivered at the same time.
\<close>
theorem decisions_reach_core_once:
  assumes "coord_reach c"
  shows "distinct (taken_ids (co_delivered c)) \<and>
    fst ` set (co_active c) \<inter> set (taken_ids (co_delivered c)) = {} \<and>
    (\<forall>t \<in> set (co_delivered c). tk_pending t \<in> set (co_registered c) \<and> warranted (tk_warrant t) (tk_pending t) \<and>
       decision_kind_of (tk_decision t) \<in> set (env_available_decisions (pa_envelope (tk_pending t))))"
  using coord_reach_ok [OF assms] by (auto simp: coord_ok_def taken_ok_def)

definition sample_scope :: channel_approval_scope where
  "sample_scope = \<lparr>sc_channel = [2], sc_channel_config_id = None, sc_account_id = None, sc_peer_id = [3], sc_logical_session_id = [4]\<rparr>"

definition sample_metadata :: approval_request_metadata where
  "sample_metadata = \<lparr>md_agent_id = [5], md_policy_fingerprint = [6], md_cwd = [7], md_summary = [8], md_command = None,
     md_reason = None\<rparr>"

definition sample_issue :: issue where
  "sample_issue = \<lparr>is_uuid = [65], is_nonce = [66], is_unix_ms = 4, is_instant = 9\<rparr>"

definition sample_pending :: pending_channel_approval where
  "sample_pending = register_with_ttl (\<lambda>s. s) sample_issue [70] [71] sample_scope PatchChannel (caps_of True) sample_metadata
     DEFAULT_APPROVAL_TTL"

definition delivered_state :: coordination where
  "delivered_state = \<lparr>co_active = [], co_taken = [],
     co_delivered = [\<lparr>tk_pending = sample_pending, tk_decision = Approved, tk_warrant = ByScope sample_scope\<rparr>],
     co_registered = [sample_pending]\<rparr>"

lemma sample_registers:
  "register_approval (\<lambda>s. s) (\<lambda>_. None) sample_issue [70] [71] sample_scope PatchChannel (caps_of True) sample_metadata ([], NoFile) =
     (Inr sample_pending, [([65], sample_pending)], snd (persist_pending_approval (\<lambda>_. None) (as_persisted_request sample_pending) NoFile))"
  by (simp add: register_approval_def sample_pending_def register_with_ttl_def sample_issue_def persist_pending_approval_def
      save_store_def Let_def)

lemma sample_pending_fields [simp]:
  "pa_request_id sample_pending = [65]" "pa_scope sample_pending = sample_scope" "pa_expires_at sample_pending = 180009"
  by (simp_all add: sample_pending_def register_with_ttl_def sample_issue_def DEFAULT_APPROVAL_TTL_def Let_def)

lemma parse_plus: "parse_reply (lit ''+'') = Some \<lparr>pr_action = ActApproveOnce, pr_request_id = None\<rparr>"
  by (simp add: parse_reply_def trim_def trim_start_def trim_end_def is_whitespace_def)

lemma sample_begins:
  "begin_reply False (\<lambda>_. None) 10 11 sample_scope (lit ''+'') ([([65], sample_pending)], fl) =
     Some (Inr (sample_pending, Approved), [], fl)"
  by (simp add: begin_reply_def parse_plus take_for_reply_def prune_expired_def drop_matching_def select_request_def
      supported_def review_decision_of_def del: lit_Cons)

lemma sample_waits:
  "coord_reach \<lparr>co_active = [([65], sample_pending)], co_taken = [], co_delivered = [], co_registered = [sample_pending]\<rparr>"
  using register [OF start, of sample_issue "\<lambda>s. s" "\<lambda>_. None" "[70]" "[71]" sample_scope PatchChannel "caps_of True"
      sample_metadata NoFile sample_pending "[([65], sample_pending)]"] sample_registers by simp

lemma delivered_reachable: "coord_reach delivered_state"
proof -
  have two: "coord_reach \<lparr>co_active = [], co_taken = [\<lparr>tk_pending = sample_pending, tk_decision = Approved,
      tk_warrant = ByScope sample_scope\<rparr>], co_delivered = [], co_registered = [sample_pending]\<rparr>"
    using reply_taken [OF sample_waits, of False "\<lambda>_. None" 10 11 sample_scope "lit ''+''" NoFile sample_pending Approved "[]" NoFile]
      sample_begins by (simp del: lit_Cons)
  obtain fl where "finish_taken (\<lambda>s. s) (\<lambda>_. None) 12 None None \<lparr>tk_pending = sample_pending, tk_decision = Approved,
      tk_warrant = ByScope sample_scope\<rparr> Submitted ([], NoFile) = ([], fl)"
    by (simp add: finish_taken_def finish_reply_def)
  then show ?thesis
    using deliver [OF two, of "[]" _ "[]" "\<lambda>s. s" "\<lambda>_. None" 12 None None NoFile "[]" fl] by (simp add: delivered_state_def)
qed

theorem decisions_reach_core_once_witness:
  "sample_pending \<in> set (co_registered delivered_state) \<and> warranted (ByScope sample_scope) sample_pending \<and>
     decision_kind_of Approved \<in> set (env_available_decisions (pa_envelope sample_pending))"
  using decisions_reach_core_once [OF delivered_reachable] by (simp add: delivered_state_def)

section \<open>Every offered decision is accepted\<close>

fun action_of :: "approval_decision_kind \<Rightarrow> reply_action" where
  "action_of ApproveOnce = ActApproveOnce"
| "action_of ApproveSession = ActApproveSession"
| "action_of AllowRule = ActAllowRule"
| "action_of Deny = ActDeny"
| "action_of AbortDecision = ActAbort"

lemma split_once_colon: "58 \<notin> set a \<Longrightarrow> split_once [58] (a @ 58 # b) = Some (a, b)"
  by (induction a) auto

lemma decision_text_plain: "58 \<notin> set (decision_text d)"
  by (cases d) simp_all

lemma reply_is_trimmed:
  assumes "\<not> list_ex is_whitespace i" "i \<noteq> []"
  shows "trim i = i" "trim (decision_text d @ 58 # i) = decision_text d @ 58 # i"
proof -
  have ends: "\<not> is_whitespace (last i)" "\<not> is_whitespace (hd i)"
    using assms by (auto simp: list_ex_iff)
  then show "trim i = i"
    using assms(2) trim_fixpoint by blast
  show "trim (decision_text d @ 58 # i) = decision_text d @ 58 # i"
    using assms(2) ends by (intro trim_fixpoint) (cases d; simp add: is_whitespace_def)+
qed

lemma parse_offered:
  assumes "\<not> list_ex is_whitespace i" "i \<noteq> []"
  shows "parse_reply (decision_text d @ lit '':'' @ i) = Some \<lparr>pr_action = action_of d, pr_request_id = Some i\<rparr>"
proof -
  have "command_request_id (decision_text d @ 58 # i) w = (if eq_ignore_ascii_case (decision_text d) w then Some i else None)" for w
    using assms reply_is_trimmed(1) [OF assms] split_once_colon [OF decision_text_plain, of d i] by (simp add: command_request_id_def)
  moreover have "decision_text d @ 58 # i \<noteq> lit ''+''" "decision_text d @ 58 # i \<noteq> lit ''-''"
    by (cases d; simp)+
  ultimately show ?thesis
    using reply_is_trimmed(2) [OF assms, of d]
    by (cases d) (simp_all add: parse_reply_def Let_def reply_commands_def eq_ignore_ascii_case_def to_ascii_lowercase_def
        to_ascii_lowercase_char_def)
qed

lemma offered_supported:
  assumes "d \<in> set (env_available_decisions (pa_envelope p))" "offers_supported p"
  shows "supported (action_of d) p" "\<exists>rd. review_decision_of p (action_of d) = Some rd \<and> decision_kind_of rd = d"
  using assms
  by (cases d; auto simp: offers_supported_def available_decisions_set supported_def supports_session_grant_def
      supports_persisted_rule_def has_amendment_def review_decision_of_def
      split: if_splits channel_approval_kind.splits option.splits)+

text \<open>
  C39. The buttons work: a decision that is offered with a waiting request, sent back as a reply from the same
  conversation before the request expires, is accepted; when the session takes it, the reply is reported as resolved
  with exactly that decision and the request is no longer waiting.
\<close>
theorem offered_decisions_are_accepted:
  assumes reach: "coord_reach c" and p: "(pa_request_id p, p) \<in> set (co_active c)" and live: "now < pa_expires_at p"
    and d: "d \<in> set (env_available_decisions (pa_envelope p))"
    and i: "\<not> list_ex is_whitespace (pa_request_id p)" "pa_request_id p \<noteq> []"
    and core: "\<And>op. core (pa_core_session_id p) op = Submitted"
  shows "\<exists>rd active fl2. resolve_channel_approval_reply enabled wr core now later (pa_scope p)
      (decision_text d @ lit '':'' @ pa_request_id p) (co_active c, fl) =
      Some (Ok (ReplyResolved (pa_request_id p) (to_opaque_string rd)), active, fl2) \<and>
    decision_kind_of rd = d \<and> map_of active (pa_request_id p) = None"
proof -
  have ok: "coord_ok c"
    using coord_reach_ok [OF reach] .
  have off: "offers_supported p"
    using ok p by (auto simp: coord_ok_def active_ok_def)
  obtain rd where rd: "review_decision_of p (action_of d) = Some rd" "decision_kind_of rd = d"
    using offered_supported(2) [OF d off] by blast
  obtain a fl2 where pr: "prune_expired enabled wr now (co_active c, fl) = (a, fl2)"
    by fastforce
  then have a: "a = filter (\<lambda>(_, p). now < pa_expires_at p) (co_active c)"
    using prune_active [of enabled wr now "(co_active c, fl)"] by simp
  then have "active_ok (co_registered c) a"
    using ok active_ok_filter by (auto simp: coord_ok_def)
  then have look: "map_of a (pa_request_id p) = Some p"
    using active_ok_lookup a p live by auto
  have "begin_reply enabled wr now later (pa_scope p) (decision_text d @ lit '':'' @ pa_request_id p) (co_active c, fl) =
      Some (Inr (p, rd), AList.delete (pa_request_id p) a, fl2)"
    using parse_offered [OF i, of d] pr look rd offered_supported(1) [OF d off]
    by (simp add: begin_reply_def take_for_reply_def select_request_def)
  moreover have "map_of (AList.delete (pa_request_id p) a) (pa_request_id p) = None"
    by (simp add: delete_conv')
  ultimately show ?thesis
    using core rd by (intro exI [of _ rd]) (auto simp: resolve_channel_approval_reply_def finish_reply_def)
qed

theorem offered_decisions_are_accepted_witness:
  "\<exists>rd active fl2. resolve_channel_approval_reply False (\<lambda>_. None) (\<lambda>_ _. Submitted) 10 11 sample_scope
      (decision_text ApproveSession @ lit '':'' @ [65]) ([([65], sample_pending)], NoFile) =
      Some (Ok (ReplyResolved [65] (to_opaque_string rd)), active, fl2) \<and>
    decision_kind_of rd = ApproveSession \<and> map_of active [65] = None"
  using offered_decisions_are_accepted [OF sample_waits, of sample_pending 10 ApproveSession "\<lambda>_ _. Submitted" False "\<lambda>_. None" 11 NoFile]
  by (simp add: is_whitespace_def sample_pending_def register_with_ttl_def available_decisions_def caps_of_def sample_issue_def
      DEFAULT_APPROVAL_TTL_def Let_def del: lit_Cons)

text \<open>A caller of the resolve endpoint that sends \<open>approved\<close> and the decision \<open>deny\<close> for a durable request has it recorded as
  approved: the decision is read for coordinated requests only.\<close>

lemma durable_request_ignores_decision:
  "fst (approval_resolve_handler (\<lambda>s. s) True (\<lambda>_. None) core now later 3 label (Some (lit ''deny'')) sample_answer
      ([], StoreFile \<lparr>as_pending = [sample_entry], as_resolved = []\<rparr>)) = DurableOnly True"
  by (simp add: approval_resolve_handler_def resolve_authenticated_approval_def begin_authenticated_def named_action_def
      trim_def trim_start_def trim_end_def is_whitespace_def to_ascii_lowercase_def to_ascii_lowercase_char_def
      take_authenticated_def prune_expired_def drop_matching_def find_pending_approval_def list_pending_approvals_def
      is_expired_def persist_resolved_approval_def save_store_def is_coordinator_owned_def sample_entry_def sample_answer_def
      Let_def)

text \<open>The endpoint leaves a coordinated request to its coordinator: while the registry has lost it, the durable entry is not
  settled.\<close>

lemma coordinated_entry_kept:
  assumes "approval_resolve_handler redact enabled wr core now later now_ms label decision x ([], fl) = (DurableOnly b, notice, st)"
    and "find_pending_approval wr now_ms (er_id x) fl = (Inr found, fl2)"
  shows "\<forall>r. found = Some r \<longrightarrow> \<not> is_coordinator_owned r"
  using assms
  by (auto simp: approval_resolve_handler_def resolve_authenticated_approval_def begin_authenticated_def
      take_authenticated_def prune_expired_def drop_matching_def Let_def split: option.splits if_splits)

end
