(* ===== verification/Config_Layers.thy ===== *)
theory Config_Layers
  imports Managed_Requirements "HOL-Library.AList"
begin

text \<open>
  \<^verbatim>\<open>config/src/merge.rs\<close>, \<^verbatim>\<open>overrides.rs\<close>, \<^verbatim>\<open>fingerprint.rs\<close> and \<^verbatim>\<open>core/src/config_loader/state.rs\<close>: configuration values, how
  one is laid over another, and the stack of layers from which the effective configuration is computed.

  A table is an association list with different keys (\<open>toml_wf\<close>); the order of its entries stands for the iteration
  order.  The specification of a merge is by paths: what a layer says about a path is a value, nothing, or something that
  hides whatever a lower layer says there.  Absolute paths are lists of their normal components.
\<close>

section \<open>Values\<close>

datatype toml =
    TString rstring
  | TInteger int
  | TFloat rstring
  | TBoolean bool
  | TDatetime rstring
  | TArray "toml list"
  | TTable "(rstring \<times> toml) list"

type_synonym table = "(rstring \<times> toml) list"

fun is_table :: "toml \<Rightarrow> bool" where
  "is_table (TTable _) = True"
| "is_table _ = False"

fun toml_wf :: "toml \<Rightarrow> bool" where
  "toml_wf (TTable tb) \<longleftrightarrow> distinct (map fst tb) \<and> (\<forall>(k, v) \<in> set tb. toml_wf v)"
| "toml_wf (TArray items) \<longleftrightarrow> (\<forall>v \<in> set items. toml_wf v)"
| "toml_wf _ \<longleftrightarrow> True"

section \<open>Merging\<close>

fun merge_toml_values :: "toml \<Rightarrow> toml \<Rightarrow> toml"
  and merge_tables :: "table \<Rightarrow> table \<Rightarrow> table" where
  "merge_toml_values (TTable base) (TTable overlay) = TTable (merge_tables base overlay)"
| "merge_toml_values base overlay = overlay"
| "merge_tables base [] = base"
| "merge_tables base ((key, value) # overlay) =
     merge_tables
       (case map_of base key of
          Some existing \<Rightarrow> AList.update key (merge_toml_values existing value) base
        | None \<Rightarrow> AList.update key value base) overlay"

section \<open>Overrides\<close>

definition default_empty_table :: toml where
  "default_empty_table = TTable []"

fun set_segments :: "rstring list \<Rightarrow> toml \<Rightarrow> toml \<Rightarrow> toml" where
  "set_segments [] value current = current"
| "set_segments [segment] value current =
     (case current of
        TTable table \<Rightarrow> TTable (AList.update segment value table)
      | _ \<Rightarrow> TTable [(segment, value)])"
| "set_segments (segment # following # segs) value current =
     (let table = (case current of TTable table \<Rightarrow> table | _ \<Rightarrow> []);
          entry = (case map_of table segment of Some v \<Rightarrow> v | None \<Rightarrow> TTable [])
      in TTable (AList.update segment (set_segments (following # segs) value entry) table))"

definition apply_toml_override :: "toml \<Rightarrow> rstring \<Rightarrow> toml \<Rightarrow> toml" where
  "apply_toml_override root path value = set_segments (split_on 46 path) value root"

definition build_cli_overrides_layer :: "(rstring \<times> toml) list \<Rightarrow> toml" where
  "build_cli_overrides_layer cli_overrides =
     foldl (\<lambda>root (path, value). apply_toml_override root path value) default_empty_table cli_overrides"

section \<open>Layers\<close>

type_synonym apath = "rstring list"

definition apath_parent :: "apath \<Rightarrow> apath option" where
  "apath_parent p = (if p = [] then None else Some (butlast p))"

text \<open>\<^verbatim>\<open>Path::ancestors\<close>: the path itself first, the root last.\<close>

definition ancestors :: "apath \<Rightarrow> apath list" where
  "ancestors p = rev (prefixes p)"

definition show_apath :: "apath \<Rightarrow> rstring" where
  "show_apath p = (if p = [] then lit ''/'' else concat (map (\<lambda>c. lit ''/'' @ c) p))"

datatype config_layer_source =
    Mdm rstring rstring
  | System apath
  | User apath
  | Project apath
  | SessionFlags

fun layer_precedence :: "config_layer_source \<Rightarrow> int" where
  "layer_precedence (User _) = 0"
| "layer_precedence (Project _) = 10"
| "layer_precedence SessionFlags = 20"
| "layer_precedence (System _) = 30"
| "layer_precedence (Mdm _ _) = 40"

record config_layer_entry =
  ly_name :: config_layer_source
  ly_config :: toml
  ly_version :: rstring
  ly_disabled_reason :: "rstring option"

text \<open>\<open>ver\<close> is \<^verbatim>\<open>version_for_toml\<close>, a hash of the canonical text of the value.\<close>

definition layer_new :: "(toml \<Rightarrow> rstring) \<Rightarrow> config_layer_source \<Rightarrow> toml \<Rightarrow> config_layer_entry" where
  "layer_new ver name config = \<lparr>ly_name = name, ly_config = config, ly_version = ver config, ly_disabled_reason = None\<rparr>"

definition layer_new_disabled :: "(toml \<Rightarrow> rstring) \<Rightarrow> config_layer_source \<Rightarrow> toml \<Rightarrow> rstring \<Rightarrow> config_layer_entry" where
  "layer_new_disabled ver name config reason =
     \<lparr>ly_name = name, ly_config = config, ly_version = ver config, ly_disabled_reason = Some reason\<rparr>"

definition is_disabled :: "config_layer_entry \<Rightarrow> bool" where
  "is_disabled l \<longleftrightarrow> ly_disabled_reason l \<noteq> None"

type_synonym layer_stamp = "config_layer_source \<times> rstring"

definition layer_metadata :: "config_layer_entry \<Rightarrow> layer_stamp" where
  "layer_metadata l = (ly_name l, ly_version l)"

definition config_folder :: "config_layer_entry \<Rightarrow> apath option" where
  "config_folder l =
     (case ly_name l of
        Mdm _ _ \<Rightarrow> None
      | System f \<Rightarrow> apath_parent f
      | User f \<Rightarrow> apath_parent f
      | Project dot_savfox_folder \<Rightarrow> Some dot_savfox_folder
      | SessionFlags \<Rightarrow> None)"

section \<open>The stack\<close>

datatype layer_ordering = LowestPrecedenceFirst | HighestPrecedenceFirst

record config_layer_stack =
  ls_layers :: "config_layer_entry list"
  ls_user_layer_index :: "nat option"
  ls_requirements :: config_requirements
  ls_requirements_toml :: config_requirements_toml
  ls_startup_warnings :: "rstring list"

datatype stack_error = NotInOrder | MultipleUserLayers | NoParentDirectory | NotRootToCwd

definition project_follows :: "apath \<Rightarrow> apath \<Rightarrow> (stack_error, unit) result" where
  "project_follows previous current =
     (case apath_parent previous of
        None \<Rightarrow> Err NoParentDirectory
      | Some parent \<Rightarrow>
          if previous = current \<or> parent \<notin> set (ancestors current) then Err NotRootToCwd else Ok ())"

text \<open>The loop of \<^verbatim>\<open>verify_layer_ordering\<close>: the index, the user layer found so far and the last project folder.\<close>

fun verify_layers ::
    "nat \<Rightarrow> nat option \<Rightarrow> apath option \<Rightarrow> config_layer_entry list \<Rightarrow> (stack_error, nat option) result" where
  "verify_layers index user previous [] = Ok user"
| "verify_layers index user previous (l # ls) =
     (case ly_name l of
        User _ \<Rightarrow>
          if user \<noteq> None then Err MultipleUserLayers else verify_layers (Suc index) (Some index) previous ls
      | Project current \<Rightarrow>
          and_then (case previous of None \<Rightarrow> Ok () | Some p \<Rightarrow> project_follows p current)
            (\<lambda>_. verify_layers (Suc index) user (Some current) ls)
      | _ \<Rightarrow> verify_layers (Suc index) user previous ls)"

definition verify_layer_ordering :: "config_layer_entry list \<Rightarrow> (stack_error, nat option) result" where
  "verify_layer_ordering layers =
     (if \<not> sorted (map (\<lambda>l. layer_precedence (ly_name l)) layers) then Err NotInOrder
      else verify_layers 0 None None layers)"

definition stack_new ::
    "config_layer_entry list \<Rightarrow> config_requirements \<Rightarrow> config_requirements_toml \<Rightarrow> (stack_error, config_layer_stack) result" where
  "stack_new layers requirements requirements_toml =
     and_then (verify_layer_ordering layers) (\<lambda>user_layer_index.
       Ok \<lparr>ls_layers = layers, ls_user_layer_index = user_layer_index, ls_requirements = requirements,
           ls_requirements_toml = requirements_toml, ls_startup_warnings = []\<rparr>)"

definition with_startup_warnings :: "rstring list \<Rightarrow> config_layer_stack \<Rightarrow> config_layer_stack" where
  "with_startup_warnings warnings s = s\<lparr>ls_startup_warnings := warnings\<rparr>"

definition get_user_layer :: "config_layer_stack \<Rightarrow> config_layer_entry option" where
  "get_user_layer s =
     (case ls_user_layer_index s of
        None \<Rightarrow> None
      | Some i \<Rightarrow> if i < length (ls_layers s) then Some (ls_layers s ! i) else None)"

text \<open>Storing at an index that does not exist is a panic, \<open>None\<close>; lemma \<open>with_user_config_ok\<close> excludes it.\<close>

definition with_user_config ::
    "(toml \<Rightarrow> rstring) \<Rightarrow> apath \<Rightarrow> toml \<Rightarrow> config_layer_stack \<Rightarrow> config_layer_stack option" where
  "with_user_config ver config_toml user_config s =
     (let user_layer = layer_new ver (User config_toml) user_config; layers = ls_layers s in
      case ls_user_layer_index s of
        Some index \<Rightarrow>
          if index < length layers then Some (s\<lparr>ls_layers := layers[index := user_layer]\<rparr>) else None
      | None \<Rightarrow>
          (case position (\<lambda>l. layer_precedence (ly_name l) > layer_precedence (ly_name user_layer)) layers of
             Some index \<Rightarrow>
               Some (s\<lparr>ls_layers := take index layers @ user_layer # drop index layers, ls_user_layer_index := Some index\<rparr>)
           | None \<Rightarrow> Some (s\<lparr>ls_layers := layers @ [user_layer], ls_user_layer_index := Some (length layers)\<rparr>)))"

definition get_layers :: "layer_ordering \<Rightarrow> bool \<Rightarrow> config_layer_stack \<Rightarrow> config_layer_entry list" where
  "get_layers order_by include_disabled s =
     (let layers = filter (\<lambda>l. include_disabled \<or> \<not> is_disabled l) (ls_layers s)
      in if order_by = HighestPrecedenceFirst then rev layers else layers)"

text \<open>\<^verbatim>\<open>partition_point\<close> on a sorted list is the length of the longest prefix that satisfies the predicate.\<close>

definition with_layer :: "config_layer_entry \<Rightarrow> config_layer_stack \<Rightarrow> (stack_error, config_layer_stack) result" where
  "with_layer layer s =
     (let layers = get_layers LowestPrecedenceFirst True s;
          i = length (takeWhile (\<lambda>l. layer_precedence (ly_name l) \<le> layer_precedence (ly_name layer)) layers)
      in and_then (stack_new (take i layers @ layer # drop i layers) (ls_requirements s) (ls_requirements_toml s))
           (\<lambda>stack. Ok (with_startup_warnings (ls_startup_warnings s) stack)))"

definition effective_config :: "config_layer_stack \<Rightarrow> toml" where
  "effective_config s = foldl merge_toml_values (TTable []) (map ly_config (get_layers LowestPrecedenceFirst False s))"

section \<open>Origins\<close>

type_synonym origins = "rstring \<rightharpoonup> layer_stamp"

lemma enumerate_smaller: "(i, x) \<in> set (enumerate n xs) \<Longrightarrow> size x < Suc (size_list size xs)"
  by (induction xs arbitrary: n) (auto, fastforce)

function (sequential) record_origins :: "layer_stamp \<Rightarrow> rstring list \<Rightarrow> toml \<Rightarrow> origins \<Rightarrow> origins" where
  "record_origins meta path (TTable table) origins =
     fold (\<lambda>(key, val). record_origins meta (path @ [key]) val) table origins"
| "record_origins meta path (TArray items) origins =
     fold (\<lambda>(idx, item). record_origins meta (path @ [show_nat idx]) item) (enumerate 0 items) origins"
| "record_origins meta path _ origins = (if path = [] then origins else origins(join_str (lit ''.'') path \<mapsto> meta))"
  by pat_completeness auto

termination
proof (relation "measure (\<lambda>(_, _, t, _). size t)", goal_cases)
  case (2 meta path tb origins kv z key v)
  then show ?case
    by (auto simp: less_Suc_eq_le intro: size_list_estimation')
next
  case (3 meta path items origins x z idx item)
  then show ?case
    using enumerate_smaller by auto
qed simp

definition stack_origins :: "config_layer_stack \<Rightarrow> origins" where
  "stack_origins s =
     foldl (\<lambda>origins l. record_origins (layer_metadata l) [] (ly_config l) origins) Map.empty
       (get_layers LowestPrecedenceFirst False s)"

section \<open>Paths into a value\<close>

datatype 'v view = Says 'v | Hides | Silent

fun said :: "'v view \<Rightarrow> 'v option" where
  "said (Says v) = Some v"
| "said _ = None"

fun toml_view :: "rstring list \<Rightarrow> toml \<Rightarrow> toml view" where
  "toml_view [] v = (if is_table v then Hides else Says v)"
| "toml_view (k # p) (TTable tb) = (case map_of tb k of Some v \<Rightarrow> toml_view p v | None \<Rightarrow> Silent)"
| "toml_view (k # p) _ = Hides"

definition toml_leaf :: "rstring list \<Rightarrow> toml \<Rightarrow> toml option" where
  "toml_leaf p t = said (toml_view p t)"

text \<open>The first layer that is not silent decides, the highest first.\<close>

fun decide_views :: "'v view list \<Rightarrow> 'v option" where
  "decide_views [] = None"
| "decide_views (Silent # vs) = decide_views vs"
| "decide_views (v # vs) = said v"

definition decide :: "rstring list \<Rightarrow> toml list \<Rightarrow> toml option" where
  "decide p ts = decide_views (map (toml_view p) ts)"

text \<open>What the stack relies on in a merge: an overlay decides where it speaks and leaves the rest to the value below it.  A
  series of merges then is the decision of the last one that speaks.\<close>

locale overlaying =
  fixes sound :: "'t \<Rightarrow> bool" and overlay :: "'t \<Rightarrow> 't \<Rightarrow> 't" and blank :: 't and reading :: "'p \<Rightarrow> 't \<Rightarrow> 'v view"
  assumes reading_blank: "said (reading p blank) = None"
    and reading_overlay: "sound t \<Longrightarrow> said (reading p (overlay b t)) =
      (if reading p t = Silent then said (reading p b) else said (reading p t))"
begin

lemma reading_all:
  assumes "\<forall>t \<in> set ts. sound t"
  shows "said (reading p (foldl overlay blank ts)) = decide_views (map (reading p) (rev ts))"
  using assms
proof (induction ts rule: rev_induct)
  case Nil
  then show ?case
    by (simp add: reading_blank)
next
  case (snoc t ts)
  then show ?case
    by (cases "reading p t") (simp_all add: reading_overlay)
qed

end

section \<open>Merging by paths\<close>

lemma set_update_le: "set (AList.update k v b) \<subseteq> insert (k, v) (set b)"
  by (induction b) auto

lemma toml_wf_update:
  assumes "toml_wf (TTable b)" "toml_wf v"
  shows "toml_wf (TTable (AList.update k v b))"
proof -
  have "distinct (map fst (AList.update k v b))"
    using assms by (intro distinct_update) simp
  moreover have "\<forall>(i, x) \<in> insert (k, v) (set b). toml_wf x"
    using assms by simp
  then have "\<forall>(i, x) \<in> set (AList.update k v b). toml_wf x"
    using set_update_le [of k v b] by blast
  ultimately show ?thesis
    by simp
qed

lemma toml_wf_lookup: "toml_wf (TTable tb) \<Longrightarrow> map_of tb k = Some v \<Longrightarrow> toml_wf v"
  by (auto dest!: map_of_SomeD)

lemma map_of_update: "map_of (AList.update k v b) = (map_of b)(k \<mapsto> v)"
  by (simp add: update_conv')

lemma merge_wf:
  "toml_wf b \<Longrightarrow> toml_wf v \<Longrightarrow> toml_wf (merge_toml_values b v)"
  "toml_wf (TTable tb) \<Longrightarrow> toml_wf (TTable tv) \<Longrightarrow> toml_wf (TTable (merge_tables tb tv))"
proof (induction b v and tb tv rule: merge_toml_values_merge_tables.induct)
  case (4 base key v overlay)
  have v: "toml_wf v" "toml_wf (TTable overlay)"
    using "4.prems"(2) by simp_all
  show ?case
  proof (cases "map_of base key")
    case None
    then show ?thesis
      using "4.IH"(2) toml_wf_update [OF "4.prems"(1) v(1)] v(2) by (simp del: toml_wf.simps)
  next
    case (Some e)
    then have "toml_wf (merge_toml_values e v)"
      using "4.IH"(1) toml_wf_lookup [OF "4.prems"(1)] v(1) by blast
    then show ?thesis
      using Some "4.IH"(2) toml_wf_update [OF "4.prems"(1)] v(2) by (simp del: toml_wf.simps)
  qed
qed auto

text \<open>A table that is merged in decides every key it has and leaves the others.\<close>

lemma merge_tables_lookup:
  assumes "distinct (map fst o')"
  shows "map_of (merge_tables b o') k =
    (case map_of o' k of
       None \<Rightarrow> map_of b k
     | Some v \<Rightarrow> Some (case map_of b k of Some e \<Rightarrow> merge_toml_values e v | None \<Rightarrow> v))"
  using assms
proof (induction o' arbitrary: b)
  case (Cons kv o')
  obtain key v where kv: "kv = (key, v)"
    by fastforce
  show ?case
  proof (cases "k = key")
    case True
    then have "map_of o' k = None"
      using Cons.prems kv by (auto simp: map_of_eq_None_iff)
    then show ?thesis
      using Cons True kv by (auto simp: map_of_update split: option.splits)
  next
    case False
    then show ?thesis
      using Cons kv by (auto simp: map_of_update split: option.splits)
  qed
qed simp

lemma merge_non_table: "\<not> is_table b \<or> \<not> is_table v \<Longrightarrow> merge_toml_values b v = v"
  by (cases b; cases v) simp_all

lemma leaf_merge:
  assumes "toml_wf v"
  shows "said (toml_view p (merge_toml_values b v)) =
    (if toml_view p v = Silent then said (toml_view p b) else said (toml_view p v))"
  using assms
proof (induction p arbitrary: b v)
  case Nil
  then show ?case
    by (cases b; cases v) simp_all
next
  case (Cons k p)
  show ?case
  proof (cases "\<exists>tb tv. b = TTable tb \<and> v = TTable tv")
    case True
    then obtain tb tv where t: "b = TTable tb" "v = TTable tv"
      by blast
    have wf: "distinct (map fst tv)" "\<And>x. map_of tv k = Some x \<Longrightarrow> toml_wf x"
      using Cons.prems t by (auto dest: map_of_SomeD)
    show ?thesis
    proof (cases "map_of tv k")
      case None
      then show ?thesis
        using t wf by (simp add: merge_tables_lookup)
    next
      case (Some x)
      then show ?thesis
        using t wf Cons.IH [of x] by (cases "map_of tb k") (auto simp: merge_tables_lookup)
    qed
  next
    case False
    then show ?thesis
      by (cases b; cases v) (auto simp: merge_non_table split: option.splits)
  qed
qed

lemma view_empty: "said (toml_view p (TTable [])) = None"
  by (cases p) simp_all

lemma leaf_empty [simp]: "toml_leaf p (TTable []) = None"
  by (simp add: toml_leaf_def view_empty)

interpretation layered: overlaying toml_wf merge_toml_values "TTable []" toml_view
  by unfold_locales (simp_all add: view_empty leaf_merge)

lemma leaf_merges:
  assumes "\<forall>t \<in> set ts. toml_wf t"
  shows "toml_leaf p (foldl merge_toml_values (TTable []) ts) = decide p (rev ts)"
  using layered.reading_all [OF assms] by (simp add: toml_leaf_def decide_def)

definition stack_wf :: "config_layer_stack \<Rightarrow> bool" where
  "stack_wf s \<longleftrightarrow> (\<forall>l \<in> set (ls_layers s). toml_wf (ly_config l)) \<and> verify_layer_ordering (ls_layers s) = Inr (ls_user_layer_index s)"

text \<open>
  C16. The effective configuration is what the layers say, in order of precedence: for every path its value is the one
  of the highest enabled layer that says anything about the path, and there is none when that layer hides the path
  behind another value.  Disabled layers have no influence.
\<close>
theorem effective_value_from_top_layer:
  assumes "stack_wf s"
  shows "toml_leaf p (effective_config s) = decide p (map ly_config (get_layers HighestPrecedenceFirst False s))"
  using assms leaf_merges [of "map ly_config (get_layers LowestPrecedenceFirst False s)" p]
  by (auto simp: effective_config_def get_layers_def stack_wf_def rev_map)

section \<open>Well-formed stacks\<close>

text \<open>What the check of a stack accepts: layers in order of precedence, at most one user layer, and project folders from
  the root of the project downwards.\<close>

definition is_user :: "config_layer_entry \<Rightarrow> bool" where
  "is_user l = (case ly_name l of User _ \<Rightarrow> True | _ \<Rightarrow> False)"

fun project_folder :: "config_layer_entry \<Rightarrow> apath option" where
  "project_folder l = (case ly_name l of Project d \<Rightarrow> Some d | _ \<Rightarrow> None)"

fun folders_nested :: "apath list \<Rightarrow> bool" where
  "folders_nested (p # q # ps) \<longleftrightarrow> project_follows p q = Inr () \<and> folders_nested (q # ps)"
| "folders_nested _ \<longleftrightarrow> True"

lemma verify_layers_iff:
  "verify_layers i user prev ls = Inr r \<longleftrightarrow>
     folders_nested ((case prev of None \<Rightarrow> [] | Some p \<Rightarrow> [p]) @ filter_map project_folder ls) \<and>
     length (filter is_user ls) + (if user = None then 0 else 1) \<le> 1 \<and>
     r = (case user of Some u \<Rightarrow> Some u | None \<Rightarrow> map_option (\<lambda>j. j + i) (position is_user ls))"
proof (induction i user prev ls rule: verify_layers.induct)
  case (1 i user prev)
  then show ?case
    by (cases prev; cases user) auto
next
  case (2 i user prev l ls)
  then show ?case
    by (cases "ly_name l"; cases prev; cases user) (simp_all add: is_user_def and_then_eq_Inr option.map_comp comp_def, blast?)
qed

lemma verify_layer_ordering_iff:
  "verify_layer_ordering ls = Inr r \<longleftrightarrow>
     sorted (map (\<lambda>l. layer_precedence (ly_name l)) ls) \<and> folders_nested (filter_map project_folder ls) \<and>
     length (filter is_user ls) \<le> 1 \<and> r = position is_user ls"
  by (simp add: verify_layer_ordering_def verify_layers_iff option.map_ident)

lemma user_precedence: "is_user l \<longleftrightarrow> layer_precedence (ly_name l) \<le> 0"
  by (cases "ly_name l") (simp_all add: is_user_def)

lemma layer_precedence_nonneg [simp]: "0 \<le> layer_precedence n"
  by (cases n) simp_all

lemma layer_new_fields [simp]:
  "ly_name (layer_new ver n c) = n" "ly_config (layer_new ver n c) = c" "\<not> is_disabled (layer_new ver n c)"
  by (simp_all add: layer_new_def is_disabled_def)

text \<open>Only the source of a layer matters to the check, and not the file of a user layer.\<close>

lemma verify_layers_cong:
  assumes "list_all2 (\<lambda>a b. ly_name a = ly_name b \<or> is_user a \<and> is_user b) ls ms"
  shows "verify_layers i user prev ls = verify_layers i user prev ms"
  using assms
proof (induction arbitrary: i user prev rule: list_all2_induct)
  case (Cons a xs b ys)
  then show ?case
    by (auto simp: is_user_def split: config_layer_source.splits intro!: arg_cong [where f = "and_then _"])
qed simp

lemma precedences_cong:
  assumes "list_all2 (\<lambda>a b. ly_name a = ly_name b \<or> is_user a \<and> is_user b) ls ms"
  shows "map (\<lambda>l. layer_precedence (ly_name l)) ls = map (\<lambda>l. layer_precedence (ly_name l)) ms"
  using assms by (induction rule: list_all2_induct) (auto simp: is_user_def split: config_layer_source.splits)

lemma position_split:
  assumes "position p xs = Some i"
  shows "i < length xs" "p (xs ! i)"
  using assms position_Some by fastforce+

lemma with_user_config_at:
  assumes wf: "stack_wf s" and i: "ls_user_layer_index s = Some i"
  shows "i < length (ls_layers s)"
    and "verify_layer_ordering ((ls_layers s)[i := layer_new ver (User f) c]) = Inr (Some i)"
    and "filter (\<lambda>l. \<not> is_user l) ((ls_layers s)[i := layer_new ver (User f) c]) = filter (\<lambda>l. \<not> is_user l) (ls_layers s)"
proof -
  have v: "verify_layer_ordering (ls_layers s) = Inr (Some i)"
    using wf i by (simp add: stack_wf_def)
  then have pos: "position is_user (ls_layers s) = Some i"
    by (simp add: verify_layer_ordering_iff)
  note at = position_split [OF pos]
  then show "i < length (ls_layers s)" by simp
  have new: "is_user (layer_new ver (User f) c)"
    by (simp add: is_user_def)
  have rel: "list_all2 (\<lambda>a b. ly_name a = ly_name b \<or> is_user a \<and> is_user b) ((ls_layers s)[i := layer_new ver (User f) c]) (ls_layers s)"
    using at new by (auto simp: list_all2_conv_all_nth nth_list_update)
  show "verify_layer_ordering ((ls_layers s)[i := layer_new ver (User f) c]) = Inr (Some i)"
    using v by (simp add: verify_layer_ordering_def verify_layers_cong [OF rel] precedences_cong [OF rel] split: if_splits)
  show "filter (\<lambda>l. \<not> is_user l) ((ls_layers s)[i := layer_new ver (User f) c]) = filter (\<lambda>l. \<not> is_user l) (ls_layers s)"
    using at new by (simp add: upd_conv_take_nth_drop) (subst (3) id_take_nth_drop [OF at(1)], simp)
qed

lemma with_user_config_new:
  assumes wf: "stack_wf s" and i: "ls_user_layer_index s = None"
  shows "with_user_config ver f c s = Some (s\<lparr>ls_layers := layer_new ver (User f) c # ls_layers s, ls_user_layer_index := Some 0\<rparr>)"
    and "verify_layer_ordering (layer_new ver (User f) c # ls_layers s) = Inr (Some 0)"
    and "filter (\<lambda>l. \<not> is_user l) (ls_layers s) = ls_layers s"
proof -
  have v: "sorted (map (\<lambda>l. layer_precedence (ly_name l)) (ls_layers s))" "folders_nested (filter_map project_folder (ls_layers s))"
      "position is_user (ls_layers s) = None"
    using wf i by (auto simp: stack_wf_def verify_layer_ordering_iff)
  then have none: "\<forall>l \<in> set (ls_layers s). \<not> is_user l"
    by (simp add: position_None)
  then show "with_user_config ver f c s = Some (s\<lparr>ls_layers := layer_new ver (User f) c # ls_layers s, ls_user_layer_index := Some 0\<rparr>)"
    using i by (cases "ls_layers s") (auto simp: with_user_config_def user_precedence not_le)
  show "verify_layer_ordering (layer_new ver (User f) c # ls_layers s) = Inr (Some 0)"
  proof -
    have "is_user (layer_new ver (User f) c)"
      by (simp add: is_user_def)
    then show ?thesis
      using v none by (simp add: verify_layer_ordering_iff filter_empty_conv)
  qed
  show "filter (\<lambda>l. \<not> is_user l) (ls_layers s) = ls_layers s"
    using none by simp
qed

text \<open>
  Replacing the user's configuration always succeeds on a well-formed stack, gives a well-formed stack whose user
  layer is the new one, and leaves the other layers as they were.
\<close>
lemma user_config_is_replaced:
  assumes wf: "stack_wf s" and c: "toml_wf c"
  shows "\<exists>s'. with_user_config ver f c s = Some s' \<and> stack_wf s' \<and> get_user_layer s' = Some (layer_new ver (User f) c) \<and>
    filter (\<lambda>l. \<not> is_user l) (ls_layers s') = filter (\<lambda>l. \<not> is_user l) (ls_layers s)"
proof (cases "ls_user_layer_index s")
  case None
  note new = with_user_config_new [OF wf None]
  have "is_user (layer_new ver (User f) c)"
    by (simp add: is_user_def)
  then show ?thesis
    using new wf c by (auto simp: stack_wf_def get_user_layer_def)
next
  case (Some i)
  note at = with_user_config_at [OF wf Some]
  have "\<forall>l \<in> set ((ls_layers s)[i := layer_new ver (User f) c]). toml_wf (ly_config l)"
    using wf c set_update_subset_insert [of "ls_layers s" i "layer_new ver (User f) c"] by (auto simp: stack_wf_def)
  then show ?thesis
    using at Some by (auto simp: with_user_config_def stack_wf_def get_user_layer_def Let_def)
qed

section \<open>Role layers\<close>

lemma with_layer_wf:
  assumes "stack_wf s" "toml_wf (ly_config l)" "with_layer l s = Inr s'"
  shows "stack_wf s'"
  using assms
  by (auto simp: with_layer_def stack_new_def and_then_eq_Inr with_startup_warnings_def stack_wf_def get_layers_def Let_def
      dest!: in_set_takeD in_set_dropD)

lemma dropWhile_sorted:
  fixes f :: "'a \<Rightarrow> int"
  shows "sorted (map f xs) \<Longrightarrow> x \<in> set (dropWhile (\<lambda>x. f x \<le> b) xs) \<Longrightarrow> b < f x"
  by (induction xs) (auto split: if_splits)

text \<open>
  A role layer, laid over the session flags, is always accepted; it decides every path it speaks about unless a
  managed layer speaks about it too, and managed layers keep the last word.
\<close>
lemma role_layer_below_managed:
  assumes wf: "stack_wf s" and l: "ly_name l = SessionFlags" "toml_wf (ly_config l)" "\<not> is_disabled l"
  shows "\<exists>s' low high. with_layer l s = Inr s' \<and> stack_wf s' \<and> ls_layers s = low @ high \<and> ls_layers s' = low @ l # high \<and>
    (\<forall>m \<in> set high. layer_precedence (ly_name m) > 20) \<and> (\<forall>m \<in> set low. layer_precedence (ly_name m) \<le> 20) \<and>
    toml_leaf p (effective_config s') =
      decide p (map ly_config (rev (filter (\<lambda>m. \<not> is_disabled m) high)) @ ly_config l #
        map ly_config (rev (filter (\<lambda>m. \<not> is_disabled m) low)))"
proof -
  let ?prec = "\<lambda>l. layer_precedence (ly_name l)"
  define i where "i = length (takeWhile (\<lambda>m. ?prec m \<le> ?prec l) (ls_layers s))"
  define low where "low = takeWhile (\<lambda>m. ?prec m \<le> ?prec l) (ls_layers s)"
  define high where "high = dropWhile (\<lambda>m. ?prec m \<le> ?prec l) (ls_layers s)"
  have parts: "take i (ls_layers s) = low" "drop i (ls_layers s) = high"
    unfolding i_def low_def high_def by (rule takeWhile_eq_take [symmetric] dropWhile_eq_drop [symmetric])+
  have v: "sorted (map ?prec (ls_layers s))" "folders_nested (filter_map project_folder (ls_layers s))"
      "length (filter is_user (ls_layers s)) \<le> 1"
    using wf by (auto simp: stack_wf_def verify_layer_ordering_iff)
  have app: "ls_layers s = low @ high"
    by (simp add: low_def high_def)
  have bounds: "\<forall>m \<in> set low. ?prec m \<le> 20" "\<forall>m \<in> set high. 20 < ?prec m"
    using dropWhile_sorted [OF v(1)] l(1) by (auto simp: low_def high_def dest: set_takeWhileD)
  have kind: "\<not> is_user l" "project_folder l = None"
    using l(1) by (simp_all add: is_user_def)
  have "sorted (map ?prec (low @ l # high))"
    using v(1) bounds l(1) unfolding app by (auto simp: sorted_append)
  then have ord: "verify_layer_ordering (low @ l # high) = Inr (position is_user (low @ l # high))"
    using v(2,3) kind unfolding app by (simp add: verify_layer_ordering_iff filter_map_append)
  define s' where "s' = \<lparr>ls_layers = low @ l # high, ls_user_layer_index = position is_user (low @ l # high),
      ls_requirements = ls_requirements s, ls_requirements_toml = ls_requirements_toml s,
      ls_startup_warnings = ls_startup_warnings s\<rparr>"
  have eq: "with_layer l s = Inr s'"
    using ord by (simp add: with_layer_def get_layers_def stack_new_def with_startup_warnings_def s'_def Let_def parts
        flip: i_def)
  have wf': "stack_wf s'"
    by (rule with_layer_wf [OF wf l(2) eq])
  have "toml_leaf p (effective_config s') = decide p (map ly_config (rev (filter (\<lambda>m. \<not> is_disabled m) high)) @ ly_config l #
        map ly_config (rev (filter (\<lambda>m. \<not> is_disabled m) low)))"
    using leaf_merges [of "map ly_config (get_layers LowestPrecedenceFirst False s')" p] wf' l(3)
    by (auto simp: effective_config_def get_layers_def stack_wf_def s'_def rev_map)
  then show ?thesis
    using eq wf' app bounds by (auto simp: s'_def)
qed

section \<open>Overrides are read back\<close>

lemma set_segments_table: "segs \<noteq> [] \<Longrightarrow> is_table (set_segments segs v t)"
  by (induction segs v t rule: set_segments.induct) (auto split: toml.splits simp: Let_def)

lemma view_set_same:
  assumes "segs \<noteq> []"
  shows "toml_view (segs @ q) (set_segments segs v t) = toml_view q v"
  using assms
proof (induction segs v t rule: set_segments.induct)
  case (2 segment v t)
  then show ?case
    by (cases t) (simp_all add: map_of_update)
next
  case (3 segment following segs v t)
  then show ?case
    by (simp add: map_of_update Let_def)
qed simp

lemma leaf_set_other:
  assumes "\<not> prefix segs p" "\<not> prefix p segs"
  shows "toml_leaf p (set_segments segs v t) = toml_leaf p t"
  using assms
proof (induction segs v t arbitrary: p rule: set_segments.induct)
  case (2 segment v t)
  then obtain k q where p: "p = k # q" "k \<noteq> segment"
    by (cases p) auto
  then show ?case
    by (cases t) (simp_all add: toml_leaf_def map_of_update)
next
  case (3 segment following segs v t)
  then obtain k q where p: "p = k # q"
    by (cases p) auto
  show ?case
  proof (cases "k = segment")
    case False
    then show ?thesis
      using p by (cases t) (simp_all add: toml_leaf_def map_of_update)
  next
    case True
    then have "\<not> prefix (following # segs) q" "\<not> prefix q (following # segs)"
      using 3 p by auto
    note step = "3.IH" [OF refl refl this]
    then show ?thesis
      using p True view_empty [of q]
      by (cases t) (auto simp: toml_leaf_def map_of_update Let_def split: option.splits)
  qed
qed auto

text \<open>
  A command-line override sets exactly what its dotted path names: reading the path, or anything below it, gives the
  value of the last override for it, and a path that neither contains nor extends it keeps its value.
\<close>
lemma override_is_read_back:
  "toml_view (split_on 46 path @ q) (build_cli_overrides_layer (os @ [(path, v)])) = toml_view q v \<and>
   (\<not> prefix (split_on 46 path) p \<and> \<not> prefix p (split_on 46 path) \<longrightarrow>
      toml_leaf p (build_cli_overrides_layer (os @ [(path, v)])) = toml_leaf p (build_cli_overrides_layer os))"
  by (simp add: build_cli_overrides_layer_def apply_toml_override_def view_set_same leaf_set_other)

lemma set_segments_wf: "toml_wf v \<Longrightarrow> toml_wf t \<Longrightarrow> toml_wf (set_segments segs v t)"
proof (induction segs v t rule: set_segments.induct)
  case (2 segment v t)
  then show ?case
    by (cases t) (auto simp del: toml_wf.simps intro: toml_wf_update simp add: toml_wf.simps(1) [of "[(segment, v)]"])
next
  case (3 segment following segs v t)
  let ?tb = "case t of TTable tb \<Rightarrow> tb | _ \<Rightarrow> []"
  let ?e = "case map_of ?tb segment of Some e \<Rightarrow> e | None \<Rightarrow> TTable []"
  have tb: "toml_wf (TTable ?tb)"
    using 3 by (cases t) simp_all
  then have "toml_wf ?e"
    using toml_wf_lookup by (auto split: option.splits)
  then have "toml_wf (set_segments (following # segs) v ?e)"
    using 3 by blast
  then show ?case
    using toml_wf_update [OF tb] by (simp only: set_segments.simps Let_def)
qed simp

lemma build_overrides_wf:
  assumes "\<forall>(p, v) \<in> set os. toml_wf v"
  shows "toml_wf (build_cli_overrides_layer os)"
  using assms
  by (induction os rule: rev_induct)
    (auto simp: build_cli_overrides_layer_def default_empty_table_def apply_toml_override_def intro!: set_segments_wf)

section \<open>Examples\<close>

definition plain_requirements :: config_requirements where
  "plain_requirements = \<lparr>cr_approval_policy = allow_any OnRequest, cr_sandbox_policy = allow_any ReadOnly, cr_mcp_servers = None,
     cr_exec_policy = None, cr_enforce_residency = allow_any None\<rparr>"

definition sample_layers :: "config_layer_entry list" where
  "sample_layers =
     [layer_new (\<lambda>_. []) (User [lit ''u'']) (TTable [(lit ''a'', TInteger 5), (lit ''m'', TInteger 2)]),
      layer_new_disabled (\<lambda>_. []) (Project [lit ''p'']) (TTable [(lit ''m'', TInteger 9)]) [],
      layer_new (\<lambda>_. []) (System [lit ''s'']) (TTable [(lit ''a'', TTable [(lit ''x'', TBoolean True)])])]"

definition sample_stack :: config_layer_stack where
  "sample_stack = \<lparr>ls_layers = sample_layers, ls_user_layer_index = Some 0, ls_requirements = plain_requirements,
     ls_requirements_toml = into_toml no_requirements, ls_startup_warnings = []\<rparr>"

lemma sample_stack_wf: "stack_wf sample_stack"
  by (simp add: stack_wf_def sample_stack_def sample_layers_def layer_new_def layer_new_disabled_def verify_layer_ordering_def)

theorem effective_value_from_top_layer_witness:
  "toml_leaf [lit ''m''] (effective_config sample_stack) = Some (TInteger 2) \<and>
   toml_leaf [lit ''a''] (effective_config sample_stack) = None"
  using effective_value_from_top_layer [OF sample_stack_wf]
  by (simp add: sample_stack_def sample_layers_def get_layers_def layer_new_def layer_new_disabled_def is_disabled_def decide_def)

text \<open>The table of origins names a layer for a value that a higher layer has hidden.\<close>

lemma origins_keep_hidden_values:
  "stack_origins sample_stack (lit ''a'') = Some (User [lit ''u''], []) \<and> toml_leaf [lit ''a''] (effective_config sample_stack) = None"
proof -
  have "stack_origins sample_stack (lit ''a'') = Some (User [lit ''u''], [])"
    by (simp add: stack_origins_def get_layers_def sample_stack_def sample_layers_def layer_new_def layer_new_disabled_def
        is_disabled_def layer_metadata_def)
  moreover have "toml_leaf [lit ''a''] (effective_config sample_stack) = None"
    by (simp add: effective_config_def get_layers_def sample_stack_def sample_layers_def layer_new_def layer_new_disabled_def
        is_disabled_def toml_leaf_def)
  ultimately show ?thesis
    by simp
qed

end
