(* ===== verification/Project_Config.thy ===== *)
theory Project_Config
  imports Config_Layers Execution_Security
begin

text \<open>
  \<^verbatim>\<open>core/src/config_loader/mod.rs\<close>: reading configuration files into layers.  Environment placeholders are expanded, relative
  paths are resolved, the configuration of a project loses the keys it must not set and is disabled unless the project
  is trusted, and the layers are put together in order of precedence.  The model is that of a Unix system without
  managed macOS preferences.

  The file system, the environment, the parsers of the three file formats, the typed configuration (reading a value into
  the program's structure and writing it back) and the look-up of a repository's root are arguments, collected in a record.
\<close>

section \<open>The outside\<close>

datatype cfg_meta = MetaFile | MetaOther | MetaDir | MetaNotFound | MetaFailed rstring

datatype cfg_read = CfgText rstring | CfgNotFound | CfgFailed rstring

datatype trust_level = Trusted | Untrusted

record config_io =
  io_metadata :: "apath \<Rightarrow> cfg_meta"
  io_read :: "apath \<Rightarrow> cfg_read"
  io_marker :: "apath \<Rightarrow> rstring \<Rightarrow> bool"
  io_canonical :: "apath \<Rightarrow> apath option"
  io_env :: "rstring \<Rightarrow> rstring option"
  io_parse_toml :: "rstring \<Rightarrow> (rstring, toml) result"
  io_parse_json :: "rstring \<Rightarrow> (rstring, json) result"
  io_parse_yaml :: "rstring \<Rightarrow> (rstring, json) result"
  io_parse_requirements :: "rstring \<Rightarrow> (rstring, config_requirements_toml) result"
  io_typed :: "apath \<Rightarrow> toml \<Rightarrow> (rstring, toml) result option"
  io_projects :: "apath \<Rightarrow> toml \<Rightarrow> (rstring, (rstring \<times> trust_level option) list) result"
  io_repo_root :: "apath \<Rightarrow> apath option"
  io_layer_error :: "config_layer_entry list \<Rightarrow> rstring option"
  io_version :: "toml \<Rightarrow> rstring"

datatype load_error = LoadError rstring | RequirementError constraint_error | LayerError stack_error

section \<open>Which file\<close>

definition CONFIG_TOML_FILE :: rstring where
  "CONFIG_TOML_FILE = lit ''config.toml''"

definition resolve_preferred_config_file :: "config_io \<Rightarrow> apath \<Rightarrow> (load_error, apath) result" where
  "resolve_preferred_config_file io default_toml_file =
     (case apath_parent default_toml_file of
        None \<Rightarrow> Err (LoadError (lit ''config path has no parent''))
      | Some parent \<Rightarrow>
          (let candidates = [default_toml_file, parent @ [lit ''config.json''], parent @ [lit ''config.yaml''],
                             parent @ [lit ''config.yml'']]
           in case find_map (\<lambda>c. case io_metadata io c of
                     MetaFile \<Rightarrow> Some (Ok c)
                   | MetaFailed e \<Rightarrow> Some (Err (LoadError (lit ''Failed to read config metadata '' @ show_apath c @ lit '': '' @ e)))
                   | _ \<Rightarrow> None) candidates of
                Some r \<Rightarrow> r
              | None \<Rightarrow> Ok default_toml_file))"

section \<open>Reading values\<close>

definition json_integer :: "rstring \<Rightarrow> int option" where
  "json_integer s =
     (let digits = (case s of c # t \<Rightarrow> (if c = 45 then t else s) | [] \<Rightarrow> []);
          v = int (foldl (\<lambda>acc c. acc * 10 + (c - 48)) 0 digits)
      in if digits = [] \<or> \<not> list_all is_ascii_digit digits then None
         else if digits \<noteq> s then (if v = 0 then None else Some (- v)) else Some v)"

text \<open>A number: what fits a signed word is an integer, a larger unsigned word is kept as text, the rest is a float.\<close>

definition toml_number :: "rstring \<Rightarrow> toml" where
  "toml_number s =
     (case json_integer s of
        Some n \<Rightarrow>
          if i64_min \<le> n \<and> n \<le> i64_max then TInteger n
          else if 0 \<le> n \<and> n < 2 ^ 64 then TString (show_nat (nat n))
          else TFloat s
      | None \<Rightarrow> TFloat s)"

fun json_to_toml_value :: "json \<Rightarrow> toml" where
  "json_to_toml_value JNull = TString []"
| "json_to_toml_value (JBool b) = TBoolean b"
| "json_to_toml_value (JNumber s) = toml_number s"
| "json_to_toml_value (JString s) = TString s"
| "json_to_toml_value (JArray values) = TArray (map json_to_toml_value values)"
| "json_to_toml_value (JObject members) =
     TTable (fold (\<lambda>(key, value). AList.update key (json_to_toml_value value)) members [])"

definition parse_config_file_content :: "config_io \<Rightarrow> apath \<Rightarrow> rstring \<Rightarrow> (rstring, toml) result" where
  "parse_config_file_content io config_file contents =
     (let ext = (if config_file = [] then None else path_extension (last config_file)) in
      if ext = Some (lit ''json'') then
        (case io_parse_json io contents of
           Inl e \<Rightarrow> Err (lit ''Error parsing JSON config file '' @ show_apath config_file @ lit '': '' @ e)
         | Inr v \<Rightarrow> Ok (json_to_toml_value v))
      else if ext = Some (lit ''yaml'') \<or> ext = Some (lit ''yml'') then
        (case io_parse_yaml io contents of
           Inl e \<Rightarrow> Err (lit ''Error parsing YAML config file '' @ show_apath config_file @ lit '': '' @ e)
         | Inr v \<Rightarrow> Ok (json_to_toml_value v))
      else io_parse_toml io contents)"

section \<open>Placeholders and paths\<close>

definition required_var :: "config_io \<Rightarrow> rstring \<Rightarrow> rstring \<Rightarrow> (rstring, rstring) result" where
  "required_var io name message =
     (let missing = (if trim message = [] then lit ''required environment variable '' @ [39] @ name @ [39] @ lit '' is missing''
                     else trim message)
      in case io_env io name of
           Some value \<Rightarrow> if value \<noteq> [] then Ok value else Err missing
         | None \<Rightarrow> Err missing)"

definition resolve_env_expr :: "config_io \<Rightarrow> rstring \<Rightarrow> (rstring, rstring) result" where
  "resolve_env_expr io expr =
     (case split_once (lit '':?'') expr of
        Some (name, message) \<Rightarrow> if trim name = [] then Ok [] else required_var io (trim name) message
      | None \<Rightarrow>
          (case split_once (lit '':-'') expr of
             Some (name, fallback) \<Rightarrow>
               if trim name = [] then Ok fallback
               else (case io_env io (trim name) of
                       Some value \<Rightarrow> if value \<noteq> [] then Ok value else Ok fallback
                     | None \<Rightarrow> Ok fallback)
           | None \<Rightarrow>
               if trim expr = [] then Ok []
               else Ok (case io_env io (trim expr) of Some value \<Rightarrow> value | None \<Rightarrow> [])))"

lemma split_once_shorter:
  "split_once sep s = Some (a, b) \<Longrightarrow> length a + length sep + length b = length s"
  by (induction sep s arbitrary: a b rule: split_once.induct)
    (auto simp: strip_prefix_Some split: if_splits option.splits prod.splits dest!: arg_cong [where f = length])

function expand_env_placeholders :: "config_io \<Rightarrow> rstring \<Rightarrow> (rstring, rstring) result" where
  "expand_env_placeholders io input =
     (case split_once (lit ''${'') input of
        None \<Rightarrow> Ok input
      | Some (before, after) \<Rightarrow>
          (case split_once (lit ''}'') after of
             None \<Rightarrow> Ok input
           | Some (expr, tail) \<Rightarrow>
               and_then (resolve_env_expr io expr) (\<lambda>value.
               and_then (expand_env_placeholders io tail) (\<lambda>expanded.
                 Ok (before @ value @ expanded)))))"
  by pat_completeness auto

termination
  by (relation "measure (\<lambda>(io, input). length input)") (auto dest!: split_once_shorter)

declare expand_env_placeholders.simps [simp del]

lemma collect_results_cong [fundef_cong]:
  assumes "xs = ys" "\<And>x. x \<in> set ys \<Longrightarrow> f x = g x"
  shows "collect_results f xs = collect_results g ys"
  using assms(2) unfolding assms(1) by (induction ys) (simp_all add: collect_results_Cons split: sum.splits)

fun substitute_env_vars :: "config_io \<Rightarrow> toml \<Rightarrow> (rstring, toml) result" where
  "substitute_env_vars io (TString s) = and_then (expand_env_placeholders io s) (\<lambda>s. Ok (TString s))"
| "substitute_env_vars io (TArray items) =
     and_then (collect_results (substitute_env_vars io) items) (\<lambda>items. Ok (TArray items))"
| "substitute_env_vars io (TTable table) =
     and_then (collect_results (\<lambda>(key, item). and_then (substitute_env_vars io item) (\<lambda>item. Ok (key, item))) table)
       (\<lambda>table. Ok (TTable table))"
| "substitute_env_vars io value = Ok value"

function (sequential) copy_shape_from_original :: "toml \<Rightarrow> toml \<Rightarrow> toml" where
  "copy_shape_from_original (TTable original) (TTable resolved) =
     TTable (map (\<lambda>(key, v). (key, copy_shape_from_original v (case map_of resolved key of Some r \<Rightarrow> r | None \<Rightarrow> v))) original)"
| "copy_shape_from_original (TArray original) (TArray resolved) =
     TArray (map (\<lambda>(index, v). copy_shape_from_original v (if index < length resolved then resolved ! index else v))
       (enumerate 0 original))"
| "copy_shape_from_original _ resolved = resolved"
  by pat_completeness auto

termination
proof (relation "measure (\<lambda>(t, _). size t)", goal_cases)
  case (2 original resolved kv key v)
  then show ?case
    by (auto simp: less_Suc_eq_le intro: size_list_estimation')
next
  case (3 original resolved iv index v)
  then show ?case
    using enumerate_smaller by auto
qed simp

definition resolve_relative_paths_in_config_toml :: "config_io \<Rightarrow> toml \<Rightarrow> apath \<Rightarrow> (load_error, toml) result" where
  "resolve_relative_paths_in_config_toml io config base_dir =
     (case substitute_env_vars io config of
        Inl e \<Rightarrow> Err (LoadError e)
      | Inr config \<Rightarrow>
          (case io_typed io base_dir config of
             None \<Rightarrow> Ok config
           | Some (Inl e) \<Rightarrow> Err (LoadError (lit ''Failed to serialize resolved config: '' @ e))
           | Some (Inr resolved) \<Rightarrow> Ok (copy_shape_from_original config resolved)))"

section \<open>Layers from files\<close>

definition read_config ::
    "config_io \<Rightarrow> apath \<Rightarrow> (load_error, toml option) result" where
  "read_config io config_file =
     (case io_read io config_file of
        CfgText contents \<Rightarrow>
          (case parse_config_file_content io config_file contents of
             Inl e \<Rightarrow> Err (LoadError e)
           | Inr config \<Rightarrow>
               (case apath_parent config_file of
                  None \<Rightarrow> Err (LoadError (lit ''Config file has no parent directory''))
                | Some parent \<Rightarrow> and_then (resolve_relative_paths_in_config_toml io config parent) (\<lambda>c. Ok (Some c))))
      | CfgNotFound \<Rightarrow> Ok None
      | CfgFailed e \<Rightarrow> Err (LoadError (lit ''Failed to read config file '' @ show_apath config_file @ lit '': '' @ e)))"

definition load_config_toml_for_required_layer ::
    "config_io \<Rightarrow> apath \<Rightarrow> (toml \<Rightarrow> config_layer_entry) \<Rightarrow> (load_error, config_layer_entry) result" where
  "load_config_toml_for_required_layer io config_file create_entry =
     and_then (read_config io config_file) (\<lambda>c. Ok (create_entry (case c of Some v \<Rightarrow> v | None \<Rightarrow> TTable [])))"

definition load_config_toml_for_optional_layer ::
    "config_io \<Rightarrow> apath \<Rightarrow> (toml \<Rightarrow> config_layer_entry) \<Rightarrow> (load_error, config_layer_entry option) result" where
  "load_config_toml_for_optional_layer io config_file create_entry =
     and_then (read_config io config_file) (\<lambda>c. Ok (map_option create_entry c))"

definition load_requirements_toml ::
    "config_io \<Rightarrow> apath \<Rightarrow> requirements_with_sources \<Rightarrow> (load_error, requirements_with_sources) result" where
  "load_requirements_toml io requirements_file base =
     (case io_read io requirements_file of
        CfgText contents \<Rightarrow>
          (case io_parse_requirements io contents of
             Inl e \<Rightarrow> Err (LoadError (lit ''Error parsing requirements file '' @ show_apath requirements_file @ lit '': '' @ e))
           | Inr r \<Rightarrow> Ok (merge_unset_fields (SystemRequirementsToml (show_apath requirements_file)) r base))
      | CfgNotFound \<Rightarrow> Ok base
      | CfgFailed e \<Rightarrow> Err (LoadError (lit ''Failed to read requirements file '' @ show_apath requirements_file @ lit '': '' @ e)))"

section \<open>Projects\<close>

definition toml_strings :: "toml list \<Rightarrow> rstring list option" where
  "toml_strings entries = those (map (\<lambda>t. case t of TString s \<Rightarrow> Some s | _ \<Rightarrow> None) entries)"

definition project_root_markers_from_config :: "toml \<Rightarrow> (load_error, rstring list option) result" where
  "project_root_markers_from_config config =
     (case config of
        TTable table \<Rightarrow>
          (case map_of table (lit ''project_root_markers'') of
             None \<Rightarrow> Ok None
           | Some (TArray entries) \<Rightarrow>
               (case toml_strings entries of
                  Some markers \<Rightarrow> Ok (Some markers)
                | None \<Rightarrow> Err (LoadError (lit ''project_root_markers must be an array of strings'')))
           | Some _ \<Rightarrow> Err (LoadError (lit ''project_root_markers must be an array of strings'')))
      | _ \<Rightarrow> Ok None)"

definition default_project_root_markers :: "rstring list" where
  "default_project_root_markers = [lit ''.git'']"

record trust_context =
  tc_project_root :: apath
  tc_project_root_key :: rstring
  tc_repo_root_key :: "rstring option"
  tc_projects_trust :: "(rstring \<times> trust_level) list"
  tc_user_config_file :: apath

record project_trust_decision =
  td_trust_level :: "trust_level option"
  td_trust_key :: rstring

definition is_trusted :: "project_trust_decision \<Rightarrow> bool" where
  "is_trusted d \<longleftrightarrow> td_trust_level d = Some Trusted"

definition decision_for_dir :: "trust_context \<Rightarrow> apath \<Rightarrow> project_trust_decision" where
  "decision_for_dir tc dir =
     (let known = map_of (tc_projects_trust tc); dir_key = show_apath dir in
      case known dir_key of
        Some level \<Rightarrow> \<lparr>td_trust_level = Some level, td_trust_key = dir_key\<rparr>
      | None \<Rightarrow>
          (case known (tc_project_root_key tc) of
             Some level \<Rightarrow> \<lparr>td_trust_level = Some level, td_trust_key = tc_project_root_key tc\<rparr>
           | None \<Rightarrow>
               (case tc_repo_root_key tc of
                  Some key \<Rightarrow> \<lparr>td_trust_level = known key, td_trust_key = key\<rparr>
                | None \<Rightarrow> \<lparr>td_trust_level = None, td_trust_key = tc_project_root_key tc\<rparr>)))"

definition disabled_reason_for_dir :: "trust_context \<Rightarrow> apath \<Rightarrow> rstring option" where
  "disabled_reason_for_dir tc dir =
     (let decision = decision_for_dir tc dir; user_file = show_apath (tc_user_config_file tc) in
      if is_trusted decision then None
      else if td_trust_level decision = Some Untrusted
      then Some (td_trust_key decision @ lit '' is marked as untrusted in '' @ user_file @
             lit ''. To load config.toml, mark it trusted.'')
      else Some (lit ''To load config.toml, add '' @ td_trust_key decision @ lit '' as a trusted project in '' @ user_file @ lit ''.''))"

definition project_layer_entry ::
    "config_io \<Rightarrow> trust_context \<Rightarrow> apath \<Rightarrow> apath \<Rightarrow> toml \<Rightarrow> bool \<Rightarrow> config_layer_entry" where
  "project_layer_entry io tc dot_savfox_folder layer_dir config config_toml_exists =
     (case (config_toml_exists, disabled_reason_for_dir tc layer_dir) of
        (True, Some reason) \<Rightarrow> layer_new_disabled (io_version io) (Project dot_savfox_folder) config reason
      | _ \<Rightarrow> layer_new (io_version io) (Project dot_savfox_folder) config)"

definition find_project_root :: "config_io \<Rightarrow> apath \<Rightarrow> rstring list \<Rightarrow> apath" where
  "find_project_root io cwd markers =
     (if markers = [] then cwd
      else case List.find (\<lambda>ancestor. list_ex (io_marker io ancestor) markers) (ancestors cwd) of
             Some ancestor \<Rightarrow> ancestor
           | None \<Rightarrow> cwd)"

definition project_trust_context ::
    "config_io \<Rightarrow> toml \<Rightarrow> apath \<Rightarrow> rstring list \<Rightarrow> apath \<Rightarrow> apath \<Rightarrow> (load_error, trust_context) result" where
  "project_trust_context io merged_config cwd markers config_base_dir user_config_file =
     (case io_projects io config_base_dir merged_config of
        Inl e \<Rightarrow> Err (LoadError e)
      | Inr projects \<Rightarrow>
          (let project_root = find_project_root io cwd markers in
           Ok \<lparr>tc_project_root = project_root, tc_project_root_key = show_apath project_root,
               tc_repo_root_key = map_option show_apath (io_repo_root io cwd),
               tc_projects_trust = filter_map (\<lambda>(key, level). map_option (\<lambda>l. (key, l)) level) projects,
               tc_user_config_file = user_config_file\<rparr>))"

definition PROJECT_LOCAL_CONFIG_DENYLIST :: "rstring list" where
  "PROJECT_LOCAL_CONFIG_DENYLIST =
     [lit ''openai_base_url'', lit ''chatgpt_base_url'', lit ''model_provider'', lit ''model_providers'', lit ''notify'',
      lit ''profile'', lit ''profiles'', lit ''experimental_realtime_ws_base_url'']"

definition strip_project_local_config_denied_keys :: "toml \<Rightarrow> toml \<times> rstring list" where
  "strip_project_local_config_denied_keys config =
     (case config of
        TTable table \<Rightarrow>
          (TTable (fold AList.delete PROJECT_LOCAL_CONFIG_DENYLIST table),
           filter (\<lambda>key. map_of table key \<noteq> None) PROJECT_LOCAL_CONFIG_DENYLIST)
      | _ \<Rightarrow> (config, []))"

definition format_ignored_project_config_keys_warning :: "apath \<Rightarrow> rstring list \<Rightarrow> rstring" where
  "format_ignored_project_config_keys_warning config_file ignored_keys =
     lit ''Ignored unsupported project config keys in '' @ show_apath config_file @ lit '': '' @
     join_str (lit '', '') ignored_keys @ lit ''. Move these settings to user-level config.toml if you need them.''"

text \<open>The directories from the project's root down to the working directory.\<close>

fun scan_until :: "apath \<Rightarrow> apath list \<Rightarrow> apath list" where
  "scan_until root [] = []"
| "scan_until root (a # as) = a # (if a = root then [] else scan_until root as)"

definition project_dirs :: "apath \<Rightarrow> apath \<Rightarrow> apath list" where
  "project_dirs cwd project_root = rev (scan_until project_root (ancestors cwd))"

definition normalized_path :: "config_io \<Rightarrow> apath \<Rightarrow> apath" where
  "normalized_path io p = (case io_canonical io p of Some q \<Rightarrow> q | None \<Rightarrow> p)"

text \<open>One directory of the loop: no layer, or a layer with the warnings for it.\<close>

definition load_project_dir ::
    "config_io \<Rightarrow> trust_context \<Rightarrow> apath \<Rightarrow> apath \<Rightarrow> (load_error, (config_layer_entry \<times> rstring list) option) result" where
  "load_project_dir io tc savfox_home dir =
     (let dot_savfox = dir @ [lit ''.savfox''] in
      if io_metadata io dot_savfox \<noteq> MetaDir then Ok None
      else if dot_savfox = savfox_home \<or> normalized_path io dot_savfox = normalized_path io savfox_home then Ok None
      else and_then (resolve_preferred_config_file io (dot_savfox @ [CONFIG_TOML_FILE])) (\<lambda>config_file.
        case io_read io config_file of
          CfgText contents \<Rightarrow>
            (case parse_config_file_content io config_file contents of
               Inl e \<Rightarrow>
                 if is_trusted (decision_for_dir tc dir)
                 then Err (LoadError (lit ''Error parsing project config file '' @ show_apath config_file @ lit '': '' @ e))
                 else Ok (Some (project_layer_entry io tc dot_savfox dir (TTable []) True, []))
             | Inr config \<Rightarrow>
                 (let (config, ignored_keys) = strip_project_local_config_denied_keys config in
                  and_then (resolve_relative_paths_in_config_toml io config dot_savfox) (\<lambda>config.
                    let entry = project_layer_entry io tc dot_savfox dir config True in
                    Ok (Some (entry,
                      if ignored_keys \<noteq> [] \<and> \<not> is_disabled entry
                      then [format_ignored_project_config_keys_warning config_file ignored_keys] else [])))))
        | CfgNotFound \<Rightarrow> Ok (Some (project_layer_entry io tc dot_savfox dir (TTable []) False, []))
        | CfgFailed e \<Rightarrow>
            Err (LoadError (lit ''Failed to read project config file '' @ show_apath config_file @ lit '': '' @ e))))"

definition load_project_layers ::
    "config_io \<Rightarrow> apath \<Rightarrow> apath \<Rightarrow> trust_context \<Rightarrow> apath \<Rightarrow>
     (load_error, config_layer_entry list \<times> rstring list) result" where
  "load_project_layers io cwd project_root tc savfox_home =
     and_then (collect_results (load_project_dir io tc savfox_home) (project_dirs cwd project_root)) (\<lambda>rs.
       let found = filter_map (\<lambda>r. r) rs in Ok (map fst found, concat (map snd found)))"

section \<open>Loading\<close>

definition user_file_of :: "config_io \<Rightarrow> apath \<Rightarrow> (load_error, apath) result" where
  "user_file_of io savfox_home = resolve_preferred_config_file io (savfox_home @ [CONFIG_TOML_FILE])"

definition load_user_layer :: "config_io \<Rightarrow> apath \<Rightarrow> (load_error, config_layer_entry) result" where
  "load_user_layer io user_file =
     load_config_toml_for_required_layer io user_file (layer_new (io_version io) (User user_file))"

definition cli_overrides_layer :: "(rstring \<times> toml) list \<Rightarrow> toml option" where
  "cli_overrides_layer cli_overrides =
     (if cli_overrides = [] then None else Some (build_cli_overrides_layer cli_overrides))"

text \<open>The error shown when the settings that decide about projects are malformed.\<close>

definition pinpoint :: "config_io \<Rightarrow> config_layer_entry list \<Rightarrow> load_error \<Rightarrow> load_error" where
  "pinpoint io layers e = (case io_layer_error io layers of Some m \<Rightarrow> LoadError m | None \<Rightarrow> e)"

definition loader_trust ::
    "config_io \<Rightarrow> apath \<Rightarrow> apath \<Rightarrow> (rstring \<times> toml) list \<Rightarrow> apath \<Rightarrow> config_layer_entry \<Rightarrow>
     (load_error, trust_context) result" where
  "loader_trust io savfox_home cwd cli_overrides user_file user_layer =
     (let merged = merge_toml_values (TTable []) (ly_config user_layer);
          merged = (case cli_overrides_layer cli_overrides of Some c \<Rightarrow> merge_toml_values merged c | None \<Rightarrow> merged)
      in map_err (pinpoint io [user_layer])
           (and_then (project_root_markers_from_config merged) (\<lambda>markers.
             project_trust_context io merged cwd
               (case markers of Some ms \<Rightarrow> ms | None \<Rightarrow> default_project_root_markers) savfox_home user_file)))"

definition load_projects ::
    "config_io \<Rightarrow> apath \<Rightarrow> apath option \<Rightarrow> (rstring \<times> toml) list \<Rightarrow> apath \<Rightarrow> config_layer_entry \<Rightarrow>
     (load_error, config_layer_entry list \<times> rstring list) result" where
  "load_projects io savfox_home cwd cli_overrides user_file user_layer =
     (case cwd of
        None \<Rightarrow> Ok ([], [])
      | Some cwd \<Rightarrow>
          and_then (loader_trust io savfox_home cwd cli_overrides user_file user_layer) (\<lambda>tc.
            load_project_layers io cwd (tc_project_root tc) tc savfox_home))"

definition SYSTEM_CONFIG_TOML_FILE_UNIX :: apath where
  "SYSTEM_CONFIG_TOML_FILE_UNIX = [lit ''etc'', lit ''savfox'', lit ''config.toml'']"

definition DEFAULT_REQUIREMENTS_TOML_FILE_UNIX :: apath where
  "DEFAULT_REQUIREMENTS_TOML_FILE_UNIX = [lit ''etc'', lit ''savfox'', lit ''requirements.toml'']"

definition load_system_layer :: "config_io \<Rightarrow> (load_error, config_layer_entry) result" where
  "load_system_layer io =
     and_then (resolve_preferred_config_file io SYSTEM_CONFIG_TOML_FILE_UNIX) (\<lambda>system_file.
       load_config_toml_for_required_layer io system_file (layer_new (io_version io) (System system_file)))"

definition load_managed_layer :: "config_io \<Rightarrow> apath option \<Rightarrow> (load_error, config_layer_entry list) result" where
  "load_managed_layer io managed_config_path =
     (case managed_config_path of
        None \<Rightarrow> Ok []
      | Some path \<Rightarrow>
          and_then (load_config_toml_for_optional_layer io path (layer_new (io_version io) (System path)))
            (\<lambda>l. Ok (case l of Some l \<Rightarrow> [l] | None \<Rightarrow> [])))"

definition load_config_layers_state ::
    "config_io \<Rightarrow> apath \<Rightarrow> apath option \<Rightarrow> (rstring \<times> toml) list \<Rightarrow> apath option \<Rightarrow> config_requirements_toml option \<Rightarrow>
     (load_error, config_layer_stack) result" where
  "load_config_layers_state io savfox_home cwd cli_overrides managed_config_path cloud_requirements =
     (let requirements = (case cloud_requirements of
            Some r \<Rightarrow> merge_unset_fields CloudRequirements r no_requirements
          | None \<Rightarrow> no_requirements) in
      and_then (load_requirements_toml io DEFAULT_REQUIREMENTS_TOML_FILE_UNIX requirements) (\<lambda>requirements.
      and_then (user_file_of io savfox_home) (\<lambda>user_file.
      and_then (load_user_layer io user_file) (\<lambda>user_layer.
      and_then (load_projects io savfox_home cwd cli_overrides user_file user_layer) (\<lambda>(projects, warnings).
      and_then (load_system_layer io) (\<lambda>system_layer.
      and_then (load_managed_layer io managed_config_path) (\<lambda>managed.
      and_then (map_err RequirementError (requirements_try_from requirements)) (\<lambda>enforced.
      and_then (map_err LayerError
          (stack_new ([user_layer] @ projects @
             (case cli_overrides_layer cli_overrides of
                Some c \<Rightarrow> [layer_new (io_version io) SessionFlags c] | None \<Rightarrow> []) @
             [system_layer] @ managed) enforced (into_toml requirements))) (\<lambda>stack.
        Ok (with_startup_warnings warnings stack))))))))))"

section \<open>Values stay well-formed\<close>

text \<open>What is relied on: a parsed table has no key twice, and a configuration file holds a table.  A JSON or YAML file may hold
  another value; the second assumption leaves those files out.\<close>

definition unique_keys :: "config_io \<Rightarrow> bool" where
  "unique_keys io \<longleftrightarrow> (\<forall>s t. io_parse_toml io s = Inr t \<longrightarrow> toml_wf t) \<and>
     (\<forall>b t r. toml_wf t \<longrightarrow> io_typed io b t = Some (Inr r) \<longrightarrow> toml_wf r)"

definition tables_only :: "config_io \<Rightarrow> bool" where
  "tables_only io \<longleftrightarrow> (\<forall>f s t. parse_config_file_content io f s = Inr t \<longrightarrow> is_table t)"

lemma toml_number_wf [simp]: "toml_wf (toml_number s)"
  by (simp add: toml_number_def split: option.splits)

lemma fold_update_wf:
  assumes "\<forall>(k, v) \<in> set kvs. toml_wf (f v)" "toml_wf (TTable acc)"
  shows "toml_wf (TTable (fold (\<lambda>(k, v). AList.update k (f v)) kvs acc))"
  using assms
proof (induction kvs arbitrary: acc)
  case (Cons kv kvs)
  obtain k v where "kv = (k, v)"
    by fastforce
  then show ?case
    using Cons.IH [of "AList.update k (f v) acc"] Cons.prems toml_wf_update by (simp del: toml_wf.simps)
qed simp

lemma json_to_toml_wf: "toml_wf (json_to_toml_value j)"
proof (induction j rule: json_to_toml_value.induct)
  case (6 members)
  then have "\<forall>(k, v) \<in> set members. toml_wf (json_to_toml_value v)"
    by auto
  then show ?case
    using fold_update_wf [of members json_to_toml_value "[]"] by (simp only: json_to_toml_value.simps) simp
qed auto

lemma parsed_wf: "unique_keys io \<Longrightarrow> parse_config_file_content io f s = Inr t \<Longrightarrow> toml_wf t"
  by (auto simp: parse_config_file_content_def unique_keys_def Let_def json_to_toml_wf split: if_splits sum.splits)

lemma collect_keys:
  assumes "collect_results (\<lambda>(k, v). and_then (f v) (\<lambda>v. Inr (k, v))) kvs = Inr rs"
  shows "map fst rs = map fst kvs \<and> (\<forall>(k, r) \<in> set rs. \<exists>v. (k, v) \<in> set kvs \<and> f v = Inr r)"
  using assms
  by (induction kvs arbitrary: rs) (auto simp: collect_results_Cons and_then_eq_Inr split: sum.splits, fastforce+)

lemma collect_all:
  assumes "collect_results f xs = Inr rs"
  shows "\<forall>r \<in> set rs. \<exists>x \<in> set xs. f x = Inr r"
  using assms by (fastforce simp: collect_results_Inr list_all2_conv_all_nth in_set_conv_nth)

lemma substitute_wf: "toml_wf t \<Longrightarrow> substitute_env_vars io t = Inr r \<Longrightarrow> toml_wf r"
proof (induction io t arbitrary: r rule: substitute_env_vars.induct)
  case (2 io items)
  then show ?case
    by (auto simp: and_then_eq_Inr dest!: collect_all) blast
next
  case (3 io table)
  then obtain rs where rs: "collect_results (\<lambda>(k, v). and_then (substitute_env_vars io v) (\<lambda>v. Inr (k, v))) table = Inr rs" "r = TTable rs"
    by (auto simp: and_then_eq_Inr)
  have "toml_wf x" if "(k, x) \<in> set rs" for k x
    using 3 collect_keys [OF rs(1)] that by fastforce
  then show ?case
    using 3 rs(2) collect_keys [OF rs(1)] by auto
qed (auto simp: and_then_eq_Inr)

lemma substitute_table: "is_table t \<Longrightarrow> substitute_env_vars io t = Inr r \<Longrightarrow> is_table r"
  by (cases t) (auto simp: and_then_eq_Inr)

text \<open>Taking the shape of the original keeps its keys.\<close>

lemma copy_shape_wf: "toml_wf t \<Longrightarrow> toml_wf r \<Longrightarrow> toml_wf (copy_shape_from_original t r)"
proof (induction t r rule: copy_shape_from_original.induct)
  case (1 original resolved)
  have "toml_wf (case map_of resolved k of Some r \<Rightarrow> r | None \<Rightarrow> v)" if "(k, v) \<in> set original" for k v
    using 1 that toml_wf_lookup [OF "1.prems"(2)] by (auto split: option.splits)
  then show ?case
    using 1 by (auto simp: comp_def case_prod_unfold)
next
  case (2 original resolved)
  have "v \<in> set original" if "(i, v) \<in> set (enumerate 0 original)" for i v
    using that by (auto simp: in_set_enumerate_eq)
  then show ?case
    using 2 by fastforce
qed auto

text \<open>The two ways a value comes out of the resolution of paths.\<close>

lemma resolve_paths_cases:
  assumes "resolve_relative_paths_in_config_toml io t b = Inr r"
  obtains (plain) "substitute_env_vars io t = Inr r"
  | (typed) u w where "substitute_env_vars io t = Inr u" "io_typed io b u = Some (Inr w)" "r = copy_shape_from_original u w"
  using assms by (auto simp: resolve_relative_paths_in_config_toml_def split: option.splits sum.splits)

lemma resolve_paths_wf:
  assumes io: "unique_keys io" and t: "toml_wf t" and r: "resolve_relative_paths_in_config_toml io t b = Inr r"
  shows "toml_wf r"
  using r
proof (cases rule: resolve_paths_cases)
  case plain
  then show ?thesis
    by (rule substitute_wf [OF t])
next
  case (typed u w)
  then have "toml_wf u"
    using substitute_wf [OF t] by blast
  moreover from this have "toml_wf w"
    using io typed(2) unfolding unique_keys_def by blast
  ultimately show ?thesis
    using typed copy_shape_wf by simp
qed

lemma read_config_cases:
  assumes "read_config io f = Inr (Some t)"
  obtains s u b where "parse_config_file_content io f s = Inr u" "resolve_relative_paths_in_config_toml io u b = Inr t"
  using assms by (auto simp: read_config_def and_then_eq_Inr split: cfg_read.splits sum.splits option.splits)

lemma read_config_wf: "unique_keys io \<Longrightarrow> read_config io f = Inr (Some t) \<Longrightarrow> toml_wf t"
  by (metis parsed_wf read_config_cases resolve_paths_wf)

section \<open>Project layers\<close>

definition lacks :: "rstring \<Rightarrow> toml \<Rightarrow> bool" where
  "lacks k t = (case t of TTable tb \<Rightarrow> k \<notin> fst ` set tb | _ \<Rightarrow> False)"

lemma lacks_view: "lacks k t \<Longrightarrow> toml_view (k # p) t = Silent"
  by (cases t) (simp_all add: lacks_def map_of_eq_None_iff [THEN iffD2])

lemma fold_delete: "fold AList.delete ks tb = filter (\<lambda>kv. fst kv \<notin> set ks) tb"
  by (induction ks arbitrary: tb) (auto simp: AList.delete_eq case_prod_unfold intro!: filter_cong)

lemma strip_wf:
  assumes "strip_project_local_config_denied_keys t = (u, ignored)" "toml_wf t"
  shows "toml_wf u"
  using assms
  by (cases t) (auto simp: strip_project_local_config_denied_keys_def fold_delete distinct_map_filter)

lemma strip_lacks:
  assumes "strip_project_local_config_denied_keys t = (u, ignored)" "is_table t" "k \<in> set PROJECT_LOCAL_CONFIG_DENYLIST"
  shows "lacks k u"
  using assms by (cases t) (auto simp: strip_project_local_config_denied_keys_def fold_delete lacks_def)

lemma substitute_lacks:
  assumes "lacks k t" "substitute_env_vars io t = Inr r"
  shows "lacks k r"
proof -
  obtain tb where t: "t = TTable tb" "k \<notin> set (map fst tb)"
    using assms(1) by (cases t) (auto simp: lacks_def)
  then obtain rs where rs: "collect_results (\<lambda>(k, v). and_then (substitute_env_vars io v) (\<lambda>v. Inr (k, v))) tb = Inr rs" "r = TTable rs"
    using assms(2) by (auto simp: and_then_eq_Inr)
  then have "k \<notin> set (map fst rs)"
    using collect_keys [OF rs(1)] t(2) by metis
  then show ?thesis
    using rs(2) by (simp add: lacks_def)
qed

lemma copy_lacks:
  assumes "lacks k t"
  shows "toml_view (k # p) (copy_shape_from_original t r) \<noteq> Says v"
proof -
  obtain tb where t: "t = TTable tb" "k \<notin> fst ` set tb"
    using assms by (cases t) (auto simp: lacks_def)
  show ?thesis
  proof (cases r)
    case (TTable tr)
    then have "lacks k (copy_shape_from_original t r)"
      using t by (force simp: lacks_def)
    then show ?thesis
      using lacks_view by simp
  qed (use t in simp_all)
qed

lemma resolve_lacks:
  assumes "lacks k t" "resolve_relative_paths_in_config_toml io t b = Inr r"
  shows "toml_view (k # p) r \<noteq> Says v"
  using assms(2)
proof (cases rule: resolve_paths_cases)
  case plain
  then show ?thesis
    using substitute_lacks [OF assms(1)] lacks_view by fastforce
next
  case (typed u w)
  then show ?thesis
    using substitute_lacks [OF assms(1)] copy_lacks by blast
qed

text \<open>What a project layer may hold: nothing for the keys it must not set, and nothing at all while it is enabled in a
  project that is not trusted.\<close>

definition contained :: "trust_context \<Rightarrow> config_layer_entry \<Rightarrow> bool" where
  "contained tc l \<longleftrightarrow>
     (\<forall>k \<in> set PROJECT_LOCAL_CONFIG_DENYLIST. \<forall>p v. toml_view (k # p) (ly_config l) \<noteq> Says v) \<and>
     (\<not> is_disabled l \<longrightarrow> ly_config l = TTable [] \<or>
        (\<exists>d. ly_name l = Project d \<and> is_trusted (decision_for_dir tc (butlast d))))"

abbreviation dot_savfox :: rstring where
  "dot_savfox \<equiv> lit ''.savfox''"

lemma project_layer_entry_fields [simp]:
  "ly_name (project_layer_entry io tc d dir c e) = Project d" "ly_config (project_layer_entry io tc d dir c e) = c"
  "is_disabled (project_layer_entry io tc d dir c e) \<longleftrightarrow> e \<and> \<not> is_trusted (decision_for_dir tc dir)"
  by (auto simp: project_layer_entry_def layer_new_def layer_new_disabled_def is_disabled_def disabled_reason_for_dir_def Let_def
      split: option.splits bool.splits)

lemma empty_view [simp]: "toml_view (k # p) (TTable []) = Silent"
  by simp

text \<open>A layer comes from an empty or missing file, or from one that was read, stripped and resolved.\<close>

lemma load_project_dir_cases:
  assumes "load_project_dir io tc home dir = Inr (Some (l, ws))"
  obtains (empty) e where "l = project_layer_entry io tc (dir @ [dot_savfox]) dir (TTable []) e"
  | (read) f s t u ignored c where "parse_config_file_content io f s = Inr t"
      "strip_project_local_config_denied_keys t = (u, ignored)"
      "resolve_relative_paths_in_config_toml io u (dir @ [dot_savfox]) = Inr c"
      "l = project_layer_entry io tc (dir @ [dot_savfox]) dir c True"
proof -
  obtain f where f: "resolve_preferred_config_file io ((dir @ [dot_savfox]) @ [CONFIG_TOML_FILE]) = Inr f"
    using assms by (auto simp: load_project_dir_def Let_def and_then_eq_Inr simp del: lit_Cons append_assoc split: if_splits)
  show thesis
  proof (cases "io_read io f")
    case (CfgText s)
    show thesis
    proof (cases "parse_config_file_content io f s")
      case (Inl e)
      then show thesis
        using assms f CfgText empty by (auto simp: load_project_dir_def Let_def simp del: lit_Cons append_assoc split: if_splits)
    next
      case (Inr t)
      obtain u ignored where "strip_project_local_config_denied_keys t = (u, ignored)"
        by fastforce
      then show thesis
        using assms f CfgText Inr read
        by (auto simp: load_project_dir_def Let_def and_then_eq_Inr simp del: lit_Cons append_assoc split: if_splits)
    qed
  next
    case CfgNotFound
    then show thesis
      using assms f empty by (auto simp: load_project_dir_def Let_def simp del: lit_Cons append_assoc split: if_splits)
  next
    case (CfgFailed e)
    then show thesis
      using assms f by (auto simp: load_project_dir_def Let_def simp del: lit_Cons append_assoc split: if_splits)
  qed
qed

lemma load_project_dir_layer:
  assumes io: "unique_keys io" "tables_only io" and l: "load_project_dir io tc home dir = Inr (Some (l, ws))"
  shows "ly_name l = Project (dir @ [dot_savfox]) \<and> toml_wf (ly_config l) \<and> contained tc l"
  using l
proof (cases rule: load_project_dir_cases)
  case empty
  then show ?thesis
    by (simp add: contained_def del: lit_Cons)
next
  case (read f s t u ignored c)
    have t: "toml_wf t" "is_table t"
      using parsed_wf [OF io(1) read(1)] io(2) read(1) by (auto simp: tables_only_def)
    have "toml_wf c"
      using resolve_paths_wf [OF io(1) strip_wf [OF read(2) t(1)] read(3)] .
    moreover have "\<forall>k \<in> set PROJECT_LOCAL_CONFIG_DENYLIST. \<forall>p v. toml_view (k # p) c \<noteq> Says v"
      using resolve_lacks [OF strip_lacks [OF read(2) t(2)] read(3)] by blast
    ultimately show ?thesis
      using read(4) by (simp add: contained_def del: lit_Cons)
qed

section \<open>The order of project folders\<close>

lemma prefixes_chain: "sorted_wrt strict_prefix (prefixes p)"
  by (induction p) (auto simp: sorted_wrt_map strict_prefix_def)

lemma scan_until_prefix: "\<exists>rest. as = scan_until root as @ rest"
  by (induction as) auto

lemma project_dirs_chain: "sorted_wrt strict_prefix (project_dirs cwd root)"
proof -
  obtain rest where "ancestors cwd = scan_until root (ancestors cwd) @ rest"
    using scan_until_prefix by blast
  then have "prefixes cwd = rev rest @ project_dirs cwd root"
    by (metis ancestors_def project_dirs_def rev_append rev_rev_ident)
  then show ?thesis
    using prefixes_chain [of cwd] by (simp add: sorted_wrt_append)
qed

lemma folders_follow:
  assumes "strict_prefix d e"
  shows "project_follows (d @ [x]) (e @ [x]) = Inr ()"
proof -
  have "prefix d (e @ [x])" "d \<noteq> e"
    using assms by (auto simp: strict_prefix_def intro: prefix_prefix)
  then show ?thesis
    by (simp add: project_follows_def apath_parent_def ancestors_def)
qed

lemma folders_nested_chain: "sorted_wrt strict_prefix ds \<Longrightarrow> folders_nested (map (\<lambda>d. d @ [x]) ds)"
proof (induction ds)
  case (Cons d ds)
  then show ?case
    by (cases ds) (simp_all add: folders_follow)
qed simp

lemma loaded_dirs:
  assumes io: "unique_keys io" "tables_only io"
    and "collect_results (load_project_dir io tc home) ds = Inr rs" "sorted_wrt strict_prefix ds"
  shows "\<exists>es. set es \<subseteq> set ds \<and> sorted_wrt strict_prefix es \<and>
    map (\<lambda>x. ly_name (fst x)) (filter_map (\<lambda>r. r) rs) = map (\<lambda>d. Project (d @ [dot_savfox])) es"
  using assms(3,4)
proof (induction ds arbitrary: rs)
  case (Cons d ds)
  obtain r rs' where r: "load_project_dir io tc home d = Inr r" "collect_results (load_project_dir io tc home) ds = Inr rs'" "rs = r # rs'"
    using Cons.prems(1) by (auto simp: collect_results_Cons split: sum.splits)
  obtain es where es: "set es \<subseteq> set ds" "sorted_wrt strict_prefix es"
    "map (\<lambda>x. ly_name (fst x)) (filter_map (\<lambda>r. r) rs') = map (\<lambda>d. Project (d @ [dot_savfox])) es"
    using Cons.IH [OF r(2)] Cons.prems(2) by auto
  show ?case
  proof (cases r)
    case None
    then show ?thesis
      using es r(3) by auto
  next
    case (Some lw)
    then have "ly_name (fst lw) = Project (d @ [dot_savfox])"
      using load_project_dir_layer [OF io] r(1) by (metis prod.collapse)
    then show ?thesis
      using es r(3) Some Cons.prems(2) by (intro exI [of _ "d # es"]) auto
  qed
qed simp

definition is_project :: "config_layer_entry \<Rightarrow> bool" where
  "is_project l = (case ly_name l of Project _ \<Rightarrow> True | _ \<Rightarrow> False)"

lemma load_project_layers_ok:
  assumes io: "unique_keys io" "tables_only io" and ok: "load_project_layers io cwd root tc home = Inr (ls, ws)"
  shows "\<forall>l \<in> set ls. is_project l \<and> toml_wf (ly_config l) \<and> contained tc l" "folders_nested (filter_map project_folder ls)"
proof -
  obtain rs where rs: "collect_results (load_project_dir io tc home) (project_dirs cwd root) = Inr rs" "ls = map fst (filter_map (\<lambda>r. r) rs)"
    using ok by (auto simp: load_project_layers_def and_then_eq_Inr Let_def)
  show "\<forall>l \<in> set ls. is_project l \<and> toml_wf (ly_config l) \<and> contained tc l"
  proof
    fix l
    assume "l \<in> set ls"
    then obtain w where "Some (l, w) \<in> set rs"
      using rs(2) by (auto simp: set_filter_map)
    then obtain d where "load_project_dir io tc home d = Inr (Some (l, w))"
      using collect_all [OF rs(1)] by blast
    then show "is_project l \<and> toml_wf (ly_config l) \<and> contained tc l"
      using load_project_dir_layer [OF io] by (fastforce simp: is_project_def)
  qed
  obtain es where es: "sorted_wrt strict_prefix es" "map ly_name ls = map (\<lambda>d. Project (d @ [dot_savfox])) es"
    using loaded_dirs [OF io rs(1) project_dirs_chain] rs(2) by (auto simp: comp_def simp del: lit_Cons)
  have "filter_map project_folder ls = map (\<lambda>d. d @ [dot_savfox]) es"
    using es(2) by (induction ls arbitrary: es) auto
  then show "folders_nested (filter_map project_folder ls)"
    using folders_nested_chain [OF es(1)] by simp
qed

section \<open>The loaded stack\<close>

text \<open>The parts a load puts together.\<close>

definition flag_layers :: "config_io \<Rightarrow> (rstring \<times> toml) list \<Rightarrow> config_layer_entry list" where
  "flag_layers io cli =
     (case cli_overrides_layer cli of Some c \<Rightarrow> [layer_new (io_version io) SessionFlags c] | None \<Rightarrow> [])"

lemma required_layer:
  assumes "unique_keys io" "load_config_toml_for_required_layer io f (layer_new ver n) = Inr l"
  shows "ly_name l = n \<and> toml_wf (ly_config l)"
  using assms read_config_wf
  by (auto simp: load_config_toml_for_required_layer_def and_then_eq_Inr split: option.splits)

lemma managed_layers:
  assumes "unique_keys io" "load_managed_layer io path = Inr ls"
  shows "\<forall>l \<in> set ls. (\<exists>f. ly_name l = System f) \<and> toml_wf (ly_config l)"
  using assms read_config_wf
  by (auto simp: load_managed_layer_def load_config_toml_for_optional_layer_def and_then_eq_Inr split: option.splits)

lemma flag_layers_ok:
  assumes "\<forall>(p, v) \<in> set cli. toml_wf v"
  shows "\<forall>l \<in> set (flag_layers io cli). ly_name l = SessionFlags \<and> toml_wf (ly_config l)"
  using build_overrides_wf [OF assms] by (auto simp: flag_layers_def cli_overrides_layer_def)

text \<open>Layers put together by kind are in the right order.\<close>

definition kinds_ok ::
    "config_layer_entry \<Rightarrow> config_layer_entry list \<Rightarrow> config_layer_entry list \<Rightarrow> config_layer_entry list \<Rightarrow> bool" where
  "kinds_ok u ps fs ms \<longleftrightarrow> is_user u \<and> (\<forall>l \<in> set ps. is_project l) \<and> (\<forall>l \<in> set fs. ly_name l = SessionFlags) \<and>
     (\<forall>l \<in> set ms. \<exists>f. ly_name l = System f)"

lemma precedences:
  "is_user l \<Longrightarrow> layer_precedence (ly_name l) = 0" "is_project l \<Longrightarrow> layer_precedence (ly_name l) = 10"
  by (auto simp: is_user_def is_project_def split: config_layer_source.splits)

lemma sorted_const: "\<forall>x \<in> set xs. f x = (c :: int) \<Longrightarrow> sorted (map f xs)"
  by (induction xs) auto

lemma kinds_ordered:
  assumes k: "kinds_ok u ps fs ms" and n: "folders_nested (filter_map project_folder ps)"
  shows "verify_layer_ordering (u # ps @ fs @ ms) = Inr (Some 0)"
proof -
  let ?prec = "\<lambda>l. layer_precedence (ly_name l)"
  have p: "?prec u = 0" "\<forall>l \<in> set ps. ?prec l = 10" "\<forall>l \<in> set fs. ?prec l = 20" "\<forall>l \<in> set ms. ?prec l = 30"
    using k precedences by (auto simp: kinds_ok_def)
  then have "sorted (map ?prec (u # ps @ fs @ ms))"
    using sorted_const [of ps ?prec 10] sorted_const [of fs ?prec 20] sorted_const [of ms ?prec 30]
    by (auto simp: sorted_append)
  moreover have none: "\<forall>l \<in> set ps \<union> set fs \<union> set ms. \<not> is_user l"
    using p by (auto simp: user_precedence)
  then have "filter is_user (ps @ fs @ ms) = []"
    by auto
  moreover have "filter_map project_folder (fs @ ms) = []" "project_folder u = None"
    using k by (auto simp: kinds_ok_def filter_map_eq_Nil is_user_def split: config_layer_source.splits)
  ultimately show ?thesis
    using k n by (simp add: verify_layer_ordering_iff kinds_ok_def filter_map_append)
qed

lemma map_err_Inr [simp]: "map_err f r = Inr v \<longleftrightarrow> r = Inr v"
  by (cases r) (simp_all add: map_err_def)

text \<open>The successful steps of a load.\<close>

lemma load_parts:
  assumes "load_config_layers_state io home cwd cli managed cloud = Inr s"
  obtains uf u ps ws sl ms where "user_file_of io home = Inr uf" "load_user_layer io uf = Inr u"
    "load_projects io home cwd cli uf u = Inr (ps, ws)" "load_system_layer io = Inr sl" "load_managed_layer io managed = Inr ms"
    "ls_layers s = u # ps @ flag_layers io cli @ sl # ms"
    "verify_layer_ordering (ls_layers s) = Inr (ls_user_layer_index s)"
  using assms
  by (auto simp: load_config_layers_state_def Let_def and_then_eq_Inr stack_new_def with_startup_warnings_def simp flip: flag_layers_def)

lemma load_projects_ok:
  assumes io: "unique_keys io" "tables_only io" and ok: "load_projects io home cwd cli uf u = Inr (ps, ws)"
  shows "\<forall>l \<in> set ps. is_project l \<and> toml_wf (ly_config l) \<and>
      (\<exists>dir tc. cwd = Some dir \<and> loader_trust io home dir cli uf u = Inr tc \<and> contained tc l)"
    and "folders_nested (filter_map project_folder ps)"
proof -
  have "ps = [] \<or> (\<exists>dir tc. cwd = Some dir \<and> loader_trust io home dir cli uf u = Inr tc \<and>
      load_project_layers io dir (tc_project_root tc) tc home = Inr (ps, ws))"
    using ok by (auto simp: load_projects_def and_then_eq_Inr split: option.splits)
  then show "\<forall>l \<in> set ps. is_project l \<and> toml_wf (ly_config l) \<and>
      (\<exists>dir tc. cwd = Some dir \<and> loader_trust io home dir cli uf u = Inr tc \<and> contained tc l)"
    "folders_nested (filter_map project_folder ps)"
    using load_project_layers_ok [OF io] by fastforce+
qed

lemma loaded_kinds:
  assumes io: "unique_keys io" "tables_only io" and cli: "\<forall>(p, v) \<in> set cli. toml_wf v"
    and u: "load_user_layer io uf = Inr u" and ps: "load_projects io home cwd cli uf u = Inr (ps, ws)"
    and sl: "load_system_layer io = Inr sl" and ms: "load_managed_layer io managed = Inr ms"
  shows "kinds_ok u ps (flag_layers io cli) (sl # ms)" "folders_nested (filter_map project_folder ps)"
    and "\<forall>l \<in> set (u # ps @ flag_layers io cli @ sl # ms). toml_wf (ly_config l)"
proof -
  have u': "ly_name u = User uf" "toml_wf (ly_config u)"
    using u required_layer [OF io(1)] by (auto simp: load_user_layer_def)
  have sl': "\<exists>f. ly_name sl = System f" "toml_wf (ly_config sl)"
    using sl required_layer [OF io(1)] by (auto simp: load_system_layer_def and_then_eq_Inr)
  note rest = load_projects_ok [OF io ps] flag_layers_ok [OF cli, of io] managed_layers [OF io(1) ms]
  show "kinds_ok u ps (flag_layers io cli) (sl # ms)"
    using u' sl' rest by (auto simp: kinds_ok_def is_user_def)
  show "folders_nested (filter_map project_folder ps)"
    using rest by blast
  show "\<forall>l \<in> set (u # ps @ flag_layers io cli @ sl # ms). toml_wf (ly_config l)"
    using u' sl' rest by auto
qed

subsection \<open>No error about the order\<close>

definition order_sound :: "(load_error, 'a) result \<Rightarrow> bool" where
  "order_sound r = (case r of Inl (LayerError _) \<Rightarrow> False | _ \<Rightarrow> True)"

named_theorems sound_steps \<open>steps of a load that report no error about the order of layers\<close>

lemma order_sound_base [simp]:
  "order_sound (Inr v)" "order_sound (Inl (LoadError e))" "order_sound (map_err RequirementError q)"
  by (cases q; simp_all add: order_sound_def map_err_def)+

lemma order_sound_and_then: "order_sound r \<Longrightarrow> (\<And>a. r = Inr a \<Longrightarrow> order_sound (f a)) \<Longrightarrow> order_sound (and_then r f)"
  by (cases r) (auto simp: order_sound_def)

lemma preferred_sound [sound_steps]: "order_sound (resolve_preferred_config_file io f)"
  by (auto simp: resolve_preferred_config_file_def Let_def simp del: lit_Cons find_map.simps split: option.splits dest!: find_map_Some
      split: cfg_meta.splits)

lemma resolve_sound [sound_steps]: "order_sound (resolve_relative_paths_in_config_toml io t b)"
  by (simp add: resolve_relative_paths_in_config_toml_def split: sum.splits option.splits)

lemma read_sound [sound_steps]: "order_sound (read_config io f)"
  by (auto simp: read_config_def sound_steps split: cfg_read.splits sum.splits option.splits intro!: order_sound_and_then)

lemma layer_files_sound [sound_steps]:
  "order_sound (load_config_toml_for_required_layer io f mk)" "order_sound (load_config_toml_for_optional_layer io f mk)"
  by (auto simp: load_config_toml_for_required_layer_def load_config_toml_for_optional_layer_def sound_steps
      intro!: order_sound_and_then)

lemma requirements_sound [sound_steps]: "order_sound (load_requirements_toml io f r)"
  by (simp add: load_requirements_toml_def split: cfg_read.splits sum.splits)

lemma project_dir_sound [sound_steps]: "order_sound (load_project_dir io tc home d)"
  by (auto simp: load_project_dir_def Let_def sound_steps split: cfg_read.splits sum.splits prod.splits
      intro!: order_sound_and_then)

lemma collect_sound:
  assumes "\<And>x. order_sound (f x)"
  shows "order_sound (collect_results f xs)"
proof (induction xs)
  case (Cons x xs)
  then show ?case
    using assms [of x] by (cases "f x"; cases "collect_results f xs") (simp_all add: order_sound_def)
qed simp

lemma trust_sound [sound_steps]: "order_sound (loader_trust io home dir cli uf u)"
  by (auto simp: loader_trust_def project_root_markers_from_config_def project_trust_context_def map_err_def pinpoint_def
      order_sound_def Let_def and_then_def simp del: lit_Cons split: sum.splits option.splits toml.splits)

lemma projects_sound [sound_steps]: "order_sound (load_projects io home cwd cli uf u)"
  by (auto simp: load_projects_def load_project_layers_def sound_steps collect_sound Let_def split: option.splits
      intro!: order_sound_and_then)

lemma other_layers_sound [sound_steps]:
  "order_sound (user_file_of io home)" "order_sound (load_user_layer io uf)" "order_sound (load_system_layer io)"
  "order_sound (load_managed_layer io managed)"
  by (auto simp: user_file_of_def load_user_layer_def load_system_layer_def load_managed_layer_def sound_steps split: option.splits
      intro!: order_sound_and_then)

lemma stack_sound:
  assumes "unique_keys io" "tables_only io" "\<forall>(p, v) \<in> set cli. toml_wf v" "load_user_layer io uf = Inr u"
    "load_projects io home cwd cli uf u = Inr (ps, ws)" "load_system_layer io = Inr sl" "load_managed_layer io managed = Inr ms"
  shows "order_sound (map_err LayerError (stack_new (u # ps @ flag_layers io cli @ sl # ms) enforced raw))"
  using kinds_ordered [OF loaded_kinds(1,2) [OF assms]] by (simp add: stack_new_def map_err_def)

text \<open>
  Loading the configuration puts the layers in order: it never fails because of their order, whatever files,
  projects and flags there are, and a loaded stack is well-formed and has a user layer.
\<close>
lemma loading_orders_layers:
  assumes io: "unique_keys io" "tables_only io" and cli: "\<forall>(p, v) \<in> set cli. toml_wf v"
  shows "load_config_layers_state io home cwd cli managed cloud \<noteq> Inl (LayerError e) \<and>
    (\<forall>s. load_config_layers_state io home cwd cli managed cloud = Inr s \<longrightarrow> stack_wf s \<and> get_user_layer s \<noteq> None)"
proof
  have "order_sound (load_config_layers_state io home cwd cli managed cloud)"
    using stack_sound [OF io cli]
    by (auto simp: load_config_layers_state_def Let_def sound_steps simp flip: flag_layers_def intro!: order_sound_and_then)
  then show "load_config_layers_state io home cwd cli managed cloud \<noteq> Inl (LayerError e)"
    by (auto simp: order_sound_def)
  show "\<forall>s. load_config_layers_state io home cwd cli managed cloud = Inr s \<longrightarrow> stack_wf s \<and> get_user_layer s \<noteq> None"
  proof (intro allI impI)
    fix s
    assume "load_config_layers_state io home cwd cli managed cloud = Inr s"
    then obtain uf u ps ws sl ms where p: "load_user_layer io uf = Inr u" "load_projects io home cwd cli uf u = Inr (ps, ws)"
        "load_system_layer io = Inr sl" "load_managed_layer io managed = Inr ms"
        "ls_layers s = u # ps @ flag_layers io cli @ sl # ms"
        "verify_layer_ordering (ls_layers s) = Inr (ls_user_layer_index s)"
      by (rule load_parts)
    note k = loaded_kinds [OF io cli p(1-4)]
    have "ls_user_layer_index s = Some 0"
      using kinds_ordered [OF k(1,2)] p(5,6) by simp
    then show "stack_wf s \<and> get_user_layer s \<noteq> None"
      using k(3) p(5,6) by (simp add: stack_wf_def get_user_layer_def)
  qed
qed

section \<open>What a project can set\<close>

lemma decide_source:
  assumes "decide p ts = Some v"
  shows "\<exists>t \<in> set ts. toml_view p t = Says v"
  using assms unfolding decide_def
proof (induction ts)
  case (Cons t ts)
  then show ?case
    by (cases "toml_view p t") auto
qed simp


text \<open>A placeholder that demands an environment variable stops the load even when it stands in the configuration of a project
  that is not trusted, whose syntax errors are ignored.\<close>

lemma untrusted_placeholder_stops_loading:
  assumes "io_metadata io (dir @ [dot_savfox]) = MetaDir" "dir @ [dot_savfox] \<noteq> home"
    "normalized_path io (dir @ [dot_savfox]) \<noteq> normalized_path io home"
    "resolve_preferred_config_file io ((dir @ [dot_savfox]) @ [CONFIG_TOML_FILE]) = Inr f" "io_read io f = CfgText s"
    "parse_config_file_content io f s = Inr t"
    "substitute_env_vars io (fst (strip_project_local_config_denied_keys t)) = Inl e"
  shows "load_project_dir io tc home dir = Inl (LoadError e)"
  using assms
  by (auto simp: load_project_dir_def Let_def resolve_relative_paths_in_config_toml_def simp del: lit_Cons append_assoc
      split: prod.splits)

text \<open>Text without a placeholder is not changed.\<close>

lemma expand_plain: "split_once (lit ''${'') s = None \<Longrightarrow> expand_env_placeholders io s = Inr s"
  by (simp add: expand_env_placeholders.simps [of io s] del: lit_Cons)

section \<open>An example\<close>

text \<open>A user who trusts the project \<open>/w\<close>, and a project configuration that sets a provider and a model.\<close>

definition sample_io :: config_io where
  "sample_io =
     \<lparr>io_metadata = (\<lambda>p. if p = [lit ''w'', lit ''.savfox''] then MetaDir else MetaNotFound),
      io_read = (\<lambda>p. if p = [lit ''w'', lit ''.savfox'', lit ''config.toml''] then CfgText (lit ''p'') else CfgNotFound),
      io_marker = (\<lambda>_ _. False), io_canonical = (\<lambda>_. None), io_env = (\<lambda>_. None),
      io_parse_toml = (\<lambda>_. Inr (TTable [(lit ''notify'', TBoolean True), (lit ''model'', TInteger 4)])),
      io_parse_json = (\<lambda>_. Inl []), io_parse_yaml = (\<lambda>_. Inl []), io_parse_requirements = (\<lambda>_. Inl []),
      io_typed = (\<lambda>_ _. None), io_projects = (\<lambda>_ _. Inr [(lit ''/w'', Some Trusted)]), io_repo_root = (\<lambda>_. None),
      io_layer_error = (\<lambda>_. None), io_version = (\<lambda>_. [])\<rparr>"

lemma sample_io_sound: "unique_keys sample_io" "tables_only sample_io"
  by (auto simp: unique_keys_def tables_only_def parse_config_file_content_def sample_io_def Let_def split: if_splits)

definition sample_project :: config_layer_entry where
  "sample_project = layer_new (\<lambda>_. []) (Project [lit ''w'', lit ''.savfox'']) (TTable [(lit ''model'', TInteger 4)])"

lemma toml_extension: "path_extension (lit ''config.toml'') = Some (lit ''toml'')"
  by (simp add: path_extension_def path_file_name_def path_components_def component_of_def rposition_def Let_def)

definition sample_trust :: trust_context where
  "sample_trust = \<lparr>tc_project_root = [lit ''w''], tc_project_root_key = lit ''/w'', tc_repo_root_key = None,
     tc_projects_trust = [(lit ''/w'', Trusted)], tc_user_config_file = [lit ''h'', lit ''config.toml'']\<rparr>"

lemma sample_trusted: "is_trusted (decision_for_dir sample_trust [lit ''w''])"
  by (simp add: is_trusted_def decision_for_dir_def sample_trust_def show_apath_def Let_def)

lemma sample_dir_loads:
  "load_project_dir sample_io sample_trust [lit ''h''] [lit ''w''] =
     Inr (Some (sample_project,
       [format_ignored_project_config_keys_warning [lit ''w'', lit ''.savfox'', lit ''config.toml''] [lit ''notify'']]))"
  using sample_trusted toml_extension
  by (simp add: load_project_dir_def Let_def sample_io_def normalized_path_def resolve_preferred_config_file_def apath_parent_def
      CONFIG_TOML_FILE_def parse_config_file_content_def strip_project_local_config_denied_keys_def
      PROJECT_LOCAL_CONFIG_DENYLIST_def resolve_relative_paths_in_config_toml_def project_layer_entry_def
      disabled_reason_for_dir_def sample_project_def is_disabled_def layer_new_def)

lemma sample_user:
  "user_file_of sample_io [lit ''h''] = Inr [lit ''h'', lit ''config.toml'']"
  "load_user_layer sample_io [lit ''h'', lit ''config.toml''] =
     Inr (layer_new (\<lambda>_. []) (User [lit ''h'', lit ''config.toml'']) (TTable []))"
  by (simp_all add: user_file_of_def resolve_preferred_config_file_def apath_parent_def CONFIG_TOML_FILE_def sample_io_def
      load_user_layer_def load_config_toml_for_required_layer_def read_config_def Let_def)

lemma sample_loader_trust:
  "loader_trust sample_io [lit ''h''] [lit ''w''] [] [lit ''h'', lit ''config.toml'']
     (layer_new (\<lambda>_. []) (User [lit ''h'', lit ''config.toml'']) (TTable [])) = Inr sample_trust"
  by (simp add: loader_trust_def cli_overrides_layer_def project_root_markers_from_config_def project_trust_context_def
      find_project_root_def ancestors_def sample_io_def sample_trust_def show_apath_def Let_def)

lemma sample_system:
  "load_system_layer sample_io =
     Inr (layer_new (\<lambda>_. []) (System SYSTEM_CONFIG_TOML_FILE_UNIX) (TTable []))"
  by (simp add: load_system_layer_def resolve_preferred_config_file_def apath_parent_def sample_io_def SYSTEM_CONFIG_TOML_FILE_UNIX_def
      load_config_toml_for_required_layer_def read_config_def Let_def)

lemma sample_loads:
  "\<exists>s. load_config_layers_state sample_io [lit ''h''] (Some [lit ''w'']) [] None None = Inr s \<and> sample_project \<in> set (ls_layers s)"
proof -
  have dirs: "project_dirs [lit ''w''] [lit ''w''] = [[lit ''w'']]"
    by (simp add: project_dirs_def ancestors_def)
  have projects: "load_projects sample_io [lit ''h''] (Some [lit ''w'']) [] [lit ''h'', lit ''config.toml'']
      (layer_new (\<lambda>_. []) (User [lit ''h'', lit ''config.toml'']) (TTable [])) =
      Inr ([sample_project], [format_ignored_project_config_keys_warning [lit ''w'', lit ''.savfox'', lit ''config.toml''] [lit ''notify'']])"
    using sample_dir_loads dirs
    by (simp add: load_projects_def sample_loader_trust load_project_layers_def Let_def sample_trust_def del: lit_Cons)
  have reqs: "load_requirements_toml sample_io DEFAULT_REQUIREMENTS_TOML_FILE_UNIX no_requirements = Inr no_requirements"
    by (simp add: load_requirements_toml_def sample_io_def DEFAULT_REQUIREMENTS_TOML_FILE_UNIX_def)
  obtain req where req: "requirements_try_from no_requirements = Inr req"
    by (simp add: requirements_try_from_def no_requirements_def approval_requirement_def sandbox_requirement_def
        exec_policy_requirement_def residency_constraint_def)
  show ?thesis
    using req
    by (simp add: load_config_layers_state_def reqs sample_user projects sample_system load_managed_layer_def
        cli_overrides_layer_def map_err_def stack_new_def verify_layer_ordering_def sample_project_def with_startup_warnings_def
        Let_def del: lit_Cons)
qed


end
