(* ===== verification/Config_Edit.thy ===== *)
theory Config_Edit
  imports Project_Config
begin

text \<open>
  \<^verbatim>\<open>core/src/config/edit.rs\<close>, the writer of trust levels in \<^verbatim>\<open>core/src/config/mod.rs\<close> and \<^verbatim>\<open>resolve_symlink_write_paths\<close> of
  \<^verbatim>\<open>core/src/path_utils.rs\<close>: changes to the configuration file that keep everything they do not name.

  A document is the tree of the editing library: tables with their implicit flag, values, and arrays of tables.  Comments and
  layout are left out, and so is \<^verbatim>\<open>preserve_decor\<close>, which only carries them over.  The item \<^verbatim>\<open>None\<close> never stands in a document
  that was parsed, and look-ups do not return it.  A table that is implicit is written only if it holds something.  Paths of
  projects and skills are texts.
\<close>

section \<open>Documents\<close>

datatype item =
    IValue toml
  | ITable bool "(rstring \<times> item) list"
  | IArrayOfTables "(rstring \<times> item) list list"

type_synonym document = "(rstring \<times> item) list"

definition table_from_inline :: "table \<Rightarrow> document" where
  "table_from_inline inline = map (\<lambda>(key, v). (key, IValue v)) inline"

text \<open>The table an item turns into, with its implicit flag; \<open>None\<close> leaves the item as it is.\<close>

fun ensure_table_for_write :: "item \<Rightarrow> (bool \<times> document) option" where
  "ensure_table_for_write (ITable implicit tb) = Some (implicit, tb)"
| "ensure_table_for_write (IValue (TTable inline)) = Some (True, table_from_inline inline)"
| "ensure_table_for_write (IValue _) = Some (True, [])"
| "ensure_table_for_write (IArrayOfTables _) = None"

fun ensure_table_for_read :: "item \<Rightarrow> (bool \<times> document) option" where
  "ensure_table_for_read (ITable implicit tb) = Some (implicit, tb)"
| "ensure_table_for_read (IValue (TTable inline)) = Some (True, table_from_inline inline)"
| "ensure_table_for_read _ = None"

datatype traversal_mode = Create | Existing

text \<open>\<^verbatim>\<open>descend\<close> and what is then done to the table it reaches.\<close>

fun descend :: "traversal_mode \<Rightarrow> rstring list \<Rightarrow> (document \<Rightarrow> 'a \<times> document) \<Rightarrow> document \<Rightarrow> 'a option \<times> document" where
  "descend mode [] f d = (case f d of (a, d') \<Rightarrow> (Some a, d'))"
| "descend mode (segment # segs) f d =
     (let d = (if mode = Create \<and> map_of d segment = None then AList.update segment (ITable True []) d else d) in
      case map_of d segment of
        None \<Rightarrow> (None, d)
      | Some item \<Rightarrow>
          (case (if mode = Create then ensure_table_for_write item else ensure_table_for_read item) of
             None \<Rightarrow> (None, d)
           | Some (implicit, tb) \<Rightarrow>
               (case descend mode segs f tb of
                  (a, tb') \<Rightarrow> (a, AList.update segment (ITable implicit tb') d))))"

definition doc_insert :: "rstring list \<Rightarrow> item \<Rightarrow> document \<Rightarrow> bool \<times> document" where
  "doc_insert segments item d =
     (if segments = [] then (False, d)
      else case descend Create (butlast segments) (\<lambda>parent. ((), AList.update (last segments) item parent)) d of
             (a, d') \<Rightarrow> (a \<noteq> None, d'))"

definition doc_remove :: "rstring list \<Rightarrow> document \<Rightarrow> bool \<times> document" where
  "doc_remove segments d =
     (if segments = [] then (False, d)
      else case descend Existing (butlast segments)
                  (\<lambda>parent. (map_of parent (last segments) \<noteq> None, AList.delete (last segments) parent)) d of
             (a, d') \<Rightarrow> (a = Some True, d'))"

section \<open>Tool servers\<close>

definition array_from_iter :: "rstring list \<Rightarrow> item" where
  "array_from_iter xs = IValue (TArray (map TString xs))"

definition table_from_pairs :: "(rstring \<times> rstring) list \<Rightarrow> item" where
  "table_from_pairs pairs = ITable False (map (\<lambda>(k, v). (k, IValue (TString v))) (sort_key fst pairs))"

abbreviation str_item :: "rstring \<Rightarrow> item" where
  "str_item s \<equiv> IValue (TString s)"

abbreviation bool_item :: "bool \<Rightarrow> item" where
  "bool_item b \<equiv> IValue (TBoolean b)"

text \<open>An entry that is written when there is something to write.\<close>

definition optional_entry :: "rstring \<Rightarrow> ('a \<Rightarrow> item) \<Rightarrow> 'a option \<Rightarrow> document" where
  "optional_entry key f v = (case v of None \<Rightarrow> [] | Some x \<Rightarrow> [(key, f x)])"

definition nonempty_entry :: "rstring \<Rightarrow> ('a list \<Rightarrow> item) \<Rightarrow> 'a list option \<Rightarrow> document" where
  "nonempty_entry key f v = (case v of None \<Rightarrow> [] | Some xs \<Rightarrow> if xs = [] then [] else [(key, f xs)])"

fun transport_entries :: "mcp_transport \<Rightarrow> document" where
  "transport_entries (StdioServer command args env env_vars cwd) =
     [(lit ''command'', str_item command)] @
     nonempty_entry (lit ''args'') array_from_iter (Some args) @
     nonempty_entry (lit ''env'') table_from_pairs env @
     nonempty_entry (lit ''env_vars'') array_from_iter (Some env_vars) @
     optional_entry (lit ''cwd'') str_item cwd"
| "transport_entries (HttpServer url bearer headers env_headers) =
     [(lit ''url'', str_item url)] @
     optional_entry (lit ''bearer_token_env_var'') str_item bearer @
     nonempty_entry (lit ''http_headers'') table_from_pairs headers @
     nonempty_entry (lit ''env_http_headers'') table_from_pairs env_headers"

text \<open>\<open>secs\<close> writes a duration as a number of seconds.\<close>

definition serialize_mcp_server_table :: "(nat \<Rightarrow> rstring) \<Rightarrow> mcp_server_config \<Rightarrow> document" where
  "serialize_mcp_server_table secs config =
     transport_entries (mcp_transport config) @
     (if mcp_enabled config then [] else [(lit ''enabled'', bool_item False)]) @
     optional_entry (lit ''startup_timeout_sec'') (\<lambda>t. IValue (TFloat (secs t))) (mcp_startup_timeout config) @
     optional_entry (lit ''tool_timeout_sec'') (\<lambda>t. IValue (TFloat (secs t))) (mcp_tool_timeout config) @
     nonempty_entry (lit ''enabled_tools'') array_from_iter (mcp_enabled_tools config) @
     nonempty_entry (lit ''disabled_tools'') array_from_iter (mcp_disabled_tools config) @
     nonempty_entry (lit ''scopes'') array_from_iter (mcp_scopes config)"

fun item_toml :: "item \<Rightarrow> toml" where
  "item_toml (IValue v) = v"
| "item_toml (ITable _ tb) = TTable (map (\<lambda>(k, i). (k, item_toml i)) tb)"
| "item_toml (IArrayOfTables ts) = TArray (map (\<lambda>tb. TTable (map (\<lambda>(k, i). (k, item_toml i)) tb)) ts)"

definition document_toml :: "document \<Rightarrow> toml" where
  "document_toml d = TTable (map (\<lambda>(k, i). (k, item_toml i)) d)"

text \<open>\<^verbatim>\<open>into_inline_table\<close>: the entries as values.\<close>

definition into_inline_table :: "document \<Rightarrow> table" where
  "into_inline_table tb = map (\<lambda>(k, i). (k, item_toml i)) tb"

definition merge_inline_table :: "table \<Rightarrow> table \<Rightarrow> table" where
  "merge_inline_table existing replacement =
     fold (\<lambda>(key, v). AList.update key v) replacement
       (filter (\<lambda>(key, _). map_of replacement key \<noteq> None) existing)"

definition put_mcp_server :: "(nat \<Rightarrow> rstring) \<Rightarrow> rstring \<times> mcp_server_config \<Rightarrow> document \<Rightarrow> document" where
  "put_mcp_server secs = (\<lambda>(name, config) tb.
     let fresh = serialize_mcp_server_table secs config in
     case map_of tb name of
       Some (IValue (TTable inline)) \<Rightarrow>
         AList.update name (IValue (TTable (merge_inline_table inline (into_inline_table fresh)))) tb
     | _ \<Rightarrow> AList.update name (ITable False fresh) tb)"

text \<open>\<open>servers\<close> is a map in the order of its keys.\<close>

definition replace_mcp_servers ::
    "(nat \<Rightarrow> rstring) \<Rightarrow> (rstring \<times> mcp_server_config) list \<Rightarrow> document \<Rightarrow> bool \<times> document" where
  "replace_mcp_servers secs servers d =
     (if servers = [] then doc_remove [lit ''mcp_servers''] d
      else
        (let (implicit, tb) =
           (case map_of d (lit ''mcp_servers'') of
              None \<Rightarrow> (True, [])
            | Some item \<Rightarrow> (case ensure_table_for_write item of None \<Rightarrow> (True, []) | Some r \<Rightarrow> r));
             kept = filter (\<lambda>(key, _). map_of servers key \<noteq> None) tb
         in (True, AList.update (lit ''mcp_servers'') (ITable implicit (fold (put_mcp_server secs) servers kept)) d)))"

section \<open>Skills\<close>

fun item_as_str :: "item \<Rightarrow> rstring option" where
  "item_as_str (IValue (TString s)) = Some s"
| "item_as_str _ = None"

text \<open>\<open>canon\<close> finds the canonical path, if there is one.\<close>

definition normalize_skill_config_path :: "(rstring \<Rightarrow> rstring option) \<Rightarrow> rstring \<Rightarrow> rstring" where
  "normalize_skill_config_path canon path = (case canon path of Some p \<Rightarrow> p | None \<Rightarrow> path)"

definition skill_index :: "(rstring \<Rightarrow> rstring option) \<Rightarrow> rstring \<Rightarrow> document list \<Rightarrow> nat option" where
  "skill_index canon path overrides =
     position (\<lambda>tb. map_option (normalize_skill_config_path canon)
       (Option.bind (map_of tb (lit ''path'')) item_as_str) = Some path) overrides"

definition disabled_skill :: "rstring \<Rightarrow> document \<Rightarrow> document" where
  "disabled_skill path tb = AList.update (lit ''enabled'') (bool_item False) (AList.update (lit ''path'') (str_item path) tb)"

text \<open>The list of overrides below \<^verbatim>\<open>skills\<close>, and the tables it is stored in.\<close>

definition skill_overrides :: "bool \<Rightarrow> document \<Rightarrow> document list option" where
  "skill_overrides enabled skills =
     (case map_of skills (lit ''config'') of
        None \<Rightarrow> if enabled then None else Some []
      | Some (IArrayOfTables overrides) \<Rightarrow> Some overrides
      | Some _ \<Rightarrow> if enabled then None else Some [])"

definition skills_table :: "bool \<Rightarrow> document \<Rightarrow> (bool \<times> document) option" where
  "skills_table enabled d =
     (case map_of d (lit ''skills'') of
        None \<Rightarrow> if enabled then None else Some (True, [])
      | Some item \<Rightarrow>
          (case ensure_table_for_write item of
             None \<Rightarrow> if enabled then None else Some (True, [])
           | Some r \<Rightarrow> Some r))"

text \<open>When nothing is found to change, an item may still have been turned into a table; the second part says so.\<close>

definition set_skill_config :: "(rstring \<Rightarrow> rstring option) \<Rightarrow> rstring \<Rightarrow> bool \<Rightarrow> document \<Rightarrow> bool \<times> document" where
  "set_skill_config canon path enabled d =
     (let path = normalize_skill_config_path canon path in
      case skills_table enabled d of
        None \<Rightarrow> (False, d)
      | Some (implicit, skills) \<Rightarrow>
          (let store = (\<lambda>skills. AList.update (lit ''skills'') (ITable implicit skills) d) in
           case skill_overrides enabled skills of
             None \<Rightarrow> (False, store skills)
           | Some overrides \<Rightarrow>
               (case skill_index canon path overrides of
                  Some i \<Rightarrow>
                    if enabled then
                      (let left = take i overrides @ drop (Suc i) overrides;
                           skills' = (if left = [] then AList.delete (lit ''config'') skills
                                      else AList.update (lit ''config'') (IArrayOfTables left) skills)
                       in (True, if left = [] \<and> skills' = [] then AList.delete (lit ''skills'') d else store skills'))
                    else (True, store (AList.update (lit ''config'')
                            (IArrayOfTables (overrides[i := disabled_skill path (overrides ! i)])) skills))
                | None \<Rightarrow>
                    if enabled then (False, store skills)
                    else (True, store (AList.update (lit ''config'')
                            (IArrayOfTables (overrides @ [disabled_skill path []])) skills)))))"

section \<open>Trust of projects\<close>

fun trust_text :: "trust_level \<Rightarrow> rstring" where
  "trust_text Trusted = lit ''trusted''"
| "trust_text Untrusted = lit ''untrusted''"

text \<open>An inline table of projects becomes a table of tables; its entries that are no tables are dropped.\<close>

definition migrate_projects :: "item option \<Rightarrow> bool \<times> document" where
  "migrate_projects existing =
     (case existing of
        Some (ITable implicit tb) \<Rightarrow> (implicit, tb)
      | Some (IValue (TTable inline)) \<Rightarrow>
          (True, filter_map (\<lambda>(k, v). case v of TTable inner \<Rightarrow> Some (k, ITable False (table_from_inline inner)) | _ \<Rightarrow> None) inline)
      | _ \<Rightarrow> (True, []))"

definition set_project_trust_level_inner :: "rstring \<Rightarrow> trust_level \<Rightarrow> document \<Rightarrow> document" where
  "set_project_trust_level_inner key level d =
     (let (implicit, projects) = migrate_projects (map_of d (lit ''projects''));
          proj = (case map_of projects key of Some (ITable _ tb) \<Rightarrow> tb | _ \<Rightarrow> []);
          proj = AList.update (lit ''trust_level'') (str_item (trust_text level)) proj
      in AList.update (lit ''projects'') (ITable implicit (AList.update key (ITable False proj) projects)) d)"

section \<open>Edits\<close>

datatype reasoning_effort = EffortNone | EffortMinimal | EffortLow | EffortMedium | EffortHigh | EffortXHigh

fun effort_text :: "reasoning_effort \<Rightarrow> rstring" where
  "effort_text EffortNone = lit ''none''"
| "effort_text EffortMinimal = lit ''minimal''"
| "effort_text EffortLow = lit ''low''"
| "effort_text EffortMedium = lit ''medium''"
| "effort_text EffortHigh = lit ''high''"
| "effort_text EffortXHigh = lit ''xhigh''"

datatype personality = Friendly | Pragmatic

fun personality_text :: "personality \<Rightarrow> rstring" where
  "personality_text Friendly = lit ''friendly''"
| "personality_text Pragmatic = lit ''pragmatic''"

datatype config_edit =
    SetModel "rstring option" "rstring option" "reasoning_effort option"
  | SetModelPersonality "personality option"
  | SetNoticeHideFullAccessWarning bool
  | SetNoticeHideWorldWritableWarning bool
  | SetNoticeHideRateLimitModelNudge bool
  | SetWindowsWslSetupAcknowledged bool
  | SetNoticeHideModelMigrationPrompt rstring bool
  | RecordModelMigrationSeen rstring rstring
  | ReplaceMcpServers "(rstring \<times> mcp_server_config) list"
  | SetSkillConfig rstring bool
  | SetProjectTrustLevel rstring trust_level
  | SetPath "rstring list" item
  | ClearPath "rstring list"

text \<open>Steps that change a document and say whether they did, one after the other.\<close>

definition doc_then :: "(document \<Rightarrow> bool \<times> document) \<Rightarrow> bool \<times> document \<Rightarrow> bool \<times> document" where
  "doc_then f = (\<lambda>(mutated, d). case f d of (m, d') \<Rightarrow> (mutated \<or> m, d'))"

definition DEFAULT_MODEL_PROVIDER_ID :: rstring where
  "DEFAULT_MODEL_PROVIDER_ID = lit ''openai''"

definition trimmed_option :: "rstring option \<Rightarrow> rstring option" where
  "trimmed_option s = (case s of None \<Rightarrow> None | Some t \<Rightarrow> if trim t = [] then None else Some (trim t))"

text \<open>The provider that goes with a model, and the document, whose entry \<^verbatim>\<open>model\<close> may have become a table.\<close>

definition provider_to_write :: "rstring \<Rightarrow> rstring option \<Rightarrow> document \<Rightarrow> (rstring, rstring \<times> document) result" where
  "provider_to_write slug provider d =
     (case provider of
        Some p \<Rightarrow> Ok (p, d)
      | None \<Rightarrow>
          (let legacy = (map_of d (lit ''model_provider'') \<noteq> None) in
           case descend Existing [lit ''model''] (\<lambda>tb. (Option.bind (map_of tb (lit ''provider'')) item_as_str, tb)) d of
             (Some (Some existing), d') \<Rightarrow> Ok (existing, d')
           | (_, d') \<Rightarrow>
               if \<not> legacy then Ok (DEFAULT_MODEL_PROVIDER_ID, d')
               else Err (lit ''model.provider is required when setting model `'' @ slug @ lit ''`'')))"

definition set_model ::
    "rstring option \<Rightarrow> rstring option \<Rightarrow> reasoning_effort option \<Rightarrow> document \<Rightarrow> (rstring, bool \<times> document) result" where
  "set_model slug provider effort d =
     (case trimmed_option slug of
        Some slug \<Rightarrow>
          and_then (provider_to_write slug (trimmed_option provider) d) (\<lambda>(provider, d).
            Ok (doc_then
                  (case effort of
                     Some e \<Rightarrow>
                       if e \<noteq> EffortNone
                       then doc_insert [lit ''model'', lit ''reasoning_effort''] (str_item (effort_text e))
                       else doc_remove [lit ''model'', lit ''reasoning_effort'']
                   | None \<Rightarrow> doc_remove [lit ''model'', lit ''reasoning_effort''])
               (doc_then (doc_remove [lit ''model_reasoning_effort''])
               (doc_then (doc_remove [lit ''model_provider''])
               (doc_then (doc_insert [lit ''model'', lit ''provider''] (str_item provider))
               (doc_insert [lit ''model'', lit ''slug''] (str_item slug) d))))))
      | None \<Rightarrow> Ok (doc_then (doc_remove [lit ''model_reasoning_effort'']) (doc_remove [lit ''model''] d)))"

definition notice :: "rstring list \<Rightarrow> rstring list" where
  "notice path = lit ''notice'' # path"

text \<open>\<^verbatim>\<open>ConfigFile::apply\<close>; the text of durations and canonical paths come from outside.\<close>

fun apply_edit ::
    "(nat \<Rightarrow> rstring) \<Rightarrow> (rstring \<Rightarrow> rstring option) \<Rightarrow> config_edit \<Rightarrow> document \<Rightarrow> (rstring, bool \<times> document) result" where
  "apply_edit secs canon (SetModel slug provider effort) d = set_model slug provider effort d"
| "apply_edit secs canon (SetModelPersonality p) d =
     Ok (case p of Some p \<Rightarrow> doc_insert [lit ''personality''] (str_item (personality_text p)) d
         | None \<Rightarrow> doc_remove [lit ''personality''] d)"
| "apply_edit secs canon (SetNoticeHideFullAccessWarning b) d =
     Ok (doc_insert (notice [lit ''hide_full_access_warning'']) (bool_item b) d)"
| "apply_edit secs canon (SetNoticeHideWorldWritableWarning b) d =
     Ok (doc_insert (notice [lit ''hide_world_writable_warning'']) (bool_item b) d)"
| "apply_edit secs canon (SetNoticeHideRateLimitModelNudge b) d =
     Ok (doc_insert (notice [lit ''hide_rate_limit_model_nudge'']) (bool_item b) d)"
| "apply_edit secs canon (SetWindowsWslSetupAcknowledged b) d =
     Ok (doc_insert [lit ''windows_wsl_setup_acknowledged''] (bool_item b) d)"
| "apply_edit secs canon (SetNoticeHideModelMigrationPrompt migration b) d =
     Ok (doc_insert (notice [migration]) (bool_item b) d)"
| "apply_edit secs canon (RecordModelMigrationSeen old new) d =
     Ok (doc_insert (notice [lit ''model_migrations'', old]) (str_item new) d)"
| "apply_edit secs canon (ReplaceMcpServers servers) d = Ok (replace_mcp_servers secs servers d)"
| "apply_edit secs canon (SetSkillConfig path enabled) d = Ok (set_skill_config canon path enabled d)"
| "apply_edit secs canon (SetProjectTrustLevel path level) d = Ok (True, set_project_trust_level_inner path level d)"
| "apply_edit secs canon (SetPath segments item) d = Ok (doc_insert segments item d)"
| "apply_edit secs canon (ClearPath segments) d = Ok (doc_remove segments d)"

fun apply_edits_loop ::
    "(nat \<Rightarrow> rstring) \<Rightarrow> (rstring \<Rightarrow> rstring option) \<Rightarrow> config_edit list \<Rightarrow> bool \<times> document \<Rightarrow> (rstring, bool \<times> document) result" where
  "apply_edits_loop secs canon [] st = Ok st"
| "apply_edits_loop secs canon (e # es) (mutated, d) =
     and_then (apply_edit secs canon e d) (\<lambda>(m, d'). apply_edits_loop secs canon es (mutated \<or> m, d'))"

section \<open>Symbolic links\<close>

datatype link_meta = LinkMissing | LinkFailed | NotLink | LinkTo "apath option"

text \<open>What the disk says about a path; the target of a link is an absolute path once it is resolved against the directory
  of the link, \<open>None\<close> if it cannot be read or resolved.\<close>

record symlink_write_paths =
  sw_read_path :: "apath option"
  sw_write_path :: apath

text \<open>The loop need not end if every link leads to a link not seen before; \<open>None\<close> is a loop that never returns.\<close>

partial_function (option) follow_links ::
    "(apath \<Rightarrow> link_meta) \<Rightarrow> apath \<Rightarrow> apath \<Rightarrow> apath set \<Rightarrow> symlink_write_paths option" where
  "follow_links disk root current visited =
     (case disk current of
        LinkMissing \<Rightarrow> Some \<lparr>sw_read_path = Some current, sw_write_path = current\<rparr>
      | LinkFailed \<Rightarrow> Some \<lparr>sw_read_path = None, sw_write_path = root\<rparr>
      | NotLink \<Rightarrow> Some \<lparr>sw_read_path = Some current, sw_write_path = current\<rparr>
      | LinkTo target \<Rightarrow>
          if current \<in> visited then Some \<lparr>sw_read_path = None, sw_write_path = root\<rparr>
          else (case target of
                  None \<Rightarrow> Some \<lparr>sw_read_path = None, sw_write_path = root\<rparr>
                | Some t \<Rightarrow> follow_links disk root t (insert current visited)))"

definition resolve_symlink_write_paths :: "(apath \<Rightarrow> link_meta) \<Rightarrow> apath \<Rightarrow> symlink_write_paths option" where
  "resolve_symlink_write_paths disk path = follow_links disk path path {}"

section \<open>Writing the file\<close>

record edit_io =
  ed_links :: "apath \<Rightarrow> link_meta"
  ed_read :: "apath \<Rightarrow> cfg_read"
  ed_parse :: "rstring \<Rightarrow> (rstring, document) result"
  ed_secs :: "nat \<Rightarrow> rstring"
  ed_canonical :: "rstring \<Rightarrow> rstring option"

text \<open>The result is the file to be replaced as a whole and the document whose text it gets, if there is anything to write;
  \<open>None\<close> if the links never end.\<close>

definition read_document :: "edit_io \<Rightarrow> symlink_write_paths \<Rightarrow> (rstring, document) result" where
  "read_document io paths =
     and_then (case sw_read_path paths of
                 None \<Rightarrow> Ok []
               | Some p \<Rightarrow> (case ed_read io p of CfgText t \<Rightarrow> Ok t | CfgNotFound \<Rightarrow> Ok [] | CfgFailed e \<Rightarrow> Err e)) (\<lambda>serialized.
     if serialized = [] then Ok [] else ed_parse io serialized)"

definition apply_blocking_toml ::
    "edit_io \<Rightarrow> apath \<Rightarrow> config_edit list \<Rightarrow> (rstring, (apath \<times> document) option) result option" where
  "apply_blocking_toml io config_path edits =
     (case resolve_symlink_write_paths (ed_links io) config_path of
        None \<Rightarrow> None
      | Some paths \<Rightarrow> Some (
          and_then (read_document io paths) (\<lambda>doc.
          and_then (apply_edits_loop (ed_secs io) (ed_canonical io) edits (False, doc)) (\<lambda>(mutated, doc).
            Ok (if mutated then Some (sw_write_path paths, doc) else None)))))"

definition apply_blocking ::
    "edit_io \<Rightarrow> apath \<Rightarrow> config_edit list \<Rightarrow> (rstring, (apath \<times> document) option) result option" where
  "apply_blocking io savfox_home edits =
     (if edits = [] then Some (Ok None) else apply_blocking_toml io (savfox_home @ [CONFIG_TOML_FILE]) edits)"

section \<open>The builder\<close>

record config_edits_builder =
  ce_savfox_home :: apath
  ce_edits :: "config_edit list"

definition edits_builder_new :: "apath \<Rightarrow> config_edits_builder" where
  "edits_builder_new savfox_home = \<lparr>ce_savfox_home = savfox_home, ce_edits = []\<rparr>"

definition with_edits :: "config_edit list \<Rightarrow> config_edits_builder \<Rightarrow> config_edits_builder" where
  "with_edits edits b = b\<lparr>ce_edits := ce_edits b @ edits\<rparr>"

definition rsplit_last :: "rchar \<Rightarrow> rstring \<Rightarrow> (rstring \<times> rstring) option" where
  "rsplit_last c s = map_option (\<lambda>(a, b). (rev b, rev a)) (split_once [c] (rev s))"

definition parse_provider_prefixed_model :: "rstring \<Rightarrow> (rstring \<times> rstring) option" where
  "parse_provider_prefixed_model identifier =
     (case rsplit_last 47 (trim identifier) of
        None \<Rightarrow> None
      | Some (provider_id, model_slug) \<Rightarrow>
          if trim provider_id = [] \<or> trim model_slug = [] then None else Some (trim provider_id, trim model_slug))"

definition builder_set_model ::
    "rstring option \<Rightarrow> reasoning_effort option \<Rightarrow> config_edits_builder \<Rightarrow> config_edits_builder" where
  "builder_set_model model effort b =
     (let (slug, provider) =
        (case model of
           None \<Rightarrow> (None, None)
         | Some m \<Rightarrow>
             (case parse_provider_prefixed_model m of
                Some (provider_id, model_slug) \<Rightarrow> (Some model_slug, Some provider_id)
              | None \<Rightarrow> (Some m, None)))
      in with_edits [SetModel slug provider effort] b)"

definition set_feature_enabled :: "rstring \<Rightarrow> bool \<Rightarrow> config_edits_builder \<Rightarrow> config_edits_builder" where
  "set_feature_enabled key enabled b = with_edits [SetPath [lit ''features'', key] (bool_item enabled)] b"

definition builder_apply :: "edit_io \<Rightarrow> config_edits_builder \<Rightarrow> (rstring, (apath \<times> document) option) result option" where
  "builder_apply io b = apply_blocking io (ce_savfox_home b) (ce_edits b)"

definition set_project_trust_level ::
    "edit_io \<Rightarrow> apath \<Rightarrow> rstring \<Rightarrow> trust_level \<Rightarrow> (rstring, (apath \<times> document) option) result option" where
  "set_project_trust_level io savfox_home project_path level =
     builder_apply io (with_edits [SetProjectTrustLevel project_path level] (edits_builder_new savfox_home))"

section \<open>The tools of a server\<close>

record tool_filter =
  tf_enabled :: "rstring list option"
  tf_disabled :: "rstring list"

definition tool_filter_from_config :: "mcp_server_config \<Rightarrow> tool_filter" where
  "tool_filter_from_config cfg =
     \<lparr>tf_enabled = mcp_enabled_tools cfg, tf_disabled = (case mcp_disabled_tools cfg of Some ts \<Rightarrow> ts | None \<Rightarrow> [])\<rparr>"

definition tool_allowed :: "tool_filter \<Rightarrow> rstring \<Rightarrow> bool" where
  "tool_allowed filt tool =
     (if (case tf_enabled filt of Some enabled \<Rightarrow> tool \<notin> set enabled | None \<Rightarrow> False) then False
      else tool \<notin> set (tf_disabled filt))"

section \<open>What a change means for the values\<close>

lemma map_update: "map (\<lambda>(k, v). (k, f v)) (AList.update k v xs) = AList.update k (f v) (map (\<lambda>(k, v). (k, f v)) xs)"
  by (induction xs) auto

lemma map_delete: "map (\<lambda>(k, v). (k, f v)) (AList.delete k xs) = AList.delete k (map (\<lambda>(k, v). (k, f v)) xs)"
  by (induction xs) auto

lemma map_of_values: "map_of (map (\<lambda>(k, v). (k, f v)) xs) k = map_option f (map_of xs k)"
  by (induction xs) auto

lemma update_same: "map_of xs k = Some v \<Longrightarrow> AList.update k v xs = xs"
  by (induction xs) auto

lemma update_twice: "AList.update k v (AList.update k w xs) = AList.update k v xs"
  by (induction xs) auto

text \<open>Removing a path from a value.\<close>

fun unset_segments :: "rstring list \<Rightarrow> toml \<Rightarrow> toml" where
  "unset_segments [] v = v"
| "unset_segments [k] (TTable tb) = TTable (AList.delete k tb)"
| "unset_segments (k # ks) (TTable tb) =
     TTable (case map_of tb k of None \<Rightarrow> tb | Some v \<Rightarrow> AList.update k (unset_segments ks v) tb)"
| "unset_segments _ v = v"

lemma inline_document: "document_toml (table_from_inline tb) = TTable tb"
  by (simp add: document_toml_def table_from_inline_def comp_def split_def)

lemma item_toml_ITable [simp]: "item_toml (ITable i tb) = document_toml tb"
  by (simp add: document_toml_def)

declare item_toml.simps(2) [simp del]

lemma ensure_write_None: "ensure_table_for_write i = None \<Longrightarrow> \<not> is_table (item_toml i)"
  by (induction i rule: ensure_table_for_write.induct) auto

lemma ensure_write_toml:
  "ensure_table_for_write i = Some (imp, tb) \<Longrightarrow>
     document_toml tb = (if is_table (item_toml i) then item_toml i else TTable [])"
  by (induction i rule: ensure_table_for_write.induct) (auto simp: inline_document, auto simp: document_toml_def)

lemma ensure_read_toml:
  "ensure_table_for_read i = Some (imp, tb) \<Longrightarrow> item_toml i = document_toml tb"
  by (induction i rule: ensure_table_for_read.induct) (auto simp: inline_document)

lemma document_update: "document_toml (AList.update k i d) =
   (case document_toml d of TTable tb \<Rightarrow> TTable (AList.update k (item_toml i) tb) | v \<Rightarrow> v)"
  by (simp add: document_toml_def map_update)

lemma ensure_read_None: "ensure_table_for_read i = None \<Longrightarrow> \<not> is_table (item_toml i)"
  by (induction i rule: ensure_table_for_read.induct) auto

lemma set_segments_deep:
  "p \<noteq> [] \<Longrightarrow> set_segments (s # p) v (TTable tb) =
     TTable (AList.update s (set_segments p v (case map_of tb s of Some e \<Rightarrow> e | None \<Rightarrow> TTable [])) tb)"
  by (cases p) (simp_all add: Let_def)

lemma set_segments_non_table: "p \<noteq> [] \<Longrightarrow> \<not> is_table c \<Longrightarrow> set_segments p v c = set_segments p v (TTable [])"
  by (cases p rule: remdups_adj.cases) (auto simp: Let_def split: toml.splits)

lemma document_is_table: "document_toml d = TTable (map (\<lambda>(k, i). (k, item_toml i)) d)"
  by (simp add: document_toml_def)

lemma descend_blank: "fst (descend Create segs f []) \<noteq> None"
  by (induction segs) (auto simp: Let_def split: prod.splits)

lemma descend_create:
  assumes "descend Create segs (\<lambda>parent. ((), AList.update k item parent)) d = (a, d')"
  shows "document_toml d' =
    (if a \<noteq> None then set_segments (segs @ [k]) (item_toml item) (document_toml d) else document_toml d)"
  using assms
proof (induction segs arbitrary: d a d')
  case Nil
  then show ?case by (auto simp: document_toml_def map_update)
next
  case (Cons s segs)
  define d1 where "d1 = (if map_of d s = None then AList.update s (ITable True []) d else d)"
  obtain i where i: "map_of d1 s = Some i"
    by (cases "map_of d s") (auto simp: d1_def map_of_update)
  have entry: "(case map_of (map (\<lambda>(k, i). (k, item_toml i)) d) s of Some e \<Rightarrow> e | None \<Rightarrow> TTable []) = item_toml i"
    using i by (cases "map_of d s") (auto simp: d1_def map_of_update map_of_values document_toml_def)
  show ?case
  proof (cases "ensure_table_for_write i")
    case None
    then have "map_of d s \<noteq> None"
      using i by (auto simp: d1_def map_of_update split: if_splits)
    then show ?thesis
      using Cons.prems None i by (simp add: d1_def Let_def split: if_splits)
  next
    case (Some r)
    obtain imp tb where r: "r = (imp, tb)" by (cases r)
    obtain tb' where tb': "descend Create segs (\<lambda>parent. ((), AList.update k item parent)) tb = (a, tb')"
        and d': "d' = AList.update s (ITable imp tb') d1"
      using Cons.prems i Some r by (auto simp: d1_def [symmetric] Let_def split: prod.splits)
    have tb: "document_toml tb = (if is_table (item_toml i) then item_toml i else TTable [])"
      using Some r by (auto dest: ensure_write_toml)
    show ?thesis
    proof (cases a)
      case None
      have "document_toml tb' = document_toml tb"
        using Cons.IH [OF tb'] None by simp
      moreover have "tb \<noteq> []"
        using tb' None descend_blank [of segs "\<lambda>parent. ((), AList.update k item parent)"] by auto
      then have "map_of d s = Some i" "is_table (item_toml i)"
        using i Some r tb by (auto simp: d1_def map_of_update document_is_table split: if_splits)
      ultimately show ?thesis
        using None tb by (simp add: d' d1_def document_is_table map_update update_same map_of_values)
    next
      case (Some u)
      have "document_toml tb' = set_segments (segs @ [k]) (item_toml item) (item_toml i)"
        using Cons.IH [OF tb'] Some tb set_segments_non_table [of "segs @ [k]" "item_toml i"] by auto
      then show ?thesis
        using Some entry by (simp add: d' d1_def document_is_table map_update update_twice set_segments_deep)
    qed
  qed
qed

lemma doc_insert_toml:
  assumes "doc_insert segs item d = (m, d')"
  shows "document_toml d' = (if m then set_segments segs (item_toml item) (document_toml d) else document_toml d)"
proof (cases "segs = []")
  case False
  with assms show ?thesis
    by (auto simp: doc_insert_def split: prod.splits dest!: descend_create)
qed (use assms in \<open>simp add: doc_insert_def\<close>)

lemma unset_deep:
  "p \<noteq> [] \<Longrightarrow> unset_segments (s # p) (TTable tb) =
     TTable (case map_of tb s of None \<Rightarrow> tb | Some v \<Rightarrow> AList.update s (unset_segments p v) tb)"
  by (cases p) (auto split: option.split)

lemma delete_absent: "map_of xs k = None \<Longrightarrow> AList.delete k xs = xs"
  by (simp add: map_of_eq_None_iff delete_id)

lemma unset_non_table: "\<not> is_table v \<Longrightarrow> unset_segments p v = v"
  by (cases "(p, v)" rule: unset_segments.cases) auto

lemma descend_existing:
  assumes "descend Existing segs (\<lambda>parent. (map_of parent k \<noteq> None, AList.delete k parent)) d = (a, d')"
  shows "document_toml d' = unset_segments (segs @ [k]) (document_toml d) \<and>
    (a \<noteq> Some True \<longrightarrow> document_toml d' = document_toml d)"
  using assms
proof (induction segs arbitrary: d a d')
  case Nil
  then show ?case by (cases "map_of d k") (auto simp: document_is_table map_delete map_of_values delete_absent)
next
  case (Cons s segs)
  show ?case
  proof (cases "map_of d s")
    case None
    then show ?thesis
      using Cons.prems by (simp add: document_is_table unset_deep map_of_values)
  next
    case (Some i)
    note i = this
    show ?thesis
    proof (cases "ensure_table_for_read i")
      case None
      then show ?thesis
        using Cons.prems i ensure_read_None [OF None]
        by (simp add: document_is_table unset_deep map_of_values unset_non_table update_same)
    next
      case (Some r)
      obtain imp tb where r: "r = (imp, tb)" by (cases r)
      obtain tb' where tb': "descend Existing segs (\<lambda>parent. (map_of parent k \<noteq> None, AList.delete k parent)) tb = (a, tb')"
          and d': "d' = AList.update s (ITable imp tb') d"
        using Cons.prems i Some r by (auto split: prod.splits)
      have "item_toml i = document_toml tb"
        using Some r ensure_read_toml by simp
      then show ?thesis
        using Cons.IH [OF tb'] i
        by (auto simp: d' document_is_table map_update map_of_values unset_deep update_same)
    qed
  qed
qed

lemma doc_remove_toml:
  assumes "doc_remove segs d = (m, d')"
  shows "document_toml d' = unset_segments segs (document_toml d) \<and> (\<not> m \<longrightarrow> document_toml d' = document_toml d)"
proof (cases "segs = []")
  case False
  obtain a where "descend Existing (butlast segs)
      (\<lambda>parent. (map_of parent (last segs) \<noteq> None, AList.delete (last segs) parent)) d = (a, d')" "m = (a = Some True)"
    using assms False by (auto simp: doc_remove_def split: prod.splits)
  then show ?thesis
    using descend_existing False by fastforce
qed (use assms in \<open>simp add: doc_remove_def\<close>)

lemma leaf_unset_same: "p \<noteq> [] \<Longrightarrow> toml_leaf (p @ q) (unset_segments p t) = None"
proof (induction p t rule: unset_segments.induct)
  case (2 k tb)
  then show ?case by (simp add: toml_leaf_def delete_conv')
next
  case (3 k k' ks tb)
  then show ?case by (cases "map_of tb k") (simp_all add: toml_leaf_def map_of_update)
qed (simp_all add: toml_leaf_def)

lemma leaf_unset_other:
  "\<not> prefix segs p \<Longrightarrow> \<not> prefix p segs \<Longrightarrow> toml_leaf p (unset_segments segs t) = toml_leaf p t"
proof (induction segs t arbitrary: p rule: unset_segments.induct)
  case (2 k tb)
  then show ?case by (cases p) (simp_all add: toml_leaf_def delete_conv')
next
  case (3 k k' ks tb)
  then show ?case
    by (cases p; cases "map_of tb k") (auto simp: toml_leaf_def map_of_update)
qed simp_all

section \<open>Everything else is kept\<close>

definition apart :: "rstring list \<Rightarrow> rstring list \<Rightarrow> bool" where
  "apart p q \<longleftrightarrow> \<not> prefix p q \<and> \<not> prefix q p"

text \<open>The paths an edit names.\<close>

fun edit_paths :: "config_edit \<Rightarrow> rstring list list" where
  "edit_paths (SetModel _ _ _) = [[lit ''model''], [lit ''model_provider''], [lit ''model_reasoning_effort'']]"
| "edit_paths (SetModelPersonality _) = [[lit ''personality'']]"
| "edit_paths (SetNoticeHideFullAccessWarning _) = [notice [lit ''hide_full_access_warning'']]"
| "edit_paths (SetNoticeHideWorldWritableWarning _) = [notice [lit ''hide_world_writable_warning'']]"
| "edit_paths (SetNoticeHideRateLimitModelNudge _) = [notice [lit ''hide_rate_limit_model_nudge'']]"
| "edit_paths (SetWindowsWslSetupAcknowledged _) = [[lit ''windows_wsl_setup_acknowledged'']]"
| "edit_paths (SetNoticeHideModelMigrationPrompt migration _) = [notice [migration]]"
| "edit_paths (RecordModelMigrationSeen old _) = [notice [lit ''model_migrations'', old]]"
| "edit_paths (ReplaceMcpServers _) = [[lit ''mcp_servers'']]"
| "edit_paths (SetSkillConfig _ _) = [[lit ''skills'', lit ''config'']]"
| "edit_paths (SetProjectTrustLevel _ _) = [[lit ''projects'']]"
| "edit_paths (SetPath segments _) = [segments]"
| "edit_paths (ClearPath segments) = [segments]"

definition leaf_kept :: "rstring list \<Rightarrow> document \<Rightarrow> document \<Rightarrow> bool" where
  "leaf_kept p d d' \<longleftrightarrow> toml_leaf p (document_toml d') = toml_leaf p (document_toml d)"

lemma leaf_kept_refl [simp]: "leaf_kept p d d"
  by (simp add: leaf_kept_def)

lemma leaf_kept_trans: "leaf_kept p d d1 \<Longrightarrow> leaf_kept p d1 d2 \<Longrightarrow> leaf_kept p d d2"
  by (simp add: leaf_kept_def)

lemma insert_keeps: "apart segs p \<Longrightarrow> leaf_kept p d (snd (doc_insert segs item d))"
  using doc_insert_toml [of segs item d] leaf_set_other [of segs p]
  by (cases "doc_insert segs item d") (simp add: leaf_kept_def apart_def)

lemma remove_keeps: "apart segs p \<Longrightarrow> leaf_kept p d (snd (doc_remove segs d))"
  using doc_remove_toml [of segs d] leaf_unset_other [of segs p]
  by (cases "doc_remove segs d") (simp add: leaf_kept_def apart_def)

lemma document_view: "toml_view (k # p) (document_toml d) =
    (case map_of d k of None \<Rightarrow> Silent | Some i \<Rightarrow> toml_view p (item_toml i))"
  by (simp add: document_is_table map_of_values split: option.split)

lemma update_keeps: "apart [k] p \<Longrightarrow> leaf_kept p d (AList.update k i d)"
  by (cases p) (auto simp: leaf_kept_def apart_def toml_leaf_def document_view map_of_update)

lemma then_keeps:
  "leaf_kept p d (snd r) \<Longrightarrow> (\<And>d. leaf_kept p d (snd (f d))) \<Longrightarrow> leaf_kept p d (snd (doc_then f r))"
  using leaf_kept_trans by (auto simp: doc_then_def split_def)

lemma apart_deeper: "apart p q \<Longrightarrow> apart (p @ r) q"
  by (auto simp: apart_def prefix_append dest: prefix_order.trans append_prefixD)


lemma descend_looks: "document_toml (snd (descend Existing segs (\<lambda>tb. (g tb, tb)) d)) = document_toml d"
proof (induction segs arbitrary: d)
  case (Cons s segs)
  show ?case
  proof (cases "map_of d s")
    case (Some i)
    show ?thesis
    proof (cases "ensure_table_for_read i")
      case None
      then show ?thesis using Some by simp
    next
      case (Some r)
      obtain imp tb where r: "r = (imp, tb)" by (cases r)
      have "item_toml i = document_toml (snd (descend Existing segs (\<lambda>tb. (g tb, tb)) tb))"
        using Some r ensure_read_toml Cons.IH by simp
      then show ?thesis
        using Some r \<open>map_of d s = Some i\<close>
        by (simp add: document_is_table map_update map_of_values update_same split: prod.split)
    qed
  qed simp
qed simp

lemma provider_keeps: "provider_to_write slug provider d = Inr (q, d') \<Longrightarrow> leaf_kept p d d'"
  using descend_looks [of "[lit ''model'']" "\<lambda>tb. Option.bind (map_of tb (lit ''provider'')) item_as_str" d]
  by (auto simp: provider_to_write_def leaf_kept_def Let_def simp del: descend.simps lit_Cons
      split: option.splits prod.splits if_splits)

lemmas keeps = insert_keeps remove_keeps update_keeps then_keeps apart_deeper [of "[k]" _ "[l]" for k l, simplified]

lemma set_model_keeps:
  assumes "set_model slug provider effort d = Inr r" "\<forall>q \<in> set (edit_paths (SetModel slug provider effort)). apart q p"
  shows "leaf_kept p d (snd r)"
proof (cases "trimmed_option slug")
  case None
  with assms show ?thesis by (auto simp: set_model_def simp del: lit_Cons intro!: keeps)
next
  case (Some s)
  then obtain q d1 where d1: "provider_to_write s (trimmed_option provider) d = Inr (q, d1)"
    using assms(1) by (auto simp: set_model_def and_then_eq_Inr)
  have "leaf_kept p d1 (snd r)"
    using assms Some d1 by (auto simp: set_model_def simp del: lit_Cons intro!: keeps split: option.splits)
  with provider_keeps [OF d1] show ?thesis by (rule leaf_kept_trans)
qed

lemma document_empty [simp]: "document_toml [] = TTable []"
  by (simp add: document_toml_def)

lemma skills_table_leaf:
  assumes "skills_table enabled d = Some (imp, skills)" "q \<noteq> []"
  shows "toml_leaf q (document_toml skills) = toml_leaf (lit ''skills'' # q) (document_toml d)"
proof (cases "map_of d (lit ''skills'')")
  case None
  with assms show ?thesis
    by (auto simp: skills_table_def toml_leaf_def document_view view_empty simp del: lit_Cons split: if_splits)
next
  case (Some i)
  have hidden: "\<not> is_table v \<Longrightarrow> said (toml_view q v) = None" for v
    using assms(2) by (cases q; cases v) auto
  show ?thesis
    using assms(1) Some ensure_write_toml [of i] ensure_write_None [of i] hidden [of "item_toml i"] view_empty
    by (cases "ensure_table_for_write i")
      (auto simp: skills_table_def toml_leaf_def document_view simp del: lit_Cons split: if_splits)
qed

lemma store_skills_keeps:
  assumes "skills_table enabled d = Some (imp, skills)" "apart [lit ''skills'', lit ''config''] p"
    and "\<And>c. c \<noteq> lit ''config'' \<Longrightarrow> map_of skills' c = map_of skills c"
  shows "leaf_kept p d (AList.update (lit ''skills'') (ITable imp skills') d)"
    and "skills' = [] \<Longrightarrow> leaf_kept p d (AList.delete (lit ''skills'') d)"
proof -
  obtain k q where p: "p = k # q" using assms(2) by (cases p) (auto simp: apart_def)
  have other: "k \<noteq> lit ''skills'' \<Longrightarrow> leaf_kept p d (AList.update (lit ''skills'') (ITable imp skills') d)"
      "k \<noteq> lit ''skills'' \<Longrightarrow> leaf_kept p d (AList.delete (lit ''skills'') d)"
    by (simp_all add: leaf_kept_def p toml_leaf_def document_view map_of_update delete_conv' del: lit_Cons)
  have same: "toml_leaf p (document_toml d) = toml_leaf q (document_toml skills')" if ks: "k = lit ''skills''"
  proof -
    obtain c q' where q: "q = c # q'" "c \<noteq> lit ''config''"
      using ks assms(2) by (cases q) (auto simp: apart_def p simp del: lit_Cons)
    have "toml_leaf p (document_toml d) = toml_leaf q (document_toml skills)"
      using skills_table_leaf [OF assms(1), of q] q ks by (simp add: p)
    then show ?thesis
      using assms(3) [OF q(2)] by (simp add: q toml_leaf_def document_view)
  qed
  show "leaf_kept p d (AList.update (lit ''skills'') (ITable imp skills') d)"
    using other(1) same by (cases "k = lit ''skills''")
      (simp_all add: leaf_kept_def p toml_leaf_def document_view map_of_update del: lit_Cons)
  show "leaf_kept p d (AList.delete (lit ''skills'') d)" if "skills' = []"
    using other(2) same that by (cases "k = lit ''skills''")
      (simp_all add: leaf_kept_def p toml_leaf_def document_view delete_conv' view_empty del: lit_Cons)
qed

lemma set_skill_keeps:
  assumes "apart [lit ''skills'', lit ''config''] p"
  shows "leaf_kept p d (snd (set_skill_config canon path enabled d))"
proof (cases "skills_table enabled d")
  case None
  then show ?thesis by (simp add: set_skill_config_def)
next
  case (Some r)
  obtain imp skills where r: "r = (imp, skills)" by (cases r)
  note store = store_skills_keeps [OF Some [unfolded r] assms]
  have gone: "leaf_kept p d (AList.delete (lit ''skills'') d)" if "AList.delete (lit ''config'') skills = []"
    by (rule store(2) [OF _ that]) (simp add: delete_conv' del: lit_Cons)
  show ?thesis
    using Some r gone
    by (auto simp: set_skill_config_def Let_def map_of_update delete_conv' simp del: lit_Cons
        intro!: store(1) split: option.split if_split)
qed

lemma edit_keeps:
  assumes "apply_edit secs canon e d = Inr r" "\<forall>q \<in> set (edit_paths e). apart q p"
  shows "leaf_kept p d (snd r)"
proof (cases e)
  case (SetModel slug provider effort)
  with assms set_model_keeps show ?thesis by simp
next
  case (SetSkillConfig path enabled)
  with assms set_skill_keeps show ?thesis by auto
next
  case (ReplaceMcpServers servers)
  with assms show ?thesis
    by (auto simp: replace_mcp_servers_def Let_def simp del: lit_Cons intro!: keeps split: prod.splits if_splits)
next
  case (SetProjectTrustLevel key level)
  with assms show ?thesis
    by (auto simp: set_project_trust_level_inner_def Let_def simp del: lit_Cons intro!: keeps split: prod.splits)
qed (use assms in \<open>auto simp del: lit_Cons intro!: keeps split: option.splits\<close>)

lemma edits_keep:
  "apply_edits_loop secs canon es (m, d) = Inr (m', d') \<Longrightarrow> \<forall>e \<in> set es. \<forall>q \<in> set (edit_paths e). apart q p \<Longrightarrow>
   leaf_kept p d d'"
proof (induction es arbitrary: m d)
  case (Cons e es)
  then obtain r where r: "apply_edit secs canon e d = Inr r" by (auto simp: and_then_eq_Inr)
  with Cons have "leaf_kept p (snd r) d'" by (auto simp: split_def)
  with edit_keeps [OF r] Cons.prems(2) show ?case by (auto intro: leaf_kept_trans)
qed simp


section \<open>Trust\<close>

lemma trust_recorded:
  "toml_leaf [lit ''projects'', key, lit ''trust_level''] (document_toml (set_project_trust_level_inner key level d)) =
     Some (TString (trust_text level))"
  by (simp add: set_project_trust_level_inner_def Let_def toml_leaf_def document_view map_of_update
      del: lit_Cons split: prod.split)

lemma migrated_entry:
  "distinct (map fst inline) \<Longrightarrow>
   map_of (filter_map (\<lambda>(k, v). case v of TTable inner \<Rightarrow> Some (k, ITable False (table_from_inline inner)) | _ \<Rightarrow> None) inline) k =
     (case map_of inline k of Some (TTable inner) \<Rightarrow> Some (ITable False (table_from_inline inner)) | _ \<Rightarrow> None)"
proof (induction inline)
  case (Cons e inline)
  then have "map_of inline (fst e) = None" by (simp add: map_of_eq_None_iff)
  with Cons show ?case by (cases e; cases "snd e") auto
qed simp

lemma migrated_leaf:
  assumes "q \<noteq> []" "toml_wf (document_toml d)"
  shows "toml_leaf (k # q) (document_toml (snd (migrate_projects (map_of d (lit ''projects''))))) =
     toml_leaf (lit ''projects'' # k # q) (document_toml d)"
proof (cases "map_of d (lit ''projects'')")
  case None
  then show ?thesis by (simp add: migrate_projects_def toml_leaf_def document_view del: lit_Cons)
next
  case (Some i)
  have hidden: "said (toml_view q v) = None" if "\<not> is_table v" for v
    using assms(1) that by (cases q; cases v) auto
  show ?thesis
  proof (cases "\<exists>inline. i = IValue (TTable inline)")
    case True
    then obtain inline where i: "i = IValue (TTable inline)" by blast
    have "toml_wf (item_toml i)"
      using assms(2) Some by (auto simp: document_is_table dest!: map_of_SomeD)
    then have "distinct (map fst inline)" by (simp add: i)
    from migrated_entry [OF this, of k] show ?thesis
      using Some hidden
      by (auto simp: migrate_projects_def i toml_leaf_def document_view inline_document simp del: lit_Cons
          split: option.split toml.split)
  next
    case False
    with Some hidden show ?thesis
      by (cases i) (auto simp: migrate_projects_def toml_leaf_def document_view simp del: lit_Cons split: toml.split)
  qed
qed

lemma other_projects_kept:
  assumes "k \<noteq> key" "q \<noteq> []" "toml_wf (document_toml d)"
  shows "leaf_kept (lit ''projects'' # k # q) d (set_project_trust_level_inner key level d)"
  using migrated_leaf [OF assms(2,3), of k] assms(1)
  by (auto simp: set_project_trust_level_inner_def Let_def leaf_kept_def toml_leaf_def document_view map_of_update
      simp del: lit_Cons split: prod.split)

section \<open>Links\<close>

lemma follow_links_ends:
  assumes "finite {p. \<exists>t. disk p = LinkTo t}" "visited \<subseteq> {p. \<exists>t. disk p = LinkTo t}"
  shows "\<exists>r. follow_links disk root current visited = Some r \<and>
    ((sw_read_path r = Some (sw_write_path r) \<and> (disk (sw_write_path r) = NotLink \<or> disk (sw_write_path r) = LinkMissing)) \<or>
     (sw_read_path r = None \<and> sw_write_path r = root))"
  using assms(2)
proof (induction "card ({p. \<exists>t. disk p = LinkTo t} - visited)" arbitrary: current visited rule: less_induct)
  case less
  show ?case
  proof (cases "disk current")
    case (LinkTo t)
    show ?thesis
    proof (cases "current \<in> visited \<or> t = None")
      case True
      with LinkTo show ?thesis by (subst follow_links.simps) (auto split: option.split)
    next
      case False
      then obtain next_path where t: "t = Some next_path" by auto
      have "{p. \<exists>t. disk p = LinkTo t} - insert current visited \<subset> {p. \<exists>t. disk p = LinkTo t} - visited"
        using LinkTo False by auto
      then have "card ({p. \<exists>t. disk p = LinkTo t} - insert current visited) < card ({p. \<exists>t. disk p = LinkTo t} - visited)"
        using assms(1) by (intro psubset_card_mono) auto
      with less.hyps [of "insert current visited" next_path] less.prems LinkTo False t show ?thesis
        by (subst follow_links.simps) auto
    qed
  qed (subst follow_links.simps; simp)+
qed
section \<open>Writing\<close>

lemma insert_fails:
  assumes "descend Create segs f d = (None, d')"
  shows "\<exists>r ts. prefix r segs \<and> toml_view r (document_toml d') = Says (TArray ts)"
  using assms
proof (induction segs arbitrary: d d')
  case (Cons s segs)
  define d1 where "d1 = (if map_of d s = None then AList.update s (ITable True []) d else d)"
  obtain i where i: "map_of d1 s = Some i"
    by (cases "map_of d s") (auto simp: d1_def map_of_update)
  show ?case
  proof (cases "ensure_table_for_write i")
    case None
    then obtain ts where "i = IArrayOfTables ts" by (cases i rule: ensure_table_for_write.cases) auto
    then have "toml_view [s] (document_toml d1) = Says (item_toml i)"
      using i by (simp add: document_view)
    moreover have "d' = d1"
      using Cons.prems i None by (simp add: d1_def [symmetric] Let_def)
    ultimately show ?thesis
      using \<open>i = IArrayOfTables ts\<close> by (intro exI [of _ "[s]"]) simp
  next
    case (Some r)
    obtain imp tb where r: "r = (imp, tb)" by (cases r)
    obtain tb' where tb': "descend Create segs f tb = (None, tb')" and d': "d' = AList.update s (ITable imp tb') d1"
      using Cons.prems i Some r by (auto simp: d1_def [symmetric] Let_def split: prod.splits)
    from Cons.IH [OF tb'] obtain q ts where "prefix q segs" "toml_view q (document_toml tb') = Says (TArray ts)" by blast
    then show ?thesis
      by (intro exI [of _ "s # q"]) (auto simp: d' document_view map_of_update)
  qed
qed (simp split: prod.splits)

lemma written_document:
  assumes "apply_blocking io home edits = Some (Ok (Some (path, d')))"
    and "resolve_symlink_write_paths (ed_links io) (home @ [CONFIG_TOML_FILE]) = Some paths" "read_document io paths = Ok d"
  shows "path = sw_write_path paths \<and> (\<exists>m. apply_edits_loop (ed_secs io) (ed_canonical io) edits (False, d) = Ok (m, d'))"
  using assms
  by (auto simp: apply_blocking_def apply_blocking_toml_def and_then_eq_Inr split: if_splits option.splits)

lemma edits_snoc:
  "apply_edits_loop secs canon (es @ [e]) (m, d) =
     and_then (apply_edits_loop secs canon es (m, d)) (\<lambda>st. apply_edits_loop secs canon [e] st)"
  by (induction es arbitrary: m d) (auto simp: and_then_def split: sum.split)

lemma insert_reads_back:
  assumes "doc_insert segs item d = (m, d')" "segs \<noteq> []"
  shows "toml_view (segs @ q) (document_toml d') = toml_view q (item_toml item) \<or>
    (\<exists>r ts. strict_prefix r segs \<and> toml_view r (document_toml d') = Says (TArray ts))"
proof (cases m)
  case True
  then show ?thesis
    using doc_insert_toml [OF assms(1)] view_set_same [OF assms(2)] by simp
next
  case False
  then have "descend Create (butlast segs) (\<lambda>parent. ((), AList.update (last segs) item parent)) d = (None, d')"
    using assms by (cases "fst (descend Create (butlast segs) (\<lambda>parent. ((), AList.update (last segs) item parent)) d)")
      (auto simp: doc_insert_def split: prod.splits)
  from insert_fails [OF this] obtain r ts where "prefix r (butlast segs)" "toml_view r (document_toml d') = Says (TArray ts)"
    by blast
  moreover from this(1) have "strict_prefix r segs"
    using assms(2) by (metis append_butlast_last_id prefix_order.less_le_trans prefix_order.le_less_trans strict_prefixI' )
  ultimately show ?thesis by blast
qed

text \<open>
  C9. A change of the configuration file changes what it names.  Whatever the edits are, a setting that none of them names,
  contains or lies within has the same value in the file that is written as in the file that was read.  A value that is
  set last is read back at its path, unless an array of tables stands on the way to it.
\<close>
theorem edits_keep_the_rest:
  assumes "resolve_symlink_write_paths (ed_links io) (home @ [CONFIG_TOML_FILE]) = Some paths"
    and "read_document io paths = Ok d" and "apply_blocking io home edits = Some (Ok (Some (path, d')))"
  shows "path = sw_write_path paths \<and>
    (\<forall>p. (\<forall>e \<in> set edits. \<forall>q \<in> set (edit_paths e). apart q p) \<longrightarrow>
       toml_leaf p (document_toml d') = toml_leaf p (document_toml d)) \<and>
    (\<forall>es segs item q. edits = es @ [SetPath segs item] \<and> segs \<noteq> [] \<longrightarrow>
       toml_view (segs @ q) (document_toml d') = toml_view q (item_toml item) \<or>
       (\<exists>r ts. strict_prefix r segs \<and> toml_view r (document_toml d') = Says (TArray ts)))"
proof -
  obtain m where run: "path = sw_write_path paths" "apply_edits_loop (ed_secs io) (ed_canonical io) edits (False, d) = Ok (m, d')"
    using written_document [OF assms(3,1,2)] by blast
  have "toml_leaf p (document_toml d') = toml_leaf p (document_toml d)"
    if "\<forall>e \<in> set edits. \<forall>q \<in> set (edit_paths e). apart q p" for p
    using edits_keep [OF run(2) that] by (simp add: leaf_kept_def)
  moreover have "toml_view (segs @ q) (document_toml d') = toml_view q (item_toml item) \<or>
       (\<exists>r ts. strict_prefix r segs \<and> toml_view r (document_toml d') = Says (TArray ts))"
    if edit: "edits = es @ [SetPath segs item]" and segs: "segs \<noteq> []" for es segs item q
  proof -
    obtain m1 d1 where "apply_edits_loop (ed_secs io) (ed_canonical io) [SetPath segs item] (m1, d1) = Ok (m, d')"
      using run(2) unfolding edit edits_snoc and_then_eq_Inr by fastforce
    then obtain n where "doc_insert segs item d1 = (n, d')"
      by (cases "doc_insert segs item d1") simp
    then show ?thesis
      using insert_reads_back [OF _ segs] by blast
  qed
  ultimately show ?thesis using run(1) by blast
qed

text \<open>
  Marking a project.  Whenever the configuration file can be found and read, the trust level is written for exactly this
  project: the entry has the level, the settings of all other projects stay as they were, even when the projects were given
  in one inline table, and so does everything outside the projects.
\<close>
lemma trust_is_recorded:
  assumes "resolve_symlink_write_paths (ed_links io) (home @ [CONFIG_TOML_FILE]) = Some paths"
    and "read_document io paths = Ok d" and "toml_wf (document_toml d)"
  shows "\<exists>d'. set_project_trust_level io home key level = Some (Ok (Some (sw_write_path paths, d'))) \<and>
    toml_leaf [lit ''projects'', key, lit ''trust_level''] (document_toml d') = Some (TString (trust_text level)) \<and>
    (\<forall>k q. k \<noteq> key \<and> q \<noteq> [] \<longrightarrow>
       toml_leaf (lit ''projects'' # k # q) (document_toml d') = toml_leaf (lit ''projects'' # k # q) (document_toml d)) \<and>
    (\<forall>p. apart [lit ''projects''] p \<longrightarrow> toml_leaf p (document_toml d') = toml_leaf p (document_toml d))"
proof (intro exI conjI)
  let ?d = "set_project_trust_level_inner key level d"
  show "set_project_trust_level io home key level = Some (Ok (Some (sw_write_path paths, ?d)))"
    using assms(1,2)
    by (simp add: set_project_trust_level_def builder_apply_def with_edits_def edits_builder_new_def apply_blocking_def
        apply_blocking_toml_def)
  show "toml_leaf [lit ''projects'', key, lit ''trust_level''] (document_toml ?d) = Some (TString (trust_text level))"
    by (rule trust_recorded)
  show "\<forall>k q. k \<noteq> key \<and> q \<noteq> [] \<longrightarrow>
      toml_leaf (lit ''projects'' # k # q) (document_toml ?d) = toml_leaf (lit ''projects'' # k # q) (document_toml d)"
    using other_projects_kept [OF _ _ assms(3)] by (simp add: leaf_kept_def del: lit_Cons)
  show "\<forall>p. apart [lit ''projects''] p \<longrightarrow> toml_leaf p (document_toml ?d) = toml_leaf p (document_toml d)"
    using edit_keeps [of _ _ "SetProjectTrustLevel key level" d "(True, ?d)"] by (simp add: leaf_kept_def del: lit_Cons)
qed


section \<open>Examples\<close>

definition sample_document :: document where
  "sample_document =
     [(lit ''projects'', IValue (TTable [(lit ''/a'', TTable [(lit ''trust_level'', TString (lit ''trusted''))])])),
      (lit ''x'', IValue (TInteger 1))]"

definition sample_edit_io :: edit_io where
  "sample_edit_io =
     \<lparr>ed_links = (\<lambda>_. NotLink), ed_read = (\<lambda>_. CfgText (lit ''t'')), ed_parse = (\<lambda>_. Ok sample_document),
      ed_secs = (\<lambda>_. []), ed_canonical = (\<lambda>_. None)\<rparr>"

lemma sample_edit_paths:
  "resolve_symlink_write_paths (ed_links sample_edit_io) p = Some \<lparr>sw_read_path = Some p, sw_write_path = p\<rparr>"
  "read_document sample_edit_io \<lparr>sw_read_path = Some p, sw_write_path = p\<rparr> = Ok sample_document"
  by (simp_all add: sample_edit_io_def resolve_symlink_write_paths_def follow_links.simps read_document_def)

theorem edits_keep_the_rest_witness:
  "\<exists>d'. apply_blocking sample_edit_io [] [SetPath [lit ''y''] (bool_item True)] = Some (Ok (Some ([CONFIG_TOML_FILE], d'))) \<and>
     toml_leaf [lit ''x''] (document_toml d') = Some (TInteger 1)"
proof -
  have run: "apply_blocking sample_edit_io [] [SetPath [lit ''y''] (bool_item True)] =
      Some (Ok (Some ([CONFIG_TOML_FILE], AList.update (lit ''y'') (bool_item True) sample_document)))"
    using sample_edit_paths
    by (simp add: apply_blocking_def apply_blocking_toml_def doc_insert_def)
  have "apart [lit ''y''] [lit ''x'']" by (simp add: apart_def)
  then have "toml_leaf [lit ''x''] (document_toml (AList.update (lit ''y'') (bool_item True) sample_document)) =
      toml_leaf [lit ''x''] (document_toml sample_document)"
    using edits_keep_the_rest [OF sample_edit_paths run [simplified append_Nil]] by simp
  then show ?thesis
    using run by (simp add: sample_document_def document_toml_def toml_leaf_def)
qed


section \<open>What is lost\<close>

text \<open>Saving a server whose list of allowed tools is empty drops the list: no tool was allowed before, every tool that is not
  disabled is allowed after.\<close>

lemma empty_tool_list_is_lost:
  assumes "mcp_enabled_tools cfg = Some []"
  shows "serialize_mcp_server_table secs cfg = serialize_mcp_server_table secs (cfg\<lparr>mcp_enabled_tools := None\<rparr>)"
    and "\<not> tool_allowed (tool_filter_from_config cfg) tool"
    and "mcp_disabled_tools cfg = None \<Longrightarrow> tool_allowed (tool_filter_from_config (cfg\<lparr>mcp_enabled_tools := None\<rparr>)) tool"
  using assms
  by (simp_all add: serialize_mcp_server_table_def nonempty_entry_def tool_allowed_def tool_filter_from_config_def)

end
