(* ===== verification/Config_Service.thy ===== *)
theory Config_Service
  imports Config_Edit
begin

text \<open>
  \<^verbatim>\<open>core/src/config/service.rs\<close>: changing single settings of the user's configuration on behalf of a client.  The request names
  dotted paths and values, and may name the version it was made for.  The change is made on the loaded user layer, checked
  against the typed configuration alone and under all layers, saved as edits of the file, and the answer says whether a higher
  layer hides it.

  The typed configuration, the conversions between JSON and configuration values and the resolution of a given path are
  arguments.  The model is that of a system other than WSL, where comparing paths is comparing their canonical forms.
\<close>

section \<open>Requests and answers\<close>

datatype config_write_error_code =
    ConfigLayerReadonly
  | ConfigVersionConflict
  | ConfigValidationError
  | ConfigPathNotFound
  | ConfigSchemaUnknownKey
  | UserLayerNotFound

datatype config_service_error =
    WriteRefused config_write_error_code rstring
  | IoFailed rstring load_error
  | TomlFailed rstring rstring
  | AnyhowFailed rstring rstring

datatype merge_strategy = Replace | Upsert

datatype write_status = WriteDone | WriteOverridden

record overridden_metadata =
  om_message :: rstring
  om_overriding_layer :: layer_stamp
  om_effective_value :: json

record config_write_response =
  wr_status :: write_status
  wr_version :: rstring
  wr_file_path :: apath
  wr_overridden :: "overridden_metadata option"

record config_service =
  sv_savfox_home :: apath
  sv_cli_overrides :: "(rstring \<times> toml) list"
  sv_managed_config :: "apath option"
  sv_cloud_requirements :: "config_requirements_toml option"

record service_env =
  se_config :: config_io
  se_edit :: edit_io
  se_validate :: "toml \<Rightarrow> (rstring, unit) result"
  se_from_json :: "json \<Rightarrow> (rstring, toml) result"
  se_to_json :: "toml \<Rightarrow> json option"
  se_absolute :: "rstring \<Rightarrow> (rstring, apath) result"

section \<open>Paths and values\<close>

definition parse_value :: "service_env \<Rightarrow> json \<Rightarrow> (rstring, toml option) result" where
  "parse_value env v =
     (if v = JNull then Ok None
      else case se_from_json env v of Inl e \<Rightarrow> Err (lit ''invalid value: '' @ e) | Inr t \<Rightarrow> Ok (Some t))"

definition parse_key_path :: "rstring \<Rightarrow> (rstring, rstring list) result" where
  "parse_key_path path = (if trim path = [] then Err (lit ''keyPath must not be empty'') else Ok (split_on 46 path))"

text \<open>\<^verbatim>\<open>parse::<i64>\<close>, then \<^verbatim>\<open>usize::try_from\<close>.\<close>

definition parse_index :: "rstring \<Rightarrow> nat option" where
  "parse_index s =
     (let negative = (case s of c # _ \<Rightarrow> c = 45 | [] \<Rightarrow> False);
          digits = (case s of c # t \<Rightarrow> if c = 45 \<or> c = 43 then t else s | [] \<Rightarrow> []);
          n = int (foldl (\<lambda>acc c. acc * 10 + (c - 48)) 0 digits)
      in if digits = [] \<or> \<not> list_all is_ascii_digit digits then None
         else if negative then (if n = 0 then Some 0 else None)
         else if n \<le> i64_max then Some (nat n) else None)"

fun value_at_path :: "rstring list \<Rightarrow> toml \<Rightarrow> toml option" where
  "value_at_path [] current = Some current"
| "value_at_path (segment # segs) (TTable table) = Option.bind (map_of table segment) (value_at_path segs)"
| "value_at_path (segment # segs) (TArray items) =
     (case parse_index segment of
        None \<Rightarrow> None
      | Some idx \<Rightarrow> if idx < length items then value_at_path segs (items ! idx) else None)"
| "value_at_path (segment # segs) _ = None"

datatype merge_error = PathNotFound | MergeInvalid rstring

definition set_last :: "merge_strategy \<Rightarrow> toml \<Rightarrow> rstring \<Rightarrow> toml \<Rightarrow> (merge_error, bool \<times> toml) result" where
  "set_last strategy v k current =
     (case current of
        TTable table \<Rightarrow>
          (case map_of table k of
             Some existing \<Rightarrow>
               if strategy = Upsert \<and> is_table existing \<and> is_table v
               then Ok (True, TTable (AList.update k (merge_toml_values existing v) table))
               else Ok (existing \<noteq> v, TTable (AList.update k v table))
           | None \<Rightarrow> Ok (True, TTable (AList.update k v table)))
      | _ \<Rightarrow> Err (MergeInvalid (lit ''cannot set value on non-table parent'')))"

text \<open>A parent that is no table becomes one when the path goes on below it.\<close>

fun merge_at :: "merge_strategy \<Rightarrow> toml \<Rightarrow> rstring list \<Rightarrow> rstring \<Rightarrow> toml \<Rightarrow> (merge_error, bool \<times> toml) result" where
  "merge_at strategy v [] k current = set_last strategy v k current"
| "merge_at strategy v (segment # parents) k current =
     (let table = (case current of TTable table \<Rightarrow> table | _ \<Rightarrow> []);
          entry = (case map_of table segment of Some e \<Rightarrow> e | None \<Rightarrow> TTable [])
      in and_then (merge_at strategy v parents k entry) (\<lambda>(changed, e).
           Ok (changed, TTable (AList.update segment e table))))"

fun clear_at :: "rstring list \<Rightarrow> rstring \<Rightarrow> toml \<Rightarrow> (merge_error, bool \<times> toml) result" where
  "clear_at [] k current =
     (case current of
        TTable table \<Rightarrow> Ok (map_of table k \<noteq> None, TTable (AList.delete k table))
      | _ \<Rightarrow> Err PathNotFound)"
| "clear_at (segment # parents) k current =
     (case current of
        TTable table \<Rightarrow>
          (case map_of table segment of
             None \<Rightarrow> Err PathNotFound
           | Some e \<Rightarrow> and_then (clear_at parents k e) (\<lambda>(removed, e').
               Ok (removed, TTable (AList.update segment e' table))))
      | _ \<Rightarrow> Err PathNotFound)"

definition clear_path :: "toml \<Rightarrow> rstring list \<Rightarrow> (merge_error, bool \<times> toml) result" where
  "clear_path root segments =
     (if segments = [] then Err (MergeInvalid (lit ''keyPath must not be empty''))
      else clear_at (butlast segments) (last segments) root)"

definition apply_merge :: "toml \<Rightarrow> rstring list \<Rightarrow> toml option \<Rightarrow> merge_strategy \<Rightarrow> (merge_error, bool \<times> toml) result" where
  "apply_merge root segments v strategy =
     (case v of
        None \<Rightarrow> clear_path root segments
      | Some t \<Rightarrow>
          if segments = [] then Err (MergeInvalid (lit ''keyPath must not be empty''))
          else merge_at strategy t (butlast segments) (last segments) root)"

text \<open>\<^verbatim>\<open>toml_value_to_value\<close> rebuilds a value as one of the editing library; the two are the same values here.\<close>

fun toml_value_to_item :: "toml \<Rightarrow> item" where
  "toml_value_to_item (TTable table) = ITable False (map (\<lambda>(key, v). (key, toml_value_to_item v)) table)"
| "toml_value_to_item v = IValue v"

section \<open>Which layer decides\<close>

definition find_effective_layer :: "config_layer_stack \<Rightarrow> rstring list \<Rightarrow> layer_stamp option" where
  "find_effective_layer layers segments =
     find_map (\<lambda>l. map_option (\<lambda>_. layer_metadata l) (value_at_path segments (ly_config l)))
       (get_layers HighestPrecedenceFirst False layers)"

fun override_message :: "config_layer_source \<Rightarrow> rstring" where
  "override_message (Mdm domain key) = lit ''Overridden by managed policy (MDM): '' @ domain"
| "override_message (System f) = lit ''Overridden by managed config (system): '' @ show_apath f"
| "override_message (Project dot_savfox_folder) =
     lit ''Overridden by project config: '' @ show_apath dot_savfox_folder @ lit ''/'' @ CONFIG_TOML_FILE"
| "override_message SessionFlags = lit ''Overridden by session flags''"
| "override_message (User f) = lit ''Overridden by user config: '' @ show_apath f"

definition compute_override_metadata ::
    "service_env \<Rightarrow> config_layer_stack \<Rightarrow> toml \<Rightarrow> rstring list \<Rightarrow> overridden_metadata option" where
  "compute_override_metadata env layers effective segments =
     (case get_user_layer layers of
        None \<Rightarrow> None
      | Some user_layer \<Rightarrow>
          (let user_value = value_at_path segments (ly_config user_layer);
               effective_value = value_at_path segments effective
           in if user_value \<noteq> None \<and> user_value = effective_value then None
              else if user_value = None \<and> effective_value = None then None
              else case find_effective_layer layers segments of
                     None \<Rightarrow> None
                   | Some overriding_layer \<Rightarrow>
                       Some \<lparr>om_message = override_message (fst overriding_layer), om_overriding_layer = overriding_layer,
                             om_effective_value = (case Option.bind effective_value (se_to_json env) of
                                                     Some j \<Rightarrow> j | None \<Rightarrow> JNull)\<rparr>))"

definition first_overridden_edit ::
    "service_env \<Rightarrow> config_layer_stack \<Rightarrow> toml \<Rightarrow> rstring list list \<Rightarrow> overridden_metadata option" where
  "first_overridden_edit env layers effective edits = find_map (compute_override_metadata env layers effective) edits"

section \<open>The service\<close>

definition load_session_agnostic_config :: "service_env \<Rightarrow> config_service \<Rightarrow> (load_error, config_layer_stack) result" where
  "load_session_agnostic_config env sv =
     load_config_layers_state (se_config env) (sv_savfox_home sv) None (sv_cli_overrides sv) (sv_managed_config sv)
       (sv_cloud_requirements sv)"

definition read_requirements :: "service_env \<Rightarrow> config_service \<Rightarrow> (config_service_error, config_requirements_toml option) result" where
  "read_requirements env sv =
     and_then (map_err (IoFailed (lit ''failed to read configuration layers'')) (load_session_agnostic_config env sv)) (\<lambda>layers.
       Ok (if requirements_is_empty (ls_requirements_toml layers) then None else Some (ls_requirements_toml layers)))"

definition paths_match :: "config_io \<Rightarrow> apath \<Rightarrow> apath \<Rightarrow> bool" where
  "paths_match io expected provided =
     (case (io_canonical io expected, io_canonical io provided) of
        (Some e, Some p) \<Rightarrow> e = p
      | _ \<Rightarrow> expected = provided)"

text \<open>One edit: the new user configuration and the change of the file, if the value at the path is another one.\<close>

definition one_edit ::
    "service_env \<Rightarrow> rstring \<times> json \<times> merge_strategy \<Rightarrow> toml \<Rightarrow>
     (config_service_error, rstring list \<times> config_edit list \<times> toml) result" where
  "one_edit env = (\<lambda>(key_path, v, strategy) user_config.
     and_then (map_err (WriteRefused ConfigValidationError) (parse_key_path key_path)) (\<lambda>segments.
     and_then (map_err (WriteRefused ConfigValidationError) (parse_value env v)) (\<lambda>parsed.
     and_then (map_err (\<lambda>e. case e of
                  PathNotFound \<Rightarrow> WriteRefused ConfigPathNotFound (lit ''Path not found'')
                | MergeInvalid m \<Rightarrow> WriteRefused ConfigValidationError m)
                (apply_merge user_config segments parsed strategy)) (\<lambda>(_, updated).
       let original_value = value_at_path segments user_config; updated_value = value_at_path segments updated in
       Ok (segments,
           if original_value = updated_value then []
           else (case updated_value of
                   Some u \<Rightarrow> [SetPath segments (toml_value_to_item u)]
                 | None \<Rightarrow> [ClearPath segments]),
           updated)))))"

fun edits_loop ::
    "service_env \<Rightarrow> (rstring \<times> json \<times> merge_strategy) list \<Rightarrow> toml \<Rightarrow>
     (config_service_error, rstring list list \<times> config_edit list \<times> toml) result" where
  "edits_loop env [] user_config = Ok ([], [], user_config)"
| "edits_loop env (e # es) user_config =
     and_then (one_edit env e user_config) (\<lambda>(segments, edits, user_config).
     and_then (edits_loop env es user_config) (\<lambda>(parsed, more_edits, user_config).
       Ok (segments # parsed, edits @ more_edits, user_config)))"

text \<open>\<^verbatim>\<open>create_empty_user_layer\<close>: the layer, and the file that is created empty.  \<open>None\<close> if the links never end.\<close>

definition create_empty_user_layer ::
    "service_env \<Rightarrow> apath \<Rightarrow> (config_service_error, config_layer_entry \<times> apath option) result option" where
  "create_empty_user_layer env config_toml =
     (let io = se_edit env; layer = layer_new (io_version (se_config env)) (User config_toml) in
      case resolve_symlink_write_paths (ed_links io) config_toml of
        None \<Rightarrow> None
      | Some paths \<Rightarrow> Some (
          case sw_read_path paths of
            None \<Rightarrow> Ok (layer (TTable []), Some (sw_write_path paths))
          | Some path \<Rightarrow>
              (case ed_read io path of
                 CfgText contents \<Rightarrow>
                   and_then (map_err (TomlFailed (lit ''failed to parse existing user config.toml''))
                     (io_parse_toml (se_config env) contents)) (\<lambda>t. Ok (layer t, None))
               | CfgNotFound \<Rightarrow> Ok (layer (TTable []), Some (sw_write_path paths))
               | CfgFailed e \<Rightarrow> Err (IoFailed (lit ''failed to read user config.toml'') (LoadError e)))))"

text \<open>Saving after the checks, and the answer; the first part of the pair is what is written.\<close>

definition save_and_answer ::
    "service_env \<Rightarrow> config_service \<Rightarrow> apath \<Rightarrow> config_layer_stack \<Rightarrow> rstring list list \<Rightarrow> config_edit list \<Rightarrow>
     ((apath \<times> document) option \<times> (config_service_error, config_write_response) result) option" where
  "save_and_answer env sv provided_path updated_layers parsed config_edits =
     (case (if config_edits = [] then Some (Ok None) else builder_apply (se_edit env)
              (with_edits config_edits (edits_builder_new (sv_savfox_home sv)))) of
        None \<Rightarrow> None
      | Some (Inl e) \<Rightarrow> Some (None, Err (AnyhowFailed (lit ''failed to persist config.toml'') e))
      | Some (Inr w) \<Rightarrow>
          (let overridden = first_overridden_edit env updated_layers (effective_config updated_layers) parsed in
           Some (w,
             case get_user_layer updated_layers of
               None \<Rightarrow> Err (WriteRefused UserLayerNotFound (lit ''user layer not found in updated layers''))
             | Some l \<Rightarrow> Ok \<lparr>wr_status = (if overridden = None then WriteDone else WriteOverridden), wr_version = ly_version l,
                             wr_file_path = provided_path, wr_overridden = overridden\<rparr>)))"

text \<open>\<open>None\<close>: the links never end, or a panic in \<^verbatim>\<open>with_user_config\<close>, which a loaded stack excludes.\<close>

definition edit_user_layer ::
    "service_env \<Rightarrow> config_service \<Rightarrow> apath \<Rightarrow> rstring option \<Rightarrow> (rstring \<times> json \<times> merge_strategy) list \<Rightarrow>
     config_layer_stack \<Rightarrow> config_layer_entry \<Rightarrow>
     ((apath \<times> document) option \<times> (config_service_error, config_write_response) result) option" where
  "edit_user_layer env sv provided_path expected_version edits layers user_layer =
     (let invalid = (\<lambda>e. WriteRefused ConfigValidationError (lit ''Invalid configuration: '' @ e)) in
      if expected_version \<noteq> None \<and> expected_version \<noteq> Some (ly_version user_layer)
      then Some (None, Err (WriteRefused ConfigVersionConflict
             (lit ''Configuration was modified since last read. Fetch latest version and retry.'')))
      else case edits_loop env edits (ly_config user_layer) of
        Inl e \<Rightarrow> Some (None, Err e)
      | Inr (parsed, config_edits, user_config) \<Rightarrow>
          (case se_validate env user_config of
             Inl e \<Rightarrow> Some (None, Err (invalid e))
           | Inr _ \<Rightarrow>
               (case with_user_config (io_version (se_config env)) provided_path user_config layers of
                  None \<Rightarrow> None
                | Some updated_layers \<Rightarrow>
                    (case se_validate env (effective_config updated_layers) of
                       Inl e \<Rightarrow> Some (None, Err (invalid e))
                     | Inr _ \<Rightarrow> save_and_answer env sv provided_path updated_layers parsed config_edits))))"

definition service_apply_edits ::
    "service_env \<Rightarrow> config_service \<Rightarrow> rstring option \<Rightarrow> rstring option \<Rightarrow> (rstring \<times> json \<times> merge_strategy) list \<Rightarrow>
     ((apath \<times> document) option \<times> (config_service_error, config_write_response) result) option" where
  "service_apply_edits env sv file_path expected_version edits =
     (let allowed_path = sv_savfox_home sv @ [CONFIG_TOML_FILE] in
      case (case file_path of None \<Rightarrow> Ok allowed_path | Some p \<Rightarrow> se_absolute env p) of
        Inl e \<Rightarrow> Some (None, Err (IoFailed (lit ''failed to resolve user config path'') (LoadError e)))
      | Inr provided_path \<Rightarrow>
          if \<not> paths_match (se_config env) allowed_path provided_path
          then Some (None, Err (WriteRefused ConfigLayerReadonly (lit ''Only writes to the user config are allowed'')))
          else case load_session_agnostic_config env sv of
            Inl e \<Rightarrow> Some (None, Err (IoFailed (lit ''failed to load configuration'') e))
          | Inr layers \<Rightarrow>
              (case get_user_layer layers of
                 Some user_layer \<Rightarrow> edit_user_layer env sv provided_path expected_version edits layers user_layer
               | None \<Rightarrow>
                   (case create_empty_user_layer env allowed_path of
                      None \<Rightarrow> None
                    | Some (Inl e) \<Rightarrow> Some (None, Err e)
                    | Some (Inr (user_layer, created)) \<Rightarrow>
                        map_option (\<lambda>(w, r). (if w = None then map_option (\<lambda>p. (p, [])) created else w, r))
                          (edit_user_layer env sv provided_path expected_version edits layers user_layer))))"

definition write_value ::
    "service_env \<Rightarrow> config_service \<Rightarrow> rstring option \<Rightarrow> rstring option \<Rightarrow> rstring \<Rightarrow> json \<Rightarrow> merge_strategy \<Rightarrow>
     ((apath \<times> document) option \<times> (config_service_error, config_write_response) result) option" where
  "write_value env sv file_path expected_version key_path v strategy =
     service_apply_edits env sv file_path expected_version [(key_path, v, strategy)]"

definition batch_write ::
    "service_env \<Rightarrow> config_service \<Rightarrow> rstring option \<Rightarrow> rstring option \<Rightarrow> (rstring \<times> json \<times> merge_strategy) list \<Rightarrow>
     ((apath \<times> document) option \<times> (config_service_error, config_write_response) result) option" where
  "batch_write env sv file_path expected_version edits = service_apply_edits env sv file_path expected_version edits"

section \<open>What one edit does\<close>

lemma item_of_toml: "item_toml (toml_value_to_item v) = v"
proof (induction v)
  case (TTable tb)
  have "map (\<lambda>(k, i). (k, item_toml i)) (map (\<lambda>(k, v). (k, toml_value_to_item v)) tb) = tb"
    using TTable by (intro nth_equalityI) (auto simp: split_def, metis nth_mem snds.intros prod.collapse)
  then show ?case by (simp add: document_is_table)
qed simp_all

lemma merge_replaces:
  "merge_at Replace t parents k c = Inr (changed, c') \<Longrightarrow> c' = set_segments (parents @ [k]) t c"
proof (induction parents arbitrary: c c' changed)
  case Nil
  then show ?case by (cases c) (auto simp: set_last_def split: option.splits)
next
  case (Cons s parents)
  then show ?case
    by (cases c; cases parents) (fastforce simp: Let_def and_then_eq_Inr)+
qed

lemma value_at_set: "segs \<noteq> [] \<Longrightarrow> value_at_path segs (set_segments segs t c) = Some t"
proof (induction segs t c rule: set_segments.induct)
  case (2 s t c)
  then show ?case by (cases c) (simp_all add: map_of_update)
next
  case (3 s s' segs t c)
  then show ?case by (simp add: Let_def map_of_update)
qed simp

lemma split_nonempty: "split_on c s \<noteq> []"
  by (induction s) (auto split: list.splits)

lemma one_edit_cases:
  assumes "one_edit env (key, v, strategy) c = Inr (segs, es, c')"
  shows "segs = split_on 46 key \<and> (\<forall>e \<in> set es. edit_paths e = [segs])"
  using assms
  by (auto simp: one_edit_def and_then_eq_Inr map_err_def parse_key_path_def Let_def
      split: sum.splits if_splits option.splits)

lemma edits_loop_paths:
  "edits_loop env edits c = Inr (parsed, es, c') \<Longrightarrow>
   parsed = map (\<lambda>(key, _). split_on 46 key) edits \<and> (\<forall>e \<in> set es. \<exists>segs \<in> set parsed. edit_paths e = [segs])"
proof (induction edits arbitrary: c parsed es)
  case (Cons e edits)
  obtain key v strategy where e: "e = (key, v, strategy)" by (cases e)
  obtain segs es1 c1 parsed2 es2 where
      one: "one_edit env (key, v, strategy) c = Inr (segs, es1, c1)" and "edits_loop env edits c1 = Inr (parsed2, es2, c')"
      and "parsed = segs # parsed2" "es = es1 @ es2"
    using Cons.prems by (auto simp: and_then_eq_Inr e)
  with Cons.IH one_edit_cases [OF one] show ?case
    by (fastforce simp: e)
qed simp

section \<open>What success means\<close>

lemma user_layer_loaded:
  assumes "load_config_layers_state io home cwd cli managed cloud = Inr s"
  shows "\<exists>u. get_user_layer s = Some u \<and> ls_user_layer_index s = Some 0 \<and> ls_layers s \<noteq> []"
proof -
  from assms obtain uf u ps ws sl ms where p: "load_user_layer io uf = Inr u" "ls_layers s = u # ps @ flag_layers io cli @ sl # ms"
        "verify_layer_ordering (ls_layers s) = Inr (ls_user_layer_index s)"
    by (rule load_parts)
  have "is_user u"
    using p(1) by (auto simp: load_user_layer_def load_config_toml_for_required_layer_def is_user_def and_then_eq_Inr
        layer_new_def split: cfg_read.splits)
  then have "ls_user_layer_index s = Some 0"
    using p(2,3) by (simp add: verify_layer_ordering_iff)
  then show ?thesis
    using p(2) by (simp add: get_user_layer_def)
qed

lemma updated_user_layer:
  assumes "with_user_config ver f c layers = Some updated" "ls_user_layer_index layers = Some 0"
  shows "get_user_layer updated = Some (layer_new ver (User f) c) \<and>
    layer_new ver (User f) c \<in> set (get_layers HighestPrecedenceFirst False updated)"
  using assms
  by (cases "ls_layers layers")
    (auto simp: with_user_config_def Let_def get_user_layer_def get_layers_def is_disabled_def layer_new_def split: if_splits)

lemma saved_or_error:
  assumes "save_and_answer env sv provided updated parsed es = Some (w, r)" "get_user_layer updated = Some l"
  shows "(\<exists>e. r = Err e \<and> w = None) \<or>
    (\<exists>resp. r = Ok resp \<and> wr_version resp = ly_version l \<and> wr_file_path resp = provided \<and>
       wr_overridden resp = first_overridden_edit env updated (effective_config updated) parsed \<and>
       (wr_status resp = WriteDone \<longleftrightarrow> wr_overridden resp = None) \<and>
       (if es = [] then w = None else apply_blocking (se_edit env) (sv_savfox_home sv) es = Some (Ok w)))"
  using assms
  by (auto simp: save_and_answer_def builder_apply_def with_edits_def edits_builder_new_def Let_def
      split: if_splits option.splits sum.splits)

text \<open>A checked change: what is known when a write is answered with success.\<close>

definition checked_change ::
    "service_env \<Rightarrow> config_service \<Rightarrow> rstring option \<Rightarrow> (rstring \<times> json \<times> merge_strategy) list \<Rightarrow> (apath \<times> document) option \<Rightarrow>
     config_write_response \<Rightarrow> config_layer_stack \<Rightarrow> config_layer_entry \<Rightarrow> config_edit list \<Rightarrow> toml \<Rightarrow> config_layer_stack \<Rightarrow> bool" where
  "checked_change env sv expected edits w resp layers user es cfg updated \<longleftrightarrow>
     load_session_agnostic_config env sv = Ok layers \<and> get_user_layer layers = Some user \<and>
     paths_match (se_config env) (sv_savfox_home sv @ [CONFIG_TOML_FILE]) (wr_file_path resp) \<and>
     expected \<in> {None, Some (ly_version user)} \<and>
     (\<exists>parsed. edits_loop env edits (ly_config user) = Ok (parsed, es, cfg) \<and>
        wr_overridden resp = first_overridden_edit env updated (effective_config updated) parsed) \<and>
     se_validate env cfg = Ok () \<and> se_validate env (effective_config updated) = Ok () \<and>
     with_user_config (io_version (se_config env)) (wr_file_path resp) cfg layers = Some updated \<and>
     wr_version resp = io_version (se_config env) cfg \<and> (wr_status resp = WriteDone \<longleftrightarrow> wr_overridden resp = None) \<and>
     (if es = [] then w = None else apply_blocking (se_edit env) (sv_savfox_home sv) es = Some (Ok w))"

lemma edit_user_layer_cases:
  assumes "edit_user_layer env sv provided expected edits layers user = Some (w, r)"
    and load: "load_session_agnostic_config env sv = Ok layers" "get_user_layer layers = Some user"
    and path: "paths_match (se_config env) (sv_savfox_home sv @ [CONFIG_TOML_FILE]) provided"
  shows "(\<exists>e. r = Err e \<and> w = None) \<or>
    (\<exists>resp es cfg updated. r = Ok resp \<and> checked_change env sv expected edits w resp layers user es cfg updated)"
proof -
  have index: "ls_user_layer_index layers = Some 0"
    using user_layer_loaded load(1) by (auto simp: load_session_agnostic_config_def)
  consider e where "r = Err e" "w = None"
    | parsed es cfg updated where "expected \<in> {None, Some (ly_version user)}"
        "edits_loop env edits (ly_config user) = Ok (parsed, es, cfg)" "se_validate env cfg = Ok ()"
        "with_user_config (io_version (se_config env)) provided cfg layers = Some updated"
        "se_validate env (effective_config updated) = Ok ()" "save_and_answer env sv provided updated parsed es = Some (w, r)"
    using assms(1)
    by (auto simp: edit_user_layer_def Let_def split: if_splits sum.splits option.splits prod.splits)
  then show ?thesis
  proof cases
    case 2
    with saved_or_error [OF 2(6)] updated_user_layer [OF 2(4) index] load path show ?thesis
      by (fastforce simp: checked_change_def layer_new_def)
  qed blast
qed

lemma apply_edits_cases:
  assumes "service_apply_edits env sv file_path expected edits = Some (w, r)"
  shows "(\<exists>e. r = Err e \<and> w = None) \<or>
    (\<exists>resp layers user es cfg updated. r = Ok resp \<and> checked_change env sv expected edits w resp layers user es cfg updated)"
proof -
  consider e where "r = Err e" "w = None"
    | provided layers where "paths_match (se_config env) (sv_savfox_home sv @ [CONFIG_TOML_FILE]) provided"
        "load_session_agnostic_config env sv = Ok layers"
    using assms
    by (auto simp: service_apply_edits_def Let_def split: if_splits sum.splits option.splits)
  then show ?thesis
  proof cases
    case 2
    obtain user where user: "get_user_layer layers = Some user"
      using user_layer_loaded [OF 2(2) [unfolded load_session_agnostic_config_def]] by blast
    have "\<exists>e. r = Err e \<and> w = None \<or> (\<exists>provided. paths_match (se_config env) (sv_savfox_home sv @ [CONFIG_TOML_FILE]) provided \<and>
        edit_user_layer env sv provided expected edits layers user = Some (w, r))"
      using assms 2(2) user
      by (auto simp: service_apply_edits_def Let_def split: if_splits sum.splits option.splits)
    then show ?thesis
      using edit_user_layer_cases [OF _ 2(2) user] by blast
  qed blast
qed


lemma find_map_found: "x \<in> set xs \<Longrightarrow> f x \<noteq> None \<Longrightarrow> find_map f xs \<noteq> None"
  by (induction xs) (auto split: option.split)

lemma overridden_iff:
  assumes "with_user_config ver f cfg layers = Some updated" "ls_user_layer_index layers = Some 0"
    and "value_at_path segs cfg = Some t"
  shows "compute_override_metadata env updated (effective_config updated) segs = None \<longleftrightarrow>
    value_at_path segs (effective_config updated) = Some t"
proof -
  note u = updated_user_layer [OF assms(1,2)]
  have "find_effective_layer updated segs \<noteq> None"
    unfolding find_effective_layer_def
    by (rule find_map_found [OF conjunct2 [OF u]]) (simp add: layer_new_def assms(3))
  then show ?thesis
    using u assms(3) by (auto simp: compute_override_metadata_def layer_new_def Let_def split: option.splits)
qed

definition saved_document :: "document \<Rightarrow> (apath \<times> document) option \<Rightarrow> toml" where
  "saved_document d w = document_toml (case w of None \<Rightarrow> d | Some (_, d') \<Rightarrow> d')"

lemma saved_one:
  assumes "apply_blocking io home [SetPath segs item] = Some (Ok w)" "segs \<noteq> []"
    and "resolve_symlink_write_paths (ed_links io) (home @ [CONFIG_TOML_FILE]) = Some paths" "read_document io paths = Ok d"
  shows "toml_view (segs @ q) (saved_document d w) = toml_view q (item_toml item) \<or>
    (\<exists>r ts. strict_prefix r segs \<and> toml_view r (saved_document d w) = Says (TArray ts))"
proof -
  obtain m d' where ins: "doc_insert segs item d = (m, d')" by fastforce
  have "saved_document d w = document_toml d'"
    using assms ins doc_insert_toml [OF ins]
    by (auto simp: apply_blocking_def apply_blocking_toml_def saved_document_def split: if_splits)
  then show ?thesis
    using insert_reads_back [OF ins assms(2)] by simp
qed

lemma saved_rest:
  assumes "if es = [] then w = None else apply_blocking io home es = Some (Ok w)"
    and "resolve_symlink_write_paths (ed_links io) (home @ [CONFIG_TOML_FILE]) = Some paths" "read_document io paths = Ok d"
    and "\<forall>e \<in> set es. \<forall>q \<in> set (edit_paths e). apart q p"
  shows "toml_leaf p (saved_document d w) = toml_leaf p (document_toml d)"
  using assms written_document [of io home es _ _ paths d] edits_keep [of _ _ es False d _ _ p]
  by (cases w) (auto simp: saved_document_def leaf_kept_def split: if_splits)


text \<open>
  A single write does what it says.  When replacing the value at a dotted path succeeds, the user configuration has exactly
  this value there and every unrelated setting is kept; the answer is plain success if the effective configuration has the
  value too, and otherwise says that it is overridden; and if the value is a new one, it is in the file, unless an array
  of tables stands on the way to it.
\<close>
lemma write_takes_effect:
  assumes "write_value env sv file_path expected key v Replace = Some (w, Ok resp)" "v \<noteq> JNull" "se_from_json env v = Ok t"
    and "resolve_symlink_write_paths (ed_links (se_edit env)) (sv_savfox_home sv @ [CONFIG_TOML_FILE]) = Some paths"
    and "read_document (se_edit env) paths = Ok d"
  shows "\<exists>layers user es cfg updated. checked_change env sv expected [(key, v, Replace)] w resp layers user es cfg updated \<and>
    value_at_path (split_on 46 key) cfg = Some t \<and>
    (\<forall>p. apart (split_on 46 key) p \<longrightarrow> toml_leaf p cfg = toml_leaf p (ly_config user)) \<and>
    (wr_status resp = WriteDone \<longleftrightarrow> value_at_path (split_on 46 key) (effective_config updated) = Some t) \<and>
    (value_at_path (split_on 46 key) (ly_config user) \<noteq> Some t \<longrightarrow>
       (\<forall>q. toml_view (split_on 46 key @ q) (saved_document d w) = toml_view q t) \<or>
       (\<exists>r ts. strict_prefix r (split_on 46 key) \<and> toml_view r (saved_document d w) = Says (TArray ts)))"
proof -
  let ?segs = "split_on 46 key"
  obtain layers user es cfg updated where c: "checked_change env sv expected [(key, v, Replace)] w resp layers user es cfg updated"
    using apply_edits_cases [OF assms(1) [unfolded write_value_def]] by auto
  have segs: "?segs \<noteq> []" by (rule split_nonempty)
  obtain parsed where loop: "edits_loop env [(key, v, Replace)] (ly_config user) = Ok (parsed, es, cfg)"
      and over: "wr_overridden resp = first_overridden_edit env updated (effective_config updated) parsed"
    using c by (auto simp: checked_change_def)
  then have cfg: "cfg = set_segments ?segs t (ly_config user)" and parsed: "parsed = [?segs]"
      and es: "es = (if value_at_path ?segs (ly_config user) = Some t then [] else [SetPath ?segs (toml_value_to_item t)])"
    using assms(2,3) segs value_at_set [OF segs, of t "ly_config user"]
    by (auto simp: one_edit_def and_then_eq_Inr map_err_def parse_key_path_def parse_value_def apply_merge_def Let_def
        split: sum.splits if_splits option.splits dest!: merge_replaces)
  have at: "value_at_path ?segs cfg = Some t"
    unfolding cfg by (rule value_at_set [OF segs])
  have kept: "\<forall>p. apart ?segs p \<longrightarrow> toml_leaf p cfg = toml_leaf p (ly_config user)"
    unfolding cfg apart_def using leaf_set_other by blast
  have index: "ls_user_layer_index layers = Some 0"
    using c user_layer_loaded by (auto simp: checked_change_def load_session_agnostic_config_def)
  have updated: "with_user_config (io_version (se_config env)) (wr_file_path resp) cfg layers = Some updated"
      and final: "wr_status resp = WriteDone \<longleftrightarrow> wr_overridden resp = None"
    using c by (simp_all add: checked_change_def)
  have status: "wr_status resp = WriteDone \<longleftrightarrow> value_at_path ?segs (effective_config updated) = Some t"
    using overridden_iff [OF updated index at, of env] over parsed final
    by (cases "wr_overridden resp") (simp_all add: first_overridden_edit_def split: option.splits)
  have "(\<forall>q. toml_view (?segs @ q) (saved_document d w) = toml_view q t) \<or>
      (\<exists>r ts. strict_prefix r ?segs \<and> toml_view r (saved_document d w) = Says (TArray ts))"
    if "value_at_path ?segs (ly_config user) \<noteq> Some t"
    using saved_one [OF _ segs assms(4,5), of "toml_value_to_item t" w] c es that by (auto simp: checked_change_def item_of_toml)
  with c at kept status show ?thesis by blast
qed

section \<open>Examples\<close>

definition sample_service_env :: service_env where
  "sample_service_env =
     \<lparr>se_config = sample_io, se_edit = sample_edit_io, se_validate = (\<lambda>_. Ok ()), se_from_json = (\<lambda>_. Ok (TInteger 7)),
      se_to_json = (\<lambda>_. None), se_absolute = (\<lambda>_. Err [])\<rparr>"

definition sample_service :: config_service where
  "sample_service = \<lparr>sv_savfox_home = [lit ''h''], sv_cli_overrides = [], sv_managed_config = None, sv_cloud_requirements = None\<rparr>"

lemma sample_session_loads:
  "\<exists>req. load_session_agnostic_config sample_service_env sample_service =
     Ok \<lparr>ls_layers = [layer_new (\<lambda>_. []) (User [lit ''h'', lit ''config.toml'']) (TTable []),
                       layer_new (\<lambda>_. []) (System SYSTEM_CONFIG_TOML_FILE_UNIX) (TTable [])],
         ls_user_layer_index = Some 0, ls_requirements = req, ls_requirements_toml = into_toml no_requirements,
         ls_startup_warnings = []\<rparr>"
proof -
  have reqs: "load_requirements_toml sample_io DEFAULT_REQUIREMENTS_TOML_FILE_UNIX no_requirements = Inr no_requirements"
    by (simp add: load_requirements_toml_def sample_io_def DEFAULT_REQUIREMENTS_TOML_FILE_UNIX_def)
  obtain req where req: "requirements_try_from no_requirements = Inr req"
    by (simp add: requirements_try_from_def no_requirements_def approval_requirement_def sandbox_requirement_def
        exec_policy_requirement_def residency_constraint_def)
  then show ?thesis
    by (simp add: load_session_agnostic_config_def sample_service_env_def sample_service_def load_config_layers_state_def reqs sample_user
        load_projects_def sample_system load_managed_layer_def cli_overrides_layer_def map_err_def stack_new_def
        verify_layer_ordering_def with_startup_warnings_def Let_def del: lit_Cons)
qed

lemma sample_write:
  "\<exists>w resp. write_value sample_service_env sample_service None (Some []) (lit ''m'') (JBool True) Replace = Some (w, Ok resp) \<and>
     wr_status resp = WriteDone"
proof -
  have key: "trim (lit ''m'') = lit ''m''" "lit ''m'' \<noteq> []" "split_on 46 (lit ''m'') = [lit ''m'']"
    by (simp_all add: trim_def trim_start_def trim_end_def is_whitespace_def)
  have home: "sv_savfox_home sample_service = [lit ''h'']" by (simp add: sample_service_def)
  have run: "apply_blocking sample_edit_io [lit ''h''] [SetPath [lit ''m''] (IValue (TInteger 7))] =
      Some (Ok (Some ([lit ''h'', CONFIG_TOML_FILE], AList.update (lit ''m'') (IValue (TInteger 7)) sample_document)))"
    using sample_edit_paths by (simp add: apply_blocking_def apply_blocking_toml_def doc_insert_def)
  show ?thesis
    using sample_session_loads run
    by (auto simp: write_value_def service_apply_edits_def Let_def home paths_match_def get_user_layer_def edit_user_layer_def
        one_edit_def map_err_def parse_key_path_def key parse_value_def apply_merge_def set_last_def with_user_config_def
        save_and_answer_def builder_apply_def with_edits_def edits_builder_new_def first_overridden_edit_def
        compute_override_metadata_def effective_config_def get_layers_def is_disabled_def sample_service_env_def sample_io_def layer_new_def
        simp del: lit_Cons)
qed


lemma sample_file:
  "resolve_symlink_write_paths (ed_links (se_edit sample_service_env)) (sv_savfox_home sample_service @ [CONFIG_TOML_FILE]) =
     Some \<lparr>sw_read_path = Some (sv_savfox_home sample_service @ [CONFIG_TOML_FILE]),
            sw_write_path = sv_savfox_home sample_service @ [CONFIG_TOML_FILE]\<rparr>"
  "read_document (se_edit sample_service_env) \<lparr>sw_read_path = Some p, sw_write_path = p\<rparr> = Ok sample_document"
  using sample_edit_paths by (simp_all add: sample_service_env_def)


section \<open>Where the answer misleads\<close>

text \<open>A managed layer gives a plain value where the user has a table.  The user's setting inside the table has no effect, but the
  layer that is reported as overriding it is the user's own.\<close>

definition hidden_setting :: config_layer_stack where
  "hidden_setting = undefined\<lparr>ls_layers :=
     [layer_new (\<lambda>_. []) (User []) (TTable [(lit ''a'', TTable [(lit ''b'', TInteger 2)])]),
      layer_new (\<lambda>_. []) (System []) (TTable [(lit ''a'', TInteger 1)])], ls_user_layer_index := Some 0\<rparr>"

lemma user_overrides_itself:
  "value_at_path [lit ''a'', lit ''b''] (effective_config hidden_setting) = None"
  "\<exists>om. compute_override_metadata env hidden_setting (effective_config hidden_setting) [lit ''a'', lit ''b''] = Some om \<and>
     fst (om_overriding_layer om) = User []"
  by (simp_all add: hidden_setting_def compute_override_metadata_def find_effective_layer_def get_user_layer_def effective_config_def
      get_layers_def is_disabled_def layer_new_def layer_metadata_def Let_def)

text \<open>An upsert of a table writes the whole merged table.  Its old entries come from the loaded layer, in which placeholders of
  the environment are already replaced.\<close>

lemma upsert_writes_loaded_values:
  assumes "se_from_json env v = Ok (TTable new)" "v \<noteq> JNull" "trim k \<noteq> []" "46 \<notin> set k"
    and "map_of tb k = Some (TTable old)" "merge_tables old new \<noteq> old"
  shows "one_edit env (k, v, Upsert) (TTable tb) = Ok ([k], [SetPath [k] (toml_value_to_item (TTable (merge_tables old new)))],
    TTable (AList.update k (TTable (merge_tables old new)) tb))"
proof -
  have "split_on 46 k = [k]"
    using assms(4) by (induction k) (auto split: list.splits)
  then show ?thesis
    using assms by (auto simp: one_edit_def parse_key_path_def parse_value_def map_err_def apply_merge_def set_last_def map_of_update)
qed

text \<open>A user file in another format: the first write creates \<^verbatim>\<open>config.toml\<close> with nothing but the edits, and from then on that
  file is read and the other one is not.\<close>

lemma other_format_is_abandoned:
  assumes "io_metadata io (home @ [CONFIG_TOML_FILE]) = MetaNotFound" "io_metadata io (home @ [lit ''config.json'']) = MetaNotFound"
    and "io_metadata io (home @ [lit ''config.yaml'']) = MetaFile"
    and "ed_links ed (home @ [CONFIG_TOML_FILE]) = LinkMissing" "ed_read ed (home @ [CONFIG_TOML_FILE]) = CfgNotFound"
  shows "user_file_of io home = Ok (home @ [lit ''config.yaml''])"
    and "apply_blocking ed home [SetPath [k] i] = Some (Ok (Some (home @ [CONFIG_TOML_FILE], [(k, i)])))"
    and "user_file_of (io\<lparr>io_metadata := (io_metadata io)(home @ [CONFIG_TOML_FILE] := MetaFile)\<rparr>) home =
      Ok (home @ [CONFIG_TOML_FILE])"
  using assms
  by (simp_all add: user_file_of_def resolve_preferred_config_file_def apath_parent_def Let_def apply_blocking_def
      apply_blocking_toml_def resolve_symlink_write_paths_def follow_links.simps read_document_def doc_insert_def del: lit_Cons)

end
