(* ===== verification/File_Tools.thy ===== *)
theory File_Tools
  imports Shell_Commands
begin

text \<open>
  The tool with which the model reads files, \<^verbatim>\<open>read_file.rs\<close> of \<^verbatim>\<open>core/src/tools/handlers\<close>, and the envelope
  for text from outside, \<^verbatim>\<open>core/src/external_content.rs\<close>.

  A file is its bytes and how reading them ends.  The decoding of bytes, the two regular expressions and the disk are arguments.
  Parsed arguments are the inputs of the handler.
\<close>

section \<open>Text from outside\<close>

datatype external_content_mode = ModeOff | ModeModerate | ModeStrict

definition current_mode :: "rstring option \<Rightarrow> external_content_mode" where
  "current_mode var =
     (let s = to_ascii_lowercase (case var of Some v \<Rightarrow> v | None \<Rightarrow> lit ''moderate'') in
      if s = lit ''off'' then ModeOff else if s = lit ''strict'' then ModeStrict else ModeModerate)"

text \<open>\<^verbatim>\<open>str::replace\<close> of one character.\<close>

definition replace_char :: "rchar \<Rightarrow> rstring \<Rightarrow> rstring \<Rightarrow> rstring" where
  "replace_char c by_text s = concat (map (\<lambda>x. if x = c then by_text else [x]) s)"

definition escape_xml_text :: "rstring \<Rightarrow> rstring" where
  "escape_xml_text input =
     replace_char 62 (lit ''&gt;'') (replace_char 60 (lit ''&lt;'') (replace_char 38 (lit ''&amp;'') input))"

definition escape_xml_attr :: "rstring \<Rightarrow> rstring" where
  "escape_xml_attr input =
     replace_char 62 (lit ''&gt;'') (replace_char 60 (lit ''&lt;'')
       (replace_char 34 (lit ''&quot;'') (replace_char 38 (lit ''&amp;'') input)))"

record outside_rules =
  or_instruction_like :: "rstring \<Rightarrow> bool"
  or_role_prefix :: "rstring \<Rightarrow> bool"

definition suspicious :: "outside_rules \<Rightarrow> rstring \<Rightarrow> bool" where
  "suspicious rules line \<longleftrightarrow> or_instruction_like rules line \<or> or_role_prefix rules line"

fun neutralize_line :: "external_content_mode \<Rightarrow> bool \<Rightarrow> rstring \<Rightarrow> rstring" where
  "neutralize_line ModeStrict True line = lit ''[neutralized external instruction-like line]''"
| "neutralize_line ModeStrict False line = escape_xml_text line"
| "neutralize_line ModeModerate True line = lit ''[neutralized] '' @ escape_xml_text line"
| "neutralize_line ModeModerate False line = line"
| "neutralize_line ModeOff _ line = line"

definition neutralize_instruction_like :: "outside_rules \<Rightarrow> rstring \<Rightarrow> external_content_mode \<Rightarrow> rstring" where
  "neutralize_instruction_like rules content mode =
     join_str [nl_char] (map (\<lambda>line. neutralize_line mode (suspicious rules line) line) (str_lines content))"

definition open_tag :: rstring where
  "open_tag = lit ''<external_content ''"

definition close_tag :: rstring where
  "close_tag = lit ''</external_content>''"

definition wrap_external_content :: "outside_rules \<Rightarrow> external_content_mode \<Rightarrow> rstring \<Rightarrow> rstring \<Rightarrow> rstring" where
  "wrap_external_content rules mode source content =
     (if mode = ModeOff \<or> (sublist open_tag content \<and> sublist close_tag content) then content
      else open_tag @ lit ''source='' @ [34] @ escape_xml_attr source @ [34] @ lit ''>'' @ [nl_char] @
           neutralize_instruction_like rules content mode @ [nl_char] @ close_tag)"

section \<open>Lines of a file\<close>

text \<open>\<^verbatim>\<open>take_bytes_at_char_boundary\<close>: its loop over the characters, with the number of bytes before the current one.\<close>

fun take_chars :: "nat \<Rightarrow> nat \<Rightarrow> rstring \<Rightarrow> rstring" where
  "take_chars maxb i [] = []"
| "take_chars maxb i (c # s) = (if i + len_utf8 c > maxb then [] else c # take_chars maxb (i + len_utf8 c) s)"

definition take_bytes_at_char_boundary :: "rstring \<Rightarrow> nat \<Rightarrow> rstring" where
  "take_bytes_at_char_boundary s maxb = (if byte_len s \<le> maxb then s else take_chars maxb 0 s)"

definition MAX_LINE_LENGTH :: nat where
  "MAX_LINE_LENGTH = 500"

type_synonym bytes = "nat list"

definition format_line :: "(bytes \<Rightarrow> rstring) \<Rightarrow> bytes \<Rightarrow> rstring" where
  "format_line decode b =
     (let decoded = decode b in
      if byte_len decoded > MAX_LINE_LENGTH then take_bytes_at_char_boundary decoded MAX_LINE_LENGTH else decoded)"

datatype function_call_error = RespondToModel rstring

datatype file_end = EndOfFile | ReadFails rstring

text \<open>\<^verbatim>\<open>read_until(b'\n')\<close>: the bytes up to and with the next newline, or all that are left.\<close>

definition read_until :: "bytes \<Rightarrow> bytes \<times> bytes" where
  "read_until b = (let l = takeWhile (\<lambda>c. c \<noteq> 10) b in
     case drop (length l) b of [] \<Rightarrow> (l, []) | c # r \<Rightarrow> (l @ [c], r))"

lemma read_until_shorter [termination_simp]: "b \<noteq> [] \<Longrightarrow> read_until b = (l, r) \<Longrightarrow> length r < length b"
proof -
  assume "b \<noteq> []" "read_until b = (l, r)"
  moreover have "length (takeWhile (\<lambda>c. c \<noteq> 10) b) \<le> length b" by (rule length_takeWhile_le)
  moreover have "length (drop n b) = length b - n" for n by simp
  ultimately show ?thesis
    by (auto simp: read_until_def Let_def split: list.splits dest!: arg_cong [where f = length])
qed

text \<open>A reading that fails before the next newline loses what it has read of the line.\<close>

definition next_buffer :: "file_end \<Rightarrow> bytes \<Rightarrow> (function_call_error, bytes \<times> bytes) result" where
  "next_buffer e b =
     (case e of
        ReadFails m \<Rightarrow> if 10 \<in> set b then Ok (read_until b) else Err (RespondToModel (lit ''failed to read file: '' @ m))
      | EndOfFile \<Rightarrow> Ok (read_until b))"

definition chomp :: "bytes \<Rightarrow> bytes" where
  "chomp buffer =
     (if buffer \<noteq> [] \<and> last buffer = 10
      then (let b = butlast buffer in if b \<noteq> [] \<and> last b = 13 then butlast b else b) else buffer)"

definition numbered :: "nat \<Rightarrow> rstring \<Rightarrow> rstring" where
  "numbered n text = lit ''L'' @ show_nat n @ lit '': '' @ text"

section \<open>A slice of a file\<close>

function slice_loop ::
    "(bytes \<Rightarrow> rstring) \<Rightarrow> nat \<Rightarrow> nat \<Rightarrow> file_end \<Rightarrow> bytes \<Rightarrow> nat \<Rightarrow> rstring list \<Rightarrow>
     (function_call_error, rstring list \<times> nat) result" where
  "slice_loop decode offset limit e b seen collected =
     (if b = [] \<and> e = EndOfFile then Ok (collected, seen)
      else case next_buffer e b of
        Inl err \<Rightarrow> Err err
      | Inr (buffer, remaining) \<Rightarrow>
          (let seen = seen + 1 in
           if seen < offset then slice_loop decode offset limit e remaining seen collected
           else if length collected = limit then Ok (collected, seen)
           else
             (let collected = collected @ [numbered seen (format_line decode (chomp buffer))] in
              if length collected = limit then Ok (collected, seen)
              else slice_loop decode offset limit e remaining seen collected)))"
  by pat_completeness auto

lemma next_buffer_shorter:
  "\<not> (b = [] \<and> e = EndOfFile) \<Longrightarrow> next_buffer e b = Inr (buffer, remaining) \<Longrightarrow> length remaining < length b"
  by (cases e; cases "b = []") (auto simp: next_buffer_def split: if_splits dest: read_until_shorter)

termination slice_loop
  by (relation "measure (\<lambda>(_, _, _, _, b, _, _). length b)") (auto intro: next_buffer_shorter)

definition slice_read ::
    "(bytes \<Rightarrow> rstring) \<Rightarrow> (rstring, bytes \<times> file_end) result \<Rightarrow> nat \<Rightarrow> nat \<Rightarrow> (function_call_error, rstring list) result" where
  "slice_read decode opened offset limit =
     (case opened of
        Inl m \<Rightarrow> Err (RespondToModel (lit ''failed to read file: '' @ m))
      | Inr (b, e) \<Rightarrow>
          and_then (slice_loop decode offset limit e b 0 []) (\<lambda>(collected, seen).
            if seen < offset then Err (RespondToModel (lit ''offset exceeds file length'')) else Ok collected))"

section \<open>A block by indentation\<close>

definition TAB_WIDTH :: nat where
  "TAB_WIDTH = 4"

definition COMMENT_PREFIXES :: "rstring list" where
  "COMMENT_PREFIXES = [lit ''#'', lit ''//'', lit ''--'']"

record line_record =
  lr_number :: nat
  lr_raw :: rstring
  lr_display :: rstring
  lr_indent :: nat

definition lr_is_blank :: "line_record \<Rightarrow> bool" where
  "lr_is_blank r \<longleftrightarrow> trim_start (lr_raw r) = []"

definition lr_is_comment :: "line_record \<Rightarrow> bool" where
  "lr_is_comment r \<longleftrightarrow> list_ex (\<lambda>p. starts_with p (trim (lr_raw r))) COMMENT_PREFIXES"

definition measure_indent :: "rstring \<Rightarrow> nat" where
  "measure_indent line = sum_list (map (\<lambda>c. if c = 9 then TAB_WIDTH else 1) (takeWhile (\<lambda>c. c = 32 \<or> c = 9) line))"

definition line_record_of :: "(bytes \<Rightarrow> rstring) \<Rightarrow> nat \<Rightarrow> bytes \<Rightarrow> line_record" where
  "line_record_of decode n buffer =
     \<lparr>lr_number = n, lr_raw = decode (chomp buffer), lr_display = format_line decode (chomp buffer),
      lr_indent = measure_indent (decode (chomp buffer))\<rparr>"

function collect_file_lines ::
    "(bytes \<Rightarrow> rstring) \<Rightarrow> file_end \<Rightarrow> bytes \<Rightarrow> nat \<Rightarrow> line_record list \<Rightarrow> (function_call_error, line_record list) result" where
  "collect_file_lines decode e b number acc =
     (if b = [] \<and> e = EndOfFile then Ok acc
      else case next_buffer e b of
        Inl err \<Rightarrow> Err err
      | Inr (buffer, remaining) \<Rightarrow>
          collect_file_lines decode e remaining (number + 1) (acc @ [line_record_of decode (number + 1) buffer]))"
  by pat_completeness auto

termination collect_file_lines
  by (relation "measure (\<lambda>(_, _, b, _, _). length b)") (auto intro: next_buffer_shorter)

fun compute_effective_indents :: "nat \<Rightarrow> line_record list \<Rightarrow> nat list" where
  "compute_effective_indents previous_indent [] = []"
| "compute_effective_indents previous_indent (r # rs) =
     (let ind = (if lr_is_blank r then previous_indent else lr_indent r) in ind # compute_effective_indents ind rs)"

definition trim_empty_lines :: "line_record list \<Rightarrow> line_record list" where
  "trim_empty_lines out =
     (let blank = (\<lambda>r. trim (lr_raw r) = []) in rev (dropWhile blank (rev (dropWhile blank out))))"

record indentation_args =
  ia_anchor_line :: "nat option"
  ia_max_levels :: nat
  ia_include_siblings :: bool
  ia_include_header :: bool
  ia_max_lines :: "nat option"

definition default_indentation :: indentation_args where
  "default_indentation =
     \<lparr>ia_anchor_line = None, ia_max_levels = 0, ia_include_siblings = False, ia_include_header = True, ia_max_lines = None\<rparr>"

text \<open>The state of the loop: the lines taken, the cursors up (\<open>-1\<close> once it has stopped) and down, and how often each has met a line
  at the smallest indentation.\<close>

record cursor_state =
  cs_out :: "nat list"
  cs_up :: int
  cs_down :: nat
  cs_up_min :: nat
  cs_down_min :: nat

record block_rules =
  br_records :: "line_record list"
  br_indents :: "nat list"
  br_min_indent :: nat
  br_siblings :: bool
  br_header :: bool
  br_limit :: nat

text \<open>One step up and one step down; the flag says whether a line was taken.\<close>

definition step_up :: "block_rules \<Rightarrow> cursor_state \<Rightarrow> bool \<times> cursor_state" where
  "step_up br st =
     (if cs_up st < 0 then (False, st)
      else
        (let iu = nat (cs_up st) in
         if br_indents br ! iu \<ge> br_min_indent br then
           (if br_indents br ! iu = br_min_indent br \<and> \<not> br_siblings br then
              (if (br_header br \<and> lr_is_comment (br_records br ! iu)) \<or> cs_up_min st = 0
               then (True, st\<lparr>cs_out := iu # cs_out st, cs_up := cs_up st - 1, cs_up_min := cs_up_min st + 1\<rparr>)
               else (False, st\<lparr>cs_up := -1\<rparr>))
            else (True, st\<lparr>cs_out := iu # cs_out st, cs_up := cs_up st - 1\<rparr>))
         else (False, st\<lparr>cs_up := -1\<rparr>)))"

definition step_down :: "block_rules \<Rightarrow> cursor_state \<Rightarrow> bool \<times> cursor_state" where
  "step_down br st =
     (let n = length (br_records br); ju = cs_down st in
      if ju < n then
        (if br_indents br ! ju \<ge> br_min_indent br then
           (if br_indents br ! ju = br_min_indent br \<and> \<not> br_siblings br then
              (if cs_down_min st > 0
               then (False, st\<lparr>cs_down := n, cs_down_min := cs_down_min st + 1\<rparr>)
               else (True, st\<lparr>cs_out := cs_out st @ [ju], cs_down := ju + 1, cs_down_min := cs_down_min st + 1\<rparr>))
            else (True, st\<lparr>cs_out := cs_out st @ [ju], cs_down := ju + 1\<rparr>))
         else (False, st\<lparr>cs_down := n\<rparr>))
      else (False, st))"

function block_loop :: "block_rules \<Rightarrow> cursor_state \<Rightarrow> cursor_state" where
  "block_loop br st =
     (if length (cs_out st) < br_limit br then
        (case step_up br st of (up, st1) \<Rightarrow>
           if cs_up st \<ge> 0 \<and> br_indents br ! nat (cs_up st) \<ge> br_min_indent br \<and> length (cs_out st1) \<ge> br_limit br then st1
           else (case step_down br st1 of (down, st2) \<Rightarrow> if \<not> up \<and> \<not> down then st2 else block_loop br st2))
      else st)"
  by pat_completeness auto

lemma step_up_cursors:
  "step_up br st = (up, st1) \<Longrightarrow> cs_down st1 = cs_down st \<and> cs_up st1 \<le> cs_up st \<or> cs_up st1 = -1 \<and> cs_down st1 = cs_down st"
  by (auto simp: step_up_def Let_def split: if_splits)

lemma step_up_moves: "step_up br st = (True, st1) \<Longrightarrow> 0 \<le> cs_up st \<and> cs_up st1 = cs_up st - 1 \<and> cs_down st1 = cs_down st"
  by (auto simp: step_up_def Let_def split: if_splits)

lemma step_down_moves:
  "step_down br st = (True, st1) \<Longrightarrow> cs_down st < length (br_records br) \<and> cs_down st1 = cs_down st + 1 \<and> cs_up st1 = cs_up st"
  by (auto simp: step_down_def Let_def split: if_splits)

lemma step_down_cursors: "step_down br st = (down, st1) \<Longrightarrow> cs_down st \<le> cs_down st1 \<and> cs_up st1 = cs_up st"
  by (auto simp: step_down_def Let_def split: if_splits)

lemma step_up_stays: "step_up br st = (up, st1) \<Longrightarrow> nat (cs_up st1 + 1) \<le> nat (cs_up st + 1) \<and> cs_down st1 = cs_down st"
  by (auto simp: step_up_def Let_def split: if_splits)

lemma block_step_smaller:
  assumes u: "step_up br st = (up, st1)" and d: "step_down br st1 = (down, st2)" and m: "up \<or> down"
  shows "nat (cs_up st2 + 1) + (length (br_records br) - cs_down st2) < nat (cs_up st + 1) + (length (br_records br) - cs_down st)"
proof (cases up)
  case True
  with u step_up_moves have "0 \<le> cs_up st \<and> cs_up st1 = cs_up st - 1 \<and> cs_down st1 = cs_down st" by simp
  with step_down_cursors [OF d] show ?thesis by linarith
next
  case False
  with m d step_down_moves
  have "cs_down st1 < length (br_records br) \<and> cs_down st2 = cs_down st1 + 1 \<and> cs_up st2 = cs_up st1" by simp
  with step_up_stays [OF u] show ?thesis by linarith
qed

termination block_loop
  by (relation "measure (\<lambda>(br, st). nat (cs_up st + 1) + (length (br_records br) - cs_down st))", simp,
      simp only: in_measure case_prod_conv, metis block_step_smaller)

declare slice_loop.simps [simp del] collect_file_lines.simps [simp del] block_loop.simps [simp del]

text \<open>The product is that of a release build, which wraps; \<open>None\<close> is the panic of \<^verbatim>\<open>VecDeque::with_capacity\<close> when the room for that many
  references exceeds what can be allocated.\<close>

definition min_indent_of :: "nat \<Rightarrow> nat \<Rightarrow> nat" where
  "min_indent_of anchor_indent max_levels =
     (if max_levels = 0 then 0 else anchor_indent - (max_levels * TAB_WIDTH) mod 2 ^ 64)"

definition capacity_ok :: "nat \<Rightarrow> bool" where
  "capacity_ok n \<longleftrightarrow> 8 * n \<le> 2 ^ 63 - 1"

definition show_record :: "line_record \<Rightarrow> rstring" where
  "show_record r = numbered (lr_number r) (lr_display r)"

definition block_of :: "line_record list \<Rightarrow> nat \<Rightarrow> nat \<Rightarrow> nat \<Rightarrow> indentation_args \<Rightarrow> (function_call_error, rstring list) result option" where
  "block_of collected anchor_index limit guard_limit options =
     (let indents = compute_effective_indents 0 collected;
          final_limit = min (min limit guard_limit) (length collected);
          br = \<lparr>br_records = collected, br_indents = indents,
                br_min_indent = min_indent_of (indents ! anchor_index) (ia_max_levels options),
                br_siblings = ia_include_siblings options, br_header = ia_include_header options, br_limit = final_limit\<rparr>
      in if final_limit = 1 then Some (Ok [show_record (collected ! anchor_index)])
         else if \<not> capacity_ok limit then None
         else
           (let st = block_loop br \<lparr>cs_out = [anchor_index], cs_up = int anchor_index - 1, cs_down = anchor_index + 1,
                                    cs_up_min = 0, cs_down_min = 0\<rparr>
            in Some (Ok (map show_record (trim_empty_lines (map (\<lambda>i. collected ! i) (cs_out st)))))))"

definition read_block ::
    "(bytes \<Rightarrow> rstring) \<Rightarrow> (rstring, bytes \<times> file_end) result \<Rightarrow> nat \<Rightarrow> nat \<Rightarrow> indentation_args \<Rightarrow>
     (function_call_error, rstring list) result option" where
  "read_block decode opened offset limit options =
     (let anchor_line = (case ia_anchor_line options of Some a \<Rightarrow> a | None \<Rightarrow> offset);
          guard_limit = (case ia_max_lines options of Some m \<Rightarrow> m | None \<Rightarrow> limit) in
      if anchor_line = 0 then Some (Err (RespondToModel (lit ''anchor_line must be a 1-indexed line number'')))
      else if guard_limit = 0 then Some (Err (RespondToModel (lit ''max_lines must be greater than zero'')))
      else case opened of
        Inl m \<Rightarrow> Some (Err (RespondToModel (lit ''failed to read file: '' @ m)))
      | Inr (b, e) \<Rightarrow>
          (case collect_file_lines decode e b 0 [] of
             Inl err \<Rightarrow> Some (Err err)
           | Inr collected \<Rightarrow>
               if collected = [] \<or> anchor_line > length collected
               then Some (Err (RespondToModel (lit ''anchor_line exceeds file length'')))
               else block_of collected (anchor_line - 1) limit guard_limit options))"

section \<open>The handler\<close>

datatype read_mode = ReadSlice | ReadIndentation

record read_file_args =
  rf_file_path :: rstring
  rf_offset :: nat
  rf_limit :: nat
  rf_mode :: read_mode
  rf_indentation :: "indentation_args option"

definition is_absolute_path :: "rstring \<Rightarrow> bool" where
  "is_absolute_path p \<longleftrightarrow> starts_with (lit ''/'') p"

definition read_file_handle ::
    "outside_rules \<Rightarrow> external_content_mode \<Rightarrow> (bytes \<Rightarrow> rstring) \<Rightarrow> (rstring \<Rightarrow> (rstring, bytes \<times> file_end) result) \<Rightarrow>
     read_file_args \<Rightarrow> (function_call_error, rstring) result option" where
  "read_file_handle rules mode decode disk args =
     (if rf_offset args = 0 then Some (Err (RespondToModel (lit ''offset must be a 1-indexed line number'')))
      else if rf_limit args = 0 then Some (Err (RespondToModel (lit ''limit must be greater than zero'')))
      else if \<not> is_absolute_path (rf_file_path args)
      then Some (Err (RespondToModel (lit ''file_path must be an absolute path'')))
      else map_option (\<lambda>r. and_then r (\<lambda>collected.
               Ok (wrap_external_content rules mode (rf_file_path args) (join_str [nl_char] collected))))
             (case rf_mode args of
                ReadSlice \<Rightarrow> Some (slice_read decode (disk (rf_file_path args)) (rf_offset args) (rf_limit args))
              | ReadIndentation \<Rightarrow>
                  read_block decode (disk (rf_file_path args)) (rf_offset args) (rf_limit args)
                    (case rf_indentation args of Some i \<Rightarrow> i | None \<Rightarrow> default_indentation)))"

section \<open>What a slice shows\<close>

lemma split_on_none: "c \<notin> set s \<Longrightarrow> split_on c s = [s]"
  by (rule split_by_none) auto

lemma split_on_first: "c \<notin> set l \<Longrightarrow> split_on c (l @ c # r) = l # split_on c r"
  by (induction l) auto

lemma str_lines_first: "nl_char \<notin> set l \<Longrightarrow> str_lines (l @ nl_char # r) = strip_cr l # str_lines r"
  by (simp add: str_lines_def split_on_first Let_def)

lemma str_lines_only: "nl_char \<notin> set l \<Longrightarrow> str_lines l = (if l = [] then [] else [l])"
  by (simp add: str_lines_def split_on_none Let_def)

lemma chomp_snoc: "chomp (l @ [nl_char]) = strip_cr l"
  by (cases l rule: rev_cases) (simp_all add: chomp_def strip_cr_def strip_suffix_def Let_def butlast_append)

lemma chomp_no_nl: "nl_char \<notin> set l \<Longrightarrow> chomp l = l"
  by (auto simp: chomp_def dest: last_in_set)

lemma read_until_line:
  assumes "b \<noteq> []" and "read_until b = (buffer, remaining)"
  shows "str_lines b = chomp buffer # str_lines remaining"
proof -
  let ?l = "takeWhile (\<lambda>c. c \<noteq> nl_char) b"
  have no: "nl_char \<notin> set ?l" by (auto dest: set_takeWhileD)
  show ?thesis
  proof (cases "dropWhile (\<lambda>c. c \<noteq> nl_char) b")
    case Nil
    then have "b = ?l" using takeWhile_dropWhile_id [of "\<lambda>c. c \<noteq> nl_char" b] by (metis append_Nil2)
    moreover have "buffer = ?l" "remaining = []"
      using assms(2) Nil by (auto simp: read_until_def Let_def dropWhile_eq_drop split: list.splits)
    ultimately show ?thesis using no assms(1) str_lines_only [of b] str_lines_only [of "[]"] chomp_no_nl [of b] by simp
  next
    case (Cons c r)
    then have c: "c = nl_char" using hd_dropWhile [of "\<lambda>c. c \<noteq> nl_char" b] by simp
    have "b = ?l @ nl_char # r" using takeWhile_dropWhile_id [of "\<lambda>c. c \<noteq> nl_char" b] Cons c by simp
    moreover have "buffer = ?l @ [nl_char]" "remaining = r"
      using assms(2) Cons c by (auto simp: read_until_def Let_def dropWhile_eq_drop split: list.splits)
    ultimately show ?thesis using str_lines_first [OF no, of r] by (simp add: chomp_snoc)
  qed
qed

text \<open>The numbered lines of a file from line \<open>n\<close> on.\<close>

definition shown_lines :: "(bytes \<Rightarrow> rstring) \<Rightarrow> nat \<Rightarrow> bytes \<Rightarrow> rstring list" where
  "shown_lines decode n b = map (\<lambda>(k, l). numbered k (format_line decode l)) (enumerate n (str_lines b))"

lemma shown_lines_step:
  "b \<noteq> [] \<Longrightarrow> read_until b = (buffer, remaining) \<Longrightarrow>
   shown_lines decode n b = numbered n (format_line decode (chomp buffer)) # shown_lines decode (Suc n) remaining"
  by (simp add: shown_lines_def read_until_line)

lemma str_lines_Nil [simp]: "str_lines [] = []"
  by (simp add: str_lines_def)

lemma slice_loop_spec:
  "e = EndOfFile \<Longrightarrow> length acc < limit \<Longrightarrow>
   \<exists>s. slice_loop decode offset limit e b seen acc =
       Ok (acc @ take (limit - length acc) (drop (offset - Suc seen) (shown_lines decode (Suc seen) b)), s) \<and>
       (s < offset \<longleftrightarrow> seen + length (str_lines b) < offset)"
proof (induction decode offset limit e b seen acc rule: slice_loop.induct)
  case (1 decode offset limit e b seen acc)
  show ?case
  proof (cases "b = []")
    case True
    with 1 show ?thesis by (subst slice_loop.simps) (simp add: shown_lines_def)
  next
    case False
    obtain buffer remaining where r: "read_until b = (buffer, remaining)" by force
    have nb: "next_buffer e b = Inr (buffer, remaining)" using r "1.prems"(1) by (simp add: next_buffer_def)
    have ne: "\<not> (b = [] \<and> e = EndOfFile)" using False by simp
    note ls = read_until_line [OF False r] and sl = shown_lines_step [OF False r]
    let ?new = "acc @ [numbered (seen + 1) (format_line decode (chomp buffer))]"
    note body = slice_loop.simps [of decode offset limit e b seen acc]
    consider "seen + 1 < offset" | "\<not> seen + 1 < offset" "Suc (length acc) = limit"
      | "\<not> seen + 1 < offset" "Suc (length acc) < limit" using "1.prems"(2) by linarith
    then show ?thesis
    proof cases
      case 1
      then have "offset - Suc seen = Suc (offset - Suc (Suc seen))" by simp
      with "1.IH"(1) [OF ne nb refl refl 1 "1.prems"] 1 False ne nb show ?thesis
        by (subst body) (simp add: ls sl)
    next
      case 2
      with False ne nb "1.prems" show ?thesis by (subst body) (auto simp: ls sl)
    next
      case 3
      then have ne2: "length acc \<noteq> limit" "length ?new \<noteq> limit" "length ?new < limit" by auto
      from "1.IH"(2) [OF ne nb refl refl 3(1) ne2(1) refl ne2(2) "1.prems"(1) ne2(3)] 3 False ne nb ne2 "1.prems"
      show ?thesis by (subst body) (auto simp: ls sl take_Cons' numeral_eq_Suc)
    qed
  qed
qed

lemma take_chars_spec:
  "i \<le> maxb \<Longrightarrow> prefix (take_chars maxb i s) s \<and> i + byte_len (take_chars maxb i s) \<le> maxb \<and>
   (\<forall>c t. s = take_chars maxb i s @ c # t \<longrightarrow> maxb < i + byte_len (take_chars maxb i s) + len_utf8 c)"
proof (induction s arbitrary: i)
  case (Cons d s)
  show ?case
  proof (cases "i + len_utf8 d > maxb")
    case False
    with Cons.IH [of "i + len_utf8 d"] show ?thesis by (auto simp: add.assoc)
  qed (use Cons.prems in auto)
qed simp

lemma format_line_spec:
  "prefix (format_line decode l) (decode l) \<and> byte_len (format_line decode l) \<le> MAX_LINE_LENGTH \<and>
   (\<forall>c t. decode l = format_line decode l @ c # t \<longrightarrow> MAX_LINE_LENGTH < byte_len (format_line decode l) + len_utf8 c)"
  using take_chars_spec [of 0 MAX_LINE_LENGTH "decode l"]
  by (auto simp: format_line_def take_bytes_at_char_boundary_def Let_def)

text \<open>
  C25. (equivalence) Reading a slice of a file, a loop over buffered reads, gives what splitting the whole file into lines, numbering
  them and taking \<open>limit\<close> of them from line \<open>offset\<close> gives; it is refused exactly when the file has fewer lines than \<open>offset\<close>.  What is
  shown of a line is its longest prefix of at most 500 bytes that does not cut a character.
\<close>

theorem slice_is_take_of_lines:
  assumes "0 < limit"
  shows "slice_read decode (Ok (b, EndOfFile)) offset limit =
      (if length (str_lines b) < offset then Err (RespondToModel (lit ''offset exceeds file length''))
       else Ok (take limit (drop (offset - 1) (shown_lines decode 1 b)))) \<and>
    (\<forall>l. prefix (format_line decode l) (decode l) \<and> byte_len (format_line decode l) \<le> MAX_LINE_LENGTH \<and>
       (\<forall>c t. decode l = format_line decode l @ c # t \<longrightarrow> MAX_LINE_LENGTH < byte_len (format_line decode l) + len_utf8 c))"
proof (intro conjI [OF _ allI [OF format_line_spec]])
  from slice_loop_spec [of EndOfFile "[]" limit decode offset b 0] assms
  obtain s where "slice_loop decode offset limit EndOfFile b 0 [] = Ok (take limit (drop (offset - 1) (shown_lines decode 1 b)), s)"
    and "s < offset \<longleftrightarrow> length (str_lines b) < offset" by auto
  then show "slice_read decode (Ok (b, EndOfFile)) offset limit =
      (if length (str_lines b) < offset then Err (RespondToModel (lit ''offset exceeds file length''))
       else Ok (take limit (drop (offset - 1) (shown_lines decode 1 b))))"
    by (simp add: slice_read_def)
qed

theorem slice_is_take_of_lines_witness:
  "slice_read id (Ok (lit ''a'' @ [13, 10] @ lit ''b'' @ [10] @ lit ''c'', EndOfFile)) 2 1 = Ok [lit ''L2: b'']"
proof -
  have "str_lines (lit ''a'' @ [13, 10] @ lit ''b'' @ [10] @ lit ''c'') = [lit ''a'', lit ''b'', lit ''c'']" by code_simp
  moreover have "numbered 2 (format_line id (lit ''b'')) = lit ''L2: b''" by code_simp
  ultimately show ?thesis
    using slice_is_take_of_lines [of 1 id "lit ''a'' @ [13, 10] @ lit ''b'' @ [10] @ lit ''c''" 2]
    by (simp add: shown_lines_def numeral_2_eq_2 del: lit_Cons)
qed

section \<open>The envelope\<close>

lemma set_replace_char: "set (replace_char c t s) = (set s - {c}) \<union> (if c \<in> set s then set t else {})"
  by (auto simp: replace_char_def split: if_splits)

lemma set_join_str: "set (join_str sep ws) \<subseteq> set sep \<union> \<Union> (set ` set ws)"
  by (induction sep ws rule: join_str.induct) auto

lemma escaped_text_plain: "60 \<notin> set (escape_xml_text s) \<and> 62 \<notin> set (escape_xml_text s)"
  by (auto simp: escape_xml_text_def set_replace_char split: if_splits)

lemma escaped_attr_plain: "34 \<notin> set (escape_xml_attr s) \<and> 60 \<notin> set (escape_xml_attr s) \<and> 62 \<notin> set (escape_xml_attr s)"
  by (auto simp: escape_xml_attr_def set_replace_char split: if_splits)

lemma strict_line_plain: "60 \<notin> set (neutralize_line ModeStrict susp l) \<and> 62 \<notin> set (neutralize_line ModeStrict susp l)"
  by (cases susp) (auto simp: escaped_text_plain)

text \<open>
  In strict mode, text from outside that does not already carry both tags is put between one opening and one closing tag,
  and nothing in it can end the envelope early: neither the source in the attribute nor the body has a quote or bracket that is
  read as markup, and the body has one line for each line of the text, where every line that looks like an instruction is
  replaced by a fixed notice.
\<close>

lemma strict_envelope_is_closed:
  assumes "\<not> (sublist open_tag content \<and> sublist close_tag content)"
  shows "\<exists>attr body. wrap_external_content rules ModeStrict source content =
       open_tag @ lit ''source='' @ [34] @ attr @ [34] @ lit ''>'' @ [nl_char] @ body @ [nl_char] @ close_tag \<and>
     set attr \<inter> {34, 60, 62} = {} \<and> set body \<inter> {60, 62} = {} \<and>
     body = join_str [nl_char] (map (\<lambda>l. if suspicious rules l then lit ''[neutralized external instruction-like line]''
                                        else escape_xml_text l) (str_lines content))"
proof (intro exI conjI)
  let ?body = "neutralize_instruction_like rules content ModeStrict"
  show "wrap_external_content rules ModeStrict source content =
      open_tag @ lit ''source='' @ [34] @ escape_xml_attr source @ [34] @ lit ''>'' @ [nl_char] @ ?body @ [nl_char] @ close_tag"
    using assms by (auto simp: wrap_external_content_def simp del: lit_Cons)
  show "set (escape_xml_attr source) \<inter> {34, 60, 62} = {}" using escaped_attr_plain [of source] by auto
  show "set ?body \<inter> {60, 62} = {}"
    using set_join_str [of "[nl_char]" "map (\<lambda>l. neutralize_line ModeStrict (suspicious rules l) l) (str_lines content)"]
      strict_line_plain by (fastforce simp: neutralize_instruction_like_def)
  show "?body = join_str [nl_char] (map (\<lambda>l. if suspicious rules l then lit ''[neutralized external instruction-like line]''
      else escape_xml_text l) (str_lines content))"
    unfolding neutralize_instruction_like_def
    by (intro arg_cong [where f = "join_str [nl_char]"] map_cong refl) simp
qed

lemma close_tag_alone: "\<not> sublist open_tag close_tag"
  by code_simp

definition sample_rules :: outside_rules where
  "sample_rules = \<lparr>or_instruction_like = (\<lambda>l. False), or_role_prefix = starts_with (lit ''system:'')\<rparr>"

lemma bypassed_envelope:
  "sublist open_tag content \<and> sublist close_tag content \<Longrightarrow> wrap_external_content rules mode source content = content"
  by (simp add: wrap_external_content_def)

lemma moderate_envelope_ends_early:
  "suspicious rules close_tag = False \<Longrightarrow>
   wrap_external_content rules ModeModerate source close_tag =
     open_tag @ lit ''source='' @ [34] @ escape_xml_attr source @ [34] @ lit ''>'' @ [nl_char] @ close_tag @ [nl_char] @ close_tag"
proof -
  have "str_lines close_tag = [close_tag]" by code_simp
  moreover note close_tag_alone
  moreover assume "suspicious rules close_tag = False"
  ultimately show ?thesis by (simp add: wrap_external_content_def neutralize_instruction_like_def del: lit_Cons)
qed

text \<open>
  The numbering of the lines comes before the envelope: a rule that is anchored at the start of a line and asks for a letter other
  than \<open>L\<close> first, as the one for roles does, never fires on a file that was read.
\<close>

lemma numbered_line_has_no_role:
  assumes "\<forall>l. or_role_prefix rules l \<longrightarrow> \<not> starts_with (lit ''L'') l"
  shows "\<not> or_role_prefix rules (numbered n l)"
proof -
  have "starts_with (lit ''L'') (numbered n l)" by (simp add: numbered_def starts_with_def)
  with assms show ?thesis by blast
qed

section \<open>What a block shows\<close>

text \<open>The invariant of the loop around \<open>anchor\<close>: the lines taken are those from \<open>lo\<close> to \<open>hi\<close>; a cursor either stands at the next
  line or has stopped.\<close>

definition block_inv :: "block_rules \<Rightarrow> nat \<Rightarrow> nat \<Rightarrow> nat \<Rightarrow> cursor_state \<Rightarrow> bool" where
  "block_inv br anchor lo hi st \<longleftrightarrow>
     cs_out st = [lo..<hi] \<and> lo \<le> anchor \<and> anchor < hi \<and> hi \<le> length (br_records br) \<and> hi - lo \<le> br_limit br \<and>
     (\<forall>i. lo \<le> i \<and> i < hi \<longrightarrow> br_min_indent br \<le> br_indents br ! i) \<and>
     (cs_up st = int lo - 1 \<or>
      cs_up st = -1 \<and> (br_siblings br \<longrightarrow> lo = 0 \<or> br_indents br ! (lo - 1) < br_min_indent br)) \<and>
     (cs_down st = hi \<or>
      cs_down st = length (br_records br) \<and>
      (br_siblings br \<longrightarrow> hi = length (br_records br) \<or> br_indents br ! hi < br_min_indent br))"

definition block_stopped :: "block_rules \<Rightarrow> nat \<Rightarrow> nat \<Rightarrow> bool" where
  "block_stopped br lo hi \<longleftrightarrow>
     hi - lo = br_limit br \<or>
     (br_siblings br \<longrightarrow> (lo = 0 \<or> br_indents br ! (lo - 1) < br_min_indent br) \<and>
        (hi = length (br_records br) \<or> br_indents br ! hi < br_min_indent br))"

lemma upt_front: "i < j \<Longrightarrow> [i..<j] = i # [Suc i..<j]"
  by (rule upt_conv_Cons)

lemma block_inv_up:
  assumes inv: "block_inv br anchor lo hi st" and "hi - lo < br_limit br" and s: "step_up br st = (up, st1)"
  shows "\<exists>lo'. block_inv br anchor lo' hi st1 \<and> (\<not> up \<longrightarrow> lo' = lo \<and> cs_up st1 < 0)"
proof (cases up)
  case True
  with s have "0 \<le> cs_up st" and m: "br_min_indent br \<le> br_indents br ! nat (cs_up st)"
    and o: "cs_out st1 = nat (cs_up st) # cs_out st" "cs_up st1 = cs_up st - 1" "cs_down st1 = cs_down st"
    by (auto simp: step_up_def Let_def split: if_splits)
  with inv have lo: "cs_up st = int lo - 1" "0 < lo" by (auto simp: block_inv_def)
  then have "nat (cs_up st) = lo - 1" "[lo - 1..<hi] = (lo - 1) # [lo..<hi]"
    using inv upt_front [of "lo - 1" hi] by (auto simp: block_inv_def)
  moreover have "br_min_indent br \<le> br_indents br ! i" if "lo - 1 \<le> i" "i < hi" for i
    using that m lo inv by (cases "i = lo - 1") (auto simp: block_inv_def nat_diff_distrib)
  ultimately have "block_inv br anchor (lo - 1) hi st1"
    using inv o lo assms(2) by (auto simp: block_inv_def)
  with True show ?thesis by blast
next
  case False
  with s inv have "block_inv br anchor lo hi st1 \<and> cs_up st1 < 0"
    by (auto simp: step_up_def Let_def block_inv_def nat_diff_distrib split: if_splits)
  then show ?thesis by blast
qed

lemma block_inv_down:
  assumes inv: "block_inv br anchor lo hi st" and "hi - lo < br_limit br" and s: "step_down br st = (down, st1)"
  shows "\<exists>hi'. block_inv br anchor lo hi' st1 \<and> cs_up st1 = cs_up st \<and>
           (\<not> down \<longrightarrow> hi' = hi \<and> length (br_records br) \<le> cs_down st1)"
proof (cases down)
  case True
  with s have "cs_down st < length (br_records br)" and m: "br_min_indent br \<le> br_indents br ! cs_down st"
    and o: "cs_out st1 = cs_out st @ [cs_down st]" "cs_up st1 = cs_up st" "cs_down st1 = cs_down st + 1"
    by (auto simp: step_down_def Let_def split: if_splits)
  with inv have hi: "cs_down st = hi" "hi < length (br_records br)" by (auto simp: block_inv_def)
  have "br_min_indent br \<le> br_indents br ! i" if "lo \<le> i" "i < Suc hi" for i
    using that m hi inv by (cases "i = hi") (auto simp: block_inv_def)
  then have "block_inv br anchor lo (Suc hi) st1"
    using inv o hi assms(2) by (auto simp: block_inv_def)
  with True o show ?thesis by blast
next
  case False
  with s inv have "block_inv br anchor lo hi st1 \<and> cs_up st1 = cs_up st \<and> length (br_records br) \<le> cs_down st1"
    by (auto simp: step_down_def Let_def block_inv_def split: if_splits)
  then show ?thesis by blast
qed

lemma block_inv_end:
  "block_inv br anchor lo hi st \<Longrightarrow> cs_up st < 0 \<Longrightarrow> length (br_records br) \<le> cs_down st \<Longrightarrow> block_stopped br lo hi"
  by (auto simp: block_inv_def block_stopped_def)

lemma block_inv_limit: "block_inv br anchor lo hi st \<Longrightarrow> br_limit br \<le> length (cs_out st) \<Longrightarrow> block_stopped br lo hi"
  by (auto simp: block_inv_def block_stopped_def)

lemma block_loop_spec:
  "block_inv br anchor lo hi st \<Longrightarrow>
   \<exists>lo' hi'. block_inv br anchor lo' hi' (block_loop br st) \<and> block_stopped br lo' hi'"
proof (induction br st arbitrary: lo hi rule: block_loop.induct)
  case (1 br st)
  show ?case
  proof (cases "length (cs_out st) < br_limit br")
    case False
    then have "block_loop br st = st" by (subst block_loop.simps) simp
    with False "1.prems" block_inv_limit [OF "1.prems"] show ?thesis by auto
  next
    case True
    obtain up st1 where u: "step_up br st = (up, st1)" by force
    obtain down st2 where d: "step_down br st1 = (down, st2)" by force
    have "hi - lo < br_limit br" using True "1.prems" by (simp add: block_inv_def)
    with block_inv_up [OF "1.prems" _ u] obtain lo1
      where i1: "block_inv br anchor lo1 hi st1" and n1: "\<not> up \<longrightarrow> lo1 = lo \<and> cs_up st1 < 0" by blast
    let ?full = "cs_up st \<ge> 0 \<and> br_indents br ! nat (cs_up st) \<ge> br_min_indent br \<and> length (cs_out st1) \<ge> br_limit br"
    show ?thesis
    proof (cases ?full)
      case f: True
      have "block_loop br st = st1" using True u f by (subst block_loop.simps) simp
      with i1 f block_inv_limit [OF i1] show ?thesis by auto
    next
      case f: False
      have lt: "hi - lo1 < br_limit br"
        using f True n1 i1 "1.prems" u by (auto simp: block_inv_def step_up_def Let_def split: if_splits)
      with block_inv_down [OF i1 _ d] obtain hi2
        where i2: "block_inv br anchor lo1 hi2 st2" and "cs_up st2 = cs_up st1"
          and "\<not> down \<longrightarrow> hi2 = hi \<and> length (br_records br) \<le> cs_down st2" by blast
      then have e: "\<not> up \<and> \<not> down \<Longrightarrow> block_stopped br lo1 hi2" using block_inv_end n1 by metis
      show ?thesis
      proof (cases "\<not> up \<and> \<not> down")
        case True
        then have "block_loop br st = st2" using \<open>length (cs_out st) < br_limit br\<close> u d f by (subst block_loop.simps) auto
        with i2 e True show ?thesis by auto
      next
        case False
        then have "block_loop br st = block_loop br st2"
          using True u d f by (subst block_loop.simps) auto
        with "1.IH" [OF True u [symmetric] f d [symmetric] False i2] show ?thesis by simp
      qed
    qed
  qed
qed

lemma min_indent_le: "min_indent_of a m \<le> a"
  by (simp add: min_indent_of_def)

lemma block_of_spec:
  fixes options :: indentation_args and lines :: "line_record list"
  defines "indents \<equiv> compute_effective_indents 0 lines"
  assumes a: "anchor < length lines" and "0 < limit" "0 < guard" and c: "capacity_ok limit"
    and f: "final = min (min limit guard) (length lines)"
    and m: "least = min_indent_of (indents ! anchor) (ia_max_levels options)"
  shows "\<exists>lo hi. block_of lines anchor limit guard options =
       Some (Ok (map show_record (if final = 1 then [lines ! anchor] else trim_empty_lines (map ((!) lines) [lo..<hi])))) \<and>
     lo \<le> anchor \<and> anchor < hi \<and> hi \<le> length lines \<and> hi - lo \<le> final \<and>
     (\<forall>i. lo \<le> i \<and> i < hi \<longrightarrow> least \<le> indents ! i) \<and>
     (ia_include_siblings options \<longrightarrow> hi - lo = final \<or>
        (lo = 0 \<or> indents ! (lo - 1) < least) \<and> (hi = length lines \<or> indents ! hi < least))"
proof -
  have pos: "0 < final" using assms by auto
  have le: "least \<le> indents ! anchor" by (simp add: m min_indent_le)
  let ?br = "\<lparr>br_records = lines, br_indents = indents, br_min_indent = least, br_siblings = ia_include_siblings options,
     br_header = ia_include_header options, br_limit = final\<rparr>"
  let ?st = "\<lparr>cs_out = [anchor], cs_up = int anchor - 1, cs_down = anchor + 1, cs_up_min = 0, cs_down_min = 0\<rparr>"
  have "block_inv ?br anchor anchor (Suc anchor) ?st"
    using a pos le by (auto simp: block_inv_def less_Suc_eq_le dest: le_antisym)
  from block_loop_spec [OF this] obtain lo hi
    where i: "block_inv ?br anchor lo hi (block_loop ?br ?st)" and s: "block_stopped ?br lo hi" by blast
  have eq: "block_of lines anchor limit guard options =
      (if final = 1 then Some (Ok [show_record (lines ! anchor)])
       else if \<not> capacity_ok limit then None
       else Some (Ok (map show_record (trim_empty_lines (map ((!) lines) (cs_out (block_loop ?br ?st)))))))"
    unfolding block_of_def Let_def f m indents_def by (rule refl)
  show ?thesis
  proof (cases "final = 1")
    case True
    with eq a le show ?thesis by (intro exI [of _ anchor] exI [of _ "Suc anchor"]) (auto simp: le_less_Suc_eq)
  next
    case False
    with eq c i s show ?thesis
      by (intro exI [of _ lo] exI [of _ hi]) (simp add: block_inv_def block_stopped_def)
  qed
qed

lemma block_of_panics:
  "\<not> capacity_ok limit \<Longrightarrow> min (min limit guard) (length lines) \<noteq> 1 \<Longrightarrow> block_of lines anchor limit guard options = None"
  by (simp only: block_of_def Let_def if_False if_True not_False_eq_True simp_thms)

text \<open>
  C11. (bounds) Reading by indentation returns (when room for \<open>limit\<close> references can be allocated) a run of neighbouring lines of the file,
  less the blank lines at its ends: the run has the anchor line in it, is no longer than the limit, the cap and the file, and holds no line
  that is indented less than the allowed number of levels above the anchor.  With siblings included it stops only at the limit, at an end
  of the file or before such a line.  An anchor outside the file is refused.
\<close>

theorem block_is_a_bounded_run:
  fixes options :: indentation_args
  assumes "collect_file_lines decode e b 0 [] = Ok lines" and "0 < limit" and "ia_max_lines options \<noteq> Some 0" and "capacity_ok limit"
    and "anchor_line = (case ia_anchor_line options of Some a \<Rightarrow> a | None \<Rightarrow> offset)"
    and "final = min (min limit (case ia_max_lines options of Some m \<Rightarrow> m | None \<Rightarrow> limit)) (length lines)"
    and "indents = compute_effective_indents 0 lines"
    and "least = min_indent_of (indents ! (anchor_line - 1)) (ia_max_levels options)"
  shows "(anchor_line = 0 \<or> anchor_line > length lines \<longleftrightarrow>
        (\<exists>err. read_block decode (Ok (b, e)) offset limit options = Some (Err err))) \<and>
     (1 \<le> anchor_line \<and> anchor_line \<le> length lines \<longrightarrow>
      (\<exists>lo hi. read_block decode (Ok (b, e)) offset limit options =
          Some (Ok (map show_record
            (if final = 1 then [lines ! (anchor_line - 1)] else trim_empty_lines (map ((!) lines) [lo..<hi])))) \<and>
        lo < anchor_line \<and> anchor_line \<le> hi \<and> hi \<le> length lines \<and> hi - lo \<le> final \<and>
        (\<forall>i. lo \<le> i \<and> i < hi \<longrightarrow> least \<le> indents ! i) \<and>
        (ia_include_siblings options \<longrightarrow> hi - lo = final \<or>
           (lo = 0 \<or> indents ! (lo - 1) < least) \<and> (hi = length lines \<or> indents ! hi < least))))"
proof -
  let ?guard = "case ia_max_lines options of Some m \<Rightarrow> m | None \<Rightarrow> limit"
  have g: "0 < ?guard" using assms by (cases "ia_max_lines options") auto
  have eq: "read_block decode (Ok (b, e)) offset limit options =
      (if anchor_line = 0 then Some (Err (RespondToModel (lit ''anchor_line must be a 1-indexed line number'')))
       else if lines = [] \<or> anchor_line > length lines then Some (Err (RespondToModel (lit ''anchor_line exceeds file length'')))
       else block_of lines (anchor_line - 1) limit ?guard options)"
    using assms g by (simp add: read_block_def Let_def del: lit_Cons)
  show ?thesis
  proof (cases "1 \<le> anchor_line \<and> anchor_line \<le> length lines")
    case True
    then have e: "read_block decode (Ok (b, e)) offset limit options = block_of lines (anchor_line - 1) limit ?guard options"
      using eq by auto
    have "anchor_line - 1 < length lines" using True by linarith
    from block_of_spec [OF this assms(2) g assms(4,6) assms(8) [unfolded assms(7)]] obtain lo hi
      where r: "block_of lines (anchor_line - 1) limit ?guard options =
          Some (Ok (map show_record
            (if final = 1 then [lines ! (anchor_line - 1)] else trim_empty_lines (map ((!) lines) [lo..<hi]))))"
        and "lo \<le> anchor_line - 1" "anchor_line - 1 < hi"
        and q: "hi \<le> length lines" "hi - lo \<le> final" "\<forall>i. lo \<le> i \<and> i < hi \<longrightarrow> least \<le> indents ! i"
          "ia_include_siblings options \<longrightarrow> hi - lo = final \<or>
           (lo = 0 \<or> indents ! (lo - 1) < least) \<and> (hi = length lines \<or> indents ! hi < least)"
      unfolding assms(7) [symmetric] by blast
    then have "lo < anchor_line" "anchor_line \<le> hi" using True by linarith+
    with e r q True show ?thesis
      by (intro conjI iffI impI exI [of _ lo] exI [of _ hi]) (erule disjE exE, simp_all)
  next
    case False
    then have "anchor_line = 0 \<or> anchor_line > length lines" by linarith
    with eq False show ?thesis by auto
  qed
qed

definition sample_block :: bytes where
  "sample_block = lit ''a'' @ [10] @ lit ''  b'' @ [10] @ lit ''c''"

theorem block_is_a_bounded_run_witness:
  "collect_file_lines id EndOfFile sample_block 0 [] =
     Ok [line_record_of id 1 (lit ''a''), line_record_of id 2 (lit ''  b''), line_record_of id 3 (lit ''c'')] \<and>
   (\<exists>out. read_block id (Ok (sample_block, EndOfFile)) 2 10 default_indentation = Some (Ok out))"
proof -
  have c: "collect_file_lines id EndOfFile sample_block 0 [] =
     Ok [line_record_of id 1 (lit ''a''), line_record_of id 2 (lit ''  b''), line_record_of id 3 (lit ''c'')]"
    by code_simp
  have "0 < (10::nat)" "ia_max_lines default_indentation \<noteq> Some 0" "capacity_ok 10"
    "2 = (case ia_anchor_line default_indentation of Some a \<Rightarrow> a | None \<Rightarrow> 2)"
    by (simp_all add: capacity_ok_def default_indentation_def)
  note r = block_is_a_bounded_run [OF c this refl refl refl]
  have "1 \<le> (2::nat) \<and> 2 \<le> length [line_record_of id 1 (lit ''a''), line_record_of id 2 (lit ''  b''), line_record_of id 3 (lit ''c'')]"
    by simp
  from mp [OF conjunct2 [OF r] this] show ?thesis
    by (elim exE conjE, intro conjI [OF c] exI) assumption
qed

text \<open>A limit the model chose freely can be too large to allocate for: the tool panics.\<close>

lemma huge_limit_panics:
  assumes "\<not> capacity_ok limit" and "collect_file_lines decode e b 0 [] = Ok lines" and "1 < length lines"
    and "ia_max_lines options = None" and "ia_anchor_line options = None" and "1 \<le> offset" "offset \<le> length lines"
  shows "read_block decode (Ok (b, e)) offset limit options = None"
proof -
  have "1 < limit"
  proof (rule ccontr)
    assume "\<not> 1 < limit"
    then have "8 * limit \<le> 8" by simp
    also have "(8::nat) \<le> 2 ^ 63 - 1" by simp
    finally show False using assms(1) unfolding capacity_ok_def by contradiction
  qed
  then have "block_of lines (offset - 1) limit limit options = None"
    using assms(1,3) by (intro block_of_panics) auto
  moreover have "lines \<noteq> []" using assms(3) by auto
  ultimately show ?thesis using assms(2,4-7) \<open>1 < limit\<close> by (simp add: read_block_def Let_def)
qed

end
