(* ===== verification/Dir_Listing.thy ===== *)
theory Dir_Listing
  imports File_Tools
begin

text \<open>
  The tool with which the model lists directories, \<^verbatim>\<open>core/src/tools/handlers/list_dir.rs\<close>.

  The disk is an argument: what reading the directory at a path gives.  Names of files are bytes, and their decoding is an argument
  too.  Sorting is stable here, while the source leaves the order of entries with equal names open; the property below is stated up to
  that order.
\<close>

section \<open>Entries\<close>

datatype dir_entry_kind = Directory | RegularFile | Symlink | OtherKind

record file_type =
  ft_is_symlink :: bool
  ft_is_dir :: bool
  ft_is_file :: bool

definition dir_entry_kind_from :: "file_type \<Rightarrow> dir_entry_kind" where
  "dir_entry_kind_from t =
     (if ft_is_symlink t then Symlink else if ft_is_dir t then Directory else if ft_is_file t then RegularFile else OtherKind)"

record listed_entry =
  de_name :: rstring
  de_display_name :: rstring
  de_depth :: nat
  de_kind :: dir_entry_kind

definition MAX_ENTRY_LENGTH :: nat where
  "MAX_ENTRY_LENGTH = 500"

definition INDENTATION_SPACES :: nat where
  "INDENTATION_SPACES = 2"

definition format_entry_name :: "(bytes \<Rightarrow> rstring) \<Rightarrow> bytes list \<Rightarrow> rstring" where
  "format_entry_name decode path =
     (let normalized = map (\<lambda>c. if c = 92 then 47 else c) (decode (join_str [47] path)) in
      if byte_len normalized > MAX_ENTRY_LENGTH then take_bytes_at_char_boundary normalized MAX_ENTRY_LENGTH else normalized)"

definition format_entry_component :: "(bytes \<Rightarrow> rstring) \<Rightarrow> bytes \<Rightarrow> rstring" where
  "format_entry_component decode name =
     (let normalized = decode name in
      if byte_len normalized > MAX_ENTRY_LENGTH then take_bytes_at_char_boundary normalized MAX_ENTRY_LENGTH else normalized)"

definition format_entry_line :: "listed_entry \<Rightarrow> rstring" where
  "format_entry_line entry =
     replicate (de_depth entry * INDENTATION_SPACES) space_char @ de_display_name entry @
     (case de_kind entry of Directory \<Rightarrow> lit ''/'' | Symlink \<Rightarrow> lit ''@'' | OtherKind \<Rightarrow> lit ''?'' | RegularFile \<Rightarrow> [])"

section \<open>Collecting\<close>

text \<open>
  A directory below the one asked for is given by the names that lead to it.  Reading it yields names, each with its file type or the
  error of asking for it, and may fail at the start or, after some names, in the middle.
\<close>

type_synonym dir_item = "bytes \<times> (rstring, file_type) result"
type_synonym dir_disk = "bytes list \<Rightarrow> (rstring, dir_item list \<times> file_end) result"

definition dir_entry_of :: "(bytes \<Rightarrow> rstring) \<Rightarrow> bytes list \<Rightarrow> bytes \<Rightarrow> file_type \<Rightarrow> listed_entry" where
  "dir_entry_of decode pre file_name t =
     \<lparr>de_name = format_entry_name decode (if pre = [] then [file_name] else pre @ [file_name]),
      de_display_name = format_entry_component decode file_name, de_depth = length pre,
      de_kind = dir_entry_kind_from t\<rparr>"

definition read_failed :: "rstring \<Rightarrow> function_call_error" where
  "read_failed m = RespondToModel (lit ''failed to read directory: '' @ m)"

fun read_entries ::
    "(bytes \<Rightarrow> rstring) \<Rightarrow> bytes list \<Rightarrow> bytes list \<Rightarrow> file_end \<Rightarrow> dir_item list \<Rightarrow> (bytes list \<times> bytes list \<times> listed_entry) list \<Rightarrow>
     (function_call_error, (bytes list \<times> bytes list \<times> listed_entry) list) result" where
  "read_entries decode current_dir pre e [] acc = (case e of EndOfFile \<Rightarrow> Ok acc | ReadFails m \<Rightarrow> Err (read_failed m))"
| "read_entries decode current_dir pre e ((file_name, t) # items) acc =
     (case t of
        Inl m \<Rightarrow> Err (RespondToModel (lit ''failed to inspect entry: '' @ m))
      | Inr ty \<Rightarrow>
          read_entries decode current_dir pre e items
            (acc @ [(current_dir @ [file_name], if pre = [] then [file_name] else pre @ [file_name],
                     dir_entry_of decode pre file_name ty)]))"

definition dir_entries_at ::
    "(bytes \<Rightarrow> rstring) \<Rightarrow> dir_disk \<Rightarrow> bytes list \<Rightarrow> bytes list \<Rightarrow> (function_call_error, (bytes list \<times> bytes list \<times> listed_entry) list) result" where
  "dir_entries_at decode disk current_dir pre =
     (case disk current_dir of
        Inl m \<Rightarrow> Err (read_failed m)
      | Inr (items, e) \<Rightarrow>
          and_then (read_entries decode current_dir pre e items []) (\<lambda>dir_entries.
            Ok (sort_key (\<lambda>(_, _, en). de_name en) dir_entries)))"

definition queued :: "nat \<Rightarrow> (bytes list \<times> bytes list \<times> listed_entry) list \<Rightarrow> (bytes list \<times> bytes list \<times> nat) list" where
  "queued remaining_depth dir_entries =
     (if remaining_depth > 1
      then map (\<lambda>(p, r, en). (p, r, remaining_depth - 1)) (filter (\<lambda>(_, _, en). de_kind en = Directory) dir_entries) else [])"

function collect_dir_entries ::
    "(bytes \<Rightarrow> rstring) \<Rightarrow> dir_disk \<Rightarrow> (bytes list \<times> bytes list \<times> nat) list \<Rightarrow> listed_entry list \<Rightarrow>
     (function_call_error, listed_entry list) result" where
  "collect_dir_entries decode disk [] entries = Ok entries"
| "collect_dir_entries decode disk ((current_dir, pre, remaining_depth) # queue) entries =
     (case dir_entries_at decode disk current_dir pre of
        Inl err \<Rightarrow> Err err
      | Inr dir_entries \<Rightarrow>
          collect_dir_entries decode disk (queue @ queued remaining_depth dir_entries)
            (entries @ map (\<lambda>(_, _, en). en) dir_entries))"
  by pat_completeness auto

lemma queued_depth: "(p, r, d) \<in> set (queued n es) \<Longrightarrow> d < n"
  by (auto simp: queued_def split: if_splits)

termination collect_dir_entries
proof (relation "inv_image (mult less_than) (\<lambda>(_, _, queue, _). mset (map (\<lambda>(_, _, d). d) queue))")
  show "wf (inv_image (mult less_than) (\<lambda>(_, _, queue, _). mset (map (\<lambda>(_, _, d). d) queue)))" by (simp add: wf_mult)
next
  fix decode disk current_dir pre remaining_depth entries dir_entries
    and queue :: "(bytes list \<times> bytes list \<times> nat) list"
  let ?rest = "mset (map (\<lambda>(_, _, d). d) queue)"
  let ?new = "mset (map (\<lambda>(_, _, d). d) (queued remaining_depth dir_entries))"
  have "(?rest + ?new, ?rest + {#remaining_depth#}) \<in> mult less_than"
    using queued_depth by (intro one_step_implies_mult) fastforce+
  then show "((decode, disk, queue @ queued remaining_depth dir_entries, entries @ map (\<lambda>(_, _, en). en) dir_entries),
      (decode, disk, (current_dir, pre, remaining_depth) # queue, entries)) \<in>
      inv_image (mult less_than) (\<lambda>(_, _, queue, _). mset (map (\<lambda>(_, _, d). d) queue))"
    by simp
qed

definition list_dir_slice ::
    "(bytes \<Rightarrow> rstring) \<Rightarrow> dir_disk \<Rightarrow> nat \<Rightarrow> nat \<Rightarrow> nat \<Rightarrow> (function_call_error, rstring list) result" where
  "list_dir_slice decode disk offset limit depth =
     and_then (collect_dir_entries decode disk [([], [], depth)] []) (\<lambda>entries.
       if entries = [] then Ok []
       else
         (let entries = sort_key de_name entries; start_index = offset - 1 in
          if start_index \<ge> length entries then Err (RespondToModel (lit ''offset exceeds directory entry count''))
          else
            (let capped_limit = min limit (length entries - start_index); end_index = start_index + capped_limit;
                 formatted = map format_entry_line (take capped_limit (drop start_index entries))
             in Ok (if end_index < length entries
                    then formatted @ [lit ''More than '' @ show_nat capped_limit @ lit '' entries found''] else formatted))))"

record list_dir_args =
  ld_dir_path :: rstring
  ld_offset :: nat
  ld_limit :: nat
  ld_depth :: nat

definition default_list_dir :: "rstring \<Rightarrow> list_dir_args" where
  "default_list_dir p = \<lparr>ld_dir_path = p, ld_offset = 1, ld_limit = 25, ld_depth = 2\<rparr>"

definition list_dir_handle ::
    "(bytes \<Rightarrow> rstring) \<Rightarrow> (rstring \<Rightarrow> dir_disk) \<Rightarrow> list_dir_args \<Rightarrow> (function_call_error, rstring) result" where
  "list_dir_handle decode disk args =
     (if ld_offset args = 0 then Err (RespondToModel (lit ''offset must be a 1-indexed entry number''))
      else if ld_limit args = 0 then Err (RespondToModel (lit ''limit must be greater than zero''))
      else if ld_depth args = 0 then Err (RespondToModel (lit ''depth must be greater than zero''))
      else if \<not> is_absolute_path (ld_dir_path args) then Err (RespondToModel (lit ''dir_path must be an absolute path''))
      else and_then (list_dir_slice decode (disk (ld_dir_path args)) (ld_offset args) (ld_limit args) (ld_depth args)) (\<lambda>entries.
        Ok (join_str [nl_char] ((lit ''Absolute path: '' @ ld_dir_path args) # entries))))"

section \<open>The listing is that of the tree\<close>

text \<open>The tree below a directory, level by level from the top: what is there, and whether all of it can be read.\<close>

definition items_at :: "dir_disk \<Rightarrow> bytes list \<Rightarrow> (bytes \<times> file_type) list option" where
  "items_at disk dir =
     (case disk dir of
        Inr (items, EndOfFile) \<Rightarrow>
          if list_all (\<lambda>(_, t). case t of Inr _ \<Rightarrow> True | Inl _ \<Rightarrow> False) items
          then Some (map (\<lambda>(n, t). (n, projr t)) items) else None
      | _ \<Rightarrow> None)"

fun tree_readable :: "dir_disk \<Rightarrow> nat \<Rightarrow> bytes list \<Rightarrow> bool" where
  "tree_readable disk depth dir =
     (case items_at disk dir of
        None \<Rightarrow> False
      | Some items \<Rightarrow>
          if depth \<le> 1 then True
          else list_all (\<lambda>(n, t). dir_entry_kind_from t = Directory \<longrightarrow> tree_readable disk (depth - 1) (dir @ [n])) items)"

fun tree_listing :: "(bytes \<Rightarrow> rstring) \<Rightarrow> dir_disk \<Rightarrow> nat \<Rightarrow> bytes list \<Rightarrow> listed_entry list" where
  "tree_listing decode disk depth dir =
     (case items_at disk dir of
        None \<Rightarrow> []
      | Some items \<Rightarrow>
          concat (map (\<lambda>(n, t). dir_entry_of decode dir n t #
            (if depth > 1 \<and> dir_entry_kind_from t = Directory then tree_listing decode disk (depth - 1) (dir @ [n]) else [])) items))"

declare collect_dir_entries.simps(2) [simp del] tree_readable.simps [simp del] tree_listing.simps [simp del]

lemma read_entries_eq:
  "read_entries decode dir pre e items acc = Ok r \<longleftrightarrow>
   e = EndOfFile \<and> list_all (\<lambda>(_, t). case t of Inr _ \<Rightarrow> True | Inl _ \<Rightarrow> False) items \<and>
   r = acc @ map (\<lambda>(n, t). (dir @ [n], pre @ [n], dir_entry_of decode pre n (projr t))) items"
  by (induction decode dir pre e items acc rule: read_entries.induct) (auto split: file_end.splits sum.splits)

definition located :: "(bytes \<Rightarrow> rstring) \<Rightarrow> bytes list \<Rightarrow> bytes \<times> file_type \<Rightarrow> bytes list \<times> bytes list \<times> listed_entry" where
  "located decode dir = (\<lambda>(n, t). (dir @ [n], dir @ [n], dir_entry_of decode dir n t))"

lemma dir_entries_at_eq:
  "case items_at disk dir of
     None \<Rightarrow> \<exists>err. dir_entries_at decode disk dir dir = Inl err
   | Some items \<Rightarrow>
       dir_entries_at decode disk dir dir = Inr (sort_key (\<lambda>(_, _, en). de_name en) (map (located decode dir) items))"
proof (cases "disk dir")
  case (Inr p)
  obtain items e where p: "p = (items, e)" by force
  let ?ok = "e = EndOfFile \<and> list_all (\<lambda>(_, t). case t of Inr _ \<Rightarrow> True | Inl _ \<Rightarrow> False) items"
  show ?thesis
  proof (cases ?ok)
    case True
    then have "read_entries decode dir dir e items [] = Ok (map (located decode dir) (map (\<lambda>(n, t). (n, projr t)) items))"
      by (auto simp: read_entries_eq located_def)
    with True Inr p show ?thesis by (simp add: dir_entries_at_def items_at_def)
  next
    case False
    then obtain err where "read_entries decode dir dir e items [] = Inl err"
      using read_entries_eq [of decode dir dir e items "[]"] by (cases "read_entries decode dir dir e items []") auto
    moreover have "items_at disk dir = None" using False Inr p by (auto simp: items_at_def split: file_end.splits)
    ultimately show ?thesis using Inr p by (simp add: dir_entries_at_def)
  qed
qed (auto simp: dir_entries_at_def items_at_def)

lemma sort_key_Nil_iff [simp]: "sort_key k xs = [] \<longleftrightarrow> xs = []"
  by (metis length_0_conv length_sort)

lemma mset_map_filter_sort: "mset (map f (filter P (sort_key k xs))) = mset (map f (filter P xs))"
  by (simp add: mset_filter)

lemma queued_located:
  "mset (queued d (sort_key k (map (located decode dir) items))) =
   (if d > 1 then mset (map (\<lambda>(n, t). (dir @ [n], dir @ [n], d - 1)) (filter (\<lambda>(n, t). dir_entry_kind_from t = Directory) items)) else {#})"
proof -
  have eq: "map (\<lambda>(p, r, en). (p, r, d - 1)) (filter (\<lambda>(_, _, en). de_kind en = Directory) (map (located decode dir) items)) =
      map (\<lambda>(n, t). (dir @ [n], dir @ [n], d - 1)) (filter (\<lambda>(n, t). dir_entry_kind_from t = Directory) items)"
    by (induction items) (auto simp: located_def dir_entry_of_def)
  show ?thesis
    by (cases "1 < d") (simp_all only: queued_def if_True if_False mset_map_filter_sort eq mset.simps simp_thms)
qed

definition below :: "(bytes \<Rightarrow> rstring) \<Rightarrow> dir_disk \<Rightarrow> bytes list \<times> bytes list \<times> nat \<Rightarrow> listed_entry multiset" where
  "below decode disk = (\<lambda>(_, p, d). mset (tree_listing decode disk d p))"

lemma mset_concat_children:
  "mset (concat (map (\<lambda>(n, t). f n t # (if c \<and> P t then g n else [])) xs)) =
   mset (map (\<lambda>(n, t). f n t) xs) + (if c then \<Sum>\<^sub># (mset (map (\<lambda>(n, t). mset (g n)) (filter (\<lambda>(n, t). P t) xs))) else {#})"
  by (induction xs) auto

lemma below_split:
  assumes "items_at disk dir = Some items"
  shows "below decode disk (dir, dir, d) =
    mset (map (\<lambda>(_, _, en). en) (sort_key k (map (located decode dir) items))) +
    \<Sum>\<^sub># (image_mset (below decode disk) (mset (queued d (sort_key k (map (located decode dir) items)))))"
proof -
  have names: "mset (map (\<lambda>(_, _, en). en) (sort_key k (map (located decode dir) items))) =
      mset (map (\<lambda>(n, t). dir_entry_of decode dir n t) items)"
    using mset_map_filter_sort [of "\<lambda>(_, _, en). en" "\<lambda>_. True" k "map (located decode dir) items"]
    by (simp add: located_def comp_def case_prod_unfold)
  have kids: "image_mset (below decode disk) (mset (queued d (sort_key k (map (located decode dir) items)))) =
      (if d > 1 then mset (map (\<lambda>(n, t). mset (tree_listing decode disk (d - 1) (dir @ [n])))
         (filter (\<lambda>(n, t). dir_entry_kind_from t = Directory) items)) else {#})"
    unfolding queued_located by (simp add: below_def comp_def case_prod_unfold flip: mset_map)
  show ?thesis
    unfolding names kids using assms
    by (simp add: below_def tree_listing.simps [of decode disk d dir] mset_concat_children)
qed

lemma readable_split:
  assumes "items_at disk dir = Some items"
  shows "tree_readable disk d dir \<longleftrightarrow>
    (\<forall>q \<in> set (queued d (sort_key k (map (located decode dir) items))). tree_readable disk (snd (snd q)) (fst (snd q)))"
  using assms arg_cong [OF queued_located [of d k decode dir items], of set_mset]
  by (auto simp: tree_readable.simps [of disk d] list_all_iff split: if_splits)

lemma collect_dir_entries_spec:
  "\<forall>(c, p, d) \<in> set queue. c = p \<Longrightarrow>
   (if \<forall>(c, p, d) \<in> set queue. tree_readable disk d p
    then \<exists>es. collect_dir_entries decode disk queue acc = Ok es \<and>
           mset es = mset acc + \<Sum>\<^sub># (image_mset (below decode disk) (mset queue))
    else \<exists>err. collect_dir_entries decode disk queue acc = Err err)"
proof (induction decode disk queue acc rule: collect_dir_entries.induct)
  case (2 decode disk dir pre d queue acc)
  then have p: "pre = dir" by simp
  let ?k = "\<lambda>(_, _, en). de_name en"
  show ?case
  proof (cases "items_at disk dir")
    case None
    with dir_entries_at_eq [of decode disk dir] show ?thesis
      by (auto simp: p tree_readable.simps [of disk d dir] collect_dir_entries.simps(2))
  next
    case (Some items)
    let ?es = "sort_key ?k (map (located decode dir) items)"
    have at: "dir_entries_at decode disk dir pre = Inr ?es" using Some dir_entries_at_eq [of decode disk dir] p by simp
    have eq: "\<forall>(c, p, d) \<in> set (queue @ queued d ?es). c = p"
      using "2.prems" by (auto simp: queued_def located_def split: if_splits)
    have r: "(\<forall>(c, p, e) \<in> set ((dir, pre, d) # queue). tree_readable disk e p) \<longleftrightarrow>
        (\<forall>(c, p, e) \<in> set (queue @ queued d ?es). tree_readable disk e p)"
      using readable_split [OF Some, of d ?k decode] p by (auto simp: case_prod_unfold)
    from "2.IH" [OF at eq] at below_split [OF Some, of decode d ?k] p show ?thesis
      unfolding r by (auto simp: ac_simps collect_dir_entries.simps(2))
  qed
qed simp

text \<open>
  C26. (equivalence) Listing a directory, a loop over a queue, gives the page from entry \<open>offset\<close> of all entries of the tree down to the
  depth asked for, each once, sorted by path; it fails when a directory in reach cannot be read, and when \<open>offset\<close> is past the end of a
  listing that is not empty.
\<close>

theorem listing_is_a_page_of_the_tree:
  assumes "1 \<le> offset"
  shows "if tree_readable disk depth []
    then \<exists>es. mset es = mset (tree_listing decode disk depth []) \<and> sorted (map de_name es) \<and>
      list_dir_slice decode disk offset limit depth =
        (if es \<noteq> [] \<and> length es < offset then Err (RespondToModel (lit ''offset exceeds directory entry count''))
         else Ok (map format_entry_line (take limit (drop (offset - 1) es)) @
                  (if offset - 1 + limit < length es
                   then [lit ''More than '' @ show_nat limit @ lit '' entries found''] else [])))
    else \<exists>err. list_dir_slice decode disk offset limit depth = Err err"
proof (cases "tree_readable disk depth []")
  case True
  with collect_dir_entries_spec [of "[([], [], depth)]" disk decode "[]"] obtain es
    where c: "collect_dir_entries decode disk [([], [], depth)] [] = Ok es" and m: "mset es = mset (tree_listing decode disk depth [])"
    by (auto simp: below_def)
  let ?es = "sort_key de_name es"
  have "list_dir_slice decode disk offset limit depth =
        (if ?es \<noteq> [] \<and> length ?es < offset then Err (RespondToModel (lit ''offset exceeds directory entry count''))
         else Ok (map format_entry_line (take limit (drop (offset - 1) ?es)) @
                  (if offset - 1 + limit < length ?es
                   then [lit ''More than '' @ show_nat limit @ lit '' entries found''] else [])))"
    using c assms by (cases "es = []") (auto simp: list_dir_slice_def Let_def min_def simp del: lit_Cons)
  with True m show ?thesis by (intro exI [of _ ?es] if_P [THEN iffD2]) auto
next
  case False
  with collect_dir_entries_spec [of "[([], [], depth)]" disk decode "[]"] show ?thesis
    by (auto simp: list_dir_slice_def)
qed

definition sample_dirs :: dir_disk where
  "sample_dirs d =
     (let plain = \<lparr>ft_is_symlink = False, ft_is_dir = False, ft_is_file = True\<rparr>;
          folder = \<lparr>ft_is_symlink = False, ft_is_dir = True, ft_is_file = False\<rparr>
      in if d = [] then Ok ([(lit ''src.txt'', Ok plain), (lit ''src'', Ok folder)], EndOfFile)
         else if d = [lit ''src''] then Ok ([(lit ''a'', Ok plain)], EndOfFile)
         else Err (lit ''no such directory''))"

theorem listing_is_a_page_of_the_tree_witness:
  "tree_readable sample_dirs 2 [] \<and>
   (\<exists>es. mset es = mset (tree_listing id sample_dirs 2 []) \<and> length (tree_listing id sample_dirs 2 []) = 3 \<and> sorted (map de_name es) \<and>
      list_dir_slice id sample_dirs 2 1 2 =
        (if es \<noteq> [] \<and> length es < 2 then Err (RespondToModel (lit ''offset exceeds directory entry count''))
         else Ok (map format_entry_line (take 1 (drop (2 - 1) es)) @
                  (if 2 - 1 + 1 < length es then [lit ''More than '' @ show_nat 1 @ lit '' entries found''] else []))))"
proof -
  have r: "tree_readable sample_dirs 2 []" and l: "length (tree_listing id sample_dirs 2 []) = 3" by code_simp+
  have "1 \<le> (2::nat)" by simp
  from listing_is_a_page_of_the_tree [OF this, of sample_dirs 2 id 1, unfolded if_P [OF r]] show ?thesis
    by (elim exE conjE, intro conjI [OF r] exI conjI l) assumption+
qed

text \<open>
  Sorting by whole paths does not keep the entries of a directory below it: a name that continues the name of the directory with a
  character before the slash comes between.
\<close>

lemma children_under_the_wrong_entry:
  "list_dir_slice id sample_dirs 1 25 2 = Ok [lit ''src/'', lit ''src.txt'', lit ''  a'']"
  by code_simp

end
