(* ===== verification/Message_Chunks.thy ===== *)
theory Message_Chunks
  imports Savfox_Prelude
begin

text \<open>
  How a reply is split into messages that a chat platform accepts: \<^verbatim>\<open>gateway-server/src/response_chunker.rs\<close>.

  Lengths are counted in characters as in the source, except where it compares positions in bytes.  The two loops of the source
  that make no progress for a limit of zero are partial functions, and the claims say that they return.
\<close>

section \<open>Platforms\<close>

datatype platform_limit = Discord | Telegram | Slack | WhatsApp | DefaultLimit

fun max_chars :: "platform_limit \<Rightarrow> nat" where
  "max_chars Discord = 2000"
| "max_chars Telegram = 4096"
| "max_chars Slack = 40000"
| "max_chars WhatsApp = 65536"
| "max_chars DefaultLimit = 4096"

definition platform_of :: "rstring \<Rightarrow> rstring" where
  "platform_of channel = (case split_once [58] channel of Some (platform, _) \<Rightarrow> platform | None \<Rightarrow> channel)"

definition limit_from_channel :: "rstring \<Rightarrow> platform_limit" where
  "limit_from_channel channel =
     (let platform = to_ascii_lowercase (trim (platform_of channel)) in
      if platform = lit ''discord'' then Discord
      else if platform = lit ''telegram'' then Telegram
      else if platform = lit ''slack'' then Slack
      else if platform = lit ''whatsapp'' then WhatsApp
      else DefaultLimit)"

record message_chunk =
  mc_text :: rstring
  mc_index :: nat
  mc_total :: nat

section \<open>Break points\<close>

text \<open>\<^verbatim>\<open>str::rfind\<close>: where the last occurrence starts, in characters.\<close>

definition rfind :: "rstring \<Rightarrow> rstring \<Rightarrow> nat option" where
  "rfind sep s = (case filter (\<lambda>i. starts_with sep (drop i s)) [0..<length s] of [] \<Rightarrow> None | ps \<Rightarrow> Some (last ps))"

definition late_break :: "rstring \<Rightarrow> nat \<Rightarrow> rstring \<Rightarrow> nat option" where
  "late_break sep part s =
     (case rfind sep s of
        Some pos \<Rightarrow> if byte_len (take pos s) > byte_len s div part then Some (pos + length sep) else None
      | None \<Rightarrow> None)"

fun first_some :: "'a option list \<Rightarrow> 'a option" where
  "first_some [] = None"
| "first_some (Some x # os) = Some x"
| "first_some (None # os) = first_some os"

definition find_break_point :: "rstring \<Rightarrow> nat" where
  "find_break_point s =
     (case first_some [late_break [nl_char, nl_char] 2 s, late_break [nl_char] 2 s,
                       late_break (lit ''. '') 3 s, late_break (lit ''! '') 3 s, late_break (lit ''? '') 3 s,
                       map_option (\<lambda>pos. pos + 1) (rfind [space_char] s)] of
        Some k \<Rightarrow> k
      | None \<Rightarrow> length s)"

section \<open>Pieces\<close>

text \<open>The loop makes no progress when \<open>maxc\<close> is zero; \<open>None\<close> is a loop that never returns.\<close>

partial_function (option) split_text_loop :: "nat \<Rightarrow> rstring \<Rightarrow> rstring list \<Rightarrow> rstring list option" where
  "split_text_loop maxc remaining out =
     (if remaining = [] then Some out
      else if length remaining \<le> maxc then Some (out @ [remaining])
      else
        (let break_at = find_break_point (take maxc remaining)
         in split_text_loop maxc (drop break_at remaining) (out @ [take break_at remaining])))"

definition split_text_segment :: "rstring \<Rightarrow> nat \<Rightarrow> rstring list option" where
  "split_text_segment s maxc = (if length s \<le> maxc then Some [s] else split_text_loop maxc s [])"

definition fence :: rstring where
  "fence = lit ''```''"

definition split_code_segment :: "rstring \<Rightarrow> nat \<Rightarrow> rstring list option" where
  "split_code_segment code_block maxc =
     (if length code_block \<le> maxc then Some [code_block]
      else case split_once [nl_char] code_block of
        None \<Rightarrow> split_text_segment code_block maxc
      | Some (first_line, _) \<Rightarrow>
          if \<not> starts_with fence code_block \<or> \<not> ends_with fence code_block \<or>
             byte_len first_line + 3 \<ge> byte_len code_block
          then split_text_segment code_block maxc
          else
            (let header = first_line @ [nl_char];
                 content = take (length code_block - length header - 3) (drop (length header) code_block);
                 available = maxc - (length header + length fence + 1) in
             if available = 0 then split_text_segment code_block maxc
             else map_option (map (\<lambda>piece. header @ piece @ [nl_char] @ fence)) (split_text_segment content available)))"

datatype segment = TextSegment rstring | CodeSegment rstring

lemma split_once_eq: "split_once sep s = Some (a, b) \<Longrightarrow> s = a @ sep @ b"
proof (induction sep s arbitrary: a b rule: split_once.induct)
  case (2 sep c s)
  then show ?case
    by (cases "strip_prefix sep (c # s)") (auto simp: strip_prefix_Some)
qed (auto split: if_splits)

lemma length_fence [simp]: "length fence = 3"
  by (simp add: fence_def)

function split_segments :: "rstring \<Rightarrow> segment list" where
  "split_segments s =
     (case split_once fence s of
        None \<Rightarrow> if s = [] then [] else [TextSegment s]
      | Some (before, after) \<Rightarrow>
          (if before = [] then [] else [TextSegment before]) @
          (case split_once fence after of
             None \<Rightarrow> [TextSegment (fence @ after)]
           | Some (code, remaining) \<Rightarrow> CodeSegment (fence @ code @ fence) # split_segments remaining))"
  by pat_completeness auto

termination split_segments
  by (relation "measure length") (auto dest!: split_once_eq)

declare split_segments.simps [simp del]

fun segment_pieces :: "nat \<Rightarrow> segment \<Rightarrow> rstring list option" where
  "segment_pieces maxc (TextSegment s) = split_text_segment s maxc"
| "segment_pieces maxc (CodeSegment s) = split_code_segment s maxc"

fun all_pieces :: "nat \<Rightarrow> segment list \<Rightarrow> rstring list option" where
  "all_pieces maxc [] = Some []"
| "all_pieces maxc (s # ss) =
     (case segment_pieces maxc s of
        None \<Rightarrow> None
      | Some ps \<Rightarrow> map_option ((@) ps) (all_pieces maxc ss))"

section \<open>Messages\<close>

definition tail_chars :: "rstring \<Rightarrow> nat \<Rightarrow> rstring" where
  "tail_chars s n = (if n = 0 then [] else if length s \<le> n then s else drop (length s - n) s)"

definition add_piece :: "nat \<Rightarrow> nat \<Rightarrow> rstring \<Rightarrow> rstring list \<times> rstring \<Rightarrow> rstring list \<times> rstring" where
  "add_piece maxc overlap piece = (\<lambda>(chunks, current).
     if length current + length piece > maxc \<or> (sublist fence current \<and> sublist fence piece)
     then (chunks @ [current],
           (if overlap > 0 \<and> \<not> sublist fence current \<and> \<not> sublist fence piece
            then tail_chars current overlap @ [nl_char] else []) @ piece)
     else (chunks, current @ piece))"

definition body_overlap :: "nat \<Rightarrow> nat \<Rightarrow> nat" where
  "body_overlap maxc overlap_chars = min overlap_chars ((maxc - 1) div 2)"

definition piece_max :: "nat \<Rightarrow> nat \<Rightarrow> nat" where
  "piece_max maxc overlap = maxc - (if overlap > 0 then overlap + 1 else 0)"

definition split_message_body :: "rstring \<Rightarrow> nat \<Rightarrow> nat \<Rightarrow> rstring list option" where
  "split_message_body s maxc overlap_chars =
     (let overlap = body_overlap maxc overlap_chars in
      map_option (\<lambda>pieces.
        (let (chunks, current) = fold (add_piece maxc overlap) pieces ([], [])
         in if current = [] then chunks else chunks @ [current]))
        (all_pieces (piece_max maxc overlap) (split_segments s)))"

definition page_marker :: "nat \<Rightarrow> nat \<Rightarrow> rstring" where
  "page_marker i n = [nl_char, nl_char] @ lit ''('' @ show_nat i @ lit ''/'' @ show_nat n @ lit '')''"

definition numbered_chunks :: "bool \<Rightarrow> rstring list \<Rightarrow> message_chunk list" where
  "numbered_chunks num chunks =
     map (\<lambda>(i, s). \<lparr>mc_text = (if num \<and> length chunks > 1 then s @ page_marker i (length chunks) else s), mc_index = i,
                    mc_total = length chunks\<rparr>) (enumerate 1 chunks)"

text \<open>The loop that makes room for the page numbers.\<close>

partial_function (option) number_loop :: "rstring \<Rightarrow> nat \<Rightarrow> nat \<Rightarrow> nat \<Rightarrow> bool \<Rightarrow> message_chunk list option" where
  "number_loop s maxc overlap_chars number_digits num =
     (let marker_chars = (if num then 5 + 2 * number_digits else 0) in
      if marker_chars \<ge> maxc then number_loop s maxc overlap_chars number_digits False
      else case split_message_body s (maxc - marker_chars) overlap_chars of
        None \<Rightarrow> None
      | Some chunks \<Rightarrow>
          (let total_digits = length (show_nat (length chunks)) in
           if num \<and> total_digits > number_digits then number_loop s maxc overlap_chars total_digits num
           else Some (numbered_chunks num chunks)))"

declare split_text_loop.simps [code] number_loop.simps [code]

definition chunk_message_with_options :: "rstring \<Rightarrow> nat \<Rightarrow> nat \<Rightarrow> message_chunk list option" where
  "chunk_message_with_options s char_limit overlap_chars =
     (let maxc = max char_limit 1 in
      if length s \<le> maxc then Some [\<lparr>mc_text = s, mc_index = 1, mc_total = 1\<rparr>]
      else number_loop s maxc overlap_chars 1 True)"

definition chunk_message :: "rstring \<Rightarrow> platform_limit \<Rightarrow> message_chunk list option" where
  "chunk_message s platform = chunk_message_with_options s (max_chars platform) 0"

definition chunk_message_for_channel :: "rstring \<Rightarrow> rstring \<Rightarrow> nat option \<Rightarrow> nat \<Rightarrow> message_chunk list option" where
  "chunk_message_for_channel s channel max_override overlap =
     chunk_message_with_options s
       (case max_override of
          Some v \<Rightarrow> if v > 0 then v else max_chars (limit_from_channel channel)
        | None \<Rightarrow> max_chars (limit_from_channel channel)) overlap"

section \<open>Break points make progress\<close>

lemma rfind_bound: "rfind sep s = Some pos \<Longrightarrow> sep \<noteq> [] \<Longrightarrow> pos + length sep \<le> length s"
proof -
  assume r: "rfind sep s = Some pos" and "sep \<noteq> []"
  let ?ps = "filter (\<lambda>i. starts_with sep (drop i s)) [0..<length s]"
  from r have "?ps \<noteq> []" "pos = last ?ps" by (auto simp: rfind_def split: list.splits)
  then have "pos \<in> set ?ps" using last_in_set by blast
  then have "pos < length s" "starts_with sep (drop pos s)" by auto
  then obtain t where "drop pos s = sep @ t" by (auto simp: starts_with_def strip_prefix_Some)
  then have "length s - pos = length sep + length t" by (metis length_append length_drop)
  with \<open>pos < length s\<close> show ?thesis by linarith
qed

lemma first_some_in: "first_some os = Some x \<Longrightarrow> Some x \<in> set os"
  by (induction os rule: first_some.induct) auto

lemma late_break_bound: "late_break sep p s = Some k \<Longrightarrow> sep \<noteq> [] \<Longrightarrow> 0 < k \<and> k \<le> length s"
  using rfind_bound by (fastforce simp: late_break_def split: option.splits if_splits)

lemma find_break_point_bound:
  assumes "s \<noteq> []"
  shows "0 < find_break_point s \<and> find_break_point s \<le> length s"
proof -
  let ?os = "[late_break [nl_char, nl_char] 2 s, late_break [nl_char] 2 s, late_break (lit ''. '') 3 s,
     late_break (lit ''! '') 3 s, late_break (lit ''? '') 3 s, map_option (\<lambda>pos. pos + 1) (rfind [space_char] s)]"
  have "0 < k \<and> k \<le> length s" if "Some k \<in> set ?os" for k
    using that late_break_bound rfind_bound [of "[space_char]" s]
    by (auto simp del: lit_Cons simp: eq_commute [of "Some k"]) (simp_all add: late_break_bound)
  with assms show ?thesis
    by (auto simp: find_break_point_def simp del: lit_Cons split: option.splits dest!: first_some_in)
qed

section \<open>Pieces fit and keep the text\<close>

text \<open>Pieces that are not empty, fit and make up the text they come from.\<close>

definition pieces_of :: "nat \<Rightarrow> rstring \<Rightarrow> rstring list \<Rightarrow> bool" where
  "pieces_of maxc s ps \<longleftrightarrow> concat ps = s \<and> (\<forall>p \<in> set ps. p \<noteq> [] \<and> length p \<le> maxc)"

lemma split_text_loop_spec:
  assumes "0 < maxc"
  shows "\<exists>ps. split_text_loop maxc s out = Some (out @ ps) \<and> pieces_of maxc s ps"
proof (induction "length s" arbitrary: s out rule: less_induct)
  case less
  show ?case
  proof (cases "s = [] \<or> length s \<le> maxc")
    case True
    then show ?thesis
      by (subst split_text_loop.simps) (auto simp: pieces_of_def intro: exI [of _ "[]"] exI [of _ "[s]"])
  next
    case False
    let ?k = "find_break_point (take maxc s)"
    have k: "0 < ?k" "?k \<le> maxc" "?k \<le> length s"
      using find_break_point_bound [of "take maxc s"] assms False by (auto simp: min_def split: if_splits)
    then have "length (drop ?k s) < length s" using False by simp
    from less [OF this, of "out @ [take ?k s]"] obtain ps
      where "split_text_loop maxc (drop ?k s) (out @ [take ?k s]) = Some (out @ take ?k s # ps)"
        and "pieces_of maxc (drop ?k s) ps" by auto
    with k False show ?thesis
      by (subst split_text_loop.simps) (auto simp: Let_def pieces_of_def intro!: exI [of _ "take ?k s # ps"])
  qed
qed

lemma split_text_segment_spec:
  assumes "0 < maxc"
  shows "\<exists>ps. split_text_segment s maxc = Some ps \<and> ps \<noteq> [] \<and> concat ps = s \<and>
    (\<forall>p \<in> set ps. length p \<le> maxc \<and> (s \<noteq> [] \<longrightarrow> p \<noteq> []))"
  using split_text_loop_spec [OF assms, of s "[]"] by (auto simp: split_text_segment_def pieces_of_def)

lemma split_code_segment_cases:
  "length s \<le> maxc \<and> split_code_segment s maxc = Some [s] \<or> split_code_segment s maxc = split_text_segment s maxc \<or>
   (\<exists>h content n. 0 < n \<and> n = maxc - (length h + length fence + 1) \<and>
      split_code_segment s maxc = map_option (map (\<lambda>piece. h @ piece @ [nl_char] @ fence)) (split_text_segment content n))"
proof (cases "length s \<le> maxc \<or> split_code_segment s maxc = split_text_segment s maxc")
  case False
  then obtain l t where "split_once [nl_char] s = Some (l, t)"
    by (auto simp: split_code_segment_def split: option.splits)
  with False show ?thesis
    by (intro disjI2 exI [of _ "l @ [nl_char]"] exI [of _ "take (length s - length (l @ [nl_char]) - 3) (drop (length (l @ [nl_char])) s)"]
        exI [of _ "maxc - (length (l @ [nl_char]) + length fence + 1)"])
      (auto simp: split_code_segment_def Let_def simp del: length_fence split: if_splits)
qed (auto simp: split_code_segment_def)

lemma split_code_segment_fits:
  assumes "0 < maxc" "s \<noteq> []"
  shows "\<exists>ps. split_code_segment s maxc = Some ps \<and> ps \<noteq> [] \<and> (\<forall>p \<in> set ps. p \<noteq> [] \<and> length p \<le> maxc)"
  using split_code_segment_cases [of s maxc]
proof (elim disjE exE conjE)
  fix h content n
  assume n: "0 < n" "n = maxc - (length h + length fence + 1)"
    and eq: "split_code_segment s maxc = map_option (map (\<lambda>piece. h @ piece @ [nl_char] @ fence)) (split_text_segment content n)"
  obtain ps where ps: "split_text_segment content n = Some ps" "ps \<noteq> []" "\<forall>p \<in> set ps. length p \<le> n"
    using split_text_segment_spec [OF n(1), of content] by blast
  have "length h + (length p + (length fence + 1)) \<le> maxc" if "length p \<le> n" for p :: rstring
    using that n by linarith
  with ps eq show ?thesis by auto
qed (use split_text_segment_spec [OF assms(1), of s] assms(2) in auto)

fun segment_text :: "segment \<Rightarrow> rstring" where
  "segment_text (TextSegment s) = s"
| "segment_text (CodeSegment s) = s"

lemma fence_nonempty [simp]: "fence \<noteq> []"
  by (simp add: fence_def)

lemma split_segments_nonempty: "seg \<in> set (split_segments s) \<Longrightarrow> segment_text seg \<noteq> []"
proof (induction s arbitrary: seg rule: split_segments.induct)
  case (1 s)
  from 1(2) show ?case
    by (subst (asm) split_segments.simps) (auto split: option.splits if_splits dest: "1.IH")
qed

lemma split_segments_concat: "concat (map segment_text (split_segments s)) = s"
proof (induction s rule: split_segments.induct)
  case (1 s)
  show ?case
    by (subst split_segments.simps) (auto split: option.splits simp: "1.IH" dest!: split_once_eq)
qed

lemma segment_pieces_fit:
  "0 < maxc \<Longrightarrow> segment_text seg \<noteq> [] \<Longrightarrow>
   \<exists>ps. segment_pieces maxc seg = Some ps \<and> ps \<noteq> [] \<and> (\<forall>p \<in> set ps. p \<noteq> [] \<and> length p \<le> maxc)"
  using split_text_segment_spec [of maxc "segment_text seg"] split_code_segment_fits [of maxc "segment_text seg"]
  by (cases seg) auto

lemma all_pieces_fit:
  "0 < maxc \<Longrightarrow> \<forall>seg \<in> set segs. segment_text seg \<noteq> [] \<Longrightarrow>
   \<exists>ps. all_pieces maxc segs = Some ps \<and> (\<forall>p \<in> set ps. p \<noteq> [] \<and> length p \<le> maxc)"
proof (induction segs)
  case (Cons seg segs)
  with segment_pieces_fit [of maxc seg] show ?case by fastforce
qed simp

lemma all_pieces_concat:
  "0 < maxc \<Longrightarrow> \<forall>seg \<in> set segs. case seg of CodeSegment c \<Rightarrow> length c \<le> maxc | _ \<Rightarrow> True \<Longrightarrow>
   all_pieces maxc segs = Some ps \<Longrightarrow> concat ps = concat (map segment_text segs)"
proof (induction segs arbitrary: ps)
  case (Cons seg segs)
  from Cons.prems(3) obtain qs rs where q: "segment_pieces maxc seg = Some qs" and "all_pieces maxc segs = Some rs" "ps = qs @ rs"
    by (auto split: option.splits)
  moreover have "concat qs = segment_text seg"
    using q split_text_segment_spec [OF Cons.prems(1), of "segment_text seg"] Cons.prems(2)
    by (cases seg) (auto simp: split_code_segment_def)
  ultimately show ?case using Cons by simp
qed simp

section \<open>Messages fit\<close>

lemma piece_max_pos: "0 < maxc \<Longrightarrow> 0 < piece_max maxc (body_overlap maxc o_chars)"
  by (auto simp: piece_max_def body_overlap_def min_def)

lemma piece_max_overlap: "0 < overlap \<Longrightarrow> overlap = body_overlap maxc o_chars \<Longrightarrow> piece_max maxc overlap + overlap + 1 = maxc"
  by (auto simp: piece_max_def body_overlap_def min_def split: if_splits)

lemma piece_max_le: "piece_max maxc overlap \<le> maxc"
  by (simp add: piece_max_def)

lemma length_tail_chars: "length (tail_chars s n) \<le> n"
  by (simp add: tail_chars_def)

definition filling :: "nat \<Rightarrow> rstring list \<times> rstring \<Rightarrow> bool" where
  "filling maxc = (\<lambda>(chunks, current). length current \<le> maxc \<and> (\<forall>c \<in> set chunks. c \<noteq> [] \<and> length c \<le> maxc))"

lemma add_piece_filling:
  assumes "filling maxc (chunks, current)" and "p \<noteq> []" "length p \<le> piece_max maxc overlap"
    and "overlap = body_overlap maxc o_chars"
  shows "filling maxc (add_piece maxc overlap p (chunks, current)) \<and> snd (add_piece maxc overlap p (chunks, current)) \<noteq> []"
proof -
  have p: "length p \<le> maxc" using assms(3) piece_max_le le_trans by blast
  show ?thesis
  proof (cases "length current + length p > maxc \<or> (sublist fence current \<and> sublist fence p)")
    case True
    then have "current \<noteq> []" using p by (auto simp: fence_def)
    moreover have "length (tail_chars current overlap @ [nl_char] @ p) \<le> maxc" if "0 < overlap"
      using piece_max_overlap [OF that assms(4)] length_tail_chars [of current overlap] assms(3) by simp
    ultimately show ?thesis using True assms(1,2) p by (auto simp: add_piece_def filling_def)
  next
    case False
    with assms(1,2) show ?thesis by (auto simp: add_piece_def filling_def)
  qed
qed

lemma fold_filling:
  "filling maxc st \<Longrightarrow> \<forall>p \<in> set ps. p \<noteq> [] \<and> length p \<le> piece_max maxc overlap \<Longrightarrow> overlap = body_overlap maxc o_chars \<Longrightarrow>
   filling maxc (fold (add_piece maxc overlap) ps st)"
proof (induction ps arbitrary: st)
  case (Cons p ps)
  obtain chunks current where st: "st = (chunks, current)" by force
  from add_piece_filling [of maxc chunks current p overlap o_chars] Cons st show ?case by simp
qed simp

lemma split_message_body_fits:
  assumes "0 < maxc"
  shows "\<exists>cs. split_message_body s maxc o_chars = Some cs \<and> (\<forall>c \<in> set cs. c \<noteq> [] \<and> length c \<le> maxc)"
proof -
  let ?o = "body_overlap maxc o_chars"
  from all_pieces_fit [OF piece_max_pos [OF assms], of "split_segments s"] split_segments_nonempty obtain ps
    where ps: "all_pieces (piece_max maxc ?o) (split_segments s) = Some ps" "\<forall>p \<in> set ps. p \<noteq> [] \<and> length p \<le> piece_max maxc ?o"
    by blast
  from fold_filling [OF _ ps(2) refl, of "([], [])"] have "filling maxc (fold (add_piece maxc ?o) ps ([], []))"
    by (simp add: filling_def)
  with ps(1) show ?thesis by (auto simp: split_message_body_def Let_def filling_def split: prod.splits)
qed

lemma fold_current:
  "ps \<noteq> [] \<Longrightarrow> filling maxc st \<Longrightarrow> \<forall>p \<in> set ps. p \<noteq> [] \<and> length p \<le> piece_max maxc overlap \<Longrightarrow>
   overlap = body_overlap maxc o_chars \<Longrightarrow> snd (fold (add_piece maxc overlap) ps st) \<noteq> []"
proof (induction ps arbitrary: st)
  case (Cons p ps)
  obtain chunks current where st: "st = (chunks, current)" by force
  note a = add_piece_filling [of maxc chunks current p overlap o_chars]
  show ?case
  proof (cases "ps = []")
    case False
    with a Cons st show ?thesis by simp
  qed (use a Cons st in simp)
qed simp

lemma all_pieces_Nil:
  assumes "0 < maxc" and "all_pieces maxc segs = Some []" and "\<forall>seg \<in> set segs. segment_text seg \<noteq> []"
  shows "segs = []"
proof (cases segs)
  case (Cons seg segs')
  with assms(2) have "segment_pieces maxc seg = Some []" by (auto split: option.splits)
  with segment_pieces_fit [OF assms(1), of seg] assms(3) Cons show ?thesis by auto
qed simp

lemma split_message_body_nonempty:
  assumes "0 < maxc" "s \<noteq> []" "split_message_body s maxc o_chars = Some cs"
  shows "cs \<noteq> []"
proof -
  let ?o = "body_overlap maxc o_chars"
  from all_pieces_fit [OF piece_max_pos [OF assms(1)], of "split_segments s"] split_segments_nonempty obtain ps
    where ps: "all_pieces (piece_max maxc ?o) (split_segments s) = Some ps" "\<forall>p \<in> set ps. p \<noteq> [] \<and> length p \<le> piece_max maxc ?o"
    by blast
  have "split_segments s \<noteq> []" using split_segments_concat [of s] assms(2) by auto
  then have "ps \<noteq> []" using all_pieces_Nil [OF piece_max_pos [OF assms(1)], of o_chars "split_segments s"] ps(1) split_segments_nonempty
    by blast
  from fold_current [OF this _ ps(2) refl, of "([], [])"] have "snd (fold (add_piece maxc ?o) ps ([], [])) \<noteq> []"
    by (simp add: filling_def)
  with ps(1) assms(3) show ?thesis by (auto simp: split_message_body_def Let_def split: prod.splits if_splits)
qed

lemma fold_keeps_text:
  "fold (add_piece maxc 0) ps (cs, cur) = (cs', cur') \<Longrightarrow> concat cs' @ cur' = concat cs @ cur @ concat ps"
proof (induction ps arbitrary: cs cur)
  case (Cons p ps)
  from Cons.prems obtain cs1 cur1 where s: "add_piece maxc 0 p (cs, cur) = (cs1, cur1)"
    and "fold (add_piece maxc 0) ps (cs1, cur1) = (cs', cur')" by (cases "add_piece maxc 0 p (cs, cur)") auto
  then have "concat cs' @ cur' = concat cs1 @ cur1 @ concat ps" using Cons.IH by blast
  moreover have "concat cs1 @ cur1 = concat cs @ cur @ p" using s by (auto simp: add_piece_def split: if_splits)
  ultimately show ?case by simp
qed simp

lemma split_message_body_keeps:
  assumes "0 < maxc" and "\<forall>seg \<in> set (split_segments s). case seg of CodeSegment c \<Rightarrow> length c \<le> maxc | _ \<Rightarrow> True"
    and "split_message_body s maxc 0 = Some cs"
  shows "concat cs = s"
proof -
  have o: "body_overlap maxc 0 = 0" "piece_max maxc 0 = maxc" by (simp_all add: body_overlap_def piece_max_def)
  from assms(3) obtain ps where ps: "all_pieces maxc (split_segments s) = Some ps"
    and cs: "cs = (let (chunks, current) = fold (add_piece maxc 0) ps ([], []) in if current = [] then chunks else chunks @ [current])"
    by (auto simp: split_message_body_def Let_def o)
  have "concat ps = s" using all_pieces_concat [OF assms(1,2) ps] split_segments_concat by simp
  with cs fold_keeps_text [of maxc ps "[]" "[]"] show ?thesis
    by (cases "fold (add_piece maxc 0) ps ([], [])") (auto simp: Let_def)
qed

lemma show_nat_digits_mono: "m \<le> n \<Longrightarrow> length (show_nat m) \<le> length (show_nat n)"
proof (induction m arbitrary: n rule: show_nat.induct)
  case (1 m)
  show ?case
  proof (cases "m < 10")
    case True
    then show ?thesis by (subst show_nat.simps, subst (2) show_nat.simps) simp
  next
    case False
    with 1 have "length (show_nat (m div 10)) \<le> length (show_nat (n div 10))" using div_le_mono by blast
    with False 1(2) show ?thesis by (subst show_nat.simps, subst (2) show_nat.simps) simp
  qed
qed

lemma page_marker_length: "i \<le> n \<Longrightarrow> length (page_marker i n) \<le> 5 + 2 * length (show_nat n)"
  using show_nat_digits_mono [of i n] by (simp add: page_marker_def)

text \<open>A list of messages whose texts are bodies, one after the other, each with its page number when there is room.\<close>

definition paged :: "nat \<Rightarrow> rstring list \<Rightarrow> message_chunk list \<Rightarrow> bool" where
  "paged maxc bodies cs \<longleftrightarrow> (\<exists>num. cs = numbered_chunks num bodies) \<and> (\<forall>c \<in> set cs. mc_text c \<noteq> [] \<and> length (mc_text c) \<le> maxc)"

lemma numbered_chunks_fit:
  assumes "\<forall>c \<in> set chunks. c \<noteq> [] \<and> length c \<le> maxc - (if num then 5 + 2 * d else 0)"
    and "(if num then 5 + 2 * d else 0) < maxc" and "num \<longrightarrow> length (show_nat (length chunks)) \<le> d"
  shows "paged maxc chunks (numbered_chunks num chunks)"
proof -
  have "mc_text c \<noteq> [] \<and> length (mc_text c) \<le> maxc" if "c \<in> set (numbered_chunks num chunks)" for c
  proof -
    from that obtain i b where ib: "(i, b) \<in> set (enumerate 1 chunks)"
      and c: "c = \<lparr>mc_text = (if num \<and> length chunks > 1 then b @ page_marker i (length chunks) else b), mc_index = i,
        mc_total = length chunks\<rparr>" by (auto simp: numbered_chunks_def)
    from ib have "b \<in> set chunks" "i \<le> length chunks" by (auto simp: in_set_enumerate_eq)
    with assms page_marker_length [of i "length chunks"] c show ?thesis by (fastforce split: if_splits)
  qed
  then show ?thesis by (auto simp: paged_def)
qed

lemma number_loop_spec:
  assumes "0 < maxc"
  shows "\<exists>bodies cs. number_loop s maxc o_chars d num = Some cs \<and> paged maxc bodies cs \<and>
     (\<exists>n. 0 < n \<and> n \<le> maxc \<and> split_message_body s n o_chars = Some bodies)"
proof (induction "if num then Suc (maxc - d) else 0" arbitrary: d num rule: less_induct)
  case less
  let ?m = "if num then 5 + 2 * d else 0"
  note eq = number_loop.simps [of s maxc o_chars d num]
  show ?case
  proof (cases "?m < maxc")
    case True
    then have pos: "0 < maxc - ?m" by simp
    from split_message_body_fits [OF pos, of s o_chars] obtain chunks
      where b: "split_message_body s (maxc - ?m) o_chars = Some chunks" "\<forall>c \<in> set chunks. c \<noteq> [] \<and> length c \<le> maxc - ?m" by blast
    show ?thesis
    proof (cases "num \<and> d < length (show_nat (length chunks))")
      case grow: True
      then have "number_loop s maxc o_chars d num = number_loop s maxc o_chars (length (show_nat (length chunks))) num"
        using True b(1) by (subst eq) (simp add: Let_def)
      moreover have "(if num then Suc (maxc - length (show_nat (length chunks))) else 0) < (if num then Suc (maxc - d) else 0)"
        using grow True by auto
      ultimately show ?thesis using less by metis
    next
      case False
      then have "number_loop s maxc o_chars d num = Some (numbered_chunks num chunks)"
        using True b(1) by (subst eq) (auto simp: Let_def)
      moreover have "paged maxc chunks (numbered_chunks num chunks)"
        using numbered_chunks_fit [OF b(2) True] False by auto
      moreover have "maxc - ?m \<le> maxc" by simp
      ultimately show ?thesis using b(1) pos by blast
    qed
  next
    case False
    with assms have "num" by (cases num) auto
    then have "(if False then Suc (maxc - d) else 0) < (if num then Suc (maxc - d) else 0)" by simp
    moreover have "number_loop s maxc o_chars d num = number_loop s maxc o_chars d False"
      using False by (subst eq) (simp add: Let_def)
    ultimately show ?thesis using less by metis
  qed
qed

lemma chunks_exist:
  assumes "s \<noteq> []"
  shows "\<exists>cs. chunk_message_with_options s char_limit overlap_chars = Some cs \<and> cs \<noteq> [] \<and>
     (\<forall>c \<in> set cs. mc_text c \<noteq> [] \<and> length (mc_text c) \<le> max char_limit 1 \<and> mc_total c = length cs) \<and>
     map mc_index cs = [1..<Suc (length cs)]"
proof (cases "length s \<le> max char_limit 1")
  case True
  with assms show ?thesis by (simp add: chunk_message_with_options_def Let_def)
next
  case False
  let ?maxc = "max char_limit 1"
  have "0 < ?maxc" by simp
  from number_loop_spec [OF this, of s overlap_chars 1 True] obtain bodies cs n num
    where r: "number_loop s ?maxc overlap_chars 1 True = Some cs"
      and cs: "cs = numbered_chunks num bodies" "\<forall>c \<in> set cs. mc_text c \<noteq> [] \<and> length (mc_text c) \<le> ?maxc"
      and b: "split_message_body s n overlap_chars = Some bodies" "0 < n" by (auto simp: paged_def)
  have "bodies \<noteq> []" using split_message_body_nonempty [OF b(2) assms b(1)] .
  moreover have "length cs = length bodies" by (simp add: cs(1) numbered_chunks_def)
  moreover have "map mc_index cs = [1..<Suc (length bodies)]"
    by (simp add: cs(1) numbered_chunks_def comp_def case_prod_unfold map_fst_enumerate)
  moreover have "\<forall>c \<in> set cs. mc_total c = length bodies" by (auto simp: cs(1) numbered_chunks_def)
  ultimately show ?thesis using r cs False by (auto simp: chunk_message_with_options_def Let_def)
qed

text \<open>
  C21. (bounds) Splitting a message always ends, and every message that results is not empty, within the limit of the platform, and
  carries its place and the number of messages.
\<close>

theorem messages_fit_the_platform:
  assumes "s \<noteq> []"
  shows "\<exists>cs. chunk_message_with_options s char_limit overlap_chars = Some cs \<and> cs \<noteq> [] \<and>
     (\<forall>c \<in> set cs. mc_text c \<noteq> [] \<and> length (mc_text c) \<le> max char_limit 1 \<and> mc_total c = length cs) \<and>
     map mc_index cs = [1..<Suc (length cs)]"
  using chunks_exist [OF assms] .

lemma split_once_char: "c \<notin> set a \<Longrightarrow> split_once [c] (a @ c # b) = Some (a, b)"
  by (induction a) auto

lemma split_once_None: "\<not> sublist sep s \<Longrightarrow> split_once sep s = None"
proof (rule ccontr)
  assume "\<not> sublist sep s" "split_once sep s \<noteq> None"
  then obtain a b where "split_once sep s = Some (a, b)" by force
  from split_once_eq [OF this] \<open>\<not> sublist sep s\<close> show False by (auto simp: sublist_def)
qed

text \<open>A long code block is sent as blocks with the same first line, each closed on its own.\<close>

lemma code_block_is_kept:
  assumes "nl_char \<notin> set lang" and "h = fence @ lang @ [nl_char]" and "block = h @ content @ fence"
    and "maxc < length block" "length h + 4 < maxc"
  shows "\<exists>qs. split_code_segment block maxc = Some (map (\<lambda>q. h @ q @ [nl_char] @ fence) qs) \<and> concat qs = content \<and>
     (\<forall>q \<in> set qs. length h + length q + 4 \<le> maxc)"
proof -
  have nf: "nl_char \<notin> set fence" by (simp add: fence_def)
  have "split_once [nl_char] block = Some (fence @ lang, content @ fence)"
    using split_once_char [of nl_char "fence @ lang" "content @ fence"] assms(1-3) nf by simp
  moreover have "starts_with fence block" by (simp add: assms(2,3) starts_with_def)
  moreover have "ends_with fence block"
    using strip_prefix_append [of "rev fence" "rev (h @ content)"]
    by (simp add: assms(3) ends_with_def strip_suffix_def del: strip_prefix_append) 
  moreover have "byte_len (fence @ lang) + 3 < byte_len block"
  proof -
    have "byte_len fence = 3" by (simp add: fence_def len_utf8_def)
    then show ?thesis by (simp add: assms(2,3))
  qed
  moreover have "take (length block - length h - 3) (drop (length h) block) = content" by (simp add: assms(3))
  moreover obtain qs where "split_text_segment content (maxc - (length h + length fence + 1)) = Some qs" "concat qs = content"
      "\<forall>q \<in> set qs. length q \<le> maxc - (length h + length fence + 1)"
    using split_text_segment_spec [of "maxc - (length h + length fence + 1)" content] assms(5) by auto
  ultimately show ?thesis using assms(2,4,5)
    by (intro exI [of _ qs]) (auto simp: split_code_segment_def Let_def)
qed

text \<open>
  C28. (roundtrip) Without overlap, a message that has no code fence is the concatenation of what is sent, page numbers apart.
\<close>

theorem message_text_is_kept:
  assumes "\<not> sublist fence s"
  shows "\<exists>bodies num. chunk_message_with_options s char_limit 0 = Some (numbered_chunks num bodies) \<and> concat bodies = s"
proof (cases "length s \<le> max char_limit 1")
  case True
  then show ?thesis
    by (intro exI [of _ "[s]"] exI [of _ False]) (simp add: chunk_message_with_options_def numbered_chunks_def Let_def)
next
  case False
  have segs: "\<forall>seg \<in> set (split_segments s). case seg of CodeSegment c \<Rightarrow> length c \<le> n | _ \<Rightarrow> True" for n
    using split_once_None [OF assms] by (subst split_segments.simps) auto
  have "0 < max char_limit 1" by simp
  from number_loop_spec [OF this, of s 0 1 True] obtain bodies num n
    where "number_loop s (max char_limit 1) 0 1 True = Some (numbered_chunks num bodies)"
      and b: "split_message_body s n 0 = Some bodies" "0 < n" by (auto simp: paged_def)
  with False split_message_body_keeps [OF b(2) segs b(1)] show ?thesis
    by (auto simp: chunk_message_with_options_def Let_def)
qed

definition sample_message :: rstring where
  "sample_message = lit ''one two three four five six''"

theorem messages_fit_the_platform_witness:
  "\<exists>cs. chunk_message_with_options sample_message 16 0 = Some cs \<and> (\<forall>c \<in> set cs. length (mc_text c) \<le> 16)"
proof -
  have "sample_message \<noteq> []" by (simp add: sample_message_def)
  from messages_fit_the_platform [OF this, of 16 0] show ?thesis by auto
qed

theorem message_text_is_kept_witness:
  "\<not> sublist fence sample_message \<and>
   (\<exists>bodies num. chunk_message_with_options sample_message 16 0 = Some (numbered_chunks num bodies) \<and> concat bodies = sample_message)"
proof -
  have "\<not> sublist fence sample_message" by code_simp
  with message_text_is_kept [OF this, of 16] show ?thesis by blast
qed

text \<open>A long word after a space leaves the space as a message of its own.\<close>

lemma blank_message_is_sent:
  "split_text_segment (space_char # replicate 9 97) 8 = Some [[space_char], replicate 8 97, [97]]"
  by code_simp

end
