(* ===== verification/Message_Delivery.thy ===== *)
theory Message_Delivery
  imports Message_Chunks
begin

text \<open>
  Sending replies and questions to a channel: \<^verbatim>\<open>gateway-server/src/send_policy.rs\<close> and \<^verbatim>\<open>channels/runtime/delivery.rs\<close>.

  The platform, the clock and new identifiers are arguments; what happens is a list of events.  The static caches and accounts are
  one record that is passed along.  The directory and the file names of put-aside messages are left out.
\<close>

section \<open>Policies\<close>

datatype threading_policy = ThreadingOff | ThreadingAll | ThreadingFirst

record channel_send_policy =
  sp_retry_count :: nat
  sp_backoff_ms :: nat
  sp_timeout_ms :: nat
  sp_threading :: threading_policy
  sp_auto_chunk :: bool
  sp_chunk_max_chars :: nat
  sp_chunk_overlap_chars :: nat

definition default_channel_send_policy :: channel_send_policy where
  "default_channel_send_policy =
     \<lparr>sp_retry_count = 3, sp_backoff_ms = 200, sp_timeout_ms = 15000, sp_threading = ThreadingAll, sp_auto_chunk = True,
      sp_chunk_max_chars = 0, sp_chunk_overlap_chars = 0\<rparr>"

record send_policy_config =
  spc_default :: channel_send_policy
  spc_channels :: "rstring \<rightharpoonup> channel_send_policy"

definition resolve_send_policy :: "send_policy_config \<Rightarrow> rstring \<Rightarrow> channel_send_policy" where
  "resolve_send_policy cfg channel =
     (case spc_channels cfg channel of
        Some exact \<Rightarrow> exact
      | None \<Rightarrow>
          (case Option.bind (split_once [58] channel) (\<lambda>(platform, _). spc_channels cfg platform) of
             Some platform_override \<Rightarrow> platform_override
           | None \<Rightarrow> (case spc_channels cfg (lit ''*'') of Some wildcard \<Rightarrow> wildcard | None \<Rightarrow> spc_default cfg)))"

section \<open>Accounts\<close>

record send_metrics =
  sm_attempts :: nat
  sm_success :: nat
  sm_failed :: nat
  sm_total_latency_ms :: nat

definition no_metrics :: send_metrics where
  "no_metrics = \<lparr>sm_attempts = 0, sm_success = 0, sm_failed = 0, sm_total_latency_ms = 0\<rparr>"

definition count_send :: "bool \<Rightarrow> nat \<Rightarrow> send_metrics \<Rightarrow> send_metrics" where
  "count_send success latency m =
     (let m = m\<lparr>sm_attempts := sat_add (sm_attempts m) 1\<rparr> in
      if success
      then m\<lparr>sm_success := sat_add (sm_success m) 1, sm_total_latency_ms := sat_add (sm_total_latency_ms m) latency\<rparr>
      else m\<lparr>sm_failed := sat_add (sm_failed m) 1\<rparr>)"

record channel_health =
  ch_last_message_time_ms :: "nat option"
  ch_last_event_time_ms :: "nat option"
  ch_reconnect_attempt_count :: nat
  ch_connected_since_ms :: "nat option"
  ch_last_probe_time_ms :: "nat option"
  ch_probe_status :: "rstring option"

definition no_health :: channel_health where
  "no_health = \<lparr>ch_last_message_time_ms = None, ch_last_event_time_ms = None, ch_reconnect_attempt_count = 0,
     ch_connected_since_ms = None, ch_last_probe_time_ms = None, ch_probe_status = None\<rparr>"

definition mark_event :: "nat \<Rightarrow> channel_health \<Rightarrow> channel_health" where
  "mark_event t h = h\<lparr>ch_last_event_time_ms := Some t\<rparr>"

definition mark_send :: "bool \<Rightarrow> nat \<Rightarrow> channel_health \<Rightarrow> channel_health" where
  "mark_send success t h =
     (if success
      then h\<lparr>ch_last_message_time_ms := Some t,
             ch_connected_since_ms := (case ch_connected_since_ms h of None \<Rightarrow> Some t | Some c \<Rightarrow> Some c)\<rparr>
      else h\<lparr>ch_reconnect_attempt_count := sat_add (ch_reconnect_attempt_count h) 1\<rparr>)"

definition mark_probe :: "rstring \<Rightarrow> nat \<Rightarrow> channel_health \<Rightarrow> channel_health" where
  "mark_probe status t h = h\<lparr>ch_last_probe_time_ms := Some t, ch_probe_status := Some status\<rparr>"

record delivery_state =
  ds_dedupe :: "rstring \<rightharpoonup> nat"
  ds_threads :: "rstring set"
  ds_metrics :: "rstring \<rightharpoonup> send_metrics"
  ds_health :: "rstring \<rightharpoonup> channel_health"

text \<open>\<^verbatim>\<open>entry(key).or_default()\<close> and a change of the entry.\<close>

definition alter_entry :: "'v \<Rightarrow> 'k \<Rightarrow> ('v \<Rightarrow> 'v) \<Rightarrow> ('k \<rightharpoonup> 'v) \<Rightarrow> ('k \<rightharpoonup> 'v)" where
  "alter_entry dflt k f m = m(k \<mapsto> f (case m k of Some v \<Rightarrow> v | None \<Rightarrow> dflt))"

definition for_platform_and_all :: "'v \<Rightarrow> rstring \<Rightarrow> ('v \<Rightarrow> 'v) \<Rightarrow> (rstring \<rightharpoonup> 'v) \<Rightarrow> (rstring \<rightharpoonup> 'v)" where
  "for_platform_and_all dflt channel f m = alter_entry dflt (lit ''*'') f (alter_entry dflt (platform_of channel) f m)"

definition record_channel_probe :: "nat \<Rightarrow> rstring \<Rightarrow> rstring \<Rightarrow> delivery_state \<Rightarrow> delivery_state" where
  "record_channel_probe now platform status st =
     (let platform = to_ascii_lowercase (trim platform) in
      if platform = [] then st else st\<lparr>ds_health := alter_entry no_health platform (mark_probe status now) (ds_health st)\<rparr>)"

definition record_channel_event :: "nat \<Rightarrow> rstring \<Rightarrow> delivery_state \<Rightarrow> delivery_state" where
  "record_channel_event now channel st =
     st\<lparr>ds_health := for_platform_and_all no_health channel (mark_event now) (ds_health st)\<rparr>"

definition record_send_metrics :: "nat \<Rightarrow> rstring \<Rightarrow> bool \<Rightarrow> nat \<Rightarrow> delivery_state \<Rightarrow> delivery_state" where
  "record_send_metrics now channel success latency st =
     st\<lparr>ds_metrics := for_platform_and_all no_metrics channel (count_send success latency) (ds_metrics st),
        ds_health := for_platform_and_all no_health channel (mark_send success now) (ds_health st)\<rparr>"

section \<open>Duplicates\<close>

definition DEDUPE_TTL_MS :: nat where
  "DEDUPE_TTL_MS = 10 * 60 * 1000"

definition should_drop_duplicate :: "nat \<Rightarrow> rstring option \<Rightarrow> delivery_state \<Rightarrow> bool \<times> delivery_state" where
  "should_drop_duplicate now event_key st =
     (case event_key of
        None \<Rightarrow> (False, st)
      | Some key \<Rightarrow>
          (let cache = (\<lambda>k. case ds_dedupe st k of Some ts \<Rightarrow> if now - ts \<le> DEDUPE_TTL_MS then Some ts else None | None \<Rightarrow> None) in
           if cache key \<noteq> None then (True, st\<lparr>ds_dedupe := cache\<rparr>)
           else (False, st\<lparr>ds_dedupe := cache(key \<mapsto> now)\<rparr>)))"

section \<open>Sending\<close>

definition nonblank :: "rstring option \<Rightarrow> rstring option" where
  "nonblank v = (case v of None \<Rightarrow> None | Some s \<Rightarrow> if trim s = [] then None else Some (trim s))"

definition thread_tracking_key :: "rstring \<Rightarrow> rstring option \<Rightarrow> rstring option \<Rightarrow> rstring option" where
  "thread_tracking_key channel thread_id reply_target =
     map_option (\<lambda>t. channel @ lit ''::'' @ t) (case nonblank thread_id of Some t \<Rightarrow> Some t | None \<Rightarrow> nonblank reply_target)"

datatype send_outcome = Delivered | DeliveryFailed rstring | SendTimeout

record send_call =
  sc_channel :: rstring
  sc_text :: rstring
  sc_thread_id :: "rstring option"
  sc_reply_target :: "rstring option"
  sc_config_id :: "rstring option"
  sc_operation_id :: rstring

record dead_letter =
  dl_call :: send_call
  dl_attempts :: nat
  dl_error :: rstring

datatype delivery_event = Called send_call send_outcome | Slept nat | DeadLettered dead_letter

text \<open>The world outside: its answer to a call with the time it took, the clock, and new identifiers.\<close>

record 'w delivery_env =
  de_send :: "send_call \<Rightarrow> 'w \<Rightarrow> (send_outcome \<times> nat) \<times> 'w"
  de_now :: "'w \<Rightarrow> nat"
  de_new_id :: "'w \<Rightarrow> rstring \<times> 'w"

text \<open>The shift is that of a release build, where the distance is taken modulo 64.\<close>

definition backoff_for :: "nat \<Rightarrow> nat \<Rightarrow> nat" where
  "backoff_for base attempt = min (sat_mul base (2 ^ ((attempt - 1) mod 64))) 5000"

definition failure_text :: "nat \<Rightarrow> send_outcome \<Rightarrow> rstring" where
  "failure_text timeout_ms outcome =
     (case outcome of
        DeliveryFailed e \<Rightarrow> e
      | _ \<Rightarrow> lit ''send timeout after '' @ show_nat timeout_ms @ lit ''ms'')"

definition chunk_error :: "nat \<Rightarrow> nat \<Rightarrow> send_outcome \<Rightarrow> rstring \<Rightarrow> rstring" where
  "chunk_error i total_chunks outcome e =
     (if total_chunks > 1
      then lit ''chunk '' @ show_nat (i + 1) @ lit ''/'' @ show_nat total_chunks @
           (case outcome of DeliveryFailed _ \<Rightarrow> lit '' failed: '' | _ \<Rightarrow> lit '' timeout: '') @ e
      else e)"

text \<open>The attempts for one chunk: \<open>left\<close> more after this one.  \<open>mark\<close> is the key to be remembered after a success.\<close>

fun attempt_loop ::
    "'w delivery_env \<Rightarrow> nat \<Rightarrow> nat \<Rightarrow> nat \<times> nat \<Rightarrow> send_call \<Rightarrow> rstring option \<Rightarrow> nat \<Rightarrow> nat \<Rightarrow> 'w \<times> delivery_state \<Rightarrow>
     (rstring, unit) result \<times> ('w \<times> delivery_state) \<times> delivery_event list" where
  "attempt_loop env timeout_ms base (i, n) call mark left attempt (w, st) =
     (let ((outcome, latency), w) = de_send env call w;
          st = record_send_metrics (de_now env w) (sc_channel call) (outcome = Delivered) latency st in
      if outcome = Delivered
      then (Ok (), (w, case mark of None \<Rightarrow> st | Some key \<Rightarrow> st\<lparr>ds_threads := insert key (ds_threads st)\<rparr>), [Called call outcome])
      else
        (let err = failure_text timeout_ms outcome in
         case left of
           0 \<Rightarrow> (Err err, (w, st),
                 [Called call outcome,
                  DeadLettered \<lparr>dl_call = call, dl_attempts = attempt, dl_error = chunk_error i n outcome err\<rparr>])
         | Suc left' \<Rightarrow>
             (case attempt_loop env timeout_ms base (i, n) call mark left' (attempt + 1) (w, st) of
                (r, s, evs) \<Rightarrow> (r, s, Called call outcome # Slept (backoff_for base attempt) # evs))))"

record send_job =
  sj_channel :: rstring
  sj_thread_id :: "rstring option"
  sj_reply_target :: "rstring option"
  sj_config_id :: "rstring option"
  sj_policy :: channel_send_policy
  sj_max_attempts :: nat
  sj_first_threading :: bool
  sj_thread_key :: "rstring option"
  sj_total :: nat

fun send_loop ::
    "'w delivery_env \<Rightarrow> send_job \<Rightarrow> nat \<Rightarrow> rstring list \<Rightarrow> 'w \<times> delivery_state \<Rightarrow>
     (rstring, unit) result \<times> ('w \<times> delivery_state) \<times> delivery_event list" where
  "send_loop env job i [] s = (Ok (), s, [])"
| "send_loop env job i (chunk # chunks) (w, st) =
     (let include = (case sp_threading (sj_policy job) of
                       ThreadingOff \<Rightarrow> False | ThreadingAll \<Rightarrow> True | ThreadingFirst \<Rightarrow> sj_first_threading job \<and> i = 0);
          (op_id, w) = de_new_id env w;
          call = \<lparr>sc_channel = sj_channel job, sc_text = chunk, sc_thread_id = (if include then sj_thread_id job else None),
                  sc_reply_target = (if include then sj_reply_target job else None), sc_config_id = sj_config_id job,
                  sc_operation_id = op_id\<rparr>;
          mark = (if sp_threading (sj_policy job) = ThreadingFirst \<and> include then sj_thread_key job else None)
      in case attempt_loop env (sp_timeout_ms (sj_policy job)) (max (sp_backoff_ms (sj_policy job)) 1) (i, sj_total job) call mark
                (sj_max_attempts job - 1) 1 (w, st) of
           (Inl e, s, evs) \<Rightarrow> (Err e, s, evs)
         | (Inr _, s, evs) \<Rightarrow> (case send_loop env job (i + 1) chunks s of (r, s', evs') \<Rightarrow> (r, s', evs @ evs')))"

definition chunk_texts :: "channel_send_policy \<Rightarrow> rstring \<Rightarrow> rstring \<Rightarrow> rstring list option" where
  "chunk_texts policy channel s =
     (if sp_auto_chunk policy
      then map_option (map mc_text)
        (chunk_message_for_channel s channel
          (if sp_chunk_max_chars policy > 0 then Some (sp_chunk_max_chars policy) else None) (sp_chunk_overlap_chars policy))
      else Some [s])"

definition send_with_retry ::
    "'w delivery_env \<Rightarrow> send_policy_config \<Rightarrow> rstring \<Rightarrow> rstring \<Rightarrow> nat option \<Rightarrow> rstring option \<Rightarrow> rstring option \<Rightarrow> rstring option \<Rightarrow>
     'w \<times> delivery_state \<Rightarrow> ((rstring, unit) result \<times> ('w \<times> delivery_state) \<times> delivery_event list) option" where
  "send_with_retry env cfg channel s attempt_override thread_id reply_target config_id = (\<lambda>(w, st).
     (let policy = resolve_send_policy cfg channel;
          key = thread_tracking_key channel thread_id reply_target;
          include_first = (case sp_threading policy of
                             ThreadingOff \<Rightarrow> False | ThreadingAll \<Rightarrow> True
                           | ThreadingFirst \<Rightarrow> (case key of Some k \<Rightarrow> k \<notin> ds_threads st | None \<Rightarrow> False))
      in map_option (\<lambda>chunks.
           send_loop env
             \<lparr>sj_channel = channel, sj_thread_id = thread_id, sj_reply_target = reply_target, sj_config_id = config_id,
              sj_policy = policy,
              sj_max_attempts = max (case attempt_override of Some n \<Rightarrow> n | None \<Rightarrow> sp_retry_count policy) 1,
              sj_first_threading = include_first, sj_thread_key = key, sj_total = length chunks\<rparr> 0 chunks (w, st))
           (chunk_texts policy channel s)))"

section \<open>Sending questions\<close>

text \<open>\<^verbatim>\<open>send_approval_with_retry\<close>: the pauses grow by the same amount each time and are not capped.\<close>

fun approval_loop ::
    "'w delivery_env \<Rightarrow> channel_send_policy \<Rightarrow> send_call \<Rightarrow> nat \<Rightarrow> nat \<Rightarrow> 'w \<times> delivery_state \<Rightarrow>
     (rstring, unit) result \<times> ('w \<times> delivery_state) \<times> delivery_event list" where
  "approval_loop env policy call left attempt (w, st) =
     (let ((outcome, latency), w) = de_send env call w;
          st = record_send_metrics (de_now env w) (sc_channel call) (outcome = Delivered) latency st in
      if outcome = Delivered then (Ok (), (w, st), [Called call outcome])
      else
        (let err = (case outcome of
                      DeliveryFailed e \<Rightarrow> e
                    | _ \<Rightarrow> lit ''approval send timeout after '' @ show_nat (sp_timeout_ms policy) @ lit ''ms'') in
         case left of
           0 \<Rightarrow> (Err err, (w, st), [Called call outcome, DeadLettered \<lparr>dl_call = call, dl_attempts = attempt, dl_error = err\<rparr>])
         | Suc left' \<Rightarrow>
             (case approval_loop env policy call left' (attempt + 1) (w, st) of
                (r, s, evs) \<Rightarrow>
                  (r, s, Called call outcome # Slept (sat_mul (max (sp_backoff_ms policy) 1) attempt) # evs))))"

definition send_approval_with_retry ::
    "'w delivery_env \<Rightarrow> send_policy_config \<Rightarrow> send_call \<Rightarrow> nat option \<Rightarrow> 'w \<times> delivery_state \<Rightarrow>
     (rstring, unit) result \<times> ('w \<times> delivery_state) \<times> delivery_event list" where
  "send_approval_with_retry env cfg call attempt_override s =
     (let policy = resolve_send_policy cfg (sc_channel call) in
      approval_loop env policy call
        (max (case attempt_override of Some n \<Rightarrow> n | None \<Rightarrow> sp_retry_count policy) 1 - 1) 1 s)"

declare attempt_loop.simps [simp del] approval_loop.simps [simp del]

section \<open>What is delivered\<close>

fun delivered_text :: "delivery_event \<Rightarrow> rstring option" where
  "delivered_text (Called c Delivered) = Some (sc_text c)"
| "delivered_text _ = None"

fun dead_letter_of :: "delivery_event \<Rightarrow> dead_letter option" where
  "dead_letter_of (DeadLettered d) = Some d"
| "dead_letter_of _ = None"

fun call_of :: "delivery_event \<Rightarrow> send_call option" where
  "call_of (Called c _) = Some c"
| "call_of _ = None"

definition delivered :: "delivery_event list \<Rightarrow> rstring list" where
  "delivered evs = filter_map delivered_text evs"

definition dead_letters :: "delivery_event list \<Rightarrow> dead_letter list" where
  "dead_letters evs = filter_map dead_letter_of evs"

definition calls :: "delivery_event list \<Rightarrow> send_call list" where
  "calls evs = filter_map call_of evs"

lemma event_append [simp]:
  "delivered (xs @ ys) = delivered xs @ delivered ys"
  "dead_letters (xs @ ys) = dead_letters xs @ dead_letters ys"
  "calls (xs @ ys) = calls xs @ calls ys"
  by (simp_all add: delivered_def dead_letters_def calls_def filter_map_append)

lemma event_Cons [simp]:
  "delivered (e # evs) = (case delivered_text e of None \<Rightarrow> [] | Some t \<Rightarrow> [t]) @ delivered evs"
  "dead_letters (e # evs) = (case dead_letter_of e of None \<Rightarrow> [] | Some d \<Rightarrow> [d]) @ dead_letters evs"
  "calls (e # evs) = (case call_of e of None \<Rightarrow> [] | Some c \<Rightarrow> [c]) @ calls evs"
  by (simp_all add: delivered_def dead_letters_def calls_def split: option.splits)

lemma event_Nil [simp]: "delivered [] = []" "dead_letters [] = []" "calls [] = []"
  by (simp_all add: delivered_def dead_letters_def calls_def)

lemma delivered_other: "outcome \<noteq> Delivered \<Longrightarrow> delivered_text (Called c outcome) = None"
  by (cases outcome) auto

definition bounded_pauses :: "delivery_event list \<Rightarrow> bool" where
  "bounded_pauses evs \<longleftrightarrow> (\<forall>n. Slept n \<in> set evs \<longrightarrow> n \<le> 5000)"

lemma backoff_le: "backoff_for base attempt \<le> 5000"
  by (simp add: backoff_for_def)

text \<open>One chunk: either the last call delivers it, or all attempts are used up and it is put aside.\<close>

lemma attempt_loop_spec:
  "attempt_loop env timeout_ms base ix call mark left attempt s = (r, s', evs) \<Longrightarrow>
   set (calls evs) = {call} \<and> length (calls evs) \<le> Suc left \<and> bounded_pauses evs \<and>
   (case r of
      Inr _ \<Rightarrow> delivered evs = [sc_text call] \<and> dead_letters evs = []
    | Inl _ \<Rightarrow> delivered evs = [] \<and> length (calls evs) = Suc left \<and>
        (\<exists>d. dead_letters evs = [d] \<and> dl_call d = call \<and> dl_attempts d = attempt + left))"
proof (induction left arbitrary: attempt s r s' evs)
  case 0
  obtain i n w st where "ix = (i, n)" "s = (w, st)" by (metis surj_pair)
  with 0 show ?case
    by (auto simp: attempt_loop.simps Let_def bounded_pauses_def delivered_other split: prod.splits if_splits)
next
  case (Suc left)
  obtain i n w st where p: "ix = (i, n)" "s = (w, st)" by (metis surj_pair)
  obtain outcome latency w1 where se: "de_send env call w = ((outcome, latency), w1)" by (metis surj_pair)
  let ?st = "record_send_metrics (de_now env w1) (sc_channel call) (outcome = Delivered) latency st"
  show ?case
  proof (cases "outcome = Delivered")
    case True
    with Suc.prems p se show ?thesis by (auto simp: attempt_loop.simps Let_def bounded_pauses_def)
  next
    case False
    obtain r1 s1 evs1 where l: "attempt_loop env timeout_ms base ix call mark left (attempt + 1) (w1, ?st) = (r1, s1, evs1)"
      by (metis surj_pair)
    from Suc.prems have "r = r1" "evs = Called call outcome # Slept (backoff_for base attempt) # evs1"
      using False p se l by (simp_all add: attempt_loop.simps Let_def)
    with Suc.IH [OF l] False show ?thesis
      by (auto simp: bounded_pauses_def backoff_le delivered_other split: sum.splits)
  qed
qed

text \<open>All chunks: they are delivered in order, and a chunk that cannot be delivered is put aside and ends the work.\<close>

definition delivery_account ::
    "nat \<Rightarrow> rstring \<Rightarrow> rstring list \<Rightarrow> (rstring, unit) result \<Rightarrow> delivery_event list \<Rightarrow> bool" where
  "delivery_account attempts channel chunks r evs \<longleftrightarrow>
     length (calls evs) \<le> attempts * length chunks \<and> bounded_pauses evs \<and>
     (\<forall>c \<in> set (calls evs). sc_channel c = channel \<and> sc_text c \<in> set chunks) \<and>
     (case r of
        Inr _ \<Rightarrow> delivered evs = chunks \<and> dead_letters evs = []
      | Inl _ \<Rightarrow> (\<exists>k < length chunks. delivered evs = take k chunks \<and>
          (\<exists>d. dead_letters evs = [d] \<and> sc_text (dl_call d) = chunks ! k \<and> dl_attempts d = attempts)))"

lemma account_Cons:
  assumes "delivery_account n channel chunks r evs2" and "set (calls evs1) = {c}" "sc_text c = chunk" "sc_channel c = channel"
    and "length (calls evs1) \<le> n" "bounded_pauses evs1" "delivered evs1 = [chunk]" "dead_letters evs1 = []"
  shows "delivery_account n channel (chunk # chunks) r (evs1 @ evs2)"
proof -
  have "bounded_pauses (evs1 @ evs2)" using assms(1,6) by (auto simp: delivery_account_def bounded_pauses_def)
  moreover have "case r of
        Inr _ \<Rightarrow> delivered (evs1 @ evs2) = chunk # chunks \<and> dead_letters (evs1 @ evs2) = []
      | Inl _ \<Rightarrow> (\<exists>k < length (chunk # chunks). delivered (evs1 @ evs2) = take k (chunk # chunks) \<and>
          (\<exists>d. dead_letters (evs1 @ evs2) = [d] \<and> sc_text (dl_call d) = (chunk # chunks) ! k \<and> dl_attempts d = n))"
  proof (cases r)
    case (Inl e)
    with assms(1) obtain k d where "k < length chunks" "delivered evs2 = take k chunks" "dead_letters evs2 = [d]"
      "sc_text (dl_call d) = chunks ! k" "dl_attempts d = n" by (auto simp: delivery_account_def)
    with Inl assms(7,8) show ?thesis by (auto intro!: exI [of _ "Suc k"])
  qed (use assms(1,7,8) in \<open>auto simp: delivery_account_def\<close>)
  ultimately show ?thesis using assms by (auto simp: delivery_account_def)
qed

lemma account_failed:
  assumes "set (calls evs) = {c}" "sc_text c = chunk" "sc_channel c = channel" "length (calls evs) \<le> n" "bounded_pauses evs"
    and "delivered evs = []" "dead_letters evs = [d]" "dl_call d = c" "dl_attempts d = n"
  shows "delivery_account n channel (chunk # chunks) (Inl e) evs"
proof -
  have "0 < length (chunk # chunks) \<and> delivered evs = take 0 (chunk # chunks) \<and>
      (\<exists>d. dead_letters evs = [d] \<and> sc_text (dl_call d) = (chunk # chunks) ! 0 \<and> dl_attempts d = n)" using assms by simp
  then have "\<exists>k < length (chunk # chunks). delivered evs = take k (chunk # chunks) \<and>
      (\<exists>d. dead_letters evs = [d] \<and> sc_text (dl_call d) = (chunk # chunks) ! k \<and> dl_attempts d = n)" by blast
  with assms(1-5) show ?thesis by (simp add: delivery_account_def)
qed

lemma chunk_loop_spec:
  "send_loop env job i chunks s = (r, s', evs) \<Longrightarrow> 0 < sj_max_attempts job \<Longrightarrow>
   delivery_account (sj_max_attempts job) (sj_channel job) chunks r evs"
proof (induction chunks arbitrary: i s r s' evs)
  case Nil
  then show ?case by (auto simp: bounded_pauses_def delivery_account_def)
next
  case (Cons chunk chunks)
  obtain w st where s: "s = (w, st)" by force
  obtain op_id w1 where id: "de_new_id env w = (op_id, w1)" by force
  let ?inc = "case sp_threading (sj_policy job) of
       ThreadingOff \<Rightarrow> False | ThreadingAll \<Rightarrow> True | ThreadingFirst \<Rightarrow> sj_first_threading job \<and> i = 0"
  let ?call = "\<lparr>sc_channel = sj_channel job, sc_text = chunk, sc_thread_id = (if ?inc then sj_thread_id job else None),
     sc_reply_target = (if ?inc then sj_reply_target job else None), sc_config_id = sj_config_id job, sc_operation_id = op_id\<rparr>"
  let ?mark = "if sp_threading (sj_policy job) = ThreadingFirst \<and> ?inc then sj_thread_key job else None"
  obtain r1 s1 evs1 where l: "attempt_loop env (sp_timeout_ms (sj_policy job)) (max (sp_backoff_ms (sj_policy job)) 1)
      (i, sj_total job) ?call ?mark (sj_max_attempts job - 1) 1 (w1, st) = (r1, s1, evs1)" by (metis surj_pair)
  note a = attempt_loop_spec [OF l]
  have n: "Suc (sj_max_attempts job - 1) = sj_max_attempts job" using Cons.prems(2) by simp
  show ?case
  proof (cases r1)
    case (Inl e)
    with Cons.prems(1) s id l have "r = Inl e" "evs = evs1" by (auto simp: Let_def)
    moreover from a Inl n obtain d where "dead_letters evs1 = [d]" "dl_call d = ?call" "dl_attempts d = sj_max_attempts job"
      "delivered evs1 = []" "bounded_pauses evs1" "set (calls evs1) = {?call}" "length (calls evs1) \<le> sj_max_attempts job" by auto
    ultimately show ?thesis using account_failed [of evs1 ?call] by simp
  next
    case (Inr u)
    obtain r2 s2 evs2 where c: "send_loop env job (i + 1) chunks s1 = (r2, s2, evs2)" by (metis surj_pair)
    from Cons.prems(1) s id l Inr c have "r = r2" "evs = evs1 @ evs2" by (auto simp: Let_def)
    with account_Cons [OF Cons.IH [OF c Cons.prems(2)], of evs1 ?call] a Inr n show ?thesis by simp
  qed
qed


definition sample_policy :: send_policy_config where
  "sample_policy = \<lparr>spc_default = default_channel_send_policy, spc_channels = Map.empty\<rparr>"

definition no_deliveries :: delivery_state where
  "no_deliveries = \<lparr>ds_dedupe = Map.empty, ds_threads = {}, ds_metrics = Map.empty, ds_health = Map.empty\<rparr>"

text \<open>A channel that refuses every second call.\<close>

definition moody_env :: "nat delivery_env" where
  "moody_env = \<lparr>de_send = (\<lambda>c w. ((if even w then DeliveryFailed (lit ''busy'') else Delivered, 0), w + 1)), de_now = (\<lambda>w. w),
     de_new_id = (\<lambda>w. (show_nat w, w))\<rparr>"


text \<open>The distance of the shift in the pause wraps: after 64 attempts the pauses start again from the first one.\<close>

lemma backoff_starts_again: "1 \<le> a \<Longrightarrow> backoff_for base (a + 64) = backoff_for base a"
proof -
  assume "1 \<le> a"
  then have "(a + 64 - 1) mod 64 = (a - 1) mod 64" by (simp add: mod_add_self2 flip: add_diff_assoc2 del: diff_Suc_1)
  then show ?thesis by (simp only: backoff_for_def)
qed

lemma metrics_add_up:
  "sm_attempts m < usize_max \<Longrightarrow> sm_attempts m = sm_success m + sm_failed m \<Longrightarrow>
   sm_attempts (count_send success latency m) = sm_success (count_send success latency m) + sm_failed (count_send success latency m)"
  by (auto simp: count_send_def Let_def sat_add_exact)

text \<open>A key that passed stays known for the whole time to live, whatever else is looked up in between.\<close>

fun look_up_all :: "(nat \<times> rstring option) list \<Rightarrow> delivery_state \<Rightarrow> delivery_state" where
  "look_up_all [] st = st"
| "look_up_all ((now, key) # es) st = look_up_all es (snd (should_drop_duplicate now key st))"

lemma known_key_stays:
  "ds_dedupe st key = Some t \<Longrightarrow> \<forall>(now, _) \<in> set es. now \<le> t + DEDUPE_TTL_MS \<Longrightarrow> ds_dedupe (look_up_all es st) key = Some t"
proof (induction es arbitrary: st)
  case (Cons e es)
  obtain now k where e: "e = (now, k)" by force
  have "ds_dedupe (snd (should_drop_duplicate now k st)) key = Some t"
    using Cons.prems e by (auto simp: should_drop_duplicate_def Let_def split: option.splits)
  with Cons e show ?case by simp
qed simp

lemma duplicate_within_ttl_is_dropped:
  assumes "should_drop_duplicate t (Some key) st = (False, st1)"
    and "\<forall>(now, _) \<in> set es. now \<le> t + DEDUPE_TTL_MS" and "t2 \<le> t + DEDUPE_TTL_MS"
  shows "fst (should_drop_duplicate t2 (Some key) (look_up_all es st1))"
proof -
  have "ds_dedupe st1 key = Some t" using assms(1) by (auto simp: should_drop_duplicate_def Let_def split: if_splits)
  from known_key_stays [OF this assms(2)] assms(3) show ?thesis by (simp add: should_drop_duplicate_def Let_def)
qed

lemma approval_loop_spec:
  "approval_loop env policy call left attempt s = (r, s', evs) \<Longrightarrow>
   set (calls evs) = {call} \<and> length (calls evs) \<le> Suc left \<and>
   (case r of
      Inr _ \<Rightarrow> delivered evs = [sc_text call] \<and> dead_letters evs = []
    | Inl _ \<Rightarrow> delivered evs = [] \<and> (\<exists>d. dead_letters evs = [d] \<and> dl_call d = call \<and> dl_attempts d = attempt + left))"
proof (induction left arbitrary: attempt s r s' evs)
  case 0
  obtain w st where "s = (w, st)" by (metis surj_pair)
  with 0 show ?case by (auto simp: approval_loop.simps Let_def delivered_other split: prod.splits if_splits)
next
  case (Suc left)
  obtain w st where p: "s = (w, st)" by (metis surj_pair)
  obtain outcome latency w1 where se: "de_send env call w = ((outcome, latency), w1)" by (metis surj_pair)
  let ?st = "record_send_metrics (de_now env w1) (sc_channel call) (outcome = Delivered) latency st"
  obtain r1 s1 evs1 where l: "approval_loop env policy call left (attempt + 1) (w1, ?st) = (r1, s1, evs1)"
    by (metis surj_pair)
  show ?case
  proof (cases "outcome = Delivered")
    case True
    with Suc.prems p se show ?thesis by (auto simp: approval_loop.simps Let_def)
  next
    case False
    with Suc.prems p se l have "r = r1"
      "evs = Called call outcome # Slept (sat_mul (max (sp_backoff_ms policy) 1) attempt) # evs1"
      by (simp_all add: approval_loop.simps Let_def)
    with Suc.IH [OF l] False show ?thesis by (auto simp: delivered_other split: sum.splits)
  qed
qed

end
