(* ===== verification/Channel_Coordinator.thy ===== *)
theory Channel_Coordinator
  imports Savfox_Prelude "HOL-Library.Multiset" "HOL-Library.AList"
begin

text \<open>
  Admission and execution of messages from chats: \<^verbatim>\<open>gateway-server/src/channels/runtime/coordinator.rs\<close>.

  Each conversation has an actor with an inbox; two semaphores bound what is accepted and what runs in the gateway.  A state is the
  permits that are left, the registry and the actors; a step is what the source does between two points at which it waits.
  Neither semaphore is ever closed, and the task itself is an argument.
\<close>

section \<open>State\<close>

definition SESSION_QUEUE_CAPACITY :: nat where
  "SESSION_QUEUE_CAPACITY = 32"

definition MAX_SESSION_EXECUTIONS :: nat where
  "MAX_SESSION_EXECUTIONS = 2"

definition MAX_GATEWAY_EXECUTIONS :: nat where
  "MAX_GATEWAY_EXECUTIONS = 16"

definition MAX_ACCEPTED_TASKS :: nat where
  "MAX_ACCEPTED_TASKS = 128"

text \<open>
  An actor: its inbox, whether the receiving end is closed, the task that waits for an execution permit, the executions that are under
  way and how many finished ones have not been joined.
\<close>

record 't actor =
  ac_key :: rstring
  ac_queue :: "'t list"
  ac_closed :: bool
  ac_holding :: "'t option"
  ac_active :: "'t list"
  ac_finished :: nat

text \<open>
  The coordinator.  The permits that are left of both semaphores, the registry with the place of an actor in the list of all
  actors there ever were, and the calls of \<^verbatim>\<open>dispatch\<close> that have a permit and wait for the lock.  The last two fields are a record
  of what was promised and what was begun.
\<close>

record 't coordinator =
  co_admission :: nat
  co_execution :: nat
  co_inboxes :: "(rstring \<times> nat) list"
  co_actors :: "'t actor list"
  co_waiting :: "(rstring \<times> 't) list"
  co_accepted :: "'t multiset"
  co_started :: "'t multiset"

record limits =
  lm_accepted :: nat
  lm_executions :: nat
  lm_session_executions :: nat
  lm_queue_capacity :: nat
  lm_max_actors :: nat

definition coordinator_limits :: "nat \<Rightarrow> nat \<Rightarrow> nat \<Rightarrow> limits" where
  "coordinator_limits accepted executions session_executions =
     \<lparr>lm_accepted = accepted, lm_executions = executions, lm_session_executions = session_executions,
      lm_queue_capacity = SESSION_QUEUE_CAPACITY, lm_max_actors = accepted\<rparr>"

definition gateway_limits :: limits where
  "gateway_limits = coordinator_limits MAX_ACCEPTED_TASKS MAX_GATEWAY_EXECUTIONS MAX_SESSION_EXECUTIONS"

definition coordinator_new :: "limits \<Rightarrow> 't coordinator" where
  "coordinator_new lm =
     \<lparr>co_admission = lm_accepted lm, co_execution = lm_executions lm, co_inboxes = [], co_actors = [], co_waiting = [],
      co_accepted = {#}, co_started = {#}\<rparr>"

section \<open>Dispatch\<close>

text \<open>Taking a permit; no permit, and the task is refused.\<close>

definition try_admit :: "rstring \<Rightarrow> 't \<Rightarrow> 't coordinator \<Rightarrow> bool \<times> 't coordinator" where
  "try_admit key task co =
     (if co_admission co = 0 then (False, co)
      else (True, co\<lparr>co_admission := co_admission co - 1, co_waiting := co_waiting co @ [(key, task)]\<rparr>))"

definition new_actor :: "rstring \<Rightarrow> 't \<Rightarrow> 't actor" where
  "new_actor key task = \<lparr>ac_key = key, ac_queue = [task], ac_closed = False, ac_holding = None, ac_active = [], ac_finished = 0\<rparr>"

text \<open>The region under the lock, for a call that has its permit; a refused task gives it back.\<close>

definition open_inbox :: "limits \<Rightarrow> rstring \<Rightarrow> 't \<Rightarrow> 't coordinator \<Rightarrow> bool \<times> 't coordinator" where
  "open_inbox lm key task co =
     (if map_of (co_inboxes co) key = None \<and> length (co_inboxes co) \<ge> lm_max_actors lm
      then (False, co\<lparr>co_admission := co_admission co + 1\<rparr>)
      else (True, co\<lparr>co_inboxes := AList.update key (length (co_actors co)) (co_inboxes co),
                     co_actors := co_actors co @ [new_actor key task], co_accepted := add_mset task (co_accepted co)\<rparr>))"

definition enter_registry :: "limits \<Rightarrow> rstring \<Rightarrow> 't \<Rightarrow> 't coordinator \<Rightarrow> bool \<times> 't coordinator" where
  "enter_registry lm key task co =
     (case map_of (co_inboxes co) key of
        Some i \<Rightarrow>
          (let a = co_actors co ! i in
           if ac_closed a then open_inbox lm key task co
           else if length (ac_queue a) < lm_queue_capacity lm
           then (True, co\<lparr>co_actors := (co_actors co)[i := a\<lparr>ac_queue := ac_queue a @ [task]\<rparr>],
                          co_accepted := add_mset task (co_accepted co)\<rparr>)
           else (False, co\<lparr>co_admission := co_admission co + 1\<rparr>))
      | None \<Rightarrow> open_inbox lm key task co)"

definition leave_waiting :: "rstring \<Rightarrow> 't \<Rightarrow> 't coordinator \<Rightarrow> 't coordinator" where
  "leave_waiting key task co = co\<lparr>co_waiting := remove1 (key, task) (co_waiting co)\<rparr>"

definition dispatch_locked :: "limits \<Rightarrow> rstring \<Rightarrow> 't \<Rightarrow> 't coordinator \<Rightarrow> bool \<times> 't coordinator" where
  "dispatch_locked lm key task co = enter_registry lm key task (leave_waiting key task co)"

section \<open>Actors\<close>

definition running_len :: "'t actor \<Rightarrow> nat" where
  "running_len a = length (ac_active a) + ac_finished a"

definition set_actor :: "nat \<Rightarrow> 't actor \<Rightarrow> 't coordinator \<Rightarrow> 't coordinator" where
  "set_actor i a co = co\<lparr>co_actors := (co_actors co)[i := a]\<rparr>"

text \<open>\<^verbatim>\<open>retire_if_idle\<close>, for an actor with nothing under way; \<open>None\<close> when there is work in the inbox.\<close>

definition retire_if_idle :: "nat \<Rightarrow> 't coordinator \<Rightarrow> 't coordinator option" where
  "retire_if_idle i co =
     (let a = co_actors co ! i in
      if ac_closed a \<or> ac_holding a \<noteq> None \<or> running_len a > 0 \<or> ac_queue a \<noteq> [] then None
      else Some ((set_actor i (a\<lparr>ac_closed := True\<rparr>) co)
        \<lparr>co_inboxes := (if map_of (co_inboxes co) (ac_key a) = Some i then AList.delete (ac_key a) (co_inboxes co)
                        else co_inboxes co)\<rparr>))"

definition receive :: "limits \<Rightarrow> nat \<Rightarrow> 't coordinator \<Rightarrow> 't coordinator option" where
  "receive lm i co =
     (let a = co_actors co ! i in
      if ac_closed a \<or> ac_holding a \<noteq> None \<or> \<not> (running_len a = 0 \<or> running_len a < lm_session_executions lm) then None
      else case ac_queue a of
        [] \<Rightarrow> None
      | t # ts \<Rightarrow> Some (set_actor i (a\<lparr>ac_queue := ts, ac_holding := Some t\<rparr>) co))"

definition start_execution :: "nat \<Rightarrow> 't coordinator \<Rightarrow> 't coordinator option" where
  "start_execution i co =
     (let a = co_actors co ! i in
      case ac_holding a of
        None \<Rightarrow> None
      | Some t \<Rightarrow>
          if co_execution co = 0 then None
          else Some ((set_actor i (a\<lparr>ac_holding := None, ac_active := ac_active a @ [t]\<rparr>) co)
                 \<lparr>co_execution := co_execution co - 1, co_started := add_mset t (co_started co)\<rparr>))"

text \<open>The end of an execution, which gives both permits back.\<close>

definition finish_execution :: "nat \<Rightarrow> nat \<Rightarrow> 't coordinator \<Rightarrow> 't coordinator option" where
  "finish_execution i j co =
     (let a = co_actors co ! i in
      if j < length (ac_active a)
      then Some ((set_actor i (a\<lparr>ac_active := take j (ac_active a) @ drop (Suc j) (ac_active a), ac_finished := ac_finished a + 1\<rparr>) co)
             \<lparr>co_execution := co_execution co + 1, co_admission := co_admission co + 1\<rparr>)
      else None)"

definition join_next :: "nat \<Rightarrow> 't coordinator \<Rightarrow> 't coordinator option" where
  "join_next i co =
     (let a = co_actors co ! i in
      if ac_holding a = None \<and> ac_finished a > 0 then Some (set_actor i (a\<lparr>ac_finished := ac_finished a - 1\<rparr>) co) else None)"

text \<open>What can happen: outside calls, and the work of the actors.\<close>

inductive work_step :: "limits \<Rightarrow> 't coordinator \<Rightarrow> 't coordinator \<Rightarrow> bool" for lm where
  retires: "i < length (co_actors co) \<Longrightarrow> retire_if_idle i co = Some co' \<Longrightarrow> work_step lm co co'"
| receives: "i < length (co_actors co) \<Longrightarrow> receive lm i co = Some co' \<Longrightarrow> work_step lm co co'"
| starts: "i < length (co_actors co) \<Longrightarrow> start_execution i co = Some co' \<Longrightarrow> work_step lm co co'"
| finishes: "i < length (co_actors co) \<Longrightarrow> finish_execution i j co = Some co' \<Longrightarrow> work_step lm co co'"
| joins: "i < length (co_actors co) \<Longrightarrow> join_next i co = Some co' \<Longrightarrow> work_step lm co co'"

inductive coordinator_step :: "limits \<Rightarrow> 't coordinator \<Rightarrow> 't coordinator \<Rightarrow> bool" for lm where
  admits: "try_admit key task co = (accepted, co') \<Longrightarrow> coordinator_step lm co co'"
| registers: "(key, task) \<in> set (co_waiting co) \<Longrightarrow> dispatch_locked lm key task co = (accepted, co') \<Longrightarrow> coordinator_step lm co co'"
| works: "work_step lm co co' \<Longrightarrow> coordinator_step lm co co'"

definition coordinator_reachable :: "limits \<Rightarrow> 't coordinator \<Rightarrow> bool" where
  "coordinator_reachable lm co \<longleftrightarrow> (coordinator_step lm)\<^sup>*\<^sup>* (coordinator_new lm) co"

section \<open>Accounts\<close>

definition actor_load :: "'t actor \<Rightarrow> nat" where
  "actor_load a = length (ac_queue a) + (if ac_holding a = None then 0 else 1) + length (ac_active a)"

definition actor_pending :: "'t actor \<Rightarrow> 't multiset" where
  "actor_pending a = mset (ac_queue a) + (case ac_holding a of None \<Rightarrow> {#} | Some t \<Rightarrow> {#t#})"

definition admitted :: "'t coordinator \<Rightarrow> nat" where
  "admitted co = length (co_waiting co) + sum_list (map actor_load (co_actors co))"

definition executing :: "'t coordinator \<Rightarrow> nat" where
  "executing co = sum_list (map (\<lambda>a. length (ac_active a)) (co_actors co))"

definition executing_for :: "rstring \<Rightarrow> 't coordinator \<Rightarrow> nat" where
  "executing_for key co = sum_list (map (\<lambda>a. if ac_key a = key then length (ac_active a) else 0) (co_actors co))"

definition pending :: "'t coordinator \<Rightarrow> 't multiset" where
  "pending co = sum_list (map actor_pending (co_actors co))"

definition actor_ok :: "limits \<Rightarrow> 't actor \<Rightarrow> bool" where
  "actor_ok lm a \<longleftrightarrow>
     length (ac_queue a) \<le> lm_queue_capacity lm \<and>
     running_len a + (if ac_holding a = None then 0 else 1) \<le> lm_session_executions lm \<and>
     (ac_closed a \<longrightarrow> ac_queue a = [] \<and> ac_holding a = None \<and> ac_active a = [] \<and> ac_finished a = 0)"

definition coordinator_inv :: "limits \<Rightarrow> 't coordinator \<Rightarrow> bool" where
  "coordinator_inv lm co \<longleftrightarrow>
     co_admission co + admitted co = lm_accepted lm \<and>
     co_execution co + executing co = lm_executions lm \<and>
     co_accepted co = co_started co + pending co \<and>
     list_all (actor_ok lm) (co_actors co) \<and>
     distinct (map fst (co_inboxes co)) \<and> length (co_inboxes co) \<le> lm_max_actors lm \<and>
     (\<forall>k i. map_of (co_inboxes co) k = Some i \<longleftrightarrow>
        i < length (co_actors co) \<and> ac_key (co_actors co ! i) = k \<and> \<not> ac_closed (co_actors co ! i))"

lemma sum_list_set:
  fixes f :: "'a \<Rightarrow> 'b :: cancel_comm_monoid_add"
  shows "i < length xs \<Longrightarrow> sum_list (map f (xs[i := v])) + f (xs ! i) = sum_list (map f xs) + f v"
proof (induction xs arbitrary: i)
  case (Cons x xs)
  show ?case
  proof (cases i)
    case (Suc j)
    with Cons have "sum_list (map f (xs[j := v])) + f (xs ! j) = sum_list (map f xs) + f v" by simp
    with Suc show ?thesis by (simp add: add.assoc)
  qed (simp add: add_ac)
qed simp

section \<open>The invariant\<close>

lemma inv_update:
  assumes inv: "coordinator_inv lm co" and i: "i < length (co_actors co)" and a: "a = co_actors co ! i"
    and up: "co_actors co' = (co_actors co)[i := a']" "co_inboxes co' = co_inboxes co"
    and same: "ac_key a' = ac_key a" "ac_closed a' = ac_closed a" and ok: "actor_ok lm a'"
    and adm: "co_admission co' + length (co_waiting co') + actor_load a' = co_admission co + length (co_waiting co) + actor_load a"
    and exe: "co_execution co' + length (ac_active a') = co_execution co + length (ac_active a)"
    and acc: "co_accepted co' + co_started co + actor_pending a = co_accepted co + co_started co' + actor_pending a'"
  shows "coordinator_inv lm co'"
proof -
  note sums = sum_list_set [OF i, of actor_load a'] sum_list_set [OF i, of "\<lambda>a. length (ac_active a)" a']
    and pend = sum_list_set [OF i, of actor_pending a']
  have "co_admission co' + admitted co' = lm_accepted lm" "co_execution co' + executing co' = lm_executions lm"
    using inv adm exe sums unfolding coordinator_inv_def admitted_def executing_def up a by linarith+
  moreover have "co_accepted co' = co_started co' + pending co'"
  proof -
    have "co_accepted co = co_started co + pending co" using inv by (simp add: coordinator_inv_def)
    with acc have "co_accepted co' + actor_pending a = co_started co' + (pending co + actor_pending a')"
      by (simp add: add_ac)
    also have "pending co + actor_pending a' = pending co' + actor_pending a" using pend by (simp add: pending_def up a)
    finally show ?thesis by (simp add: add.assoc [symmetric])
  qed
  moreover have "list_all (actor_ok lm) (co_actors co')"
    using inv ok i unfolding up coordinator_inv_def list_all_length by (auto simp: nth_list_update)
  moreover have "\<forall>k j. map_of (co_inboxes co') k = Some j \<longleftrightarrow>
      j < length (co_actors co') \<and> ac_key (co_actors co' ! j) = k \<and> \<not> ac_closed (co_actors co' ! j)"
    using inv same i a unfolding up coordinator_inv_def by (auto simp: nth_list_update)
  ultimately show ?thesis using inv up(2) by (simp add: coordinator_inv_def)
qed

lemma inv_actor: "coordinator_inv lm co \<Longrightarrow> i < length (co_actors co) \<Longrightarrow> actor_ok lm (co_actors co ! i)"
  by (simp add: coordinator_inv_def list_all_length)

lemma receive_inv:
  assumes "coordinator_inv lm co" "i < length (co_actors co)" "receive lm i co = Some co'" "0 < lm_session_executions lm"
  shows "coordinator_inv lm co'"
proof -
  let ?a = "co_actors co ! i"
  from assms(3) obtain t ts where q: "ac_queue ?a = t # ts" "ac_holding ?a = None" "\<not> ac_closed ?a"
      "running_len ?a = 0 \<or> running_len ?a < lm_session_executions lm"
    and co': "co' = set_actor i (?a\<lparr>ac_queue := ts, ac_holding := Some t\<rparr>) co"
    by (auto simp: receive_def Let_def split: if_splits list.splits)
  let ?a' = "?a\<lparr>ac_queue := ts, ac_holding := Some t\<rparr>"
  have "actor_ok lm ?a'" using inv_actor [OF assms(1,2)] q assms(4) by (auto simp: actor_ok_def running_len_def)
  then show ?thesis
    using inv_update [OF assms(1,2) refl, of co' ?a'] co' q
    by (simp add: set_actor_def actor_load_def actor_pending_def)
qed

lemma start_inv:
  assumes "coordinator_inv lm co" "i < length (co_actors co)" "start_execution i co = Some co'"
  shows "coordinator_inv lm co'"
proof -
  let ?a = "co_actors co ! i"
  from assms(3) obtain t where q: "ac_holding ?a = Some t" "co_execution co \<noteq> 0"
    and co': "co' = (set_actor i (?a\<lparr>ac_holding := None, ac_active := ac_active ?a @ [t]\<rparr>) co)
       \<lparr>co_execution := co_execution co - 1, co_started := add_mset t (co_started co)\<rparr>"
    by (auto simp: start_execution_def Let_def split: if_splits option.splits)
  let ?a' = "?a\<lparr>ac_holding := None, ac_active := ac_active ?a @ [t]\<rparr>"
  have "actor_ok lm ?a'" using inv_actor [OF assms(1,2)] q by (auto simp: actor_ok_def running_len_def)
  then show ?thesis
    using inv_update [OF assms(1,2) refl, of co' ?a'] co' q
    by (simp add: set_actor_def actor_load_def actor_pending_def)
qed

lemma finish_inv:
  assumes "coordinator_inv lm co" "i < length (co_actors co)" "finish_execution i j co = Some co'"
  shows "coordinator_inv lm co'"
proof -
  let ?a = "co_actors co ! i"
  let ?a' = "?a\<lparr>ac_active := take j (ac_active ?a) @ drop (Suc j) (ac_active ?a), ac_finished := ac_finished ?a + 1\<rparr>"
  from assms(3) have j: "j < length (ac_active ?a)"
    and co': "co' = (set_actor i ?a' co)\<lparr>co_execution := co_execution co + 1, co_admission := co_admission co + 1\<rparr>"
    by (auto simp: finish_execution_def Let_def split: if_splits)
  have "actor_ok lm ?a'" using inv_actor [OF assms(1,2)] j by (auto simp: actor_ok_def running_len_def)
  then show ?thesis
    using inv_update [OF assms(1,2) refl, of co' ?a'] co' j
    by (simp add: set_actor_def actor_load_def actor_pending_def)
qed

lemma join_inv:
  assumes "coordinator_inv lm co" "i < length (co_actors co)" "join_next i co = Some co'"
  shows "coordinator_inv lm co'"
proof -
  let ?a = "co_actors co ! i"
  let ?a' = "?a\<lparr>ac_finished := ac_finished ?a - 1\<rparr>"
  from assms(3) have co': "co' = set_actor i ?a' co" by (auto simp: join_next_def Let_def split: if_splits)
  have "actor_ok lm ?a'" using inv_actor [OF assms(1,2)] by (auto simp: actor_ok_def running_len_def)
  then show ?thesis
    using inv_update [OF assms(1,2) refl, of co' ?a'] co' by (simp add: set_actor_def actor_load_def actor_pending_def)
qed

lemma retire_inv:
  assumes inv: "coordinator_inv lm co" and i: "i < length (co_actors co)" and r: "retire_if_idle i co = Some co'"
  shows "coordinator_inv lm co'"
proof -
  let ?a = "co_actors co ! i"
  let ?a' = "?a\<lparr>ac_closed := True\<rparr>"
  from r have idle: "\<not> ac_closed ?a" "ac_holding ?a = None" "ac_queue ?a = []" "ac_active ?a = []" "ac_finished ?a = 0"
    by (auto simp: retire_if_idle_def Let_def running_len_def split: if_splits)
  then have reg: "map_of (co_inboxes co) (ac_key ?a) = Some i" using inv i by (auto simp: coordinator_inv_def)
  have co': "co' = (set_actor i ?a' co)\<lparr>co_inboxes := AList.delete (ac_key ?a) (co_inboxes co)\<rparr>"
    using r idle reg by (simp add: retire_if_idle_def Let_def running_len_def)
  note sums = sum_list_set [OF i, of actor_load ?a'] sum_list_set [OF i, of "\<lambda>a. length (ac_active a)" ?a']
    sum_list_set [OF i, of actor_pending ?a']
  have "admitted co' = admitted co" "executing co' = executing co" "pending co' = pending co"
    using sums by (simp_all add: co' set_actor_def admitted_def executing_def pending_def actor_load_def actor_pending_def)
  moreover have "list_all (actor_ok lm) (co_actors co')"
    using inv idle i unfolding co' coordinator_inv_def list_all_length
    by (auto simp: set_actor_def nth_list_update actor_ok_def running_len_def)
  moreover have "length (co_inboxes co') \<le> lm_max_actors lm" "distinct (map fst (co_inboxes co'))"
    using inv length_delete_le [of "ac_key ?a" "co_inboxes co"] distinct_delete [of "co_inboxes co" "ac_key ?a"]
    by (auto simp: co' coordinator_inv_def)
  moreover have "\<forall>k j. map_of (co_inboxes co') k = Some j \<longleftrightarrow>
      j < length (co_actors co') \<and> ac_key (co_actors co' ! j) = k \<and> \<not> ac_closed (co_actors co' ! j)"
  proof (intro allI)
    fix k j
    have g: "map_of (co_inboxes co) k = Some j \<longleftrightarrow>
        j < length (co_actors co) \<and> ac_key (co_actors co ! j) = k \<and> \<not> ac_closed (co_actors co ! j)"
      using inv by (simp add: coordinator_inv_def)
    show "map_of (co_inboxes co') k = Some j \<longleftrightarrow>
        j < length (co_actors co') \<and> ac_key (co_actors co' ! j) = k \<and> \<not> ac_closed (co_actors co' ! j)"
    proof (cases "j = i")
      case True
      with i g show ?thesis by (auto simp: co' set_actor_def delete_conv)
    next
      case False
      with g reg show ?thesis by (cases "k = ac_key ?a") (auto simp: co' set_actor_def delete_conv)
    qed
  qed
  moreover have "co_admission co' = co_admission co" "co_execution co' = co_execution co" "co_accepted co' = co_accepted co"
    "co_started co' = co_started co" by (simp_all add: co' set_actor_def)
  ultimately show ?thesis using inv by (simp add: coordinator_inv_def)
qed

lemma admit_inv:
  assumes "coordinator_inv lm co" "try_admit key task co = (b, co')"
  shows "coordinator_inv lm co'"
  using assms by (auto simp: try_admit_def coordinator_inv_def admitted_def executing_def pending_def split: if_splits)

lemma length_update_new: "map_of al k = None \<Longrightarrow> length (AList.update k v al) = Suc (length al)"
  by (induction al) (auto split: if_splits)

lemma open_inv:
  assumes inv: "coordinator_inv lm co0" and cap: "0 < lm_queue_capacity lm"
    and w: "(key, task) \<in> set (co_waiting co0)" and co: "co = leave_waiting key task co0"
    and n: "map_of (co_inboxes co) key = None" and o: "open_inbox lm key task co = (b, co')"
  shows "coordinator_inv lm co'"
proof -
  have len: "length (co_waiting co0) = Suc (length (co_waiting co))"
    using w length_remove1 [of "(key, task)" "co_waiting co0"] length_pos_if_in_set [OF w] by (simp add: co leave_waiting_def)
  have acts: "co_actors co = co_actors co0" "co_inboxes co = co_inboxes co0" by (simp_all add: co leave_waiting_def)
  show ?thesis
  proof (cases "length (co_inboxes co) \<ge> lm_max_actors lm")
    case True
    with n o have "co' = co\<lparr>co_admission := co_admission co + 1\<rparr>" by (simp add: open_inbox_def)
    with inv len show ?thesis
      by (auto simp: coordinator_inv_def admitted_def executing_def pending_def co leave_waiting_def)
  next
    case False
    with n o have co': "co' = co\<lparr>co_inboxes := AList.update key (length (co_actors co)) (co_inboxes co),
        co_actors := co_actors co @ [new_actor key task], co_accepted := add_mset task (co_accepted co)\<rparr>"
      by (simp add: open_inbox_def)
    have "\<forall>k j. map_of (co_inboxes co') k = Some j \<longleftrightarrow>
        j < length (co_actors co') \<and> ac_key (co_actors co' ! j) = k \<and> \<not> ac_closed (co_actors co' ! j)"
    proof (intro allI)
      fix k j
      have g: "map_of (co_inboxes co) k = Some j \<longleftrightarrow>
          j < length (co_actors co) \<and> ac_key (co_actors co ! j) = k \<and> \<not> ac_closed (co_actors co ! j)"
        using inv unfolding coordinator_inv_def acts by blast
      have g2: "\<not> (j < length (co_actors co) \<and> ac_key (co_actors co ! j) = key \<and> \<not> ac_closed (co_actors co ! j))"
        using inv n unfolding coordinator_inv_def acts by (metis option.distinct(1))
      show "map_of (co_inboxes co') k = Some j \<longleftrightarrow>
          j < length (co_actors co') \<and> ac_key (co_actors co' ! j) = k \<and> \<not> ac_closed (co_actors co' ! j)"
      proof (cases "j < length (co_actors co)")
        case True
        with g g2 show ?thesis by (cases "k = key") (auto simp: co' update_conv' nth_append)
      next
        case False
        with g show ?thesis by (cases "k = key") (auto simp: co' update_conv' nth_append new_actor_def)
      qed
    qed
    moreover have "length (co_inboxes co') \<le> lm_max_actors lm"
      using False length_update_new [OF n, of "length (co_actors co)"] by (simp add: co')
    moreover have "distinct (map fst (co_inboxes co'))" using inv by (simp add: co' coordinator_inv_def acts distinct_update)
    moreover have "actor_ok lm (new_actor key task)" using cap
      by (simp add: actor_ok_def new_actor_def running_len_def)
    ultimately show ?thesis using inv len
      by (auto simp: coordinator_inv_def admitted_def executing_def pending_def co' acts actor_load_def actor_pending_def new_actor_def
          co leave_waiting_def)
  qed
qed

lemma dispatch_inv:
  assumes inv: "coordinator_inv lm co" and cap: "0 < lm_queue_capacity lm"
    and w: "(key, task) \<in> set (co_waiting co)" and d: "dispatch_locked lm key task co = (b, co')"
  shows "coordinator_inv lm co'"
proof (cases "map_of (co_inboxes co) key")
  case None
  with d have "open_inbox lm key task (leave_waiting key task co) = (b, co')"
    by (simp add: dispatch_locked_def enter_registry_def leave_waiting_def)
  from open_inv [OF inv cap w refl _ this] None show ?thesis by (simp add: leave_waiting_def)
next
  case (Some i)
  let ?co = "leave_waiting key task co" and ?a = "co_actors co ! i"
  have i: "i < length (co_actors co)" "\<not> ac_closed ?a" using inv Some unfolding coordinator_inv_def by blast+
  have len: "length (co_waiting co) = Suc (length (co_waiting ?co))"
    using w length_remove1 [of "(key, task)" "co_waiting co"] length_pos_if_in_set [OF w] by (simp add: leave_waiting_def)
  let ?a' = "?a\<lparr>ac_queue := ac_queue ?a @ [task]\<rparr>"
  show ?thesis
  proof (cases "length (ac_queue ?a) < lm_queue_capacity lm")
    case True
    with d Some i have co': "co' = ?co\<lparr>co_actors := (co_actors ?co)[i := ?a'], co_accepted := add_mset task (co_accepted ?co)\<rparr>"
      by (simp add: dispatch_locked_def enter_registry_def Let_def leave_waiting_def)
    have "actor_ok lm ?a'" using inv_actor [OF inv i(1)] True i(2) by (auto simp: actor_ok_def running_len_def)
    then show ?thesis
      using inv_update [OF inv i(1) refl, of co' ?a'] co' len
      by (simp add: leave_waiting_def actor_load_def actor_pending_def)
  next
    case False
    with d Some i have co': "co' = ?co\<lparr>co_admission := co_admission ?co + 1\<rparr>"
      by (simp add: dispatch_locked_def enter_registry_def Let_def leave_waiting_def)
    show ?thesis
      using inv_update [OF inv i(1) refl, of co' ?a] co' len inv_actor [OF inv i(1)] by (simp add: leave_waiting_def)
  qed
qed

lemma work_inv: "work_step lm co co' \<Longrightarrow> coordinator_inv lm co \<Longrightarrow> 0 < lm_session_executions lm \<Longrightarrow> coordinator_inv lm co'"
  by (induction rule: work_step.induct) (blast intro: retire_inv receive_inv start_inv finish_inv join_inv)+

lemma step_inv:
  "coordinator_step lm co co' \<Longrightarrow> coordinator_inv lm co \<Longrightarrow> 0 < lm_session_executions lm \<Longrightarrow> 0 < lm_queue_capacity lm \<Longrightarrow>
   coordinator_inv lm co'"
  by (induction rule: coordinator_step.induct) (blast intro: admit_inv dispatch_inv work_inv)+

lemma reachable_inv:
  assumes "coordinator_reachable lm co" "0 < lm_session_executions lm" "0 < lm_queue_capacity lm"
  shows "coordinator_inv lm co"
  using assms(1) unfolding coordinator_reachable_def
proof (induction rule: rtranclp_induct)
  case base
  show ?case by (simp add: coordinator_inv_def coordinator_new_def admitted_def executing_def pending_def)
next
  case (step co co')
  with step_inv assms show ?case by blast
qed

lemma sum_at_most_one:
  fixes f :: "'a \<Rightarrow> nat"
  shows "\<forall>i < length xs. \<forall>j < length xs. 0 < f (xs ! i) \<and> 0 < f (xs ! j) \<longrightarrow> i = j \<Longrightarrow> \<forall>x \<in> set xs. f x \<le> b \<Longrightarrow>
    sum_list (map f xs) \<le> b"
proof (induction xs)
  case (Cons x xs)
  have tail: "\<forall>i < length xs. \<forall>j < length xs. 0 < f (xs ! i) \<and> 0 < f (xs ! j) \<longrightarrow> i = j"
  proof (intro allI impI)
    fix i j assume "i < length xs" "j < length xs" "0 < f (xs ! i) \<and> 0 < f (xs ! j)"
    with Cons.prems(1) [rule_format, of "Suc i" "Suc j"] show "i = j" by simp
  qed
  show ?case
  proof (cases "f x = 0")
    case True
    with Cons.IH [OF tail] Cons.prems(2) show ?thesis by simp
  next
    case False
    have "f y = 0" if y: "y \<in> set xs" for y
    proof (rule ccontr)
      assume "f y \<noteq> 0"
      moreover obtain k where "k < length xs" "xs ! k = y" using y by (auto simp: in_set_conv_nth)
      ultimately show False using Cons.prems(1) [rule_format, of 0 "Suc k"] False by simp
    qed
    then have "map f xs = map (\<lambda>_. 0) xs" by simp
    with Cons.prems(2) show ?thesis by (simp del: map_eq_conv)
  qed
qed simp

lemma executing_for_bounded:
  assumes inv: "coordinator_inv lm co"
  shows "executing_for key co \<le> lm_session_executions lm"
  unfolding executing_for_def
proof (rule sum_at_most_one)
  show "\<forall>x \<in> set (co_actors co). (if ac_key x = key then length (ac_active x) else 0) \<le> lm_session_executions lm"
    using inv by (auto simp: coordinator_inv_def list_all_iff actor_ok_def running_len_def)
  show "\<forall>i < length (co_actors co). \<forall>j < length (co_actors co).
     0 < (if ac_key (co_actors co ! i) = key then length (ac_active (co_actors co ! i)) else 0) \<and>
     0 < (if ac_key (co_actors co ! j) = key then length (ac_active (co_actors co ! j)) else 0) \<longrightarrow> i = j"
  proof (intro allI impI)
    fix i j assume i: "i < length (co_actors co)" and j: "j < length (co_actors co)"
      and "0 < (if ac_key (co_actors co ! i) = key then length (ac_active (co_actors co ! i)) else 0) \<and>
        0 < (if ac_key (co_actors co ! j) = key then length (ac_active (co_actors co ! j)) else 0)"
    then have "ac_key (co_actors co ! i) = key" "ac_active (co_actors co ! i) \<noteq> []"
      "ac_key (co_actors co ! j) = key" "ac_active (co_actors co ! j) \<noteq> []" by (auto split: if_splits)
    moreover from this inv_actor [OF inv i] inv_actor [OF inv j]
    have "\<not> ac_closed (co_actors co ! i)" "\<not> ac_closed (co_actors co ! j)" by (auto simp: actor_ok_def)
    ultimately have "map_of (co_inboxes co) key = Some i" "map_of (co_inboxes co) key = Some j"
      using inv i j unfolding coordinator_inv_def by blast+
    then show "i = j" by simp
  qed
qed

text \<open>
  C8. (invariant) Under every interleaving of incoming messages with the work of the actors, the tasks that are admitted, the
  executions in the gateway and those of one conversation stay within their limits, the registry stays small, and what was accepted is
  exactly what was begun, once each, and what still waits in an inbox: nothing that was accepted is lost.
\<close>

theorem channel_work_is_bounded:
  assumes "coordinator_reachable lm co" and "0 < lm_session_executions lm" "0 < lm_queue_capacity lm"
  shows "admitted co \<le> lm_accepted lm \<and> executing co \<le> lm_executions lm \<and>
    (\<forall>key. executing_for key co \<le> lm_session_executions lm) \<and> length (co_inboxes co) \<le> lm_max_actors lm \<and>
    co_accepted co = co_started co + pending co"
proof -
  note inv = reachable_inv [OF assms]
  have "admitted co \<le> lm_accepted lm" "executing co \<le> lm_executions lm"
    using inv unfolding coordinator_inv_def by linarith+
  with inv executing_for_bounded [OF inv] show ?thesis by (simp add: coordinator_inv_def)
qed

section \<open>Accepted work is done\<close>

definition actor_weight :: "'t actor \<Rightarrow> nat" where
  "actor_weight a = 4 * length (ac_queue a) + (if ac_holding a = None then 0 else 3) + 2 * length (ac_active a) + ac_finished a +
     (if ac_closed a then 0 else 1)"

definition coordinator_weight :: "'t coordinator \<Rightarrow> nat" where
  "coordinator_weight co = sum_list (map actor_weight (co_actors co))"

lemma weight_set:
  "i < length (co_actors co) \<Longrightarrow> actor_weight a' < actor_weight (co_actors co ! i) \<Longrightarrow> co_actors co' = (co_actors co)[i := a'] \<Longrightarrow>
   coordinator_weight co' < coordinator_weight co"
  using sum_list_set [of i "co_actors co" actor_weight a'] by (simp add: coordinator_weight_def)

lemma work_step_lighter: "work_step lm co co' \<Longrightarrow> coordinator_weight co' < coordinator_weight co \<and> co_accepted co' = co_accepted co"
proof (induction rule: work_step.induct)
  case (retires i co co')
  then show ?case
    by (auto intro!: weight_set [of i co "(co_actors co ! i)\<lparr>ac_closed := True\<rparr>"]
        simp: retire_if_idle_def Let_def set_actor_def actor_weight_def split: if_splits)
next
  case (receives i co co')
  then obtain t ts where "ac_queue (co_actors co ! i) = t # ts" "ac_holding (co_actors co ! i) = None"
    "co' = set_actor i ((co_actors co ! i)\<lparr>ac_queue := ts, ac_holding := Some t\<rparr>) co"
    by (auto simp: receive_def Let_def split: if_splits list.splits)
  with receives(1) show ?case
    by (auto intro!: weight_set [of i co "(co_actors co ! i)\<lparr>ac_queue := ts, ac_holding := Some t\<rparr>"]
        simp: set_actor_def actor_weight_def)
next
  case (starts i co co')
  then obtain t where "ac_holding (co_actors co ! i) = Some t"
    "co' = (set_actor i ((co_actors co ! i)\<lparr>ac_holding := None, ac_active := ac_active (co_actors co ! i) @ [t]\<rparr>) co)
       \<lparr>co_execution := co_execution co - 1, co_started := add_mset t (co_started co)\<rparr>"
    by (auto simp: start_execution_def Let_def split: if_splits option.splits)
  with starts(1) show ?case
    by (auto intro!: weight_set [of i co "(co_actors co ! i)\<lparr>ac_holding := None, ac_active := ac_active (co_actors co ! i) @ [t]\<rparr>"]
        simp: set_actor_def actor_weight_def)
next
  case (finishes i co j co')
  let ?a = "co_actors co ! i"
  let ?a' = "?a\<lparr>ac_active := take j (ac_active ?a) @ drop (Suc j) (ac_active ?a), ac_finished := ac_finished ?a + 1\<rparr>"
  from finishes have "j < length (ac_active ?a)" "co_actors co' = (co_actors co)[i := ?a']" "co_accepted co' = co_accepted co"
    by (auto simp: finish_execution_def Let_def set_actor_def split: if_splits)
  with finishes(1) weight_set [of i co ?a' co'] show ?case by (simp add: actor_weight_def)
next
  case (joins i co co')
  let ?a = "co_actors co ! i"
  from joins have "ac_finished ?a > 0" "co_actors co' = (co_actors co)[i := ?a\<lparr>ac_finished := ac_finished ?a - 1\<rparr>]"
    "co_accepted co' = co_accepted co"
    by (auto simp: join_next_def Let_def set_actor_def split: if_splits)
  with joins(1) weight_set [of i co "?a\<lparr>ac_finished := ac_finished ?a - 1\<rparr>" co'] show ?case by (simp add: actor_weight_def)
qed

lemma sum_list_pos_ex: "0 < sum_list (map f xs) \<Longrightarrow> \<exists>i < length xs. 0 < (f (xs ! i) :: nat)"
  by (induction xs) (auto, force+)

lemma some_work:
  assumes inv: "coordinator_inv lm co" and "0 < lm_session_executions lm" "0 < lm_executions lm"
    and i: "i < length (co_actors co)" and a: "a = co_actors co ! i" "\<not> ac_closed a"
  shows "\<exists>co'. work_step lm co co'"
proof -
  have finish: "\<exists>co'. work_step lm co co'" if "j < length (co_actors co)" "ac_active (co_actors co ! j) \<noteq> []" for j
    using that by (auto intro!: exI work_step.finishes [of j _ 0] simp: finish_execution_def Let_def)
  consider t where "ac_holding a = Some t" | "ac_holding a = None" "ac_active a \<noteq> []" | "ac_holding a = None" "ac_active a = []" "0 < ac_finished a"
    | "ac_holding a = None" "running_len a = 0" "ac_queue a = []" | t ts where "ac_holding a = None" "running_len a = 0" "ac_queue a = t # ts"
    by (cases "ac_holding a"; cases "ac_queue a"; cases "ac_active a = []"; cases "ac_finished a") (auto simp: running_len_def)
  then show ?thesis
  proof cases
    case (1 t)
    show ?thesis
    proof (cases "co_execution co = 0")
      case True
      then have "0 < executing co" using inv assms(3) unfolding coordinator_inv_def by linarith
      then obtain j where "j < length (co_actors co)" "0 < length (ac_active (co_actors co ! j))"
        unfolding executing_def using sum_list_pos_ex by blast
      with finish show ?thesis by blast
    next
      case False
      with 1 i a show ?thesis by (auto intro!: exI work_step.starts [of i] simp: start_execution_def Let_def)
    qed
  next
    case 2
    with finish i a show ?thesis by blast
  next
    case 3
    with i a show ?thesis by (auto intro!: exI work_step.joins [of i] simp: join_next_def Let_def)
  next
    case 4
    with i a show ?thesis by (auto intro!: exI work_step.retires [of i] simp: retire_if_idle_def Let_def)
  next
    case (5 t ts)
    with i a assms(2) show ?thesis by (auto intro!: exI work_step.receives [of i] simp: receive_def Let_def)
  qed
qed

lemma idle_is_done:
  assumes inv: "coordinator_inv lm co" and "0 < lm_session_executions lm" "0 < lm_executions lm"
    and idle: "\<nexists>co'. work_step lm co co'"
  shows "co_started co = co_accepted co \<and> executing co = 0 \<and> co_inboxes co = []"
proof -
  have closed: "ac_closed a" if "a \<in> set (co_actors co)" for a
    using that some_work [OF inv assms(2,3)] idle by (metis in_set_conv_nth)
  then have empty: "actor_pending a = {#} \<and> ac_active a = []" if "a \<in> set (co_actors co)" for a
    using that inv by (auto simp: coordinator_inv_def list_all_iff actor_ok_def actor_pending_def)
  have "sum_list (map actor_pending as) = {#}" if "\<forall>a \<in> set as. actor_pending a = {#}" for as :: "'a actor list"
    using that by (induction as) auto
  with empty have "pending co = {#}" by (simp add: pending_def)
  moreover have "executing co = 0" using empty by (simp add: executing_def)
  moreover have "co_inboxes co = []"
  proof (rule ccontr)
    assume "co_inboxes co \<noteq> []"
    then obtain k j ys where "co_inboxes co = (k, j) # ys" by (cases "co_inboxes co") auto
    then have "map_of (co_inboxes co) k = Some j" by simp
    then have "j < length (co_actors co) \<and> \<not> ac_closed (co_actors co ! j)"
      using inv unfolding coordinator_inv_def by blast
    with closed show False using nth_mem by blast
  qed
  ultimately show ?thesis using inv by (simp add: coordinator_inv_def)
qed

lemma work_run:
  "(work_step lm ^^ n) co co' \<Longrightarrow> coordinator_inv lm co \<Longrightarrow> 0 < lm_session_executions lm \<Longrightarrow>
   n + coordinator_weight co' \<le> coordinator_weight co \<and> coordinator_inv lm co' \<and> co_accepted co' = co_accepted co"
proof (induction n arbitrary: co')
  case (Suc n)
  then obtain co1 where "(work_step lm ^^ n) co co1" "work_step lm co1 co'" by auto
  with Suc.IH [of co1] Suc.prems work_step_lighter work_inv show ?case by fastforce
qed simp

text \<open>
  C22. (liveness) The work of the actors always comes to an end after a bounded number of steps, and when there is nothing left to do,
  every task that was accepted has been executed and the registry is empty: no order of steps gets stuck on a permit.
\<close>

theorem accepted_work_is_done:
  assumes "coordinator_reachable lm co" and "0 < lm_session_executions lm" "0 < lm_queue_capacity lm" "0 < lm_executions lm"
    and "(work_step lm ^^ n) co co'"
  shows "n \<le> coordinator_weight co \<and>
    ((\<nexists>co''. work_step lm co' co'') \<longrightarrow> co_started co' = co_accepted co \<and> executing co' = 0 \<and> co_inboxes co' = [])"
proof -
  note inv = reachable_inv [OF assms(1-3)]
  note r = work_run [OF assms(5) inv assms(2)]
  then have "n \<le> coordinator_weight co" by linarith
  with r idle_is_done [OF _ assms(2,4), of co'] show ?thesis by auto
qed

definition busy_coordinator :: "nat coordinator" where
  "busy_coordinator =
     snd (dispatch_locked gateway_limits (lit ''room'') 7 (snd (try_admit (lit ''room'') 7 (coordinator_new gateway_limits))))"

lemma busy_reachable: "coordinator_reachable gateway_limits busy_coordinator"
proof -
  let ?co0 = "coordinator_new gateway_limits :: nat coordinator"
  let ?co1 = "snd (try_admit (lit ''room'') 7 ?co0)"
  have "coordinator_step gateway_limits ?co0 ?co1" by (rule coordinator_step.admits) (rule prod.collapse [symmetric])
  moreover have "coordinator_step gateway_limits ?co1 busy_coordinator"
  proof (rule coordinator_step.registers)
    show "(lit ''room'', 7) \<in> set (co_waiting ?co1)"
      by (simp add: try_admit_def coordinator_new_def gateway_limits_def coordinator_limits_def MAX_ACCEPTED_TASKS_def)
    show "dispatch_locked gateway_limits (lit ''room'') 7 ?co1 =
        (fst (dispatch_locked gateway_limits (lit ''room'') 7 ?co1), busy_coordinator)"
      unfolding busy_coordinator_def by (rule prod.collapse [symmetric])
  qed
  ultimately show ?thesis unfolding coordinator_reachable_def by (meson rtranclp.rtrancl_into_rtrancl rtranclp.rtrancl_refl)
qed

lemma gateway_limits_positive:
  "0 < lm_session_executions gateway_limits" "0 < lm_queue_capacity gateway_limits" "0 < lm_executions gateway_limits"
  by (simp_all add: gateway_limits_def coordinator_limits_def SESSION_QUEUE_CAPACITY_def MAX_SESSION_EXECUTIONS_def
      MAX_GATEWAY_EXECUTIONS_def)

theorem channel_work_is_bounded_witness:
  "coordinator_reachable gateway_limits busy_coordinator \<and> admitted busy_coordinator \<le> 128 \<and>
   (\<forall>key. executing_for key busy_coordinator \<le> 2)"
  using channel_work_is_bounded [OF busy_reachable gateway_limits_positive(1,2)] busy_reachable
  by (simp add: gateway_limits_def coordinator_limits_def MAX_ACCEPTED_TASKS_def MAX_SESSION_EXECUTIONS_def)

lemma busy_accepted: "co_accepted busy_coordinator = {#7#}"
  by (simp add: busy_coordinator_def dispatch_locked_def leave_waiting_def enter_registry_def open_inbox_def try_admit_def
      coordinator_new_def gateway_limits_def coordinator_limits_def MAX_ACCEPTED_TASKS_def)

theorem accepted_work_is_done_witness:
  "\<exists>n co'. (work_step gateway_limits ^^ n) busy_coordinator co' \<and> co_started co' = {#7#} \<and> executing co' = 0 \<and> co_inboxes co' = []"
proof -
  note done_thm = accepted_work_is_done [OF busy_reachable gateway_limits_positive]
  let ?P = "\<lambda>n. \<exists>co'. (work_step gateway_limits ^^ n) busy_coordinator co'"
  have bound: "\<forall>n. ?P n \<longrightarrow> n \<le> coordinator_weight busy_coordinator" using done_thm by blast
  have "?P 0" by simp
  from GreatestI_nat [of ?P, OF this] bound have "?P (Greatest ?P)" by blast
  then obtain co' where run: "(work_step gateway_limits ^^ Greatest ?P) busy_coordinator co'" by blast
  have "\<nexists>co''. work_step gateway_limits co' co''"
  proof
    assume "\<exists>co''. work_step gateway_limits co' co''"
    with run have "?P (Suc (Greatest ?P))" by auto
    from Greatest_le_nat [of ?P, OF this bound [rule_format]] show False by simp
  qed
  with done_thm [OF run] run show ?thesis by (auto simp: busy_accepted)
qed

end
