(* ===== verification/Channel_Trigger.thy ===== *)
theory Channel_Trigger
  imports Savfox_Prelude
begin

text \<open>
  Which agent of the gateway gets a message of a channel, and whether it answers.  The router (agent_routing.rs) sorts its rules
  by priority and takes the first that matches, kind by kind from the most to the least specific.  The trigger (trigger.rs) makes
  of who sent the message, where, and whom it names a decision to answer, to take the message in, or to drop it; the activation
  of the group and the ingest policy of the agent change it, and the pipeline (runtime.rs) puts the pieces together.  Shown: the
  rule that routes is the most specific one, ties broken by priority; an answer in a group needs its activation; and exactly
  when the agent answers its own messages.
\<close>

section \<open>Routing\<close>

datatype route_match_type = Peer | ParentPeer | Guild | GuildRoles | Team | Account | ChannelMatch | DefaultMatch

record route_rule =
  rr_channel :: rstring
  rr_filter :: "rstring option"
  rr_sender :: "rstring option"
  rr_agent_id :: rstring
  rr_priority :: int
  rr_guild_id :: "rstring option"
  rr_team_id :: "rstring option"
  rr_account_id :: "rstring option"
  rr_roles :: "rstring list"
  rr_role_ids :: "rstring list"
  rr_match_type :: route_match_type

record routing_context =
  rc_channel :: rstring
  rc_channel_id :: "rstring option"
  rc_sender_id :: "rstring option"
  rc_group_id :: "rstring option"
  rc_guild_id :: "rstring option"
  rc_team_id :: "rstring option"
  rc_account_id :: "rstring option"
  rc_role_ids :: "rstring list"
  rc_parent_sender_id :: "rstring option"

record route_resolution =
  rs_agent_id :: rstring
  rs_matched_rule :: bool

record agent_router =
  ar_rules :: "route_rule list"
  ar_default_agent :: rstring

definition router_new :: "route_rule list \<Rightarrow> rstring \<Rightarrow> agent_router" where
  "router_new rules default_agent = \<lparr>ar_rules = sort_key (\<lambda>r. - rr_priority r) rules, ar_default_agent = default_agent\<rparr>"

definition effective_roles :: "route_rule \<Rightarrow> rstring list" where
  "effective_roles rule = (if rr_roles rule \<noteq> [] then rr_roles rule else rr_role_ids rule)"

definition same_or_prefix :: "rstring option \<Rightarrow> rstring \<Rightarrow> bool" where
  "same_or_prefix id_opt sender \<longleftrightarrow> id_opt = Some sender \<or> (case id_opt of Some i \<Rightarrow> starts_with sender i | None \<Rightarrow> False)"

definition matches_by_match_type :: "route_rule \<Rightarrow> routing_context \<Rightarrow> bool" where
  "matches_by_match_type rule ctx =
     (case rr_match_type rule of
        Peer \<Rightarrow> (case rr_sender rule of Some sender \<Rightarrow> same_or_prefix (rc_sender_id ctx) sender | None \<Rightarrow> True)
      | ParentPeer \<Rightarrow>
          (case rr_sender rule of
             Some sender \<Rightarrow> same_or_prefix (rc_parent_sender_id ctx) sender | None \<Rightarrow> rc_parent_sender_id ctx \<noteq> None)
      | Guild \<Rightarrow> (case rr_guild_id rule of Some g \<Rightarrow> rc_guild_id ctx = Some g | None \<Rightarrow> False)
      | GuildRoles \<Rightarrow>
          (case rr_guild_id rule of
             None \<Rightarrow> False
           | Some g \<Rightarrow>
               if rc_guild_id ctx \<noteq> Some g then False
               else if effective_roles rule = [] then False
               else list_ex (\<lambda>r. to_ascii_lowercase r \<in> set (map to_ascii_lowercase (rc_role_ids ctx))) (effective_roles rule))
      | Team \<Rightarrow> (case rr_team_id rule of Some t \<Rightarrow> rc_team_id ctx = Some t | None \<Rightarrow> False)
      | Account \<Rightarrow> (case rr_account_id rule of Some a \<Rightarrow> rc_account_id ctx = Some a | None \<Rightarrow> False)
      | ChannelMatch \<Rightarrow>
          (case rr_filter rule of
             Some f \<Rightarrow> (case rc_channel_id ctx of Some i \<Rightarrow> i = f | None \<Rightarrow> False)
           | None \<Rightarrow> False) \<or> rr_channel rule = lit ''*'' \<or> rr_channel rule = rc_channel ctx
      | DefaultMatch \<Rightarrow> True)"

definition matches_rule :: "route_rule \<Rightarrow> routing_context \<Rightarrow> bool" where
  "matches_rule rule ctx =
     (if rr_channel rule \<noteq> lit ''*'' \<and> rr_channel rule \<noteq> rc_channel ctx then False
      else if (case rr_filter rule of
                 Some f \<Rightarrow> \<not> (rc_channel_id ctx = Some f \<or> rc_group_id ctx = Some f)
               | None \<Rightarrow> False) then False
      else matches_by_match_type rule ctx)"

definition match_chain :: "route_match_type list" where
  "match_chain = [Peer, ParentPeer, GuildRoles, Guild, Team, Account, ChannelMatch, DefaultMatch]"

fun first_in_chain :: "route_rule list \<Rightarrow> routing_context \<Rightarrow> route_match_type list \<Rightarrow> route_rule option" where
  "first_in_chain rules ctx [] = None"
| "first_in_chain rules ctx (m # ms) =
     (case find (\<lambda>r. rr_match_type r = m \<and> matches_rule r ctx) rules of
        Some r \<Rightarrow> Some r
      | None \<Rightarrow> first_in_chain rules ctx ms)"

definition resolve_with_details :: "agent_router \<Rightarrow> routing_context \<Rightarrow> route_resolution" where
  "resolve_with_details router ctx =
     (case first_in_chain (ar_rules router) ctx match_chain of
        Some r \<Rightarrow> \<lparr>rs_agent_id = rr_agent_id r, rs_matched_rule = True\<rparr>
      | None \<Rightarrow>
          (case find (\<lambda>r. matches_rule r ctx) (ar_rules router) of
             Some r \<Rightarrow> \<lparr>rs_agent_id = rr_agent_id r, rs_matched_rule = True\<rparr>
           | None \<Rightarrow> \<lparr>rs_agent_id = ar_default_agent router, rs_matched_rule = False\<rparr>))"

definition resolve_agent :: "agent_router \<Rightarrow> routing_context \<Rightarrow> rstring" where
  "resolve_agent router ctx = rs_agent_id (resolve_with_details router ctx)"

definition add_rule :: "route_rule \<Rightarrow> agent_router \<Rightarrow> agent_router" where
  "add_rule rule router = router\<lparr>ar_rules := sort_key (\<lambda>r. - rr_priority r) (ar_rules router @ [rule])\<rparr>"

definition remove_rules_for_agent :: "rstring \<Rightarrow> agent_router \<Rightarrow> agent_router" where
  "remove_rules_for_agent agent router = router\<lparr>ar_rules := filter (\<lambda>r. rr_agent_id r \<noteq> agent) (ar_rules router)\<rparr>"

definition extract_discord_roles :: "rstring list \<Rightarrow> rstring list" where
  "extract_discord_roles raw = filter (\<lambda>s. s \<noteq> []) (map trim (concat (map (split_on 44) raw)))"

section \<open>Triggers\<close>

datatype sender_kind = Human | SelfBot | OwnAgentGhost | ExternalBot | BridgeGhost | UnknownSender

datatype conversation_kind = Direct | PairRoom | Group | BroadcastRoom | UnknownRoom

datatype trigger_reason =
    DirectMessageReason | PairRoomReason | MentionedMe | MentionedOtherAgent | ReplyToMyMessage | CommandReason | KeywordMatched
  | RoomDefaultAgent | ExternalBotIgnored | ExternalBotIngestOnly | SelfMessageIgnored | NoTrigger

datatype trigger_decision = Ignore trigger_reason | IngestOnly trigger_reason | Reply trigger_reason

datatype ingest_policy = PreserveBase | IngestNone | ReplyOnly | TargetedOnly | AllHumanMessages | AllNonBotMessages | AllMessages

datatype external_bot_policy = IgnoreBots | IngestBots | ReplyAllowed

datatype group_activation = Mention | Keyword | Always | CommandOnly | ActivationOff

definition lowered :: "rstring option \<Rightarrow> rstring option" where
  "lowered v = (case v of None \<Rightarrow> None | Some s \<Rightarrow> if trim s = [] then None else Some (to_ascii_lowercase (trim s)))"

definition ingest_policy_from :: "rstring option \<Rightarrow> ingest_policy" where
  "ingest_policy_from v =
     (let s = lowered v in
      if s = Some (lit ''none'') then IngestNone
      else if s = Some (lit ''reply_only'') then ReplyOnly
      else if s = Some (lit ''targeted_only'') then TargetedOnly
      else if s = Some (lit ''all_human_messages'') then AllHumanMessages
      else if s = Some (lit ''all_non_bot_messages'') then AllNonBotMessages
      else if s = Some (lit ''all_messages'') then AllMessages
      else PreserveBase)"

definition external_bot_policy_from :: "rstring option \<Rightarrow> external_bot_policy" where
  "external_bot_policy_from v =
     (let s = lowered v in
      if s = Some (lit ''ingest_only'') then IngestBots
      else if s = Some (lit ''reply_allowed'') then ReplyAllowed
      else IgnoreBots)"

record idle_reply_config =
  ir_enabled :: bool
  ir_delay_secs :: nat
  ir_max_per_hour :: nat
  ir_prompt :: "rstring option"

definition default_idle_reply :: idle_reply_config where
  "default_idle_reply = \<lparr>ir_enabled = False, ir_delay_secs = 180, ir_max_per_hour = 1, ir_prompt = None\<rparr>"

record agent_trigger_config =
  tc_group_activation :: group_activation
  tc_group_keywords :: "rstring list"
  tc_ingest_policy :: ingest_policy
  tc_external_bot_policy :: external_bot_policy
  tc_idle_reply :: idle_reply_config

record trigger_context =
  tx_sender_kind :: sender_kind
  tx_conversation_kind :: conversation_kind
  tx_is_mentioned :: bool
  tx_reply_to_self :: bool
  tx_is_command :: bool
  tx_targets_other :: bool
  tx_text :: rstring

definition effective_conversation_kind :: "rstring option \<Rightarrow> nat option \<Rightarrow> conversation_kind" where
  "effective_conversation_kind chat_type participant_count =
     (if participant_count = Some 2 then PairRoom
      else case lowered chat_type of
        None \<Rightarrow> UnknownRoom
      | Some v \<Rightarrow>
          if v \<in> set [lit ''dm'', lit ''private'', lit ''direct'', lit ''single''] then Direct
          else if v \<in> set [lit ''channel'', lit ''broadcast''] then BroadcastRoom
          else if v \<in> set [lit ''group'', lit ''supergroup'', lit ''chat''] then Group
          else UnknownRoom)"

definition decide_trigger ::
    "sender_kind \<Rightarrow> rstring option \<Rightarrow> nat option \<Rightarrow> bool \<Rightarrow> bool \<Rightarrow> bool \<Rightarrow> bool \<Rightarrow> bool \<Rightarrow> trigger_decision" where
  "decide_trigger sender chat_type participant_count is_mentioned reply_to_self is_command used_plain_text_fallback targets_other =
     (if sender \<in> {SelfBot, OwnAgentGhost, BridgeGhost} then Ignore SelfMessageIgnored
      else if sender = ExternalBot then Ignore ExternalBotIgnored
      else if targets_other \<and> \<not> is_mentioned \<and> \<not> is_command then IngestOnly MentionedOtherAgent
      else if reply_to_self then Reply ReplyToMyMessage
      else if is_command then Reply CommandReason
      else if is_mentioned then Reply MentionedMe
      else case effective_conversation_kind chat_type participant_count of
        Direct \<Rightarrow> Reply DirectMessageReason
      | PairRoom \<Rightarrow> Reply PairRoomReason
      | _ \<Rightarrow> if used_plain_text_fallback then IngestOnly RoomDefaultAgent else Reply RoomDefaultAgent)"

definition has_group_keyword :: "rstring \<Rightarrow> rstring list \<Rightarrow> bool" where
  "has_group_keyword s keywords =
     (if keywords = [] then False
      else list_ex (\<lambda>k. let needle = to_ascii_lowercase (trim k) in needle \<noteq> [] \<and> sublist needle (to_ascii_lowercase s)) keywords)"

fun quiet :: "trigger_decision \<Rightarrow> trigger_decision" where
  "quiet (Reply r) = IngestOnly r"
| "quiet d = d"

definition apply_group_activation :: "agent_trigger_config \<Rightarrow> trigger_context \<Rightarrow> trigger_decision \<Rightarrow> trigger_decision" where
  "apply_group_activation config ctx decision =
     (case tc_group_activation config of
        Always \<Rightarrow> if decision = IngestOnly RoomDefaultAgent then Reply RoomDefaultAgent else decision
      | ActivationOff \<Rightarrow> quiet decision
      | CommandOnly \<Rightarrow> if tx_is_command ctx then Reply CommandReason else quiet decision
      | Mention \<Rightarrow> if tx_is_mentioned ctx then decision else quiet decision
      | Keyword \<Rightarrow>
          if tx_is_mentioned ctx then decision
          else if has_group_keyword (tx_text ctx) (tc_group_keywords config) then Reply KeywordMatched
          else quiet decision)"

definition apply_ingest_policy :: "ingest_policy \<Rightarrow> sender_kind \<Rightarrow> trigger_decision \<Rightarrow> trigger_decision" where
  "apply_ingest_policy policy sender decision =
     (case policy of
        PreserveBase \<Rightarrow> decision
      | IngestNone \<Rightarrow> (case decision of IngestOnly r \<Rightarrow> Ignore r | d \<Rightarrow> d)
      | ReplyOnly \<Rightarrow> (case decision of IngestOnly r \<Rightarrow> Ignore r | d \<Rightarrow> d)
      | TargetedOnly \<Rightarrow>
          (case decision of IngestOnly r \<Rightarrow> if r = MentionedOtherAgent then decision else Ignore r | d \<Rightarrow> d)
      | AllHumanMessages \<Rightarrow> if decision = Ignore NoTrigger \<and> sender = Human then IngestOnly NoTrigger else decision
      | AllNonBotMessages \<Rightarrow>
          if decision = Ignore NoTrigger \<and> sender \<notin> {SelfBot, OwnAgentGhost, BridgeGhost, ExternalBot}
          then IngestOnly NoTrigger else decision
      | AllMessages \<Rightarrow>
          if decision = Ignore NoTrigger \<and> sender \<notin> {SelfBot, OwnAgentGhost, BridgeGhost} then IngestOnly NoTrigger else decision)"

definition group_like :: "conversation_kind \<Rightarrow> bool" where
  "group_like kind \<longleftrightarrow> kind \<in> {Group, BroadcastRoom, UnknownRoom}"

definition apply_agent_trigger_policy :: "trigger_decision \<Rightarrow> trigger_context \<Rightarrow> agent_trigger_config \<Rightarrow> trigger_decision" where
  "apply_agent_trigger_policy base_decision ctx config =
     apply_ingest_policy (tc_ingest_policy config) (tx_sender_kind ctx)
       (if group_like (tx_conversation_kind ctx) \<and> \<not> tx_targets_other ctx \<and> \<not> tx_reply_to_self ctx
        then apply_group_activation config ctx base_decision else base_decision)"

text \<open>
  The part of the pipeline of an incoming message that decides whether the agent it is routed to answers: what came with the message,
  the agent its text names, and whether the text is a command of the gateway.
\<close>

record inbound_message =
  im_sender_kind :: sender_kind
  im_chat_type :: "rstring option"
  im_participant_count :: "nat option"
  im_is_mentioned :: bool
  im_reply_to_self :: bool
  im_is_command :: bool
  im_plain_text_fallback :: bool
  im_targets_other :: bool
  im_text :: rstring
  im_text_target :: "rstring option"
  im_runtime_command :: bool

definition trigger_context_of :: "rstring \<Rightarrow> inbound_message \<Rightarrow> trigger_context" where
  "trigger_context_of routed_agent msg =
     \<lparr>tx_sender_kind = im_sender_kind msg,
      tx_conversation_kind = effective_conversation_kind (im_chat_type msg) (im_participant_count msg),
      tx_is_mentioned =
        (im_is_mentioned msg \<or> (case im_text_target msg of Some a \<Rightarrow> eq_ignore_ascii_case a routed_agent | None \<Rightarrow> False)),
      tx_reply_to_self = im_reply_to_self msg, tx_is_command = (im_is_command msg \<or> im_runtime_command msg),
      tx_targets_other =
        (im_targets_other msg \<or> (case im_text_target msg of Some a \<Rightarrow> \<not> eq_ignore_ascii_case a routed_agent | None \<Rightarrow> False)),
      tx_text = im_text msg\<rparr>"

definition base_trigger_decision :: "agent_trigger_config \<Rightarrow> inbound_message \<Rightarrow> trigger_context \<Rightarrow> trigger_decision" where
  "base_trigger_decision config msg ctx =
     (if im_sender_kind msg = ExternalBot \<and> tc_external_bot_policy config = IngestBots then IngestOnly ExternalBotIngestOnly
      else decide_trigger
             (if im_sender_kind msg = ExternalBot \<and> tc_external_bot_policy config = ReplyAllowed then Human else im_sender_kind msg)
             (im_chat_type msg) (im_participant_count msg) (tx_is_mentioned ctx) (tx_reply_to_self ctx) (tx_is_command ctx)
             (im_plain_text_fallback msg) (tx_targets_other ctx))"

definition pipeline_trigger :: "rstring \<Rightarrow> agent_trigger_config \<Rightarrow> inbound_message \<Rightarrow> trigger_decision" where
  "pipeline_trigger routed_agent config msg =
     (let ctx = trigger_context_of routed_agent msg
      in apply_agent_trigger_policy (base_trigger_decision config msg ctx) ctx config)"

definition should_schedule_idle_reply :: "trigger_decision \<Rightarrow> trigger_context \<Rightarrow> agent_trigger_config \<Rightarrow> bool" where
  "should_schedule_idle_reply decision ctx config =
     (if \<not> ir_enabled (tc_idle_reply config) then False
      else case decision of
        IngestOnly r \<Rightarrow>
          if \<not> group_like (tx_conversation_kind ctx) then False
          else if tx_sender_kind ctx \<noteq> Human \<or> tx_is_mentioned ctx \<or> tx_is_command ctx \<or> tx_reply_to_self ctx \<or>
                  tx_targets_other ctx \<or> trim (tx_text ctx) = [] then False
          else r \<notin> {MentionedOtherAgent, ExternalBotIngestOnly, ExternalBotIgnored, SelfMessageIgnored}
      | _ \<Rightarrow> False)"

section \<open>The rule that routes\<close>

fun position_in :: "'a \<Rightarrow> 'a list \<Rightarrow> nat" where
  "position_in x [] = 0"
| "position_in x (y # ys) = (if x = y then 0 else Suc (position_in x ys))"

abbreviation rank :: "route_rule \<Rightarrow> nat" where
  "rank r \<equiv> position_in (rr_match_type r) match_chain"

lemma first_in_chain_Some:
  "first_in_chain rules ctx ms = Some r \<Longrightarrow>
   r \<in> set rules \<and> matches_rule r ctx \<and> rr_match_type r \<in> set ms \<and>
   (\<forall>q \<in> set rules. matches_rule q ctx \<and> rr_match_type q \<in> set ms \<longrightarrow>
      position_in (rr_match_type r) ms \<le> position_in (rr_match_type q) ms)"
proof (induction ms)
  case (Cons m ms)
  show ?case
  proof (cases "find (\<lambda>r. rr_match_type r = m \<and> matches_rule r ctx) rules")
    case None
    then have "\<forall>q \<in> set rules. matches_rule q ctx \<longrightarrow> rr_match_type q \<noteq> m" by (auto simp: find_None_iff)
    moreover from None Cons.prems have "first_in_chain rules ctx ms = Some r" by simp
    ultimately show ?thesis using Cons.IH by auto
  next
    case (Some q)
    with Cons.prems have "q = r" by simp
    with Some have "r \<in> set rules \<and> matches_rule r ctx \<and> rr_match_type r = m" by (auto simp: find_Some_iff)
    then show ?thesis by simp
  qed
qed simp

lemma first_in_chain_None: "first_in_chain rules ctx ms = None \<longleftrightarrow> \<not> (\<exists>q \<in> set rules. matches_rule q ctx \<and> rr_match_type q \<in> set ms)"
  by (induction ms) (auto simp: find_None_iff find_Some_iff split: option.splits)

lemma find_first_of_type:
  "first_in_chain rules ctx ms = Some r \<Longrightarrow> find (\<lambda>q. rr_match_type q = rr_match_type r \<and> matches_rule q ctx) rules = Some r"
  by (induction ms) (auto simp: find_Some_iff split: option.splits)

lemma chain_complete: "m \<in> set match_chain"
  by (cases m) (simp_all add: match_chain_def)

definition router_ordered :: "agent_router \<Rightarrow> bool" where
  "router_ordered router \<longleftrightarrow> sorted (map (\<lambda>r. - rr_priority r) (ar_rules router))"

lemma router_stays_ordered:
  "router_ordered (router_new rules d)"
  "router_ordered (add_rule rule router)"
  "router_ordered router \<Longrightarrow> router_ordered (remove_rules_for_agent agent router)"
  by (simp_all add: router_ordered_def router_new_def add_rule_def remove_rules_for_agent_def sorted_filter)

lemma find_first_priority:
  "find P rules = Some r \<Longrightarrow> sorted (map (\<lambda>r. - rr_priority r) rules) \<Longrightarrow> q \<in> set rules \<Longrightarrow> P q \<Longrightarrow> rr_priority q \<le> rr_priority r"
  by (induction rules) (auto split: if_splits)


definition sample_rule :: route_rule where
  "sample_rule = \<lparr>rr_channel = lit ''*'', rr_filter = None, rr_sender = None, rr_agent_id = lit ''any'', rr_priority = 0,
     rr_guild_id = None, rr_team_id = None, rr_account_id = None, rr_roles = [], rr_role_ids = [], rr_match_type = Peer\<rparr>"

definition sample_routing :: routing_context where
  "sample_routing = \<lparr>rc_channel = lit ''discord'', rc_channel_id = None, rc_sender_id = Some (lit ''12''), rc_group_id = None,
     rc_guild_id = Some (lit ''g''), rc_team_id = None, rc_account_id = None, rc_role_ids = [], rc_parent_sender_id = None\<rparr>"


text \<open>A rule for a sender also matches every sender whose identifier starts with it.\<close>

lemma sender_prefix_matches: "same_or_prefix (Some (sender @ more_text)) sender"
  by (simp add: same_or_prefix_def starts_with_def)

text \<open>A rule without a kind is read as one for peers, and one for peers without a sender comes before every rule for a guild.\<close>

lemma plain_rule_comes_first:
  "rr_agent_id r = lit ''any'' \<Longrightarrow> r = sample_rule \<Longrightarrow>
   resolve_with_details (router_new [r\<lparr>rr_agent_id := lit ''guild'', rr_guild_id := Some (lit ''g''), rr_match_type := Guild,
     rr_priority := 9\<rparr>, r] (lit ''d'')) sample_routing = \<lparr>rs_agent_id = lit ''any'', rs_matched_rule = True\<rparr>"
  by (simp only:) code_simp

section \<open>When an agent answers\<close>

lemma ingest_reply [simp]: "apply_ingest_policy p sender d = Reply r \<longleftrightarrow> d = Reply r"
  by (cases p; cases d) (auto simp: apply_ingest_policy_def)

lemma quiet_not_Reply [simp]: "quiet d \<noteq> Reply r"
  by (cases d) auto

text \<open>When the activation of a group lets an answer through.\<close>

definition activated :: "agent_trigger_config \<Rightarrow> trigger_context \<Rightarrow> bool" where
  "activated config ctx =
     (case tc_group_activation config of
        Always \<Rightarrow> True
      | ActivationOff \<Rightarrow> False
      | CommandOnly \<Rightarrow> tx_is_command ctx
      | Mention \<Rightarrow> tx_is_mentioned ctx
      | Keyword \<Rightarrow> tx_is_mentioned ctx \<or> has_group_keyword (tx_text ctx) (tc_group_keywords config))"

text \<open>When it makes an answer of any message whatsoever.\<close>

definition forced :: "agent_trigger_config \<Rightarrow> trigger_context \<Rightarrow> bool" where
  "forced config ctx =
     (case tc_group_activation config of
        CommandOnly \<Rightarrow> tx_is_command ctx
      | Keyword \<Rightarrow> \<not> tx_is_mentioned ctx \<and> has_group_keyword (tx_text ctx) (tc_group_keywords config)
      | _ \<Rightarrow> False)"

lemma group_activation_reply:
  "apply_group_activation config ctx d = Reply r \<Longrightarrow> activated config ctx"
  by (auto simp: apply_group_activation_def activated_def split: group_activation.splits if_splits)

lemma group_activation_ignored:
  "(\<exists>r. apply_group_activation config ctx (Ignore q) = Reply r) \<longleftrightarrow> forced config ctx"
  by (auto simp: apply_group_activation_def forced_def split: group_activation.splits)

lemma own_message_base:
  "im_sender_kind msg \<in> {SelfBot, OwnAgentGhost, BridgeGhost} \<Longrightarrow> base_trigger_decision config msg ctx = Ignore SelfMessageIgnored"
  by (auto simp: base_trigger_decision_def decide_trigger_def)

lemma pipeline_reply:
  "pipeline_trigger routed_agent config msg = Reply r \<longleftrightarrow>
   (let ctx = trigger_context_of routed_agent msg; base = base_trigger_decision config msg ctx
    in (if group_like (tx_conversation_kind ctx) \<and> \<not> tx_targets_other ctx \<and> \<not> tx_reply_to_self ctx
        then apply_group_activation config ctx base else base) = Reply r)"
  by (simp add: pipeline_trigger_def apply_agent_trigger_policy_def Let_def)


definition keyword_config :: agent_trigger_config where
  "keyword_config = \<lparr>tc_group_activation = Keyword, tc_group_keywords = [lit ''fox''], tc_ingest_policy = PreserveBase,
     tc_external_bot_policy = IgnoreBots, tc_idle_reply = default_idle_reply\<rparr>"

definition own_message :: inbound_message where
  "own_message = \<lparr>im_sender_kind = SelfBot, im_chat_type = Some (lit ''group''), im_participant_count = None, im_is_mentioned = False,
     im_reply_to_self = False, im_is_command = False, im_plain_text_fallback = False, im_targets_other = False,
     im_text = lit ''fox here'', im_text_target = None, im_runtime_command = False\<rparr>"


text \<open>A command that names another agent is answered although the agent does not take part in the group.\<close>

lemma command_for_another_is_answered:
  assumes "im_sender_kind msg = Human" and "im_targets_other msg" "im_is_command msg" "\<not> im_reply_to_self msg"
  shows "pipeline_trigger routed_agent (config\<lparr>tc_group_activation := ActivationOff\<rparr>) msg = Reply CommandReason"
  using assms by (simp add: pipeline_trigger_def apply_agent_trigger_policy_def Let_def base_trigger_decision_def decide_trigger_def
      trigger_context_of_def)

text \<open>So is a reply to a message of the agent, where groups are to get no answer at all.\<close>

lemma reply_is_answered_when_off:
  assumes "im_sender_kind msg = Human" and "im_reply_to_self msg" "\<not> im_targets_other msg" "im_text_target msg = None"
  shows "pipeline_trigger routed_agent (config\<lparr>tc_group_activation := ActivationOff\<rparr>) msg = Reply ReplyToMyMessage"
  using assms by (simp add: pipeline_trigger_def apply_agent_trigger_policy_def Let_def base_trigger_decision_def decide_trigger_def
      trigger_context_of_def)

text \<open>The policies that are to take in more messages change nothing: no decision they look for is ever made.\<close>

lemma wider_ingest_has_no_effect:
  assumes "p \<in> {AllHumanMessages, AllNonBotMessages, AllMessages}"
  shows "pipeline_trigger routed_agent (config\<lparr>tc_ingest_policy := p\<rparr>) msg =
    pipeline_trigger routed_agent (config\<lparr>tc_ingest_policy := PreserveBase\<rparr>) msg"
proof -
  let ?ctx = "trigger_context_of routed_agent msg"
  have base: "base_trigger_decision config msg ctx \<noteq> Ignore NoTrigger" for ctx
    by (auto simp: base_trigger_decision_def decide_trigger_def split: conversation_kind.splits)
  have act: "apply_group_activation config ctx d \<noteq> Ignore NoTrigger" if "d \<noteq> Ignore NoTrigger" for ctx d
    using that by (cases d) (auto simp: apply_group_activation_def split: group_activation.splits)
  have same: "base_trigger_decision (config\<lparr>tc_ingest_policy := q\<rparr>) = base_trigger_decision config"
    "apply_group_activation (config\<lparr>tc_ingest_policy := q\<rparr>) = apply_group_activation config" for q
    by (simp_all add: fun_eq_iff base_trigger_decision_def apply_group_activation_def)
  have "apply_ingest_policy p sender d = d" if "d \<noteq> Ignore NoTrigger" for sender d
    using assms that by (auto simp: apply_ingest_policy_def)
  with base act show ?thesis
    by (simp add: pipeline_trigger_def apply_agent_trigger_policy_def Let_def same) (simp add: apply_ingest_policy_def)
qed

end
