(* ===== verification/Spec2Isabelle.thy ===== *)
theory Spec2Isabelle
  imports Patch_Invocation Policy_Manager Head_Tail_Buffer Spawn_Guards History_Invariants Tagged_Blocks Network_Handlers
    Ssrf_Guard Rate_Limiter Approval_Coordinator Config_Service Dir_Listing Message_Delivery Channel_Coordinator
    Channel_Trigger
begin

text \<open>
  Verification of the core of savfox, a coding agent written in Rust: what stands between the text of a
  model and the machine it acts on.

  The model proposes shell commands and patches.  A command is split into plain commands, judged by the
  user's rules and by two classifiers, and turned into an approval requirement; an orchestrator asks,
  chooses a sandbox, runs, and may retry outside the sandbox.  A patch is parsed, checked against the
  writable roots, located in the files and applied.  Output is collected in bounded buffers, shortened, and
  becomes part of the transcript that is sent back.  Sub-agents are limited by a shared counter.  Network
  traffic goes through a proxy with its own policy, which managed configuration constrains.  A gateway lets
  people reach agents from chats: it chooses the agent a message is for and whether it answers, queues the work
  of each conversation, splits and delivers replies, decides what a request may do, keeps and routes the questions that
  wait for an answer, limits the rate of requests, and guards the addresses it fetches from.  The settings of
  all this come from layers of configuration files, some of them inside the repositories the agent works on,
  and clients change them through a service.  The model also reads files and lists directories.

  \<^bold>\<open>Theories and sources\<close> (paths below \<^verbatim>\<open>src/crates\<close>).

  \<^item> \<open>Savfox_Prelude\<close>: Rust results, saturating integers, strings as lists of scalar values, vectors.
  \<^item> \<open>Seek_Sequence\<close>, \<open>Patch_Parser\<close>, \<open>Patch_Roundtrip\<close>, \<open>Patch_Replace\<close>, \<open>File_System\<close>, \<open>Patch_Apply\<close>: the crate
    \<^verbatim>\<open>apply-patch\<close> (\<^verbatim>\<open>seek_sequence.rs\<close>, \<^verbatim>\<open>parser.rs\<close>, \<^verbatim>\<open>lib.rs\<close>).  Four-level line search, the grammar with its lenient
    mode, computation of replacements, and application over an explicit file store.
  \<^item> \<open>Exec_Policy\<close>, \<open>Policy_Parser\<close>, \<open>Policy_Amend\<close>: the crate \<^verbatim>\<open>exec-policy\<close>.  Prefix rules keyed by program, their
    evaluation over several commands, the builtins of the rule language, and editing of rule files.
  \<^item> \<open>Shell_Commands\<close>, \<open>Command_Safety\<close>: \<^verbatim>\<open>core/src/commands\<close>.  Acceptance of word-only scripts over the syntax tree the
    grammar library returns, and the classifiers of safe and dangerous commands.
  \<^item> \<open>Approval_Policy\<close>, \<open>Policy_Manager\<close>: \<^verbatim>\<open>core/src/exec_policy.rs\<close>.  Requirements, proposed amendments, and the
    loading of rule files with managed requirements.
  \<^item> \<open>Tool_Orchestrator\<close>: \<^verbatim>\<open>core/src/tools\<close>.  The approval cache, the first attempt, the retry, and the three
    runtimes for shell, unified exec and patches.
  \<^item> \<open>Patch_Safety\<close>, \<open>Patch_Invocation\<close>: \<^verbatim>\<open>core/src/safety.rs\<close> with the writable roots of the session policy, and
    \<^verbatim>\<open>apply-patch/src/invocation.rs\<close> with \<^verbatim>\<open>core/src/apply_patch.rs\<close>: recognising a patch in a command, verifying it against
    the files, and deciding how it is run.
  \<^item> \<open>Head_Tail_Buffer\<close>, \<open>Truncate\<close>, \<open>Tagged_Blocks\<close>: \<^verbatim>\<open>unified_exec/head_tail_buffer.rs\<close>, \<^verbatim>\<open>truncate.rs\<close> and
    \<^verbatim>\<open>tagged_block_parser.rs\<close> of \<^verbatim>\<open>core\<close>.
  \<^item> \<open>Context_History\<close>, \<open>History_Invariants\<close>: \<^verbatim>\<open>core/src/context_manager\<close>, the transcript and its token accounts.
  \<^item> \<open>Spawn_Guards\<close>: \<^verbatim>\<open>core/src/agent/guards.rs\<close>, the atomic counter as an interleaving of its single accesses.
  \<^item> \<open>Ip_Addresses\<close>, \<open>Domain_Policy\<close>, \<open>Network_Config\<close>, \<open>Network_Runtime\<close>, \<open>Network_Handlers\<close>: the crate \<^verbatim>\<open>network-proxy\<close>.  Address
    literals and classification, hosts and domain patterns, listeners and managed constraints, decisions
    and reloads, and the handlers for CONNECT, SOCKS5 and plain HTTP.
  \<^item> \<open>Ssrf_Guard\<close>, \<open>Rate_Limiter\<close>: \<^verbatim>\<open>ssrf.rs\<close> and \<^verbatim>\<open>rate_limit.rs\<close> of \<^verbatim>\<open>gateway-server/src/security\<close>.  Checked addresses with
    pinned clients and the redirect loop; the buckets per address and token, and the connection counts.
  \<^item> \<open>Execution_Security\<close>: \<^verbatim>\<open>execution_policy.rs\<close> and \<^verbatim>\<open>path_safety.rs\<close> there, with the policies of \<^verbatim>\<open>gateway-shared/src/agents.rs\<close>:
    from the file of an agent to the policies its requests run under.
  \<^item> \<open>Approval_Store\<close>, \<open>Approval_Coordinator\<close>: \<^verbatim>\<open>gateway-server/src/exec_approval.rs\<close> and \<^verbatim>\<open>approval_coordinator.rs\<close>.  The file of
    waiting and settled requests with its handlers, and the table that routes an answer to the session that asked.
  \<^item> \<open>Managed_Requirements\<close>: \<^verbatim>\<open>constraint.rs\<close> of the crate \<^verbatim>\<open>config\<close>, the requirements of \<^verbatim>\<open>core/src/config_loader\<close>, and the
    list of tool servers.
  \<^item> \<open>Config_Layers\<close>, \<open>Project_Config\<close>: \<^verbatim>\<open>merge.rs\<close>, \<^verbatim>\<open>overrides.rs\<close> and \<^verbatim>\<open>fingerprint.rs\<close> of \<^verbatim>\<open>config\<close>, \<^verbatim>\<open>state.rs\<close> and \<^verbatim>\<open>mod.rs\<close> of
    \<^verbatim>\<open>core/src/config_loader\<close>.  Merging and overriding, the stack of layers, and loading with project trust.
  \<^item> \<open>Config_Edit\<close>, \<open>Config_Service\<close>: \<^verbatim>\<open>edit.rs\<close> and \<^verbatim>\<open>service.rs\<close> of \<^verbatim>\<open>core/src/config\<close>, \<^verbatim>\<open>path_utils.rs\<close>.  Edits of the configuration
    document, the symbolic links on the way to it, and the writes of clients with versions and validation.
  \<^item> \<open>File_Tools\<close>, \<open>Dir_Listing\<close>: \<^verbatim>\<open>external_content.rs\<close>, \<^verbatim>\<open>tools/handlers/read_file.rs\<close> and \<^verbatim>\<open>list_dir.rs\<close> of \<^verbatim>\<open>core\<close>.  Slices and
    indentation blocks of a file, pages of a directory tree, and the envelope around text from outside.
  \<^item> \<open>Message_Chunks\<close>, \<open>Message_Delivery\<close>: \<^verbatim>\<open>response_chunker.rs\<close>, \<^verbatim>\<open>send_policy.rs\<close> and \<^verbatim>\<open>channels/runtime/delivery.rs\<close> of
    \<^verbatim>\<open>gateway-server\<close>.  Splitting of a reply at the limits of a platform, and sending with retries.
  \<^item> \<open>Channel_Coordinator\<close>, \<open>Channel_Trigger\<close>: \<^verbatim>\<open>coordinator.rs\<close> and \<^verbatim>\<open>trigger.rs\<close> of \<^verbatim>\<open>channels/runtime\<close> there, \<^verbatim>\<open>runtime/agent_routing.rs\<close>
    and the decision in \<^verbatim>\<open>channels/runtime.rs\<close>.  The actors of the conversations, and which agent answers which message.

  \<^bold>\<open>How the code is modelled.\<close>  A struct is a record, an enum a datatype, a fallible function returns a result or
  an option; where the code can panic on an index or a slice, the model returns \<^const>\<open>None\<close>, and the claims say that
  it does not.  State is passed explicitly.  Loops are recursive functions that are total, so no fuel is used
  anywhere, but for four that could repeat without bound: the change of the network mode is two steps of a
  relation, and following symbolic links (\<open>Config_Edit\<close>) and the two loops that split a message (\<open>Message_Chunks\<close>)
  are partial functions, where \<^const>\<open>None\<close> is a loop that does not return and a claim says that it does.  Integers that can overflow are words or saturate as in the source.  Concurrent
  code is a step relation over its atomic accesses or the regions under a lock (\<open>Spawn_Guards\<close>, \<open>Network_Handlers\<close>,
  \<open>Approval_Store\<close>, \<open>Approval_Coordinator\<close>, \<open>Channel_Coordinator\<close>).  The redirect loop of the outbound guard recurses on the requests that
  are left, as its counter does.

  \<^bold>\<open>Parameters.\<close>  The shell grammar, the PowerShell parser, the Starlark evaluator's values, word joining,
  JSON, the glob crate and the URL crate, name resolution, HTTP, the file system, clocks, random identifiers and
  nonces, the redaction of secrets, the parsers of configuration files and the typed configuration, the git root
  of a directory, hashes, the user's answers and the process launcher, the links of a disk, the decoding of bytes, the regular expressions
  for suspicious lines and the sending of a message by a platform are arguments of the definitions.  What a
  claim relies on is a hypothesis of its own (\<open>glob_documented\<close>, \<open>url_keeps\<close>, \<open>url_reparses\<close>, \<open>unique_keys\<close>, \<open>tables_only\<close>),
  and its witness has a concrete instance.

  \<^bold>\<open>Interfaces.\<close>  \<open>file_system\<close> states what reading, writing and removing promise, and the frame of a patch is proved
  from it; \<open>policy_files\<close> does the same for rule files.  \<open>rule_matcher\<close> is what the evaluation of several commands
  asks of the policy.  \<open>approving_runtime\<close> is the contract of a tool runtime; it is interpreted on the shell, the
  unified exec and the patch runtime, and the guarantees of the orchestrator are proved once in it.
  \<open>stream_buffer\<close> is the contract of an output buffer, \<open>coarser_key\<close> orders the levels of the line search.
  \<open>managed_setting\<close> is what setting a constrained value promises, \<open>bucket_table\<close> what one check of the rate limiter does
  to its table, and \<open>overlaying\<close> what merging one configuration over another says about each path.

  \<^bold>\<open>What is shown.\<close>  Safety of the path from policy to sandbox (C1 to C3, the claims of \<open>Approval_Policy\<close>,
  \<open>Policy_Manager\<close>, \<open>Tool_Orchestrator\<close> and \<open>Patch_Safety\<close>); the patch format round trip, the effect and the frame of a
  patch, and that a verified patch applied without asking stays inside the writable roots; evaluation, lookup and amendment of rules; refinement of the streaming buffer and of the tagged
  text by what they mean on the whole stream; pairing of calls and outputs in every transcript that is sent;
  limits under all interleavings; and for the network, that a tunnel reaches only checked addresses, that a
  managed allowlist bounds the user's, that managed constraints hold in every reachable state, and that
  listeners stay on the machine.  For the gateway, that a decision reaches the engine at most once and only from
  where it was asked for, that what is offered is accepted, that an approval is recorded only with its nonce, that
  grants stay within the rules and a broken agent file closes down, that fetches end and reach no private address,
  and how many requests pass a limit.  For the configuration, that every path has the value of the highest layer
  that speaks about it, that requirements bind all later changes, that a repository cannot set where
  credentials go nor be heard untrusted, and that a change of the file is validated, made on the version that
  was read, and leaves the other settings alone.  For the file tools, that their loops give the page or the slice
  of the whole file or tree, and a bounded block.  For conversations, that the work of the gateway stays within
  its limits and all accepted work is done under every interleaving, that replies are split within the limit of
  the platform and delivered in order, that the most specific rule routes a message, and when it is answered.  Lemmas beside the claims record where the code does less than it means
  to; they are listed with the findings of the development.

  \<^bold>\<open>Not modelled.\<close>  The event loop of a session, the sandbox back ends, the servers, platform clients and interfaces of
  the gateway, and the clients of services are I/O around third-party crates.  Of the configuration, the macOS
  preferences, the positions in diagnostics, the typed settings, the comments of a document and reading through
  the service are left out; of the gateway's security, the
  authentication, the redaction and the audit; of its channels, the answers after a time of silence, the commands in
  chats and the files of messages put aside.  The Windows list of dangerous commands is compiled on Windows
  only, and the model is the Linux build.
\<close>

section \<open>From the policy to the sandbox\<close>

text \<open>
  C2.  Policy, approval and execution together, for the shell tool under a restricting sandbox policy.
  If a call reaches a run outside the sandbox that no granted question precedes, then the approval
  requirement was to skip, and every plain command of the script had been cleared: all rules that match it
  allow it, and an unmatched one is known safe, or not dangerous and not under \<^verbatim>\<open>UnlessTrusted\<close>.  Moreover
  some command is matched by an allow rule, or the model asked for escalated permissions and every
  unmatched command is known safe unless the session never asks before running.
\<close>

theorem unasked_unsandboxed_shell_is_cleared:
  assumes "approval_for ps_ast parse join p areq = Some requirement"
    and "sr_requirement req = requirement" "sr_permissions req = req_permissions areq"
    and "orchestrator_run (shell_runtime ser ask exec req) (req_sandbox areq) level (req_approval areq) w = (w', evs, r)"
    and "\<not> has_full_disk_write_access (req_sandbox areq)" "\<not> guarded False evs"
  shows "(\<forall>cmd \<in> set (request_commands parse (req_command areq)).
      (\<forall>m \<in> set (rule_hits p cmd). match_decision m = Allow) \<and>
      (rule_hits p cmd = [] \<longrightarrow> is_known_safe_command ps_ast parse cmd \<or>
         \<not> command_might_be_dangerous parse cmd \<and> req_approval areq \<noteq> UnlessTrusted)) \<and>
    ((\<exists>cmd \<in> set (request_commands parse (req_command areq)). \<exists>m \<in> set (rule_hits p cmd). match_decision m = Allow) \<or>
     req_permissions areq \<noteq> UseDefault \<and>
     (\<forall>cmd \<in> set (request_commands parse (req_command areq)). rule_hits p cmd = [] \<longrightarrow>
        is_known_safe_command ps_ast parse cmd \<or> req_approval areq \<in> {Never, OnFailure}))"
proof -
  have requirement: "rt_exec_approval_requirement (shell_runtime ser ask exec req) = Some requirement"
    and mode: "rt_sandbox_mode_for_first_attempt (shell_runtime ser ask exec req) =
      shell_sandbox_mode (req_permissions areq) requirement"
    by (simp_all add: shell_runtime_def assms(2,3))
  have "(\<exists>bypass am. requirement = Skip bypass am) \<and>
      shell_sandbox_mode (req_permissions areq) requirement = BypassSandboxFirstAttempt"
    unfolding mode [symmetric] by (rule shell.run_guarded_unless_skip [OF assms(4,5) requirement assms(6)])
  then obtain bypass am where skip: "requirement = Skip bypass am"
      "shell_sandbox_mode (req_permissions areq) requirement = BypassSandboxFirstAttempt" by blast
  then have escalated: "bypass \<or> req_permissions areq \<noteq> UseDefault"
    by (cases "req_permissions areq") (simp_all add: shell_sandbox_mode_def requires_escalated_permissions_def split: if_splits)
  note cleared = skip_cleared [OF assms(1) [unfolded skip(1)]]
  show ?thesis
  proof (intro conjI ballI)
    fix cmd assume "cmd \<in> set (request_commands parse (req_command areq))"
    from cleared [OF this]
    show "\<And>m. m \<in> set (rule_hits p cmd) \<Longrightarrow> match_decision m = Allow"
      and "rule_hits p cmd = [] \<longrightarrow> is_known_safe_command ps_ast parse cmd \<or>
        \<not> command_might_be_dangerous parse cmd \<and> req_approval areq \<noteq> UnlessTrusted"
      by blast+
  next
    show "(\<exists>cmd \<in> set (request_commands parse (req_command areq)). \<exists>m \<in> set (rule_hits p cmd). match_decision m = Allow) \<or>
      req_permissions areq \<noteq> UseDefault \<and>
      (\<forall>cmd \<in> set (request_commands parse (req_command areq)). rule_hits p cmd = [] \<longrightarrow>
         is_known_safe_command ps_ast parse cmd \<or> req_approval areq \<in> {Never, OnFailure})"
    proof (cases bypass)
      case True
      with assms(1) skip(1) have "approval_for ps_ast parse join p areq = Some (Skip True am)" by simp
      from bypass_needs_allow_rule [OF this] show ?thesis ..
    next
      case False
      with escalated cleared assms(5) show ?thesis by blast
    qed
  qed
qed

theorem unasked_unsandboxed_shell_is_cleared_witness:
  "\<exists>am w' evs r.
     orchestrator_run (shell_runtime (\<lambda>_. None) (\<lambda>w _. (w, Denied)) (\<lambda>w _. (w, Ok ()))
        \<lparr>sr_command = [lit ''git'', lit ''push''], sr_cwd = [], sr_permissions = UseDefault, sr_justification = None,
         sr_requirement = Skip True am\<rparr>) ReadOnly Disabled UnlessTrusted ((), \<lparr>approvals = Map.empty\<rparr>) = (w', evs, r) \<and>
     evs = [Attempted NoSandbox] \<and>
     (\<exists>cmd. \<exists>m \<in> set (rule_hits allow_git cmd). match_decision m = Allow)"
proof -
  let ?areq = "demo_request UnlessTrusted [lit ''git'', lit ''push'']"
  obtain am where skip: "approval_for no_ps no_shell (\<lambda>_. None) allow_git ?areq = Some (Skip True am)"
    using git_allowed [of "[lit ''push'']"]
    by (simp add: create_exec_approval_requirement_for_command_def request_commands_def demo_request_def
        not_shell_form check_multiple_def matches_cases from_matches_def requirement_of_evaluation_def Let_def
        del: lit_Cons)
  let ?req = "\<lparr>sr_command = [lit ''git'', lit ''push''], sr_cwd = [], sr_permissions = UseDefault,
      sr_justification = None, sr_requirement = Skip True am\<rparr>"
  let ?rt = "shell_runtime (\<lambda>_. None) (\<lambda>w _. (w, Denied)) (\<lambda>w _. (w, Ok ())) ?req"
  obtain w' r where run: "orchestrator_run ?rt ReadOnly Disabled UnlessTrusted ((), \<lparr>approvals = Map.empty\<rparr>) =
      (w', [Attempted NoSandbox], r)"
    by (simp add: orchestrator_run_def attempt_phase_def shell_runtime_def shell_sandbox_mode_def Let_def
        del: lit_Cons)
  have dr: "req_sandbox ?areq = ReadOnly" "req_approval ?areq = UnlessTrusted" "req_permissions ?areq = UseDefault"
    by (simp_all add: demo_request_def)
  have "\<exists>cmd \<in> set (request_commands no_shell (req_command ?areq)). \<exists>m \<in> set (rule_hits allow_git cmd). match_decision m = Allow"
    using unasked_unsandboxed_shell_is_cleared [OF skip, of ?req "\<lambda>_. None" "\<lambda>w _. (w, Denied)" "\<lambda>w _. (w, Ok ())"
        Disabled "((), \<lparr>approvals = Map.empty\<rparr>)" w' "[Attempted NoSandbox]" r] run
    by (simp add: dr del: lit_Cons) blast
  with run show ?thesis by blast
qed

end
